(* ===== verification/Kernel_Prelude.thy ===== *)
theory Kernel_Prelude
  imports Main "HOL-Library.Word" "HOL-Library.Monad_Syntax"
begin

text \<open>
  Shared vocabulary of the development: the machine integer types of the C sources, the
  fact collections the component proofs use, and generic lemmas on words, bytes and lists.

  Convention for control flow: a function that may fail to return (it reaches
  \<open>hcf()\<close>, faults, or loops forever) has an \<open>option\<close> result and \<open>None\<close> means that
  control never comes back to the caller.  A C function that returns an error code or a
  null pointer returns that value here too.
\<close>

unbundle bit_operations_syntax

type_synonym u8 = "8 word"
type_synonym u16 = "16 word"
type_synonym u32 = "32 word"
type_synonym u64 = "64 word"

type_synonym addr = "64 word"

abbreviation NULL :: addr where
  "NULL \<equiv> 0"

named_theorems kernel_defs \<open>unfolding rules for the operations of the components\<close>
named_theorems word_arith \<open>facts that move word arithmetic to natural numbers\<close>

section \<open>Words\<close>

lemma unat_plus_no_overflow [word_arith]:
  fixes a b :: "'a::len word"
  assumes "unat a + unat b < 2 ^ LENGTH('a)"
  shows "unat (a + b) = unat a + unat b"
  using assms by (simp add: unat_word_ariths)

lemma unat_minus_no_underflow [word_arith]:
  fixes a b :: "'a::len word"
  assumes "b \<le> a"
  shows "unat (a - b) = unat a - unat b"
  using assms by (simp add: unat_sub)

lemma unat_of_nat_small [word_arith]:
  assumes "n < 2 ^ LENGTH('a)"
  shows "unat (of_nat n :: 'a::len word) = n"
  using assms by (simp add: unat_of_nat)

lemma unat_ucast_mod [word_arith]:
  "unat (ucast (w :: 'a::len word) :: 'b::len word) = unat w mod 2 ^ LENGTH('b)"
  by (simp add: unsigned_ucast_eq take_bit_eq_mod)

lemma word_nat_of_unat: "unat (w :: 'a::len word) = n \<Longrightarrow> w = of_nat n"
  by auto

lemma u64_of_nat_inj:
  assumes "(of_nat m :: u64) = of_nat n" "m < 2 ^ 64" "n < 2 ^ 64"
  shows "m = n"
proof -
  have "unat (of_nat m :: u64) = unat (of_nat n :: u64)" using assms(1) by simp
  then show ?thesis using assms(2,3) by (simp add: unat_of_nat)
qed

lemma u64_eqI: "(\<And>n. n < 64 \<Longrightarrow> bit a n = bit b n) \<Longrightarrow> a = (b :: u64)"
  by (rule bit_word_eqI) simp

lemma u64_bit_less: "bit (a :: u64) n \<Longrightarrow> n < 64"
  using bit_imp_le_length [of a n] by simp

lemma u64_eq_iff: "a = (b :: u64) \<longleftrightarrow> (\<forall>n. bit a n = bit b n)"
  by (auto intro: u64_eqI)

lemma u64_bit_mask: "bit (mask k :: u64) n \<longleftrightarrow> n < 64 \<and> n < k"
  by (auto simp: bit_mask_iff)

lemma u64_and_not_or_and: "(v AND NOT m) OR (v AND m) = (v :: u64)"
  unfolding u64_eq_iff bit_or_iff bit_and_iff bit_not_iff by (auto dest: u64_bit_less)

lemma unat_and_not_mask: "unat (x AND NOT (mask n) :: u64) = unat x - unat x mod 2 ^ n"
proof -
  have "x = (x AND NOT (mask n)) + (x AND mask n)"
    by (subst disjunctive_add) (auto simp: u64_and_not_or_and bit_and_iff bit_not_iff)
  then have eq: "x AND NOT (mask n) = x - take_bit n x" by (simp add: take_bit_eq_mask eq_diff_eq)
  have u: "unat (take_bit n x) = unat x mod 2 ^ n"
    by (simp only: unsigned_take_bit_eq) (simp only: take_bit_eq_mod)
  have "take_bit n x \<le> x" unfolding word_le_nat_alt u by (rule mod_less_eq_dividend)
  then show ?thesis unfolding eq using u by (simp add: unat_sub)
qed

text \<open>A page-aligned address plus an offset below the page size determines both.\<close>

lemma page_offset_unique:
  fixes a b x y :: nat
  assumes "a mod 4096 = 0" "b mod 4096 = 0" "x < 4096" "y < 4096" "a + x = b + y"
  shows "a = b \<and> x = y"
proof -
  obtain q r where q: "a = 4096 * q" and r: "b = 4096 * r"
    using assms(1,2) by (metis mod_0_imp_dvd dvdE)
  have "(4096 * q + x) div 4096 = (4096 * r + y) div 4096" using assms(5) q r by simp
  then have "q = r" using assms(3,4) by simp
  then show ?thesis using assms(5) q r by simp
qed

lemma page_below:
  fixes a b :: nat
  assumes "a mod 4096 = 0" "b mod 4096 = 0" "a < b"
  shows "a + 4096 \<le> b"
proof -
  obtain q r where q: "a = 4096 * q" and r: "b = 4096 * r"
    using assms(1,2) by (metis mod_0_imp_dvd dvdE)
  then show ?thesis using assms(3) by simp
qed

section \<open>Lists\<close>

lemma find_upt_Some:
  "find P [0..<n] = Some i \<longleftrightarrow> i < n \<and> P i \<and> (\<forall>j < i. \<not> P j)"
proof -
  have "find P [0..<n] = Some i \<longleftrightarrow>
      (\<exists>k < n. k = i \<and> P i \<and> (\<forall>j < k. \<not> P ([0..<n] ! j)))"
    by (auto simp: find_Some_iff)
  also have "\<dots> \<longleftrightarrow> i < n \<and> P i \<and> (\<forall>j < i. \<not> P j)" by auto
  finally show ?thesis .
qed

lemma find_upt_None: "find P [0..<n] = None \<longleftrightarrow> (\<forall>i < n. \<not> P i)"
  by (auto simp: find_None_iff)

text \<open>A field of a word, moved out into a narrower word and back.\<close>

lemma bit_field:
  fixes a :: u64
  assumes "k + LENGTH('b) \<le> 64"
  shows "bit (push_bit k (ucast (ucast (drop_bit k a AND mask LENGTH('b)) :: 'b::len word)) :: u64) n \<longleftrightarrow>
    k \<le> n \<and> n < k + LENGTH('b) \<and> bit a n"
  using assms by (auto simp: bit_simps dest: u64_bit_less)

end
