(* ===== verification/Ports.thy ===== *)
theory Ports
  imports Kernel_Prelude
begin

text \<open>
  The processor as the C sources see it through inline assembly: the interrupt flag
  (\<open>asm.h\<close>, \<open>hcf.c\<close>) and the I/O ports (\<open>io.h\<close>).

  The devices behind the ports are hardware.  They are a parameter of the state: what a
  read of a port returns is a function of the port accesses made before it.  Every access
  is recorded, in order, in \<open>io_trace\<close>.
\<close>

datatype io_event =
    Inb u16 u8 | Outb u16 u8
  | Inw u16 u16 | Outw u16 u16
  | Inl u16 u32 | Outl u16 u32

record cpu_state =
  interrupt_flag :: bool
  io_trace :: "io_event list"
  io_in8 :: "io_event list \<Rightarrow> u16 \<Rightarrow> u8"
  io_in16 :: "io_event list \<Rightarrow> u16 \<Rightarrow> u16"
  io_in32 :: "io_event list \<Rightarrow> u16 \<Rightarrow> u32"

section \<open>Port access\<close>

definition inb :: "u16 \<Rightarrow> 'a cpu_state_scheme \<Rightarrow> u8 \<times> 'a cpu_state_scheme" where
  "inb port s = (let d = io_in8 s (io_trace s) port in (d, s\<lparr>io_trace := io_trace s @ [Inb port d]\<rparr>))"

definition outb :: "u16 \<Rightarrow> u8 \<Rightarrow> 'a cpu_state_scheme \<Rightarrow> 'a cpu_state_scheme" where
  "outb port d s = s\<lparr>io_trace := io_trace s @ [Outb port d]\<rparr>"

definition inw :: "u16 \<Rightarrow> 'a cpu_state_scheme \<Rightarrow> u16 \<times> 'a cpu_state_scheme" where
  "inw port s = (let d = io_in16 s (io_trace s) port in (d, s\<lparr>io_trace := io_trace s @ [Inw port d]\<rparr>))"

definition outw :: "u16 \<Rightarrow> u16 \<Rightarrow> 'a cpu_state_scheme \<Rightarrow> 'a cpu_state_scheme" where
  "outw port d s = s\<lparr>io_trace := io_trace s @ [Outw port d]\<rparr>"

definition inl :: "u16 \<Rightarrow> 'a cpu_state_scheme \<Rightarrow> u32 \<times> 'a cpu_state_scheme" where
  "inl port s = (let d = io_in32 s (io_trace s) port in (d, s\<lparr>io_trace := io_trace s @ [Inl port d]\<rparr>))"

definition outl :: "u16 \<Rightarrow> u32 \<Rightarrow> 'a cpu_state_scheme \<Rightarrow> 'a cpu_state_scheme" where
  "outl port d s = s\<lparr>io_trace := io_trace s @ [Outl port d]\<rparr>"

lemmas port_defs = inb_def outb_def inw_def outw_def inl_def outl_def Let_def

section \<open>Interrupts and halting\<close>

definition disable_interrupt :: "'a cpu_state_scheme \<Rightarrow> 'a cpu_state_scheme" where
  "disable_interrupt s = s\<lparr>interrupt_flag := False\<rparr>"

definition enable_interrupt :: "'a cpu_state_scheme \<Rightarrow> 'a cpu_state_scheme" where
  "enable_interrupt s = s\<lparr>interrupt_flag := True\<rparr>"

text \<open>The flags register is read from the processor; only bit 9 of it is modelled.\<close>

definition have_interrupt :: "'a cpu_state_scheme \<Rightarrow> bool" where
  "have_interrupt s = interrupt_flag s"

text \<open>\<open>halt()\<close> is the empty infinite loop, and \<open>hcf\<close> enters it with interrupts off: control never
  comes back.\<close>

definition hcf :: "'a cpu_state_scheme \<Rightarrow> 'b option" where
  "hcf s = (let s = disable_interrupt s in None)"

lemma hcf_None [simp]: "hcf s = None"
  by (simp add: hcf_def)

text \<open>The writes of a trace, in order: what the devices were programmed with.\<close>

fun writes :: "io_event list \<Rightarrow> (u16 \<times> u8) list" where
  "writes [] = []"
| "writes (Outb p d # es) = (p, d) # writes es"
| "writes (_ # es) = writes es"

lemma writes_append [simp]: "writes (es @ fs) = writes es @ writes fs"
  by (induction es rule: writes.induct) auto

lemma io_trace_outb [simp]: "io_trace (outb p d s) = io_trace s @ [Outb p d]"
  by (simp add: outb_def)

lemma io_device_outb [simp]: "io_in8 (outb p d s) = io_in8 s"
  by (simp add: outb_def)

lemma io_trace_inb [simp]: "io_trace (snd (inb p s)) = io_trace s @ [Inb p (fst (inb p s))]"
  by (simp add: inb_def Let_def)

lemma io_device_inb [simp]: "io_in8 (snd (inb p s)) = io_in8 s"
  by (simp add: inb_def Let_def)

text \<open>A processor with interrupts off and devices that answer a fixed byte.\<close>

definition cpu_example :: "u8 \<Rightarrow> cpu_state" where
  "cpu_example b = \<lparr>interrupt_flag = False, io_trace = [], io_in8 = (\<lambda>_ _. b),
     io_in16 = (\<lambda>_ _. 0), io_in32 = (\<lambda>_ _. 0)\<rparr>"

end
