(* ===== verification/Console.thy ===== *)
theory Console
  imports Ports
begin

text \<open>
  The kernel's message transcript.  Every component prints through \<open>kprintf\<close>, \<open>kok\<close> and
  \<open>kerror\<close>; at this level a print is one event of a transcript, in the order the calls
  happen, together with the foreground colour changes \<open>kok\<close> and \<open>kerror\<close> make.
  The state record is extended by the components above, which is how the C globals of
  one module are visible to the modules that call it.
\<close>

datatype console_event = Print string | SetFg u32

record console = cpu_state +
  kout :: "console_event list"

definition COLOR_BLACK :: u32 where "COLOR_BLACK = 0x000000"
definition COLOR_WHITE :: u32 where "COLOR_WHITE = 0xFFFFFF"
definition COLOR_RED :: u32 where "COLOR_RED = 0xFF00000"
definition COLOR_GREEN :: u32 where "COLOR_GREEN = 0x00FF00"

definition emit :: "console_event \<Rightarrow> 'a console_scheme \<Rightarrow> 'a console_scheme" where
  "emit e s = s\<lparr>kout := kout s @ [e]\<rparr>"

definition kprint :: "string \<Rightarrow> 'a console_scheme \<Rightarrow> 'a console_scheme" where
  "kprint msg = emit (Print msg)"

definition kok :: "'a console_scheme \<Rightarrow> 'a console_scheme" where
  "kok s = emit (SetFg COLOR_WHITE) (kprint (''OK'' @ [CHR 10]) (emit (SetFg COLOR_GREEN) s))"

definition kerror :: "string \<Rightarrow> 'a console_scheme \<Rightarrow> 'a console_scheme" where
  "kerror msg s = emit (SetFg COLOR_WHITE)
     (kprint (''Error: '' @ msg @ [CHR 10]) (emit (SetFg COLOR_RED) s))"

lemmas console_defs = emit_def kprint_def kok_def kerror_def

lemma kout_kok [simp]:
  "kout (kok s) = kout s @ [SetFg COLOR_GREEN, Print (''OK'' @ [CHR 10]), SetFg COLOR_WHITE]"
  by (simp add: console_defs)

lemma kout_kerror [simp]:
  "kout (kerror m s) =
     kout s @ [SetFg COLOR_RED, Print (''Error: '' @ m @ [CHR 10]), SetFg COLOR_WHITE]"
  by (simp add: console_defs)

lemma kout_kprint [simp]: "kout (kprint m s) = kout s @ [Print m]"
  by (simp add: console_defs)

lemma console_more [simp]:
  "console.more (kok s) = console.more s"
  "console.more (kerror m s) = console.more s"
  "console.more (kprint m s) = console.more s"
  by (simp_all add: console_defs)

end
