(* ===== verification/Mmu.thy ===== *)
theory Mmu
  imports Console
begin

text \<open>
  The boot memory map (\<open>mem/mmu/mmu.c\<close>): the Limine map entries, \<open>init_mmu\<close> and the
  search for the biggest usable region.
\<close>

record limine_memmap_entry =
  me_base :: u64
  me_length :: u64
  me_type :: u64

definition LIMINE_MEMMAP_USABLE :: u64 where "LIMINE_MEMMAP_USABLE = 0"

record mmu_state = console +
  g_hhdm_offset :: u64
  g_memmap :: "limine_memmap_entry list option"

definition init_mmu ::
  "limine_memmap_entry list option \<Rightarrow> 'a mmu_state_scheme \<Rightarrow> 'a mmu_state_scheme option" where
  "init_mmu response s =
     (let s = kprint ''MMU...'' s;
          s = s\<lparr>g_memmap := response\<rparr>
      in if g_memmap s = None
         then (let s = kerror ''No MMU provided'' s in None)
         else Some (kok s))"

fun find_biggest ::
  "limine_memmap_entry option \<Rightarrow> limine_memmap_entry list \<Rightarrow> limine_memmap_entry option" where
  "find_biggest biggest [] = biggest"
| "find_biggest biggest (entry # es) =
     (if me_type entry \<noteq> LIMINE_MEMMAP_USABLE then find_biggest biggest es
      else if (case biggest of None \<Rightarrow> True | Some b \<Rightarrow> me_length b < me_length entry)
      then find_biggest (Some entry) es
      else find_biggest biggest es)"

text \<open>\<open>None\<close> is the dereference of a null map; otherwise the result pointer, null as \<open>None\<close>.\<close>

definition memmap_find_biggest_region ::
  "'a mmu_state_scheme \<Rightarrow> limine_memmap_entry option option" where
  "memmap_find_biggest_region s =
     (case g_memmap s of None \<Rightarrow> None | Some es \<Rightarrow> Some (find_biggest None es))"

section \<open>The search returns the first longest usable entry\<close>

definition usable :: "limine_memmap_entry \<Rightarrow> bool" where
  "usable e \<longleftrightarrow> me_type e = LIMINE_MEMMAP_USABLE"

lemma find_biggest_cases:
  "find_biggest b es = b \<and>
     (\<forall>e \<in> set es. usable e \<longrightarrow> (\<exists>x. b = Some x \<and> me_length e \<le> me_length x)) \<or>
   (\<exists>i < length es. find_biggest b es = Some (es ! i) \<and> usable (es ! i) \<and>
     (\<forall>x. b = Some x \<longrightarrow> me_length x < me_length (es ! i)) \<and>
     (\<forall>j < length es. usable (es ! j) \<longrightarrow> me_length (es ! j) \<le> me_length (es ! i)) \<and>
     (\<forall>j < i. usable (es ! j) \<longrightarrow> me_length (es ! j) < me_length (es ! i)))"
  (is "?A b es \<or> ?B b es")
proof (induction es arbitrary: b)
  case Nil
  show ?case by simp
next
  case (Cons e es)
  have lift: "?B b (e # es)"
    if "?B c es" and "find_biggest b (e # es) = find_biggest c es"
      and "usable e \<Longrightarrow> \<exists>x. c = Some x \<and> me_length e \<le> me_length x"
      and "\<And>x. b = Some x \<Longrightarrow> \<exists>y. c = Some y \<and> me_length x \<le> me_length y" for c
  proof -
    from that(1) obtain i where i: "i < length es" "find_biggest c es = Some (es ! i)"
      "usable (es ! i)" "\<forall>x. c = Some x \<longrightarrow> me_length x < me_length (es ! i)"
      "\<forall>j < length es. usable (es ! j) \<longrightarrow> me_length (es ! j) \<le> me_length (es ! i)"
      "\<forall>j < i. usable (es ! j) \<longrightarrow> me_length (es ! j) < me_length (es ! i)"
      by auto
    have e: "me_length e < me_length (es ! i)" if "usable e"
      using \<open>usable e \<Longrightarrow> _\<close> i(4) that by fastforce
    have b: "me_length x < me_length (es ! i)" if "b = Some x" for x
      using \<open>\<And>x. b = Some x \<Longrightarrow> _\<close> [OF that] i(4) by fastforce
    have "\<forall>j < length (e # es). usable ((e # es) ! j) \<longrightarrow>
        me_length ((e # es) ! j) \<le> me_length ((e # es) ! Suc i)"
      using e i(5) by (auto simp: nth_Cons split: nat.splits intro: order_less_imp_le)
    moreover have "\<forall>j < Suc i. usable ((e # es) ! j) \<longrightarrow>
        me_length ((e # es) ! j) < me_length ((e # es) ! Suc i)"
      using e i(6) by (auto simp: nth_Cons split: nat.splits)
    ultimately show ?thesis
      using i(1-3) b that(2) by (intro exI [of _ "Suc i"]) auto
  qed
  show ?case
  proof (cases "usable e \<and> (case b of None \<Rightarrow> True | Some x \<Rightarrow> me_length x < me_length e)")
    case True
    then have eq: "find_biggest b (e # es) = find_biggest (Some e) es"
      by (auto simp: usable_def)
    from Cons.IH [of "Some e"] show ?thesis
    proof
      assume A: "?A (Some e) es"
      have "find_biggest b (e # es) = Some ((e # es) ! 0)" using A eq by simp
      moreover have "\<forall>j < length (e # es). usable ((e # es) ! j) \<longrightarrow>
          me_length ((e # es) ! j) \<le> me_length ((e # es) ! 0)"
        using A by (auto simp: nth_Cons split: nat.splits)
      ultimately have "?B b (e # es)" using True
        by (intro exI [of _ 0]) (auto split: option.splits)
      then show ?thesis ..
    next
      assume "?B (Some e) es"
      then have "?B b (e # es)"
        by (rule lift) (use True eq in \<open>auto split: option.splits\<close>)
      then show ?thesis ..
    qed
  next
    case False
    then have eq: "find_biggest b (e # es) = find_biggest b es"
      by (auto simp: usable_def split: option.splits)
    have e: "\<exists>x. b = Some x \<and> me_length e \<le> me_length x" if "usable e"
      using False that by (cases b) auto
    from Cons.IH [of b] show ?thesis
    proof
      assume "?A b es"
      then show ?thesis using e eq by auto
    next
      assume "?B b es"
      then have "?B b (e # es)" by (rule lift) (use e eq in auto)
      then show ?thesis ..
    qed
  qed
qed

lemma find_biggest_None: "find_biggest None es = None \<longleftrightarrow> (\<forall>e \<in> set es. \<not> usable e)"
  using find_biggest_cases [of None es] nth_mem by fastforce

lemma find_biggest_Some:
  assumes "find_biggest None es = Some e"
  shows "\<exists>i < length es. es ! i = e \<and> usable e \<and>
    (\<forall>j < length es. usable (es ! j) \<longrightarrow> me_length (es ! j) \<le> me_length e) \<and>
    (\<forall>j < i. usable (es ! j) \<longrightarrow> me_length (es ! j) < me_length e)"
  using find_biggest_cases [of None es] assms by auto

section \<open>Properties\<close>

text \<open>C17: \<open>memmap_find_biggest_region\<close> returns the first of the longest usable entries of the
  boot memory map, and a null pointer exactly when no entry is usable.\<close>

theorem memmap_find_biggest_region_correct:
  assumes "g_memmap s = Some es"
  shows "\<exists>r. memmap_find_biggest_region s = Some r \<and>
    (case r of
       None \<Rightarrow> (\<forall>e \<in> set es. me_type e \<noteq> LIMINE_MEMMAP_USABLE)
     | Some e \<Rightarrow> \<exists>i < length es. es ! i = e \<and> me_type e = LIMINE_MEMMAP_USABLE \<and>
         (\<forall>j < length es. me_type (es ! j) = LIMINE_MEMMAP_USABLE \<longrightarrow> me_length (es ! j) \<le> me_length e) \<and>
         (\<forall>j < i. me_type (es ! j) = LIMINE_MEMMAP_USABLE \<longrightarrow> me_length (es ! j) < me_length e))"
  using find_biggest_None [of es] find_biggest_Some [of es] assms
  by (auto simp: memmap_find_biggest_region_def usable_def split: option.splits)

definition memmap_example :: "limine_memmap_entry list" where
  "memmap_example =
     [\<lparr>me_base = 0x1000, me_length = 0x9E000, me_type = 0\<rparr>,
      \<lparr>me_base = 0xA0000, me_length = 0x60000, me_type = 1\<rparr>,
      \<lparr>me_base = 0x100000, me_length = 0x7EE0000, me_type = 0\<rparr>]"

definition mmu_example :: mmu_state where
  "mmu_example = \<lparr>interrupt_flag = False, io_trace = [], io_in8 = (\<lambda>_ _. 0),
     io_in16 = (\<lambda>_ _. 0), io_in32 = (\<lambda>_ _. 0), kout = [],
     g_hhdm_offset = 0, g_memmap = Some memmap_example\<rparr>"

theorem memmap_find_biggest_region_correct_witness:
  "memmap_find_biggest_region mmu_example =
     Some (Some \<lparr>me_base = 0x100000, me_length = 0x7EE0000, me_type = 0\<rparr>) \<and>
   (\<exists>r. memmap_find_biggest_region
      mmu_example = Some r)"
  using memmap_find_biggest_region_correct
      [of mmu_example memmap_example]
  by (auto simp: memmap_find_biggest_region_def mmu_example_def memmap_example_def LIMINE_MEMMAP_USABLE_def)

end
