(* ===== verification/Interfaces.thy ===== *)
theory Interfaces
  imports Kernel_Prelude
begin

text \<open>
  The contracts between the components, as locales: what a caller may rely on, and the
  facts that follow from the contract alone.  Each locale is interpreted on the model in
  the theory of the component that provides the operations.
\<close>

section \<open>Frame allocators\<close>

text \<open>Calling an allocator repeatedly, collecting the frames it hands out.\<close>

primrec alloc_run :: "('s \<Rightarrow> u64 \<times> 's) \<Rightarrow> nat \<Rightarrow> 's \<Rightarrow> u64 list \<times> 's" where
  "alloc_run alloc 0 s = ([], s)"
| "alloc_run alloc (Suc n) s =
     (let (f, s) = alloc s; (fs, s) = alloc_run alloc n s in (f # fs, s))"

lemma alloc_run_two:
  "alloc_run alloc 2 s = (let (f, s) = alloc s; (g, s) = alloc s in ([f, g], s))"
  by (simp add: numeral_2_eq_2 split: prod.splits)

locale frame_allocator =
  fixes alloc :: "'s \<Rightarrow> u64 \<times> 's"
    and release :: "u64 \<Rightarrow> 's \<Rightarrow> 's"
    and avail managed :: "'s \<Rightarrow> u64 set"
    and inv :: "'s \<Rightarrow> bool"
  assumes inv_alloc: "inv s \<Longrightarrow> inv (snd (alloc s))"
    and inv_release: "inv s \<Longrightarrow> inv (release f s)"
    and avail_managed: "avail s \<subseteq> managed s"
    and finite_managed: "finite (managed s)"
    and managed_alloc: "managed (snd (alloc s)) = managed s"
    and managed_release: "managed (release f s) = managed s"
    and alloc_exhausted: "inv s \<Longrightarrow> avail s = {} \<Longrightarrow> alloc s = (0, s)"
    and alloc_picks: "inv s \<Longrightarrow> avail s \<noteq> {} \<Longrightarrow>
      fst (alloc s) \<in> avail s \<and> fst (alloc s) \<noteq> 0 \<and> avail (snd (alloc s)) = avail s - {fst (alloc s)}"
    and release_avail: "inv s \<Longrightarrow> f \<in> managed s \<Longrightarrow> avail (release f s) = insert f (avail s)"
begin

lemma finite_avail: "finite (avail s)"
  using avail_managed finite_managed by (rule finite_subset)

lemma alloc_zero_iff: "inv s \<Longrightarrow> fst (alloc s) = 0 \<longleftrightarrow> avail s = {}"
  using alloc_exhausted alloc_picks by fastforce

lemma alloc_shrinks: "inv s \<Longrightarrow> avail (snd (alloc s)) = avail s - {fst (alloc s)}"
  using alloc_exhausted alloc_picks by fastforce

lemma alloc_release:
  assumes "inv s" "fst (alloc s) \<noteq> 0"
  shows "avail (release (fst (alloc s)) (snd (alloc s))) = avail s"
proof -
  have ne: "avail s \<noteq> {}" using assms alloc_zero_iff by simp
  have "fst (alloc s) \<in> managed (snd (alloc s))"
    using alloc_picks [OF assms(1) ne] avail_managed managed_alloc by blast
  then show ?thesis
    using alloc_picks [OF assms(1) ne] release_avail [OF inv_alloc [OF assms(1)]] by auto
qed

text \<open>A run of allocations never hands out a frame twice, and uses up exactly what it returns.\<close>

lemma alloc_run_fresh:
  assumes "inv s" "n \<le> card (avail s)" "alloc_run alloc n s = (fs, s')"
  shows "length fs = n \<and> distinct fs \<and> 0 \<notin> set fs \<and> set fs \<subseteq> avail s \<and>
    avail s' = avail s - set fs \<and> inv s'"
  using assms
proof (induction n arbitrary: s fs)
  case 0
  then show ?case by simp
next
  case (Suc n)
  obtain f t where ft: "alloc s = (f, t)" by (cases "alloc s")
  obtain gs where gs: "alloc_run alloc n t = (gs, s')" "fs = f # gs"
    using Suc.prems(3) ft by (auto split: prod.splits)
  have ne: "avail s \<noteq> {}" using Suc.prems(2) by auto
  have f: "f \<in> avail s" "f \<noteq> 0" "avail t = avail s - {f}"
    using alloc_picks [OF Suc.prems(1) ne] ft by auto
  have "inv t" using inv_alloc [OF Suc.prems(1)] ft by simp
  moreover have "n \<le> card (avail t)"
    using Suc.prems(2) f(1,3) finite_avail [of s] by simp
  ultimately have "length gs = n \<and> distinct gs \<and> 0 \<notin> set gs \<and> set gs \<subseteq> avail t \<and>
      avail s' = avail t - set gs \<and> inv s'"
    using gs(1) by (rule Suc.IH)
  then show ?case using f gs(2) by auto
qed

lemma alloc_run_exhausted:
  assumes "inv s" "avail s = {}"
  shows "alloc_run alloc n s = (replicate n 0, s)"
  by (induction n) (use alloc_exhausted [OF assms] in auto)

end

end
