(* ===== verification/Pmm.thy ===== *)
theory Pmm
  imports Mmu Interfaces
begin

text \<open>
  The physical page allocator (\<open>mem/pmm/pmm.c\<close>): a bitmap over the biggest usable
  region, one bit per 4 KiB page, set for pages in use.  The bitmap itself occupies the
  first pages of the region.
\<close>

record pmm_state = mmu_state +
  pmm_bitmap :: "u8 list"
  pmm_bitmap_addr :: u64
  pmm_bitmap_size :: nat
  managed_base :: u64
  total_pages :: nat

definition PAGE_SIZE :: nat where "PAGE_SIZE = 4096"

definition BIT_SET :: "u8 list \<Rightarrow> nat \<Rightarrow> u8 list" where
  "BIT_SET b i = b[i div 8 := (b ! (i div 8)) OR push_bit (i mod 8) 1]"

definition BIT_CLEAR :: "u8 list \<Rightarrow> nat \<Rightarrow> u8 list" where
  "BIT_CLEAR b i = b[i div 8 := (b ! (i div 8)) AND NOT (push_bit (i mod 8) 1)]"

definition BIT_TEST :: "u8 list \<Rightarrow> nat \<Rightarrow> bool" where
  "BIT_TEST b i \<longleftrightarrow> (b ! (i div 8)) AND push_bit (i mod 8) 1 \<noteq> 0"

definition init_pmm :: "'a pmm_state_scheme \<Rightarrow> 'a pmm_state_scheme option" where
  "init_pmm s =
     (case memmap_find_biggest_region s of
        None \<Rightarrow> None
      | Some biggest \<Rightarrow>
         (let s = kprint ''PMM...'' s in
          case biggest of
            None \<Rightarrow> (let s = kerror ''No usable region found'' s in None)
          | Some e \<Rightarrow>
             (let base = me_base e;
                  total = unat (me_length e) div PAGE_SIZE;
                  bsize = (total + 7) div 8;
                  bitmap = replicate bsize (0xFF :: u8);
                  used_pages = (bsize + PAGE_SIZE - 1) div PAGE_SIZE;
                  bitmap = fold (\<lambda>i b. BIT_CLEAR b i) [used_pages..<total] bitmap
              in Some (kok (s\<lparr>managed_base := base, total_pages := total,
                              pmm_bitmap_size := bsize,
                              pmm_bitmap_addr := g_hhdm_offset s + base,
                              pmm_bitmap := bitmap\<rparr>)))))"

definition pmm_alloc_page :: "'a pmm_state_scheme \<Rightarrow> u64 \<times> 'a pmm_state_scheme" where
  "pmm_alloc_page s =
     (case find (\<lambda>i. \<not> BIT_TEST (pmm_bitmap s) i) [0..<total_pages s] of
        Some i \<Rightarrow> (managed_base s + of_nat i * of_nat PAGE_SIZE,
                   s\<lparr>pmm_bitmap := BIT_SET (pmm_bitmap s) i\<rparr>)
      | None \<Rightarrow> (0, s))"

definition pmm_free_page :: "u64 \<Rightarrow> 'a pmm_state_scheme \<Rightarrow> 'a pmm_state_scheme" where
  "pmm_free_page physical_address s =
     (if physical_address < managed_base s then s
      else (let i = unat (physical_address - managed_base s) div PAGE_SIZE in
            if i < total_pages s then s\<lparr>pmm_bitmap := BIT_CLEAR (pmm_bitmap s) i\<rparr> else s))"

definition pmm_alloc_page_hhdm :: "'a pmm_state_scheme \<Rightarrow> u64 \<times> 'a pmm_state_scheme" where
  "pmm_alloc_page_hhdm s =
     (let (physical, s) = pmm_alloc_page s in
      if physical = 0 then (NULL, s) else (g_hhdm_offset s + physical, s))"

section \<open>The bitmap\<close>

lemma push_bit_1_bit: "bit (push_bit k (1::u8)) n \<longleftrightarrow> n = k \<and> k < 8"
  by (auto simp: bit_simps)

lemma BIT_TEST_bit: "BIT_TEST b i \<longleftrightarrow> bit (b ! (i div 8)) (i mod 8)"
proof -
  have "(x AND push_bit k 1 \<noteq> 0) \<longleftrightarrow> bit x k" if "k < 8" for x :: u8 and k
  proof -
    have "x AND push_bit k 1 = (if bit x k then push_bit k 1 else 0)"
      by (rule bit_word_eqI) (auto simp: bit_simps)
    moreover have "push_bit k (1::u8) \<noteq> 0"
      using that by (auto simp: bit_eq_iff bit_simps)
    ultimately show ?thesis by simp
  qed
  then show ?thesis by (simp add: BIT_TEST_def)
qed

lemma length_BIT [simp]: "length (BIT_SET b i) = length b" "length (BIT_CLEAR b i) = length b"
  by (simp_all add: BIT_SET_def BIT_CLEAR_def)

lemma div_mod_eq_iff: "(i::nat) div 8 = j div 8 \<and> i mod 8 = j mod 8 \<longleftrightarrow> i = j"
  by (metis div_mult_mod_eq)

lemma BIT_TEST_SET:
  assumes "i < 8 * length b"
  shows "BIT_TEST (BIT_SET b i) j \<longleftrightarrow> j = i \<or> BIT_TEST b j"
proof -
  have "i div 8 < length b" using assms by auto
  then show ?thesis
    using div_mod_eq_iff [of j i]
    by (cases "j div 8 = i div 8") (auto simp: BIT_TEST_bit BIT_SET_def bit_simps)
qed

lemma BIT_TEST_CLEAR:
  assumes "i < 8 * length b"
  shows "BIT_TEST (BIT_CLEAR b i) j \<longleftrightarrow> j \<noteq> i \<and> BIT_TEST b j"
proof -
  have "i div 8 < length b" using assms by auto
  then show ?thesis
    using div_mod_eq_iff [of j i]
    by (cases "j div 8 = i div 8") (auto simp: BIT_TEST_bit BIT_CLEAR_def bit_simps)
qed

lemma BIT_TEST_fold_CLEAR:
  assumes "\<forall>i \<in> set is. i < 8 * length b"
  shows "BIT_TEST (fold (\<lambda>i b. BIT_CLEAR b i) is b) j \<longleftrightarrow> j \<notin> set is \<and> BIT_TEST b j"
  using assms by (induction "is" arbitrary: b) (auto simp: BIT_TEST_CLEAR)

lemma length_fold_CLEAR [simp]: "length (fold (\<lambda>i b. BIT_CLEAR b i) is b) = length b"
  by (induction "is" arbitrary: b) auto

lemma BIT_TEST_full: "j < 8 * n \<Longrightarrow> BIT_TEST (replicate n 0xFF) j"
proof -
  assume "j < 8 * n"
  then have "j div 8 < n" by auto
  moreover have "bit (0xFF :: u8) (j mod 8)"
  proof -
    have "(0xFF :: u8) = mask 8" by (simp add: mask_eq_exp_minus_1)
    moreover have "bit (mask 8 :: u8) (j mod 8)"
      by (simp only: bit_mask_iff) simp
    ultimately show ?thesis by simp
  qed
  ultimately show ?thesis by (simp add: BIT_TEST_bit)
qed

section \<open>Well-formed allocator states and the set of available pages\<close>

definition pmm_wf :: "'a pmm_state_scheme \<Rightarrow> bool" where
  "pmm_wf s \<longleftrightarrow>
     length (pmm_bitmap s) = (total_pages s + 7) div 8 \<and>
     managed_base s \<noteq> 0 \<and>
     unat (managed_base s) mod PAGE_SIZE = 0 \<and>
     unat (managed_base s) + PAGE_SIZE * total_pages s \<le> 2 ^ 47"

definition page_addr :: "'a pmm_state_scheme \<Rightarrow> nat \<Rightarrow> u64" where
  "page_addr s i = managed_base s + of_nat i * of_nat PAGE_SIZE"

definition pmm_avail :: "'a pmm_state_scheme \<Rightarrow> u64 set" where
  "pmm_avail s = page_addr s ` {i. i < total_pages s \<and> \<not> BIT_TEST (pmm_bitmap s) i}"

definition pmm_managed :: "'a pmm_state_scheme \<Rightarrow> u64 set" where
  "pmm_managed s = page_addr s ` {..<total_pages s}"

lemma pmm_wf_index:
  "pmm_wf s \<Longrightarrow> i < total_pages s \<Longrightarrow> i < 8 * length (pmm_bitmap s)"
  by (auto simp: pmm_wf_def)

lemma unat_page_addr:
  assumes "pmm_wf s" "i < total_pages s"
  shows "unat (page_addr s i) = unat (managed_base s) + i * PAGE_SIZE"
proof -
  have bound: "unat (managed_base s) + i * PAGE_SIZE < 2 ^ 47"
    using assms by (auto simp: pmm_wf_def PAGE_SIZE_def)
  have "of_nat i * of_nat PAGE_SIZE = (of_nat (i * PAGE_SIZE) :: u64)" by simp
  moreover have "unat (of_nat (i * PAGE_SIZE) :: u64) = i * PAGE_SIZE"
    by (rule unat_of_nat_small) (use bound in auto)
  ultimately show ?thesis unfolding page_addr_def
    using bound by (subst unat_plus_no_overflow) auto
qed

lemma page_addr_inj:
  assumes "pmm_wf s" "i < total_pages s" "j < total_pages s"
  shows "page_addr s i = page_addr s j \<longleftrightarrow> i = j"
proof
  assume "page_addr s i = page_addr s j"
  then have "unat (page_addr s i) = unat (page_addr s j)" by simp
  then show "i = j" using assms by (simp add: unat_page_addr PAGE_SIZE_def)
qed simp

lemma page_addr_nonzero:
  assumes "pmm_wf s" "i < total_pages s" shows "page_addr s i \<noteq> 0"
proof -
  have "unat (page_addr s i) \<noteq> 0"
    using assms by (simp add: unat_page_addr pmm_wf_def unat_eq_zero)
  then show ?thesis by auto
qed

lemma page_addr_mono:
  assumes "pmm_wf s" "i < total_pages s" "j < total_pages s" "i \<le> j"
  shows "page_addr s i \<le> page_addr s j"
  using assms by (simp add: word_le_nat_alt unat_page_addr)

lemma pmm_avail_managed: "pmm_avail s \<subseteq> pmm_managed s"
  by (auto simp: pmm_avail_def pmm_managed_def)

text \<open>Reading and writing back one bit, at the level of page sets.\<close>

lemma pmm_avail_SET:
  assumes "pmm_wf s" "i < total_pages s"
  shows "pmm_avail (s\<lparr>pmm_bitmap := BIT_SET (pmm_bitmap s) i\<rparr>) = pmm_avail s - {page_addr s i}"
proof -
  have "BIT_TEST (BIT_SET (pmm_bitmap s) i) j \<longleftrightarrow> j = i \<or> BIT_TEST (pmm_bitmap s) j" for j
    by (rule BIT_TEST_SET) (rule pmm_wf_index [OF assms])
  then show ?thesis
    using page_addr_inj [OF assms(1)] assms(2)
    by (auto simp: pmm_avail_def page_addr_def)
qed

lemma pmm_avail_CLEAR:
  assumes "pmm_wf s" "i < total_pages s"
  shows "pmm_avail (s\<lparr>pmm_bitmap := BIT_CLEAR (pmm_bitmap s) i\<rparr>) =
    insert (page_addr s i) (pmm_avail s)"
proof -
  have "BIT_TEST (BIT_CLEAR (pmm_bitmap s) i) j \<longleftrightarrow> j \<noteq> i \<and> BIT_TEST (pmm_bitmap s) j" for j
    by (rule BIT_TEST_CLEAR) (rule pmm_wf_index [OF assms])
  then show ?thesis
    using assms(2) by (auto simp: pmm_avail_def page_addr_def)
qed

section \<open>Allocation and release on page sets\<close>

lemma pmm_wf_alloc:
  "pmm_wf s \<Longrightarrow> pmm_wf (snd (pmm_alloc_page s))"
  by (auto simp: pmm_alloc_page_def pmm_wf_def split: option.splits)

lemma pmm_wf_free: "pmm_wf s \<Longrightarrow> pmm_wf (pmm_free_page x s)"
  by (auto simp: pmm_free_page_def pmm_wf_def Let_def)

lemma pmm_alloc_cases:
  assumes "pmm_wf s" "pmm_alloc_page s = (f, s')"
  obtains (none) "f = 0" "s' = s" "pmm_avail s = {}"
    | (some) i where "i < total_pages s" "\<not> BIT_TEST (pmm_bitmap s) i" "f = page_addr s i"
        "\<forall>j < i. BIT_TEST (pmm_bitmap s) j"
        "s' = s\<lparr>pmm_bitmap := BIT_SET (pmm_bitmap s) i\<rparr>"
proof (cases "find (\<lambda>i. \<not> BIT_TEST (pmm_bitmap s) i) [0..<total_pages s]")
  case None
  then have "pmm_avail s = {}"
    by (auto simp: find_upt_None pmm_avail_def)
  with None show ?thesis
    using assms(2) none by (simp add: pmm_alloc_page_def)
next
  case (Some i)
  have "i < total_pages s" "\<not> BIT_TEST (pmm_bitmap s) i" "\<forall>j < i. BIT_TEST (pmm_bitmap s) j"
    using find_upt_Some [THEN iffD1, OF Some] by auto
  moreover have "f = page_addr s i" "s' = s\<lparr>pmm_bitmap := BIT_SET (pmm_bitmap s) i\<rparr>"
    using assms(2) unfolding pmm_alloc_page_def Some by (simp_all add: page_addr_def)
  ultimately show ?thesis using some by blast
qed

lemma pmm_alloc_none:
  assumes "pmm_wf s" "pmm_avail s = {}"
  shows "pmm_alloc_page s = (0, s)"
proof -
  have "find (\<lambda>i. \<not> BIT_TEST (pmm_bitmap s) i) [0..<total_pages s] = None"
    unfolding find_upt_None using assms(2) by (auto simp: pmm_avail_def)
  then show ?thesis unfolding pmm_alloc_page_def by simp
qed

lemma pmm_alloc_some:
  assumes "pmm_wf s" "pmm_avail s \<noteq> {}" "pmm_alloc_page s = (f, s')"
  shows "f \<in> pmm_avail s" "f \<noteq> 0" "pmm_avail s' = pmm_avail s - {f}"
    "\<forall>g \<in> pmm_avail s. f \<le> g"
proof -
  from assms(1,3) obtain i where i: "i < total_pages s" "\<not> BIT_TEST (pmm_bitmap s) i"
    "f = page_addr s i" "\<forall>j < i. BIT_TEST (pmm_bitmap s) j"
    "s' = s\<lparr>pmm_bitmap := BIT_SET (pmm_bitmap s) i\<rparr>"
    by (cases rule: pmm_alloc_cases) (use assms(2) in auto)
  show "f \<in> pmm_avail s" using i by (auto simp: pmm_avail_def)
  show "f \<noteq> 0" using page_addr_nonzero [OF assms(1) i(1)] i(3) by simp
  show "pmm_avail s' = pmm_avail s - {f}"
    using pmm_avail_SET [OF assms(1) i(1)] i(3,5) by simp
  show "\<forall>g \<in> pmm_avail s. f \<le> g"
    using i(1,3,4) page_addr_mono [OF assms(1) i(1)]
    by (auto simp: pmm_avail_def) (metis linorder_not_less)
qed

lemma pmm_alloc_frame [simp]:
  "managed_base (snd (pmm_alloc_page s)) = managed_base s"
  "total_pages (snd (pmm_alloc_page s)) = total_pages s"
  "pmm_bitmap_size (snd (pmm_alloc_page s)) = pmm_bitmap_size s"
  "pmm_bitmap_addr (snd (pmm_alloc_page s)) = pmm_bitmap_addr s"
  "g_hhdm_offset (snd (pmm_alloc_page s)) = g_hhdm_offset s"
  "g_memmap (snd (pmm_alloc_page s)) = g_memmap s"
  "kout (snd (pmm_alloc_page s)) = kout s"
  "pmm_state.more (snd (pmm_alloc_page s)) = pmm_state.more s"
  by (auto simp: pmm_alloc_page_def split: option.splits)

lemma pmm_managed_alloc [simp]: "pmm_managed (snd (pmm_alloc_page s)) = pmm_managed s"
  by (simp add: pmm_managed_def page_addr_def)

lemma pmm_free_managed:
  assumes "pmm_wf s" "f \<in> pmm_managed s"
  shows "pmm_avail (pmm_free_page f s) = insert f (pmm_avail s)"
proof -
  from assms(2) obtain i where i: "i < total_pages s" "f = page_addr s i"
    by (auto simp: pmm_managed_def)
  have u: "unat f = unat (managed_base s) + i * PAGE_SIZE"
    using unat_page_addr [OF assms(1) i(1)] i(2) by simp
  then have le: "managed_base s \<le> f" "\<not> f < managed_base s"
    by (simp_all add: word_le_nat_alt word_less_nat_alt)
  have "unat (f - managed_base s) div PAGE_SIZE = i"
    using le u by (simp add: unat_minus_no_underflow PAGE_SIZE_def)
  then show ?thesis
    using le i pmm_avail_CLEAR [OF assms(1) i(1)]
    by (simp add: pmm_free_page_def Let_def)
qed

lemma pmm_free_outside:
  assumes "x < managed_base s \<or> total_pages s \<le> unat (x - managed_base s) div PAGE_SIZE"
  shows "pmm_free_page x s = s"
  using assms by (auto simp: pmm_free_page_def Let_def)

lemma pmm_managed_free [simp]: "pmm_managed (pmm_free_page f s) = pmm_managed s"
  by (auto simp: pmm_managed_def pmm_free_page_def page_addr_def Let_def)

interpretation pmm: frame_allocator pmm_alloc_page pmm_free_page pmm_avail pmm_managed pmm_wf
proof unfold_locales
  show "finite (pmm_managed s)" for s :: "'a pmm_state_scheme"
    by (simp add: pmm_managed_def)
  show "fst (pmm_alloc_page s) \<in> pmm_avail s \<and> fst (pmm_alloc_page s) \<noteq> 0 \<and>
      pmm_avail (snd (pmm_alloc_page s)) = pmm_avail s - {fst (pmm_alloc_page s)}"
    if "pmm_wf s" "pmm_avail s \<noteq> {}" for s :: "'a pmm_state_scheme"
    using pmm_alloc_some [OF that] by (metis prod.collapse)
qed (auto intro: pmm_wf_alloc pmm_wf_free pmm_alloc_none simp: pmm_free_managed
    dest: pmm_avail_managed [THEN subsetD])

section \<open>Initialisation\<close>

text \<open>What Limine guarantees of the chosen region: page aligned, above page 0, below \<open>2 ^ 47\<close> (the size of the direct map window).\<close>

definition region_ok :: "limine_memmap_entry \<Rightarrow> bool" where
  "region_ok e \<longleftrightarrow> me_base e \<noteq> 0 \<and> unat (me_base e) mod PAGE_SIZE = 0 \<and>
     unat (me_base e) + unat (me_length e) \<le> 2 ^ 47"

lemma init_pmm_None:
  "init_pmm s = None \<longleftrightarrow> g_memmap s = None \<or> (\<forall>es. g_memmap s = Some es \<longrightarrow> find_biggest None es = None)"
  by (auto simp: init_pmm_def memmap_find_biggest_region_def Let_def split: option.splits)

lemma init_pmm_state:
  assumes "g_memmap s = Some es" "find_biggest None es = Some e" "region_ok e"
  defines "npages \<equiv> unat (me_length e) div PAGE_SIZE"
  shows "\<exists>t. init_pmm s = Some t \<and> pmm_wf t \<and> managed_base t = me_base e \<and> total_pages t = npages \<and>
    pmm_bitmap_size t = (npages + 7) div 8 \<and> pmm_bitmap_addr t = g_hhdm_offset s + me_base e \<and>
    (\<forall>i < npages. BIT_TEST (pmm_bitmap t) i \<longleftrightarrow> i < ((npages + 7) div 8 + PAGE_SIZE - 1) div PAGE_SIZE)"
proof -
  define bsize where "bsize = (npages + 7) div 8"
  define used where "used = (bsize + PAGE_SIZE - 1) div PAGE_SIZE"
  define bm where "bm = fold (\<lambda>i b. BIT_CLEAR b i) [used..<npages] (replicate bsize 0xFF)"
  define t where "t = kok ((kprint ''PMM...'' s)\<lparr>managed_base := me_base e, total_pages := npages,
      pmm_bitmap_size := bsize, pmm_bitmap_addr := g_hhdm_offset s + me_base e, pmm_bitmap := bm\<rparr>)"
  have init: "init_pmm s = Some t"
    using assms(1,2)
    by (simp add: init_pmm_def memmap_find_biggest_region_def Let_def npages_def t_def bm_def
        used_def bsize_def console_defs)
  have fields: "pmm_bitmap t = bm" "total_pages t = npages" "managed_base t = me_base e"
      "pmm_bitmap_size t = bsize" "pmm_bitmap_addr t = g_hhdm_offset s + me_base e"
    by (simp_all add: t_def console_defs)
  have len: "length bm = bsize" by (simp add: bm_def)
  have "PAGE_SIZE * npages \<le> unat (me_length e)" by (simp add: npages_def PAGE_SIZE_def)
  then have wf: "pmm_wf t"
    using assms(3) len fields by (auto simp: pmm_wf_def region_ok_def bsize_def)
  have "BIT_TEST bm i \<longleftrightarrow> i < used" if "i < npages" for i
  proof -
    have "i < 8 * bsize" using that by (auto simp: bsize_def)
    moreover have "\<forall>i \<in> set [used..<npages]. i < 8 * length (replicate bsize (0xFF::u8))"
      by (auto simp: bsize_def)
    ultimately show ?thesis
      using that BIT_TEST_fold_CLEAR [of "[used..<npages]" "replicate bsize 0xFF" i]
      by (auto simp: bm_def BIT_TEST_full)
  qed
  then show ?thesis
    using init wf fields by (auto simp: bsize_def used_def)
qed

section \<open>Properties\<close>

text \<open>C14: \<open>pmm_alloc_page\<close> returns the lowest free page and marks exactly that page used; it
  returns 0, without changing anything, exactly when no page is free.\<close>

theorem pmm_alloc_page_first_fit:
  assumes "pmm_wf s" "pmm_alloc_page s = (f, s')"
  shows "pmm_wf s' \<and> pmm_avail s' = pmm_avail s - {f} \<and>
    (f = 0 \<longleftrightarrow> pmm_avail s = {}) \<and> (f = 0 \<longrightarrow> s' = s) \<and>
    (f \<noteq> 0 \<longrightarrow> f \<in> pmm_avail s \<and> (\<forall>g \<in> pmm_avail s. f \<le> g))"
  using pmm.alloc_shrinks [OF assms(1)] pmm.alloc_zero_iff [OF assms(1)] pmm_alloc_some [OF assms(1) _ assms(2)]
    pmm_alloc_none [OF assms(1)] pmm_wf_alloc [OF assms(1)] assms(2)
  by auto

definition pmm_example :: pmm_state where
  "pmm_example = \<lparr>interrupt_flag = False, io_trace = [], io_in8 = (\<lambda>_ _. 0),
     io_in16 = (\<lambda>_ _. 0), io_in32 = (\<lambda>_ _. 0), kout = [], g_hhdm_offset = 0xFFFF800000000000, g_memmap = None,
     pmm_bitmap = [0xF5], pmm_bitmap_addr = 0xFFFF800000100000, pmm_bitmap_size = 1,
     managed_base = 0x100000, total_pages = 5\<rparr>"

lemma pmm_example_wf: "pmm_wf pmm_example"
  by (simp add: pmm_wf_def pmm_example_def PAGE_SIZE_def)

lemma pmm_example_alloc:
  "pmm_alloc_page pmm_example = (0x101000, pmm_example\<lparr>pmm_bitmap := [0xF7]\<rparr>)"
  by (simp add: pmm_alloc_page_def pmm_example_def BIT_TEST_def BIT_SET_def PAGE_SIZE_def upt_rec)

theorem pmm_alloc_page_first_fit_witness:
  "pmm_wf pmm_example \<and>
   pmm_alloc_page pmm_example = (0x101000, pmm_example\<lparr>pmm_bitmap := [0xF7]\<rparr>) \<and>
   0x101000 \<in> pmm_avail pmm_example"
  using pmm_alloc_page_first_fit [OF pmm_example_wf pmm_example_alloc] pmm_example_wf pmm_example_alloc
  by simp

text \<open>A sequence of page allocations never hands out the same page twice, never returns
  page 0 while pages are left, and removes exactly the returned pages from the free pages.\<close>

theorem pmm_alloc_never_twice:
  assumes "pmm_wf s" "n \<le> card (pmm_avail s)" "alloc_run pmm_alloc_page n s = (fs, s')"
  shows "length fs = n \<and> distinct fs \<and> 0 \<notin> set fs \<and> set fs \<subseteq> pmm_avail s \<and>
    pmm_avail s' = pmm_avail s - set fs"
  using pmm.alloc_run_fresh [OF assms] by blast

lemma pmm_example_avail: "{0x101000, 0x103000} \<subseteq> pmm_avail pmm_example"
proof -
  have "page_addr pmm_example 1 \<in> pmm_avail pmm_example" "page_addr pmm_example 3 \<in> pmm_avail pmm_example"
    by (simp_all add: pmm_avail_def pmm_example_def BIT_TEST_def)
  then show ?thesis by (simp add: page_addr_def pmm_example_def PAGE_SIZE_def)
qed

lemma pmm_example_run:
  "alloc_run pmm_alloc_page 2 pmm_example = ([0x101000, 0x103000], pmm_example\<lparr>pmm_bitmap := [0xFF]\<rparr>)"
  by (simp add: pmm_alloc_page_def pmm_example_def BIT_TEST_def BIT_SET_def PAGE_SIZE_def upt_rec
      alloc_run_two)

theorem pmm_alloc_never_twice_witness:
  "alloc_run pmm_alloc_page 2 pmm_example = ([0x101000, 0x103000], pmm_example\<lparr>pmm_bitmap := [0xFF]\<rparr>) \<and>
   distinct [0x101000, 0x103000 :: u64] \<and> set [0x101000, 0x103000] \<subseteq> pmm_avail pmm_example"
proof -
  have "2 \<le> card (pmm_avail pmm_example)"
    using card_mono [OF pmm.finite_avail pmm_example_avail] by simp
  from pmm_alloc_never_twice [OF pmm_example_wf this pmm_example_run] pmm_example_run
  show ?thesis by blast
qed

text \<open>Releasing an allocated page makes exactly that page available again: after
  \<open>pmm_free_page\<close> the free pages are those of the state before the allocation.\<close>

theorem pmm_free_page_roundtrip:
  assumes "pmm_wf s" "pmm_alloc_page s = (f, s')" "f \<noteq> 0"
  shows "pmm_avail (pmm_free_page f s') = pmm_avail s \<and> pmm_wf (pmm_free_page f s') \<and>
    fst (pmm_alloc_page (pmm_free_page f s')) = f"
proof -
  have avail: "pmm_avail (pmm_free_page f s') = pmm_avail s"
    using pmm.alloc_release [OF assms(1)] assms(2,3) by simp
  have wf: "pmm_wf (pmm_free_page f s')"
    using pmm_wf_free [of s' f] pmm_wf_alloc [OF assms(1)] assms(2) by simp
  have ne: "pmm_avail s \<noteq> {}" using assms pmm_alloc_none by fastforce
  obtain g u where gu: "pmm_alloc_page (pmm_free_page f s') = (g, u)" by fastforce
  have "g \<in> pmm_avail s" "\<forall>h \<in> pmm_avail s. g \<le> h"
    using pmm_alloc_some [OF wf _ gu] avail ne by auto
  moreover have "f \<in> pmm_avail s" "\<forall>h \<in> pmm_avail s. f \<le> h"
    using pmm_alloc_some [OF assms(1) ne assms(2)] by auto
  ultimately have "g = f" by (meson order_antisym)
  then show ?thesis using avail wf gu by simp
qed

theorem pmm_free_page_roundtrip_witness:
  "fst (pmm_alloc_page (pmm_free_page 0x101000 (pmm_example\<lparr>pmm_bitmap := [0xF7]\<rparr>))) = 0x101000 \<and>
   pmm_avail (pmm_free_page 0x101000 (pmm_example\<lparr>pmm_bitmap := [0xF7]\<rparr>)) = pmm_avail pmm_example"
  using pmm_free_page_roundtrip [OF pmm_example_wf pmm_example_alloc] by simp

text \<open>C16: \<open>init_pmm\<close> manages the biggest usable region, marks the pages that hold the bitmap
  itself as used and every other page as free, in a well-formed state.\<close>

theorem init_pmm_reserves_bitmap:
  assumes "g_memmap s = Some es" "find_biggest None es = Some e" "region_ok e"
  shows "\<exists>t. init_pmm s = Some t \<and> pmm_wf t \<and> managed_base t = me_base e \<and>
    total_pages t = unat (me_length e) div PAGE_SIZE \<and>
    pmm_avail t = page_addr t ` {i. i < total_pages t \<and>
      ((total_pages t + 7) div 8 + PAGE_SIZE - 1) div PAGE_SIZE \<le> i}"
proof -
  from init_pmm_state [OF assms] obtain t where t: "init_pmm s = Some t" "pmm_wf t"
    "managed_base t = me_base e" "total_pages t = unat (me_length e) div PAGE_SIZE"
    "\<forall>i < total_pages t. BIT_TEST (pmm_bitmap t) i \<longleftrightarrow>
       i < ((total_pages t + 7) div 8 + PAGE_SIZE - 1) div PAGE_SIZE"
    by auto
  have "{i. i < total_pages t \<and> \<not> BIT_TEST (pmm_bitmap t) i} = {i. i < total_pages t \<and>
      ((total_pages t + 7) div 8 + PAGE_SIZE - 1) div PAGE_SIZE \<le> i}"
    using t(5) by auto
  then show ?thesis using t(1-4) by (auto simp: pmm_avail_def)
qed

theorem init_pmm_reserves_bitmap_witness:
  "\<exists>t. init_pmm (pmm_example\<lparr>g_memmap := Some memmap_example\<rparr>) = Some t \<and> pmm_wf t \<and>
     managed_base t = 0x100000 \<and> total_pages t = 0x7EE0"
proof -
  define e where "e = \<lparr>me_base = 0x100000, me_length = 0x7EE0000, me_type = 0\<rparr>"
  have "g_memmap (pmm_example\<lparr>g_memmap := Some memmap_example\<rparr>) = Some memmap_example" by simp
  moreover have "find_biggest None memmap_example = Some e"
    by (simp add: memmap_example_def e_def LIMINE_MEMMAP_USABLE_def)
  moreover have "region_ok e" by (simp add: region_ok_def e_def PAGE_SIZE_def)
  ultimately have "\<exists>t. init_pmm (pmm_example\<lparr>g_memmap := Some memmap_example\<rparr>) = Some t \<and> pmm_wf t \<and>
      managed_base t = me_base e \<and> total_pages t = unat (me_length e) div PAGE_SIZE"
    using init_pmm_reserves_bitmap by blast
  then show ?thesis by (simp add: e_def PAGE_SIZE_def)
qed

end
