(* ===== verification/Vmm.thy ===== *)
theory Vmm
  imports Pmm
begin

text \<open>
  The virtual memory manager (\<open>mem/vmm/vmm.c\<close>): four-level page tables in physical
  memory, reached through the higher-half direct map.  \<open>pmem\<close> is the qword view of
  memory at direct-map addresses, \<open>tlb_flushed\<close> the addresses given to \<open>invlpg\<close>.
\<close>

record vmm_state = pmm_state +
  pmem :: "u64 \<Rightarrow> u64"
  current_pml4 :: u64
  cr3 :: u64
  tlb_flushed :: "u64 list"

definition PAGE_SIZE_VMM :: u64 where "PAGE_SIZE_VMM = 0x1000"
definition VMM_PRESENT :: u64 where "VMM_PRESENT = push_bit 0 1"
definition VMM_WRITE :: u64 where "VMM_WRITE = push_bit 1 1"
definition VMM_USER :: u64 where "VMM_USER = push_bit 2 1"
definition VMM_HUGE :: u64 where "VMM_HUGE = push_bit 7 1"
definition VMM_NX :: u64 where "VMM_NX = push_bit 63 1"
definition ENTRIES_PER_TABLE :: nat where "ENTRIES_PER_TABLE = 512"
definition PAGE_MASK :: u64 where "PAGE_MASK = 0x000FFFFFFFFFF000"

definition PML4_INDEX :: "u64 \<Rightarrow> u64" where "PML4_INDEX x = drop_bit 39 x AND 0x1FF"
definition PDPT_INDEX :: "u64 \<Rightarrow> u64" where "PDPT_INDEX x = drop_bit 30 x AND 0x1FF"
definition PD_INDEX :: "u64 \<Rightarrow> u64" where "PD_INDEX x = drop_bit 21 x AND 0x1FF"
definition PT_INDEX :: "u64 \<Rightarrow> u64" where "PT_INDEX x = drop_bit 12 x AND 0x1FF"

definition get_address_space :: "'a vmm_state_scheme \<Rightarrow> u64" where
  "get_address_space s = cr3 s + g_hhdm_offset s"

definition physical_to_virtual :: "u64 \<Rightarrow> 'a mmu_state_scheme \<Rightarrow> u64" where
  "physical_to_virtual physical s = g_hhdm_offset s + physical"

definition virtual_to_physical :: "u64 \<Rightarrow> 'a mmu_state_scheme \<Rightarrow> u64" where
  "virtual_to_physical virtual s = virtual - g_hhdm_offset s"

definition invlpg :: "u64 \<Rightarrow> 'a vmm_state_scheme \<Rightarrow> 'a vmm_state_scheme" where
  "invlpg address s = s\<lparr>tlb_flushed := tlb_flushed s @ [address]\<rparr>"

text \<open>\<open>memset(p, 0, PAGE_SIZE_VMM)\<close> on the qword view.\<close>

definition zero_page :: "u64 \<Rightarrow> 'a vmm_state_scheme \<Rightarrow> 'a vmm_state_scheme" where
  "zero_page p s = s\<lparr>pmem := (\<lambda>a. if a - p < PAGE_SIZE_VMM then 0 else pmem s a)\<rparr>"

definition alloc_table :: "'a vmm_state_scheme \<Rightarrow> (u64 \<times> 'a vmm_state_scheme) option" where
  "alloc_table s =
     (let (physical, s) = pmm_alloc_page s in
      if physical = 0
      then (let s = kprint (''VMM:   Out Of Memory'' @ [CHR 10]) s in None)
      else Some (physical, zero_page (physical_to_virtual physical s) s))"

text \<open>
  One level of \<open>walk\<close>: \<open>e\<close> is the address of the entry.  A missing table is created when
  \<open>create\<close> is set; the boolean result is false when the walk stops with a null pointer.
\<close>

definition walk_level ::
  "u64 \<Rightarrow> bool \<Rightarrow> 'a vmm_state_scheme \<Rightarrow> (bool \<times> 'a vmm_state_scheme) option" where
  "walk_level e create s =
     (if pmem s e AND VMM_PRESENT \<noteq> 0 then Some (True, s)
      else if \<not> create then Some (False, s)
      else do {
        (new, s) \<leftarrow> alloc_table s;
        Some (True, s\<lparr>pmem := (pmem s)(e := (new AND PAGE_MASK) OR VMM_PRESENT OR VMM_WRITE)\<rparr>)
      })"

definition walk ::
  "u64 \<Rightarrow> bool \<Rightarrow> 'a vmm_state_scheme \<Rightarrow> (u64 \<times> 'a vmm_state_scheme) option" where
  "walk virtual_address create s =
     (let pml4 = physical_to_virtual (current_pml4 s) s;
          pml4e = pml4 + 8 * PML4_INDEX virtual_address
      in do {
        (ok, s) \<leftarrow> walk_level pml4e create s;
        if \<not> ok then Some (NULL, s)
        else (let pdpt = physical_to_virtual (pmem s pml4e AND PAGE_MASK) s;
                  pdpte = pdpt + 8 * PDPT_INDEX virtual_address
              in do {
          (ok, s) \<leftarrow> walk_level pdpte create s;
          if \<not> ok then Some (NULL, s)
          else (let pd = physical_to_virtual (pmem s pdpte AND PAGE_MASK) s;
                    pde = pd + 8 * PD_INDEX virtual_address
                in do {
            (ok, s) \<leftarrow> walk_level pde create s;
            if \<not> ok then Some (NULL, s)
            else (let pt = physical_to_virtual (pmem s pde AND PAGE_MASK) s
                  in Some (pt + 8 * PT_INDEX virtual_address, s))
          })
        })
      })"

definition vmm_map ::
  "u64 \<Rightarrow> u64 \<Rightarrow> u64 \<Rightarrow> 'a vmm_state_scheme \<Rightarrow> 'a vmm_state_scheme option" where
  "vmm_map virtual physical flags s = do {
     (pte, s) \<leftarrow> walk virtual True s;
     let s = s\<lparr>pmem := (pmem s)(pte := (physical AND PAGE_MASK) OR flags OR VMM_PRESENT)\<rparr>;
     Some (invlpg virtual s)
   }"

definition vmm_unmap :: "u64 \<Rightarrow> 'a vmm_state_scheme \<Rightarrow> 'a vmm_state_scheme option" where
  "vmm_unmap virtual s = do {
     (pte, s) \<leftarrow> walk virtual False s;
     if pte \<noteq> NULL \<and> pmem s pte AND VMM_PRESENT \<noteq> 0
     then Some (invlpg virtual (s\<lparr>pmem := (pmem s)(pte := 0)\<rparr>))
     else Some s
   }"

definition vmm_resolve :: "u64 \<Rightarrow> 'a vmm_state_scheme \<Rightarrow> (u64 \<times> 'a vmm_state_scheme) option" where
  "vmm_resolve virtual s = do {
     (pte, s) \<leftarrow> walk virtual False s;
     if pte = NULL \<or> pmem s pte AND VMM_PRESENT = 0 then Some (0, s)
     else Some ((pmem s pte AND PAGE_MASK) OR (virtual AND (PAGE_SIZE_VMM - 1)), s)
   }"

definition vmm_load_cr3 :: "u64 \<Rightarrow> 'a vmm_state_scheme \<Rightarrow> 'a vmm_state_scheme" where
  "vmm_load_cr3 physical_address s =
     (let s = s\<lparr>current_pml4 := physical_address AND PAGE_MASK\<rparr> in s\<lparr>cr3 := current_pml4 s\<rparr>)"

text \<open>The copy of the entries 256 to 511 of one top-level table into another.\<close>

definition copy_upper_half :: "u64 \<Rightarrow> u64 \<Rightarrow> 'a vmm_state_scheme \<Rightarrow> 'a vmm_state_scheme" where
  "copy_upper_half new old s =
     s\<lparr>pmem := fold (\<lambda>i m. m(new + 8 * of_nat i := m (old + 8 * of_nat i)))
                  [256..<ENTRIES_PER_TABLE] (pmem s)\<rparr>"

text \<open>\<open>for (address = base; address < end; address += PAGE_SIZE_VMM) vmm_map(address, address, VMM_WRITE)\<close>\<close>

partial_function (option) map_usable ::
  "u64 \<Rightarrow> u64 \<Rightarrow> 'a vmm_state_scheme \<Rightarrow> 'a vmm_state_scheme option" where
  "map_usable address stop s =
     (if address < stop
      then Option.bind (vmm_map address address VMM_WRITE s)
             (\<lambda>s. map_usable (address + PAGE_SIZE_VMM) stop s)
      else Some s)"

fun map_memmap ::
  "limine_memmap_entry list \<Rightarrow> 'a vmm_state_scheme \<Rightarrow> 'a vmm_state_scheme option" where
  "map_memmap [] s = Some s"
| "map_memmap (e # es) s =
     (if me_type e = LIMINE_MEMMAP_USABLE
      then Option.bind (map_usable (me_base e) (me_base e + me_length e) s) (map_memmap es)
      else map_memmap es s)"

fun map_bitmap ::
  "nat list \<Rightarrow> u64 \<Rightarrow> 'a vmm_state_scheme \<Rightarrow> 'a vmm_state_scheme option" where
  "map_bitmap [] bitmap_physical s = Some s"
| "map_bitmap (i # is) bitmap_physical s =
     Option.bind (vmm_map (bitmap_physical + g_hhdm_offset s + of_nat i)
                    (bitmap_physical + of_nat i) VMM_WRITE s)
       (map_bitmap is bitmap_physical)"

definition init_vmm :: "'a vmm_state_scheme \<Rightarrow> 'a vmm_state_scheme option" where
  "init_vmm s =
     (let s = kprint ''VMM...'' s;
          old_cr3_physical = cr3 s AND PAGE_MASK;
          old_pml4 = physical_to_virtual old_cr3_physical s
      in do {
        (new, s) \<leftarrow> alloc_table s;
        let s = s\<lparr>current_pml4 := new\<rparr>;
        let s = copy_upper_half (physical_to_virtual new s) old_pml4 s;
        es \<leftarrow> g_memmap s;
        s \<leftarrow> map_memmap es s;
        s \<leftarrow> (if pmm_bitmap_addr s \<noteq> NULL \<and> pmm_bitmap_size s \<noteq> 0
              then map_bitmap (map (\<lambda>k. k * 4096) [0..<(pmm_bitmap_size s + 4095) div 4096])
                     (virtual_to_physical (pmm_bitmap_addr s) s) s
              else Some s);
        Some (kok (vmm_load_cr3 (current_pml4 s) s))
      })"

definition create_address_space :: "'a vmm_state_scheme \<Rightarrow> (u64 \<times> 'a vmm_state_scheme) option" where
  "create_address_space s =
     (let (new_pml4_phys, s) = pmm_alloc_page s in
      if new_pml4_phys = 0
      then (let s = kprint (''VMM:   Out Of Memory (create_address_space)'' @ [CHR 10]) s in None)
      else (let s = zero_page (physical_to_virtual new_pml4_phys s) s;
                kernel_pml4 = physical_to_virtual (current_pml4 s) s;
                new_pml4 = physical_to_virtual new_pml4_phys s
            in Some (new_pml4_phys, copy_upper_half new_pml4 kernel_pml4 s)))"

end
