(* ===== verification/Vmm_Tables.thy ===== *)
theory Vmm_Tables
  imports Vmm
begin

text \<open>
  Correctness of the page-table code.  A ghost level assignment says which frames are
  tables of which level; it rules out that two tables share memory.  On states where it
  exists, the tables implement a partial map from virtual pages to frames, and
  \<open>vmm_map\<close>, \<open>vmm_unmap\<close> and \<open>vmm_resolve\<close> are update, delete and lookup on it.
\<close>

section \<open>Frames, entries and indices\<close>

definition is_frame :: "u64 \<Rightarrow> bool" where
  "is_frame f \<longleftrightarrow> f AND PAGE_MASK = f"

definition entry_addr :: "'a mmu_state_scheme \<Rightarrow> u64 \<Rightarrow> u64 \<Rightarrow> u64" where
  "entry_addr s f i = g_hhdm_offset s + f + 8 * i"

lemma PAGE_MASK_bit: "bit PAGE_MASK n \<longleftrightarrow> 12 \<le> n \<and> n < 52"
proof -
  have "PAGE_MASK = push_bit 12 (mask 40)"
    by (simp add: PAGE_MASK_def mask_eq_exp_minus_1 push_bit_eq_mult)
  moreover have "bit (push_bit 12 (mask 40) :: u64) n \<longleftrightarrow> 12 \<le> n \<and> n < 52"
    unfolding bit_push_bit_iff u64_bit_mask by auto
  ultimately show ?thesis by simp
qed

lemma frame_AND [simp]: "is_frame (e AND PAGE_MASK)"
  by (simp add: is_frame_def and.assoc)

lemma is_frame_bit: "is_frame f \<Longrightarrow> bit f n \<Longrightarrow> 12 \<le> n \<and> n < 52"
  unfolding is_frame_def by (metis PAGE_MASK_bit bit_and_iff)

lemma is_frame_iff: "is_frame f \<longleftrightarrow> unat f mod 4096 = 0 \<and> unat f < 2 ^ 52"
proof -
  have "is_frame f \<longleftrightarrow> (\<forall>n. bit f n \<longrightarrow> 12 \<le> n \<and> n < 52)"
    unfolding is_frame_def u64_eq_iff bit_and_iff PAGE_MASK_bit by blast
  also have "\<dots> \<longleftrightarrow> take_bit 12 f = 0 \<and> take_bit 52 f = f"
    unfolding u64_eq_iff bit_take_bit_iff by (auto simp: not_less)
  also have "take_bit 12 f = 0 \<longleftrightarrow> unat f mod 4096 = 0"
    by (simp add: unat_eq_zero [symmetric] take_bit_eq_mod unat_mod)
  also have "take_bit 52 f = f \<longleftrightarrow> unat f < 2 ^ 52"
    by (simp add: word_unat_eq_iff unsigned_take_bit_eq take_bit_nat_eq_self_iff)
  finally show ?thesis .
qed

lemma entry_addr_inj:
  assumes "is_frame f" "is_frame g" "i < 512" "j < 512"
  shows "entry_addr s f i = entry_addr s g j \<longleftrightarrow> f = g \<and> i = j"
proof
  assume "entry_addr s f i = entry_addr s g j"
  then have eq: "f + 8 * i = g + 8 * j" by (simp add: entry_addr_def add.assoc)
  have i: "unat i < 512" "unat j < 512"
    using assms(3,4) by (simp_all add: word_less_nat_alt)
  have u8: "unat (8 * k) = 8 * unat k" if "unat k < 512" for k :: u64
    using that by (simp add: unat_word_ariths)
  have sum: "unat (h + 8 * k) = unat h + 8 * unat k" if "is_frame h" "unat k < 512" for h k
    using that u8 [OF that(2)] by (subst unat_plus_no_overflow) (auto simp: is_frame_iff)
  have "unat f + 8 * unat i = unat g + 8 * unat j"
    using eq sum [OF assms(1) i(1)] sum [OF assms(2) i(2)] by simp
  moreover have "unat f mod 4096 = 0" "unat g mod 4096 = 0"
    using assms by (auto simp: is_frame_iff)
  ultimately have "unat f = unat g \<and> 8 * unat i = 8 * unat j"
    using i by (intro page_offset_unique) auto
  then show "f = g \<and> i = j" by (simp add: word_unat_eq_iff)
qed simp

lemma entry_outside_page:
  assumes "is_frame f" "is_frame g" "f \<noteq> g" "i < 512"
  shows "\<not> entry_addr s f i - (g_hhdm_offset s + g) < PAGE_SIZE_VMM"
proof
  assume "entry_addr s f i - (g_hhdm_offset s + g) < PAGE_SIZE_VMM"
  then have lt: "unat (f + 8 * i - g) < 4096"
    by (simp add: entry_addr_def word_less_nat_alt PAGE_SIZE_VMM_def diff_diff_eq [symmetric])
  define d where "d = f + 8 * i - g"
  have i: "unat i < 512" using assms(4) by (simp add: word_less_nat_alt)
  then have u8: "unat (8 * i) = 8 * unat i" by (simp add: unat_word_ariths)
  have "f + 8 * i = g + d" by (simp add: d_def)
  moreover have "unat (f + 8 * i) = unat f + 8 * unat i"
    using u8 i assms(1) by (subst unat_plus_no_overflow) (auto simp: is_frame_iff)
  moreover have "unat (g + d) = unat g + unat d"
    using lt assms(2) by (subst unat_plus_no_overflow) (auto simp: is_frame_iff d_def)
  ultimately have "unat f + 8 * unat i = unat g + unat d" by simp
  moreover have "unat f mod 4096 = 0" "unat g mod 4096 = 0" "unat d < 4096"
    using assms lt by (auto simp: is_frame_iff d_def)
  ultimately have "unat f = unat g"
    using i page_offset_unique [of "unat f" "unat g" "8 * unat i" "unat d"] by simp
  then show False using assms(3) by (simp add: word_unat_eq_iff)
qed

lemma entry_inside_page:
  "i < 512 \<Longrightarrow> entry_addr s g i - (g_hhdm_offset s + g) < PAGE_SIZE_VMM"
proof -
  assume "i < 512"
  then have i: "unat i < 512" by (simp add: word_less_nat_alt)
  have "unat (8 * i) = 8 * unat i" using i by (simp add: unat_word_ariths)
  then show ?thesis using i
    by (simp add: entry_addr_def word_less_nat_alt PAGE_SIZE_VMM_def)
qed

definition level_index :: "nat \<Rightarrow> u64 \<Rightarrow> u64" where
  "level_index l v = drop_bit (3 + 9 * l) v AND 0x1FF"

lemma level_index_simps:
  "PML4_INDEX v = level_index 4 v" "PDPT_INDEX v = level_index 3 v"
  "PD_INDEX v = level_index 2 v" "PT_INDEX v = level_index 1 v"
  by (simp_all add: level_index_def PML4_INDEX_def PDPT_INDEX_def PD_INDEX_def PT_INDEX_def)

lemma level_index_bound [simp]: "level_index l v < 512"
proof -
  have "level_index l v \<le> 0x1FF" unfolding level_index_def by (rule word_and_le1)
  then show ?thesis by (rule order_le_less_trans) simp
qed

text \<open>Bits 12 to 47 of an address select its page.\<close>

definition same_page :: "u64 \<Rightarrow> u64 \<Rightarrow> bool" where
  "same_page v w \<longleftrightarrow> take_bit 36 (drop_bit 12 v) = take_bit 36 (drop_bit 12 w)"

lemma level_index_bit: "bit (level_index l v) n \<longleftrightarrow> n < 9 \<and> bit v (3 + 9 * l + n)"
proof -
  have "(0x1FF :: u64) = mask 9" by (simp add: mask_eq_exp_minus_1)
  then have "bit (0x1FF :: u64) n \<longleftrightarrow> n < 9" by (simp only: u64_bit_mask) auto
  then show ?thesis
    by (auto simp: level_index_def bit_and_iff bit_drop_bit_eq)
qed

lemma same_page_iff:
  "same_page v w \<longleftrightarrow> (\<forall>l \<in> {1, 2, 3, 4}. level_index l v = level_index l w)"
proof -
  have "same_page v w \<longleftrightarrow> (\<forall>n. n < 36 \<longrightarrow> bit v (12 + n) = bit w (12 + n))"
    unfolding same_page_def u64_eq_iff bit_take_bit_iff bit_drop_bit_eq o_def by blast
  also have "\<dots> \<longleftrightarrow> (\<forall>l \<in> {1, 2, 3, 4}. \<forall>n < 9. bit v (3 + 9 * l + n) = bit w (3 + 9 * l + n))"
    (is "?L = ?R")
  proof
    assume L: ?L
    have "bit v (3 + 9 * l + n) = bit w (3 + 9 * l + n)" if "l \<in> {1, 2, 3, 4}" "n < 9" for l n
    proof -
      have "9 * (l - 1) + n < 36" "12 + (9 * (l - 1) + n) = 3 + 9 * l + n" using that by auto
      then show ?thesis using L by metis
    qed
    then show ?R by blast
  next
    assume R: ?R
    have "bit v (12 + n) = bit w (12 + n)" if "n < 36" for n
    proof -
      have "n div 9 + 1 \<in> {1, 2, 3, 4}" "n mod 9 < 9" using that by auto
      moreover have "3 + 9 * (n div 9 + 1) + n mod 9 = 12 + n" by simp
      ultimately show ?thesis using R by metis
    qed
    then show ?L by blast
  qed
  also have "\<dots> \<longleftrightarrow> (\<forall>l \<in> {1, 2, 3, 4}. level_index l v = level_index l w)"
    unfolding u64_eq_iff level_index_bit by blast
  finally show ?thesis .
qed

section \<open>Lookup in the tables\<close>

definition next_table :: "'a vmm_state_scheme \<Rightarrow> u64 \<Rightarrow> u64 \<Rightarrow> u64 option" where
  "next_table s f i =
     (let e = pmem s (entry_addr s f i) in
      if e AND VMM_PRESENT \<noteq> 0 then Some (e AND PAGE_MASK) else None)"

fun table_lookup :: "'a vmm_state_scheme \<Rightarrow> nat \<Rightarrow> u64 \<Rightarrow> u64 \<Rightarrow> u64 option" where
  "table_lookup s 0 f v = Some f"
| "table_lookup s (Suc l) f v =
     (case next_table s f (level_index (Suc l) v) of
        None \<Rightarrow> None
      | Some g \<Rightarrow> table_lookup s l g v)"

text \<open>The map the tables of a state implement.\<close>

definition vmm_lookup :: "'a vmm_state_scheme \<Rightarrow> u64 \<Rightarrow> u64 option" where
  "vmm_lookup s v = table_lookup s 4 (current_pml4 s) v"

text \<open>
  The level assignment: every present entry of a table of level \<open>l > 1\<close> leads to a table of
  level \<open>l - 1\<close>, no two entries lead to the same table, and no table page is free.
\<close>

definition levels_ok :: "'a vmm_state_scheme \<Rightarrow> (u64 \<Rightarrow> nat option) \<Rightarrow> bool" where
  "levels_ok s lv \<longleftrightarrow>
     lv (current_pml4 s) = Some 4 \<and>
     (\<forall>f l. lv f = Some l \<longrightarrow> 1 \<le> l \<and> is_frame f \<and> unat f < 2 ^ 47 \<and> f \<notin> pmm_avail s) \<and>
     (\<forall>f l i g. lv f = Some l \<longrightarrow> 1 < l \<longrightarrow> i < 512 \<longrightarrow> next_table s f i = Some g \<longrightarrow>
        lv g = Some (l - 1)) \<and>
     (\<forall>f l i f' l' i' g. lv f = Some l \<longrightarrow> 1 < l \<longrightarrow> i < 512 \<longrightarrow> next_table s f i = Some g \<longrightarrow>
        lv f' = Some l' \<longrightarrow> 1 < l' \<longrightarrow> i' < 512 \<longrightarrow> next_table s f' i' = Some g \<longrightarrow>
        f = f' \<and> i = i')"

text \<open>The direct map does not wrap around, so no entry has the null address.\<close>

definition hhdm_ok :: "'a mmu_state_scheme \<Rightarrow> bool" where
  "hhdm_ok s \<longleftrightarrow> g_hhdm_offset s \<noteq> 0 \<and> unat (g_hhdm_offset s) + 2 ^ 47 \<le> 2 ^ 64"

definition vmm_wf :: "'a vmm_state_scheme \<Rightarrow> bool" where
  "vmm_wf s \<longleftrightarrow> pmm_wf s \<and> hhdm_ok s \<and> (\<exists>lv. levels_ok s lv)"

lemma levels_okD:
  assumes "levels_ok s lv"
  shows "lv (current_pml4 s) = Some 4"
    and "lv f = Some l \<Longrightarrow> 1 \<le> l \<and> is_frame f \<and> unat f < 2 ^ 47 \<and> f \<notin> pmm_avail s"
    and "lv f = Some l \<Longrightarrow> 1 < l \<Longrightarrow> i < 512 \<Longrightarrow> next_table s f i = Some g \<Longrightarrow> lv g = Some (l - 1)"
    and "lv f = Some l \<Longrightarrow> 1 < l \<Longrightarrow> i < 512 \<Longrightarrow> next_table s f i = Some g \<Longrightarrow>
      lv f' = Some l' \<Longrightarrow> 1 < l' \<Longrightarrow> i' < 512 \<Longrightarrow> next_table s f' i' = Some g \<Longrightarrow> f = f' \<and> i = i'"
  using assms unfolding levels_ok_def by blast+

text \<open>Lookups depend only on the entries of the tables they pass.\<close>

lemma table_lookup_cong:
  assumes "levels_ok s lv" "lv f = Some k"
    and "\<And>h l i. lv h = Some l \<Longrightarrow> i < 512 \<Longrightarrow> next_table t h i = next_table s h i"
  shows "table_lookup t k f v = table_lookup s k f v"
  using assms(2)
proof (induction k arbitrary: f)
  case 0
  then show ?case by simp
next
  case (Suc k)
  have eq: "next_table t f (level_index (Suc k) v) = next_table s f (level_index (Suc k) v)"
    using assms(3) [OF Suc.prems] by simp
  show ?case
  proof (cases "next_table s f (level_index (Suc k) v)")
    case None
    then show ?thesis using eq by simp
  next
    case (Some g)
    show ?thesis
    proof (cases k)
      case 0
      then show ?thesis using eq Some by simp
    next
      case (Suc k')
      then have "lv g = Some k"
        using levels_okD(3) [OF assms(1) Suc.prems _ _ Some] by simp
      then show ?thesis using eq Some Suc.IH by simp
    qed
  qed
qed

section \<open>Creating a missing table\<close>

lemma frame_entry_bits:
  assumes "is_frame f" "flags AND PAGE_MASK = 0"
  shows "((f OR flags OR VMM_PRESENT) AND PAGE_MASK = f)" "(f OR flags OR VMM_PRESENT) AND VMM_PRESENT \<noteq> 0"
proof -
  have "bit flags n \<Longrightarrow> \<not> (12 \<le> n \<and> n < 52)" for n
    using assms(2) by (metis PAGE_MASK_bit bit_0_eq bit_and_iff bot_apply bot_bool_def)
  then show "(f OR flags OR VMM_PRESENT) AND PAGE_MASK = f"
    using is_frame_bit [OF assms(1)]
    by (intro u64_eqI)
       (auto simp: bit_and_iff bit_or_iff PAGE_MASK_bit VMM_PRESENT_def bit_1_iff)
  have "bit ((f OR flags OR VMM_PRESENT) AND VMM_PRESENT) 0"
    by (simp add: bit_and_iff bit_or_iff VMM_PRESENT_def)
  then show "(f OR flags OR VMM_PRESENT) AND VMM_PRESENT \<noteq> 0" by (metis bit_0_eq bot_apply bot_bool_def)
qed

lemma VMM_WRITE_mask [simp]: "VMM_WRITE AND PAGE_MASK = 0"
  by (simp add: VMM_WRITE_def PAGE_MASK_def)

lemma pmm_frames: "pmm_wf s \<Longrightarrow> f \<in> pmm_managed s \<Longrightarrow> is_frame f \<and> f \<noteq> 0 \<and> unat f < 2 ^ 47"
proof -
  assume wf: "pmm_wf s" and "f \<in> pmm_managed s"
  then obtain i where i: "i < total_pages s" "f = page_addr s i" by (auto simp: pmm_managed_def)
  have "unat f = unat (managed_base s) + i * PAGE_SIZE" using unat_page_addr [OF wf i(1)] i(2) by simp
  moreover have "unat (managed_base s) + PAGE_SIZE * total_pages s \<le> 2 ^ 47"
      "unat (managed_base s) mod PAGE_SIZE = 0" using wf by (auto simp: pmm_wf_def)
  ultimately have "unat f mod 4096 = 0" "unat f < 2 ^ 47"
    using i(1) by (auto simp: PAGE_SIZE_def mod_eq_0_iff_dvd)
  then show ?thesis using page_addr_nonzero [OF wf i(1)] i(2) by (simp add: is_frame_iff)
qed

text \<open>The state after \<open>alloc_table\<close>: a fresh frame, all its entries empty, the rest as before.\<close>

lemma alloc_table_spec:
  assumes "pmm_wf s" "alloc_table s = Some (f, t)"
  shows "f \<in> pmm_avail s" "is_frame f" "unat f < 2 ^ 47" "pmm_avail t = pmm_avail s - {f}" "pmm_wf t"
    "pmem t = (\<lambda>a. if a - (g_hhdm_offset s + f) < PAGE_SIZE_VMM then 0 else pmem s a)"
    "g_hhdm_offset t = g_hhdm_offset s" "current_pml4 t = current_pml4 s"
    "cr3 t = cr3 s" "vmm_state.more t = vmm_state.more s"
proof -
  obtain u where u: "pmm_alloc_page s = (f, u)" "f \<noteq> 0"
      "t = zero_page (physical_to_virtual f u) u"
    using assms(2) by (auto simp: alloc_table_def Let_def split: prod.splits if_splits)
  have ne: "pmm_avail s \<noteq> {}" using u pmm_alloc_none [OF assms(1)] by auto
  note alloc = pmm_alloc_some [OF assms(1) ne u(1)]
  have fu: "u = snd (pmm_alloc_page s)" using u(1) by simp
  have more: "pmem u = pmem s" "current_pml4 u = current_pml4 s" "g_hhdm_offset u = g_hhdm_offset s"
    "cr3 u = cr3 s" "vmm_state.more u = vmm_state.more s"
    unfolding fu by (auto simp: pmm_alloc_page_def split: option.splits)
  show "f \<in> pmm_avail s" by (fact alloc)
  then show "is_frame f" "unat f < 2 ^ 47" using pmm_frames [OF assms(1)] pmm_avail_managed by blast+
  show "pmm_avail t = pmm_avail s - {f}"
    using alloc(3) u(3) by (simp add: zero_page_def pmm_avail_def page_addr_def)
  show "pmm_wf t"
    using pmm_wf_alloc [OF assms(1)] u by (simp add: zero_page_def pmm_wf_def)
  show "pmem t = (\<lambda>a. if a - (g_hhdm_offset s + f) < PAGE_SIZE_VMM then 0 else pmem s a)"
    "g_hhdm_offset t = g_hhdm_offset s" "current_pml4 t = current_pml4 s"
    "cr3 t = cr3 s" "vmm_state.more t = vmm_state.more s"
    using u(3) more by (simp_all add: zero_page_def physical_to_virtual_def cong: if_cong)
qed

text \<open>
  \<open>link s e new t\<close>: \<open>t\<close> is \<open>s\<close> with a fresh, empty table \<open>new\<close> hung into the entry at
  (\<open>f\<close>, \<open>i\<close>), as \<open>walk_level\<close> does.
\<close>

lemma walk_level_cases:
  assumes "pmm_wf s" "walk_level (entry_addr s f i) create s = Some (ok, t)"
  obtains (present) g where "next_table s f i = Some g" "ok" "t = s"
    | (absent) "next_table s f i = None" "\<not> create" "\<not> ok" "t = s"
    | (created) new u where "next_table s f i = None" "create" "ok" "alloc_table s = Some (new, u)"
        "t = u\<lparr>pmem := (pmem u)(entry_addr s f i := new OR VMM_WRITE OR VMM_PRESENT)\<rparr>"
proof (cases "next_table s f i")
  case (Some g)
  then show ?thesis
    using assms(2) present by (auto simp: walk_level_def next_table_def Let_def split: if_splits)
next
  case None
  then have np: "pmem s (entry_addr s f i) AND VMM_PRESENT = 0"
    by (auto simp: next_table_def Let_def split: if_splits)
  show ?thesis
  proof (cases create)
    case False
    then have "\<not> ok" "t = s" using assms(2) np by (simp_all add: walk_level_def)
    then show ?thesis using absent None False by blast
  next
    case True
    have wl: "walk_level (entry_addr s f i) True s =
        Option.bind (alloc_table s) (\<lambda>(new, u). Some (True, u\<lparr>pmem := (pmem u)
          (entry_addr s f i := (new AND PAGE_MASK) OR VMM_PRESENT OR VMM_WRITE)\<rparr>))"
      using np by (simp add: walk_level_def)
    obtain new u where nu: "alloc_table s = Some (new, u)"
      using assms(2) True wl by (cases "alloc_table s") auto
    have frame: "new AND PAGE_MASK = new"
      using alloc_table_spec(2) [OF assms(1) nu] by (simp add: is_frame_def)
    have "ok" "t = u\<lparr>pmem := (pmem u)(entry_addr s f i := new OR VMM_WRITE OR VMM_PRESENT)\<rparr>"
      using assms(2) True wl nu frame
      by (simp_all add: or.assoc or.commute [of VMM_PRESENT])
    then show ?thesis using created [OF None True _ nu] by blast
  qed
qed

lemma next_table_created:
  assumes "pmm_wf s" "levels_ok s lv" "lv f = Some l" "i < 512" "alloc_table s = Some (new, u)"
    and t: "t = u\<lparr>pmem := (pmem u)(entry_addr s f i := new OR VMM_WRITE OR VMM_PRESENT)\<rparr>"
  shows "next_table t f i = Some new"
    and "j < 512 \<Longrightarrow> next_table t new j = None"
    and "lv h = Some k \<Longrightarrow> j < 512 \<Longrightarrow> (h, j) \<noteq> (f, i) \<Longrightarrow> next_table t h j = next_table s h j"
proof -
  note spec = alloc_table_spec [OF assms(1,5)]
  have hh: "entry_addr t = entry_addr s"
    by (intro ext) (simp add: entry_addr_def t spec)
  have fresh: "lv new = None"
    using levels_okD(2) [OF assms(2), of new] spec(1) by (cases "lv new") auto
  have ff: "is_frame f" using levels_okD(2) [OF assms(2,3)] by simp
  have ne: "f \<noteq> new" using fresh assms(3) by auto
  show "next_table t f i = Some new"
    using frame_entry_bits [OF spec(2) VMM_WRITE_mask] by (simp add: next_table_def t hh [unfolded t])
  show "next_table t new j = None" if "j < 512"
  proof -
    have "entry_addr s new j \<noteq> entry_addr s f i"
      using entry_addr_inj [OF spec(2) ff that assms(4)] ne by auto
    moreover have "pmem u (entry_addr s new j) = 0"
      using entry_inside_page [OF that, of s new] by (simp add: spec(6))
    ultimately show ?thesis by (simp add: next_table_def t hh [unfolded t])
  qed
  show "next_table t h j = next_table s h j"
    if "lv h = Some k" "j < 512" "(h, j) \<noteq> (f, i)"
  proof -
    have hf: "is_frame h" using levels_okD(2) [OF assms(2) that(1)] by simp
    have "entry_addr s h j \<noteq> entry_addr s f i"
      using entry_addr_inj [OF hf ff that(2) assms(4)] that(3) by auto
    moreover have "h \<noteq> new" using fresh that(1) by auto
    then have "pmem u (entry_addr s h j) = pmem s (entry_addr s h j)"
      using entry_outside_page [OF hf spec(2) _ that(2), of s] by (simp add: spec(6))
    ultimately show ?thesis by (simp add: next_table_def t hh [unfolded t])
  qed
qed

lemma levels_ok_created:
  assumes "pmm_wf s" "levels_ok s lv" "lv f = Some l" "1 < l" "i < 512" "next_table s f i = None"
    "alloc_table s = Some (new, u)"
    and t: "t = u\<lparr>pmem := (pmem u)(entry_addr s f i := new OR VMM_WRITE OR VMM_PRESENT)\<rparr>"
  shows "levels_ok t (lv(new \<mapsto> l - 1))" "pmm_wf t"
    "lv h = Some k \<Longrightarrow> table_lookup t k h v = table_lookup s k h v"
proof -
  note spec = alloc_table_spec [OF assms(1,7)]
  note nt = next_table_created [OF assms(1-3,5,7) t]
  have fresh: "lv new = None"
    using levels_okD(2) [OF assms(2), of new] spec(1) by (cases "lv new") auto
  have av: "pmm_avail t = pmm_avail s - {new}" using spec(4) by (simp add: t pmm_avail_def page_addr_def)
  have tgt: "lv g = Some (k - 1)"
    if "lv h = Some k" "1 < k" "j < 512" "next_table t h j = Some g" "g \<noteq> new" for h k j g
    using that nt(1) nt(3) [OF that(1,3)] levels_okD(3) [OF assms(2) that(1-3)] by (cases "(h, j) = (f, i)") auto
  have only: "(h, j) = (f, i)"
    if "lv h = Some k" "1 < k" "j < 512" "next_table t h j = Some new" for h k j
    using that nt(3) [OF that(1,3)] levels_okD(3) [OF assms(2) that(1-3), of new] fresh by fastforce
  show "pmm_wf t" using spec(5) by (simp add: t pmm_wf_def)
  show "levels_ok t (lv(new \<mapsto> l - 1))"
    unfolding levels_ok_def
  proof (intro conjI allI impI)
    show "(lv(new \<mapsto> l - 1)) (current_pml4 t) = Some 4"
      using levels_okD(1) [OF assms(2)] fresh by (auto simp: t spec)
  next
    fix h k assume "(lv(new \<mapsto> l - 1)) h = Some k"
    then show "1 \<le> k" "is_frame h" "unat h < 2 ^ 47" "h \<notin> pmm_avail t"
      using levels_okD(2) [OF assms(2), of h k] assms(4) spec(2,3) av by (auto split: if_splits)
  next
    fix h k j g
    assume "(lv(new \<mapsto> l - 1)) h = Some k" "1 < k" "j < 512" "next_table t h j = Some g"
    then show "(lv(new \<mapsto> l - 1)) g = Some (k - 1)"
      using nt(2) [of j] tgt [of h k j g] only [of h k j] assms(3) by (auto split: if_splits)
  next
    fix h k j h' k' j' g
    assume A: "(lv(new \<mapsto> l - 1)) h = Some k" "1 < k" "j < 512" "next_table t h j = Some g"
      "(lv(new \<mapsto> l - 1)) h' = Some k'" "1 < k'" "j' < 512" "next_table t h' j' = Some g"
    then have lv: "lv h = Some k" "lv h' = Some k'" using nt(2) by (auto split: if_splits)
    have "(h, j) = (h', j')"
    proof (cases "g = new")
      case True
      then show ?thesis using only [OF lv(1) A(2,3)] only [OF lv(2) A(6,7)] A(4,8) by simp
    next
      case False
      then have "next_table s h j = Some g" "next_table s h' j' = Some g"
        using nt(1) nt(3) [OF lv(1) A(3)] nt(3) [OF lv(2) A(7)] A(4,8)
        by (metis option.inject prod.inject)+
      then show ?thesis using levels_okD(4) [OF assms(2) lv(1) A(2,3) _ lv(2) A(6,7)] by simp
    qed
    then show "h = h'" "j = j'" by auto
  qed
  show "table_lookup t k h v = table_lookup s k h v" if "lv h = Some k"
    using that
  proof (induction k arbitrary: h)
    case 0
    then show ?case by simp
  next
    case (Suc k)
    let ?j = "level_index (Suc k) v"
    show ?case
    proof (cases "(h, ?j) = (f, i)")
      case True
      then have "k = l - 1" using Suc.prems assms(3) by simp
      then have "k \<noteq> 0" using assms(4) by simp
      then obtain k' where "k = Suc k'" using not0_implies_Suc by blast
      then show ?thesis using True nt(1,2) assms(6) by simp
    next
      case False
      then have eq: "next_table t h ?j = next_table s h ?j" using nt(3) [OF Suc.prems] by simp
      show ?thesis
      proof (cases "next_table s h ?j")
        case (Some g)
        then have "k = 0 \<or> lv g = Some k"
          using levels_okD(3) [OF assms(2) Suc.prems _ _ Some] by (cases k) auto
        then show ?thesis using eq Some Suc.IH [of g] by auto
      qed (use eq in simp)
    qed
  qed
qed

section \<open>The walk\<close>

text \<open>
  \<open>grows s lv t lv'\<close>: \<open>t\<close> is a well-formed extension of \<open>s\<close> by empty tables; everything the
  tables of \<open>s\<close> map is mapped the same way in \<open>t\<close>, the new tables are former free pages, and
  no other page changes.
\<close>

definition grows ::
  "'a vmm_state_scheme \<Rightarrow> (u64 \<Rightarrow> nat option) \<Rightarrow> 'a vmm_state_scheme \<Rightarrow> (u64 \<Rightarrow> nat option) \<Rightarrow> bool" where
  "grows s lv t lv' \<longleftrightarrow>
     pmm_wf t \<and> levels_ok t lv' \<and> lv \<subseteq>\<^sub>m lv' \<and>
     g_hhdm_offset t = g_hhdm_offset s \<and> current_pml4 t = current_pml4 s \<and>
     pmm_avail t \<subseteq> pmm_avail s \<and>
     (\<forall>h k v. lv h = Some k \<longrightarrow> table_lookup t k h v = table_lookup s k h v) \<and>
     (\<forall>h k j g. lv h = Some k \<longrightarrow> j < 512 \<longrightarrow> next_table s h j = Some g \<longrightarrow> next_table t h j = Some g) \<and>
     (\<forall>h k. lv' h = Some k \<longrightarrow> lv h = Some k \<or> h \<in> pmm_avail s) \<and>
     (\<forall>h j. is_frame h \<longrightarrow> lv' h = None \<longrightarrow> j < 512 \<longrightarrow>
        pmem t (entry_addr s h j) = pmem s (entry_addr s h j)) \<and>
     cr3 t = cr3 s \<and> vmm_state.more t = vmm_state.more s"

lemma grows_refl: "pmm_wf s \<Longrightarrow> levels_ok s lv \<Longrightarrow> grows s lv s lv"
  by (simp add: grows_def)

lemma map_le_Some: "lv \<subseteq>\<^sub>m lv' \<Longrightarrow> lv h = Some k \<Longrightarrow> lv' h = Some k"
  by (auto simp: map_le_def dom_def)

lemma grows_trans:
  assumes "grows s lv t lv'" "grows t lv' u lv''"
  shows "grows s lv u lv''"
proof -
  have le: "lv \<subseteq>\<^sub>m lv'" using assms(1) by (simp add: grows_def)
  have "table_lookup u k h v = table_lookup s k h v" if "lv h = Some k" for h k v
    using assms that map_le_Some [OF le that] by (simp add: grows_def)
  moreover have "next_table u h j = Some g"
    if "lv h = Some k" "j < 512" "next_table s h j = Some g" for h k j g
  proof -
    have "next_table t h j = Some g" using assms(1) that unfolding grows_def by blast
    then show ?thesis using assms(2) map_le_Some [OF le that(1)] that(2) unfolding grows_def by blast
  qed
  moreover have "entry_addr t = entry_addr s"
    using assms(1) by (intro ext) (simp add: grows_def entry_addr_def)
  then have "pmem u (entry_addr s h j) = pmem s (entry_addr s h j)"
    if "is_frame h" "lv'' h = None" "j < 512" for h j
  proof -
    have "lv' h = None" using assms(2) that(2) map_le_Some [of lv' lv'' h]
      by (cases "lv' h") (auto simp: grows_def)
    then show ?thesis
      using assms that \<open>entry_addr t = entry_addr s\<close> unfolding grows_def by metis
  qed
  moreover have "lv h = Some k \<or> h \<in> pmm_avail s" if "lv'' h = Some k" for h k
  proof -
    have "lv' h = Some k \<or> h \<in> pmm_avail t" using assms(2) that by (simp add: grows_def)
    then show ?thesis using assms(1) by (auto simp: grows_def)
  qed
  moreover have "pmm_avail u \<subseteq> pmm_avail s" using assms by (auto simp: grows_def)
  ultimately show ?thesis
    using assms map_le_trans [of lv lv' lv''] unfolding grows_def by simp
qed

lemma walk_level_grows:
  assumes "pmm_wf s" "levels_ok s lv" "lv f = Some l" "1 < l" "i < 512"
    "walk_level (entry_addr s f i) create s = Some (ok, t)"
  obtains (down) lv' g where "grows s lv t lv'" "ok" "next_table t f i = Some g" "lv' g = Some (l - 1)"
      "\<not> create \<Longrightarrow> t = s"
    | (stop) "\<not> create" "\<not> ok" "t = s" "next_table s f i = None"
  using assms(1,6)
proof (cases rule: walk_level_cases)
  case (present g)
  then have "lv g = Some (l - 1)" using levels_okD(3) [OF assms(2-5)] by simp
  then show ?thesis using present down [of lv g] grows_refl [OF assms(1,2)] by simp
next
  case absent
  then show ?thesis using stop by simp
next
  case (created new u)
  note nt = next_table_created [OF assms(1-3,5) created(4,5)]
  note lo = levels_ok_created [OF assms(1-5) created(1,4,5)]
  note spec = alloc_table_spec [OF assms(1) created(4)]
  have "lv new = None"
    using levels_okD(2) [OF assms(2), of new] spec(1) by (cases "lv new") auto
  then have le: "lv \<subseteq>\<^sub>m lv(new \<mapsto> l - 1)" by (auto simp: map_le_def)
  have keep: "next_table t h j = Some g"
    if "lv h = Some k" "j < 512" "next_table s h j = Some g" for h k j g
    using nt(3) [OF that(1,2)] that(3) created(1) by (cases "(h, j) = (f, i)") auto
  have av: "pmm_avail t = pmm_avail s - {new}"
    using spec(4) by (simp add: created(5) pmm_avail_def page_addr_def)
  have same: "g_hhdm_offset t = g_hhdm_offset s" "current_pml4 t = current_pml4 s" "cr3 t = cr3 s"
      "vmm_state.more t = vmm_state.more s"
    using spec(7-10) by (simp_all add: created(5))
  have other: "pmem t (entry_addr s h j) = pmem s (entry_addr s h j)"
    if "is_frame h" "(lv(new \<mapsto> l - 1)) h = None" "j < 512" for h j
  proof -
    have h: "h \<noteq> new" "lv h = None" using that(2) by (auto split: if_splits)
    have ff: "is_frame f" using levels_okD(2) [OF assms(2,3)] by simp
    have "entry_addr s h j \<noteq> entry_addr s f i"
      using entry_addr_inj [OF that(1) ff that(3) assms(5), of s] h(2) assms(3) by auto
    then show ?thesis
      using entry_outside_page [OF that(1) spec(2) h(1) that(3), of s] by (simp add: created(5) spec(6))
  qed
  have dom: "lv h = Some k \<or> h \<in> pmm_avail s" if "(lv(new \<mapsto> l - 1)) h = Some k" for h k
    using that spec(1) by (auto split: if_splits)
  have "grows s lv t (lv(new \<mapsto> l - 1))"
    unfolding grows_def
  proof (intro conjI allI impI)
    show "pmm_wf t" "levels_ok t (lv(new \<mapsto> l - 1))" using lo(1,2) by simp_all
  qed (use lo(3) le keep other dom av same in auto)
  then show ?thesis using down [of _ new] created(2,3) nt(1) by simp
qed

lemma walk_level_down:
  assumes "pmm_wf s \<and> levels_ok s lv" "lv f = Some l" "1 < l" "i < 512"
    "walk_level (entry_addr s f i) True s = Some (ok, t)"
  shows "\<exists>lv' g. grows s lv t lv' \<and> ok \<and> next_table t f i = Some g \<and> lv' g = Some (l - 1)"
  using walk_level_grows [OF conjunct1 [OF assms(1)] conjunct2 [OF assms(1)] assms(2-5)] by blast

text \<open>The level-1 table a virtual address leads to.\<close>

definition leaf_table :: "'a vmm_state_scheme \<Rightarrow> u64 \<Rightarrow> u64 option" where
  "leaf_table s v =
     Option.bind (next_table s (current_pml4 s) (level_index 4 v)) (\<lambda>f3.
     Option.bind (next_table s f3 (level_index 3 v)) (\<lambda>f2.
     next_table s f2 (level_index 2 v)))"

lemma vmm_lookup_leaf:
  "vmm_lookup s v = Option.bind (leaf_table s v) (\<lambda>f1. next_table s f1 (level_index 1 v))"
  by (simp add: vmm_lookup_def leaf_table_def numeral_eq_Suc
      split: Option.bind_splits option.splits)

lemma next_table_mask:
  "next_table s f i = Some g \<Longrightarrow> pmem s (entry_addr s f i) AND PAGE_MASK = g"
  by (auto simp: next_table_def Let_def split: if_splits)

text \<open>The walk, one level at a time, over frames instead of addresses.\<close>

lemma walk_unfold:
  "walk v create s =
     Option.bind (walk_level (entry_addr s (current_pml4 s) (level_index 4 v)) create s) (\<lambda>(ok, t).
     if \<not> ok then Some (NULL, t) else
     let f3 = pmem t (entry_addr s (current_pml4 s) (level_index 4 v)) AND PAGE_MASK in
     Option.bind (walk_level (entry_addr t f3 (level_index 3 v)) create t) (\<lambda>(ok, u).
     if \<not> ok then Some (NULL, u) else
     let f2 = pmem u (entry_addr t f3 (level_index 3 v)) AND PAGE_MASK in
     Option.bind (walk_level (entry_addr u f2 (level_index 2 v)) create u) (\<lambda>(ok, w).
     if \<not> ok then Some (NULL, w) else
     Some (entry_addr w (pmem w (entry_addr u f2 (level_index 2 v)) AND PAGE_MASK) (level_index 1 v), w))))"
  by (simp add: walk_def level_index_simps physical_to_virtual_def entry_addr_def Let_def
      cong: if_cong)

lemma grows_next:
  assumes "grows s lv t lv'" "lv h = Some k" "j < 512" "next_table s h j = Some g"
  shows "next_table t h j = Some g"
  using assms unfolding grows_def by blast

lemma grows_level: "grows s lv t lv' \<Longrightarrow> lv h = Some k \<Longrightarrow> lv' h = Some k"
  unfolding grows_def by (blast intro: map_le_Some)

lemma grows_wf: "grows s lv t lv' \<Longrightarrow> pmm_wf t \<and> levels_ok t lv'"
  by (simp add: grows_def)

lemma grows_entry_addr: "grows s lv t lv' \<Longrightarrow> entry_addr t = entry_addr s"
  by (intro ext) (simp add: grows_def entry_addr_def)

lemma walk_create:
  assumes wf: "pmm_wf s" "levels_ok s lv" and "walk v True s = Some (pte, t)"
  obtains lv' f1 where "grows s lv t lv'" "leaf_table t v = Some f1" "lv' f1 = Some 1"
    "pte = entry_addr t f1 (level_index 1 v)"
proof -
  let ?p = "current_pml4 s"
  have p: "lv ?p = Some 4" using levels_okD(1) [OF wf(2)] .
  obtain ok4 s1 where w4: "walk_level (entry_addr s ?p (level_index 4 v)) True s = Some (ok4, s1)"
    using assms(3) by (auto simp: walk_unfold bind_eq_Some_conv)
  obtain lv1 f3 where d4: "grows s lv s1 lv1" "ok4" "next_table s1 ?p (level_index 4 v) = Some f3"
      "lv1 f3 = Some 3"
    using walk_level_down [OF conjI [OF wf] p _ _ w4] by auto
  have m4: "pmem s1 (entry_addr s ?p (level_index 4 v)) AND PAGE_MASK = f3"
    using next_table_mask [OF d4(3)] grows_entry_addr [OF d4(1)] by simp
  obtain ok3 s2 where w3: "walk_level (entry_addr s1 f3 (level_index 3 v)) True s1 = Some (ok3, s2)"
    using assms(3) w4 d4(2) m4 by (auto simp: walk_unfold bind_eq_Some_conv Let_def)
  obtain lv2 f2 where d3: "grows s1 lv1 s2 lv2" "ok3" "next_table s2 f3 (level_index 3 v) = Some f2"
      "lv2 f2 = Some 2"
    using walk_level_down [OF grows_wf [OF d4(1)] d4(4) _ _ w3] by auto
  have m3: "pmem s2 (entry_addr s1 f3 (level_index 3 v)) AND PAGE_MASK = f2"
    using next_table_mask [OF d3(3)] grows_entry_addr [OF d3(1)] by simp
  obtain ok2 where w2: "walk_level (entry_addr s2 f2 (level_index 2 v)) True s2 = Some (ok2, t)"
    using assms(3) w4 d4(2) m4 w3 d3(2) m3
    by (auto simp: walk_unfold bind_eq_Some_conv Let_def split: if_splits)
  obtain lv3 f1 where d2: "grows s2 lv2 t lv3" "ok2" "next_table t f2 (level_index 2 v) = Some f1"
      "lv3 f1 = Some 1"
    using walk_level_down [OF grows_wf [OF d3(1)] d3(4) _ _ w2] by auto
  have m2: "pmem t (entry_addr s2 f2 (level_index 2 v)) AND PAGE_MASK = f1"
    using next_table_mask [OF d2(3)] grows_entry_addr [OF d2(1)] by simp
  have pte: "pte = entry_addr t f1 (level_index 1 v)"
    using assms(3) w4 d4(2) m4 w3 d3(2) m3 w2 d2(2) m2 by (simp add: walk_unfold Let_def)
  have g: "grows s lv t lv3" using d4(1) d3(1) d2(1) grows_trans by blast
  have p1: "lv1 ?p = Some 4" by (rule grows_level [OF d4(1) p])
  have "next_table t ?p (level_index 4 v) = Some f3"
    using grows_next [OF grows_trans [OF d3(1) d2(1)] p1 _ d4(3)] by simp
  moreover have "lv2 f3 = Some 3" by (rule grows_level [OF d3(1) d4(4)])
  then have "next_table t f3 (level_index 3 v) = Some f2"
    using grows_next [OF d2(1) _ _ d3(3)] by simp
  ultimately have "leaf_table t v = Some f1"
    using d2(3) g by (simp add: leaf_table_def grows_def)
  then show ?thesis using that g d2(4) pte by blast
qed

lemma walk_nocreate:
  assumes wf: "pmm_wf s" "levels_ok s lv"
  shows "walk v False s =
    Some (case leaf_table s v of None \<Rightarrow> NULL | Some f1 \<Rightarrow> entry_addr s f1 (level_index 1 v), s)"
proof -
  have wl: "walk_level (entry_addr s f i) False s = Some (next_table s f i \<noteq> None, s)" for f i
    by (simp add: walk_level_def next_table_def Let_def)
  show ?thesis
    by (auto simp: walk_unfold wl leaf_table_def Let_def next_table_mask
        split: Option.bind_splits option.splits)
qed

text \<open>Leaf tables of well-formed states are tables of level 1, and determine the upper indices.\<close>

lemma leaf_table_level:
  assumes "levels_ok s lv" "leaf_table s v = Some f1"
  shows "lv f1 = Some 1"
proof -
  obtain f3 f2 where n: "next_table s (current_pml4 s) (level_index 4 v) = Some f3"
      "next_table s f3 (level_index 3 v) = Some f2" "next_table s f2 (level_index 2 v) = Some f1"
    using assms(2) by (auto simp: leaf_table_def bind_eq_Some_conv)
  have "lv f3 = Some 3" using levels_okD(3) [OF assms(1) levels_okD(1) [OF assms(1)] _ _ n(1)] by simp
  then have "lv f2 = Some 2" using levels_okD(3) [OF assms(1) _ _ _ n(2)] by fastforce
  then show ?thesis using levels_okD(3) [OF assms(1) _ _ _ n(3)] by fastforce
qed

lemma leaf_table_inj:
  assumes "levels_ok s lv" "leaf_table s v = Some f1" "leaf_table s w = Some f1"
  shows "\<forall>l \<in> {2, 3, 4}. level_index l v = level_index l w"
proof -
  let ?p = "current_pml4 s"
  obtain f3 f2 where n: "next_table s ?p (level_index 4 v) = Some f3"
      "next_table s f3 (level_index 3 v) = Some f2" "next_table s f2 (level_index 2 v) = Some f1"
    using assms(2) by (auto simp: leaf_table_def bind_eq_Some_conv)
  obtain g3 g2 where m: "next_table s ?p (level_index 4 w) = Some g3"
      "next_table s g3 (level_index 3 w) = Some g2" "next_table s g2 (level_index 2 w) = Some f1"
    using assms(3) by (auto simp: leaf_table_def bind_eq_Some_conv)
  note ok = assms(1)
  have p: "lv ?p = Some 4" by (rule levels_okD(1) [OF ok])
  have f3: "lv f3 = Some 3" using levels_okD(3) [OF ok p _ _ n(1)] by simp
  have f2: "lv f2 = Some 2" using levels_okD(3) [OF ok f3 _ _ n(2)] by simp
  have g3: "lv g3 = Some 3" using levels_okD(3) [OF ok p _ _ m(1)] by simp
  have g2: "lv g2 = Some 2" using levels_okD(3) [OF ok g3 _ _ m(2)] by simp
  have e2: "f2 = g2 \<and> level_index 2 v = level_index 2 w"
    using levels_okD(4) [OF ok f2 _ _ n(3) g2 _ _ m(3)] by simp
  then have e3: "f3 = g3 \<and> level_index 3 v = level_index 3 w"
    using levels_okD(4) [OF ok f3 _ _ n(2) g3 _ _, of "level_index 3 w"] m(2) by simp
  then have "level_index 4 v = level_index 4 w"
    using levels_okD(4) [OF ok p _ _ n(1) p _ _, of "level_index 4 w"] m(1) by simp
  with e2 e3 show ?thesis by simp
qed

section \<open>Writing a leaf entry\<close>

lemma vmm_frame_simps [simp]:
  "entry_addr (s\<lparr>pmem := m\<rparr>) = entry_addr s" "entry_addr (invlpg v s) = entry_addr s"
  "pmm_avail (s\<lparr>pmem := m\<rparr>) = pmm_avail s" "pmm_avail (invlpg v s) = pmm_avail s"
  "pmm_wf (s\<lparr>pmem := m\<rparr>) = pmm_wf s" "pmm_wf (invlpg v s) = pmm_wf s"
  "next_table (invlpg v s) = next_table s" "current_pml4 (invlpg v s) = current_pml4 s"
  "hhdm_ok (invlpg v s) = hhdm_ok s" "hhdm_ok (s\<lparr>pmem := m\<rparr>) = hhdm_ok s"
  by (auto simp: fun_eq_iff hhdm_ok_def entry_addr_def pmm_avail_def page_addr_def pmm_wf_def next_table_def
      invlpg_def)

lemma table_lookup_invlpg [simp]: "table_lookup (invlpg v s) k f w = table_lookup s k f w"
  by (induction k arbitrary: f) (auto split: option.splits)

lemma vmm_lookup_invlpg [simp]: "vmm_lookup (invlpg v s) w = vmm_lookup s w"
  by (simp add: vmm_lookup_def)

lemma levels_ok_invlpg [simp]: "levels_ok (invlpg v s) lv = levels_ok s lv"
  by (simp add: levels_ok_def)

definition entry_target :: "u64 \<Rightarrow> u64 option" where
  "entry_target e = (if e AND VMM_PRESENT \<noteq> 0 then Some (e AND PAGE_MASK) else None)"

lemma next_table_target: "next_table s f i = entry_target (pmem s (entry_addr s f i))"
  by (simp add: next_table_def entry_target_def Let_def)

lemma pte_write:
  assumes "levels_ok u lv" "lv f1 = Some 1" "i < 512"
    and t: "t = u\<lparr>pmem := (pmem u)(entry_addr u f1 i := e)\<rparr>"
  shows "lv h = Some k \<Longrightarrow> j < 512 \<Longrightarrow>
      next_table t h j = (if h = f1 \<and> j = i then entry_target e else next_table u h j)"
    and "levels_ok t lv" and "leaf_table t w = leaf_table u w"
proof -
  have hh: "entry_addr t = entry_addr u" "pmem t = (pmem u)(entry_addr u f1 i := e)"
    by (simp_all add: t)
  have nt: "next_table t h j = (if h = f1 \<and> j = i then entry_target e else next_table u h j)"
    if "lv h = Some k" "j < 512" for h k j
  proof -
    have "is_frame h" "is_frame f1"
      using levels_okD(2) [OF assms(1) that(1)] levels_okD(2) [OF assms(1,2)] by simp_all
    then show ?thesis
      using entry_addr_inj [of h f1 j i u] that(2) assms(3)
      by (simp add: next_table_target hh)
  qed
  then show "lv h = Some k \<Longrightarrow> j < 512 \<Longrightarrow>
      next_table t h j = (if h = f1 \<and> j = i then entry_target e else next_table u h j)" .
  have up: "next_table t h j = next_table u h j" if "lv h = Some k" "1 < k" "j < 512" for h k j
    using nt [OF that(1,3)] that assms(2) by auto
  have av: "pmm_avail t = pmm_avail u" by (simp add: t)
  have pm: "current_pml4 t = current_pml4 u" by (simp add: t)
  show "levels_ok t lv"
    unfolding levels_ok_def av pm
    using levels_okD [OF assms(1)] up by (intro conjI allI impI) (metis (no_types, lifting))+
  note lv = levels_okD(1) [OF assms(1)] levels_okD(3) [OF assms(1)]
  show "leaf_table t w = leaf_table u w"
  proof (cases "next_table u (current_pml4 u) (level_index 4 w)")
    case None
    then show ?thesis using up [OF lv(1)] by (simp add: leaf_table_def pm)
  next
    case (Some f3)
    have f3: "lv f3 = Some 3" using lv(2) [OF lv(1) _ _ Some] by simp
    show ?thesis
    proof (cases "next_table u f3 (level_index 3 w)")
      case None
      then show ?thesis using Some up [OF lv(1)] up [OF f3] by (simp add: leaf_table_def pm)
    next
      case (Some f2)
      have "lv f2 = Some 2" using lv(2) [OF f3 _ _ Some] by simp
      then show ?thesis
        using \<open>next_table u _ _ = Some f3\<close> Some up [OF lv(1)] up [OF f3] up [of f2]
        by (simp add: leaf_table_def pm)
    qed
  qed
qed

lemma pte_write_lookup:
  assumes "levels_ok u lv" "leaf_table u v = Some f1"
    and t: "t = u\<lparr>pmem := (pmem u)(entry_addr u f1 (level_index 1 v) := e)\<rparr>"
  shows "vmm_lookup t w = (if same_page w v then entry_target e else vmm_lookup u w)"
proof -
  have f1: "lv f1 = Some 1" by (rule leaf_table_level [OF assms(1,2)])
  note pw = pte_write [OF assms(1) f1 _ t]
  show ?thesis
  proof (cases "leaf_table u w")
    case None
    then have "\<not> same_page w v" using assms(2) by (auto simp: same_page_iff leaf_table_def)
    then show ?thesis using None pw(3) by (simp add: vmm_lookup_leaf)
  next
    case (Some g1)
    have g1: "lv g1 = Some 1" by (rule leaf_table_level [OF assms(1) Some])
    have "g1 = f1 \<and> level_index 1 w = level_index 1 v \<longleftrightarrow> same_page w v"
      using leaf_table_inj [OF assms(1)] Some assms(2)
      by (auto simp: same_page_iff leaf_table_def)
    then show ?thesis using Some pw(1) [OF _ g1] pw(3) by (simp add: vmm_lookup_leaf)
  qed
qed

section \<open>The operations on the map\<close>

lemma grows_lookup: "grows s lv t lv' \<Longrightarrow> levels_ok s lv \<Longrightarrow> vmm_lookup t v = vmm_lookup s v"
  by (simp add: grows_def vmm_lookup_def levels_okD(1))

text \<open>\<open>vmm_map\<close> turns free pages into tables and changes no page that is neither a table nor free.\<close>

lemma vmm_map_levels:
  assumes wf: "pmm_wf s" "levels_ok s lv"
    and "flags AND PAGE_MASK = 0" "vmm_map v p flags s = Some t"
  obtains lv' where "pmm_wf t" "levels_ok t lv'" "lv \<subseteq>\<^sub>m lv'"
    "\<And>h k. lv' h = Some k \<Longrightarrow> lv h = Some k \<or> h \<in> pmm_avail s"
    "\<And>h j. is_frame h \<Longrightarrow> lv' h = None \<Longrightarrow> j < 512 \<Longrightarrow>
       pmem t (entry_addr s h j) = pmem s (entry_addr s h j)"
    "\<And>w. vmm_lookup t w = (if same_page w v then Some (p AND PAGE_MASK) else vmm_lookup s w)"
    "pmm_avail t \<subseteq> pmm_avail s" "g_hhdm_offset t = g_hhdm_offset s" "current_pml4 t = current_pml4 s"
    "cr3 t = cr3 s" "vmm_state.more t = vmm_state.more s"
proof -
  let ?e = "(p AND PAGE_MASK) OR flags OR VMM_PRESENT"
  obtain pte u where w: "walk v True s = Some (pte, u)"
      and t: "t = invlpg v (u\<lparr>pmem := (pmem u)(pte := ?e)\<rparr>)"
    using assms(4) by (auto simp: vmm_map_def bind_eq_Some_conv)
  obtain lv' f1 where g: "grows s lv u lv'" "leaf_table u v = Some f1" "lv' f1 = Some 1"
      and pte: "pte = entry_addr u f1 (level_index 1 v)"
    by (rule walk_create [OF wf w])
  have ok: "levels_ok u lv'" "pmm_wf u" using g(1) by (simp_all add: grows_def)
  define r where "r = u\<lparr>pmem := (pmem u)(entry_addr u f1 (level_index 1 v) := ?e)\<rparr>"
  have tr: "t = invlpg v r" by (simp add: t r_def pte)
  note pw = pte_write [OF ok(1) g(3) _ r_def] pte_write_lookup [OF ok(1) g(2) r_def]
  have ea: "entry_addr u = entry_addr s" by (rule grows_entry_addr [OF g(1)])
  show ?thesis
  proof (rule that [of lv'])
    show "pmm_wf t" "levels_ok t lv'" using ok(2) pw(2) by (simp_all add: tr r_def)
    show "lv \<subseteq>\<^sub>m lv'" "pmm_avail t \<subseteq> pmm_avail s" "g_hhdm_offset t = g_hhdm_offset s"
      "current_pml4 t = current_pml4 s" "cr3 t = cr3 s" "vmm_state.more t = vmm_state.more s"
      using g(1) by (simp_all add: grows_def t) (simp_all add: invlpg_def)
    show "lv h = Some k \<or> h \<in> pmm_avail s" if "lv' h = Some k" for h k
      using g(1) that by (simp add: grows_def)
    show "pmem t (entry_addr s h j) = pmem s (entry_addr s h j)"
      if "is_frame h" "lv' h = None" "j < 512" for h j
    proof -
      have "is_frame f1" using levels_okD(2) [OF ok(1) g(3)] by simp
      then have "entry_addr s h j \<noteq> entry_addr s f1 (level_index 1 v)"
        using entry_addr_inj [OF that(1) _ that(3), of f1 "level_index 1 v" s] g(3) that(2) by auto
      then have "pmem t (entry_addr s h j) = pmem u (entry_addr s h j)"
        by (simp add: t pte ea invlpg_def)
      then show ?thesis using g(1) that by (simp add: grows_def)
    qed
    show "vmm_lookup t w = (if same_page w v then Some (p AND PAGE_MASK) else vmm_lookup s w)" for w
      using pw(4) [of w] frame_entry_bits [OF frame_AND assms(3), of p] grows_lookup [OF g(1) wf(2)]
      by (simp add: tr entry_target_def)
  qed
qed

lemma vmm_map_spec:
  assumes "vmm_wf s" "flags AND PAGE_MASK = 0" "vmm_map v p flags s = Some t"
  shows "vmm_wf t" "vmm_lookup t w = (if same_page w v then Some (p AND PAGE_MASK) else vmm_lookup s w)"
    "pmm_avail t \<subseteq> pmm_avail s"
    "g_hhdm_offset t = g_hhdm_offset s" "current_pml4 t = current_pml4 s"
proof -
  obtain lv where wf: "pmm_wf s" "levels_ok s lv" using assms(1) by (auto simp: vmm_wf_def)
  obtain lv' where m: "pmm_wf t" "levels_ok t lv'" "pmm_avail t \<subseteq> pmm_avail s"
      "\<And>w. vmm_lookup t w = (if same_page w v then Some (p AND PAGE_MASK) else vmm_lookup s w)"
      "g_hhdm_offset t = g_hhdm_offset s" "current_pml4 t = current_pml4 s"
    using vmm_map_levels [OF wf assms(2,3)] by metis
  show "vmm_wf t" using m(1,2,5) assms(1) by (auto simp: vmm_wf_def hhdm_ok_def)
  show "vmm_lookup t w = (if same_page w v then Some (p AND PAGE_MASK) else vmm_lookup s w)"
    "pmm_avail t \<subseteq> pmm_avail s" "g_hhdm_offset t = g_hhdm_offset s" "current_pml4 t = current_pml4 s"
    by (fact m)+
qed

lemma entry_addr_nonnull:
  assumes "hhdm_ok s" "levels_ok s lv" "lv f = Some l" "i < 512"
  shows "entry_addr s f i \<noteq> NULL"
proof -
  have i: "unat i < 512" using assms(4) by (simp add: word_less_nat_alt)
  then have u8: "unat (8 * i) = 8 * unat i" by (simp add: unat_word_ariths)
  have f: "unat f < 2 ^ 47" "unat f mod 4096 = 0"
    using levels_okD(2) [OF assms(2,3)] by (auto simp: is_frame_iff)
  then have "unat f + 4096 \<le> 2 ^ 47" by (intro page_below) simp_all
  then have s: "unat (f + 8 * i) = unat f + 8 * unat i"
    using u8 i by (subst unat_plus_no_overflow) auto
  have "unat (g_hhdm_offset s + (f + 8 * i)) = unat (g_hhdm_offset s) + unat (f + 8 * i)"
    using assms(1) s \<open>unat f + 4096 \<le> 2 ^ 47\<close> i
    by (subst unat_plus_no_overflow) (auto simp: hhdm_ok_def)
  then have "unat (entry_addr s f i) \<noteq> 0"
    using assms(1) by (simp add: entry_addr_def add.assoc hhdm_ok_def unat_eq_zero)
  then show ?thesis by auto
qed

lemma vmm_unmap_spec:
  assumes "vmm_wf s"
  obtains t where "vmm_unmap v s = Some t" "vmm_wf t"
    "\<And>w. vmm_lookup t w = (if same_page w v then None else vmm_lookup s w)"
    "pmm_avail t = pmm_avail s"
proof -
  obtain lv where wf: "pmm_wf s" "hhdm_ok s" "levels_ok s lv" using assms by (auto simp: vmm_wf_def)
  note walk = walk_nocreate [OF wf(1,3), of v]
  show ?thesis
  proof (cases "leaf_table s v")
    case None
    have "vmm_lookup s w = None" if "same_page w v" for w
      using None that by (auto simp: vmm_lookup_leaf leaf_table_def same_page_iff)
    then show ?thesis
      using that [of s] walk None assms by (auto simp: vmm_unmap_def)
  next
    case (Some f1)
    have f1: "lv f1 = Some 1" by (rule leaf_table_level [OF wf(3) Some])
    let ?p = "entry_addr s f1 (level_index 1 v)"
    have nn: "?p \<noteq> NULL" by (rule entry_addr_nonnull [OF wf(2,3) f1]) simp
    define r where "r = s\<lparr>pmem := (pmem s)(entry_addr s f1 (level_index 1 v) := 0)\<rparr>"
    note pw = pte_write [OF wf(3) f1 _ r_def] pte_write_lookup [OF wf(3) Some r_def]
    have look: "vmm_lookup r w = (if same_page w v then None else vmm_lookup s w)" for w
      using pw(4) by (simp add: entry_target_def)
    show ?thesis
    proof (cases "pmem s ?p AND VMM_PRESENT = 0")
      case True
      then have "vmm_lookup s w = None" if "same_page w v" for w
        using Some that by (auto simp: vmm_lookup_leaf leaf_table_def same_page_iff next_table_def)
      then show ?thesis
        using that [of s] walk Some True assms by (auto simp: vmm_unmap_def)
    next
      case False
      have "vmm_unmap v s = Some (invlpg v r)"
        using walk Some nn False by (simp add: vmm_unmap_def r_def)
      moreover have "vmm_wf (invlpg v r)"
        using pw(2) wf(1,2) by (auto simp: vmm_wf_def r_def)
      ultimately show ?thesis using that [of "invlpg v r"] look by (simp add: r_def)
    qed
  qed
qed

lemma vmm_resolve_spec:
  assumes "vmm_wf s"
  shows "vmm_resolve v s =
    Some (case vmm_lookup s v of None \<Rightarrow> 0 | Some f \<Rightarrow> f OR (v AND (PAGE_SIZE_VMM - 1)), s)"
proof -
  obtain lv where wf: "pmm_wf s" "hhdm_ok s" "levels_ok s lv" using assms by (auto simp: vmm_wf_def)
  show ?thesis
  proof (cases "leaf_table s v")
    case None
    then show ?thesis
      using walk_nocreate [OF wf(1,3), of v] by (simp add: vmm_resolve_def vmm_lookup_leaf)
  next
    case (Some f1)
    have "entry_addr s f1 (level_index 1 v) \<noteq> NULL"
      using entry_addr_nonnull [OF wf(2,3) leaf_table_level [OF wf(3) Some]] by simp
    then show ?thesis
      using Some walk_nocreate [OF wf(1,3), of v]
      by (simp add: vmm_resolve_def vmm_lookup_leaf next_table_def Let_def)
  qed
qed

section \<open>Progress: three free pages are enough for any mapping\<close>

lemma alloc_table_total:
  assumes "pmm_wf s" "pmm_avail s \<noteq> {}"
  obtains f t where "alloc_table s = Some (f, t)"
  using pmm_alloc_some(2) [OF assms] that
  by (cases "pmm_alloc_page s") (auto simp: alloc_table_def)

lemma walk_level_total:
  assumes "pmm_wf s" "Suc n \<le> card (pmm_avail s)"
  obtains ok t where "walk_level e create s = Some (ok, t)" "pmm_wf t" "n \<le> card (pmm_avail t)"
proof (cases "pmem s e AND VMM_PRESENT \<noteq> 0 \<or> \<not> create")
  case True
  then show ?thesis
    using that [of "pmem s e AND VMM_PRESENT \<noteq> 0" s] assms by (auto simp: walk_level_def)
next
  case False
  have "pmm_avail s \<noteq> {}" using assms(2) by auto
  then obtain f t where ft: "alloc_table s = Some (f, t)" by (rule alloc_table_total [OF assms(1)])
  note spec = alloc_table_spec [OF assms(1) ft]
  have "card (pmm_avail t) = card (pmm_avail s) - 1"
    using spec(1,4) by (simp add: pmm.finite_avail)
  then show ?thesis
    using that [of True "t\<lparr>pmem := (pmem t)(e := (f AND PAGE_MASK) OR VMM_PRESENT OR VMM_WRITE)\<rparr>"]
      False ft spec(5) assms(2) by (simp add: walk_level_def)
qed

lemma walk_total:
  assumes "pmm_wf s" "n + 3 \<le> card (pmm_avail s)"
  obtains pte t where "walk v create s = Some (pte, t)" "n \<le> card (pmm_avail t)"
proof -
  define e4 where "e4 = entry_addr s (current_pml4 s) (level_index 4 v)"
  obtain ok1 s1 where w1: "walk_level e4 create s = Some (ok1, s1)" "pmm_wf s1" "n + 2 \<le> card (pmm_avail s1)"
    using walk_level_total [OF assms(1), of "n + 2" e4 create] assms(2) by auto
  define e3 where "e3 = entry_addr s1 (pmem s1 e4 AND PAGE_MASK) (level_index 3 v)"
  obtain ok2 s2 where w2: "walk_level e3 create s1 = Some (ok2, s2)" "pmm_wf s2" "n + 1 \<le> card (pmm_avail s2)"
    using walk_level_total [OF w1(2), of "n + 1" e3 create] w1(3) by auto
  define e2 where "e2 = entry_addr s2 (pmem s2 e3 AND PAGE_MASK) (level_index 2 v)"
  obtain ok3 s3 where w3: "walk_level e2 create s2 = Some (ok3, s3)" "pmm_wf s3" "n \<le> card (pmm_avail s3)"
    using walk_level_total [OF w2(2), of n e2 create] w2(3) by auto
  have "walk v create s =
    (if \<not> ok1 then Some (NULL, s1) else if \<not> ok2 then Some (NULL, s2)
     else if \<not> ok3 then Some (NULL, s3)
     else Some (entry_addr s3 (pmem s3 e2 AND PAGE_MASK) (level_index 1 v), s3))"
    using w1(1) w2(1) w3(1) by (simp add: walk_unfold e4_def e3_def e2_def Let_def)
  then show ?thesis using that w1(3) w2(3) w3(3) by (auto split: if_splits)
qed

lemma vmm_map_total:
  assumes "pmm_wf s" "n + 3 \<le> card (pmm_avail s)"
  obtains t where "vmm_map v p flags s = Some t" "n \<le> card (pmm_avail t)"
proof -
  obtain pte t where w: "walk v True s = Some (pte, t)" "n \<le> card (pmm_avail t)"
    using walk_total [OF assms, of v True] by blast
  show ?thesis
    by (rule that [of "invlpg v (t\<lparr>pmem := (pmem t)(pte := (p AND PAGE_MASK) OR flags OR VMM_PRESENT)\<rparr>)"])
       (use w in \<open>simp_all add: vmm_map_def\<close>)
qed

lemma alloc_table_pmm_wf: "alloc_table s = Some (f, t) \<Longrightarrow> pmm_wf s \<Longrightarrow> pmm_wf t"
  by (rule alloc_table_spec(5))

lemma walk_level_pmm_wf:
  assumes "walk_level e create s = Some (ok, t)" "pmm_wf s"
  shows "pmm_wf t"
proof -
  have "t = s \<or> (\<exists>f u. alloc_table s = Some (f, u) \<and> pmm_wf t = pmm_wf u)"
    using assms(1) by (auto simp: walk_level_def bind_eq_Some_conv split: if_splits)
  then show ?thesis using assms(2) alloc_table_pmm_wf by auto
qed

lemma vmm_map_pmm_wf:
  assumes "vmm_map v p flags s = Some t" "pmm_wf s"
  shows "pmm_wf t"
proof -
  obtain pte u where w: "walk v True s = Some (pte, u)" and "pmm_wf t = pmm_wf u"
    using assms(1) by (auto simp: vmm_map_def bind_eq_Some_conv)
  then show ?thesis
    using assms(2)
    by (auto simp: walk_unfold bind_eq_Some_conv Let_def split: if_splits dest!: walk_level_pmm_wf)
qed

section \<open>A second address space\<close>

lemma fold_copy_other:
  "a \<notin> dst ` set js \<Longrightarrow> fold (\<lambda>i m. m(dst i := m (src i))) js m a = m a"
  by (induction js arbitrary: m) auto

lemma fold_copy_dst:
  assumes "distinct js" "inj_on dst (set js)" "dst ` set js \<inter> src ` set js = {}" "i \<in> set js"
  shows "fold (\<lambda>i m. m(dst i := m (src i))) js m (dst i) = m (src i)"
  using assms
proof (induction js arbitrary: m)
  case (Cons j js)
  show ?case
  proof (cases "i = j")
    case True
    then have "dst i \<notin> dst ` set js" using Cons.prems(1,2) by (auto simp: inj_on_def)
    then show ?thesis
      using True fold_copy_other [of "dst j" dst js src "m(dst j := m (src j))"]
      by (simp del: fun_upd_apply) simp
  next
    case False
    then have "i \<in> set js" "src i \<noteq> dst j" using Cons.prems(3,4) by auto (metis image_eqI)
    then show ?thesis using Cons.IH [of "m(dst j := m (src j))"] Cons.prems(1-3) by auto
  qed
qed simp

lemma copy_upper_half_entries:
  fixes s :: "'a vmm_state_scheme"
  assumes "is_frame new" "is_frame old" "new \<noteq> old"
  defines "t \<equiv> copy_upper_half (g_hhdm_offset s + new) (g_hhdm_offset s + old) s"
  shows "is_frame h \<Longrightarrow> h \<noteq> new \<Longrightarrow> j < 512 \<Longrightarrow> next_table t h j = next_table s h j"
    and "i < 512 \<Longrightarrow> next_table t new i = (if 256 \<le> i then next_table s old i else next_table s new i)"
proof -
  let ?js = "[256..<ENTRIES_PER_TABLE]"
  let ?dst = "\<lambda>i. entry_addr s new (of_nat i)" and ?src = "\<lambda>i. entry_addr s old (of_nat i)"
  have js: "i \<in> set ?js \<Longrightarrow> (of_nat i :: u64) < 512 \<and> unat (of_nat i :: u64) = i" for i
    by (auto simp: ENTRIES_PER_TABLE_def word_less_nat_alt unat_of_nat_small)
  have pm: "pmem t = fold (\<lambda>i m. m(?dst i := m (?src i))) ?js (pmem s)"
    by (simp add: t_def copy_upper_half_def entry_addr_def)
  have hh: "entry_addr t = entry_addr s" by (simp add: t_def copy_upper_half_def)
  have disj: "?dst ` set ?js \<inter> ?src ` set ?js = {}"
    using entry_addr_inj [OF assms(1,2)] js assms(3) by fastforce
  have inj: "inj_on ?dst (set ?js)"
  proof (rule inj_onI)
    fix i j assume ij: "i \<in> set ?js" "j \<in> set ?js" "?dst i = ?dst j"
    then have "(of_nat i :: u64) = of_nat j" using entry_addr_inj [OF assms(1,1)] js by blast
    then show "i = j" using js ij(1,2) by metis
  qed
  show "next_table t h j = next_table s h j" if "is_frame h" "h \<noteq> new" "j < 512"
  proof -
    have "entry_addr s h j \<notin> ?dst ` set ?js"
      using entry_addr_inj [OF that(1) assms(1) that(3)] js that(2) by blast
    then show ?thesis by (simp add: next_table_target hh pm fold_copy_other)
  qed
  show "next_table t new i = (if 256 \<le> i then next_table s old i else next_table s new i)" if i: "i < 512"
  proof (cases "256 \<le> i")
    case True
    then have "256 \<le> unat i" "unat i < 512" using that
      by (simp_all add: word_le_nat_alt word_less_nat_alt)
    then have "unat i \<in> set ?js" unfolding set_upt ENTRIES_PER_TABLE_def by simp
    then show ?thesis
      using fold_copy_dst [OF _ inj disj, of "unat i" "pmem s"] True
      by (simp add: next_table_target hh pm)
  next
    case False
    have "entry_addr s new i \<notin> ?dst ` set ?js"
    proof
      assume "entry_addr s new i \<in> ?dst ` set ?js"
      then obtain j where j: "j \<in> set ?js" "i = of_nat j"
        using entry_addr_inj [OF assms(1,1) i] js by blast
      then show False using False js [OF j(1)] by (simp add: ENTRIES_PER_TABLE_def word_le_nat_alt)
    qed
    then show ?thesis using False by (simp add: next_table_target hh pm fold_copy_other)
  qed
qed

lemma create_address_space_spec:
  assumes "vmm_wf s" "create_address_space s = Some (new, t)"
  shows "new \<in> pmm_avail s" "pmm_avail t = pmm_avail s - {new}"
    "table_lookup t 4 new v = (if 256 \<le> PML4_INDEX v then vmm_lookup s v else None)"
    "vmm_lookup t v = vmm_lookup s v" "current_pml4 t = current_pml4 s"
proof -
  obtain lv where wf: "pmm_wf s" "hhdm_ok s" "levels_ok s lv" using assms(1) by (auto simp: vmm_wf_def)
  obtain u where al: "alloc_table s = Some (new, u)"
      and t: "t = copy_upper_half (g_hhdm_offset u + new) (g_hhdm_offset u + current_pml4 u) u"
    using assms(2)
    by (auto simp: create_address_space_def alloc_table_def physical_to_virtual_def zero_page_def Let_def
        split: prod.splits if_splits)
  note spec = alloc_table_spec [OF wf(1) al]
  have p: "lv (current_pml4 s) = Some 4" by (rule levels_okD(1) [OF wf(3)])
  have fresh: "lv new = None"
    using levels_okD(2) [OF wf(3), of new] spec(1) by (cases "lv new") auto
  have ne: "new \<noteq> current_pml4 u" using fresh p spec(8) by auto
  have fr: "is_frame (current_pml4 u)" using levels_okD(2) [OF wf(3) p] spec(8) by simp
  note cp = copy_upper_half_entries [where s = u, OF spec(2) fr ne, folded t]
  have hh: "entry_addr u = entry_addr s" by (intro ext) (simp add: entry_addr_def spec)
  have us: "next_table u h j = next_table s h j" if "lv h = Some k" "j < 512" for h k j
  proof -
    have "is_frame h" "h \<noteq> new" using levels_okD(2) [OF wf(3) that(1)] fresh that(1) by auto
    then show ?thesis
      using entry_outside_page [OF _ spec(2) _ that(2), of h s] by (simp add: next_table_target hh spec(6))
  qed
  have ts: "next_table t h j = next_table s h j" if "lv h = Some k" "j < 512" for h k j
  proof -
    have "is_frame h" "h \<noteq> new" using levels_okD(2) [OF wf(3) that(1)] fresh that(1) by auto
    then show ?thesis using cp(1) [OF _ _ that(2)] us [OF that] by simp
  qed
  have zero: "next_table u new j = None" if "j < 512" for j
    using entry_inside_page [OF that, of s new] by (simp add: next_table_target hh spec(6) entry_target_def)
  show "new \<in> pmm_avail s" by (fact spec(1))
  show "pmm_avail t = pmm_avail s - {new}"
    using spec(4) by (simp add: t copy_upper_half_def)
  show cur: "current_pml4 t = current_pml4 s" by (simp add: t copy_upper_half_def spec)
  show "vmm_lookup t v = vmm_lookup s v"
    using table_lookup_cong [OF wf(3) p ts] by (simp add: vmm_lookup_def cur)
  have "next_table t new (level_index 4 v) =
      (if 256 \<le> level_index 4 v then next_table s (current_pml4 s) (level_index 4 v) else None)"
    using cp(2) [of "level_index 4 v"] us [OF p] zero [of "level_index 4 v"] spec(8) by simp
  moreover have "table_lookup t 3 g v = table_lookup s 3 g v"
    if "next_table s (current_pml4 s) (level_index 4 v) = Some g" for g
    using table_lookup_cong [OF wf(3) _ ts] levels_okD(3) [OF wf(3) p _ _ that] by simp
  ultimately show "table_lookup t 4 new v = (if 256 \<le> PML4_INDEX v then vmm_lookup s v else None)"
    by (auto simp: vmm_lookup_def level_index_simps numeral_eq_Suc split: option.splits)
qed

section \<open>Properties\<close>

text \<open>C1: after \<open>vmm_map(v, p, flags)\<close> every address of the page of \<open>v\<close> resolves to its offset
  in the frame \<open>p\<close>, every other address resolves as before, and the tables stay well formed.\<close>

theorem vmm_map_resolve:
  assumes "vmm_wf s" "flags AND PAGE_MASK = 0" "vmm_map v p flags s = Some t"
  shows "vmm_wf t \<and>
    (\<forall>w. vmm_resolve w t =
       (if same_page w v then Some ((p AND PAGE_MASK) OR (w AND (PAGE_SIZE_VMM - 1)), t)
        else map_option (\<lambda>(r, u). (r, t)) (vmm_resolve w s)))"
  using vmm_map_spec(1,2) [OF assms] vmm_resolve_spec [OF assms(1)] vmm_resolve_spec [of t]
  by simp

definition vmm_example :: vmm_state where
  "vmm_example = \<lparr>interrupt_flag = False, io_trace = [], io_in8 = (\<lambda>_ _. 0),
     io_in16 = (\<lambda>_ _. 0), io_in32 = (\<lambda>_ _. 0), kout = [], g_hhdm_offset = 0xFFFF800000000000, g_memmap = None,
     pmm_bitmap = [0x03, 0x00], pmm_bitmap_addr = 0xFFFF800000100000, pmm_bitmap_size = 2,
     managed_base = 0x100000, total_pages = 16,
     pmem = (\<lambda>_. 0), current_pml4 = 0x101000, cr3 = 0x101000, tlb_flushed = []\<rparr>"

lemma levels_ok_empty:
  assumes "\<forall>a. pmem s a = 0" "is_frame (current_pml4 s)" "unat (current_pml4 s) < 2 ^ 47"
    "current_pml4 s \<notin> pmm_avail s"
  shows "levels_ok s [current_pml4 s \<mapsto> 4]"
  using assms by (simp add: levels_ok_def next_table_def)

lemma vmm_example_pages:
  "pmm_wf vmm_example" "0x101000 \<notin> pmm_avail vmm_example" "{0x102000, 0x103000, 0x104000} \<subseteq> pmm_avail vmm_example"
proof -
  show wf: "pmm_wf vmm_example" by (simp add: pmm_wf_def vmm_example_def PAGE_SIZE_def)
  have pa: "page_addr vmm_example i = 0x100000 + of_nat i * 0x1000" for i
    by (simp add: page_addr_def vmm_example_def PAGE_SIZE_def)
  have "page_addr vmm_example 2 \<in> pmm_avail vmm_example" "page_addr vmm_example 3 \<in> pmm_avail vmm_example"
    "page_addr vmm_example 4 \<in> pmm_avail vmm_example"
    by (simp_all add: pmm_avail_def vmm_example_def BIT_TEST_def)
  then show "{0x102000, 0x103000, 0x104000} \<subseteq> pmm_avail vmm_example" by (simp add: pa)
  have "page_addr vmm_example 1 \<notin> pmm_avail vmm_example"
  proof
    assume "page_addr vmm_example 1 \<in> pmm_avail vmm_example"
    then obtain i where i: "i < total_pages vmm_example" "\<not> BIT_TEST (pmm_bitmap vmm_example) i"
        "page_addr vmm_example 1 = page_addr vmm_example i"
      by (auto simp: pmm_avail_def)
    then have "i = 1" using page_addr_inj [OF wf, of 1 i] by (simp add: vmm_example_def)
    then show False using i(2) by (simp add: vmm_example_def BIT_TEST_def)
  qed
  then show "0x101000 \<notin> pmm_avail vmm_example" by (simp add: pa)
qed

lemma vmm_example_wf: "vmm_wf vmm_example"
proof -
  have "levels_ok vmm_example [current_pml4 vmm_example \<mapsto> 4]"
    by (rule levels_ok_empty)
       (use vmm_example_pages(2) in \<open>simp_all add: vmm_example_def is_frame_def PAGE_MASK_def\<close>)
  then show ?thesis
    using vmm_example_pages(1) by (auto simp: vmm_wf_def hhdm_ok_def) (simp_all add: vmm_example_def)
qed

lemma vmm_example_card: "3 \<le> card (pmm_avail vmm_example)"
  using card_mono [OF pmm.finite_avail vmm_example_pages(3)] by simp

theorem vmm_map_resolve_witness:
  "\<exists>t. vmm_map 0x400000 0x200000 VMM_WRITE vmm_example = Some t \<and>
     vmm_resolve 0x400123 t = Some (0x200123, t)"
proof -
  obtain t where t: "vmm_map 0x400000 0x200000 VMM_WRITE vmm_example = Some t"
    using vmm_map_total [OF vmm_example_pages(1), of 0] vmm_example_card by (metis add_0)
  have "same_page 0x400123 0x400000" by (simp add: same_page_def)
  then have "vmm_resolve 0x400123 t =
      Some ((0x200000 AND PAGE_MASK) OR (0x400123 AND (PAGE_SIZE_VMM - 1)), t)"
    using vmm_map_resolve [OF vmm_example_wf VMM_WRITE_mask t] by simp
  then show ?thesis using t by (simp add: PAGE_MASK_def PAGE_SIZE_VMM_def)
qed

text \<open>C6: \<open>vmm_unmap(v)\<close> always returns; afterwards no address of the page of \<open>v\<close> resolves and
  every other address resolves as before.\<close>

theorem vmm_unmap_resolve:
  assumes "vmm_wf s"
  shows "\<exists>t. vmm_unmap v s = Some t \<and> vmm_wf t \<and>
    (\<forall>w. vmm_resolve w t =
       (if same_page w v then Some (0, t) else map_option (\<lambda>(r, u). (r, t)) (vmm_resolve w s)))"
proof -
  obtain t where t: "vmm_unmap v s = Some t" "vmm_wf t"
      "\<And>w. vmm_lookup t w = (if same_page w v then None else vmm_lookup s w)"
    using vmm_unmap_spec [OF assms] by blast
  then show ?thesis using vmm_resolve_spec [OF assms] vmm_resolve_spec [OF t(2)] by auto
qed

theorem vmm_unmap_resolve_witness:
  "\<exists>t u. vmm_map 0x400000 0x200000 VMM_WRITE vmm_example = Some t \<and> vmm_unmap 0x400FFF t = Some u \<and>
     vmm_resolve 0x400123 t = Some (0x200123, t) \<and> vmm_resolve 0x400123 u = Some (0, u)"
proof -
  obtain t where t: "vmm_map 0x400000 0x200000 VMM_WRITE vmm_example = Some t"
    using vmm_map_total [OF vmm_example_pages(1), of 0] vmm_example_card by (metis add_0)
  note spec = vmm_map_spec(1,2) [OF vmm_example_wf VMM_WRITE_mask t]
  obtain u where "vmm_unmap 0x400FFF t = Some u"
      "vmm_resolve 0x400123 u = (if same_page 0x400123 0x400FFF then Some (0, u)
         else map_option (\<lambda>(r, x). (r, u)) (vmm_resolve 0x400123 t))"
    using vmm_unmap_resolve [OF spec(1), of "0x400FFF"] by blast
  moreover have "same_page 0x400123 0x400000" "same_page 0x400123 0x400FFF"
    by (simp_all add: same_page_def)
  ultimately show ?thesis
    using t spec vmm_resolve_spec [OF spec(1), of "0x400123"]
    by (simp add: PAGE_MASK_def PAGE_SIZE_VMM_def)
qed

text \<open>With at least three free physical pages \<open>vmm_map\<close> always completes (it never reaches
  the out-of-memory halt), uses at most three of them, and only free ones.\<close>

theorem vmm_map_completes:
  assumes "vmm_wf s" "3 \<le> card (pmm_avail s)" "flags AND PAGE_MASK = 0"
  shows "\<exists>t. vmm_map v p flags s = Some t \<and> vmm_wf t \<and> pmm_avail t \<subseteq> pmm_avail s \<and>
    card (pmm_avail s) \<le> card (pmm_avail t) + 3"
proof -
  have wf: "pmm_wf s" using assms(1) by (simp add: vmm_wf_def)
  have "card (pmm_avail s) - 3 + 3 \<le> card (pmm_avail s)" using assms(2) by simp
  then obtain t where t: "vmm_map v p flags s = Some t" "card (pmm_avail s) - 3 \<le> card (pmm_avail t)"
    using vmm_map_total [OF wf] by metis
  then show ?thesis using vmm_map_spec(1,3) [OF assms(1,3) t(1)] by auto
qed

theorem vmm_map_completes_witness:
  "\<exists>t. vmm_map 0xFFFF800010000000 0x105000 (VMM_PRESENT OR VMM_WRITE) vmm_example = Some t \<and>
     card (pmm_avail vmm_example) \<le> card (pmm_avail t) + 3"
proof -
  have "(VMM_PRESENT OR VMM_WRITE) AND PAGE_MASK = 0"
    by (simp add: VMM_PRESENT_def VMM_WRITE_def PAGE_MASK_def)
  then show ?thesis using vmm_map_completes [OF vmm_example_wf vmm_example_card] by blast
qed

text \<open>A new address space has an empty lower half and shares the kernel half: an address
  with top-level index 256 or more resolves through the new root as through the current one,
  and nothing changes in the current address space.\<close>

theorem create_address_space_shares_kernel:
  assumes "vmm_wf s" "create_address_space s = Some (new, t)"
  shows "new \<in> pmm_avail s \<and> pmm_avail t = pmm_avail s - {new} \<and>
    (\<forall>v. table_lookup t 4 new v = (if 256 \<le> PML4_INDEX v then vmm_lookup s v else None)) \<and>
    (\<forall>v. vmm_lookup t v = vmm_lookup s v)"
  using create_address_space_spec [OF assms] by blast

theorem create_address_space_shares_kernel_witness:
  "\<exists>s new t. vmm_map 0xFFFF800010000000 0x200000 VMM_WRITE vmm_example = Some s \<and>
     create_address_space s = Some (new, t) \<and>
     table_lookup t 4 new 0xFFFF800010000000 = Some 0x200000 \<and> table_lookup t 4 new 0x400000 = None"
proof -
  have "1 + 3 \<le> card (pmm_avail vmm_example)"
  proof -
    have "page_addr vmm_example 5 \<in> pmm_avail vmm_example"
      by (simp add: pmm_avail_def vmm_example_def BIT_TEST_def)
    then have "{0x105000, 0x102000, 0x103000, 0x104000} \<subseteq> pmm_avail vmm_example"
      using vmm_example_pages(3) by (simp add: page_addr_def vmm_example_def PAGE_SIZE_def)
    from card_mono [OF pmm.finite_avail this] show ?thesis by simp
  qed
  then obtain s where s: "vmm_map 0xFFFF800010000000 0x200000 VMM_WRITE vmm_example = Some s"
      "1 \<le> card (pmm_avail s)"
    using vmm_map_total [OF vmm_example_pages(1)] by metis
  note spec = vmm_map_spec(1,2) [OF vmm_example_wf VMM_WRITE_mask s(1)]
  have "pmm_wf s" using spec(1) by (simp add: vmm_wf_def)
  moreover have "pmm_avail s \<noteq> {}" using s(2) by auto
  ultimately obtain new t where t: "create_address_space s = Some (new, t)"
    using pmm_alloc_some(2) [of s]
    by (cases "pmm_alloc_page s") (auto simp: create_address_space_def Let_def)
  from create_address_space_shares_kernel [OF spec(1) t]
  have "table_lookup t 4 new 0xFFFF800010000000 = vmm_lookup s 0xFFFF800010000000"
    "table_lookup t 4 new 0x400000 = None"
    by (simp_all add: PML4_INDEX_def)
  moreover have "vmm_lookup s 0xFFFF800010000000 = Some 0x200000"
    using spec(2) by (simp add: same_page_def PAGE_MASK_def)
  ultimately show ?thesis using s(1) t by metis
qed

end
