(* ===== verification/Vmem.thy ===== *)
theory Vmem
  imports Vmm_Tables
begin

text \<open>
  Memory as the kernel's pointers see it: a load or store at a virtual address goes through
  the translation the processor performs from \<open>CR3\<close>; an address without a translation faults
  (\<open>None\<close>).  Memory is accessed in aligned quadwords.  The lemmas say when a set of addresses
  behaves as ordinary memory: its pages are backed by frames that are neither tables nor free
  and no two of its pages share a frame.
\<close>

definition translate :: "'a vmm_state_scheme \<Rightarrow> u64 \<Rightarrow> u64 option" where
  "translate s v =
     map_option (\<lambda>f. f OR (v AND (PAGE_SIZE_VMM - 1))) (table_lookup s 4 (cr3 s AND PAGE_MASK) v)"

definition vread :: "u64 \<Rightarrow> 'a vmm_state_scheme \<Rightarrow> u64 option" where
  "vread v s = map_option (\<lambda>p. pmem s (physical_to_virtual p s)) (translate s v)"

definition vwrite :: "u64 \<Rightarrow> u64 \<Rightarrow> 'a vmm_state_scheme \<Rightarrow> 'a vmm_state_scheme option" where
  "vwrite v x s =
     map_option (\<lambda>p. s\<lparr>pmem := (pmem s)(physical_to_virtual p s := x)\<rparr>) (translate s v)"

section \<open>Backed addresses\<close>

definition aligned8 :: "u64 \<Rightarrow> bool" where
  "aligned8 v \<longleftrightarrow> unat v mod 8 = 0"

definition KERNEL_HALF :: u64 where "KERNEL_HALF = 0xFFFF800000000000"

text \<open>The addresses the processor accepts: the bits above the translated 48 repeat bit 47.\<close>

definition canonical :: "u64 \<Rightarrow> bool" where
  "canonical v \<longleftrightarrow> v < 2 ^ 47 \<or> KERNEL_HALF \<le> v"

definition backed :: "'a vmm_state_scheme \<Rightarrow> (u64 \<Rightarrow> nat option) \<Rightarrow> u64 set \<Rightarrow> bool" where
  "backed s lv D \<longleftrightarrow>
     (\<forall>v\<in>D. aligned8 v \<and> canonical v \<and>
        (\<exists>f. vmm_lookup s v = Some f \<and> lv f = None \<and> f \<notin> pmm_avail s)) \<and>
     (\<forall>v\<in>D. \<forall>w\<in>D. vmm_lookup s v = vmm_lookup s w \<longrightarrow> same_page v w)"

definition vm_ok :: "'a vmm_state_scheme \<Rightarrow> u64 set \<Rightarrow> bool" where
  "vm_ok s D \<longleftrightarrow> pmm_wf s \<and> hhdm_ok s \<and> cr3 s = current_pml4 s \<and>
     (\<exists>lv. levels_ok s lv \<and> backed s lv D)"

lemma aligned8_bit: "aligned8 v \<longleftrightarrow> take_bit 3 v = 0"
  by (simp add: aligned8_def unat_eq_zero [symmetric] take_bit_eq_mod unat_mod)

lemma page_offset_bit: "bit (v AND (PAGE_SIZE_VMM - 1)) n \<longleftrightarrow> n < 12 \<and> bit v n"
proof -
  have "PAGE_SIZE_VMM - 1 = mask 12" by (simp add: PAGE_SIZE_VMM_def mask_eq_exp_minus_1)
  then show ?thesis by (simp add: bit_and_iff bit_mask_iff) (metis u64_bit_less order_less_le_trans)
qed

text \<open>The quadword at an aligned address is an entry of its frame.\<close>

lemma qword_entry:
  assumes "is_frame f" "aligned8 v"
  shows "physical_to_virtual (f OR (v AND (PAGE_SIZE_VMM - 1))) s = entry_addr s f (level_index 0 v)"
proof -
  have "v AND (PAGE_SIZE_VMM - 1) = push_bit 3 (level_index 0 v)"
  proof (rule u64_eqI)
    fix n
    have "\<forall>n<3. \<not> bit v n" using assms(2) by (simp add: aligned8_bit u64_eq_iff bit_take_bit_iff)
    then have "bit v n \<Longrightarrow> 3 \<le> n" by (meson not_le)
    then show "bit (v AND (PAGE_SIZE_VMM - 1)) n = bit (push_bit 3 (level_index 0 v)) n" if "n < 64"
      using that by (auto simp: page_offset_bit bit_push_bit_iff level_index_bit)
  qed
  moreover have "f OR (v AND (PAGE_SIZE_VMM - 1)) = f + (v AND (PAGE_SIZE_VMM - 1))"
    by (rule disjunctive_add [symmetric])
       (use is_frame_bit [OF assms(1)] in \<open>fastforce simp: page_offset_bit\<close>)
  ultimately show ?thesis
    by (simp add: physical_to_virtual_def entry_addr_def push_bit_eq_mult mult.commute add.assoc)
qed

lemma kernel_half_bits:
  assumes "KERNEL_HALF \<le> v" "47 \<le> n" "n < 64"
  shows "bit v n"
proof -
  have "2 ^ 64 - 2 ^ 47 \<le> unat v" using assms(1) by (simp add: KERNEL_HALF_def word_le_nat_alt)
  moreover have "unat v < 2 ^ 64" using unsigned_less [of v] by simp
  ultimately have "unat v div 2 ^ 47 = 2 ^ 17 - 1" by simp
  then have "drop_bit 47 v = 2 ^ 17 - 1"
    by (simp add: word_unat_eq_iff drop_bit_eq_div unat_div)
  then have "drop_bit 47 v = mask 17" by (simp add: mask_eq_exp_minus_1)
  moreover have "n - 47 < 64" "n - 47 < 17" using assms(2,3) by linarith+
  ultimately have "bit (drop_bit 47 v) (n - 47)" by (simp only: u64_bit_mask)
  then show ?thesis using assms(2) by (simp add: bit_drop_bit_eq)
qed

lemma canonical_bits:
  assumes "canonical v" "47 \<le> n" "n < 64"
  shows "bit v n = bit v 47"
  using assms(1) unfolding canonical_def
proof
  assume "KERNEL_HALF \<le> v"
  then show ?thesis using kernel_half_bits [of v n] kernel_half_bits [of v 47] assms(2,3) by simp
next
  assume v: "v < 2 ^ 47"
  have "\<not> bit v k" if "47 \<le> k" "k < 64" for k
  proof -
    have "unat v < 2 ^ 47" using v by (simp add: word_less_nat_alt)
    also have "(2 :: nat) ^ 47 \<le> 2 ^ k" using that by (intro power_increasing) simp_all
    finally have "unat v div 2 ^ k = 0" by simp
    moreover have "(2 :: nat) ^ k < 2 ^ 64" using that(2) by (intro power_strict_increasing) simp_all
    then have "unat ((2 :: u64) ^ k) = 2 ^ k" using unat_of_nat_small [where 'a = 64, of "2 ^ k"] by simp
    ultimately have "drop_bit k v = 0" by (simp add: word_unat_eq_iff drop_bit_eq_div unat_div)
    then show ?thesis by (simp add: bit_iff_odd_drop_bit)
  qed
  then show ?thesis using assms(2,3) by simp
qed

lemma kernel_canonical [simp]: "KERNEL_HALF \<le> v \<Longrightarrow> canonical v"
  by (simp add: canonical_def)

lemma same_qword:
  assumes "same_page v w" "level_index 0 v = level_index 0 w" "aligned8 v" "aligned8 w"
    "canonical v" "canonical w"
  shows "v = w"
proof (rule u64_eqI)
  fix n :: nat assume n: "n < 64"
  have low: "\<not> bit v n" "\<not> bit w n" if "n < 3"
    using assms(3,4) that by (simp_all add: aligned8_bit u64_eq_iff bit_take_bit_iff)
  have page: "bit v n = bit w n" if "12 \<le> n" "n < 48"
  proof -
    have "bit (take_bit 36 (drop_bit 12 v)) (n - 12) = bit (take_bit 36 (drop_bit 12 w)) (n - 12)"
      using assms(1) by (simp add: same_page_def)
    moreover have "n - 12 < 36" using that by linarith
    ultimately show ?thesis using that by (simp add: bit_take_bit_iff bit_drop_bit_eq)
  qed
  have mid: "bit v n = bit w n" if "3 \<le> n" "n < 12"
  proof -
    have "bit (level_index 0 v) (n - 3) = bit (level_index 0 w) (n - 3)" using assms(2) by simp
    moreover have "n - 3 < 9" using that by linarith
    ultimately show ?thesis using that by (simp add: level_index_bit)
  qed
  have "bit v 47 = bit w 47"
  proof -
    have "bit (take_bit 36 (drop_bit 12 v)) 35 = bit (take_bit 36 (drop_bit 12 w)) 35" using assms(1) by (simp add: same_page_def)
    then show ?thesis by (simp add: bit_take_bit_iff bit_drop_bit_eq)
  qed
  then have high: "bit v n = bit w n" if "48 \<le> n"
    using canonical_bits [OF assms(5), of n] canonical_bits [OF assms(6), of n] that n by simp
  consider "n < 3" | "3 \<le> n" "n < 12" | "12 \<le> n" "n < 48" | "48 \<le> n" by linarith
  then show "bit v n = bit w n" by cases (use low page mid high in auto)
qed

section \<open>Loads and stores on backed addresses\<close>

lemma table_lookup_frame: "table_lookup s (Suc l) f v = Some g \<Longrightarrow> is_frame g"
proof (induction l arbitrary: f)
  case 0
  then show ?case by (auto simp: next_table_def Let_def split: if_splits)
next
  case (Suc l)
  then show ?case by (auto split: option.splits)
qed

lemma vmm_lookup_frame: "vmm_lookup s v = Some f \<Longrightarrow> is_frame f"
  using table_lookup_frame [of s 3] by (simp add: vmm_lookup_def)

lemma vm_ok_cr3:
  assumes "vm_ok s D"
  shows "cr3 s AND PAGE_MASK = current_pml4 s"
proof -
  obtain lv where "levels_ok s lv" "cr3 s = current_pml4 s" using assms by (auto simp: vm_ok_def)
  then show ?thesis using levels_okD(1,2) by (metis is_frame_def)
qed

lemma backed_entry:
  assumes "vm_ok s D" "levels_ok s lv" "backed s lv D" "v \<in> D"
  obtains f where "vmm_lookup s v = Some f" "is_frame f" "lv f = None"
    "vread v s = Some (pmem s (entry_addr s f (level_index 0 v)))"
    "vwrite v x s = Some (s\<lparr>pmem := (pmem s)(entry_addr s f (level_index 0 v) := x)\<rparr>)"
proof -
  obtain f where f: "vmm_lookup s v = Some f" "lv f = None" and al: "aligned8 v"
    using assms(3,4) unfolding backed_def by blast
  have fr: "is_frame f" by (rule vmm_lookup_frame [OF f(1)])
  have "translate s v = Some (f OR (v AND (PAGE_SIZE_VMM - 1)))"
    using f(1) by (simp add: translate_def vm_ok_cr3 [OF assms(1)] vmm_lookup_def)
  then have "vread v s = Some (pmem s (entry_addr s f (level_index 0 v)))"
    "vwrite v x s = Some (s\<lparr>pmem := (pmem s)(entry_addr s f (level_index 0 v) := x)\<rparr>)"
    using qword_entry [OF fr al, of s] by (simp_all add: vread_def vwrite_def)
  then show ?thesis using that f fr by blast
qed

lemma vread_total: "vm_ok s D \<Longrightarrow> v \<in> D \<Longrightarrow> \<exists>x. vread v s = Some x"
  by (metis backed_entry vm_ok_def)

text \<open>A store to a frame that is not a table leaves every lookup alone.\<close>

lemma data_write:
  assumes "levels_ok s lv" "lv f = None" "is_frame f" "i < 512"
    and t: "t = s\<lparr>pmem := (pmem s)(entry_addr s f i := x)\<rparr>"
  shows "levels_ok t lv" "vmm_lookup t v = vmm_lookup s v"
proof -
  have nt: "next_table t h j = next_table s h j" if "lv h = Some k" "j < 512" for h k j
  proof -
    have "is_frame h" "h \<noteq> f" using levels_okD(2) [OF assms(1) that(1)] that(1) assms(2) by auto
    then have "entry_addr s h j \<noteq> entry_addr s f i"
      using entry_addr_inj [OF _ assms(3) that(2) assms(4), of h s] by simp
    then show ?thesis by (simp add: next_table_target t)
  qed
  have av: "pmm_avail t = pmm_avail s" "current_pml4 t = current_pml4 s" by (simp_all add: t)
  show "levels_ok t lv"
    unfolding levels_ok_def av
    using levels_okD [OF assms(1)] nt by (intro conjI allI impI) (metis (no_types, lifting))+
  show "vmm_lookup t v = vmm_lookup s v"
    using table_lookup_cong [of s lv "current_pml4 s" 4 t v, OF assms(1) levels_okD(1) [OF assms(1)] nt]
    by (simp add: vmm_lookup_def av)
qed

lemma backed_cong:
  assumes "\<And>v. vmm_lookup t v = vmm_lookup s v" "pmm_avail t = pmm_avail s"
  shows "backed t lv D = backed s lv D"
  by (simp add: backed_def assms)

lemma vwrite_spec:
  assumes "vm_ok s D" "v \<in> D"
  obtains t where "vwrite v x s = Some t" "vm_ok t D" "t = s\<lparr>pmem := pmem t\<rparr>"
    "\<And>w. w \<in> D \<Longrightarrow> vread w t = (if w = v then Some x else vread w s)"
proof -
  obtain lv where lv: "levels_ok s lv" "backed s lv D" using assms(1) by (auto simp: vm_ok_def)
  obtain f where f: "vmm_lookup s v = Some f" "is_frame f" "lv f = None"
      "vwrite v x s = Some (s\<lparr>pmem := (pmem s)(entry_addr s f (level_index 0 v) := x)\<rparr>)"
    using backed_entry [OF assms(1) lv assms(2)] by metis
  define t where t: "t = s\<lparr>pmem := (pmem s)(entry_addr s f (level_index 0 v) := x)\<rparr>"
  note dw = data_write [OF lv(1) f(3,2) level_index_bound t]
  have bt: "backed t lv D" using backed_cong [of t s lv D] dw(2) lv(2) by (simp add: t)
  have ok: "vm_ok t D" using assms(1) dw(1) bt by (auto simp: vm_ok_def t)
  have "vread w t = (if w = v then Some x else vread w s)" if w: "w \<in> D" for w
  proof -
    obtain g where g: "vmm_lookup s w = Some g" "is_frame g"
        "vread w s = Some (pmem s (entry_addr s g (level_index 0 w)))"
      using backed_entry [OF assms(1) lv w] by metis
    obtain g' where g': "vmm_lookup t w = Some g'"
        "vread w t = Some (pmem t (entry_addr t g' (level_index 0 w)))"
      using backed_entry [OF ok dw(1) bt w] by metis
    have eq: "g' = g" using g' g(1) dw(2) by simp
    have "w = v" if "g = f" "level_index 0 w = level_index 0 v"
    proof (rule same_qword [OF _ that(2)])
      show "same_page w v" using lv(2) w assms(2) f(1) g(1) that(1) by (simp add: backed_def)
    qed (use lv(2) w assms(2) in \<open>simp_all add: backed_def\<close>)
    then show ?thesis
      using g g' eq f(1,2) entry_addr_inj [OF g(2) f(2), of "level_index 0 w" "level_index 0 v" s]
      by (auto simp: t)
  qed
  moreover have "t = s\<lparr>pmem := pmem t\<rparr>" by (simp add: t)
  ultimately show ?thesis using that [of t] f(4) ok by (simp add: t)
qed

lemma vm_ok_mono: "vm_ok s D \<Longrightarrow> E \<subseteq> D \<Longrightarrow> vm_ok s E"
  unfolding vm_ok_def backed_def by blast

lemma canonical_page:
  assumes "canonical v" "canonical w"
  shows "same_page v w \<longleftrightarrow> unat v div 4096 = unat w div 4096"
proof -
  have "same_page v w \<longleftrightarrow> drop_bit 12 v = drop_bit 12 w"
  proof
    assume sp: "same_page v w"
    have low: "bit v (12 + n) = bit w (12 + n)" if "n < 36" for n
    proof -
      have "bit (take_bit 36 (drop_bit 12 v)) n = bit (take_bit 36 (drop_bit 12 w)) n" using sp by (simp add: same_page_def)
      then show ?thesis using that by (simp add: bit_take_bit_iff bit_drop_bit_eq)
    qed
    show "drop_bit 12 v = drop_bit 12 w"
    proof (rule u64_eqI)
      fix n :: nat assume "n < 64"
      have "bit v 47 = bit w 47" using low [of 35] by simp
      then have "bit v (12 + n) = bit w (12 + n)" if "36 \<le> n" "12 + n < 64"
        using canonical_bits [OF assms(1), of "12 + n"] canonical_bits [OF assms(2), of "12 + n"] that by simp
      moreover have "bit v (12 + n) = bit w (12 + n)" if "64 \<le> 12 + n"
        using u64_bit_less [of v "12 + n"] u64_bit_less [of w "12 + n"] that by linarith
      ultimately have "bit v (12 + n) = bit w (12 + n)" using low [of n] by linarith
      then show "bit (drop_bit 12 v) n = bit (drop_bit 12 w) n" by (simp add: bit_drop_bit_eq)
    qed
  qed (simp add: same_page_def)
  also have "\<dots> \<longleftrightarrow> unat v div 4096 = unat w div 4096"
    by (simp add: word_unat_eq_iff drop_bit_eq_div unat_div)
  finally show ?thesis .
qed

text \<open>The part of the state translation and the frame allocator depend on.\<close>

definition vm_view where
  "vm_view s = (pmem s, current_pml4 s, cr3 s, g_hhdm_offset s, pmm_bitmap s, pmm_bitmap_size s,
     managed_base s, total_pages s)"

lemma vm_view_cong:
  assumes "vm_view t = vm_view s"
  shows "vread v t = vread v s" "vm_ok t D = vm_ok s D" "pmm_avail t = pmm_avail s"
    "pmm_wf t = pmm_wf s"
proof -
  have v: "pmem t = pmem s" "current_pml4 t = current_pml4 s" "cr3 t = cr3 s"
      "g_hhdm_offset t = g_hhdm_offset s" "pmm_bitmap t = pmm_bitmap s"
      "pmm_bitmap_size t = pmm_bitmap_size s" "managed_base t = managed_base s"
      "total_pages t = total_pages s"
    using assms by (simp_all add: vm_view_def)
  have nt: "next_table t f i = next_table s f i" for f i by (simp add: next_table_def entry_addr_def v)
  have tl: "table_lookup t k f w = table_lookup s k f w" for k f w
    by (induction k arbitrary: f) (auto simp: nt split: option.splits)
  have lk: "vmm_lookup t w = vmm_lookup s w" for w by (simp add: vmm_lookup_def tl v)
  show av: "pmm_avail t = pmm_avail s" by (simp add: pmm_avail_def page_addr_def v)
  show wf: "pmm_wf t = pmm_wf s" by (simp add: pmm_wf_def v)
  show "vread v t = vread v s" by (simp add: vread_def translate_def tl v physical_to_virtual_def)
  have "levels_ok t lv = levels_ok s lv" for lv by (simp add: levels_ok_def nt v av)
  moreover have "backed t lv D = backed s lv D" for lv by (simp add: backed_def lk av)
  ultimately show "vm_ok t D = vm_ok s D" by (simp add: vm_ok_def wf hhdm_ok_def v)
qed

lemma vm_view_console [simp]:
  "vm_view (kprint m s) = vm_view s" "vm_view (kok s) = vm_view s" "vm_view (kerror m s) = vm_view s"
  by (simp_all add: vm_view_def console_defs)

section \<open>Mapping one more page\<close>

definition page_qwords :: "u64 \<Rightarrow> u64 set" where
  "page_qwords v = {w. aligned8 w \<and> canonical w \<and> same_page w v}"

lemma same_page_sym: "same_page v w = same_page w v"
  by (auto simp: same_page_def)

lemma same_page_trans: "same_page u v \<Longrightarrow> same_page v w \<Longrightarrow> same_page u w"
  by (simp add: same_page_def)

lemma pmm_alloc_more:
  assumes "pmm_alloc_page (s :: 'a vmm_state_scheme) = (p, t)"
  shows "pmem t = pmem s" "current_pml4 t = current_pml4 s" "g_hhdm_offset t = g_hhdm_offset s"
    "cr3 t = cr3 s" "vmm_state.more t = vmm_state.more s"
  using assms by (auto simp: pmm_alloc_page_def split: option.splits)

lemma vm_ok_map_page:
  assumes "vm_ok s D" "pmm_alloc_page s = (p, s1)" "p \<noteq> 0" "flags AND PAGE_MASK = 0"
    "vmm_map v p flags s1 = Some t" "D \<inter> page_qwords v = {}"
  shows "vm_ok t (D \<union> page_qwords v)" "\<And>w. w \<in> D \<Longrightarrow> vread w t = vread w s"
    "vmm_state.more t = vmm_state.more s" "pmm_avail t \<subseteq> pmm_avail s"
proof -
  have wf: "pmm_wf s" and hh: "hhdm_ok s" and cr: "cr3 s = current_pml4 s"
    using assms(1) by (simp_all add: vm_ok_def)
  obtain lv where lv: "levels_ok s lv" "backed s lv D" using assms(1) by (auto simp: vm_ok_def)
  have ne: "pmm_avail s \<noteq> {}" using assms(2,3) pmm_alloc_none [OF wf] by auto
  note al = pmm_alloc_some [OF wf ne assms(2)] and more = pmm_alloc_more [OF assms(2)]
  have wf1: "pmm_wf s1" using pmm_wf_alloc [OF wf] assms(2) by simp
  have ea: "entry_addr s1 = entry_addr s" by (intro ext) (simp add: entry_addr_def more)
  have nt: "next_table s1 = next_table s" by (intro ext) (simp add: next_table_target ea more)
  have lk: "vmm_lookup s1 w = vmm_lookup s w" for w by (simp add: vmm_lookup_leaf leaf_table_def nt more)
  have p: "p \<in> pmm_avail s" "p \<notin> pmm_avail s1" "pmm_avail s1 \<subseteq> pmm_avail s" using al by auto
  have "is_frame p" using pmm_frames [OF wf] pmm_avail_managed p(1) by blast
  then have pm: "p AND PAGE_MASK = p" by (simp add: is_frame_def)
  have lv1: "levels_ok s1 lv"
    using lv(1) p(3) unfolding levels_ok_def nt more(2)
    by (elim conjE, intro conjI) (assumption | blast)+
  obtain lv' where t: "pmm_wf t" "levels_ok t lv'" "lv \<subseteq>\<^sub>m lv'"
      "\<And>h k. lv' h = Some k \<Longrightarrow> lv h = Some k \<or> h \<in> pmm_avail s1"
      "\<And>h j. is_frame h \<Longrightarrow> lv' h = None \<Longrightarrow> j < 512 \<Longrightarrow>
         pmem t (entry_addr s1 h j) = pmem s1 (entry_addr s1 h j)"
      "\<And>w. vmm_lookup t w = (if same_page w v then Some (p AND PAGE_MASK) else vmm_lookup s1 w)"
      "pmm_avail t \<subseteq> pmm_avail s1" "g_hhdm_offset t = g_hhdm_offset s1"
      "current_pml4 t = current_pml4 s1" "cr3 t = cr3 s1" "vmm_state.more t = vmm_state.more s1"
    by (rule vmm_map_levels [OF wf1 lv1 assms(4,5)]) blast
  show "vmm_state.more t = vmm_state.more s" using t(11) more by simp
  show "pmm_avail t \<subseteq> pmm_avail s" using t(7) p(3) by blast
  have data: "lv' h = None" if "lv h = None" "h \<notin> pmm_avail s1" for h
    using t(4) [of h] that by (cases "lv' h") auto
  have lvp: "lv' p = None"
    using data [of p] levels_okD(2) [OF lv(1), of p] p(1,2) by (cases "lv p") auto
  have other: "\<not> same_page w v" if "w \<in> D" for w
    using assms(6) that lv(2) by (auto simp: page_qwords_def backed_def)
  have inD: "\<exists>f. vmm_lookup s w = Some f \<and> vmm_lookup t w = Some f \<and> lv' f = None \<and>
      f \<notin> pmm_avail t \<and> f \<noteq> p" if w: "w \<in> D" for w
  proof -
    obtain f where f: "vmm_lookup s w = Some f" "lv f = None" "f \<notin> pmm_avail s"
      using lv(2) w unfolding backed_def by blast
    then show ?thesis using data [of f] p(1,3) t(6,7) other [OF w] lk by auto
  qed
  have new: "vmm_lookup t w = Some p" if "w \<in> page_qwords v" for w
    using that t(6) pm by (simp add: page_qwords_def)
  have "backed t lv' (D \<union> page_qwords v)"
    unfolding backed_def
  proof (intro conjI ballI impI)
    fix w assume w: "w \<in> D \<union> page_qwords v"
    then show "aligned8 w" "canonical w" using lv(2) by (auto simp: backed_def page_qwords_def)
    show "\<exists>f. vmm_lookup t w = Some f \<and> lv' f = None \<and> f \<notin> pmm_avail t"
      using w inD [of w] new [of w] lvp p(2) t(7) by blast
  next
    fix w x assume w: "w \<in> D \<union> page_qwords v" "x \<in> D \<union> page_qwords v"
      and eq: "vmm_lookup t w = vmm_lookup t x"
    consider "w \<in> D" "x \<in> D" | "w \<in> page_qwords v" "x \<in> page_qwords v"
      | "w \<in> D" "x \<in> page_qwords v" | "w \<in> page_qwords v" "x \<in> D" using w by blast
    then show "same_page w x"
    proof cases
      case 1
      then have "vmm_lookup s w = vmm_lookup s x" using inD [of w] inD [of x] eq by auto
      then show ?thesis using lv(2) 1 by (simp add: backed_def)
    next
      case 2
      then show ?thesis by (auto simp: page_qwords_def same_page_def)
    qed (use inD [of w] inD [of x] new [of w] new [of x] eq in auto)
  qed
  then show ok: "vm_ok t (D \<union> page_qwords v)"
    using t(1,2,8,9,10) hh cr more by (auto simp: vm_ok_def hhdm_ok_def)
  show "vread w t = vread w s" if w: "w \<in> D" for w
  proof -
    obtain f where f: "vmm_lookup s w = Some f" "is_frame f"
        "vread w s = Some (pmem s (entry_addr s f (level_index 0 w)))"
      using backed_entry [OF assms(1) lv w] by metis
    obtain g where g: "vmm_lookup t w = Some g" "is_frame g" "lv' g = None"
        "vread w t = Some (pmem t (entry_addr t g (level_index 0 w)))"
      using backed_entry [OF ok t(2) \<open>backed t lv' _\<close>, of w] w by (metis UnI1)
    have "g = f" using inD [OF w] f(1) g(1) by auto
    moreover have "entry_addr t = entry_addr s" by (intro ext) (simp add: entry_addr_def t(8) more)
    ultimately show ?thesis using f(3) g t(5) [OF g(2,3), of "level_index 0 w"] by (simp add: ea more)
  qed
qed

end
