(* ===== verification/Bytes.thy ===== *)
theory Bytes
  imports Vmem
begin

text \<open>
  Byte access to mapped memory.  A byte is a slice of the aligned quadword that holds it; on a
  set of addresses whose quadwords are backed, bytes behave as independent memory cells.
\<close>

definition get_byte :: "nat \<Rightarrow> u64 \<Rightarrow> u8" where
  "get_byte k q = ucast (drop_bit (8 * k) q)"

definition set_byte :: "nat \<Rightarrow> u8 \<Rightarrow> u64 \<Rightarrow> u64" where
  "set_byte k b q = (q AND NOT (push_bit (8 * k) (mask 8))) OR push_bit (8 * k) (ucast b)"

definition qword_addr :: "u64 \<Rightarrow> u64" where
  "qword_addr v = v AND NOT 7"

definition byte_index :: "u64 \<Rightarrow> nat" where
  "byte_index v = unat (v AND 7)"

definition vread8 :: "u64 \<Rightarrow> 'a vmm_state_scheme \<Rightarrow> u8 option" where
  "vread8 v s = map_option (get_byte (byte_index v)) (vread (qword_addr v) s)"

definition vwrite8 :: "u64 \<Rightarrow> u8 \<Rightarrow> 'a vmm_state_scheme \<Rightarrow> 'a vmm_state_scheme option" where
  "vwrite8 v b s = do {
     q \<leftarrow> vread (qword_addr v) s;
     vwrite (qword_addr v) (set_byte (byte_index v) b q) s
   }"

section \<open>Slices of a quadword\<close>

lemma get_byte_bit: "bit (get_byte k q) n \<longleftrightarrow> n < 8 \<and> bit q (8 * k + n)"
  by (auto simp: get_byte_def bit_ucast_iff bit_drop_bit_eq)

lemma set_byte_bit:
  "bit (set_byte k b q) n \<longleftrightarrow>
     (if 8 * k \<le> n \<and> n < 8 * k + 8 then n < 64 \<and> bit b (n - 8 * k) else bit q n)"
  using bit_imp_le_length [of b "n - 8 * k"] u64_bit_less [of q n]
  unfolding set_byte_def bit_or_iff bit_and_iff bit_not_iff bit_push_bit_iff u64_bit_mask bit_ucast_iff
  by auto

lemma get_set_byte:
  assumes "k < 8" "j < 8"
  shows "get_byte k (set_byte j b q) = (if k = j then b else get_byte k q)"
proof (rule bit_word_eqI)
  fix n assume "n < LENGTH(8)"
  then have "n < 8" by simp
  then show "bit (get_byte k (set_byte j b q)) n = bit (if k = j then b else get_byte k q) n"
    using assms by (auto simp: get_byte_bit set_byte_bit)
qed

lemma byte_index_less: "byte_index v < 8"
proof -
  have "v AND 7 \<le> 7" by (rule word_and_le1)
  then show ?thesis by (simp add: byte_index_def word_le_nat_alt)
qed

lemma unat_qword_addr: "unat (qword_addr v) = unat v - unat v mod 8"
proof -
  have "(7 :: u64) = mask 3" by (simp add: mask_eq_exp_minus_1)
  then show ?thesis using unat_and_not_mask [of v 3] by (simp only: qword_addr_def) simp
qed

lemma byte_addr_eq: "v = w \<longleftrightarrow> qword_addr v = qword_addr w \<and> byte_index v = byte_index w"
proof
  assume A: "qword_addr v = qword_addr w \<and> byte_index v = byte_index w"
  have "v = (v AND NOT 7) OR (v AND 7)" for v :: u64
    by (rule u64_and_not_or_and [symmetric])
  moreover have "v AND 7 = w AND 7" using A by (simp add: byte_index_def word_unat_eq_iff)
  ultimately show "v = w" using A unfolding qword_addr_def by metis
qed simp

section \<open>Byte memory\<close>

definition vm8_ok :: "'a vmm_state_scheme \<Rightarrow> u64 set \<Rightarrow> bool" where
  "vm8_ok s B \<longleftrightarrow> vm_ok s (qword_addr ` B)"

lemma vread8_total: "vm8_ok s B \<Longrightarrow> v \<in> B \<Longrightarrow> \<exists>b. vread8 v s = Some b"
  using vread_total [of s "qword_addr ` B" "qword_addr v"] by (auto simp: vm8_ok_def vread8_def)

lemma vwrite8_spec:
  assumes "vm8_ok s B" "v \<in> B"
  obtains t where "vwrite8 v b s = Some t" "vm8_ok t B" "t = s\<lparr>pmem := pmem t\<rparr>"
    "\<And>w. w \<in> B \<Longrightarrow> vread8 w t = (if w = v then Some b else vread8 w s)"
proof -
  let ?D = "qword_addr ` B"
  have v: "vm_ok s ?D" "qword_addr v \<in> ?D" using assms by (simp_all add: vm8_ok_def)
  obtain q where q: "vread (qword_addr v) s = Some q" using vread_total [OF v] by auto
  obtain t where t: "vwrite (qword_addr v) (set_byte (byte_index v) b q) s = Some t" "vm_ok t ?D"
      "t = s\<lparr>pmem := pmem t\<rparr>"
      "\<And>w. w \<in> ?D \<Longrightarrow> vread w t =
         (if w = qword_addr v then Some (set_byte (byte_index v) b q) else vread w s)"
    by (rule vwrite_spec [OF v]) blast
  show ?thesis
  proof (rule that [of t])
    show "vwrite8 v b s = Some t" "vm8_ok t B" "t = s\<lparr>pmem := pmem t\<rparr>"
      using q t(1-3) by (simp_all add: vwrite8_def vm8_ok_def)
    fix w assume "w \<in> B"
    then have "vread (qword_addr w) t = (if qword_addr w = qword_addr v
        then Some (set_byte (byte_index v) b q) else vread (qword_addr w) s)" using t(4) by simp
    then show "vread8 w t = (if w = v then Some b else vread8 w s)"
      using q get_set_byte [OF byte_index_less byte_index_less, of w v b q] byte_addr_eq [of w v]
      by (auto simp: vread8_def)
  qed
qed

section \<open>A quadword is its eight bytes\<close>

lemma qword_bytes:
  assumes "aligned8 q" "k < 8"
  shows "qword_addr (q + of_nat k) = q" "byte_index (q + of_nat k) = k"
proof -
  have q: "unat q mod 8 = 0" using assms(1) by (simp add: aligned8_def)
  have "unat q < 2 ^ 64" using unsigned_less [of q, where ?'a = nat] by simp
  moreover obtain r where "unat q = 8 * r" using q by (metis mod_0_imp_dvd dvdE)
  ultimately have "unat q + k < 2 ^ 64" using assms(2) by simp
  then have u: "unat (q + of_nat k) = unat q + k"
    using assms(2) by (subst unat_plus_no_overflow) (simp_all add: unat_of_nat_small)
  have m: "(unat q + k) mod 8 = k" using q assms(2) by presburger
  have "unat (qword_addr (q + of_nat k)) = unat q" by (simp add: unat_qword_addr u m)
  then show "qword_addr (q + of_nat k) = q" by (simp add: word_unat_eq_iff)
  have "(7 :: u64) = mask 3" by (simp add: mask_eq_exp_minus_1)
  then have "byte_index (q + of_nat k) = unat (take_bit 3 (q + of_nat k))"
    by (simp only: byte_index_def take_bit_eq_mask)
  also have "\<dots> = unat (q + of_nat k) mod 8"
    by (simp only: unsigned_take_bit_eq) (simp add: take_bit_eq_mod)
  finally show "byte_index (q + of_nat k) = k" by (simp add: u m)
qed

lemma get_byte_ext:
  assumes "\<And>k. k < 8 \<Longrightarrow> get_byte k x = get_byte k y"
  shows "x = y"
proof (rule u64_eqI)
  fix n :: nat assume "n < 64"
  then have "bit (get_byte (n div 8) x) (n mod 8) = bit (get_byte (n div 8) y) (n mod 8)"
    using assms [of "n div 8"] by simp
  then show "bit x n = bit y n" by (simp add: get_byte_bit)
qed

lemma vread_bytes_cong:
  assumes "aligned8 q" "\<And>k. k < 8 \<Longrightarrow> vread8 (q + of_nat k) t = vread8 (q + of_nat k) s"
  shows "vread q t = vread q s"
proof -
  have b: "map_option (get_byte k) (vread q t) = map_option (get_byte k) (vread q s)" if "k < 8" for k
    using assms(2) [OF that] qword_bytes [OF assms(1) that] by (simp add: vread8_def)
  show ?thesis
  proof (cases "vread q t")
    case None
    then show ?thesis using b [of 0] by simp
  next
    case (Some x)
    then obtain y where y: "vread q s = Some y" using b [of 0] by (cases "vread q s") auto
    have "x = y" by (rule get_byte_ext) (use b Some y in auto)
    then show ?thesis using Some y by simp
  qed
qed

end
