(* ===== verification/Klibc_Mem.thy ===== *)
theory Klibc_Mem
  imports Bytes
begin

text \<open>
  The memory routines of \<open>klibc/kmem/mem.c\<close>, byte by byte on mapped memory.  A loop over
  \<open>size_t i\<close> counts in natural numbers; an access to an unmapped byte ends the run (\<open>None\<close>).
\<close>

section \<open>Model\<close>

text \<open>\<open>for (i = i; k iterations; i++) dest[i] = src[i]\<close>\<close>

fun copy_up :: "u64 \<Rightarrow> u64 \<Rightarrow> nat \<Rightarrow> nat \<Rightarrow> 'a vmm_state_scheme \<Rightarrow> 'a vmm_state_scheme option" where
  "copy_up dest src i 0 s = Some s"
| "copy_up dest src i (Suc k) s = do {
     b \<leftarrow> vread8 (src + of_nat i) s;
     s \<leftarrow> vwrite8 (dest + of_nat i) b s;
     copy_up dest src (Suc i) k s
   }"

text \<open>\<open>for (i = n; i > 0; i--) dest[i - 1] = src[i - 1]\<close>\<close>

fun copy_down :: "u64 \<Rightarrow> u64 \<Rightarrow> nat \<Rightarrow> 'a vmm_state_scheme \<Rightarrow> 'a vmm_state_scheme option" where
  "copy_down dest src 0 s = Some s"
| "copy_down dest src (Suc i) s = do {
     b \<leftarrow> vread8 (src + of_nat i) s;
     s \<leftarrow> vwrite8 (dest + of_nat i) b s;
     copy_down dest src i s
   }"

fun fill_up :: "u64 \<Rightarrow> u8 \<Rightarrow> nat \<Rightarrow> nat \<Rightarrow> 'a vmm_state_scheme \<Rightarrow> 'a vmm_state_scheme option" where
  "fill_up p c i 0 s = Some s"
| "fill_up p c i (Suc k) s = do {
     s \<leftarrow> vwrite8 (p + of_nat i) c s;
     fill_up p c (Suc i) k s
   }"

fun compare_up :: "u64 \<Rightarrow> u64 \<Rightarrow> nat \<Rightarrow> nat \<Rightarrow> 'a vmm_state_scheme \<Rightarrow> int option" where
  "compare_up p1 p2 i 0 s = Some 0"
| "compare_up p1 p2 i (Suc k) s = do {
     a \<leftarrow> vread8 (p1 + of_nat i) s;
     b \<leftarrow> vread8 (p2 + of_nat i) s;
     if a \<noteq> b then Some (if a < b then -1 else 1)
     else compare_up p1 p2 (Suc i) k s
   }"

definition memcpy ::
  "u64 \<Rightarrow> u64 \<Rightarrow> u64 \<Rightarrow> 'a vmm_state_scheme \<Rightarrow> (u64 \<times> 'a vmm_state_scheme) option" where
  "memcpy dest src n s = do { s \<leftarrow> copy_up dest src 0 (unat n) s; Some (dest, s) }"

definition mempcpy ::
  "u64 \<Rightarrow> u64 \<Rightarrow> u64 \<Rightarrow> 'a vmm_state_scheme \<Rightarrow> (u64 \<times> 'a vmm_state_scheme) option" where
  "mempcpy dest src len s = do { (p, s) \<leftarrow> memcpy dest src len s; Some (p + len, s) }"

definition memset ::
  "u64 \<Rightarrow> u32 \<Rightarrow> u64 \<Rightarrow> 'a vmm_state_scheme \<Rightarrow> (u64 \<times> 'a vmm_state_scheme) option" where
  "memset p c n s = do { s \<leftarrow> fill_up p (ucast c) 0 (unat n) s; Some (p, s) }"

definition memmove ::
  "u64 \<Rightarrow> u64 \<Rightarrow> u64 \<Rightarrow> 'a vmm_state_scheme \<Rightarrow> (u64 \<times> 'a vmm_state_scheme) option" where
  "memmove dest src n s =
     (if src > dest then do { s \<leftarrow> copy_up dest src 0 (unat n) s; Some (dest, s) }
      else if src < dest then do { s \<leftarrow> copy_down dest src (unat n) s; Some (dest, s) }
      else Some (dest, s))"

definition memcmp :: "u64 \<Rightarrow> u64 \<Rightarrow> u64 \<Rightarrow> 'a vmm_state_scheme \<Rightarrow> int option" where
  "memcmp s1 s2 n s = compare_up s1 s2 0 (unat n) s"

section \<open>Ranges of bytes\<close>

definition range8 :: "u64 \<Rightarrow> nat \<Rightarrow> u64 set" where
  "range8 p n = (\<lambda>i. p + of_nat i) ` {..<n}"

lemma range8_iff:
  assumes "n \<le> 2 ^ 64"
  shows "a \<in> range8 p n \<longleftrightarrow> unat (a - p) < n"
proof
  assume "a \<in> range8 p n"
  then obtain i where "i < n" "a = p + of_nat i" by (auto simp: range8_def)
  then show "unat (a - p) < n" using assms by (simp add: unat_of_nat_small)
next
  assume "unat (a - p) < n"
  moreover have "a = p + of_nat (unat (a - p))" by simp
  ultimately show "a \<in> range8 p n" unfolding range8_def by blast
qed

lemma range8_addr: "i < n \<Longrightarrow> p + of_nat i \<in> range8 p n"
  by (auto simp: range8_def)

lemma range8_sub: "k + n \<le> m \<Longrightarrow> range8 (p + of_nat k) n \<subseteq> range8 p m"
  using range8_addr by (force simp: range8_def [of _ n] add.assoc simp flip: of_nat_add)

lemma range8_disjoint:
  assumes "m \<le> k" "k + n \<le> 2 ^ 64"
  shows "range8 (p + of_nat k) n \<inter> range8 p m = {}"
proof -
  have "p + of_nat k + of_nat i \<noteq> p + of_nat j" if "i < n" "j < m" for i j
  proof
    assume "p + of_nat k + of_nat i = p + of_nat j"
    then have "(of_nat (k + i) :: u64) = of_nat j" by (simp add: add.assoc)
    then show False using u64_of_nat_inj [of "k + i" j] that assms by simp
  qed
  then show ?thesis by (fastforce simp: range8_def)
qed

lemma addr_offset:
  fixes a p :: u64
  assumes "i < 2 ^ 64"
  shows "a = p + of_nat i \<longleftrightarrow> unat (a - p) = i"
proof
  assume "a = p + of_nat i"
  then show "unat (a - p) = i" using assms by (simp add: unat_of_nat_small)
next
  assume "unat (a - p) = i"
  then have "of_nat i = a - p" by (metis of_nat_unat ucast_id)
  then show "a = p + of_nat i" by simp
qed

section \<open>The loops\<close>

text \<open>\<open>wrote8 B s t\<close>: \<open>t\<close> is \<open>s\<close> after stores to bytes of \<open>B\<close>.\<close>

definition wrote8 :: "u64 set \<Rightarrow> 'a vmm_state_scheme \<Rightarrow> 'a vmm_state_scheme \<Rightarrow> bool" where
  "wrote8 B s t \<longleftrightarrow> vm8_ok t B \<and> t = s\<lparr>pmem := pmem t\<rparr>"

lemma wrote8_trans: "wrote8 B s t \<Longrightarrow> wrote8 B t u \<Longrightarrow> wrote8 B s u"
  unfolding wrote8_def by (metis vmm_state.update_convs(1) vmm_state.surjective)

lemma copy_up_spec:
  assumes "vm8_ok s B" "i + k \<le> 2 ^ 64"
    "\<And>j. i \<le> j \<Longrightarrow> j < i + k \<Longrightarrow> dest + of_nat j \<in> B \<and> src + of_nat j \<in> B"
    "\<And>j j'. i \<le> j \<Longrightarrow> j < j' \<Longrightarrow> j' < i + k \<Longrightarrow> dest + of_nat j \<noteq> src + of_nat j'"
  shows "\<exists>t. copy_up dest src i k s = Some t \<and> wrote8 B s t \<and>
    (\<forall>a \<in> B. vread8 a t =
       (if i \<le> unat (a - dest) \<and> unat (a - dest) < i + k then vread8 (src + (a - dest)) s else vread8 a s))"
  using assms
proof (induction k arbitrary: i s)
  case 0
  then show ?case by (auto simp: wrote8_def)
next
  case (Suc k)
  let ?d = "dest + of_nat i" and ?r = "src + of_nat i"
  have in_B: "?d \<in> B" "?r \<in> B" using Suc.prems(3) [of i] by simp_all
  obtain b where b: "vread8 ?r s = Some b" using vread8_total [OF Suc.prems(1) in_B(2)] by blast
  obtain s1 where s1: "vwrite8 ?d b s = Some s1" "vm8_ok s1 B" "s1 = s\<lparr>pmem := pmem s1\<rparr>"
      "\<And>w. w \<in> B \<Longrightarrow> vread8 w s1 = (if w = ?d then Some b else vread8 w s)"
    by (rule vwrite8_spec [OF Suc.prems(1) in_B(1)]) blast
  obtain t where t: "copy_up dest src (Suc i) k s1 = Some t" "wrote8 B s1 t"
      "\<forall>a \<in> B. vread8 a t = (if Suc i \<le> unat (a - dest) \<and> unat (a - dest) < Suc i + k
         then vread8 (src + (a - dest)) s1 else vread8 a s1)"
    using Suc.IH [OF s1(2), of "Suc i"] Suc.prems(2-4) by auto
  have "vread8 a t = (if i \<le> unat (a - dest) \<and> unat (a - dest) < i + Suc k
      then vread8 (src + (a - dest)) s else vread8 a s)" if a: "a \<in> B" for a
  proof -
    let ?j = "unat (a - dest)"
    have ad: "a = dest + of_nat ?j" by simp
    have i: "a = ?d \<longleftrightarrow> ?j = i" using Suc.prems(2) by (intro addr_offset) simp
    consider "?j = i" | "Suc i \<le> ?j" "?j < Suc i + k" | "\<not> (i \<le> ?j \<and> ?j < i + Suc k)" by linarith
    then show ?thesis
    proof cases
      case 1
      then have "a = ?d" using i by blast
      then show ?thesis using 1 t(3) a s1(4) [OF a] b Suc.prems(2) by (simp add: unat_of_nat_small)
    next
      case 2
      have "src + of_nat ?j \<in> B" "src + of_nat ?j \<noteq> ?d"
        using Suc.prems(3) [of ?j] Suc.prems(4) [of i ?j] 2 by auto
      then have "vread8 (src + (a - dest)) s1 = vread8 (src + (a - dest)) s" using s1(4) by simp
      then show ?thesis using 2 t(3) a by simp
    next
      case 3
      then have "a \<noteq> ?d" using i by linarith
      then show ?thesis using 3 t(3) a s1(4) [OF a] by auto
    qed
  qed
  moreover have "wrote8 B s t"
    by (rule wrote8_trans [OF _ t(2)]) (use s1(2,3) in \<open>simp add: wrote8_def\<close>)
  ultimately show ?case using b s1(1) t(1) by auto
qed

lemma copy_down_spec:
  assumes "vm8_ok s B" "n \<le> 2 ^ 64"
    "\<And>j. j < n \<Longrightarrow> dest + of_nat j \<in> B \<and> src + of_nat j \<in> B"
    "\<And>j j'. j < j' \<Longrightarrow> j' < n \<Longrightarrow> dest + of_nat j' \<noteq> src + of_nat j"
  shows "\<exists>t. copy_down dest src n s = Some t \<and> wrote8 B s t \<and>
    (\<forall>a \<in> B. vread8 a t = (if unat (a - dest) < n then vread8 (src + (a - dest)) s else vread8 a s))"
  using assms
proof (induction n arbitrary: s)
  case 0
  then show ?case by (simp add: wrote8_def)
next
  case (Suc n)
  let ?d = "dest + of_nat n" and ?r = "src + of_nat n"
  have in_B: "?d \<in> B" "?r \<in> B" using Suc.prems(3) [of n] by simp_all
  obtain b where b: "vread8 ?r s = Some b" using vread8_total [OF Suc.prems(1) in_B(2)] by blast
  obtain s1 where s1: "vwrite8 ?d b s = Some s1" "vm8_ok s1 B" "s1 = s\<lparr>pmem := pmem s1\<rparr>"
      "\<And>w. w \<in> B \<Longrightarrow> vread8 w s1 = (if w = ?d then Some b else vread8 w s)"
    by (rule vwrite8_spec [OF Suc.prems(1) in_B(1)]) blast
  obtain t where t: "copy_down dest src n s1 = Some t" "wrote8 B s1 t"
      "\<forall>a \<in> B. vread8 a t = (if unat (a - dest) < n then vread8 (src + (a - dest)) s1 else vread8 a s1)"
    using Suc.IH [OF s1(2)] Suc.prems(2-4) by auto
  have "vread8 a t = (if unat (a - dest) < Suc n then vread8 (src + (a - dest)) s else vread8 a s)"
    if a: "a \<in> B" for a
  proof -
    let ?j = "unat (a - dest)"
    have i: "a = ?d \<longleftrightarrow> ?j = n" using Suc.prems(2) by (intro addr_offset) simp
    consider "?j = n" | "?j < n" | "\<not> ?j < Suc n" by linarith
    then show ?thesis
    proof cases
      case 1
      then have "a = ?d" using i by blast
      then show ?thesis using 1 t(3) a s1(4) [OF a] b Suc.prems(2) by (simp add: unat_of_nat_small)
    next
      case 2
      have "src + of_nat ?j \<in> B" "src + of_nat ?j \<noteq> ?d"
        using Suc.prems(3) [of ?j] Suc.prems(4) [of ?j n] 2 by auto
      then have "vread8 (src + (a - dest)) s1 = vread8 (src + (a - dest)) s" using s1(4) by simp
      then show ?thesis using 2 t(3) a by simp
    next
      case 3
      then have "a \<noteq> ?d" using i by linarith
      then show ?thesis using 3 t(3) a s1(4) [OF a] by auto
    qed
  qed
  moreover have "wrote8 B s t"
    by (rule wrote8_trans [OF _ t(2)]) (use s1(2,3) in \<open>simp add: wrote8_def\<close>)
  ultimately show ?case using b s1(1) t(1) by auto
qed

lemma fill_up_spec:
  assumes "vm8_ok s B" "i + k \<le> 2 ^ 64" "\<And>j. i \<le> j \<Longrightarrow> j < i + k \<Longrightarrow> p + of_nat j \<in> B"
  shows "\<exists>t. fill_up p c i k s = Some t \<and> wrote8 B s t \<and>
    (\<forall>a \<in> B. vread8 a t = (if i \<le> unat (a - p) \<and> unat (a - p) < i + k then Some c else vread8 a s))"
  using assms
proof (induction k arbitrary: i s)
  case 0
  then show ?case by (auto simp: wrote8_def)
next
  case (Suc k)
  let ?d = "p + of_nat i"
  have in_B: "?d \<in> B" using Suc.prems(3) [of i] by simp
  obtain s1 where s1: "vwrite8 ?d c s = Some s1" "vm8_ok s1 B" "s1 = s\<lparr>pmem := pmem s1\<rparr>"
      "\<And>w. w \<in> B \<Longrightarrow> vread8 w s1 = (if w = ?d then Some c else vread8 w s)"
    by (rule vwrite8_spec [OF Suc.prems(1) in_B]) blast
  obtain t where t: "fill_up p c (Suc i) k s1 = Some t" "wrote8 B s1 t"
      "\<forall>a \<in> B. vread8 a t =
         (if Suc i \<le> unat (a - p) \<and> unat (a - p) < Suc i + k then Some c else vread8 a s1)"
    using Suc.IH [OF s1(2), of "Suc i"] Suc.prems(2,3) by auto
  have "vread8 a t = (if i \<le> unat (a - p) \<and> unat (a - p) < i + Suc k then Some c else vread8 a s)"
    if a: "a \<in> B" for a
  proof -
    have "a = ?d \<longleftrightarrow> unat (a - p) = i" using Suc.prems(2) by (intro addr_offset) simp
    then show ?thesis using t(3) s1(4) [OF a] a by (cases "unat (a - p) = i") auto
  qed
  moreover have "wrote8 B s t"
    by (rule wrote8_trans [OF _ t(2)]) (use s1(2,3) in \<open>simp add: wrote8_def\<close>)
  ultimately show ?case using s1(1) t(1) by auto
qed

lemma compare_up_spec:
  assumes "\<And>j. i \<le> j \<Longrightarrow> j < i + k \<Longrightarrow> vread8 (p1 + of_nat j) s = Some (f j) \<and> vread8 (p2 + of_nat j) s = Some (g j)"
  shows "compare_up p1 p2 i k s = Some (case find (\<lambda>j. f j \<noteq> g j) [i..<i + k] of
      None \<Rightarrow> 0 | Some j \<Rightarrow> if f j < g j then -1 else 1)"
  using assms
proof (induction k arbitrary: i)
  case 0
  then show ?case by simp
next
  case (Suc k)
  have "[i..<i + Suc k] = i # [Suc i..<Suc i + k]" by (simp add: upt_rec)
  moreover have "compare_up p1 p2 (Suc i) k s = Some (case find (\<lambda>j. f j \<noteq> g j) [Suc i..<Suc i + k] of
      None \<Rightarrow> 0 | Some j \<Rightarrow> if f j < g j then -1 else 1)"
    using Suc.IH [of "Suc i"] Suc.prems by simp
  ultimately show ?case using Suc.prems [of i] by (simp del: upt_Suc)
qed

end
