(* ===== verification/Kheap.thy ===== *)
theory Kheap
  imports Vmem
begin

text \<open>
  The kernel heap (\<open>klibc/kmem/kheap.c\<close>).  The block headers live in the memory the VMM maps
  at \<open>HEAP_START\<close>: three quadwords \<open>size\<close>, \<open>free\<close> (a 32-bit \<open>int\<close> and padding) and \<open>next\<close>.
  Every access to a header goes through the page tables, so the model shows what happens when
  the heap maps a page twice or follows a wild pointer.
\<close>

section \<open>Model\<close>

record kheap_state = vmm_state +
  heap_current :: u64
  free_list :: u64

definition HEAP_START :: u64 where "HEAP_START = 0xFFFF800010000000"

definition sizeof_block_header :: u64 where "sizeof_block_header = 24"

definition SIZE_MAX :: u64 where "SIZE_MAX = 0xFFFFFFFFFFFFFFFF"

text \<open>The fields of \<open>block_header_t\<close> at offsets 0, 8 and 16.\<close>

definition block_size :: "u64 \<Rightarrow> 'a vmm_state_scheme \<Rightarrow> u64 option" where
  "block_size p s = vread p s"

definition block_free :: "u64 \<Rightarrow> 'a vmm_state_scheme \<Rightarrow> bool option" where
  "block_free p s = map_option (\<lambda>q. take_bit 32 q \<noteq> 0) (vread (p + 8) s)"

definition block_next :: "u64 \<Rightarrow> 'a vmm_state_scheme \<Rightarrow> u64 option" where
  "block_next p s = vread (p + 16) s"

definition set_block_size :: "u64 \<Rightarrow> u64 \<Rightarrow> 'a vmm_state_scheme \<Rightarrow> 'a vmm_state_scheme option" where
  "set_block_size p n s = vwrite p n s"

definition set_block_free :: "u64 \<Rightarrow> u32 \<Rightarrow> 'a vmm_state_scheme \<Rightarrow> 'a vmm_state_scheme option" where
  "set_block_free p b s = do {
     q \<leftarrow> vread (p + 8) s;
     vwrite (p + 8) (push_bit 32 (drop_bit 32 q) OR ucast b) s
   }"

definition set_block_next :: "u64 \<Rightarrow> u64 \<Rightarrow> 'a vmm_state_scheme \<Rightarrow> 'a vmm_state_scheme option" where
  "set_block_next p n s = vwrite (p + 16) n s"

definition init_kheap :: "'a kheap_state_scheme \<Rightarrow> (u64 \<times> 'a kheap_state_scheme) option" where
  "init_kheap s =
     (let s = s\<lparr>heap_current := HEAP_START\<rparr>;
          (physical, s) = pmm_alloc_page s;
          s = kprint ''Kheap...'' s
      in if physical = 0 then Some (0, kerror ''Failed to initialize kheap'' s)
      else do {
        s \<leftarrow> vmm_map (heap_current s) physical (VMM_PRESENT OR VMM_WRITE) s;
        let s = s\<lparr>free_list := heap_current s\<rparr>;
        s \<leftarrow> set_block_size (free_list s) (PAGE_SIZE_VMM - sizeof_block_header) s;
        s \<leftarrow> set_block_free (free_list s) 1 s;
        s \<leftarrow> set_block_next (free_list s) NULL s;
        let s = kok s;
        n \<leftarrow> block_size (free_list s) s;
        Some (n, s)
      })"

definition split_block :: "u64 \<Rightarrow> u64 \<Rightarrow> 'a vmm_state_scheme \<Rightarrow> 'a vmm_state_scheme option" where
  "split_block block sz s = do {
     bs \<leftarrow> block_size block s;
     if bs \<le> sz + sizeof_block_header then Some s
     else (let new_block = block + sizeof_block_header + sz in do {
       bs \<leftarrow> block_size block s;
       s \<leftarrow> set_block_size new_block (bs - sz - sizeof_block_header) s;
       s \<leftarrow> set_block_free new_block 1 s;
       nx \<leftarrow> block_next block s;
       s \<leftarrow> set_block_next new_block nx s;
       s \<leftarrow> set_block_size block sz s;
       set_block_next block new_block s
     })
   }"

text \<open>
  The loop of \<open>request_more_memory\<close>; false when the physical memory runs out, with the pages
  mapped so far left in place.
\<close>

partial_function (option) map_heap_pages ::
  "u64 \<Rightarrow> u64 \<Rightarrow> u64 \<Rightarrow> 'a vmm_state_scheme \<Rightarrow> (bool \<times> 'a vmm_state_scheme) option" where
  "map_heap_pages alloc_base offset total_size s =
     (if offset < total_size
      then (let (physical, s) = pmm_alloc_page s in
            if physical = 0 then Some (False, s)
            else Option.bind (vmm_map (alloc_base + offset) physical (VMM_PRESENT OR VMM_WRITE) s)
                   (\<lambda>s. map_heap_pages alloc_base (offset + PAGE_SIZE_VMM) total_size s))
      else Some (True, s))"

definition request_more_memory ::
  "u64 \<Rightarrow> 'a kheap_state_scheme \<Rightarrow> (u64 \<times> 'a kheap_state_scheme) option" where
  "request_more_memory sz s =
     (if sz > SIZE_MAX - sizeof_block_header then Some (NULL, s)
      else (let total_size = sz + sizeof_block_header;
                total_size = (total_size + PAGE_SIZE_VMM - 1) AND NOT (PAGE_SIZE_VMM - 1);
                alloc_base = heap_current s
            in do {
        (ok, s) \<leftarrow> map_heap_pages alloc_base 0 total_size s;
        if \<not> ok then Some (NULL, s)
        else (let s = s\<lparr>heap_current := heap_current s + total_size\<rparr>; block = alloc_base in do {
          s \<leftarrow> set_block_size block (total_size - sizeof_block_header) s;
          s \<leftarrow> set_block_free block 0 s;
          s \<leftarrow> set_block_next block NULL s;
          Some (block + sizeof_block_header, s)
        })
      }))"

text \<open>
  The search loop of \<open>kheap_alloc\<close>: the block found and true, or the last block (null for an
  empty list) and false.
\<close>

partial_function (option) heap_search ::
  "u64 \<Rightarrow> u64 \<Rightarrow> 'a vmm_state_scheme \<Rightarrow> (u64 \<times> bool) option" where
  "heap_search sz current s =
     (if current = NULL then Some (NULL, False)
      else Option.bind (block_free current s) (\<lambda>f.
           Option.bind (if f then map_option (\<lambda>n. sz \<le> n) (block_size current s) else Some False) (\<lambda>hit.
           if hit then Some (current, True)
           else Option.bind (block_next current s) (\<lambda>n.
                if n = NULL then Some (current, False) else heap_search sz n s))))"

definition kheap_alloc :: "u64 \<Rightarrow> 'a kheap_state_scheme \<Rightarrow> (u64 \<times> 'a kheap_state_scheme) option" where
  "kheap_alloc sz s =
     (if sz = 0 then Some (NULL, s)
      else (let sz = (sz + 15) AND NOT 15 in do {
        (current, found) \<leftarrow> heap_search sz (free_list s) s;
        if found then do {
          s \<leftarrow> split_block current sz s;
          s \<leftarrow> set_block_free current 0 s;
          Some (current + sizeof_block_header, s)
        }
        else do {
          (new_block, s) \<leftarrow> request_more_memory sz s;
          if new_block = NULL then Some (NULL, kerror ''Out of memory'' s)
          else do {
            s \<leftarrow> set_block_next current (new_block - sizeof_block_header) s;
            Some (new_block, s)
          }
        }
      }))"

text \<open>The merging loop of \<open>kheap_free\<close>.\<close>

partial_function (option) coalesce_loop ::
  "u64 \<Rightarrow> 'a vmm_state_scheme \<Rightarrow> 'a vmm_state_scheme option" where
  "coalesce_loop current s =
     (if current = NULL then Some s
      else Option.bind (block_free current s) (\<lambda>f.
           Option.bind (block_next current s) (\<lambda>n.
           Option.bind (if f \<and> n \<noteq> NULL then block_free n s else Some False) (\<lambda>merge.
           if merge
           then Option.bind (block_size current s) (\<lambda>cs.
                Option.bind (block_size n s) (\<lambda>ns.
                Option.bind (set_block_size current (cs + (sizeof_block_header + ns)) s) (\<lambda>s.
                Option.bind (block_next current s) (\<lambda>n.
                Option.bind (block_next n s) (\<lambda>nn.
                Option.bind (set_block_next current nn s) (coalesce_loop current))))))
           else Option.bind (block_next current s) (\<lambda>n. coalesce_loop n s)))))"

definition kheap_free :: "u64 \<Rightarrow> 'a kheap_state_scheme \<Rightarrow> 'a kheap_state_scheme option" where
  "kheap_free ptr s =
     (if ptr = NULL then Some s
      else do {
        s \<leftarrow> set_block_free (ptr - sizeof_block_header) 1 s;
        coalesce_loop (free_list s) s
      })"

definition kmalloc :: "u64 \<Rightarrow> 'a kheap_state_scheme \<Rightarrow> (u64 \<times> 'a kheap_state_scheme) option" where
  "kmalloc sz s = kheap_alloc sz s"

definition kfree :: "u64 \<Rightarrow> 'a kheap_state_scheme \<Rightarrow> 'a kheap_state_scheme option" where
  "kfree ptr s = kheap_free ptr s"

end
