(* ===== verification/Klibc_String.thy ===== *)
theory Klibc_String
  imports Klibc_Mem Kheap
begin

text \<open>
  The string routines of \<open>klibc/kmem/string.c\<close> on mapped memory.  A loop that follows a string
  to its terminator may run on for ever or into unmapped memory, so it is a partial function.
\<close>

section \<open>Model\<close>

partial_function (option) strlen_from :: "u64 \<Rightarrow> u64 \<Rightarrow> 'a vmm_state_scheme \<Rightarrow> u64 option" where
  "strlen_from p len s =
     Option.bind (vread8 (p + len) s) (\<lambda>b.
       if b \<noteq> 0 then strlen_from p (len + 1) s else Some len)"

definition strlen :: "u64 \<Rightarrow> 'a vmm_state_scheme \<Rightarrow> u64 option" where
  "strlen p s = strlen_from p 0 s"

text \<open>The bounded loop of \<open>strnlen\<close>; the second argument counts down \<open>max - len\<close>.\<close>

fun strnlen_from :: "u64 \<Rightarrow> nat \<Rightarrow> u64 \<Rightarrow> 'a vmm_state_scheme \<Rightarrow> u64 option" where
  "strnlen_from p 0 len s = Some len"
| "strnlen_from p (Suc k) len s = do {
     b \<leftarrow> vread8 (p + len) s;
     if b \<noteq> 0 then strnlen_from p k (len + 1) s else Some len
   }"

definition strnlen :: "u64 \<Rightarrow> u64 \<Rightarrow> 'a vmm_state_scheme \<Rightarrow> u64 option" where
  "strnlen p n s = strnlen_from p (unat n) 0 s"

definition stpcpy :: "u64 \<Rightarrow> u64 \<Rightarrow> 'a vmm_state_scheme \<Rightarrow> (u64 \<times> 'a vmm_state_scheme) option" where
  "stpcpy dest src s = do {
     n \<leftarrow> strlen src s;
     (p, s) \<leftarrow> mempcpy dest src n s;
     s \<leftarrow> vwrite8 p 0 s;
     Some (p, s)
   }"

definition stpncpy ::
  "u64 \<Rightarrow> u64 \<Rightarrow> u64 \<Rightarrow> 'a vmm_state_scheme \<Rightarrow> (u64 \<times> 'a vmm_state_scheme) option" where
  "stpncpy dest src n s = do {
     len \<leftarrow> strnlen src n s;
     (p, s) \<leftarrow> memcpy dest src len s;
     memset p 0 (n - len) s
   }"

definition strcpy :: "u64 \<Rightarrow> u64 \<Rightarrow> 'a vmm_state_scheme \<Rightarrow> (u64 \<times> 'a vmm_state_scheme) option" where
  "strcpy dest src s = do { (_, s) \<leftarrow> stpcpy dest src s; Some (dest, s) }"

definition strncpy ::
  "u64 \<Rightarrow> u64 \<Rightarrow> u64 \<Rightarrow> 'a vmm_state_scheme \<Rightarrow> (u64 \<times> 'a vmm_state_scheme) option" where
  "strncpy dest src n s = do { (_, s) \<leftarrow> stpncpy dest src n s; Some (dest, s) }"

definition strcat :: "u64 \<Rightarrow> u64 \<Rightarrow> 'a vmm_state_scheme \<Rightarrow> (u64 \<times> 'a vmm_state_scheme) option" where
  "strcat dest src s = do {
     n \<leftarrow> strlen dest s;
     (_, s) \<leftarrow> stpcpy (dest + n) src s;
     Some (dest, s)
   }"

partial_function (option) strcmp :: "u64 \<Rightarrow> u64 \<Rightarrow> 'a vmm_state_scheme \<Rightarrow> int option" where
  "strcmp a b s =
     Option.bind (vread8 a s) (\<lambda>x.
     Option.bind (vread8 b s) (\<lambda>y.
     if x \<noteq> 0 \<and> x = y then strcmp (a + 1) (b + 1) s else Some (uint x - uint y)))"

fun strncmp_loop :: "u64 \<Rightarrow> u64 \<Rightarrow> nat \<Rightarrow> 'a vmm_state_scheme \<Rightarrow> int option" where
  "strncmp_loop a b 0 s = Some 0"
| "strncmp_loop a b (Suc n) s = do {
     x \<leftarrow> vread8 a s;
     y \<leftarrow> vread8 b s;
     if x \<noteq> 0 \<and> x = y then strncmp_loop (a + 1) (b + 1) n s else Some (uint x - uint y)
   }"

definition strncmp :: "u64 \<Rightarrow> u64 \<Rightarrow> u64 \<Rightarrow> 'a vmm_state_scheme \<Rightarrow> int option" where
  "strncmp a b n s = strncmp_loop a b (unat n) s"

partial_function (option) strchr :: "u64 \<Rightarrow> u32 \<Rightarrow> 'a vmm_state_scheme \<Rightarrow> u64 option" where
  "strchr p c s =
     Option.bind (vread8 p s) (\<lambda>b.
       if b = 0 then Some NULL
       else if b = ucast c then Some p
       else strchr (p + 1) c s)"

partial_function (option) strrchr_loop ::
  "u64 \<Rightarrow> u8 \<Rightarrow> u64 \<Rightarrow> 'a vmm_state_scheme \<Rightarrow> u64 option" where
  "strrchr_loop p c latest s =
     Option.bind (vread8 p s) (\<lambda>b.
       if b = 0 then Some latest
       else strrchr_loop (p + 1) c (if b = c then p else latest) s)"

definition strrchr :: "u64 \<Rightarrow> u32 \<Rightarrow> 'a vmm_state_scheme \<Rightarrow> u64 option" where
  "strrchr p c s = strrchr_loop p (ucast c) NULL s"

text \<open>The inner loop of \<open>strstr\<close>: true when the needle ends while it still matches.\<close>

partial_function (option) strstr_match :: "u64 \<Rightarrow> u64 \<Rightarrow> 'a vmm_state_scheme \<Rightarrow> bool option" where
  "strstr_match h n s =
     Option.bind (vread8 h s) (\<lambda>x.
     Option.bind (vread8 n s) (\<lambda>y.
     if x \<noteq> 0 \<and> y \<noteq> 0 \<and> x = y then strstr_match (h + 1) (n + 1) s else Some (y = 0)))"

partial_function (option) strstr_loop :: "u64 \<Rightarrow> u64 \<Rightarrow> 'a vmm_state_scheme \<Rightarrow> u64 option" where
  "strstr_loop haystack needle s =
     Option.bind (vread8 haystack s) (\<lambda>b.
     if b = 0 then Some NULL
     else Option.bind (strstr_match haystack needle s) (\<lambda>m.
          if m then Some haystack else strstr_loop (haystack + 1) needle s))"

definition strstr :: "u64 \<Rightarrow> u64 \<Rightarrow> 'a vmm_state_scheme \<Rightarrow> u64 option" where
  "strstr haystack needle s = do {
     b \<leftarrow> vread8 needle s;
     if b = 0 then Some haystack else strstr_loop haystack needle s
   }"

definition strdup :: "u64 \<Rightarrow> 'a kheap_state_scheme \<Rightarrow> (u64 \<times> 'a kheap_state_scheme) option" where
  "strdup str s = do {
     n \<leftarrow> strlen str s;
     (new_str, s) \<leftarrow> kmalloc (n + 1) s;
     strcpy new_str str s
   }"

text \<open>
  The two loops of \<open>strtok_r\<close>: skipping delimiters (\<open>want\<close> true) and skipping other characters
  up to the end of the string (\<open>want\<close> false).  \<open>save_ptr\<close> is the address of the saved pointer.
\<close>

partial_function (option) skip_delims ::
  "u64 \<Rightarrow> u64 \<Rightarrow> 'a vmm_state_scheme \<Rightarrow> 'a vmm_state_scheme option" where
  "skip_delims delim save_ptr s =
     Option.bind (vread save_ptr s) (\<lambda>p.
     Option.bind (vread8 p s) (\<lambda>c.
     Option.bind (strchr delim (ucast c) s) (\<lambda>r.
     if r \<noteq> NULL \<and> save_ptr \<noteq> NULL
     then Option.bind (vwrite save_ptr (p + 1) s) (skip_delims delim save_ptr)
     else Some s)))"

partial_function (option) skip_token ::
  "u64 \<Rightarrow> u64 \<Rightarrow> 'a vmm_state_scheme \<Rightarrow> 'a vmm_state_scheme option" where
  "skip_token delim save_ptr s =
     Option.bind (vread save_ptr s) (\<lambda>p.
     Option.bind (vread8 p s) (\<lambda>c.
     Option.bind (strchr delim (ucast c) s) (\<lambda>r.
     if r = NULL \<and> c \<noteq> 0
     then Option.bind (vwrite save_ptr (p + 1) s) (skip_token delim save_ptr)
     else Some s)))"

definition strtok_r ::
  "u64 \<Rightarrow> u64 \<Rightarrow> u64 \<Rightarrow> 'a vmm_state_scheme \<Rightarrow> (u64 \<times> 'a vmm_state_scheme) option" where
  "strtok_r str delim save_ptr s =
     (if str \<noteq> NULL then do { s \<leftarrow> vwrite save_ptr str s; Some (NULL, s) }
      else do {
        s \<leftarrow> skip_delims delim save_ptr s;
        ret \<leftarrow> vread save_ptr s;
        s \<leftarrow> skip_token delim save_ptr s;
        c \<leftarrow> vread8 ret s;
        if c = 0 then Some (NULL, s) else Some (ret, s)
      })"

text \<open>\<open>strtok\<close> with the address of its static pointer.\<close>

definition strtok ::
  "u64 \<Rightarrow> u64 \<Rightarrow> u64 \<Rightarrow> 'a vmm_state_scheme \<Rightarrow> (u64 \<times> 'a vmm_state_scheme) option" where
  "strtok ptr str delim s = strtok_r str delim ptr s"

text \<open>\<open>while (--n != 0) if ((*dst++ = *s++) == 0) break;\<close> with \<open>n\<close> before the decrement.\<close>

fun strlcpy_loop ::
  "nat \<Rightarrow> u64 \<Rightarrow> u64 \<Rightarrow> 'a vmm_state_scheme \<Rightarrow> (nat \<times> u64 \<times> u64 \<times> 'a vmm_state_scheme) option" where
  "strlcpy_loop 0 dst p s = Some (0, dst, p, s)"
| "strlcpy_loop (Suc n) dst p s =
     (if n = 0 then Some (0, dst, p, s)
      else do {
        b \<leftarrow> vread8 p s;
        s \<leftarrow> vwrite8 dst b s;
        if b = 0 then Some (n, dst + 1, p + 1, s) else strlcpy_loop n (dst + 1) (p + 1) s
      })"

text \<open>\<open>while (*s++) ;\<close>\<close>

partial_function (option) skip_string :: "u64 \<Rightarrow> 'a vmm_state_scheme \<Rightarrow> u64 option" where
  "skip_string p s =
     Option.bind (vread8 p s) (\<lambda>b. if b \<noteq> 0 then skip_string (p + 1) s else Some (p + 1))"

definition strlcpy ::
  "u64 \<Rightarrow> u64 \<Rightarrow> u64 \<Rightarrow> 'a vmm_state_scheme \<Rightarrow> (u64 \<times> 'a vmm_state_scheme) option" where
  "strlcpy dst src sz s = do {
     (n, dst, p, s) \<leftarrow> (if sz \<noteq> 0 then strlcpy_loop (unat sz) dst src s else Some (0, dst, src, s));
     if n = 0 then do {
       s \<leftarrow> (if sz \<noteq> 0 then vwrite8 dst 0 s else Some s);
       p \<leftarrow> skip_string p s;
       Some (p - src - 1, s)
     }
     else Some (p - src - 1, s)
   }"

definition strlcat ::
  "u64 \<Rightarrow> u64 \<Rightarrow> u64 \<Rightarrow> 'a vmm_state_scheme \<Rightarrow> (u64 \<times> 'a vmm_state_scheme) option" where
  "strlcat dst src sz s = do {
     dlen \<leftarrow> strnlen dst sz s;
     slen \<leftarrow> strlen src s;
     if dlen = sz then Some (sz + slen, s)
     else (let n = sz - dlen - 1; n = (if n > slen then slen else n) in do {
       (_, s) \<leftarrow> memcpy (dst + dlen) src n s;
       s \<leftarrow> vwrite8 (dst + (dlen + n)) 0 s;
       Some (dlen + slen, s)
     })
   }"

end
