(* ===== verification/Kheap_Blocks.thy ===== *)
theory Kheap_Blocks
  imports Kheap
begin

text \<open>
  Correctness of the heap: the headers reachable from \<open>free_list\<close> describe a list of blocks
  that tile the mapped heap without gaps.  On that list \<open>kmalloc\<close> is first fit with splitting
  and \<open>kfree\<close> marks the block and merges neighbouring free blocks.
\<close>

declare of_nat_add [simp del]

section \<open>The heap's memory\<close>

type_synonym block = "nat \<times> bool"

definition heap_words :: "nat \<Rightarrow> nat \<Rightarrow> u64 set" where
  "heap_words l z = of_nat ` {x. l \<le> x \<and> x < z \<and> 8 dvd x}"

lemma heap_words_empty [simp]: "heap_words l l = {}"
  by (auto simp: heap_words_def)

lemma heap_words_mem:
  assumes "z \<le> 2 ^ 64" "x < 2 ^ 64"
  shows "(of_nat x :: u64) \<in> heap_words l z \<longleftrightarrow> l \<le> x \<and> x < z \<and> 8 dvd x"
  using assms u64_of_nat_inj [of x] unfolding heap_words_def by force

lemma heap_store:
  assumes "vm_ok s (heap_words l z)" "z \<le> 2 ^ 64" "l \<le> x" "x < z" "8 dvd x"
  obtains t where "vwrite (of_nat x) q s = Some t" "vm_ok t (heap_words l z)"
    "t = s\<lparr>pmem := pmem t\<rparr>" "vread (of_nat x) t = Some q"
    "\<And>y. l \<le> y \<Longrightarrow> y < z \<Longrightarrow> 8 dvd y \<Longrightarrow> y \<noteq> x \<Longrightarrow> vread (of_nat y) t = vread (of_nat y) s"
proof -
  have x: "(of_nat x :: u64) \<in> heap_words l z" using assms by (simp add: heap_words_mem)
  obtain t where t: "vwrite (of_nat x) q s = Some t" "vm_ok t (heap_words l z)" "t = s\<lparr>pmem := pmem t\<rparr>"
      "\<And>w. w \<in> heap_words l z \<Longrightarrow> vread w t = (if w = of_nat x then Some q else vread w s)"
    by (rule vwrite_spec [OF assms(1) x]) blast
  show ?thesis
  proof (rule that [of t, OF t(1-3)])
    show "vread (of_nat x) t = Some q" using t(4) [OF x] by simp
    fix y assume y: "l \<le> y" "y < z" "8 dvd y" "y \<noteq> x"
    then have "(of_nat y :: u64) \<in> heap_words l z" "(of_nat y :: u64) \<noteq> of_nat x"
      using assms(2,4) u64_of_nat_inj [of y x] by (auto simp: heap_words_mem)
    then show "vread (of_nat y) t = vread (of_nat y) s" using t(4) by simp
  qed
qed

section \<open>Blocks in memory\<close>

definition blocks_end :: "nat \<Rightarrow> block list \<Rightarrow> nat" where
  "blocks_end a bs = a + (\<Sum>(n, f) \<leftarrow> bs. 24 + n)"

lemma blocks_end_simps [simp]:
  "blocks_end a [] = a" "blocks_end a ((n, f) # bs) = blocks_end (a + 24 + n) bs"
  "blocks_end a (xs @ ys) = blocks_end (blocks_end a xs) ys"
  by (simp_all add: blocks_end_def)

lemma blocks_end_ge: "a \<le> blocks_end a bs"
  by (simp add: blocks_end_def)

text \<open>
  \<open>heap_seg s a bs e\<close>: the blocks \<open>bs\<close> lie one behind the other from address \<open>a\<close>, each
  header points to the next one and the last points to \<open>e\<close>.
\<close>

fun heap_seg :: "'a vmm_state_scheme \<Rightarrow> nat \<Rightarrow> block list \<Rightarrow> u64 \<Rightarrow> bool" where
  "heap_seg s a [] e \<longleftrightarrow> True"
| "heap_seg s a ((n, f) # bs) e \<longleftrightarrow>
     8 dvd n \<and> block_size (of_nat a) s = Some (of_nat n) \<and> block_free (of_nat a) s = Some f \<and>
     block_next (of_nat a) s = Some (if bs = [] then e else of_nat (a + 24 + n)) \<and>
     heap_seg s (a + 24 + n) bs e"

lemma heap_seg_append:
  "heap_seg s a (xs @ ys) e \<longleftrightarrow>
     heap_seg s a xs (if ys = [] then e else of_nat (blocks_end a xs)) \<and> heap_seg s (blocks_end a xs) ys e"
  by (induction xs arbitrary: a) auto

lemma heap_seg_dvd: "heap_seg s a bs e \<Longrightarrow> 8 dvd a \<Longrightarrow> 8 dvd blocks_end a bs"
  by (induction bs arbitrary: a) auto

lemma block_fields:
  "block_size (of_nat a) s = vread (of_nat a) s"
  "block_free (of_nat a) s = map_option (\<lambda>q. take_bit 32 q \<noteq> 0) (vread (of_nat (a + 8)) s)"
  "block_next (of_nat a) s = vread (of_nat (a + 16)) s"
  by (simp_all add: block_size_def block_free_def block_next_def of_nat_add)

text \<open>Only the words of the segment matter.\<close>

lemma heap_seg_cong:
  assumes "\<And>y. a \<le> y \<Longrightarrow> y < blocks_end a bs \<Longrightarrow> 8 dvd y \<Longrightarrow> vread (of_nat y) t = vread (of_nat y) s"
    "8 dvd a"
  shows "heap_seg t a bs e = heap_seg s a bs e"
  using assms
proof (induction bs arbitrary: a)
  case Nil
  then show ?case by simp
next
  case (Cons b bs)
  obtain n f where b: "b = (n, f)" by (cases b)
  have le: "a + 24 + n \<le> blocks_end (a + 24 + n) bs" by (rule blocks_end_ge)
  have hd: "vread (of_nat (a + k)) t = vread (of_nat (a + k)) s" if "k < 24" "8 dvd k" for k
    using Cons.prems(1) [of "a + k"] Cons.prems(2) that le by (simp add: b)
  have "vread (of_nat a) t = vread (of_nat a) s" using hd [of 0] by simp
  moreover have "heap_seg t (a + 24 + n) bs e = heap_seg s (a + 24 + n) bs e" if "8 dvd n"
    by (rule Cons.IH) (use Cons.prems that in \<open>auto simp: b\<close>)
  ultimately show ?case using hd [of 8] hd [of 16] by (auto simp: b block_fields)
qed

section \<open>Stores to headers\<close>

text \<open>\<open>stores l z s t X\<close>: \<open>t\<close> is \<open>s\<close> after stores to some of the addresses in \<open>X\<close>.\<close>

definition stores ::
  "nat \<Rightarrow> nat \<Rightarrow> 'a vmm_state_scheme \<Rightarrow> 'a vmm_state_scheme \<Rightarrow> nat set \<Rightarrow> bool" where
  "stores l z s t X \<longleftrightarrow> vm_ok t (heap_words l z) \<and> t = s\<lparr>pmem := pmem t\<rparr> \<and>
     (\<forall>y. l \<le> y \<longrightarrow> y < z \<longrightarrow> 8 dvd y \<longrightarrow> y \<notin> X \<longrightarrow> vread (of_nat y) t = vread (of_nat y) s)"

lemma storesD:
  assumes "stores l z s t X"
  shows "vm_ok t (heap_words l z)" "t = s\<lparr>pmem := pmem t\<rparr>"
    "l \<le> y \<Longrightarrow> y < z \<Longrightarrow> 8 dvd y \<Longrightarrow> y \<notin> X \<Longrightarrow> vread (of_nat y) t = vread (of_nat y) s"
  using assms unfolding stores_def by blast+

lemma stores_avail: "stores l z s t X \<Longrightarrow> pmm_avail t = pmm_avail s"
  using storesD(2) [of l z s t X] vmm_frame_simps(3) by metis

lemma stores_refl: "vm_ok s (heap_words l z) \<Longrightarrow> stores l z s s X"
  by (simp add: stores_def)

lemma stores_trans:
  assumes "stores l z s t X" "stores l z t u Y" "X \<union> Y \<subseteq> Z"
  shows "stores l z s u Z"
proof -
  have "u = s\<lparr>pmem := pmem u\<rparr>"
    using storesD(2) [OF assms(1)] storesD(2) [OF assms(2)]
    by (metis vmm_state.update_convs(1) vmm_state.surjective)
  then show ?thesis using assms unfolding stores_def by (metis UnCI subsetD)
qed

lemma stores_seg:
  assumes "stores l z s t X" "l \<le> a" "blocks_end a bs \<le> z" "8 dvd a"
    "\<And>y. a \<le> y \<Longrightarrow> y < blocks_end a bs \<Longrightarrow> y \<notin> X"
  shows "heap_seg t a bs e = heap_seg s a bs e"
  using assms storesD(3) [OF assms(1)] by (intro heap_seg_cong) auto

lemma low_dword:
  "take_bit 32 (push_bit 32 (drop_bit 32 q) OR ucast b :: u64) = ucast (b :: u32)"
proof (rule u64_eqI)
  fix n :: nat assume "n < 64"
  have "bit b n \<Longrightarrow> n < 32" using bit_imp_le_length [of b n] by simp
  then show "bit (take_bit 32 (push_bit 32 (drop_bit 32 q) OR ucast b :: u64)) n = bit (ucast b :: u64) n"
    using \<open>n < 64\<close>
    by (auto simp: bit_take_bit_iff bit_or_iff bit_push_bit_iff bit_ucast_iff)
qed

lemma ucast_u32_zero: "(ucast (b :: u32) :: u64) = 0 \<longleftrightarrow> b = 0"
proof -
  have "unat b < 2 ^ 32" using unsigned_less [of b, where ?'a = nat] by simp
  then have "unat b < 2 ^ 64" by simp
  then have "unat (ucast b :: u64) = unat b"
    by (simp add: unsigned_ucast_eq take_bit_nat_eq_self)
  then show ?thesis by (metis unat_eq_zero)
qed

lemma store_stores:
  assumes "vm_ok s (heap_words l z)" "z \<le> 2 ^ 64" "l \<le> x" "x < z" "8 dvd x"
  obtains t where "vwrite (of_nat x) q s = Some t" "stores l z s t {x}" "vread (of_nat x) t = Some q"
  using heap_store [OF assms] unfolding stores_def by (metis singletonI)

lemma set_block_size_spec:
  assumes "vm_ok s (heap_words l z)" "z \<le> 2 ^ 64" "l \<le> a" "a + 24 \<le> z" "8 dvd a"
  obtains t where "set_block_size (of_nat a) q s = Some t" "stores l z s t {a}"
    "block_size (of_nat a) t = Some q"
proof -
  have "a < z" using assms(4) by simp
  then show ?thesis
    using store_stores [OF assms(1-3) _ assms(5)] that unfolding set_block_size_def block_fields by metis
qed

lemma set_block_next_spec:
  assumes "vm_ok s (heap_words l z)" "z \<le> 2 ^ 64" "l \<le> a" "a + 24 \<le> z" "8 dvd a"
  obtains t where "set_block_next (of_nat a) q s = Some t" "stores l z s t {a + 16}"
    "block_next (of_nat a) t = Some q"
proof -
  have "l \<le> a + 16" "a + 16 < z" "8 dvd a + 16" using assms(3-5) by simp_all
  moreover have "(of_nat a + 16 :: u64) = of_nat (a + 16)" by (simp add: of_nat_add)
  ultimately show ?thesis
    using store_stores [OF assms(1,2)] that unfolding set_block_next_def block_fields by metis
qed

lemma set_block_free_spec:
  assumes "vm_ok s (heap_words l z)" "z \<le> 2 ^ 64" "l \<le> a" "a + 24 \<le> z" "8 dvd a"
  obtains t where "set_block_free (of_nat a) b s = Some t" "stores l z s t {a + 8}"
    "block_free (of_nat a) t = Some (b \<noteq> 0)"
proof -
  have x: "l \<le> a + 8" "a + 8 < z" "8 dvd a + 8" using assms(3-5) by simp_all
  have eq: "(of_nat a + 8 :: u64) = of_nat (a + 8)" by (simp add: of_nat_add)
  obtain q where q: "vread (of_nat (a + 8)) s = Some q"
    using vread_total [OF assms(1)] x assms(2) by (metis heap_words_mem order_less_le_trans)
  obtain t where "vwrite (of_nat (a + 8)) (push_bit 32 (drop_bit 32 q) OR ucast b) s = Some t"
      "stores l z s t {a + 8}" "vread (of_nat (a + 8)) t = Some (push_bit 32 (drop_bit 32 q) OR ucast b)"
    by (rule store_stores [OF assms(1,2) x])
  then show ?thesis
    using that q by (simp only: set_block_free_def eq block_fields)
      (simp add: low_dword ucast_u32_zero del: take_bit_or)
qed

section \<open>Searching\<close>

fun first_fit :: "nat \<Rightarrow> block list \<Rightarrow> (block list \<times> nat \<times> block list) option" where
  "first_fit sz [] = None"
| "first_fit sz ((n, f) # bs) =
     (if f \<and> sz \<le> n then Some ([], n, bs)
      else map_option (\<lambda>(xs, m, ys). ((n, f) # xs, m, ys)) (first_fit sz bs))"

lemma first_fit_Some:
  "first_fit sz bs = Some (xs, m, ys) \<Longrightarrow>
     bs = xs @ (m, True) # ys \<and> sz \<le> m \<and> (\<forall>b \<in> set xs. \<not> (snd b \<and> sz \<le> fst b))"
  by (induction bs arbitrary: xs) (fastforce split: if_splits)+

lemma first_fit_None: "first_fit sz bs = None \<longleftrightarrow> (\<forall>b \<in> set bs. \<not> (snd b \<and> sz \<le> fst b))"
  by (induction bs) (simp, case_tac a, auto split: if_splits)

lemma heap_search_spec:
  assumes "heap_seg s a bs NULL" "bs \<noteq> []" "0 < a" "blocks_end a bs < 2 ^ 64" and sz: "sz < 2 ^ 64"
  shows "heap_search (of_nat sz) (of_nat a) s =
    Some (case first_fit sz bs of
        Some (xs, m, ys) \<Rightarrow> (of_nat (blocks_end a xs), True)
      | None \<Rightarrow> (of_nat (blocks_end a (butlast bs)), False))"
  using assms(1-4)
proof (induction bs arbitrary: a)
  case Nil
  then show ?case by simp
next
  case (Cons b bs)
  obtain n f where b: "b = (n, f)" by (cases b)
  have e: "a + 24 + n \<le> blocks_end (a + 24 + n) bs" by (rule blocks_end_ge)
  then have lt: "a < 2 ^ 64" "n < 2 ^ 64" "a + 24 + n < 2 ^ 64" using Cons.prems(4) by (simp_all add: b)
  have nz: "(of_nat a :: u64) \<noteq> 0" "(of_nat (a + 24 + n) :: u64) \<noteq> 0"
    using u64_of_nat_inj [of a 0] u64_of_nat_inj [of "a + 24 + n" 0] lt Cons.prems(3) by auto
  have le: "(of_nat sz :: u64) \<le> of_nat n \<longleftrightarrow> sz \<le> n"
    using sz lt(2) by (simp add: word_le_nat_alt unat_of_nat_small)
  have h: "block_size (of_nat a) s = Some (of_nat n)" "block_free (of_nat a) s = Some f"
      "block_next (of_nat a) s = Some (if bs = [] then 0 else of_nat (a + 24 + n))"
      "heap_seg s (a + 24 + n) bs NULL"
    using Cons.prems(1) by (simp_all add: b)
  show ?case
  proof (cases "f \<and> sz \<le> n")
    case True
    then show ?thesis using h(1,2) nz(1) le by (subst heap_search.simps) (simp add: b)
  next
    case False
    then have step: "heap_search (of_nat sz) (of_nat a) s =
        (if bs = [] then Some (of_nat a, False) else heap_search (of_nat sz) (of_nat (a + 24 + n)) s)"
      using h(1-3) nz le by (subst heap_search.simps) auto
    show ?thesis
    proof (cases "bs = []")
      case True
      then show ?thesis using step False by (auto simp: b)
    next
      case ne: False
      have "heap_search (of_nat sz) (of_nat (a + 24 + n)) s =
        Some (case first_fit sz bs of
            Some (xs, m, ys) \<Rightarrow> (of_nat (blocks_end (a + 24 + n) xs), True)
          | None \<Rightarrow> (of_nat (blocks_end (a + 24 + n) (butlast bs)), False))"
        by (rule Cons.IH [OF h(4) ne]) (use Cons.prems(3,4) in \<open>simp_all add: b\<close>)
      then show ?thesis using step False ne by (auto simp: b split: option.splits)
    qed
  qed
qed

section \<open>Splitting\<close>

text \<open>Replacing the blocks in the middle of a segment.\<close>

lemma heap_seg_replace:
  assumes "heap_seg s l (xs @ (m, f) # ys) e" "stores l z s t X" "8 dvd l"
    "X \<subseteq> {blocks_end l xs..<blocks_end l xs + 24 + m}" "blocks_end l (xs @ (m, f) # ys) \<le> z"
    "mid \<noteq> []" "blocks_end (blocks_end l xs) mid = blocks_end l xs + 24 + m"
    "heap_seg t (blocks_end l xs) mid (if ys = [] then e else of_nat (blocks_end l xs + 24 + m))"
  shows "heap_seg t l (xs @ mid @ ys) e"
proof -
  let ?a = "blocks_end l xs"
  have old: "heap_seg s l xs (of_nat ?a)" "heap_seg s (?a + 24 + m) ys e" "8 dvd m"
    using assms(1) by (auto simp: heap_seg_append)
  have a: "8 dvd ?a" using heap_seg_dvd [OF old(1) assms(3)] .
  have le: "l \<le> ?a" "?a + 24 + m \<le> blocks_end (?a + 24 + m) ys" by (rule blocks_end_ge)+
  have "heap_seg t l xs (of_nat ?a)"
    using old(1) stores_seg [OF assms(2) order_refl _ assms(3), of xs] assms(4,5) le by fastforce
  moreover have "heap_seg t (?a + 24 + m) ys e"
    using old(2) stores_seg [OF assms(2), of "?a + 24 + m" ys] assms(4,5) le a old(3) by fastforce
  ultimately show ?thesis using assms(6-8) by (cases "ys = []") (simp_all add: heap_seg_append)
qed

definition carve :: "nat \<Rightarrow> nat \<Rightarrow> block list" where
  "carve sz m = (if m \<le> sz + 24 then [(m, False)] else [(sz, False), (m - sz - 24, True)])"

lemma blocks_end_carve [simp]: "blocks_end a (carve sz m) = a + 24 + m"
  by (simp add: carve_def)

lemma block_fields_stores:
  assumes "stores l z s t X" "l \<le> a" "a + 24 \<le> z" "8 dvd a"
  shows "a \<notin> X \<Longrightarrow> block_size (of_nat a) t = block_size (of_nat a) s"
    "a + 8 \<notin> X \<Longrightarrow> block_free (of_nat a) t = block_free (of_nat a) s"
    "a + 16 \<notin> X \<Longrightarrow> block_next (of_nat a) t = block_next (of_nat a) s"
proof -
  have d: "8 dvd a + 8" "8 dvd a + 16" using assms(4) by simp_all
  show "a \<notin> X \<Longrightarrow> block_size (of_nat a) t = block_size (of_nat a) s"
    "a + 8 \<notin> X \<Longrightarrow> block_free (of_nat a) t = block_free (of_nat a) s"
    "a + 16 \<notin> X \<Longrightarrow> block_next (of_nat a) t = block_next (of_nat a) s"
    unfolding block_fields using storesD(3) [OF assms(1)] assms(2-4) d by simp_all
qed

lemma of_nat_le_u64:
  "m < 2 ^ 64 \<Longrightarrow> n < 2 ^ 64 \<Longrightarrow> (of_nat m :: u64) \<le> of_nat n \<longleftrightarrow> m \<le> n"
  by (simp add: word_le_nat_alt unat_of_nat_small)

lemma header_addr: "(of_nat a + sizeof_block_header :: u64) = of_nat (a + 24)"
  by (simp add: sizeof_block_header_def of_nat_add)

lemma split_block_spec:
  assumes "vm_ok s (heap_words l z)" "z < 2 ^ 64" "l \<le> a" "a + 24 + m \<le> z" "8 dvd a" "8 dvd sz" "8 dvd m"
    "sz \<le> m" "block_size (of_nat a) s = Some (of_nat m)" "block_free (of_nat a) s = Some True"
    "block_next (of_nat a) s = Some e"
  obtains t u where "split_block (of_nat a) (of_nat sz) s = Some t"
    "set_block_free (of_nat a) 0 t = Some u" "stores l z s u {a..<a + 24 + m}"
    "heap_seg u a (carve sz m) e"
    "\<And>y. 8 dvd y \<Longrightarrow> a + 24 \<le> y \<Longrightarrow> y < a + 24 + sz \<Longrightarrow> vread (of_nat y) u = vread (of_nat y) s"
proof (cases "m \<le> sz + 24")
  case True
  have "(of_nat m :: u64) \<le> of_nat sz + sizeof_block_header"
    unfolding header_addr using True assms(2,4,8) by (subst of_nat_le_u64) simp_all
  then have sp: "split_block (of_nat a) (of_nat sz) s = Some s"
    using assms(9) by (simp add: split_block_def)
  obtain u where u: "set_block_free (of_nat a) 0 s = Some u" "stores l z s u {a + 8}"
      "block_free (of_nat a) u = Some False"
    using set_block_free_spec [OF assms(1) _ assms(3) _ assms(5), of 0] assms(2,4) by auto
  note bf = block_fields_stores [OF u(2) assms(3) _ assms(5)]
  show ?thesis
  proof (rule that [OF sp u(1)])
    show "stores l z s u {a..<a + 24 + m}"
      by (rule stores_trans [OF stores_refl [OF assms(1), of "{}"] u(2)]) auto
    show "heap_seg u a (carve sz m) e"
      using True bf(1,3) u(3) assms(4,7,9,11) by (simp add: carve_def)
  qed (use storesD(3) [OF u(2)] assms(3,4,8) in auto)
next
  case False
  define b where "b = a + 24 + sz"
  define k where "k = m - sz - 24"
  have b: "l \<le> b" "b + 24 \<le> z" "8 dvd b" "a + 24 \<le> b" and bk: "b + 24 + k = a + 24 + m" "8 dvd k"
    using False assms(3-8) by (simp_all add: b_def k_def)
  have a: "a + 24 \<le> z" "z \<le> 2 ^ 64" using assms(2,4) by simp_all
  have cond: "\<not> (of_nat m :: u64) \<le> of_nat sz + sizeof_block_header"
    unfolding header_addr using False assms(2,4,8) by (subst of_nat_le_u64) simp_all
  have new: "(of_nat a + sizeof_block_header + of_nat sz :: u64) = of_nat b"
    by (simp add: header_addr b_def of_nat_add)
  have rest: "(of_nat m - of_nat sz - sizeof_block_header :: u64) = of_nat k"
  proof -
    have "m = k + sz + 24" using False by (simp add: k_def)
    then show ?thesis by (simp add: of_nat_add sizeof_block_header_def)
  qed
  obtain t1 where t1: "set_block_size (of_nat b) (of_nat k) s = Some t1" "stores l z s t1 {b}"
      "block_size (of_nat b) t1 = Some (of_nat k)"
    using set_block_size_spec [OF assms(1) a(2) b(1-3)] by blast
  obtain t2 where t2: "set_block_free (of_nat b) 1 t1 = Some t2" "stores l z t1 t2 {b + 8}"
      "block_free (of_nat b) t2 = Some True"
    using set_block_free_spec [OF storesD(1) [OF t1(2)] a(2) b(1-3), of 1] by auto
  have nx: "block_next (of_nat a) t2 = Some e"
    using block_fields_stores(3) [OF t1(2) assms(3) a(1) assms(5)]
      block_fields_stores(3) [OF t2(2) assms(3) a(1) assms(5)] b(4) assms(11) by simp
  obtain t3 where t3: "set_block_next (of_nat b) e t2 = Some t3" "stores l z t2 t3 {b + 16}"
      "block_next (of_nat b) t3 = Some e"
    using set_block_next_spec [OF storesD(1) [OF t2(2)] a(2) b(1-3)] by blast
  obtain t4 where t4: "set_block_size (of_nat a) (of_nat sz) t3 = Some t4" "stores l z t3 t4 {a}"
      "block_size (of_nat a) t4 = Some (of_nat sz)"
    using set_block_size_spec [OF storesD(1) [OF t3(2)] a(2) assms(3) a(1) assms(5)] by blast
  obtain t5 where t5: "set_block_next (of_nat a) (of_nat b) t4 = Some t5" "stores l z t4 t5 {a + 16}"
      "block_next (of_nat a) t5 = Some (of_nat b)"
    using set_block_next_spec [OF storesD(1) [OF t4(2)] a(2) assms(3) a(1) assms(5)] by blast
  obtain u where u: "set_block_free (of_nat a) 0 t5 = Some u" "stores l z t5 u {a + 8}"
      "block_free (of_nat a) u = Some False"
    using set_block_free_spec [OF storesD(1) [OF t5(2)] a(2) assms(3) a(1) assms(5), of 0] by auto
  have sp: "split_block (of_nat a) (of_nat sz) s = Some t5"
    using assms(9) cond new rest t1(1) t2(1) nx t3(1) t4(1) t5(1)
    by (simp add: split_block_def Let_def)
  have st: "stores l z s u {a, a + 8, a + 16, b, b + 8, b + 16}"
    by (rule stores_trans [OF t1(2) stores_trans [OF t2(2) stores_trans [OF t3(2)
          stores_trans [OF t4(2) stores_trans [OF t5(2) u(2) order_refl] order_refl] order_refl]
          order_refl]]) auto
  note ba = block_fields_stores [OF _ assms(3) a(1) assms(5)] and bb = block_fields_stores [OF _ b(1-3)]
  have ha: "block_size (of_nat a) u = Some (of_nat sz)" "block_next (of_nat a) u = Some (of_nat b)"
    using ba(1) [OF t5(2)] ba(1) [OF u(2)] ba(3) [OF u(2)] t4(3) t5(3) by simp_all
  have hb: "block_size (of_nat b) u = Some (of_nat k)" "block_free (of_nat b) u = Some True"
      "block_next (of_nat b) u = Some e"
    using bb(1) [OF t2(2)] bb(1,2) [OF t3(2)] bb [OF t4(2)] bb [OF t5(2)] bb [OF u(2)] t1(3) t2(3) t3(3)
      b(4) by simp_all
  show ?thesis
  proof (rule that [OF sp u(1)])
    show "stores l z s u {a..<a + 24 + m}"
      by (rule stores_trans [OF st stores_refl [OF storesD(1) [OF st], of "{}"]]) (use b(4) bk(1) in auto)
    show "heap_seg u a (carve sz m) e"
    proof -
      have "carve sz m = [(sz, False), (k, True)]" using False by (simp add: carve_def k_def)
      then show ?thesis using ha hb u(3) assms(6) bk(2) by (simp add: b_def [symmetric])
    qed
  qed (use storesD(3) [OF st] assms(3,4,8) in \<open>auto simp: b_def\<close>)
qed

section \<open>Allocation from the list\<close>

definition HEAP_BASE :: nat where "HEAP_BASE = unat HEAP_START"

lemma HEAP_BASE_simps [simp]:
  "of_nat HEAP_BASE = HEAP_START" "8 dvd HEAP_BASE" "0 < HEAP_BASE"
  by (simp_all add: HEAP_BASE_def HEAP_START_def)

text \<open>The blocks the heap of a state consists of.\<close>

definition heap_ok :: "'a kheap_state_scheme \<Rightarrow> block list \<Rightarrow> bool" where
  "heap_ok s bs \<longleftrightarrow> bs \<noteq> [] \<and> free_list s = HEAP_START \<and> blocks_end HEAP_BASE bs < 2 ^ 64 \<and>
     vm_ok s (heap_words HEAP_BASE (blocks_end HEAP_BASE bs)) \<and> heap_seg s HEAP_BASE bs NULL"

abbreviation heap_end :: "block list \<Rightarrow> nat" where
  "heap_end \<equiv> blocks_end HEAP_BASE"

definition align16 :: "u64 \<Rightarrow> u64" where
  "align16 sz = (sz + 15) AND NOT 15"

lemma align16_dvd: "16 dvd unat (align16 sz)"
proof -
  have "(15 :: u64) = mask 4" by (simp add: mask_eq_exp_minus_1)
  then have "take_bit 4 (align16 sz) = 0"
    by (simp add: align16_def u64_eq_iff bit_take_bit_iff bit_and_iff bit_not_iff u64_bit_mask)
  then show ?thesis
    by (simp add: unat_eq_zero [symmetric] take_bit_eq_mod unat_mod mod_eq_0_iff_dvd)
qed

lemma stores_kheap:
  fixes s t :: "'a kheap_state_scheme"
  assumes "stores l z s t X"
  shows "free_list t = free_list s" "heap_current t = heap_current s"
proof -
  have "free_list t = free_list (s\<lparr>pmem := pmem t\<rparr>)" "heap_current t = heap_current (s\<lparr>pmem := pmem t\<rparr>)"
    using storesD(2) [OF assms] by (rule arg_cong)+
  then show "free_list t = free_list s" "heap_current t = heap_current s" by simp_all
qed

lemma set_block_kheap:
  fixes s t :: "'a kheap_state_scheme"
  shows "set_block_size p n s = Some t \<Longrightarrow> free_list t = free_list s"
    "set_block_free p b s = Some t \<Longrightarrow> free_list t = free_list s"
    "set_block_next p n s = Some t \<Longrightarrow> free_list t = free_list s"
  by (auto simp: set_block_size_def set_block_free_def set_block_next_def vwrite_def bind_eq_Some_conv)

lemma heap_ok_replace:
  assumes "heap_ok s (xs @ (m, f) # ys)" "stores HEAP_BASE (heap_end (xs @ (m, f) # ys)) s t X"
    "X \<subseteq> {heap_end xs..<heap_end xs + 24 + m}"
    "mid \<noteq> []" "blocks_end (heap_end xs) mid = heap_end xs + 24 + m"
    "heap_seg t (heap_end xs) mid (if ys = [] then NULL else of_nat (heap_end xs + 24 + m))"
  shows "heap_ok t (xs @ mid @ ys)"
proof -
  have "heap_seg t HEAP_BASE (xs @ mid @ ys) NULL"
    by (rule heap_seg_replace [OF _ assms(2) _ assms(3) order_refl assms(4-6)])
       (use assms(1) in \<open>simp_all add: heap_ok_def\<close>)
  moreover have "heap_end (xs @ mid @ ys) = heap_end (xs @ (m, f) # ys)" using assms(5) by simp
  ultimately show ?thesis
    using assms(1,4) storesD(1) [OF assms(2)] stores_kheap(1) [OF assms(2)] by (simp add: heap_ok_def)
qed

lemma heap_ok_block:
  assumes "heap_ok s (xs @ (m, f) # ys)"
  shows "vm_ok s (heap_words HEAP_BASE (heap_end (xs @ (m, f) # ys)))"
    "HEAP_BASE \<le> heap_end xs" "heap_end xs + 24 + m \<le> heap_end (xs @ (m, f) # ys)"
    "heap_end (xs @ (m, f) # ys) < 2 ^ 64" "8 dvd heap_end xs" "8 dvd m"
    "block_size (of_nat (heap_end xs)) s = Some (of_nat m)"
    "block_free (of_nat (heap_end xs)) s = Some f"
    "block_next (of_nat (heap_end xs)) s =
       Some (if ys = [] then NULL else of_nat (heap_end xs + 24 + m))"
proof -
  have seg: "heap_seg s HEAP_BASE xs (of_nat (heap_end xs))" "heap_seg s (heap_end xs) ((m, f) # ys) NULL"
    using assms by (auto simp: heap_ok_def heap_seg_append)
  show "8 dvd heap_end xs" by (rule heap_seg_dvd [OF seg(1)]) simp
qed (use assms in \<open>auto simp: heap_ok_def blocks_end_ge heap_seg_append\<close>)

lemma kmalloc_unfold:
  "kmalloc sz s =
     (if sz = 0 then Some (NULL, s)
      else do {
        (current, found) \<leftarrow> heap_search (align16 sz) (free_list s) s;
        if found then do {
          s \<leftarrow> split_block current (align16 sz) s;
          s \<leftarrow> set_block_free current 0 s;
          Some (current + sizeof_block_header, s)
        }
        else do {
          (new_block, s) \<leftarrow> request_more_memory (align16 sz) s;
          if new_block = NULL then Some (NULL, kerror ''Out of memory'' s)
          else do {
            s \<leftarrow> set_block_next current (new_block - sizeof_block_header) s;
            Some (new_block, s)
          }
        }
      })"
  by (simp only: kmalloc_def kheap_alloc_def align16_def Let_def)

lemma kmalloc_fit:
  assumes "heap_ok s bs" "sz \<noteq> 0" "first_fit (unat (align16 sz)) bs = Some (xs, m, ys)"
  obtains t where "kmalloc sz s = Some (of_nat (heap_end xs + 24), t)"
    "heap_ok t (xs @ carve (unat (align16 sz)) m @ ys)"
    "stores HEAP_BASE (heap_end bs) s t {heap_end xs..<heap_end xs + 24 + m}"
    "\<And>y. 8 dvd y \<Longrightarrow> heap_end xs + 24 \<le> y \<Longrightarrow> y < heap_end xs + 24 + unat (align16 sz) \<Longrightarrow>
       vread (of_nat y) t = vread (of_nat y) s"
proof -
  let ?n = "unat (align16 sz)" and ?a = "heap_end xs"
  have bs: "bs = xs @ (m, True) # ys" "?n \<le> m" using first_fit_Some [OF assms(3)] by auto
  note hb = heap_ok_block [OF assms(1) [unfolded bs(1)]]
  have "8 dvd ?n" by (rule dvd_trans [OF _ align16_dvd]) simp
  then obtain t u where tu: "split_block (of_nat ?a) (of_nat ?n) s = Some t"
      "set_block_free (of_nat ?a) 0 t = Some u"
      "stores HEAP_BASE (heap_end bs) s u {?a..<?a + 24 + m}"
      "heap_seg u ?a (carve ?n m) (if ys = [] then NULL else of_nat (?a + 24 + m))"
      "\<And>y. 8 dvd y \<Longrightarrow> ?a + 24 \<le> y \<Longrightarrow> y < ?a + 24 + ?n \<Longrightarrow> vread (of_nat y) u = vread (of_nat y) s"
    using split_block_spec [OF hb(1,4,2,3,5) _ hb(6) bs(2) hb(7-9)] unfolding bs(1) by metis
  have "heap_search (of_nat ?n) (of_nat HEAP_BASE) s = Some (of_nat ?a, True)"
    using heap_search_spec [of s HEAP_BASE bs ?n] assms(1,3) unsigned_less [of "align16 sz", where ?'a = nat]
    by (simp add: heap_ok_def)
  then have "kmalloc sz s = Some (of_nat (?a + 24), u)"
    using assms(1,2) tu(1,2)
    by (simp add: kmalloc_unfold heap_ok_def header_addr)
  moreover have "carve ?n m \<noteq> []" by (simp add: carve_def)
  then have "heap_ok u (xs @ carve ?n m @ ys)"
    using heap_ok_replace [OF assms(1) [unfolded bs(1)] tu(3) [unfolded bs(1)]] tu(4) by simp
  ultimately show ?thesis using that tu(3,5) by blast
qed

section \<open>Merging free neighbours\<close>

fun coalesce :: "block list \<Rightarrow> block list" where
  "coalesce [] = []"
| "coalesce [b] = [b]"
| "coalesce (b # c # bs) =
     (if snd b \<and> snd c then coalesce ((fst b + 24 + fst c, True) # bs) else b # coalesce (c # bs))"

lemma coalesce_end [simp]: "blocks_end a (coalesce bs) = blocks_end a bs"
proof (induction bs arbitrary: a rule: coalesce.induct)
  case (3 b c bs)
  then show ?case by (cases b; cases c) (auto simp: add.assoc)
next
  case (2 b)
  then show ?case by (cases b) simp
qed simp

lemma coalesce_Nil [simp]: "coalesce bs = [] \<longleftrightarrow> bs = []"
  by (induction bs rule: coalesce.induct) auto

text \<open>The addresses of the header words.\<close>

fun header_words :: "nat \<Rightarrow> block list \<Rightarrow> nat set" where
  "header_words a [] = {}"
| "header_words a ((n, f) # bs) = {a, a + 8, a + 16} \<union> header_words (a + 24 + n) bs"

lemma header_words_ge: "y \<in> header_words a bs \<Longrightarrow> a \<le> y"
proof (induction bs arbitrary: a)
  case (Cons b bs)
  obtain n f where "b = (n, f)" by (cases b)
  then show ?case using Cons.prems Cons.IH [of "a + 24 + n"] by auto
qed simp

lemma block_nonnull: "0 < a \<Longrightarrow> a < 2 ^ 64 \<Longrightarrow> (of_nat a :: u64) \<noteq> NULL"
  using u64_of_nat_inj [of a 0] by auto

lemma coalesce_loop_spec:
  assumes "z < 2 ^ 64" "l \<le> a" "blocks_end a bs \<le> z" "8 dvd a" "0 < a"
    "vm_ok s (heap_words l z)" "heap_seg s a bs NULL"
  shows "\<exists>t. coalesce_loop (if bs = [] then NULL else of_nat a) s = Some t \<and>
    stores l z s t (header_words a bs) \<and> heap_seg t a (coalesce bs) NULL"
  using assms(2-)
proof (induction bs arbitrary: a s rule: coalesce.induct)
  case 1
  then show ?case by (subst coalesce_loop.simps) (simp add: stores_refl)
next
  case (2 b)
  obtain n f where b: "b = (n, f)" by (cases b)
  have "(of_nat a :: u64) \<noteq> NULL" using block_nonnull [of a] 2 assms(1) by (simp add: b)
  moreover have "coalesce_loop NULL s = Some s" by (subst coalesce_loop.simps) simp
  ultimately have "coalesce_loop (of_nat a) s = Some s"
    using 2 by (subst coalesce_loop.simps) (simp add: b)
  then show ?case using 2 by (auto simp: stores_refl)
next
  case (3 b c bs)
  obtain n f m g where bc: "b = (n, f)" "c = (m, g)" by (cases b; cases c)
  let ?a = "a + 24 + n" and ?e = "if bs = [] then NULL else of_nat (a + 24 + n + 24 + m)"
  note prems = "3.prems" [unfolded bc]
  have hd: "8 dvd n" "block_size (of_nat a) s = Some (of_nat n)" "block_free (of_nat a) s = Some f"
      "block_next (of_nat a) s = Some (of_nat ?a)"
      "8 dvd m" "block_size (of_nat ?a) s = Some (of_nat m)" "block_free (of_nat ?a) s = Some g"
      "block_next (of_nat ?a) s = Some ?e" "heap_seg s (?a + 24 + m) bs NULL"
    using prems(6) by simp_all
  have e: "?a + 24 + m \<le> z" using prems(2) blocks_end_ge [of "?a + 24 + m" bs] by simp
  have in1: "l \<le> a" "a + 24 \<le> z" "8 dvd a" and in2: "l \<le> ?a" "?a + 24 \<le> z" "8 dvd ?a"
    using prems(1,3) hd(1) e by simp_all
  have nn: "(of_nat a :: u64) \<noteq> NULL" "(of_nat ?a :: u64) \<noteq> NULL"
    using block_nonnull [of a] block_nonnull [of ?a] prems(4) e assms(1) by simp_all
  show ?case
  proof (cases "f \<and> g")
    case True
    have z: "z \<le> 2 ^ 64" using assms(1) by simp
    obtain t where t: "set_block_size (of_nat a) (of_nat (n + 24 + m)) s = Some t" "stores l z s t {a}"
        "block_size (of_nat a) t = Some (of_nat (n + 24 + m))"
      using set_block_size_spec [OF prems(5) z in1] by blast
    obtain u where u: "set_block_next (of_nat a) ?e t = Some u" "stores l z t u {a + 16}"
        "block_next (of_nat a) u = Some ?e"
      using set_block_next_spec [OF storesD(1) [OF t(2)] z in1] by blast
    have sum: "(of_nat n + (sizeof_block_header + of_nat m) :: u64) = of_nat (n + 24 + m)"
      by (simp add: sizeof_block_header_def of_nat_add)
    have nx: "block_next (of_nat a) t = Some (of_nat ?a)" "block_next (of_nat ?a) t = Some ?e"
      using block_fields_stores(3) [OF t(2) in1] block_fields_stores(3) [OF t(2) in2] hd(4,8) by simp_all
    have step: "coalesce_loop (of_nat a) s = coalesce_loop (of_nat a) u"
      using True hd nn sum t(1) nx u(1) by (subst coalesce_loop.simps) simp
    have su: "stores l z s u {a, a + 16}" by (rule stores_trans [OF t(2) u(2)]) auto
    have rest: "heap_seg u (?a + 24 + m) bs NULL"
    proof -
      have "8 dvd ?a + 24 + m" using in1(3) hd(1,5) by (intro dvd_add) simp_all
      then show ?thesis using stores_seg [OF su, of "?a + 24 + m" bs] hd(9) prems(2) in2(1) by auto
    qed
    have "heap_seg u a ((n + 24 + m, True) # bs) NULL"
    proof -
      have "block_size (of_nat a) u = Some (of_nat (n + 24 + m))" "block_free (of_nat a) u = Some True"
        using block_fields_stores(1) [OF u(2) in1] block_fields_stores(2) [OF su in1] t(3) hd(3) True
        by simp_all
      moreover have "a + 24 + (n + 24 + m) = ?a + 24 + m" by simp
      ultimately show ?thesis using rest u(3) hd(1,5) by (simp only: heap_seg.simps) simp
    qed
    then obtain v where v: "coalesce_loop (of_nat a) u = Some v"
        "stores l z u v (header_words a ((n + 24 + m, True) # bs))"
        "heap_seg v a (coalesce ((n + 24 + m, True) # bs)) NULL"
      using "3.IH"(1) [of a u] True prems storesD(1) [OF su] by (auto simp: bc add.assoc)
    have "stores l z s v (header_words a ((n, f) # (m, g) # bs))"
      by (rule stores_trans [OF su v(2)]) (auto simp: add.assoc)
    then show ?thesis using step v(1,3) True by (auto simp: bc)
  next
    case False
    have step: "coalesce_loop (of_nat a) s = coalesce_loop (of_nat ?a) s"
      using False hd nn by (subst coalesce_loop.simps) auto
    obtain t where t: "coalesce_loop (of_nat ?a) s = Some t"
        "stores l z s t (header_words ?a ((m, g) # bs))" "heap_seg t ?a (coalesce ((m, g) # bs)) NULL"
      using "3.IH"(2) [of ?a s] False prems in2 hd by (auto simp: bc)
    have out: "a + k \<notin> header_words ?a ((m, g) # bs)" if "k < 24" for k
      using header_words_ge [of "a + k" ?a "(m, g) # bs"] that by fastforce
    have "block_size (of_nat a) t = Some (of_nat n)" "block_free (of_nat a) t = Some f"
        "block_next (of_nat a) t = Some (of_nat ?a)"
      using block_fields_stores [OF t(2) in1] out [of 0] out [of 8] out [of 16] hd(2-4) by simp_all
    then have "heap_seg t a ((n, f) # coalesce ((m, g) # bs)) NULL" using t(3) hd(1) by simp
    moreover have "stores l z s t (header_words a ((n, f) # (m, g) # bs))"
      by (rule stores_trans [OF stores_refl [OF prems(5), of "{}"] t(2)]) auto
    ultimately show ?thesis using step t(1) False by (auto simp: bc)
  qed
qed

lemma header_not_payload:
  "y \<in> header_words a (xs @ (m, f) # ys) \<Longrightarrow>
     y \<notin> {blocks_end a xs + 24..<blocks_end a xs + 24 + m}"
proof (induction xs arbitrary: a)
  case Nil
  then show ?case using header_words_ge [of y "a + 24 + m" ys] by auto
next
  case (Cons b xs)
  obtain n g where b: "b = (n, g)" by (cases b)
  show ?case
    using Cons.prems Cons.IH [of "a + 24 + n"] blocks_end_ge [of "a + 24 + n" xs] by (auto simp: b)
qed

lemma header_words_append:
  "header_words a (xs @ ys) = header_words a xs \<union> header_words (blocks_end a xs) ys"
  by (induction xs arbitrary: a) (auto simp: Un_assoc)

lemma kfree_spec:
  assumes "heap_ok s (xs @ (m, f) # ys)"
  obtains t where "kfree (of_nat (heap_end xs + 24)) s = Some t"
    "heap_ok t (coalesce (xs @ (m, True) # ys))"
    "stores HEAP_BASE (heap_end (xs @ (m, f) # ys)) s t (header_words HEAP_BASE (xs @ (m, f) # ys))"
proof -
  let ?a = "heap_end xs" and ?bs = "xs @ (m, f) # ys" and ?cs = "xs @ (m, True) # ys"
  note hb = heap_ok_block [OF assms]
  have z: "heap_end ?bs \<le> 2 ^ 64" "?a + 24 \<le> heap_end ?bs" using hb(3,4) by simp_all
  obtain u where u: "set_block_free (of_nat ?a) 1 s = Some u" "stores HEAP_BASE (heap_end ?bs) s u {?a + 8}"
      "block_free (of_nat ?a) u = Some True"
    using set_block_free_spec [OF hb(1) z(1) hb(2) z(2) hb(5), of 1] by auto
  note bf = block_fields_stores [OF u(2) hb(2) z(2) hb(5)]
  have ok: "heap_ok u ?cs"
    using heap_ok_replace [OF assms u(2), of "[(m, True)]"] bf(1,3) u(3) hb(6-9) by auto
  have ptr: "of_nat (?a + 24) - sizeof_block_header = (of_nat ?a :: u64)"
    by (simp add: of_nat_add sizeof_block_header_def)
  have nn: "(of_nat (?a + 24) :: u64) \<noteq> NULL" using hb(3,4) by (intro block_nonnull) simp_all
  obtain t where t: "coalesce_loop (of_nat HEAP_BASE) u = Some t"
      "stores HEAP_BASE (heap_end ?cs) u t (header_words HEAP_BASE ?cs)"
      "heap_seg t HEAP_BASE (coalesce ?cs) NULL"
    using coalesce_loop_spec [of "heap_end ?cs" HEAP_BASE HEAP_BASE ?cs u] ok by (auto simp: heap_ok_def)
  have st: "stores HEAP_BASE (heap_end ?bs) s t (header_words HEAP_BASE ?bs)"
    by (rule stores_trans [OF u(2)]) (use t(2) in \<open>auto simp: header_words_append\<close>)
  show ?thesis
  proof (rule that [OF _ _ st])
    show "kfree (of_nat (?a + 24)) s = Some t"
      using ptr nn u(1) t(1) ok by (simp add: kfree_def kheap_free_def heap_ok_def)
    show "heap_ok t (coalesce ?cs)"
      using ok storesD(1) [OF t(2)] stores_kheap(1) [OF t(2)] t(3) by (simp add: heap_ok_def)
  qed
qed

section \<open>Growing the heap\<close>

lemma heap_words_page:
  assumes "KERNEL_HALF \<le> of_nat x" "4096 dvd x" "x + 4096 \<le> 2 ^ 64" "l \<le> x"
  shows "heap_words l (x + 4096) = heap_words l x \<union> page_qwords (of_nat x)"
    "heap_words l x \<inter> page_qwords (of_nat x) = {}"
proof -
  have x: "unat (of_nat x :: u64) = x" using assms(3) by (intro unat_of_nat_small) simp
  have kh: "unat KERNEL_HALF \<le> x" using assms(1) x by (simp add: word_le_nat_alt)
  have mem: "w \<in> page_qwords (of_nat x) \<longleftrightarrow> x \<le> unat w \<and> unat w < x + 4096 \<and> 8 dvd unat w" for w
  proof -
    obtain q where q: "x = 4096 * q" using assms(2) by (rule dvdE)
    have "same_page w (of_nat x) \<longleftrightarrow> x \<le> unat w \<and> unat w < x + 4096" if "canonical w"
    proof -
      have "unat w div 4096 = x div 4096 \<longleftrightarrow> x \<le> unat w \<and> unat w < x + 4096"
        unfolding q by (simp add: div_eq_dividend_iff) linarith
      then show ?thesis using canonical_page [OF that kernel_canonical [OF assms(1)]] x by simp
    qed
    moreover have "x \<le> unat w \<Longrightarrow> canonical w" using kh by (intro kernel_canonical) (simp add: word_le_nat_alt)
    ultimately show ?thesis unfolding page_qwords_def aligned8_def mod_eq_0_iff_dvd by blast
  qed
  have hw: "w \<in> heap_words l z \<longleftrightarrow> l \<le> unat w \<and> unat w < z \<and> 8 dvd unat w" if "z \<le> 2 ^ 64" for w z
    using heap_words_mem [OF that, of "unat w" l] unsigned_less [of w, where ?'a = nat] by simp
  show "heap_words l (x + 4096) = heap_words l x \<union> page_qwords (of_nat x)"
    using assms(3,4) by (auto simp: mem hw)
  show "heap_words l x \<inter> page_qwords (of_nat x) = {}"
    using assms(3) by (auto simp: mem hw)
qed

lemma map_flags: "(VMM_PRESENT OR VMM_WRITE) AND PAGE_MASK = 0"
  by (simp add: VMM_PRESENT_def VMM_WRITE_def PAGE_MASK_def)

lemma map_heap_pages_spec:
  assumes "map_heap_pages (of_nat b) (of_nat off) (of_nat (off + 4096 * k)) s = Some (r, t)"
    "vm_ok s (heap_words l (b + off))" "l \<le> b" "4096 dvd b + off" "KERNEL_HALF \<le> of_nat b"
    "b + off + 4096 * k < 2 ^ 64"
  shows "\<exists>j \<le> k. vm_ok t (heap_words l (b + off + 4096 * j)) \<and> (r \<longrightarrow> j = k) \<and>
    (\<forall>w \<in> heap_words l (b + off). vread w t = vread w s) \<and> vmm_state.more t = vmm_state.more s"
  using assms
proof (induction k arbitrary: off s)
  case 0
  then show ?case by (subst (asm) map_heap_pages.simps) auto
next
  case (Suc k)
  have lt: "(of_nat off :: u64) < of_nat (off + 4096 * Suc k)"
    using Suc.prems(6) by (simp add: word_less_nat_alt unat_of_nat_small)
  obtain p s1 where p: "pmm_alloc_page s = (p, s1)" by (cases "pmm_alloc_page s")
  show ?case
  proof (cases "p = 0")
    case True
    have "pmm_wf s" using Suc.prems(2) by (simp add: vm_ok_def)
    then have "s1 = s" using True p pmm_alloc_none pmm_alloc_some(2) by (metis fst_conv prod.inject)
    then have "r = False" "t = s"
      using Suc.prems(1) lt p True by (subst (asm) map_heap_pages.simps, simp)+
    then show ?thesis using Suc.prems(2) by (intro exI [of _ 0]) simp
  next
    case False
    have base: "(of_nat b + of_nat off :: u64) = of_nat (b + off)" by (simp add: of_nat_add)
    have next_off: "(of_nat off + PAGE_SIZE_VMM :: u64) = of_nat (off + 4096)"
      by (simp add: of_nat_add PAGE_SIZE_VMM_def)
    have stop: "off + 4096 * Suc k = (off + 4096) + 4096 * k" by simp
    obtain s2 where s2: "vmm_map (of_nat (b + off)) p (VMM_PRESENT OR VMM_WRITE) s1 = Some s2"
        "map_heap_pages (of_nat b) (of_nat (off + 4096)) (of_nat ((off + 4096) + 4096 * k)) s2 = Some (r, t)"
      using Suc.prems(1) lt p False unfolding stop
      by (subst (asm) map_heap_pages.simps) (auto simp: base next_off bind_eq_Some_conv)
    have kh: "KERNEL_HALF \<le> (of_nat (b + off) :: u64)"
      using Suc.prems(5,6) by (simp add: word_le_nat_alt unat_of_nat_small)
    have pg: "heap_words l (b + (off + 4096)) = heap_words l (b + off) \<union> page_qwords (of_nat (b + off))"
      "heap_words l (b + off) \<inter> page_qwords (of_nat (b + off)) = {}"
      using heap_words_page [OF kh Suc.prems(4), of l] Suc.prems(3,6) by (simp_all add: add.assoc)
    note mp = vm_ok_map_page [OF Suc.prems(2) p False map_flags s2(1) pg(2)]
    have "vm_ok s2 (heap_words l (b + (off + 4096)))" using mp(1) pg(1) by simp
    then obtain j where j: "j \<le> k" "vm_ok t (heap_words l (b + (off + 4096) + 4096 * j))" "r \<longrightarrow> j = k"
        "\<forall>w \<in> heap_words l (b + (off + 4096)). vread w t = vread w s2" "vmm_state.more t = vmm_state.more s2"
      using Suc.IH [OF s2(2)] Suc.prems(3-6) by (auto simp: add.assoc [symmetric])
    have eq: "b + (off + 4096) + 4096 * j = b + off + 4096 * Suc j" by simp
    have "\<forall>w \<in> heap_words l (b + off). vread w t = vread w s" using j(4) mp(2) pg(1) by simp
    then show ?thesis using j(1,2,3,5) mp(3) unfolding eq by (intro exI [of _ "Suc j"]) simp
  qed
qed

lemma map_heap_pages_total:
  assumes "pmm_wf s" "n + 4 * k \<le> card (pmm_avail s)" "off + 4096 * k < 2 ^ 64"
  shows "\<exists>t. map_heap_pages (of_nat b) (of_nat off) (of_nat (off + 4096 * k)) s = Some (True, t) \<and> n \<le> card (pmm_avail t)"
  using assms
proof (induction k arbitrary: off s)
  case 0
  then show ?case by (subst map_heap_pages.simps) simp
next
  case (Suc k)
  have lt: "(of_nat off :: u64) < of_nat (off + 4096 * Suc k)"
    using Suc.prems(3) by (simp add: word_less_nat_alt unat_of_nat_small)
  have ne: "pmm_avail s \<noteq> {}" using Suc.prems(2) by auto
  obtain p s1 where p: "pmm_alloc_page s = (p, s1)" by (cases "pmm_alloc_page s")
  note al = pmm_alloc_some [OF Suc.prems(1) ne p]
  have wf1: "pmm_wf s1" using pmm_wf_alloc [OF Suc.prems(1)] p by simp
  have "card (pmm_avail s1) = card (pmm_avail s) - 1" using al(1,3) by (simp add: pmm.finite_avail)
  then have "(n + 4 * k) + 3 \<le> card (pmm_avail s1)" using Suc.prems(2) by simp
  then obtain s2 where s2: "vmm_map (of_nat b + of_nat off) p (VMM_PRESENT OR VMM_WRITE) s1 = Some s2"
      "n + 4 * k \<le> card (pmm_avail s2)"
    using vmm_map_total [OF wf1] by metis
  have "pmm_wf s2" using s2(1) wf1 by (rule vmm_map_pmm_wf)
  then obtain t where "map_heap_pages (of_nat b) (of_nat (off + 4096))
      (of_nat ((off + 4096) + 4096 * k)) s2 = Some (True, t)" "n \<le> card (pmm_avail t)"
    using Suc.IH [of s2 "off + 4096"] s2(2) Suc.prems(3) by auto
  moreover have "(of_nat off + PAGE_SIZE_VMM :: u64) = of_nat (off + 4096)"
    by (simp add: of_nat_add PAGE_SIZE_VMM_def)
  ultimately show ?case using lt p al(2) s2(1) by (subst map_heap_pages.simps) (simp add: add.assoc)
qed

lemma vmm_more_kheap:
  fixes s t :: "'a kheap_state_scheme"
  assumes "vmm_state.more t = vmm_state.more s"
  shows "free_list t = free_list s" "heap_current t = heap_current s"
  using assms by (cases s; cases t; simp)+

definition heap_pages :: "u64 \<Rightarrow> nat" where
  "heap_pages sz = (unat sz + 24 + 4095) div 4096"

lemma round_page:
  assumes "unat x + 4095 < 2 ^ 64"
  shows "(x + PAGE_SIZE_VMM - 1) AND NOT (PAGE_SIZE_VMM - 1) = of_nat (4096 * ((unat x + 4095) div 4096))"
proof -
  have m: "PAGE_SIZE_VMM - 1 = mask 12" by (simp add: PAGE_SIZE_VMM_def mask_eq_exp_minus_1)
  have "y AND NOT (mask 12) = push_bit 12 (drop_bit 12 y)" for y :: u64
    by (rule u64_eqI) (auto simp: bit_and_iff bit_not_iff u64_bit_mask bit_push_bit_iff bit_drop_bit_eq)
  moreover have "unat (x + 0xFFF) = unat x + 4095" using assms by (simp add: unat_plus_no_overflow)
  then have "drop_bit 12 (x + 0xFFF) = of_nat ((unat x + 4095) div 4096)"
    using order_le_less_trans [OF div_le_dividend assms, of 4096]
    by (simp add: word_unat_eq_iff drop_bit_eq_div unat_div unat_of_nat_small)
  moreover have "x + PAGE_SIZE_VMM - 1 = x + 0xFFF" by (simp add: PAGE_SIZE_VMM_def)
  ultimately have "(x + PAGE_SIZE_VMM - 1) AND NOT (PAGE_SIZE_VMM - 1) =
      push_bit 12 (of_nat ((unat x + 4095) div 4096))"
    unfolding m by metis
  then show ?thesis by (simp add: push_bit_eq_mult mult.commute)
qed

lemma request_more_memory_unfold:
  assumes "unat sz + 24 + 4095 < 2 ^ 64" "heap_current s = of_nat b"
  shows "request_more_memory sz s = do {
      (ok, s) \<leftarrow> map_heap_pages (of_nat b) (of_nat 0) (of_nat (0 + 4096 * heap_pages sz)) s;
      if \<not> ok then Some (NULL, s)
      else do {
        s \<leftarrow> set_block_size (of_nat b) (of_nat (4096 * heap_pages sz - 24))
               (s\<lparr>heap_current := heap_current s + of_nat (4096 * heap_pages sz)\<rparr>);
        s \<leftarrow> set_block_free (of_nat b) 0 s;
        s \<leftarrow> set_block_next (of_nat b) NULL s;
        Some (of_nat (b + 24), s)
      }
    }"
proof -
  have u: "unat (sz + sizeof_block_header) = unat sz + 24"
    using assms(1) by (simp add: sizeof_block_header_def unat_plus_no_overflow)
  have guard: "\<not> sz > SIZE_MAX - sizeof_block_header"
    using assms(1) by (simp add: SIZE_MAX_def sizeof_block_header_def word_less_nat_alt)
  have tot: "(sz + sizeof_block_header + PAGE_SIZE_VMM - 1) AND NOT (PAGE_SIZE_VMM - 1) =
      of_nat (4096 * heap_pages sz)"
    using round_page [of "sz + sizeof_block_header"] assms(1) u by (simp add: heap_pages_def)
  have "24 \<le> 4096 * heap_pages sz" unfolding heap_pages_def by linarith
  then have sub: "(of_nat (4096 * heap_pages sz) - sizeof_block_header :: u64) =
      of_nat (4096 * heap_pages sz - 24)"
    by (simp add: of_nat_diff sizeof_block_header_def)
  show ?thesis
    unfolding request_more_memory_def Let_def tot assms(2) sub header_addr
    using guard by simp
qed

text \<open>Writing the header of the new block at the old end of the heap.\<close>

lemma new_block_header:
  assumes "vm_ok s (heap_words l (b + n))" "l \<le> b" "8 dvd b" "8 dvd n" "24 \<le> n" "b + n < 2 ^ 64"
  obtains t u v where "set_block_size (of_nat b) (of_nat (n - 24)) s = Some t"
    "set_block_free (of_nat b) fl t = Some u" "set_block_next (of_nat b) NULL u = Some v"
    "stores l (b + n) s v {b, b + 8, b + 16}" "heap_seg v b [(n - 24, fl \<noteq> 0)] NULL"
proof -
  have z: "b + n \<le> 2 ^ 64" "b + 24 \<le> b + n" using assms(5,6) by simp_all
  obtain t where t: "set_block_size (of_nat b) (of_nat (n - 24)) s = Some t" "stores l (b + n) s t {b}"
      "block_size (of_nat b) t = Some (of_nat (n - 24))"
    using set_block_size_spec [OF assms(1) z(1) assms(2) z(2) assms(3)] by blast
  obtain u where u: "set_block_free (of_nat b) fl t = Some u" "stores l (b + n) t u {b + 8}"
      "block_free (of_nat b) u = Some (fl \<noteq> 0)"
    using set_block_free_spec [OF storesD(1) [OF t(2)] z(1) assms(2) z(2) assms(3), of fl] by blast
  obtain v where v: "set_block_next (of_nat b) NULL u = Some v" "stores l (b + n) u v {b + 16}"
      "block_next (of_nat b) v = Some NULL"
    using set_block_next_spec [OF storesD(1) [OF u(2)] z(1) assms(2) z(2) assms(3)] by blast
  have st: "stores l (b + n) s v {b, b + 8, b + 16}"
    by (rule stores_trans [OF t(2) stores_trans [OF u(2) v(2) order_refl]]) auto
  note bf = block_fields_stores [OF _ assms(2) z(2) assms(3)]
  have "8 dvd n - 24" using assms(4) by (simp add: dvd_diff_nat)
  then have "heap_seg v b [(n - 24, fl \<noteq> 0)] NULL"
    using bf(1) [OF u(2)] bf(1,2) [OF v(2)] t(3) u(3) v(3) by simp
  then show ?thesis using that t(1) u(1) v(1) st by blast
qed

lemma vm_view_kheap [simp]:
  "vm_view (s\<lparr>heap_current := x\<rparr>) = vm_view s" "vm_view (s\<lparr>free_list := x\<rparr>) = vm_view s"
  by (simp_all add: vm_view_def)

text \<open>
  \<open>request_more_memory\<close> on a heap region ending at the page boundary \<open>b\<close>: either the physical
  memory runs out and the region keeps its contents, or the region grows by one block in use.
\<close>

definition grown ::
  "nat \<Rightarrow> nat \<Rightarrow> nat \<Rightarrow> 'a kheap_state_scheme \<Rightarrow> 'a kheap_state_scheme \<Rightarrow> bool" where
  "grown l b n s t \<longleftrightarrow> vm_ok t (heap_words l (b + n)) \<and> heap_seg t b [(n - 24, False)] NULL \<and>
     (\<forall>w \<in> heap_words l b. vread w t = vread w s) \<and>
     heap_current t = of_nat (b + n) \<and> free_list t = free_list s"

definition refused :: "nat \<Rightarrow> nat \<Rightarrow> 'a kheap_state_scheme \<Rightarrow> 'a kheap_state_scheme \<Rightarrow> bool" where
  "refused l b s t \<longleftrightarrow> vm_ok t (heap_words l b) \<and> (\<forall>w \<in> heap_words l b. vread w t = vread w s) \<and>
     heap_current t = heap_current s \<and> free_list t = free_list s"

lemma map_heap_pages_grown:
  assumes "map_heap_pages (of_nat b) (of_nat 0) (of_nat (0 + 4096 * k)) s = Some (True, s1)"
    "heap_current s = of_nat b" "vm_ok s (heap_words l b)" "l \<le> b" "4096 dvd b" "KERNEL_HALF \<le> of_nat b"
    "b + 4096 * k < 2 ^ 64" "0 < k"
  obtains t u v where
    "set_block_size (of_nat b) (of_nat (4096 * k - 24))
       (s1\<lparr>heap_current := heap_current s1 + of_nat (4096 * k)\<rparr>) = Some t"
    "set_block_free (of_nat b) 0 t = Some u" "set_block_next (of_nat b) NULL u = Some v"
    "grown l b (4096 * k) s v" "pmm_avail v = pmm_avail s1"
proof -
  let ?s2 = "s1\<lparr>heap_current := heap_current s1 + of_nat (4096 * k)\<rparr>"
  have m: "vm_ok s1 (heap_words l (b + 4096 * k))" "\<forall>w \<in> heap_words l b. vread w s1 = vread w s"
      "vmm_state.more s1 = vmm_state.more s"
    using map_heap_pages_spec [OF assms(1), of l] assms(3-7) by auto
  have view: "vm_view ?s2 = vm_view s1" by simp
  have "8 dvd b" by (rule dvd_trans [OF _ assms(5)]) simp
  then obtain t u v where tuv: "set_block_size (of_nat b) (of_nat (4096 * k - 24)) ?s2 = Some t"
      "set_block_free (of_nat b) 0 t = Some u" "set_block_next (of_nat b) NULL u = Some v"
      "stores l (b + 4096 * k) ?s2 v {b, b + 8, b + 16}" "heap_seg v b [(4096 * k - 24, False)] NULL"
    using new_block_header [of ?s2 l b "4096 * k" 0] vm_view_cong(2) [OF view] m(1) assms(4,7,8) by auto
  have "vread w v = vread w s" if w: "w \<in> heap_words l b" for w
  proof -
    obtain y where y: "w = of_nat y" "l \<le> y" "y < b" "8 dvd y" using w by (auto simp: heap_words_def)
    then have "vread w v = vread w ?s2" using storesD(3) [OF tuv(4), of y] by auto
    then show ?thesis using vm_view_cong(1) [OF view] m(2) w by simp
  qed
  moreover have "heap_current v = of_nat (b + 4096 * k)" "free_list v = free_list s"
    using stores_kheap [OF tuv(4)] vmm_more_kheap [OF m(3)] assms(2) by (simp_all add: of_nat_add)
  ultimately have "grown l b (4096 * k) s v" using storesD(1) [OF tuv(4)] tuv(5) by (simp add: grown_def)
  moreover have "pmm_avail v = pmm_avail s1" using stores_avail [OF tuv(4)] vm_view_cong(3) [OF view] by simp
  ultimately show ?thesis using that tuv(1-3) by blast
qed

lemma request_more_memory_spec:
  assumes "request_more_memory sz s = Some (p, t)" "unat sz + 24 + 4095 < 2 ^ 64"
    "heap_current s = of_nat b" "vm_ok s (heap_words l b)" "l \<le> b" "4096 dvd b" "KERNEL_HALF \<le> of_nat b"
    "b + 4096 * heap_pages sz < 2 ^ 64"
  shows "p = NULL \<and> refused l b s t \<or> p = of_nat (b + 24) \<and> grown l b (4096 * heap_pages sz) s t"
proof -
  let ?k = "heap_pages sz"
  have k: "0 < ?k" by (simp add: heap_pages_def)
  obtain ok s1 where m: "map_heap_pages (of_nat b) (of_nat 0) (of_nat (0 + 4096 * ?k)) s = Some (ok, s1)"
    using assms(1) request_more_memory_unfold [OF assms(2,3)] by (auto simp: bind_eq_Some_conv)
  show ?thesis
  proof (cases ok)
    case True
    then have m': "map_heap_pages (of_nat b) (of_nat 0) (of_nat (0 + 4096 * ?k)) s = Some (True, s1)"
      using m by simp
    obtain a u v where "set_block_size (of_nat b) (of_nat (4096 * ?k - 24))
           (s1\<lparr>heap_current := heap_current s1 + of_nat (4096 * ?k)\<rparr>) = Some a"
        "set_block_free (of_nat b) 0 a = Some u" "set_block_next (of_nat b) NULL u = Some v"
        "grown l b (4096 * ?k) s v"
      by (rule map_heap_pages_grown [OF m' assms(3-8) k])
    then show ?thesis
      using assms(1) m' by (simp add: request_more_memory_unfold [OF assms(2,3)])
  next
    case False
    obtain j where j: "vm_ok s1 (heap_words l (b + 4096 * j))" "\<forall>w \<in> heap_words l b. vread w s1 = vread w s"
        "vmm_state.more s1 = vmm_state.more s"
      using map_heap_pages_spec [OF m, of l] assms(4-8) by auto
    have "heap_words l b \<subseteq> heap_words l (b + 4096 * j)" by (auto simp: heap_words_def)
    then have "refused l b s s1"
      using j vm_ok_mono [OF j(1)] vmm_more_kheap [OF j(3)] by (simp add: refused_def)
    then show ?thesis
      using assms(1) m False by (simp add: request_more_memory_unfold [OF assms(2,3)])
  qed
qed

lemma request_more_memory_pages:
  assumes "unat sz + 24 + 4095 < 2 ^ 64" "n + 4 * heap_pages sz \<le> card (pmm_avail s)"
    "heap_current s = of_nat b" "vm_ok s (heap_words l b)" "l \<le> b" "4096 dvd b" "KERNEL_HALF \<le> of_nat b"
    "b + 4096 * heap_pages sz < 2 ^ 64"
  obtains t where "request_more_memory sz s = Some (of_nat (b + 24), t)"
    "grown l b (4096 * heap_pages sz) s t" "n \<le> card (pmm_avail t)"
proof -
  let ?k = "heap_pages sz"
  have k: "0 < ?k" by (simp add: heap_pages_def)
  have "pmm_wf s" using assms(4) by (simp add: vm_ok_def)
  then obtain s1 where m: "map_heap_pages (of_nat b) (of_nat 0) (of_nat (0 + 4096 * ?k)) s = Some (True, s1)"
      "n \<le> card (pmm_avail s1)"
    using map_heap_pages_total [of s n ?k 0 b] assms(2,8) by auto
  obtain a u v where "set_block_size (of_nat b) (of_nat (4096 * ?k - 24))
         (s1\<lparr>heap_current := heap_current s1 + of_nat (4096 * ?k)\<rparr>) = Some a"
      "set_block_free (of_nat b) 0 a = Some u" "set_block_next (of_nat b) NULL u = Some v"
      "grown l b (4096 * ?k) s v" "pmm_avail v = pmm_avail s1"
    by (rule map_heap_pages_grown [OF m(1) assms(3-8) k])
  then show ?thesis
    using that [of v] m by (simp add: request_more_memory_unfold [OF assms(1,3)])
qed

lemma request_more_memory_total:
  assumes "unat sz + 24 + 4095 < 2 ^ 64" "4 * heap_pages sz \<le> card (pmm_avail s)"
    "heap_current s = of_nat b" "vm_ok s (heap_words l b)" "l \<le> b" "4096 dvd b" "KERNEL_HALF \<le> of_nat b"
    "b + 4096 * heap_pages sz < 2 ^ 64"
  obtains t where "request_more_memory sz s = Some (of_nat (b + 24), t)"
    "grown l b (4096 * heap_pages sz) s t"
  by (rule request_more_memory_pages [of sz 0 s b l]) (use assms that in simp_all)

text \<open>A heap whose next growth starts at its end.\<close>

definition heap_full_ok :: "'a kheap_state_scheme \<Rightarrow> block list \<Rightarrow> bool" where
  "heap_full_ok s bs \<longleftrightarrow> heap_ok s bs \<and> heap_current s = of_nat (heap_end bs) \<and> 4096 dvd heap_end bs"

lemma KERNEL_HALF_heap: "HEAP_BASE \<le> b \<Longrightarrow> b < 2 ^ 64 \<Longrightarrow> KERNEL_HALF \<le> of_nat b"
  by (simp add: word_le_nat_alt unat_of_nat_small KERNEL_HALF_def HEAP_BASE_def HEAP_START_def)

text \<open>Linking the new block behind the last one.\<close>

lemma heap_ok_link:
  assumes "heap_ok s bs" "grown HEAP_BASE (heap_end bs) n s t" "24 \<le> n" "8 dvd n"
    "heap_end bs + n < 2 ^ 64"
  obtains u where "set_block_next (of_nat (heap_end (butlast bs))) (of_nat (heap_end bs)) t = Some u"
    "heap_ok u (bs @ [(n - 24, False)])"
    "stores HEAP_BASE (heap_end bs + n) t u {heap_end (butlast bs) + 16}"
proof -
  let ?l = "heap_end (butlast bs)"
  obtain m f where last: "last bs = (m, f)" by (cases "last bs")
  have bs: "bs = butlast bs @ [(m, f)]"
    using append_butlast_last_id [of bs] assms(1) last by (simp add: heap_ok_def)
  have "heap_ok s (butlast bs @ [(m, f)])" using assms(1) bs by simp
  note hb = heap_ok_block [OF this]
  have e: "heap_end bs = ?l + 24 + m" by (subst bs) simp
  have z: "heap_end bs + n \<le> 2 ^ 64" "?l + 24 \<le> heap_end bs + n" using assms(5) e by simp_all
  have vt: "vm_ok t (heap_words HEAP_BASE (heap_end bs + n))" using assms(2) by (simp add: grown_def)
  obtain u where u: "set_block_next (of_nat ?l) (of_nat (heap_end bs)) t = Some u"
      "stores HEAP_BASE (heap_end bs + n) t u {?l + 16}" "block_next (of_nat ?l) u = Some (of_nat (heap_end bs))"
    using set_block_next_spec [OF vt z(1) hb(2) z(2) hb(5)] by blast
  have same: "vread (of_nat y) t = vread (of_nat y) s" if "HEAP_BASE \<le> y" "y < heap_end bs" "8 dvd y" for y
  proof -
    have "(of_nat y :: u64) \<in> heap_words HEAP_BASE (heap_end bs)"
      using that assms(5) by (subst heap_words_mem) simp_all
    then show ?thesis using assms(2) by (simp add: grown_def)
  qed
  have "heap_seg s HEAP_BASE bs NULL" using assms(1) by (simp add: heap_ok_def)
  then have "heap_seg t HEAP_BASE bs NULL"
    using heap_seg_cong [of HEAP_BASE bs t s NULL] same by simp
  then have seg: "heap_seg t HEAP_BASE (butlast bs) (of_nat ?l)" "heap_seg t ?l [(m, f)] NULL"
    by (subst (asm) bs, simp add: heap_seg_append)+
  have new: "heap_seg t (heap_end bs) [(n - 24, False)] NULL" using assms(2) by (simp add: grown_def)
  have "heap_seg u HEAP_BASE (butlast bs) (of_nat ?l)"
    using stores_seg [OF u(2), of HEAP_BASE "butlast bs"] seg(1) e by auto
  moreover have "heap_seg u ?l [(m, f)] (of_nat (heap_end bs))"
    using seg(2) block_fields_stores(1,2) [OF u(2) hb(2) z(2) hb(5)] u(3) by simp
  moreover have "8 dvd heap_end bs" using hb(5,6) by (simp add: e)
  then have "heap_seg u (heap_end bs) [(n - 24, False)] NULL"
    using stores_seg [OF u(2), of "heap_end bs" "[(n - 24, False)]"] new assms(3) hb(2) e by auto
  ultimately have "heap_seg u HEAP_BASE (butlast bs @ [(m, f)] @ [(n - 24, False)]) NULL"
    unfolding heap_seg_append by (simp add: e)
  then have "heap_seg u HEAP_BASE (bs @ [(n - 24, False)]) NULL" using bs by (metis append.assoc)
  moreover have "free_list u = HEAP_START"
    using stores_kheap(1) [OF u(2)] assms(1,2) by (simp add: grown_def heap_ok_def)
  ultimately have "heap_ok u (bs @ [(n - 24, False)])"
    using storesD(1) [OF u(2)] assms(3,5) by (simp add: heap_ok_def)
  then show ?thesis using that u(1,2) by blast
qed

text \<open>\<open>kmalloc\<close> when no block fits.\<close>

lemma kmalloc_nofit:
  assumes "heap_ok s bs" "sz \<noteq> 0" "first_fit (unat (align16 sz)) bs = None"
  shows "kmalloc sz s = do {
      (new_block, t) \<leftarrow> request_more_memory (align16 sz) s;
      if new_block = NULL then Some (NULL, kerror ''Out of memory'' t)
      else do {
        t \<leftarrow> set_block_next (of_nat (heap_end (butlast bs))) (new_block - sizeof_block_header) t;
        Some (new_block, t)
      }
    }"
proof -
  have "heap_search (of_nat (unat (align16 sz))) (of_nat HEAP_BASE) s =
      Some (of_nat (heap_end (butlast bs)), False)"
    using heap_search_spec [of s HEAP_BASE bs "unat (align16 sz)"] assms(1,3)
      unsigned_less [of "align16 sz", where ?'a = nat]
    by (simp add: heap_ok_def)
  then show ?thesis using assms(1,2) by (simp add: kmalloc_unfold heap_ok_def)
qed

section \<open>What a caller sees\<close>

text \<open>The addresses inside blocks in use.\<close>

fun live :: "nat \<Rightarrow> block list \<Rightarrow> nat \<Rightarrow> bool" where
  "live a [] y \<longleftrightarrow> False"
| "live a ((n, f) # bs) y \<longleftrightarrow> \<not> f \<and> a + 24 \<le> y \<and> y < a + 24 + n \<or> live (a + 24 + n) bs y"

lemma live_append: "live a (xs @ ys) y \<longleftrightarrow> live a xs y \<or> live (blocks_end a xs) ys y"
  by (induction xs arbitrary: a) auto

lemma live_bounds: "live a bs y \<Longrightarrow> a \<le> y \<and> y < blocks_end a bs"
proof (induction bs arbitrary: a)
  case (Cons b bs)
  obtain n f where "b = (n, f)" by (cases b)
  then show ?case using Cons.prems Cons.IH [of "a + 24 + n"] blocks_end_ge [of "a + 24 + n" bs] by auto
qed simp

lemma live_not_header: "live a bs y \<Longrightarrow> y \<notin> header_words a bs"
proof (induction bs arbitrary: a)
  case (Cons b bs)
  obtain n f where b: "b = (n, f)" by (cases b)
  show ?case
    using Cons.prems Cons.IH [of "a + 24 + n"] live_bounds [of "a + 24 + n" bs y]
      header_words_ge [of y "a + 24 + n" bs] by (auto simp: b)
qed simp

lemma live_other_block:
  assumes "live HEAP_BASE (xs @ (m, True) # ys) y"
  shows "y \<notin> {heap_end xs..<heap_end xs + 24 + m}"
  using assms live_bounds [of HEAP_BASE xs y] live_bounds [of "heap_end xs + 24 + m" ys y]
  by (auto simp: live_append)

text \<open>The contents of the blocks in use survive.\<close>

definition keeps :: "block list \<Rightarrow> 'a vmm_state_scheme \<Rightarrow> 'a vmm_state_scheme \<Rightarrow> bool" where
  "keeps bs s t \<longleftrightarrow>
     (\<forall>y. live HEAP_BASE bs y \<longrightarrow> 8 dvd y \<longrightarrow> vread (of_nat y) t = vread (of_nat y) s)"

lemma keeps_stores:
  assumes "stores HEAP_BASE z s t X" "heap_end bs \<le> z" "\<And>y. live HEAP_BASE bs y \<Longrightarrow> y \<notin> X"
  shows "keeps bs s t"
  unfolding keeps_def
proof (intro allI impI)
  fix y assume y: "live HEAP_BASE bs y" "8 dvd y"
  then show "vread (of_nat y) t = vread (of_nat y) s"
    using storesD(3) [OF assms(1) _ _ y(2)] live_bounds [OF y(1)] assms(2) assms(3) [OF y(1)] by simp
qed

lemma keeps_trans: "keeps bs s t \<Longrightarrow> keeps bs t u \<Longrightarrow> keeps bs s u"
  by (simp add: keeps_def)

lemma live_heap_word:
  "live HEAP_BASE bs y \<Longrightarrow> 8 dvd y \<Longrightarrow> heap_end bs < 2 ^ 64 \<Longrightarrow>
     (of_nat y :: u64) \<in> heap_words HEAP_BASE (heap_end bs)"
  using live_bounds [of HEAP_BASE bs y] by (subst heap_words_mem) auto

lemma keeps_words:
  assumes "heap_end bs < 2 ^ 64" "\<forall>w \<in> heap_words HEAP_BASE (heap_end bs). vread w t = vread w s"
  shows "keeps bs s t"
  unfolding keeps_def using assms live_heap_word by blast

lemma last_header: "bs \<noteq> [] \<Longrightarrow> heap_end (butlast bs) + 16 \<in> header_words HEAP_BASE bs"
proof -
  assume "bs \<noteq> []"
  moreover obtain m f where "last bs = (m, f)" by (cases "last bs")
  ultimately have "bs = butlast bs @ [(m, f)]" using append_butlast_last_id [of bs] by simp
  then have "header_words HEAP_BASE bs = header_words HEAP_BASE (butlast bs @ [(m, f)])" by simp
  then show ?thesis by (simp add: header_words_append)
qed

lemma heap_pages_bound: "heap_end bs + 4096 * heap_pages x < 2 ^ 64 \<Longrightarrow> unat x + 24 + 4095 < 2 ^ 64"
  using blocks_end_ge [of HEAP_BASE bs] unfolding heap_pages_def
  by (simp add: HEAP_BASE_def HEAP_START_def)

lemma heap_ok_refused:
  assumes "heap_ok s bs" "refused HEAP_BASE (heap_end bs) s t"
  shows "heap_ok t bs"
proof -
  have "vread (of_nat y) t = vread (of_nat y) s" if "HEAP_BASE \<le> y" "y < heap_end bs" "8 dvd y" for y
    using assms that heap_words_mem [of "heap_end bs" y HEAP_BASE] by (simp add: refused_def heap_ok_def)
  then have "heap_seg t HEAP_BASE bs NULL = heap_seg s HEAP_BASE bs NULL"
    by (intro heap_seg_cong) simp_all
  then show ?thesis using assms by (simp add: heap_ok_def refused_def)
qed

lemma heap_ok_view:
  assumes "heap_ok s bs" "vm_view t = vm_view s" "free_list t = free_list s"
  shows "heap_ok t bs"
proof -
  have "heap_seg t HEAP_BASE bs NULL = heap_seg s HEAP_BASE bs NULL"
    by (intro heap_seg_cong) (simp_all add: vm_view_cong [OF assms(2)])
  then show ?thesis using assms(1,3) by (simp add: heap_ok_def vm_view_cong [OF assms(2)])
qed

lemma kmalloc_grow_spec:
  assumes "heap_full_ok s bs" "sz \<noteq> 0" "first_fit (unat (align16 sz)) bs = None"
    "heap_end bs + 4096 * heap_pages (align16 sz) < 2 ^ 64" "kmalloc sz s = Some (p, t)"
  shows "p = NULL \<and> heap_full_ok t bs \<and> keeps bs s t \<or>
    p = of_nat (heap_end bs + 24) \<and> keeps bs s t \<and>
    heap_full_ok t (bs @ [(4096 * heap_pages (align16 sz) - 24, False)])"
proof -
  let ?n = "4096 * heap_pages (align16 sz)"
  have ok: "heap_ok s bs" and cur: "heap_current s = of_nat (heap_end bs)" and al: "4096 dvd heap_end bs"
    using assms(1) by (simp_all add: heap_full_ok_def)
  have vm: "vm_ok s (heap_words HEAP_BASE (heap_end bs))" using ok by (simp add: heap_ok_def)
  have kh: "KERNEL_HALF \<le> of_nat (heap_end bs)"
    using KERNEL_HALF_heap [OF blocks_end_ge] assms(4) by simp
  obtain q r where q: "request_more_memory (align16 sz) s = Some (q, r)"
    using assms(5) kmalloc_nofit [OF ok assms(2,3)] by (auto simp: bind_eq_Some_conv)
  note req = request_more_memory_spec [OF q heap_pages_bound [OF assms(4)] cur vm blocks_end_ge al kh assms(4)]
  have n: "24 \<le> ?n" by (simp add: heap_pages_def)
  have nz: "(of_nat (heap_end bs + 24) :: u64) \<noteq> NULL" using assms(4) n by (intro block_nonnull) linarith+
  show ?thesis
  proof (cases "q = NULL")
    case True
    then have rf: "refused HEAP_BASE (heap_end bs) s r" using req nz by auto
    have pt: "p = NULL" "t = kerror ''Out of memory'' r"
      using assms(5) kmalloc_nofit [OF ok assms(2,3)] q True by simp_all
    have fl: "free_list t = free_list r" "heap_current t = heap_current r"
      by (simp_all add: pt console_defs)
    have "heap_ok t bs"
      by (rule heap_ok_view [OF heap_ok_refused [OF ok rf]]) (simp_all add: pt fl [unfolded pt])
    moreover have "heap_current t = heap_current s" using fl(2) rf by (simp add: refused_def)
    moreover have "keeps bs s t"
      using keeps_words [of bs r s] rf ok vm_view_cong(1) [of t r]
      by (simp add: pt refused_def heap_ok_def keeps_def)
    ultimately show ?thesis using pt(1) cur al by (simp add: heap_full_ok_def)
  next
    case False
    then have g: "q = of_nat (heap_end bs + 24)" "grown HEAP_BASE (heap_end bs) ?n s r" using req by auto
    have "8 dvd ?n" by simp
    then obtain u where u: "set_block_next (of_nat (heap_end (butlast bs))) (of_nat (heap_end bs)) r = Some u"
        "heap_ok u (bs @ [(?n - 24, False)])"
        "stores HEAP_BASE (heap_end bs + ?n) r u {heap_end (butlast bs) + 16}"
      using heap_ok_link [OF ok g(2) n _ assms(4)] by blast
    have ptr: "of_nat (heap_end bs + 24) - sizeof_block_header = (of_nat (heap_end bs) :: u64)"
      by (simp add: of_nat_add sizeof_block_header_def)
    have pt: "p = of_nat (heap_end bs + 24)" "t = u"
      using assms(5) kmalloc_nofit [OF ok assms(2,3)] q g(1) nz u(1) ptr by simp_all
    have k1: "keeps bs s r"
      by (rule keeps_words) (use g(2) ok in \<open>simp_all add: grown_def heap_ok_def\<close>)
    have "heap_end (butlast bs) + 16 \<in> header_words HEAP_BASE bs"
      using last_header ok by (simp add: heap_ok_def)
    then have k2: "keeps bs r u" by (intro keeps_stores [OF u(3)]) (use live_not_header in auto)
    have cu: "heap_current u = of_nat (heap_end bs + ?n)"
      using stores_kheap(2) [OF u(3)] g(2) by (simp add: grown_def)
    have "heap_end (bs @ [(?n - 24, False)]) = heap_end bs + ?n" using n by simp
    moreover have "4096 dvd heap_end bs + ?n" using al by simp
    ultimately have "heap_full_ok t (bs @ [(?n - 24, False)])"
      using u(2) cu by (simp only: pt heap_full_ok_def)
    then show ?thesis using pt keeps_trans [OF k1 k2] by blast
  qed
qed

end
