(* ===== verification/Kheap_Correct.thy ===== *)
theory Kheap_Correct
  imports Kheap_Blocks
begin

text \<open>
  The contract of the kernel heap: initialisation, first-fit allocation, release with merging,
  growth, and two situations in which the code breaks its contract.
\<close>

section \<open>Initialisation\<close>

lemma pmm_alloc_kprint: "pmm_alloc_page (kprint m s) = apsnd (kprint m) (pmm_alloc_page s)"
  by (simp add: pmm_alloc_page_def console_defs page_addr_def split: option.splits)

lemma init_kheap_spec:
  assumes "vm_ok s {}" "4 \<le> card (pmm_avail s)"
  obtains t where "init_kheap s = Some (4072, t)" "heap_ok t [(4072, True)]"
    "heap_current t = HEAP_START" "card (pmm_avail s) \<le> card (pmm_avail t) + 4"
    "pmm_avail t \<subseteq> pmm_avail s"
proof -
  define s0 where "s0 = kprint ''Kheap...'' (s\<lparr>heap_current := HEAP_START\<rparr>)"
  have view: "vm_view s0 = vm_view s" by (simp add: s0_def)
  have ok: "vm_ok s0 {}" "pmm_avail s0 = pmm_avail s" "pmm_wf s0"
    using vm_view_cong [OF view] assms(1) by (simp_all add: vm_ok_def)
  obtain p s1 where p: "pmm_alloc_page s0 = (p, s1)" by (cases "pmm_alloc_page s0")
  have ne: "pmm_avail s0 \<noteq> {}" using ok(2) assms(2) by auto
  note al = pmm_alloc_some [OF ok(3) ne p]
  have wf1: "pmm_wf s1" using pmm_wf_alloc [OF ok(3)] p by simp
  have card1: "card (pmm_avail s1) = card (pmm_avail s) - 1"
    using al(1,3) ok(2) by (simp add: pmm.finite_avail)
  then have "(card (pmm_avail s) - 4) + 3 \<le> card (pmm_avail s1)" using assms(2) by simp
  then obtain s2 where m: "vmm_map HEAP_START p (VMM_PRESENT OR VMM_WRITE) s1 = Some s2"
      "card (pmm_avail s) - 4 \<le> card (pmm_avail s2)"
    using vmm_map_total [OF wf1] by metis
  have hw: "heap_words HEAP_BASE (HEAP_BASE + 4096) = page_qwords HEAP_START"
    using heap_words_page(1) [of HEAP_BASE HEAP_BASE]
      KERNEL_HALF_heap [of HEAP_BASE]
    by (simp add: HEAP_BASE_def) (simp add: HEAP_START_def)
  note mp = vm_ok_map_page [OF ok(1) p al(2) map_flags m(1)]
  have more: "heap_current s2 = HEAP_START" using vmm_more_kheap(2) [OF mp(3)] by (simp add: s0_def console_defs)
  define s3 where "s3 = s2\<lparr>free_list := HEAP_START\<rparr>"
  have v3: "vm_view s3 = vm_view s2" by (simp add: s3_def)
  have "vm_ok s3 (heap_words HEAP_BASE (HEAP_BASE + 4096))"
    using mp(1) vm_view_cong(2) [OF v3] hw by simp
  then obtain t u v where tuv: "set_block_size (of_nat HEAP_BASE) (of_nat (4096 - 24)) s3 = Some t"
      "set_block_free (of_nat HEAP_BASE) 1 t = Some u" "set_block_next (of_nat HEAP_BASE) NULL u = Some v"
      "stores HEAP_BASE (HEAP_BASE + 4096) s3 v {HEAP_BASE, HEAP_BASE + 8, HEAP_BASE + 16}"
      "heap_seg v HEAP_BASE [(4096 - 24, True)] NULL"
    using new_block_header [of s3 HEAP_BASE HEAP_BASE 4096 1] by (auto simp: HEAP_BASE_def HEAP_START_def)
  have fl: "free_list v = HEAP_START" "heap_current v = HEAP_START"
    using stores_kheap [OF tuv(4)] more by (simp_all add: s3_def)
  have ft: "free_list t = HEAP_START" "free_list u = HEAP_START" "free_list s3 = HEAP_START"
    using set_block_kheap(1) [OF tuv(1)] set_block_kheap(2) [OF tuv(2)] by (simp_all add: s3_def)
  have okv: "heap_ok v [(4072, True)]"
    using tuv(5) storesD(1) [OF tuv(4)] fl(1) by (simp add: heap_ok_def HEAP_BASE_def HEAP_START_def)
  have bs: "block_size HEAP_START (kok v) = Some 4072"
    using heap_ok_block(7) [of "kok v" "[]" 4072 True "[]"] heap_ok_view [OF okv, of "kok v"]
    by (simp add: console_defs vm_view_def)
  have al0: "pmm_alloc_page (s\<lparr>heap_current := HEAP_START\<rparr>) = (p, s1') \<Longrightarrow> kprint ''Kheap...'' s1' = s1" for s1'
    using p by (simp add: s0_def pmm_alloc_kprint)
  obtain s1' where s1': "pmm_alloc_page (s\<lparr>heap_current := HEAP_START\<rparr>) = (p, s1')"
    using p by (cases "pmm_alloc_page (s\<lparr>heap_current := HEAP_START\<rparr>)") (auto simp: s0_def pmm_alloc_kprint)
  have h1: "heap_current s1 = HEAP_START"
    using vmm_more_kheap(2) [OF pmm_alloc_more(5) [OF p]] by (simp add: s0_def console_defs)
  have "init_kheap s = Some (4072, kok v)"
    using s1' al0 [OF s1'] al(2) h1 m(1) more tuv(1-3) ft fl bs
    by (simp add: init_kheap_def Let_def s3_def [symmetric] PAGE_SIZE_VMM_def sizeof_block_header_def)
      (simp add: console_defs)
  moreover have "heap_ok (kok v) [(4072, True)]"
    by (rule heap_ok_view [OF okv]) (simp_all add: console_defs vm_view_def)
  moreover have "heap_current (kok v) = HEAP_START" using fl(2) by (simp add: console_defs)
  moreover have "pmm_avail (kok v) = pmm_avail s2"
    using vm_view_cong(3) [of "kok v" v] stores_avail [OF tuv(4)] vm_view_cong(3) [OF v3] by simp
  ultimately show ?thesis using that [of "kok v"] m(2) mp(4) ok(2) by simp
qed

text \<open>C9: \<open>init_kheap\<close> maps the first heap page and returns the size of the single free block
  that fills it; it completes whenever four physical pages are free.\<close>

theorem init_kheap_correct:
  assumes "vm_ok s {}" "4 \<le> card (pmm_avail s)"
  shows "\<exists>t. init_kheap s = Some (4072, t) \<and> heap_ok t [(4072, True)] \<and> heap_current t = HEAP_START \<and>
    card (pmm_avail s) \<le> card (pmm_avail t) + 4"
  using init_kheap_spec [OF assms] by blast

definition kheap_example :: kheap_state where
  "kheap_example = vmm_state.extend vmm_example \<lparr>heap_current = 0, free_list = 0\<rparr>"

lemma kheap_example_view: "vm_view kheap_example = vm_view vmm_example"
  by (simp add: kheap_example_def vmm_state.defs kheap_state.defs vmm_example_def vm_view_def)

lemma vmm_example_free: "card (pmm_avail vmm_example) = 14"
proof -
  let ?I = "{i. i < total_pages vmm_example \<and> \<not> BIT_TEST (pmm_bitmap vmm_example) i}"
  have "?I = set (filter (\<lambda>i. \<not> BIT_TEST (pmm_bitmap vmm_example) i) [0..<16])"
    by (auto simp: vmm_example_def)
  also have "\<dots> = set [2..<16]"
    by (simp add: vmm_example_def upt_rec BIT_TEST_def del: set_upt) (simp add: numeral_eq_Suc)
  finally have I: "?I = {2..<16}" by (simp only: set_upt)
  have "inj_on (page_addr vmm_example) ?I"
    using page_addr_inj [OF vmm_example_pages(1)] by (auto simp: inj_on_def)
  then have "card (page_addr vmm_example ` ?I) = card ?I" by (rule card_image)
  then show ?thesis by (simp add: pmm_avail_def I)
qed

lemma vm_ok_empty: "vmm_wf s \<Longrightarrow> cr3 s = current_pml4 s \<Longrightarrow> vm_ok s {}"
  by (auto simp: vm_ok_def vmm_wf_def backed_def)

lemma kheap_example_ok: "vm_ok kheap_example {}" "card (pmm_avail kheap_example) = 14"
proof -
  have "vm_ok vmm_example {}"
    by (rule vm_ok_empty [OF vmm_example_wf]) (simp add: vmm_example_def)
  then show "vm_ok kheap_example {}" "card (pmm_avail kheap_example) = 14"
    using vm_view_cong(2,3) [OF kheap_example_view] vmm_example_free by simp_all
qed

theorem init_kheap_correct_witness:
  "\<exists>t. init_kheap kheap_example = Some (4072, t) \<and> heap_ok t [(4072, True)]"
  using init_kheap_correct [of kheap_example] kheap_example_ok by auto

section \<open>Allocation and release\<close>

lemma kmalloc_keeps:
  assumes "heap_ok s bs" "sz \<noteq> 0" "first_fit (unat (align16 sz)) bs = Some (xs, m, ys)"
  obtains t where "kmalloc sz s = Some (of_nat (heap_end xs + 24), t)"
    "heap_ok t (xs @ carve (unat (align16 sz)) m @ ys)" "keeps bs s t"
proof -
  have bs: "bs = xs @ (m, True) # ys" using first_fit_Some [OF assms(3)] by auto
  obtain t where t: "kmalloc sz s = Some (of_nat (heap_end xs + 24), t)"
      "heap_ok t (xs @ carve (unat (align16 sz)) m @ ys)"
      "stores HEAP_BASE (heap_end bs) s t {heap_end xs..<heap_end xs + 24 + m}"
    using kmalloc_fit [OF assms] by blast
  have "keeps bs s t" by (rule keeps_stores [OF t(3)]) (use live_other_block bs in auto)
  then show ?thesis using that t(1,2) by blast
qed

lemma kfree_keeps:
  assumes "heap_ok s (xs @ (m, f) # ys)"
  obtains t where "kfree (of_nat (heap_end xs + 24)) s = Some t"
    "heap_ok t (coalesce (xs @ (m, True) # ys))" "keeps (xs @ (m, True) # ys) s t"
proof -
  obtain t where t: "kfree (of_nat (heap_end xs + 24)) s = Some t"
      "heap_ok t (coalesce (xs @ (m, True) # ys))"
      "stores HEAP_BASE (heap_end (xs @ (m, f) # ys)) s t (header_words HEAP_BASE (xs @ (m, f) # ys))"
    by (rule kfree_spec [OF assms])
  have "keeps (xs @ (m, True) # ys) s t"
  proof (rule keeps_stores [OF t(3)])
    fix y assume "live HEAP_BASE (xs @ (m, True) # ys) y"
    then show "y \<notin> header_words HEAP_BASE (xs @ (m, f) # ys)"
      using live_not_header [of HEAP_BASE "xs @ (m, True) # ys" y] by (simp add: header_words_append)
  qed simp
  then show ?thesis using that t(1,2) by blast
qed

text \<open>C4: when some free block of the list is large enough, \<open>kmalloc\<close> takes the first such block,
  splits off what is not needed, and returns the block's payload; the payload holds the rounded
  request, overlaps no block in use, and the contents of all blocks in use survive.\<close>

theorem kmalloc_first_fit:
  assumes "heap_ok s bs" "sz \<noteq> 0" "first_fit (unat (align16 sz)) bs = Some (xs, m, ys)"
  shows "\<exists>t. kmalloc sz s = Some (of_nat (heap_end xs + 24), t) \<and>
    heap_ok t (xs @ carve (unat (align16 sz)) m @ ys) \<and> keeps bs s t \<and>
    (\<forall>y. live HEAP_BASE bs y \<longrightarrow> y \<notin> {heap_end xs + 24..<heap_end xs + 24 + unat (align16 sz)})"
proof -
  have bs: "bs = xs @ (m, True) # ys" "unat (align16 sz) \<le> m" using first_fit_Some [OF assms(3)] by auto
  obtain t where t: "kmalloc sz s = Some (of_nat (heap_end xs + 24), t)"
      "heap_ok t (xs @ carve (unat (align16 sz)) m @ ys)" "keeps bs s t"
    by (rule kmalloc_keeps [OF assms])
  have "y \<notin> {heap_end xs + 24..<heap_end xs + 24 + unat (align16 sz)}"
    if "live HEAP_BASE bs y" for y
    using live_other_block [of xs m ys y] that bs by auto
  then show ?thesis using t by blast
qed

text \<open>C13: \<open>kfree\<close> of a block of the list marks it free and merges every run of adjacent free
  blocks; it always returns, and the contents of the remaining blocks in use survive.\<close>

theorem kfree_merges:
  assumes "heap_ok s (xs @ (m, f) # ys)"
  shows "\<exists>t. kfree (of_nat (heap_end xs + 24)) s = Some t \<and>
    heap_ok t (coalesce (xs @ (m, True) # ys)) \<and> keeps (xs @ (m, True) # ys) s t"
  using kfree_keeps [OF assms] by metis

lemma example_first_kmalloc:
  shows "first_fit (unat (align16 100)) [(4072, True)] = Some ([], 4072, [])"
    "xs @ carve (unat (align16 100)) 4072 @ ys = xs @ [(112, False), (3936, True)] @ ys"
  by (simp_all add: align16_def carve_def)

theorem kmalloc_first_fit_witness:
  "\<exists>t u. init_kheap kheap_example = Some (4072, t) \<and> kmalloc 100 t = Some (0xFFFF800010000018, u) \<and>
     heap_ok u [(112, False), (3936, True)]"
proof -
  obtain t where t: "init_kheap kheap_example = Some (4072, t)" "heap_ok t [(4072, True)]"
    using init_kheap_spec [of kheap_example] kheap_example_ok by auto
  have "(of_nat (heap_end [] + 24) :: u64) = 0xFFFF800010000018" by (simp add: of_nat_add HEAP_START_def)
  then show ?thesis
    using t(1) kmalloc_first_fit [OF t(2), of 100] example_first_kmalloc by auto
qed

theorem kfree_merges_witness:
  "\<exists>t u v. init_kheap kheap_example = Some (4072, t) \<and> kmalloc 100 t = Some (0xFFFF800010000018, u) \<and>
     kfree 0xFFFF800010000018 u = Some v \<and> heap_ok v [(4072, True)]"
proof -
  obtain t where t: "init_kheap kheap_example = Some (4072, t)" "heap_ok t [(4072, True)]"
    using init_kheap_spec [of kheap_example] kheap_example_ok by auto
  note fit = example_first_kmalloc
  obtain u where u: "kmalloc 100 t = Some (of_nat (heap_end [] + 24), u)"
      "heap_ok u ([] @ carve (unat (align16 100)) 4072 @ [])"
    using kmalloc_fit [OF t(2) _ fit(1)] by auto
  have "heap_ok u ([] @ (112, False) # [(3936, True)])" using u(2) fit(2) [of "[]" "[]"] by simp
  from kfree_merges [OF this] obtain v where
      "kfree (of_nat (heap_end [] + 24)) u = Some v" "heap_ok v [(4072, True)]" by auto
  moreover have "(of_nat (heap_end [] + 24) :: u64) = 0xFFFF800010000018"
    by (simp add: of_nat_add HEAP_START_def)
  ultimately show ?thesis using t(1) u(1) by auto
qed

lemma coalesce_merge:
  "coalesce (xs @ (a, True) # (b, True) # ys) = coalesce (xs @ (a + 24 + b, True) # ys)"
proof (induction xs rule: coalesce.induct)
  case (2 x)
  then show ?case by (cases x) (simp add: add.assoc)
qed auto

section \<open>Growth\<close>

lemma kmalloc_grow_total:
  assumes "heap_full_ok s bs" "sz \<noteq> 0" "first_fit (unat (align16 sz)) bs = None"
    "heap_end bs + 4096 * heap_pages (align16 sz) < 2 ^ 64"
    "4 * heap_pages (align16 sz) \<le> card (pmm_avail s)"
  shows "\<exists>t. kmalloc sz s = Some (of_nat (heap_end bs + 24), t) \<and> keeps bs s t \<and>
    heap_full_ok t (bs @ [(4096 * heap_pages (align16 sz) - 24, False)]) \<and>
    unat (align16 sz) \<le> 4096 * heap_pages (align16 sz) - 24"
proof -
  let ?n = "4096 * heap_pages (align16 sz)"
  have ok: "heap_ok s bs" "heap_current s = of_nat (heap_end bs)" "4096 dvd heap_end bs"
    using assms(1) by (simp_all add: heap_full_ok_def)
  have vm: "vm_ok s (heap_words HEAP_BASE (heap_end bs))" using ok(1) by (simp add: heap_ok_def)
  have kh: "KERNEL_HALF \<le> of_nat (heap_end bs)" using KERNEL_HALF_heap [OF blocks_end_ge] assms(4) by simp
  obtain r where r: "request_more_memory (align16 sz) s = Some (of_nat (heap_end bs + 24), r)"
      "grown HEAP_BASE (heap_end bs) ?n s r"
    by (rule request_more_memory_total [OF heap_pages_bound [OF assms(4)] assms(5) ok(2) vm blocks_end_ge
          ok(3) kh assms(4)])
  have n: "24 \<le> ?n" "unat (align16 sz) \<le> ?n - 24" "8 dvd ?n" unfolding heap_pages_def by linarith+ simp
  have nz: "(of_nat (heap_end bs + 24) :: u64) \<noteq> NULL" using assms(4) n(1) by (intro block_nonnull) linarith+
  obtain u where "set_block_next (of_nat (heap_end (butlast bs))) (of_nat (heap_end bs)) r = Some u"
    using heap_ok_link [OF ok(1) r(2) n(1,3) assms(4)] by blast
  moreover have "of_nat (heap_end bs + 24) - sizeof_block_header = (of_nat (heap_end bs) :: u64)"
    by (simp add: of_nat_add sizeof_block_header_def)
  ultimately have k: "kmalloc sz s = Some (of_nat (heap_end bs + 24), u)"
    using kmalloc_nofit [OF ok(1) assms(2,3)] r(1) nz by simp
  then show ?thesis using kmalloc_grow_spec [OF assms(1-4) k] nz n(2) by blast
qed




section \<open>The first growth\<close>

text \<open>
  \<open>init_kheap\<close> leaves \<open>heap_current\<close> at \<open>HEAP_START\<close>, the page it has just mapped, so the first
  growth maps that page again, to other frames.
\<close>

lemma first_growth_pages:
  assumes "heap_ok s bs" "heap_current s = HEAP_START" "sz \<noteq> 0"
    "first_fit (unat (align16 sz)) bs = None" "heap_end bs \<le> HEAP_BASE + 4096"
    "HEAP_BASE + 4096 * heap_pages (align16 sz) < 2 ^ 64"
    "n + 4 * heap_pages (align16 sz) \<le> card (pmm_avail s)"
  obtains r t where "grown HEAP_BASE HEAP_BASE (4096 * heap_pages (align16 sz)) s r"
    "kmalloc sz s = Some (HEAP_START + 24, t)"
    "stores HEAP_BASE (HEAP_BASE + 4096 * heap_pages (align16 sz)) r t {heap_end (butlast bs) + 16}"
    "block_next (of_nat (heap_end (butlast bs))) t = Some HEAP_START" "n \<le> card (pmm_avail t)"
proof -
  let ?n = "4096 * heap_pages (align16 sz)" and ?l = "heap_end (butlast bs)"
  have vm: "vm_ok s (heap_words HEAP_BASE HEAP_BASE)"
    by (rule vm_ok_mono [of s "heap_words HEAP_BASE (heap_end bs)"]) (use assms(1) in \<open>simp_all add: heap_ok_def\<close>)
  have kh: "KERNEL_HALF \<le> of_nat HEAP_BASE" by (simp add: KERNEL_HALF_def HEAP_START_def)
  have al: "4096 dvd HEAP_BASE" by (simp add: HEAP_BASE_def HEAP_START_def)
  have cur: "heap_current s = of_nat HEAP_BASE" using assms(2) by simp
  obtain r where r: "request_more_memory (align16 sz) s = Some (of_nat (HEAP_BASE + 24), r)"
      "grown HEAP_BASE HEAP_BASE ?n s r" "n \<le> card (pmm_avail r)"
    using request_more_memory_pages [OF heap_pages_bound [of "[]"] assms(7) cur vm order_refl al kh assms(6)]
      assms(6) by auto
  obtain m f where "last bs = (m, f)" by (cases "last bs")
  then have bs: "bs = butlast bs @ [(m, f)]"
    using append_butlast_last_id [of bs] assms(1) by (simp add: heap_ok_def)
  have "heap_ok s (butlast bs @ [(m, f)])" using assms(1) bs by simp
  note hb = heap_ok_block [OF this]
  have n: "4096 \<le> ?n" by (simp add: heap_pages_def)
  have e: "?l + 24 \<le> HEAP_BASE + ?n" "HEAP_BASE + ?n \<le> 2 ^ 64"
    using hb(3) assms(5,6) n bs by simp_all
  have vr: "vm_ok r (heap_words HEAP_BASE (HEAP_BASE + ?n))" using r(2) by (simp add: grown_def)
  obtain t where t: "set_block_next (of_nat ?l) HEAP_START r = Some t"
      "stores HEAP_BASE (HEAP_BASE + ?n) r t {?l + 16}" "block_next (of_nat ?l) t = Some HEAP_START"
    using set_block_next_spec [OF vr e(2) hb(2) e(1) hb(5)] by blast
  have "(of_nat (HEAP_BASE + 24) :: u64) = HEAP_START + 24" by (simp add: of_nat_add)
  moreover have "HEAP_START + 24 \<noteq> NULL" "HEAP_START + 24 - sizeof_block_header = HEAP_START"
    by (simp_all add: HEAP_START_def sizeof_block_header_def)
  ultimately have "kmalloc sz s = Some (HEAP_START + 24, t)"
    using kmalloc_nofit [OF assms(1,3,4)] r(1) t(1) by simp
  moreover have "n \<le> card (pmm_avail t)" using stores_avail [OF t(2)] r(3) by simp
  ultimately show ?thesis using that r(2) t(2,3) by blast
qed

lemma first_growth:
  assumes "heap_ok s bs" "heap_current s = HEAP_START" "sz \<noteq> 0"
    "first_fit (unat (align16 sz)) bs = None" "heap_end bs \<le> HEAP_BASE + 4096"
    "HEAP_BASE + 4096 * heap_pages (align16 sz) < 2 ^ 64"
    "4 * heap_pages (align16 sz) \<le> card (pmm_avail s)"
  obtains r t where "grown HEAP_BASE HEAP_BASE (4096 * heap_pages (align16 sz)) s r"
    "kmalloc sz s = Some (HEAP_START + 24, t)"
    "stores HEAP_BASE (HEAP_BASE + 4096 * heap_pages (align16 sz)) r t {heap_end (butlast bs) + 16}"
    "block_next (of_nat (heap_end (butlast bs))) t = Some HEAP_START"
  by (rule first_growth_pages [OF assms(1-6), of 0]) (use assms(7) that in simp_all)

text \<open>The first \<open>kmalloc\<close> that does not fit into the initial page returns the payload of the
  first block, whether or not it is in use, and the whole former block list is forgotten: the heap
  consists of the new block only (the list had at least two blocks).\<close>

lemma kmalloc_first_growth_forgets:
  assumes "heap_ok s bs" "heap_current s = HEAP_START" "heap_end bs \<le> HEAP_BASE + 4096"
    "2 \<le> length bs" "sz \<noteq> 0" "first_fit (unat (align16 sz)) bs = None"
    "HEAP_BASE + 4096 * heap_pages (align16 sz) < 2 ^ 64"
    "n + 4 * heap_pages (align16 sz) \<le> card (pmm_avail s)"
  shows "\<exists>t. kmalloc sz s = Some (HEAP_START + 24, t) \<and>
    heap_full_ok t [(4096 * heap_pages (align16 sz) - 24, False)] \<and> n \<le> card (pmm_avail t)"
proof -
  let ?n = "4096 * heap_pages (align16 sz)" and ?l = "heap_end (butlast bs)"
  obtain r t where rt: "grown HEAP_BASE HEAP_BASE ?n s r" "kmalloc sz s = Some (HEAP_START + 24, t)"
      "stores HEAP_BASE (HEAP_BASE + ?n) r t {?l + 16}" "n \<le> card (pmm_avail t)"
    by (rule first_growth_pages [OF assms(1,2,5,6,3,7,8)])
  have n: "4096 \<le> ?n" by (simp add: heap_pages_def)
  have "butlast bs \<noteq> []" using assms(4) by (cases bs) auto
  then obtain k g cs where "butlast bs = (k, g) # cs" by (metis neq_Nil_conv surj_pair)
  then have l: "HEAP_BASE + 24 \<le> ?l" using blocks_end_ge [of "HEAP_BASE + 24 + k" cs] by simp
  have seg: "heap_seg r HEAP_BASE [(?n - 24, False)] NULL" using rt(1) by (simp add: grown_def)
  have "heap_seg t HEAP_BASE [(?n - 24, False)] NULL"
    using seg block_fields_stores [OF rt(3), of HEAP_BASE] l n by simp
  moreover have "free_list t = HEAP_START" "heap_current t = of_nat (HEAP_BASE + ?n)"
    using stores_kheap [OF rt(3)] rt(1) assms(1) by (simp_all add: grown_def heap_ok_def)
  moreover have "heap_end [(?n - 24, False)] = HEAP_BASE + ?n" using n by simp
  moreover have "4096 dvd HEAP_BASE + ?n"
    by (intro dvd_add) (simp_all add: HEAP_BASE_def HEAP_START_def)
  ultimately have "heap_full_ok t [(?n - 24, False)]"
    using storesD(1) [OF rt(3)] assms(7) by (simp only: heap_full_ok_def heap_ok_def) simp
  then show ?thesis using rt(2,4) by blast
qed


lemma heap_search_self_loop:
  assumes "block_free c t = Some False" "block_next c t = Some c" "c \<noteq> NULL"
  shows "heap_search sz c t = None"
proof (rule ccontr)
  assume "heap_search sz c t \<noteq> None"
  then obtain r where "heap_search sz c t = Some r" by auto
  moreover have "heap_search sz c' t' = Some r \<Longrightarrow> c' = c \<and> t' = t \<longrightarrow> False" for c' t'
    by (rule heap_search.raw_induct [where P = "\<lambda>sz c' t' r. c' = c \<and> t' = t \<longrightarrow> False"])
       (fastforce simp: assms)+
  ultimately show False by blast
qed

text \<open>When the list still is the single initial block, the first growth links the block to
  itself, and every later \<open>kmalloc\<close> of a positive size searches forever.\<close>

theorem kmalloc_first_growth_hangs:
  assumes "heap_ok s [b]" "heap_current s = HEAP_START" "heap_end [b] \<le> HEAP_BASE + 4096" "sz \<noteq> 0"
    "first_fit (unat (align16 sz)) [b] = None"
    "HEAP_BASE + 4096 * heap_pages (align16 sz) < 2 ^ 64"
    "4 * heap_pages (align16 sz) \<le> card (pmm_avail s)"
  shows "\<exists>t. kmalloc sz s = Some (HEAP_START + 24, t) \<and> (\<forall>sz'. sz' \<noteq> 0 \<longrightarrow> kmalloc sz' t = None)"
proof -
  let ?n = "4096 * heap_pages (align16 sz)"
  obtain r t where rt: "grown HEAP_BASE HEAP_BASE ?n s r" "kmalloc sz s = Some (HEAP_START + 24, t)"
      "stores HEAP_BASE (HEAP_BASE + ?n) r t {HEAP_BASE + 16}" "block_next HEAP_START t = Some HEAP_START"
    using first_growth [OF assms(1,2,4,5,3,6,7)] by auto
  have n: "4096 \<le> ?n" by (simp add: heap_pages_def)
  have "block_free HEAP_START t = Some False"
    using block_fields_stores(2) [OF rt(3), of HEAP_BASE] n rt(1) by (simp add: grown_def)
  moreover have "HEAP_START \<noteq> NULL" by (simp add: HEAP_START_def)
  ultimately have "heap_search x HEAP_START t = None" for x
    using heap_search_self_loop rt(4) by blast
  moreover have "free_list t = HEAP_START"
    using stores_kheap(1) [OF rt(3)] rt(1) assms(1) by (simp add: grown_def heap_ok_def)
  ultimately have "kmalloc sz' t = None" if "sz' \<noteq> 0" for sz' using that by (simp add: kmalloc_unfold)
  then show ?thesis using rt(2) by blast
qed

theorem kmalloc_first_growth_hangs_witness:
  "\<exists>s p t. init_kheap kheap_example = Some (4072, s) \<and> kmalloc 5000 s = Some (p, t) \<and> kmalloc 16 t = None"
proof -
  obtain s where s: "init_kheap kheap_example = Some (4072, s)" "heap_ok s [(4072, True)]"
      "heap_current s = HEAP_START" "10 \<le> card (pmm_avail s)"
    using init_kheap_spec [of kheap_example] kheap_example_ok by auto
  have a: "align16 5000 = 5008" "heap_pages 5008 = 2" by (simp_all add: align16_def heap_pages_def)
  have "\<exists>t. kmalloc 5000 s = Some (HEAP_START + 24, t) \<and> (\<forall>sz'. sz' \<noteq> 0 \<longrightarrow> kmalloc sz' t = None)"
    by (rule kmalloc_first_growth_hangs [OF s(2,3)])
       (use s(4) in \<open>simp_all add: a HEAP_BASE_def HEAP_START_def\<close>)
  then obtain t where "kmalloc 5000 s = Some (HEAP_START + 24, t)" "kmalloc 16 t = None" by auto
  then show ?thesis using s(1) by blast
qed

text \<open>A request within 15 bytes of \<open>SIZE_MAX\<close> is rounded up to zero and succeeds with a block
  of no bytes whenever some block is free.\<close>

theorem kmalloc_wraps_to_zero:
  assumes "heap_ok s (xs @ (m, True) # ys)" "\<forall>b \<in> set xs. \<not> snd b" "SIZE_MAX - 14 \<le> sz"
  shows "\<exists>t. kmalloc sz s = Some (of_nat (heap_end xs + 24), t) \<and> heap_ok t (xs @ carve 0 m @ ys)"
proof -
  define k where "k = sz - (SIZE_MAX - 14)"
  have sz: "sz + 15 = k" by (simp add: k_def SIZE_MAX_def)
  have "unat k \<le> 14"
    using unat_minus_no_underflow [OF assms(3)] unsigned_less [of sz, where ?'a = nat]
    by (simp add: k_def SIZE_MAX_def)
  then have k4: "take_bit 4 k = k"
    by (simp add: word_unat_eq_iff unsigned_take_bit_eq take_bit_nat_eq_self_iff)
  have "k AND NOT (mask 4) = 0"
  proof (rule u64_eqI)
    fix n :: nat assume "n < 64"
    have "bit k n \<Longrightarrow> n < 4" using k4 bit_take_bit_iff [of 4 k n] by simp
    then show "bit (k AND NOT (mask 4)) n = bit (0 :: u64) n"
      by (auto simp: bit_and_iff bit_not_iff u64_bit_mask)
  qed
  moreover have "(15 :: u64) = mask 4" by (simp add: mask_eq_exp_minus_1)
  ultimately have "k AND NOT 15 = 0" by metis
  then have z: "align16 sz = 0" by (simp only: align16_def sz)
  have nz: "sz \<noteq> 0" using assms(3) by (auto simp: SIZE_MAX_def)
  have "first_fit 0 (xs @ (m, True) # ys) = Some (xs, m, ys)"
    using assms(2) by (induction xs) auto
  then show ?thesis using kmalloc_fit [OF assms(1) nz] z by (metis unat_0)
qed

theorem kmalloc_wraps_to_zero_witness:
  "\<exists>s t. init_kheap kheap_example = Some (4072, s) \<and>
     kmalloc 0xFFFFFFFFFFFFFFFF s = Some (0xFFFF800010000018, t) \<and> heap_ok t [(0, False), (4048, True)]"
proof -
  obtain s where s: "init_kheap kheap_example = Some (4072, s)" "heap_ok s ([] @ (4072, True) # [])"
    using init_kheap_spec [of kheap_example] kheap_example_ok by auto
  have "SIZE_MAX - 14 \<le> 0xFFFFFFFFFFFFFFFF" by (simp add: SIZE_MAX_def)
  from kmalloc_wraps_to_zero [OF s(2) _ this] show ?thesis
    using s(1) by (simp add: carve_def HEAP_START_def of_nat_add)
qed

declare of_nat_add [simp]

end
