(* ===== verification/Klibc_Correct.thy ===== *)
theory Klibc_Correct
  imports Klibc_String Kheap_Correct "HOL-Library.Sublist"
begin

text \<open>
  Correctness of the memory and string routines on mapped memory, including two routines that do
  not do what their names promise.
\<close>

section \<open>Memory routines\<close>

lemma memcpy_spec:
  assumes "vm8_ok s B" "range8 dest (unat n) \<subseteq> B" "range8 src (unat n) \<subseteq> B"
    "range8 dest (unat n) \<inter> range8 src (unat n) = {}"
  shows "\<exists>t. memcpy dest src n s = Some (dest, t) \<and> wrote8 B s t \<and>
    (\<forall>a \<in> B. vread8 a t = (if unat (a - dest) < unat n then vread8 (src + (a - dest)) s else vread8 a s))"
proof -
  have n: "unat n \<le> 2 ^ 64" using unsigned_less [of n, where ?'a = nat] by simp
  have "dest + of_nat j \<in> B \<and> src + of_nat j \<in> B" if "j < unat n" for j
    using assms(2,3) that range8_addr by blast
  moreover have "dest + of_nat j \<noteq> src + of_nat j'" if "j < unat n" "j' < unat n" for j j'
    using assms(4) that range8_addr [of j "unat n" dest] range8_addr [of j' "unat n" src] by auto
  ultimately show ?thesis
    using copy_up_spec [OF assms(1), of 0 "unat n" dest src] n by (auto simp: memcpy_def)
qed

lemma memset_spec:
  assumes "vm8_ok s B" "range8 p (unat n) \<subseteq> B"
  shows "\<exists>t. memset p c n s = Some (p, t) \<and> wrote8 B s t \<and>
    (\<forall>a \<in> B. vread8 a t = (if unat (a - p) < unat n then Some (ucast c) else vread8 a s))"
proof -
  have n: "0 + unat n \<le> 2 ^ 64" using unsigned_less [of n, where ?'a = nat] by simp
  have "p + of_nat j \<in> B" if "j < unat n" for j using assms(2) range8_addr [OF that] by blast
  then show ?thesis
    using fill_up_spec [OF assms(1) n, of p "ucast c"] by (auto simp: memset_def)
qed

lemma no_wrap_offset:
  fixes p :: u64
  assumes "unat p + n \<le> 2 ^ 64" "j < n"
  shows "unat (p + of_nat j) = unat p + j"
proof -
  have "unat (of_nat j :: u64) = j" using assms by (intro unat_of_nat_small) simp
  then show ?thesis using assms by (subst unat_plus_no_overflow) simp_all
qed

text \<open>C23: \<open>memmove\<close> copies the source range into the destination range even when the two overlap:
  every destination byte gets the value its source byte had before the call, and no byte outside
  the destination changes.\<close>

theorem memmove_correct:
  assumes "vm8_ok s B" "range8 dest (unat n) \<subseteq> B" "range8 src (unat n) \<subseteq> B"
    "unat dest + unat n \<le> 2 ^ 64" "unat src + unat n \<le> 2 ^ 64"
  shows "\<exists>t. memmove dest src n s = Some (dest, t) \<and> vm8_ok t B \<and>
    (\<forall>a \<in> B. vread8 a t = (if a \<in> range8 dest (unat n) then vread8 (src + (a - dest)) s else vread8 a s))"
proof -
  have n: "unat n \<le> 2 ^ 64" using unsigned_less [of n, where ?'a = nat] by simp
  have inB: "dest + of_nat j \<in> B \<and> src + of_nat j \<in> B" if "j < unat n" for j
    using assms(2,3) that range8_addr by blast
  note off = no_wrap_offset [OF assms(4)] no_wrap_offset [OF assms(5)]
  consider "dest < src" | "src < dest" | "src = dest" by fastforce
  then show ?thesis
  proof cases
    case 1
    have "dest + of_nat j \<noteq> src + of_nat j'" if "j < j'" "j' < unat n" for j j'
    proof -
      have "unat (dest + of_nat j) < unat (src + of_nat j')"
        using off that 1 by (simp add: word_less_nat_alt)
      then show ?thesis by auto
    qed
    then show ?thesis
      using copy_up_spec [OF assms(1), of 0 "unat n" dest src] n inB 1
      by (auto simp: memmove_def wrote8_def range8_iff [OF n])
  next
    case 2
    have "dest + of_nat j' \<noteq> src + of_nat j" if "j < j'" "j' < unat n" for j j'
    proof -
      have "unat (src + of_nat j) < unat (dest + of_nat j')"
        using off that 2 by (simp add: word_less_nat_alt)
      then show ?thesis by auto
    qed
    then show ?thesis
      using copy_down_spec [OF assms(1) n, of dest src] inB 2
      by (auto simp: memmove_def wrote8_def range8_iff [OF n])
  next
    case 3
    then show ?thesis using assms(1) by (simp add: memmove_def)
  qed
qed

text \<open>The first heap page as byte memory.\<close>

lemma example_bytes:
  obtains s :: kheap_state where "vm8_ok s (range8 HEAP_START 4096)"
proof -
  obtain s where ok: "heap_ok (s :: kheap_state) [(4072, True)]"
    using init_kheap_spec [of kheap_example] kheap_example_ok by auto
  have vm: "vm_ok s (heap_words HEAP_BASE (HEAP_BASE + 4096))"
    using ok by (simp add: heap_ok_def add.commute)
  have "qword_addr a \<in> heap_words HEAP_BASE (HEAP_BASE + 4096)" if "a \<in> range8 HEAP_START 4096" for a
  proof -
    obtain i where i: "i < 4096" "a = HEAP_START + of_nat i" using \<open>a \<in> _\<close> by (auto simp: range8_def)
    have "unat a = HEAP_BASE + i"
      unfolding i(2) HEAP_BASE_def by (rule no_wrap_offset [OF _ i(1)]) (simp add: HEAP_START_def)
    then have u: "unat (qword_addr a) = HEAP_BASE + i - (HEAP_BASE + i) mod 8" by (simp add: unat_qword_addr)
    have "(of_nat (unat (qword_addr a)) :: u64) \<in> heap_words HEAP_BASE (HEAP_BASE + 4096)"
    proof (subst heap_words_mem)
      have m: "(HEAP_BASE + i) mod 8 = i mod 8" using HEAP_BASE_simps(2) by (metis dvdE mod_mult_self4)
      show "HEAP_BASE \<le> unat (qword_addr a) \<and> unat (qword_addr a) < HEAP_BASE + 4096 \<and> 8 dvd unat (qword_addr a)"
        unfolding u
      proof (intro conjI)
        have "i mod 8 \<le> i" by simp
        then show "HEAP_BASE \<le> HEAP_BASE + i - (HEAP_BASE + i) mod 8"
          "HEAP_BASE + i - (HEAP_BASE + i) mod 8 < HEAP_BASE + 4096" unfolding m using i(1) by linarith+
      qed (rule dvd_minus_mod)
      show "unat (qword_addr a) < 2 ^ 64" using unsigned_less [of "qword_addr a", where ?'a = nat] by simp
    qed (simp add: HEAP_BASE_def HEAP_START_def)
    then show ?thesis by simp
  qed
  then have "vm8_ok s (range8 HEAP_START 4096)"
    using vm_ok_mono [OF vm, of "qword_addr ` range8 HEAP_START 4096"] by (auto simp: vm8_ok_def)
  then show ?thesis by (rule that)
qed

theorem memmove_correct_witness:
  "\<exists>(s :: kheap_state) t. memmove (HEAP_START + 2) HEAP_START 6 s = Some (HEAP_START + 2, t) \<and>
     vread8 (HEAP_START + 5) t = vread8 (HEAP_START + 3) s \<and> vread8 (HEAP_START + 9) t = vread8 (HEAP_START + 9) s"
proof -
  obtain s :: kheap_state where s: "vm8_ok s (range8 HEAP_START 4096)" by (rule example_bytes)
  have sub: "range8 (HEAP_START + 2) (unat (6 :: u64)) \<subseteq> range8 HEAP_START 4096"
      "range8 HEAP_START (unat (6 :: u64)) \<subseteq> range8 HEAP_START 4096"
    using range8_sub [of 2 6 4096 HEAP_START] range8_sub [of 0 6 4096 HEAP_START] by simp_all
  obtain t where t: "memmove (HEAP_START + 2) HEAP_START 6 s = Some (HEAP_START + 2, t)"
      "\<forall>a \<in> range8 HEAP_START 4096. vread8 a t = (if a \<in> range8 (HEAP_START + 2) (unat (6 :: u64))
         then vread8 (HEAP_START + (a - (HEAP_START + 2))) s else vread8 a s)"
    using memmove_correct [OF s sub] by (auto simp: HEAP_START_def)
  have "HEAP_START + 5 \<in> range8 HEAP_START 4096" "HEAP_START + 9 \<in> range8 HEAP_START 4096"
    "HEAP_START + 5 \<in> range8 (HEAP_START + 2) (unat (6 :: u64))" "HEAP_START + 9 \<notin> range8 (HEAP_START + 2) (unat (6 :: u64))"
    by (simp_all add: range8_iff)
  then have "vread8 (HEAP_START + 5) t = vread8 (HEAP_START + 3) s"
    "vread8 (HEAP_START + 9) t = vread8 (HEAP_START + 9) s"
    using bspec [OF t(2), of "HEAP_START + 5"] bspec [OF t(2), of "HEAP_START + 9"] by simp_all
  then show ?thesis using t(1) by blast
qed

section \<open>Strings in memory\<close>

fun cstr :: "'a vmm_state_scheme \<Rightarrow> u64 \<Rightarrow> u8 list \<Rightarrow> bool" where
  "cstr s p [] \<longleftrightarrow> vread8 p s = Some 0"
| "cstr s p (b # bs) \<longleftrightarrow> b \<noteq> 0 \<and> vread8 p s = Some b \<and> cstr s (p + 1) bs"

lemma cstr_nth:
  assumes "cstr s p bs" "i < length bs"
  shows "vread8 (p + of_nat i) s = Some (bs ! i) \<and> bs ! i \<noteq> 0"
  using assms
proof (induction bs arbitrary: p i)
  case (Cons b bs)
  then show ?case using Cons.IH [of "p + 1" "i - 1"] by (cases i) (auto simp: add.assoc)
qed simp

lemma cstr_end: "cstr s p bs \<Longrightarrow> vread8 (p + of_nat (length bs)) s = Some 0"
  by (induction bs arbitrary: p) (auto simp: add.assoc [symmetric])

lemma cstr_drop: "cstr s p bs \<Longrightarrow> i \<le> length bs \<Longrightarrow> cstr s (p + of_nat i) (drop i bs)"
proof (induction i arbitrary: p bs)
  case (Suc i)
  then obtain b cs where "bs = b # cs" by (cases bs) auto
  then show ?case using Suc.IH [of "p + 1" cs] Suc.prems by (simp add: add.assoc)
qed simp

lemma cstrI:
  assumes "\<And>i. i < length bs \<Longrightarrow> vread8 (p + of_nat i) s = Some (bs ! i)" "0 \<notin> set bs"
    "vread8 (p + of_nat (length bs)) s = Some 0"
  shows "cstr s p bs"
  using assms
proof (induction bs arbitrary: p)
  case (Cons b bs)
  have "vread8 p s = Some b" using Cons.prems(1) [of 0] by simp
  moreover have "cstr s (p + 1) bs"
    by (rule Cons.IH) (use Cons.prems(1) [of "Suc i" for i] Cons.prems(2,3) in \<open>auto simp: add.assoc\<close>)
  ultimately show ?case using Cons.prems(2) by auto
qed simp

lemma strlen_from_spec: "cstr s (p + n) bs \<Longrightarrow> strlen_from p n s = Some (n + of_nat (length bs))"
proof (induction bs arbitrary: n)
  case Nil
  then show ?case by (subst strlen_from.simps) simp
next
  case (Cons b bs)
  then show ?case using Cons.IH [of "n + 1"] by (subst strlen_from.simps) (simp add: add.assoc)
qed

lemma strlen_spec: "cstr s p bs \<Longrightarrow> strlen p s = Some (of_nat (length bs))"
  using strlen_from_spec [of s p 0 bs] by (simp add: strlen_def)

lemma strnlen_from_spec:
  "cstr s (p + n) bs \<Longrightarrow> strnlen_from p k n s = Some (n + of_nat (min k (length bs)))"
proof (induction bs arbitrary: n k)
  case Nil
  then show ?case by (cases k) simp_all
next
  case (Cons b bs)
  then show ?case using Cons.IH [of "n + 1"] by (cases k) (simp_all add: add.assoc)
qed

lemma strnlen_spec: "cstr s p bs \<Longrightarrow> strnlen p n s = Some (of_nat (min (unat n) (length bs)))"
  using strnlen_from_spec [of s p 0 bs] by (simp add: strnlen_def)

section \<open>Comparison and search\<close>

fun strcmp_bytes :: "u8 list \<Rightarrow> u8 list \<Rightarrow> int" where
  "strcmp_bytes [] [] = 0"
| "strcmp_bytes [] (y # ys) = - uint y"
| "strcmp_bytes (x # xs) [] = uint x"
| "strcmp_bytes (x # xs) (y # ys) = (if x = y then strcmp_bytes xs ys else uint x - uint y)"

lemma strcmp_spec: "cstr s a xs \<Longrightarrow> cstr s b ys \<Longrightarrow> strcmp a b s = Some (strcmp_bytes xs ys)"
proof (induction xs ys arbitrary: a b rule: strcmp_bytes.induct)
  case (4 x xs y ys)
  then show ?case by (subst strcmp.simps) auto
qed (subst strcmp.simps, auto)+

text \<open>The dictionary order on byte strings.\<close>

fun lex_less :: "u8 list \<Rightarrow> u8 list \<Rightarrow> bool" where
  "lex_less xs [] \<longleftrightarrow> False"
| "lex_less [] (y # ys) \<longleftrightarrow> True"
| "lex_less (x # xs) (y # ys) \<longleftrightarrow> x < y \<or> x = y \<and> lex_less xs ys"

text \<open>On two strings \<open>strcmp\<close> returns; the result is zero exactly for equal strings and negative
  exactly when the first comes before the second in dictionary order of unsigned bytes.\<close>

theorem strcmp_orders:
  assumes "cstr s a xs" "cstr s b ys"
  shows "\<exists>r. strcmp a b s = Some r \<and> (r = 0 \<longleftrightarrow> xs = ys) \<and> (r < 0 \<longleftrightarrow> lex_less xs ys)"
proof -
  have "(strcmp_bytes xs ys = 0 \<longleftrightarrow> xs = ys) \<and> (strcmp_bytes xs ys < 0 \<longleftrightarrow> lex_less xs ys)"
    using assms
  proof (induction xs ys arbitrary: a b rule: strcmp_bytes.induct)
    case (2 y ys)
    then have "0 < uint y" by (simp add: less_le unsigned_eq_0_iff)
    then show ?case by simp
  next
    case (3 x xs)
    then have "0 < uint x" by (simp add: less_le unsigned_eq_0_iff)
    then show ?case by simp
  next
    case (4 x xs y ys)
    then show ?case by (auto simp: word_less_def word_uint_eq_iff)
  qed simp
  then show ?thesis using strcmp_spec [OF assms] by blast
qed

lemma strchr_spec:
  "cstr s p bs \<Longrightarrow> strchr p c s =
     Some (if ucast c \<in> set bs then p + of_nat (length (takeWhile (\<lambda>b. b \<noteq> ucast c) bs)) else NULL)"
proof (induction bs arbitrary: p)
  case Nil
  then show ?case by (subst strchr.simps) simp
next
  case (Cons b bs)
  then show ?case using Cons.IH [of "p + 1"] by (subst strchr.simps) (auto simp: add.assoc)
qed

lemma strstr_match_spec:
  "cstr s h hs \<Longrightarrow> cstr s n ns \<Longrightarrow> strstr_match h n s = Some (prefix ns hs)"
proof (induction ns arbitrary: h n hs)
  case Nil
  then show ?case by (cases hs) (subst strstr_match.simps, auto)+
next
  case (Cons y ns)
  show ?case
  proof (cases hs)
    case Nil
    then show ?thesis using Cons.prems by (subst strstr_match.simps) auto
  next
    case (Cons x xs)
    then show ?thesis using Cons.prems Cons.IH [of "h + 1" xs "n + 1"]
      by (subst strstr_match.simps) auto
  qed
qed

fun find_sub :: "u8 list \<Rightarrow> u8 list \<Rightarrow> nat option" where
  "find_sub ns [] = None"
| "find_sub ns (h # hs) = (if prefix ns (h # hs) then Some 0 else map_option Suc (find_sub ns hs))"

lemma strstr_loop_spec:
  "cstr s h hs \<Longrightarrow> cstr s n ns \<Longrightarrow>
     strstr_loop h n s = Some (case find_sub ns hs of None \<Rightarrow> NULL | Some i \<Rightarrow> h + of_nat i)"
proof (induction hs arbitrary: h)
  case Nil
  then show ?case by (subst strstr_loop.simps) simp
next
  case (Cons x xs)
  have "strstr_match h n s = Some (prefix ns (x # xs))" by (rule strstr_match_spec) (use Cons.prems in auto)
  then show ?case using Cons.prems Cons.IH [of "h + 1"]
    by (subst strstr_loop.simps) (auto simp: add.assoc split: option.splits)
qed

lemma find_sub_Some:
  "find_sub ns hs = Some i \<Longrightarrow> i < length hs \<and> prefix ns (drop i hs) \<and> (\<forall>j < i. \<not> prefix ns (drop j hs))"
proof (induction hs arbitrary: i)
  case (Cons h hs)
  show ?case
  proof (cases "prefix ns (h # hs)")
    case False
    then obtain k where "i = Suc k" "find_sub ns hs = Some k" using Cons.prems by auto
    then show ?thesis using Cons.IH False by (auto simp: less_Suc_eq_0_disj)
  qed (use Cons.prems in auto)
qed simp

lemma find_sub_None: "find_sub ns hs = None \<Longrightarrow> j < length hs \<Longrightarrow> \<not> prefix ns (drop j hs)"
proof (induction hs arbitrary: j)
  case (Cons h hs)
  then show ?case by (cases j) (auto split: if_splits)
qed simp

text \<open>C27: on two strings \<open>strstr\<close> returns a pointer to the first occurrence of the needle, or the
  null pointer exactly when the (non-empty) needle does not occur.\<close>

theorem strstr_first_occurrence:
  assumes "cstr s h hs" "cstr s n ns" "ns \<noteq> []"
  shows "strstr h n s = Some NULL \<and> \<not> sublist ns hs \<or>
    (\<exists>i < length hs. strstr h n s = Some (h + of_nat i) \<and> prefix ns (drop i hs) \<and>
       (\<forall>j < i. \<not> prefix ns (drop j hs)))"
proof -
  obtain y ys where y: "ns = y # ys" using assms(3) by (cases ns) auto
  then have st: "strstr h n s = strstr_loop h n s" using assms(2) by (simp add: strstr_def)
  show ?thesis
  proof (cases "find_sub ns hs")
    case None
    have "\<not> sublist ns hs"
    proof
      assume "sublist ns hs"
      then obtain us vs where hs: "hs = us @ ns @ vs" by (auto simp: sublist_def)
      then have "length us < length hs" using assms(3) by simp
      from find_sub_None [OF None this] show False using hs by simp
    qed
    then show ?thesis using st strstr_loop_spec [OF assms(1,2)] None by simp
  next
    case (Some i)
    then show ?thesis using st strstr_loop_spec [OF assms(1,2)] find_sub_Some [OF Some] by auto
  qed
qed

section \<open>Copying strings\<close>

lemma cstr_cong:
  assumes "\<And>i. i \<le> length bs \<Longrightarrow> vread8 (p + of_nat i) t = vread8 (p + of_nat i) s" "cstr s p bs"
  shows "cstr t p bs"
  using assms
proof (induction bs arbitrary: p)
  case Nil
  then show ?case using Nil.prems(1) [of 0] by simp
next
  case (Cons b bs)
  have "vread8 p t = vread8 p s" using Cons.prems(1) [of 0] by simp
  moreover have "cstr t (p + 1) bs"
    by (rule Cons.IH) (use Cons.prems(1) [of "Suc i" for i] Cons.prems(2) in \<open>auto simp: add.assoc\<close>)
  ultimately show ?case using Cons.prems(2) by simp
qed

text \<open>Any bytes can be stored.\<close>

lemma store_bytes:
  assumes "vm8_ok s B" "range8 p (length bs) \<subseteq> B" "length bs \<le> 2 ^ 64"
  shows "\<exists>t. wrote8 B s t \<and> (\<forall>i < length bs. vread8 (p + of_nat i) t = Some (bs ! i)) \<and>
    (\<forall>a \<in> B. a \<notin> range8 p (length bs) \<longrightarrow> vread8 a t = vread8 a s)"
  using assms
proof (induction bs rule: rev_induct)
  case Nil
  then show ?case by (auto simp: wrote8_def)
next
  case (snoc b bs)
  let ?n = "length bs"
  have sub: "range8 p ?n \<subseteq> range8 p (length (bs @ [b]))" by (auto simp: range8_def)
  obtain t where t: "wrote8 B s t" "\<forall>i < ?n. vread8 (p + of_nat i) t = Some (bs ! i)"
      "\<forall>a \<in> B. a \<notin> range8 p ?n \<longrightarrow> vread8 a t = vread8 a s"
    using snoc.IH [OF snoc.prems(1)] sub snoc.prems(2,3) by auto
  have vt: "vm8_ok t B" using t(1) by (simp add: wrote8_def)
  have inB: "p + of_nat ?n \<in> B" using snoc.prems(2) range8_addr [of ?n "Suc ?n" p] by auto
  obtain u where u: "vwrite8 (p + of_nat ?n) b t = Some u" "vm8_ok u B" "u = t\<lparr>pmem := pmem u\<rparr>"
      "\<And>w. w \<in> B \<Longrightarrow> vread8 w u = (if w = p + of_nat ?n then Some b else vread8 w t)"
    by (rule vwrite8_spec [OF vt inB]) blast
  have rd: "vread8 (p + of_nat i) u = Some ((bs @ [b]) ! i)" if "i < Suc ?n" for i
  proof -
    have "p + of_nat i \<in> B" using snoc.prems(2) range8_addr [of i "Suc ?n" p] that by auto
    moreover have "p + of_nat i = p + of_nat ?n \<longleftrightarrow> i = ?n"
      using u64_of_nat_inj [of i ?n] that snoc.prems(3) by auto
    ultimately show ?thesis using u(4) t(2) that by (auto simp: nth_append)
  qed
  have "vread8 a u = vread8 a s" if "a \<in> B" "a \<notin> range8 p (Suc ?n)" for a
    using u(4) [OF that(1)] t(3) that range8_addr [of ?n "Suc ?n" p] sub by auto
  moreover have "wrote8 B s u" by (rule wrote8_trans [OF t(1)]) (use u(2,3) in \<open>simp add: wrote8_def\<close>)
  ultimately show ?case using rd by auto
qed

text \<open>Two strings in the first heap page, for concrete instances.\<close>

lemma example_strings:
  assumes "0 \<notin> set xs" "0 \<notin> set ys" "length xs < 64" "length ys < 64"
  obtains s :: kheap_state where "vm8_ok s (range8 HEAP_START 4096)" "cstr s HEAP_START xs"
    "cstr s (HEAP_START + 64) ys"
proof -
  let ?B = "range8 HEAP_START 4096" and ?q = "HEAP_START + of_nat 64"
  obtain s0 :: kheap_state where s0: "vm8_ok s0 ?B" by (rule example_bytes)
  have r: "range8 HEAP_START (length (xs @ [0])) \<subseteq> ?B" "range8 ?q (length (ys @ [0])) \<subseteq> ?B"
    using range8_sub [of 0 "length (xs @ [0])" 4096 HEAP_START]
      range8_sub [of 64 "length (ys @ [0])" 4096 HEAP_START] assms(3,4) by simp_all
  obtain s1 where s1: "wrote8 ?B s0 s1"
      "\<forall>i < length (xs @ [0]). vread8 (HEAP_START + of_nat i) s1 = Some ((xs @ [0]) ! i)"
    using store_bytes [OF s0 r(1)] assms(3) by auto
  have v1: "vm8_ok s1 ?B" using s1(1) by (simp add: wrote8_def)
  obtain s2 where s2: "wrote8 ?B s1 s2"
      "\<forall>i < length (ys @ [0]). vread8 (?q + of_nat i) s2 = Some ((ys @ [0]) ! i)"
      "\<forall>a \<in> ?B. a \<notin> range8 ?q (length (ys @ [0])) \<longrightarrow> vread8 a s2 = vread8 a s1"
    using store_bytes [OF v1 r(2)] assms(4) by auto
  have c1: "cstr s1 HEAP_START xs"
    by (rule cstrI) (use s1(2) assms(1) in \<open>auto simp: nth_append\<close>)
  have "cstr s2 HEAP_START xs"
  proof (rule cstr_cong [OF _ c1])
    fix i assume i: "i \<le> length xs"
    have "HEAP_START + of_nat i \<notin> range8 ?q (length (ys @ [0]))"
      using range8_disjoint [of "Suc (length xs)" 64 "length (ys @ [0])" HEAP_START] assms(3,4) i
        range8_addr [of i "Suc (length xs)" HEAP_START] by auto
    moreover have "HEAP_START + of_nat i \<in> ?B" using r(1) range8_addr [of i "Suc (length xs)" HEAP_START] i by auto
    ultimately show "vread8 (HEAP_START + of_nat i) s2 = vread8 (HEAP_START + of_nat i) s1" using s2(3) by simp
  qed
  moreover have "cstr s2 ?q ys"
    by (rule cstrI) (use s2(2) assms(2) in \<open>auto simp: nth_append\<close>)
  moreover have "vm8_ok s2 ?B" using s2(1) by (simp add: wrote8_def)
  ultimately show ?thesis using that by simp
qed

theorem strcmp_orders_witness:
  "\<exists>(s :: kheap_state) r. strcmp HEAP_START (HEAP_START + 64) s = Some r \<and> r < 0"
proof -
  obtain s :: kheap_state where s: "cstr s HEAP_START [97, 98]" "cstr s (HEAP_START + 64) [97, 99]"
    by (rule example_strings [of "[97, 98]" "[97, 99]"]) simp_all
  show ?thesis using strcmp_orders [OF s] by auto
qed

theorem strstr_first_occurrence_witness:
  "\<exists>s :: kheap_state. strstr HEAP_START (HEAP_START + 64) s = Some (HEAP_START + 1)"
proof -
  obtain s :: kheap_state where s: "cstr s HEAP_START [97, 98, 99]" "cstr s (HEAP_START + 64) [98, 99]"
    by (rule example_strings [of "[97, 98, 99]" "[98, 99]"]) simp_all
  have occ: "prefix [98, 99] (drop i [97, 98, (99 :: u8)]) \<longleftrightarrow> i = 1" if "i < 3" for i :: nat
    using that by (auto simp: less_Suc_eq numeral_eq_Suc)
  have "sublist [98, 99] [97, 98, (99 :: u8)]" 
    unfolding sublist_def by (rule exI [of _ "[97]"], rule exI [of _ "[]"]) simp
  then show ?thesis using strstr_first_occurrence [OF s] occ by fastforce
qed

text \<open>C24: \<open>strncpy\<close> of a string shorter than \<open>n\<close> leaves the empty string at the destination: after
  copying, the padding with zeros starts at the destination itself instead of behind the copy.\<close>

theorem strncpy_erases:
  assumes "vm8_ok s B" "cstr s src bs" "length bs < unat n" "range8 dest (unat n) \<subseteq> B"
    "range8 src (length bs) \<subseteq> B" "range8 dest (unat n) \<inter> range8 src (length bs) = {}"
  shows "\<exists>t. strncpy dest src n s = Some (dest, t) \<and> cstr t dest [] \<and>
    (\<forall>a \<in> range8 dest (unat n - length bs). vread8 a t = Some 0)"
proof -
  let ?m = "length bs"
  have n: "unat n < 2 ^ 64" using unsigned_less [of n, where ?'a = nat] by simp
  have m: "unat (of_nat ?m :: u64) = ?m" using assms(3) n by (intro unat_of_nat_small) simp
  have len: "strnlen src n s = Some (of_nat ?m)" using strnlen_spec [OF assms(2), of n] assms(3) by simp
  have rest: "unat (n - of_nat ?m) = unat n - ?m"
    using assms(3) m by (subst unat_minus_no_underflow) (simp_all add: word_le_nat_alt)
  have sub: "range8 dest ?m \<subseteq> range8 dest (unat n)" "range8 dest (unat n - ?m) \<subseteq> range8 dest (unat n)"
    using assms(3) by (auto simp: range8_def)
  have dis: "range8 dest ?m \<subseteq> B" "range8 dest ?m \<inter> range8 src ?m = {}" using sub(1) assms(4,6) by blast+
  obtain t where t: "memcpy dest src (of_nat ?m) s = Some (dest, t)" "wrote8 B s t"
    using memcpy_spec [OF assms(1), of dest "of_nat ?m" src] dis assms(5) m by auto
  have vt: "vm8_ok t B" using t(2) by (simp add: wrote8_def)
  have inB: "range8 dest (unat n - ?m) \<subseteq> B" using sub(2) assms(4) by blast
  obtain u where u: "memset dest 0 (n - of_nat ?m) t = Some (dest, u)"
      "\<forall>a \<in> B. vread8 a u = (if unat (a - dest) < unat n - ?m then Some 0 else vread8 a t)"
    using memset_spec [OF vt, of dest "n - of_nat ?m" 0] inB rest by auto
  have zero: "vread8 a u = Some 0" if "a \<in> range8 dest (unat n - ?m)" for a
    using that u(2) inB n range8_iff [of "unat n - ?m" a dest] by auto
  have "strncpy dest src n s = Some (dest, u)"
    using len t(1) u(1) by (simp add: strncpy_def stpncpy_def)
  moreover have "dest \<in> range8 dest (unat n - ?m)" using range8_addr [of 0 "unat n - ?m" dest] assms(3) by simp
  ultimately show ?thesis using zero by auto
qed

theorem strncpy_erases_witness:
  "\<exists>(s :: kheap_state) t. cstr s HEAP_START [97, 98] \<and>
     strncpy (HEAP_START + 64) HEAP_START 8 s = Some (HEAP_START + 64, t) \<and> cstr t (HEAP_START + 64) []"
proof -
  let ?B = "range8 HEAP_START 4096"
  obtain s :: kheap_state where s: "vm8_ok s ?B" "cstr s HEAP_START [97, 98]"
    by (rule example_strings [of "[97, 98]" "[]"]) simp_all
  have r: "range8 (HEAP_START + 64) (unat (8 :: u64)) \<subseteq> ?B" "range8 HEAP_START (length [97, 98 :: u8]) \<subseteq> ?B"
    using range8_sub [of 64 8 4096 HEAP_START] range8_sub [of 0 "Suc (Suc 0)" 4096 HEAP_START] by simp_all
  have "range8 (HEAP_START + 64) (unat (8 :: u64)) \<inter> range8 HEAP_START (length [97, 98 :: u8]) = {}"
    using range8_disjoint [of "Suc (Suc 0)" 64 8 HEAP_START] by simp
  then show ?thesis using strncpy_erases [OF s _ r] s(2) by auto
qed

lemma unat_pred_offset:
  fixes a p :: u64
  shows "unat (a - (p + 1)) = (if a = p then 2 ^ 64 - 1 else unat (a - p) - 1)"
proof (cases "a = p")
  case True
  then show ?thesis by (simp add: unsigned_minus_1_eq_mask mask_eq_exp_minus_1)
next
  case False
  have eq: "a - (p + 1) = a - p - 1" by simp
  have "a - p \<noteq> 0" using False by simp
  then have "1 \<le> a - p" using unat_eq_zero [of "a - p"] by (simp add: word_le_nat_alt Suc_le_eq)
  then show ?thesis unfolding eq using False unat_minus_no_underflow [of 1 "a - p"] by simp
qed

lemma strlcpy_loop_spec:
  assumes "vm8_ok s B" "cstr s p bs" "n < 2 ^ 64" "range8 dst n \<subseteq> B" "range8 p (Suc (length bs)) \<subseteq> B"
    "range8 dst n \<inter> range8 p (Suc (length bs)) = {}"
  shows "\<exists>t. strlcpy_loop (Suc n) dst p s = Some (n - length bs, dst + of_nat (min n (Suc (length bs))),
      p + of_nat (min n (Suc (length bs))), t) \<and> wrote8 B s t \<and>
    (\<forall>a \<in> B. vread8 a t = (if unat (a - dst) < min n (Suc (length bs))
       then Some ((bs @ [0]) ! unat (a - dst)) else vread8 a s))"
  using assms
proof (induction n arbitrary: dst p bs s)
  case 0
  then show ?case by (simp add: wrote8_def)
next
  case (Suc n)
  have d: "dst \<in> range8 dst (Suc n)" "p \<in> range8 p (Suc (length bs))"
    using range8_addr [of 0 "Suc n" dst] range8_addr [of 0 "Suc (length bs)" p] by simp_all
  have inB: "dst \<in> B" using d(1) Suc.prems(4) by blast
  define b where "b = (bs @ [0]) ! 0"
  have b: "vread8 p s = Some b" using Suc.prems(2) by (cases bs) (simp_all add: b_def)
  obtain s1 where s1: "vwrite8 dst b s = Some s1" "vm8_ok s1 B" "s1 = s\<lparr>pmem := pmem s1\<rparr>"
      "\<And>w. w \<in> B \<Longrightarrow> vread8 w s1 = (if w = dst then Some b else vread8 w s)"
    by (rule vwrite8_spec [OF Suc.prems(1) inB]) blast
  have w1: "wrote8 B s s1" using s1(2,3) by (simp add: wrote8_def)
  show ?case
  proof (cases bs)
    case Nil
    have "a = dst \<longleftrightarrow> unat (a - dst) < 1" for a by (auto simp: unat_eq_zero)
    then show ?thesis using b s1(1,4) w1 by (auto simp: Nil b_def)
  next
    case (Cons x xs)
    have bx: "b = x" "x \<noteq> 0" using Suc.prems(2) by (simp_all add: Cons b_def)
    have shift: "range8 (dst + 1) n \<subseteq> range8 dst (Suc n)" "range8 (p + 1) (Suc (length xs)) \<subseteq> range8 p (Suc (length bs))"
      using range8_sub [of 1 n "Suc n" dst] range8_sub [of 1 "Suc (length xs)" "Suc (length bs)" p]
      by (simp_all add: Cons)
    have c1: "cstr s1 (p + 1) xs"
    proof (rule cstr_cong)
      show "cstr s (p + 1) xs" using Suc.prems(2) by (simp add: Cons)
      fix i assume "i \<le> length xs"
      then have m: "p + 1 + of_nat i \<in> range8 p (Suc (length bs))"
        using shift(2) range8_addr [of i "Suc (length xs)" "p + 1"] by auto
      have "p + 1 + of_nat i \<in> B" "p + 1 + of_nat i \<noteq> dst"
        using subsetD [OF Suc.prems(5) m] m Suc.prems(6) d(1) by (blast, metis IntI empty_iff)
      then show "vread8 (p + 1 + of_nat i) s1 = vread8 (p + 1 + of_nat i) s"
        using s1(4) [of "p + 1 + of_nat i"] by simp
    qed
    let ?k = "min n (Suc (length xs))"
    obtain t where t: "strlcpy_loop (Suc n) (dst + 1) (p + 1) s1 =
        Some (n - length xs, dst + 1 + of_nat ?k, p + 1 + of_nat ?k, t)" "wrote8 B s1 t"
        "\<forall>a \<in> B. vread8 a t = (if unat (a - (dst + 1)) < ?k
           then Some ((xs @ [0]) ! unat (a - (dst + 1))) else vread8 a s1)"
    proof -
      have "n < 2 ^ 64" "range8 (dst + 1) n \<subseteq> B" "range8 (p + 1) (Suc (length xs)) \<subseteq> B"
        "range8 (dst + 1) n \<inter> range8 (p + 1) (Suc (length xs)) = {}"
        using Suc.prems(3-6) shift by (simp, blast+)
      from Suc.IH [OF s1(2) c1 this] show ?thesis using that by blast
    qed
    have "vread8 a t = (if unat (a - dst) < min (Suc n) (Suc (length bs))
        then Some ((bs @ [0]) ! unat (a - dst)) else vread8 a s)" if a: "a \<in> B" for a
    proof (cases "a = dst")
      case True
      then show ?thesis using t(3) a s1(4) [OF a] Suc.prems(3) unat_pred_offset [of a dst] by (simp add: bx Cons)
    next
      case False
      then have "unat (a - dst) \<noteq> 0" by (simp add: unat_eq_zero)
      then obtain j where "unat (a - dst) = Suc j" using not0_implies_Suc by blast
      then show ?thesis using False t(3) a s1(4) [OF a] unat_pred_offset [of a dst] by (auto simp: Cons)
    qed
    moreover have "dst + 1 + of_nat ?k = dst + of_nat (min (Suc n) (Suc (length bs)))"
      "p + 1 + of_nat ?k = p + of_nat (min (Suc n) (Suc (length bs)))" by (simp_all add: Cons add.assoc)
    ultimately show ?thesis
      using b s1(1) t(1) wrote8_trans [OF w1 t(2)] by (auto simp: bx Cons)
  qed
qed

lemma skip_string_spec: "cstr s p bs \<Longrightarrow> skip_string p s = Some (p + of_nat (length bs) + 1)"
proof (induction bs arbitrary: p)
  case Nil
  then show ?case by (subst skip_string.simps) simp
next
  case (Cons b bs)
  then show ?case by (subst skip_string.simps) (simp add: add.assoc)
qed

text \<open>C23: \<open>strlcpy\<close> into a buffer of \<open>sz\<close> bytes stores the first \<open>sz - 1\<close> characters of the source and
  a terminator, writes nothing outside the buffer, and returns the length of the source.\<close>

theorem strlcpy_truncates:
  assumes "vm8_ok s B" "cstr s src bs" "sz \<noteq> 0" "range8 dst (unat sz) \<subseteq> B"
    "range8 src (Suc (length bs)) \<subseteq> B" "range8 dst (unat sz) \<inter> range8 src (Suc (length bs)) = {}"
  shows "\<exists>t. strlcpy dst src sz s = Some (of_nat (length bs), t) \<and> cstr t dst (take (unat sz - 1) bs) \<and>
    (\<forall>a \<in> B. a \<notin> range8 dst (unat sz) \<longrightarrow> vread8 a t = vread8 a s)"
proof -
  obtain n where n: "unat sz = Suc n" using assms(3) not0_implies_Suc unat_eq_zero by metis
  have lt: "Suc n < 2 ^ 64" using unsigned_less [of sz, where ?'a = nat] n by simp
  let ?L = "length bs" and ?k = "min n (Suc (length bs))"
  have sub: "range8 dst n \<subseteq> range8 dst (unat sz)" using range8_sub [of 0 n "unat sz" dst] n by simp
  have pre: "n < 2 ^ 64" "range8 dst n \<subseteq> B" "range8 dst n \<inter> range8 src (Suc ?L) = {}"
    using lt sub assms(4,6) by (simp, blast+)
  obtain t where t: "strlcpy_loop (Suc n) dst src s = Some (n - ?L, dst + of_nat ?k, src + of_nat ?k, t)"
      "wrote8 B s t" "\<forall>a \<in> B. vread8 a t = (if unat (a - dst) < ?k
         then Some ((bs @ [0]) ! unat (a - dst)) else vread8 a s)"
    using strlcpy_loop_spec [OF assms(1,2) pre(1,2) assms(5) pre(3)] by blast
  have off: "unat (dst + of_nat i - dst) = i" if "i < Suc n" for i
    using that lt by (simp add: unat_of_nat_small)
  have inB: "dst + of_nat i \<in> B" if "i < Suc n" for i using range8_addr [of i "unat sz" dst] that n assms(4) by auto
  have out: "vread8 a t = vread8 a s" if "a \<in> B" "a \<notin> range8 dst (unat sz)" for a
  proof -
    have "\<not> unat (a - dst) < ?k" using that(2) range8_iff [of "unat sz" a dst] n lt by simp
    then show ?thesis using bspec [OF t(3) that(1)] by (simp only: if_False)
  qed
  have copied: "vread8 (dst + of_nat i) t = Some ((bs @ [0]) ! i)" if "i < ?k" for i
    using that t(3) inB [of i] off [of i] by simp
  have nz: "0 \<notin> set bs" using cstr_nth [OF assms(2)] by (auto simp: in_set_conv_nth)
  show ?thesis
  proof (cases "?L < n")
    case True
    then have "strlcpy dst src sz s = Some (of_nat ?L, t)"
      using t(1) n assms(3) by (simp add: strlcpy_def)
    moreover have "cstr t dst bs"
      by (rule cstrI) (use copied nz True in \<open>auto simp: nth_append\<close>)
    ultimately show ?thesis using out True n by auto
  next
    case False
    then have k: "?k = n" by simp
    have vt: "vm8_ok t B" using t(2) by (simp add: wrote8_def)
    obtain u where u: "vwrite8 (dst + of_nat n) 0 t = Some u"
        "\<And>w. w \<in> B \<Longrightarrow> vread8 w u = (if w = dst + of_nat n then Some 0 else vread8 w t)"
      by (rule vwrite8_spec [OF vt inB [of n]]) auto
    have outu: "vread8 a u = vread8 a s" if "a \<in> B" "a \<notin> range8 dst (unat sz)" for a
      using u(2) [OF that(1)] out [OF that] range8_addr [of n "unat sz" dst] n that(2) by auto
    have cu: "cstr u src bs"
    proof (rule cstr_cong [OF _ assms(2)])
      fix i assume "i \<le> ?L"
      then have m: "src + of_nat i \<in> range8 src (Suc ?L)" by (intro range8_addr) simp
      show "vread8 (src + of_nat i) u = vread8 (src + of_nat i) s"
        by (rule outu) (use m assms(5,6) in blast)+
    qed
    have "skip_string (src + of_nat n) u = Some (src + of_nat n + of_nat (length (drop n bs)) + 1)"
      using skip_string_spec cstr_drop [OF cu, of n] False by (metis not_less)
    moreover have "src + of_nat n + of_nat (length (drop n bs)) + 1 - src - 1 = (of_nat ?L :: u64)"
    proof -
      have "?L = n + length (drop n bs)" using False by simp
      then show ?thesis by (metis (no_types, lifting) add.assoc add_diff_cancel_left' add_diff_cancel_right' of_nat_add)
    qed
    ultimately have "strlcpy dst src sz s = Some (of_nat ?L, u)"
      using t(1) n assms(3) u(1) False k by (simp add: strlcpy_def)
    moreover have "cstr u dst (take n bs)"
    proof (rule cstrI)
      show "0 \<notin> set (take n bs)" using nz set_take_subset [of n bs] by blast
      have l: "length (take n bs) = n" using False by simp
      show "vread8 (dst + of_nat (length (take n bs))) u = Some 0" using u(2) [OF inB [of n]] l by simp
      fix i assume i: "i < length (take n bs)"
      then have "dst + of_nat i \<noteq> dst + of_nat n" using u64_of_nat_inj [of i n] lt l by auto
      then show "vread8 (dst + of_nat i) u = Some (take n bs ! i)"
        using u(2) [OF inB [of i]] copied [of i] i l False by (simp add: nth_append)
    qed
    ultimately show ?thesis using outu n by auto
  qed
qed

theorem strlcpy_truncates_witness:
  "\<exists>(s :: kheap_state) t. cstr s HEAP_START [97, 98, 99] \<and>
     strlcpy (HEAP_START + 64) HEAP_START 3 s = Some (3, t) \<and> cstr t (HEAP_START + 64) [97, 98]"
proof -
  let ?B = "range8 HEAP_START 4096" and ?n = "Suc (length [97, 98, 99 :: u8])"
  obtain s :: kheap_state where s: "vm8_ok s ?B" "cstr s HEAP_START [97, 98, 99]"
    by (rule example_strings [of "[97, 98, 99]" "[]"]) simp_all
  have r: "range8 (HEAP_START + 64) (unat (3 :: u64)) \<subseteq> ?B" "range8 HEAP_START ?n \<subseteq> ?B"
    using range8_sub [of 64 3 4096 HEAP_START] range8_sub [of 0 ?n 4096 HEAP_START] by simp_all
  have "range8 (HEAP_START + 64) (unat (3 :: u64)) \<inter> range8 HEAP_START ?n = {}"
    using range8_disjoint [of ?n 64 3 HEAP_START] by simp
  moreover have "take (unat (3 :: u64) - 1) [97, 98, 99 :: u8] = [97, 98]" by (simp add: take_Cons')
  ultimately show ?thesis using strlcpy_truncates [OF s _ r] s(2) by fastforce
qed

end
