(* ===== verification/Kheap_Zero.thy ===== *)
theory Kheap_Zero
  imports Klibc_Correct
begin

text \<open>
  The zeroing allocators \<open>kzalloc\<close> and \<open>kcalloc\<close> of \<open>klibc/kmem/kheap.c\<close>, which combine the heap
  with \<open>memset\<close>.
\<close>

definition kzalloc :: "u64 \<Rightarrow> 'a kheap_state_scheme \<Rightarrow> (u64 \<times> 'a kheap_state_scheme) option" where
  "kzalloc sz s = do {
     (ptr, s) \<leftarrow> kmalloc sz s;
     s \<leftarrow> (if ptr \<noteq> NULL then map_option snd (memset ptr 0 sz s) else Some s);
     Some (ptr, s)
   }"

definition kcalloc :: "u64 \<Rightarrow> u64 \<Rightarrow> 'a kheap_state_scheme \<Rightarrow> (u64 \<times> 'a kheap_state_scheme) option" where
  "kcalloc n sz s =
     (if n \<noteq> 0 \<and> sz \<noteq> 0 \<and> n > SIZE_MAX div sz then Some (NULL, s) else kzalloc (n * sz) s)"

section \<open>The heap as byte memory\<close>

definition heap_bytes :: "nat \<Rightarrow> nat \<Rightarrow> u64 set" where
  "heap_bytes l z = of_nat ` {l..<z}"

lemma heap_bytes_words:
  assumes "vm_ok s (heap_words l z)" "8 dvd l" "8 dvd z" "z < 2 ^ 64"
  shows "vm8_ok s (heap_bytes l z)"
proof -
  have "qword_addr a \<in> heap_words l z" if "a \<in> heap_bytes l z" for a
  proof -
    obtain x where x: "a = of_nat x" "l \<le> x" "x < z"
      using \<open>a \<in> heap_bytes l z\<close> by (auto simp: heap_bytes_def)
    have u: "unat (qword_addr a) = x - x mod 8" using x assms(4) by (simp add: unat_qword_addr unat_of_nat_small)
    have d: "8 dvd x - x mod 8" by (rule dvd_minus_mod)
    have "l \<le> x - x mod 8"
    proof -
      obtain k where "l = 8 * k" using assms(2) by (rule dvdE)
      moreover obtain r where "x - x mod 8 = 8 * r" using d by (rule dvdE)
      moreover have "x < x - x mod 8 + 8" using mod_less_divisor [of 8 x] by linarith
      ultimately show ?thesis using x(2) by simp
    qed
    then have "(of_nat (unat (qword_addr a)) :: u64) \<in> heap_words l z"
      unfolding u using x(2,3) d assms(4) by (subst heap_words_mem) simp_all
    then show ?thesis by simp
  qed
  then have "qword_addr ` heap_bytes l z \<subseteq> heap_words l z" by blast
  then show ?thesis unfolding vm8_ok_def by (rule vm_ok_mono [OF assms(1)])
qed

lemma heap_words_bytes:
  assumes "vm8_ok s (heap_bytes l z)" "z < 2 ^ 64"
  shows "vm_ok s (heap_words l z)"
proof -
  have "w \<in> qword_addr ` heap_bytes l z" if "w \<in> heap_words l z" for w
  proof -
    obtain y where y: "w = of_nat y" "l \<le> y" "y < z" "8 dvd y"
      using \<open>w \<in> heap_words l z\<close> by (auto simp: heap_words_def)
    have "aligned8 w" using y assms(2) by (simp add: aligned8_def unat_of_nat_small mod_eq_0_iff_dvd)
    then have "qword_addr w = w" using qword_bytes(1) [of w 0] by simp
    then show ?thesis using y by (intro image_eqI [of _ _ w]) (auto simp: heap_bytes_def)
  qed
  then have "heap_words l z \<subseteq> qword_addr ` heap_bytes l z" by blast
  then show ?thesis by (rule vm_ok_mono [OF assms(1) [unfolded vm8_ok_def]])
qed

text \<open>Stores to the bytes of a range change only the quadwords that meet it.\<close>

lemma wrote8_stores:
  assumes "wrote8 (heap_bytes l z) s t" "vm_ok t (heap_words l z)" "z < 2 ^ 64" "8 dvd z" "8 dvd p" "8 dvd n"
    "\<And>x. l \<le> x \<Longrightarrow> x < z \<Longrightarrow> \<not> (p \<le> x \<and> x < p + n) \<Longrightarrow> vread8 (of_nat x) t = vread8 (of_nat x) s"
  shows "stores l z s t {p..<p + n}"
  unfolding stores_def
proof (intro conjI allI impI)
  fix y assume y: "l \<le> y" "y < z" "8 dvd y" "y \<notin> {p..<p + n}"
  have al: "aligned8 (of_nat y)" using y assms(3) by (simp add: aligned8_def unat_of_nat_small mod_eq_0_iff_dvd)
  show "vread (of_nat y) t = vread (of_nat y) s"
  proof (rule vread_bytes_cong [OF al])
    fix k :: nat assume "k < 8"
    obtain a b c d where "y = 8 * a" "z = 8 * b" "p = 8 * c" "n = 8 * d"
      using y(3) assms(4-6) by (auto elim!: dvdE)
    then have "y + k < z" "\<not> (p \<le> y + k \<and> y + k < p + n)" using y(2,4) \<open>k < 8\<close> by auto
    then show "vread8 (of_nat y + of_nat k) t = vread8 (of_nat y + of_nat k) s"
      using assms(7) [of "y + k"] y(1) by simp
  qed
qed (use assms(1,2) in \<open>simp_all add: wrote8_def\<close>)

lemma align16_ge: "unat sz + 15 < 2 ^ 64 \<Longrightarrow> unat sz \<le> unat (align16 sz)"
proof -
  assume *: "unat sz + 15 < 2 ^ 64"
  have "(15 :: u64) = mask 4" by (simp add: mask_eq_exp_minus_1)
  then have "unat (align16 sz) = unat (sz + 15) - unat (sz + 15) mod 16"
    using unat_and_not_mask [of "sz + 15" 4] by (simp only: align16_def) simp
  moreover have "unat (sz + 15) = unat sz + 15" using * by (subst unat_plus_no_overflow) simp_all
  ultimately show ?thesis by simp
qed

section \<open>Zeroed memory\<close>

lemma heap_ok_payload:
  assumes "heap_ok s (xs @ (k, f) # ys)"
    "stores HEAP_BASE (heap_end (xs @ (k, f) # ys)) s t {heap_end xs + 24..<heap_end xs + 24 + n}" "n \<le> k"
  shows "heap_ok t (xs @ (k, f) # ys)"
proof -
  note hb = heap_ok_block [OF assms(1)]
  have "heap_end xs + 24 \<le> heap_end (xs @ (k, f) # ys)" using hb(3) by simp
  note bf = block_fields_stores [OF assms(2) hb(2) this hb(5)]
  show ?thesis
    using heap_ok_replace [OF assms(1,2), of "[(k, f)]"] bf hb(6-9) assms(3) by auto
qed

text \<open>A store into a block leaves the list alone.\<close>

lemma poke_payload:
  fixes s :: "'a kheap_state_scheme"
  assumes "heap_ok s (xs @ (k, f) # ys)" "8 dvd i" "i + 8 \<le> k"
  obtains t where "vwrite (of_nat (heap_end xs + 24 + i)) q s = Some t" "heap_ok t (xs @ (k, f) # ys)"
    "stores HEAP_BASE (heap_end (xs @ (k, f) # ys)) s t {heap_end xs + 24 + i}"
    "vread (of_nat (heap_end xs + 24 + i)) t = Some q"
proof -
  let ?z = "heap_end (xs @ (k, f) # ys)" and ?x = "heap_end xs + 24 + i"
  note hb = heap_ok_block [OF assms(1)]
  obtain t where t: "vwrite (of_nat ?x) q s = Some t" "vm_ok t (heap_words HEAP_BASE ?z)" "t = s\<lparr>pmem := pmem t\<rparr>"
      "vread (of_nat ?x) t = Some q"
      "\<And>y. HEAP_BASE \<le> y \<Longrightarrow> y < ?z \<Longrightarrow> 8 dvd y \<Longrightarrow> y \<noteq> ?x \<Longrightarrow> vread (of_nat y) t = vread (of_nat y) s"
    by (rule heap_store [OF hb(1), of ?x q]) (use hb(2-5) assms(2,3) in \<open>simp_all add: dvd_add\<close>)
  have st: "stores HEAP_BASE ?z s t {?x}" using t by (simp add: stores_def)
  have "stores HEAP_BASE ?z s t {heap_end xs + 24..<heap_end xs + 24 + k}"
    by (rule stores_trans [OF st stores_refl [OF t(2)]]) (use assms(3) in auto)
  then have "heap_ok t (xs @ (k, f) # ys)" by (rule heap_ok_payload [OF assms(1)]) simp
  then show ?thesis using that t(1,4) st by blast
qed

lemma kzalloc_spec:
  assumes "heap_ok s bs" "sz \<noteq> 0" "unat sz + 15 < 2 ^ 64"
    "first_fit (unat (align16 sz)) bs = Some (xs, m, ys)"
  obtains t where "kzalloc sz s = Some (of_nat (heap_end xs + 24), t)"
    "heap_ok t (xs @ carve (unat (align16 sz)) m @ ys)" "keeps bs s t"
    "\<And>i. i < unat sz \<Longrightarrow> vread8 (of_nat (heap_end xs + 24 + i)) t = Some 0"
proof -
  let ?n = "unat (align16 sz)" and ?p = "heap_end xs + 24" and ?z = "heap_end bs"
  have bs: "bs = xs @ (m, True) # ys" "?n \<le> m" using first_fit_Some [OF assms(4)] by auto
  obtain t where t: "kmalloc sz s = Some (of_nat ?p, t)" "heap_ok t (xs @ carve ?n m @ ys)"
      "stores HEAP_BASE ?z s t {heap_end xs..<heap_end xs + 24 + m}"
    using kmalloc_fit [OF assms(1,2,4)] by blast
  obtain k zs where kz: "carve ?n m @ ys = (k, False) # zs" "?n \<le> k"
    using bs(2) by (cases "m \<le> ?n + 24") (auto simp: carve_def)
  have ok: "heap_ok t (xs @ (k, False) # zs)" using t(2) kz(1) by simp
  note hb = heap_ok_block [OF ok]
  have ze: "heap_end (xs @ (k, False) # zs) = ?z"
    using arg_cong [OF kz(1), of "blocks_end (heap_end xs)"] by (simp add: bs(1))
  have zd: "8 dvd ?z" "?z < 2 ^ 64"
    using ok heap_seg_dvd [of t HEAP_BASE "xs @ (k, False) # zs" NULL] ze by (simp_all add: heap_ok_def)
  have nn: "unat sz \<le> ?n" by (rule align16_ge [OF assms(3)])
  have bnd: "?p + ?n \<le> ?z" "HEAP_BASE \<le> ?p" using hb(2,3) ze kz(2) by simp_all
  have vt: "vm8_ok t (heap_bytes HEAP_BASE ?z)"
    by (rule heap_bytes_words) (use hb(1) ze zd in simp_all)
  have off: "unat ((of_nat x :: u64) - of_nat ?p) = x - ?p" if "?p \<le> x" "x < ?z" for x
  proof -
    have "(of_nat x :: u64) - of_nat ?p = of_nat (x - ?p)" using that(1) by (simp only: of_nat_diff)
    then show ?thesis using that(2) zd(2) by (simp only:) (rule unat_of_nat_small, simp)
  qed
  have off': "\<not> unat ((of_nat x :: u64) - of_nat ?p) < unat sz" if "\<not> (?p \<le> x \<and> x < ?p + ?n)" "x < ?z" for x
  proof
    assume "unat ((of_nat x :: u64) - of_nat ?p) < unat sz"
    then obtain i where i: "i < unat sz" "(of_nat x :: u64) = of_nat ?p + of_nat i"
      using addr_offset [of "unat ((of_nat x :: u64) - of_nat ?p)" "of_nat x" "of_nat ?p"]
        unsigned_less [of sz, where ?'a = nat] by auto
    then have "x = ?p + i"
      using u64_of_nat_inj [of x "?p + i"] bnd nn zd(2) that(2) by simp
    then show False using that(1) i(1) nn by simp
  qed
  have sub: "range8 (of_nat ?p) (unat sz) \<subseteq> heap_bytes HEAP_BASE ?z"
  proof
    fix a assume "a \<in> range8 (of_nat ?p) (unat sz)"
    then obtain i where i: "i < unat sz" "a = of_nat ?p + of_nat i" by (auto simp: range8_def)
    then have "a = of_nat (?p + i)" by simp
    moreover have "?p + i \<in> {HEAP_BASE..<?z}" using i(1) nn bnd by simp
    ultimately show "a \<in> heap_bytes HEAP_BASE ?z" unfolding heap_bytes_def by (rule image_eqI)
  qed
  obtain u where u: "memset (of_nat ?p) 0 sz t = Some (of_nat ?p, u)" "wrote8 (heap_bytes HEAP_BASE ?z) t u"
      "\<forall>a \<in> heap_bytes HEAP_BASE ?z. vread8 a u =
         (if unat (a - of_nat ?p) < unat sz then Some 0 else vread8 a t)"
    using memset_spec [OF vt sub, of 0] by auto
  have vu: "vm_ok u (heap_words HEAP_BASE ?z)"
    using u(2) zd(2) by (intro heap_words_bytes) (simp_all add: wrote8_def)
  have "8 dvd ?n" by (rule dvd_trans [OF _ align16_dvd]) simp
  moreover have "8 dvd ?p" using hb(5) by simp
  ultimately have st: "stores HEAP_BASE ?z t u {?p..<?p + ?n}"
  proof (intro wrote8_stores [OF u(2) vu zd(2,1)])
    fix x assume x: "HEAP_BASE \<le> x" "x < ?z" "\<not> (?p \<le> x \<and> x < ?p + ?n)"
    then have "of_nat x \<in> heap_bytes HEAP_BASE ?z" by (auto simp: heap_bytes_def)
    then show "vread8 (of_nat x) u = vread8 (of_nat x) t" using u(3) off' [OF x(3,2)] by auto
  qed
  have oku: "heap_ok u (xs @ carve ?n m @ ys)"
    using heap_ok_payload [OF ok _ kz(2)] st ze kz(1) by simp
  have "keeps bs s t" by (rule keeps_stores [OF t(3)]) (use live_other_block bs(1) in auto)
  moreover have "keeps bs t u"
  proof (rule keeps_stores [OF st order_refl])
    fix y assume "live HEAP_BASE bs y"
    then show "y \<notin> {?p..<?p + ?n}" using live_other_block [of xs m ys y] bs by auto
  qed
  ultimately have "keeps bs s u" by (rule keeps_trans)
  moreover have "(of_nat ?p :: u64) \<noteq> NULL" using bnd zd(2) by (intro block_nonnull) simp_all
  then have "kzalloc sz s = Some (of_nat ?p, u)" using t(1) u(1) by (simp add: kzalloc_def)
  moreover have "vread8 (of_nat (?p + i)) u = Some 0" if "i < unat sz" for i
  proof -
    have "?p + i < ?z" using that nn bnd by simp
    then show ?thesis
      using bspec [OF u(3), of "of_nat (?p + i)"] that bnd(2) off [of "?p + i"]
      by (simp add: heap_bytes_def del: of_nat_add)
  qed
  ultimately show ?thesis using that oku by blast
qed

lemma kcalloc_guard:
  fixes n sz :: u64
  assumes "sz \<noteq> 0"
  shows "n > SIZE_MAX div sz \<longleftrightarrow> 2 ^ 64 \<le> unat n * unat sz"
proof -
  have "0 < unat sz" using assms unat_eq_zero [of sz] by simp
  then have "unat n > (2 ^ 64 - 1) div unat sz \<longleftrightarrow> 2 ^ 64 - 1 < unat n * unat sz"
    by (simp add: div_less_iff_less_mult)
  then show ?thesis by (simp add: SIZE_MAX_def word_less_nat_alt unat_div) linarith
qed

text \<open>C19: \<open>kcalloc\<close> returns \<open>NULL\<close> and leaves the heap untouched exactly on the guard of the source: when the
  product of its arguments does not fit 64 bits.\<close>

theorem kcalloc_overflow:
  assumes "2 ^ 64 \<le> unat n * unat sz"
  shows "kcalloc n sz s = Some (NULL, s)"
proof -
  have "unat n \<noteq> 0" "unat sz \<noteq> 0" using assms by (cases "unat n"; cases "unat sz"; simp)+
  then have "n \<noteq> 0" "sz \<noteq> 0" by auto
  then show ?thesis using kcalloc_guard assms by (simp add: kcalloc_def)
qed

theorem kcalloc_overflow_witness: "kcalloc 0x100000000 0x100000000 kheap_example = Some (NULL, kheap_example)"
  by (rule kcalloc_overflow) simp

text \<open>C26: when the product fits and a block is large enough, \<open>kcalloc\<close> returns the first such block with every
  requested byte zero, and the contents of all other blocks in use are unchanged.\<close>

theorem kcalloc_zeroes:
  assumes "heap_ok s bs" "n \<noteq> 0" "sz \<noteq> 0" "unat n * unat sz + 15 < 2 ^ 64"
    "first_fit (unat (align16 (n * sz))) bs = Some (xs, m, ys)"
  shows "\<exists>t. kcalloc n sz s = Some (of_nat (heap_end xs + 24), t) \<and> keeps bs s t \<and>
       heap_ok t (xs @ carve (unat (align16 (n * sz))) m @ ys) \<and>
       (\<forall>i < unat n * unat sz. vread8 (of_nat (heap_end xs + 24 + i)) t = Some 0)"
proof -
  have u: "unat (n * sz) = unat n * unat sz" using assms(4) by (simp add: unat_word_ariths)
  have "unat n * unat sz \<noteq> 0" using assms(2,3) by (simp add: unat_eq_zero)
  then have nz: "n * sz \<noteq> 0" using u by (metis unat_0)
  from kzalloc_spec [OF assms(1) nz _ assms(5)] obtain t where
      "kzalloc (n * sz) s = Some (of_nat (heap_end xs + 24), t)"
      "heap_ok t (xs @ carve (unat (align16 (n * sz))) m @ ys)" "keeps bs s t"
      "\<And>i. i < unat (n * sz) \<Longrightarrow> vread8 (of_nat (heap_end xs + 24 + i)) t = Some 0"
    using assms(4) u by metis
  moreover have "\<not> n > SIZE_MAX div sz" using kcalloc_guard [OF assms(3)] assms(4) by simp
  ultimately show ?thesis using u by (simp add: kcalloc_def)
qed

theorem kcalloc_zeroes_witness:
  "\<exists>t u. init_kheap kheap_example = Some (4072, t) \<and> kcalloc 4 25 t = Some (0xFFFF800010000018, u) \<and>
     heap_ok u [(112, False), (3936, True)] \<and> vread8 0xFFFF80001000007B u = Some 0"
proof -
  obtain t where t: "init_kheap kheap_example = Some (4072, t)" "heap_ok t [(4072, True)]"
    using init_kheap_spec [of kheap_example] kheap_example_ok by auto
  have p: "(of_nat (heap_end [] + 24) :: u64) = 0xFFFF800010000018"
    "(of_nat (heap_end [] + 24 + 99) :: u64) = 0xFFFF80001000007B" by (simp_all add: of_nat_add HEAP_START_def)
  obtain u where u: "kcalloc 4 25 t = Some (of_nat (heap_end [] + 24), u)"
      "heap_ok u ([] @ carve (unat (align16 100)) 4072 @ [])"
      "\<forall>i < 100. vread8 (of_nat (heap_end [] + 24 + i)) u = Some 0"
    using kcalloc_zeroes [OF t(2), of 4 25 "[]" 4072 "[]"] example_first_kmalloc(1) by auto
  have "vread8 0xFFFF80001000007B u = Some 0" using u(3) [rule_format, of 99] by (simp add: HEAP_START_def)
  then show ?thesis using t(1) u(1,2) p(1) example_first_kmalloc(2) [of "[]" "[]"] by auto
qed

end
