(* ===== verification/Kheap_Clients.thy ===== *)
theory Kheap_Clients
  imports Kheap_Zero
begin

text \<open>
  The heap as its clients see it.  A client allocates, releases what it allocated, and stores into what
  it holds; a ghost state records which pointers are held, with their sizes, and what was last stored
  where.  In every reachable state the allocations are disjoint and a load returns the last store.
\<close>

section \<open>Blocks in use\<close>

text \<open>The payloads in use, as pairs of address and size.\<close>

fun used :: "nat \<Rightarrow> block list \<Rightarrow> (nat \<times> nat) set" where
  "used a [] = {}"
| "used a ((n, f) # bs) = (if f then {} else {(a + 24, n)}) \<union> used (a + 24 + n) bs"

lemma used_append: "used a (xs @ ys) = used a xs \<union> used (blocks_end a xs) ys"
  by (induction xs arbitrary: a) auto

lemma used_bounds: "(y, m) \<in> used a bs \<Longrightarrow> a + 24 \<le> y \<and> y + m \<le> blocks_end a bs"
proof (induction bs arbitrary: a)
  case (Cons b bs)
  obtain n f where "b = (n, f)" by (cases b)
  then show ?case using Cons.prems Cons.IH [of "a + 24 + n"] blocks_end_ge [of "a + 24 + n" bs]
    by (auto split: if_splits)
qed simp

lemma used_live: "(y, m) \<in> used a bs \<Longrightarrow> y \<le> z \<Longrightarrow> z < y + m \<Longrightarrow> live a bs z"
  by (induction bs arbitrary: a) (auto split: if_splits)

lemma used_split:
  assumes "(y, m) \<in> used a bs"
  obtains xs ys where "bs = xs @ (m, False) # ys" "y = blocks_end a xs + 24"
  using assms
proof (induction bs arbitrary: a thesis)
  case (Cons b bs)
  obtain n f where b: "b = (n, f)" by (cases b)
  show ?case
  proof (cases "\<not> f \<and> y = a + 24 \<and> m = n")
    case True
    then show ?thesis using Cons.prems(1) [of "[]" bs] b by simp
  next
    case False
    then have "(y, m) \<in> used (a + 24 + n) bs" using Cons.prems(2) b by (auto split: if_splits)
    from Cons.IH [OF _ this] obtain xs ys where "bs = xs @ (m, False) # ys" "y = blocks_end (a + 24 + n) xs + 24" by blast
    then show ?thesis using Cons.prems(1) [of "b # xs" ys] b by simp
  qed
qed simp

lemma used_disjoint:
  assumes "(y, m) \<in> used a bs" "(z, k) \<in> used a bs" "y \<noteq> z"
  shows "y + m \<le> z \<or> z + k \<le> y"
  using assms
proof (induction bs arbitrary: a)
  case (Cons b bs)
  obtain n f where b: "b = (n, f)" by (cases b)
  have far: "a + 24 + n + 24 \<le> x" if "(x, j) \<in> used (a + 24 + n) bs" for x j
    using used_bounds [OF that] by simp
  show ?case using Cons.prems Cons.IH [of "a + 24 + n"] far b by (fastforce split: if_splits)
qed simp

lemma used_coalesce: "used a (coalesce bs) = used a bs"
proof (induction bs arbitrary: a rule: coalesce.induct)
  case (3 b c bs)
  then show ?case by (cases b; cases c) (auto simp: add.assoc)
qed auto

lemma used_carve: "\<exists>k. n \<le> k \<and> used a (carve n m) = {(a + 24, k)}" if "n \<le> m"
  using that by (auto simp: carve_def)

lemma used_allocate:
  assumes "n \<le> m"
  obtains k where "n \<le> k"
    "used HEAP_BASE (xs @ carve n m @ ys) = insert (heap_end xs + 24, k) (used HEAP_BASE (xs @ (m, True) # ys))"
proof -
  obtain k where "n \<le> k" "used (heap_end xs) (carve n m) = {(heap_end xs + 24, k)}"
    using used_carve [OF assms] by blast
  then show ?thesis using that [of k] by (simp add: used_append)
qed

lemma used_free_block: "(heap_end xs + 24, k) \<notin> used HEAP_BASE (xs @ (m, True) # ys)"
  using used_bounds [of "heap_end xs + 24" k HEAP_BASE xs] used_bounds [of "heap_end xs + 24" k "heap_end xs + 24 + m" ys]
  by (auto simp: used_append)

lemma used_release:
  assumes "(y, k) \<in> used HEAP_BASE (xs @ (m, False) # ys)" "y \<noteq> heap_end xs + 24"
  shows "(y, k) \<in> used HEAP_BASE (coalesce (xs @ (m, True) # ys))"
  using assms by (auto simp: used_coalesce used_append)

section \<open>Clients\<close>

type_synonym 'a client = "'a kheap_state_scheme \<times> (u64 \<Rightarrow> nat option) \<times> (u64 \<Rightarrow> u64 option)"

text \<open>The quadword at \<open>a\<close> lies in the allocation \<open>p\<close>.\<close>

definition owns :: "(u64 \<Rightarrow> nat option) \<Rightarrow> u64 \<Rightarrow> u64 \<Rightarrow> bool" where
  "owns A p a \<longleftrightarrow> (case A p of None \<Rightarrow> False | Some n \<Rightarrow> unat p \<le> unat a \<and> unat a + 8 \<le> unat p + n \<and> 8 dvd unat a)"

text \<open>A request the heap can deal with: some free block is large enough, or the heap grows at the end of its list, whether the
  physical memory suffices or not.  Left out is the first growth after \<open>init_kheap\<close>, which starts at \<open>HEAP_START\<close> instead.\<close>

definition served :: "u64 \<Rightarrow> block list \<Rightarrow> 'a kheap_state_scheme \<Rightarrow> bool" where
  "served sz bs s \<longleftrightarrow> first_fit (unat (align16 sz)) bs \<noteq> None \<or>
     heap_full_ok s bs \<and> heap_end bs + 4096 * heap_pages (align16 sz) < 2 ^ 64"

text \<open>A client that gets a null pointer holds nothing new.  Requests within 15 bytes of \<open>SIZE_MAX\<close>, whose rounded size wraps
  around, are left out.\<close>

inductive client_step :: "'a client \<Rightarrow> 'a client \<Rightarrow> bool" where
  allocate: "heap_ok s bs \<Longrightarrow> served sz bs s \<Longrightarrow> unat sz + 15 < 2 ^ 64 \<Longrightarrow> kmalloc sz s = Some (p, t) \<Longrightarrow>
    client_step (s, A, M) (t, if p = NULL then A else A(p \<mapsto> unat sz), M)"
| release: "A p \<noteq> None \<Longrightarrow> kfree p s = Some t \<Longrightarrow>
    client_step (s, A, M) (t, A(p := None), \<lambda>a. if owns A p a then None else M a)"
| store: "owns A p a \<Longrightarrow> vwrite a x s = Some t \<Longrightarrow> client_step (s, A, M) (t, A, M(a \<mapsto> x))"

inductive_cases client_stepE: "client_step (s, A, M) c"

definition client_ok :: "'a client \<Rightarrow> bool" where
  "client_ok c \<longleftrightarrow> (case c of (s, A, M) \<Rightarrow> \<exists>bs. heap_ok s bs \<and>
     (\<forall>p n. A p = Some n \<longrightarrow> (\<exists>m. (unat p, m) \<in> used HEAP_BASE bs \<and> n \<le> m)) \<and>
     (\<forall>a x. M a = Some x \<longrightarrow> vread a s = Some x \<and> (\<exists>p. owns A p a)))"

lemma owns_live:
  assumes "\<And>p n. A p = Some n \<Longrightarrow> \<exists>m. (unat p, m) \<in> used HEAP_BASE bs \<and> n \<le> m" "owns A p a"
  shows "live HEAP_BASE bs (unat a)" "8 dvd unat a"
proof -
  obtain n where n: "A p = Some n" "unat p \<le> unat a" "unat a + 8 \<le> unat p + n" "8 dvd unat a"
    using assms(2) by (auto simp: owns_def split: option.splits)
  then show "8 dvd unat a" by blast
  obtain m where "(unat p, m) \<in> used HEAP_BASE bs" "n \<le> m" using assms(1) [OF n(1)] by blast
  then show "live HEAP_BASE bs (unat a)" using n used_live by fastforce
qed

lemma keeps_read: "keeps bs s t \<Longrightarrow> live HEAP_BASE bs (unat a) \<Longrightarrow> 8 dvd unat a \<Longrightarrow> vread a t = vread a s"
  by (auto simp: keeps_def dest: spec [of _ "unat a"])

lemma payload_pointer:
  assumes "heap_ok s (xs @ (m, f) # ys)"
  shows "unat (of_nat (heap_end xs + 24) :: u64) = heap_end xs + 24"
  using heap_ok_block(3,4) [OF assms] by (simp add: unat_of_nat_small del: of_nat_add)

text \<open>The memory determines the block list.\<close>

lemma heap_seg_unique:
  "heap_seg s a bs NULL \<Longrightarrow> heap_seg s a cs NULL \<Longrightarrow> blocks_end a bs < 2 ^ 64 \<Longrightarrow> blocks_end a cs < 2 ^ 64 \<Longrightarrow>
   bs \<noteq> [] \<Longrightarrow> cs \<noteq> [] \<Longrightarrow> bs = cs"
proof (induction bs arbitrary: a cs)
  case (Cons b bs)
  obtain n f where b: "b = (n, f)" by (cases b)
  obtain m g ds where c: "cs = (m, g) # ds" using Cons.prems(6) by (cases cs) auto
  have lt: "a + 24 + n < 2 ^ 64" "a + 24 + m < 2 ^ 64"
    using Cons.prems(3,4) b c blocks_end_ge [of "a + 24 + n" bs] blocks_end_ge [of "a + 24 + m" ds] by simp_all
  have "(of_nat n :: u64) = of_nat m" "f = g" using Cons.prems(1,2) b c by auto
  then have nm: "n = m" using u64_of_nat_inj [of n m] lt by simp
  have nz: "(of_nat (a + 24 + n) :: u64) \<noteq> NULL" using block_nonnull [of "a + 24 + n"] lt by simp
  have "bs = [] \<longleftrightarrow> ds = []" using Cons.prems(1,2) b c nm nz by (auto split: if_splits)
  then have "bs = ds" using Cons.IH [of "a + 24 + n" ds] Cons.prems(1-4) b c nm by (cases "bs = []") auto
  then show ?case using b c nm \<open>f = g\<close> by simp
qed simp

lemma heap_ok_unique: "heap_ok s bs \<Longrightarrow> heap_ok s cs \<Longrightarrow> bs = cs"
  by (rule heap_seg_unique [of s HEAP_BASE]) (auto simp: heap_ok_def)

text \<open>What an allocation does to the payloads in use.\<close>

lemma kmalloc_used:
  assumes "heap_ok s bs" "served sz bs s" "sz \<noteq> 0" "kmalloc sz s = Some (p, t)"
  obtains cs where "heap_ok t cs" "keeps bs s t"
    "p = NULL \<and> used HEAP_BASE cs = used HEAP_BASE bs \<or>
     p \<noteq> NULL \<and> (\<exists>k \<ge> unat (align16 sz). used HEAP_BASE cs = insert (unat p, k) (used HEAP_BASE bs)) \<and>
       (\<forall>k. (unat p, k) \<notin> used HEAP_BASE bs)"
proof (cases "first_fit (unat (align16 sz)) bs")
  case None
  let ?m = "4096 * heap_pages (align16 sz) - 24"
  have grow: "heap_full_ok s bs" "heap_end bs + 4096 * heap_pages (align16 sz) < 2 ^ 64"
    using assms(2) None by (simp_all add: served_def)
  consider "p = NULL" "heap_full_ok t bs" "keeps bs s t"
    | "p = of_nat (heap_end bs + 24)" "heap_full_ok t (bs @ [(?m, False)])" "keeps bs s t"
    using kmalloc_grow_spec [OF grow(1) assms(3) None grow(2) assms(4)] by blast
  then show ?thesis
  proof cases
    case 1
    then show ?thesis using that [of bs] by (simp add: heap_full_ok_def)
  next
    case 2
    then have ok: "heap_ok t (bs @ (?m, False) # [])" by (simp add: heap_full_ok_def)
    have up: "unat p = heap_end bs + 24" using payload_pointer [OF ok] 2(1) by simp
    have "unat (align16 sz) \<le> ?m" unfolding heap_pages_def by linarith
    moreover have "used HEAP_BASE (bs @ [(?m, False)]) = insert (unat p, ?m) (used HEAP_BASE bs)" by (simp add: used_append up)
    moreover have "(unat p, k) \<notin> used HEAP_BASE bs" for k using used_bounds [of "unat p" k HEAP_BASE bs] up by auto
    moreover have "p \<noteq> NULL" using up by auto
    ultimately show ?thesis using that [of "bs @ [(?m, False)]"] ok 2(3) by blast
  qed
next
  case (Some r)
  let ?n = "unat (align16 sz)"
  obtain xs m ys where ff: "first_fit ?n bs = Some (xs, m, ys)" using Some by (cases r) auto
  then have bs: "bs = xs @ (m, True) # ys" "?n \<le> m" using first_fit_Some by blast+
  obtain t' where "kmalloc sz s = Some (of_nat (heap_end xs + 24), t')" "heap_ok t' (xs @ carve ?n m @ ys)" "keeps bs s t'"
    by (rule kmalloc_keeps [OF assms(1,3) ff])
  then have t: "p = of_nat (heap_end xs + 24)" "heap_ok t (xs @ carve ?n m @ ys)" "keeps bs s t" using assms(4) by simp_all
  have up: "unat p = heap_end xs + 24" using payload_pointer assms(1) t(1) bs(1) by blast
  obtain k where k: "?n \<le> k" "used HEAP_BASE (xs @ carve ?n m @ ys) = insert (unat p, k) (used HEAP_BASE bs)"
    using used_allocate [OF bs(2), of xs ys] up bs(1) by metis
  have "(unat p, j) \<notin> used HEAP_BASE bs" for j using used_free_block [of xs j m ys] up bs(1) by simp
  moreover have "p \<noteq> NULL" using up by auto
  ultimately show ?thesis using that t(2,3) k by blast
qed

lemma client_allocate:
  assumes "client_ok (s, A, M)" "heap_ok s bs" "served sz bs s" "unat sz + 15 < 2 ^ 64" "kmalloc sz s = Some (p, t)"
  shows "client_ok (t, if p = NULL then A else A(p \<mapsto> unat sz), M)"
proof (cases "sz = 0")
  case True
  then show ?thesis using assms(1,5) by (simp add: kmalloc_def kheap_alloc_def)
next
  case False
  let ?A = "if p = NULL then A else A(p \<mapsto> unat sz)"
  have inv: "\<And>p n. A p = Some n \<Longrightarrow> \<exists>m. (unat p, m) \<in> used HEAP_BASE bs \<and> n \<le> m"
      "\<And>a x. M a = Some x \<Longrightarrow> vread a s = Some x \<and> (\<exists>p. owns A p a)"
    using assms(1) heap_ok_unique [OF _ assms(2)] by (auto simp: client_ok_def)
  obtain cs where cs: "heap_ok t cs" "keeps bs s t"
    "p = NULL \<and> used HEAP_BASE cs = used HEAP_BASE bs \<or>
     p \<noteq> NULL \<and> (\<exists>k \<ge> unat (align16 sz). used HEAP_BASE cs = insert (unat p, k) (used HEAP_BASE bs)) \<and>
       (\<forall>k. (unat p, k) \<notin> used HEAP_BASE bs)"
    by (rule kmalloc_used [OF assms(2,3) False assms(5)])
  have fresh: "p \<noteq> NULL \<Longrightarrow> A p = None" using inv(1) [of p] cs(3) by (cases "A p") auto
  have "\<exists>j. (unat q, j) \<in> used HEAP_BASE cs \<and> n \<le> j" if "?A q = Some n" for q n
    using that inv(1) [of q n] align16_ge [OF assms(4)] cs(3) by (cases "q = p") (auto split: if_splits intro: order_trans)
  moreover have "vread a t = Some x \<and> (\<exists>q. owns ?A q a)" if mx: "M a = Some x" for a x
  proof -
    obtain q where q: "owns A q a" "vread a s = Some x" using inv(2) [OF mx] by blast
    then have "p \<noteq> NULL \<Longrightarrow> q \<noteq> p" using fresh by (auto simp: owns_def)
    then have "owns ?A q a" using q(1) by (auto simp: owns_def)
    then show ?thesis using keeps_read [OF cs(2) owns_live [OF inv(1) q(1)]] q(2) by auto
  qed
  ultimately show ?thesis using cs(1) unfolding client_ok_def prod.case by blast
qed

lemma client_release:
  assumes "client_ok (s, A, M)" "A p \<noteq> None"
  obtains t where "kfree p s = Some t" "client_ok (t, A(p := None), \<lambda>a. if owns A p a then None else M a)"
proof -
  obtain bs where inv: "heap_ok s bs" "\<And>p n. A p = Some n \<Longrightarrow> \<exists>m. (unat p, m) \<in> used HEAP_BASE bs \<and> n \<le> m"
      "\<And>a x. M a = Some x \<Longrightarrow> vread a s = Some x \<and> (\<exists>p. owns A p a)"
    using assms(1) by (auto simp: client_ok_def)
  obtain n m where n: "(unat p, m) \<in> used HEAP_BASE bs" using assms(2) inv(2) [of p] by auto
  obtain xs ys where bs: "bs = xs @ (m, False) # ys" "unat p = heap_end xs + 24" by (rule used_split [OF n])
  have p: "p = of_nat (heap_end xs + 24)" unfolding bs(2) [symmetric] by simp
  let ?cs = "xs @ (m, True) # ys"
  obtain t where t: "kfree p s = Some t" "heap_ok t (coalesce ?cs)" "keeps ?cs s t"
    using kfree_keeps [OF inv(1) [unfolded bs(1)]] unfolding p by blast
  have rest: "\<exists>k. (unat q, k) \<in> used HEAP_BASE (coalesce ?cs) \<and> j \<le> k" if "(A(p := None)) q = Some j" for q j
  proof -
    have "q \<noteq> p" "A q = Some j" using that by (auto split: if_splits)
    moreover from this have "unat q \<noteq> unat p" by (simp add: word_unat_eq_iff)
    ultimately show ?thesis using inv(2) [of q j] used_release [of "unat q" _ xs m ys] bs by auto
  qed
  have "vread a t = Some x \<and> (\<exists>q. owns (A(p := None)) q a)" if ax: "\<not> owns A p a" "M a = Some x" for a x
  proof -
    obtain q where q: "owns A q a" "vread a s = Some x" using inv(3) [OF ax(2)] by blast
    then have o: "owns (A(p := None)) q a" using ax(1) by (auto simp: owns_def)
    have "\<exists>k. (unat r, k) \<in> used HEAP_BASE ?cs \<and> j \<le> k" if "(A(p := None)) r = Some j" for r j
      using rest [OF that] by (simp add: used_coalesce)
    from owns_live [OF this o] show ?thesis using keeps_read [OF t(3)] q(2) o by auto
  qed
  then have "client_ok (t, A(p := None), \<lambda>a. if owns A p a then None else M a)"
    using t(2) rest by (auto simp: client_ok_def split: if_splits)
  then show ?thesis using that t(1) by blast
qed

lemma client_store:
  assumes "client_ok (s, A, M)" "owns A p a"
  obtains t where "vwrite a x s = Some t" "client_ok (t, A, M(a \<mapsto> x))"
proof -
  obtain bs where inv: "heap_ok s bs" "\<And>p n. A p = Some n \<Longrightarrow> \<exists>m. (unat p, m) \<in> used HEAP_BASE bs \<and> n \<le> m"
      "\<And>a x. M a = Some x \<Longrightarrow> vread a s = Some x \<and> (\<exists>p. owns A p a)"
    using assms(1) by (auto simp: client_ok_def)
  obtain n where n: "A p = Some n" "unat p \<le> unat a" "unat a + 8 \<le> unat p + n" "8 dvd unat a"
    using assms(2) by (auto simp: owns_def split: option.splits)
  obtain m where m: "(unat p, m) \<in> used HEAP_BASE bs" "n \<le> m" using inv(2) [OF n(1)] by blast
  obtain xs ys where bs: "bs = xs @ (m, False) # ys" "unat p = heap_end xs + 24" by (rule used_split [OF m(1)])
  have ok: "heap_ok s (xs @ (m, False) # ys)" using inv(1) bs(1) by simp
  define i where "i = unat a - unat p"
  have a: "heap_end xs + 24 + i = unat a" "i + 8 \<le> m" using n m(2) bs(2) by (simp_all add: i_def)
  have "8 dvd heap_end xs + 24" using heap_ok_block(5) [OF ok] by simp
  then have "8 dvd i" using n(4) a(1) by (metis dvd_add_right_iff)
  then obtain t where t: "vwrite a x s = Some t" "heap_ok t bs" "stores HEAP_BASE (heap_end bs) s t {unat a}" "vread a t = Some x"
    using poke_payload [OF ok _ a(2), of x] unfolding a(1) bs(1) by auto
  have "vread b t = Some y \<and> (\<exists>q. owns A q b)" if my: "(M(a \<mapsto> x)) b = Some y" for b y
  proof (cases "b = a")
    case True
    then show ?thesis using my t(4) assms(2) by auto
  next
    case False
    then obtain q where q: "owns A q b" "vread b s = Some y" using my inv(3) [of b y] by auto
    note live = owns_live [OF inv(2) q(1)]
    have "unat b \<noteq> unat a" using False by (simp add: word_unat_eq_iff)
    then have "vread (of_nat (unat b)) t = vread (of_nat (unat b)) s"
      using live_bounds [OF live(1)] by (intro storesD(3) [OF t(3) _ _ live(2)]) auto
    then show ?thesis using q by auto
  qed
  then have "client_ok (t, A, M(a \<mapsto> x))" using t(2) inv(2) unfolding client_ok_def by auto
  then show ?thesis using that t(1) by blast
qed

lemma client_step_ok: "client_step c d \<Longrightarrow> client_ok c \<Longrightarrow> client_ok d"
proof (induction rule: client_step.induct)
  case (allocate s bs sz p t A M)
  then show ?case using client_allocate by blast
next
  case (release A p s t M)
  then show ?case using client_release [of s A M p] by force
next
  case (store A p a x s t M)
  then show ?case using client_store [of s A M p a x] by force
qed

lemma clients_ok: "client_step\<^sup>*\<^sup>* c d \<Longrightarrow> client_ok c \<Longrightarrow> client_ok d"
  by (induction rule: rtranclp_induct) (auto intro: client_step_ok)

section \<open>Properties\<close>



end
