(* ===== verification/Pic.thy ===== *)
theory Pic
  imports Ports
begin

text \<open>
  The two 8259 interrupt controllers (\<open>cpu/pic/pic.c\<close>).  Every routine is a sequence of port
  accesses.  The behaviour of the chip itself is not code of the kernel: the function
  \<open>pic_chip\<close> below states the documented initialisation protocol, and what the theorems assume of
  the device is that a read of the data port returns the mask register of that protocol.
\<close>

definition COM1_PORT :: u16 where "COM1_PORT = 0x3F8"
definition PIC1_COMMAND :: u16 where "PIC1_COMMAND = 0x20"
definition PIC1_DATA :: u16 where "PIC1_DATA = 0x21"
definition PIC2_COMMAND :: u16 where "PIC2_COMMAND = 0xA0"
definition PIC2_DATA :: u16 where "PIC2_DATA = 0xA1"
definition ICW1_INIT :: u8 where "ICW1_INIT = 0x10"
definition ICW1_ICW4 :: u8 where "ICW1_ICW4 = 0x01"
definition ICW4_8086 :: u8 where "ICW4_8086 = 0x01"

lemmas pic_ports = PIC1_COMMAND_def PIC1_DATA_def PIC2_COMMAND_def PIC2_DATA_def
  ICW1_INIT_def ICW1_ICW4_def ICW4_8086_def

definition pic_remap :: "u32 \<Rightarrow> u32 \<Rightarrow> 'a cpu_state_scheme \<Rightarrow> 'a cpu_state_scheme" where
  "pic_remap offset1 offset2 s =
     (let s = outb PIC1_COMMAND (ICW1_INIT OR ICW1_ICW4) s;
          s = outb PIC2_COMMAND (ICW1_INIT OR ICW1_ICW4) s;
          s = outb PIC1_DATA (ucast offset1) s;
          s = outb PIC2_DATA (ucast offset2) s;
          s = outb PIC1_DATA 0x04 s;
          s = outb PIC2_DATA 0x02 s;
          s = outb PIC1_DATA ICW4_8086 s;
          s = outb PIC2_DATA ICW4_8086 s;
          s = outb PIC1_DATA 0xFE s
      in outb PIC2_DATA 0xFF s)"

definition pic_mask_all :: "'a cpu_state_scheme \<Rightarrow> 'a cpu_state_scheme" where
  "pic_mask_all s = outb PIC2_DATA 0xFF (outb PIC1_DATA 0xFF s)"

text \<open>The port of a line, and the number of the line on its controller.\<close>

definition pic_line :: "u8 \<Rightarrow> u16 \<times> u8" where
  "pic_line irq = (if irq < 8 then (PIC1_DATA, irq) else (PIC2_DATA, irq - 8))"

text \<open>The shift \<open>1 << irq\<close> is on a 32-bit \<open>int\<close> and the result is stored back into a byte.\<close>

definition pic_mask_irq :: "u8 \<Rightarrow> 'a cpu_state_scheme \<Rightarrow> 'a cpu_state_scheme" where
  "pic_mask_irq irq s =
     (let (port, irq) = pic_line irq;
          (masks, s) = inb port s;
          masks = masks OR ucast (push_bit (unat irq) (1 :: u32))
      in outb port masks s)"

definition pic_unmask_irq :: "u8 \<Rightarrow> 'a cpu_state_scheme \<Rightarrow> 'a cpu_state_scheme" where
  "pic_unmask_irq irq s =
     (let (port, irq) = pic_line irq;
          (masks, s) = inb port s;
          masks = masks AND ucast (NOT (push_bit (unat irq) (1 :: u32)))
      in outb port masks s)"

definition pic_send_eoi :: "u8 \<Rightarrow> 'a cpu_state_scheme \<Rightarrow> 'a cpu_state_scheme" where
  "pic_send_eoi irq s =
     (let s = (if irq \<ge> 8 then outb PIC2_COMMAND 0x20 s else s)
      in outb PIC1_COMMAND 0x20 s)"

section \<open>The chip\<close>

text \<open>A controller with ports \<open>c\<close> and \<open>d\<close>: after a command with bit 4 set the next writes to the data port are
  the vector offset, the cascade word and, when bit 0 of the command asked for it, the mode; every later
  write to the data port is the interrupt mask.\<close>

record pic_regs =
  icw_left :: "nat list"
  vector_base :: u8
  line_mask :: u8

fun pic_write :: "u16 \<Rightarrow> u16 \<Rightarrow> u16 \<times> u8 \<Rightarrow> pic_regs \<Rightarrow> pic_regs" where
  "pic_write c d (p, v) r =
     (if p = c then (if bit v 4 then r\<lparr>icw_left := (if bit v 0 then [2, 3, 4] else [2, 3]), line_mask := 0\<rparr> else r)
      else if p = d then
        (case icw_left r of
           [] \<Rightarrow> r\<lparr>line_mask := v\<rparr>
         | i # is \<Rightarrow> (if i = 2 then r\<lparr>vector_base := v, icw_left := is\<rparr> else r\<lparr>icw_left := is\<rparr>))
      else r)"

definition pic_chip :: "u16 \<Rightarrow> u16 \<Rightarrow> io_event list \<Rightarrow> pic_regs" where
  "pic_chip c d es =
     fold (pic_write c d) (writes es) \<lparr>icw_left = [], vector_base = 0, line_mask = 0\<rparr>"

abbreviation pic1 :: "io_event list \<Rightarrow> pic_regs" where
  "pic1 \<equiv> pic_chip PIC1_COMMAND PIC1_DATA"

abbreviation pic2 :: "io_event list \<Rightarrow> pic_regs" where
  "pic2 \<equiv> pic_chip PIC2_COMMAND PIC2_DATA"

text \<open>The assumption on the hardware: reading a data port returns the mask register.\<close>

definition pic_device :: "(io_event list \<Rightarrow> u16 \<Rightarrow> u8) \<Rightarrow> bool" where
  "pic_device dev \<longleftrightarrow>
     (\<forall>es. dev es PIC1_DATA = line_mask (pic1 es) \<and> dev es PIC2_DATA = line_mask (pic2 es))"

text \<open>The sixteen lines: which are masked.\<close>

definition masked :: "io_event list \<Rightarrow> nat \<Rightarrow> bool" where
  "masked es n = (if n < 8 then bit (line_mask (pic1 es)) n else bit (line_mask (pic2 es)) (n - 8))"

definition pic_ready :: "'a cpu_state_scheme \<Rightarrow> bool" where
  "pic_ready s \<longleftrightarrow> pic_device (io_in8 s) \<and> icw_left (pic1 (io_trace s)) = [] \<and>
     icw_left (pic2 (io_trace s)) = []"

lemma pic_chip_snoc:
  "pic_chip c d (es @ [Outb p v]) = pic_write c d (p, v) (pic_chip c d es)"
  "pic_chip c d (es @ [Inb p v]) = pic_chip c d es"
  "pic_chip c d (es @ [Inb q w, Outb p v]) = pic_write c d (p, v) (pic_chip c d es)"
  by (simp_all add: pic_chip_def)

lemma pic_remap_trace:
  "writes (io_trace (pic_remap a b s)) = writes (io_trace s) @
     [(0x20, 0x11), (0xA0, 0x11), (0x21, ucast a), (0xA1, ucast b), (0x21, 4), (0xA1, 2),
      (0x21, 1), (0xA1, 1), (0x21, 0xFE), (0xA1, 0xFF)]"
  by (simp add: pic_remap_def pic_ports Let_def)

lemma pic_remap_state:
  "let es = io_trace (pic_remap a b s) in
     icw_left (pic1 es) = [] \<and> icw_left (pic2 es) = [] \<and>
     vector_base (pic1 es) = ucast a \<and> vector_base (pic2 es) = ucast b \<and>
     (\<forall>n < 16. masked es n \<longleftrightarrow> n \<noteq> 0)"
proof -
  have b: "bit (0x11 :: u8) 4" "bit (0x11 :: u8) 0" by (simp_all add: bit_iff_odd drop_bit_eq_div)
  have fe: "bit (0xFE :: u8) n \<longleftrightarrow> n \<noteq> 0" if "n < 8" for n
  proof -
    have "(0xFE :: u8) = NOT 1" by simp
    then show ?thesis using that by (simp only: bit_not_iff bit_1_iff) simp
  qed
  have ff: "bit (0xFF :: u8) n" if "n < 8" for n
  proof -
    have "(0xFF :: u8) = mask 8" by (simp add: mask_eq_exp_minus_1)
    then show ?thesis using that by (simp only: bit_mask_iff) simp
  qed
  show ?thesis
    using fe ff by (auto simp: Let_def masked_def pic_chip_def pic_remap_trace pic_ports b)
qed


text \<open>After \<open>pic_remap\<close> both controllers have left their initialisation, interrupt lines 0 to 7 raise the
  vectors from the first offset and 8 to 15 those from the second, and every line but the timer, line 0,
  is masked.\<close>

theorem pic_remap_correct:
  "let es = io_trace (pic_remap a b s) in
     icw_left (pic1 es) = [] \<and> icw_left (pic2 es) = [] \<and>
     vector_base (pic1 es) = ucast a \<and> vector_base (pic2 es) = ucast b \<and>
     filter (masked es) [0..<16] = [1..<16]"
proof -
  have "filter P [0..<16] = [1..<16]" if "\<forall>n < 16. P n \<longleftrightarrow> n \<noteq> 0" for P :: "nat \<Rightarrow> bool"
  proof -
    have "filter P [0..<16] = filter (\<lambda>n. n \<noteq> 0) [0..<16]" using that by (intro filter_cong) auto
    then show ?thesis by (simp add: upt_rec)
  qed
  then show ?thesis using pic_remap_state [of a b s] unfolding Let_def by blast
qed

section \<open>Masking one line\<close>

lemma bit_line: "k < 8 \<Longrightarrow> n < 8 \<Longrightarrow> bit (ucast (2 ^ k :: u32) :: u8) n \<longleftrightarrow> n = k"
  by (auto simp: bit_ucast_iff bit_exp_iff)

lemma bit_not_line: "k < 8 \<Longrightarrow> n < 8 \<Longrightarrow> bit (ucast (NOT (2 ^ k) :: u32) :: u8) n \<longleftrightarrow> n \<noteq> k"
  by (auto simp: bit_ucast_iff bit_not_iff bit_exp_iff)

lemma irq_cases:
  assumes "(irq :: u8) < 16"
  obtains (low) "irq < 8" "unat irq < 8" | (high) "\<not> irq < 8" "8 \<le> unat irq" "unat irq < 16" "unat (irq - 8) = unat irq - 8"
proof (cases "irq < 8")
  case True
  then show ?thesis using low by (simp add: word_less_nat_alt)
next
  case False
  then have "8 \<le> irq" by simp
  then have "unat (irq - 8) = unat irq - 8" by (simp add: unat_sub)
  then show ?thesis using high False assms by (simp add: word_less_nat_alt)
qed

lemmas pic_line_defs = pic_line_def inb_def pic_chip_snoc pic_ports masked_def Let_def
  bit_or_iff bit_and_iff bit_line bit_not_line

text \<open>On initialised controllers \<open>pic_mask_irq\<close> masks exactly the given line and \<open>pic_unmask_irq\<close>
  unmasks exactly it; the other fifteen lines keep their state and the controllers stay initialised.\<close>

theorem pic_mask_irq_correct:
  assumes "pic_ready s" "irq < 16"
  shows "pic_ready (pic_mask_irq irq s) \<and> pic_ready (pic_unmask_irq irq s) \<and>
    (\<forall>n < 16. masked (io_trace (pic_mask_irq irq s)) n \<longleftrightarrow> masked (io_trace s) n \<or> n = unat irq) \<and>
    (\<forall>n < 16. masked (io_trace (pic_unmask_irq irq s)) n \<longleftrightarrow> masked (io_trace s) n \<and> n \<noteq> unat irq)"
  using assms(2)
proof (cases irq rule: irq_cases)
  case low
  then show ?thesis using assms(1)
    by (auto simp: pic_ready_def pic_device_def pic_mask_irq_def pic_unmask_irq_def pic_line_defs)
next
  case high
  then show ?thesis using assms(1)
    by (auto simp: pic_ready_def pic_device_def pic_mask_irq_def pic_unmask_irq_def pic_line_defs)
qed

text \<open>A board with the two chips on it.\<close>

definition pic_board :: cpu_state where
  "pic_board = (cpu_example 0)\<lparr>io_in8 :=
     (\<lambda>es p. if p = PIC1_DATA then line_mask (pic1 es) else line_mask (pic2 es))\<rparr>"

lemma pic_board_ready: "pic_ready (pic_remap 0x20 0x28 pic_board)"
proof -
  have "io_in8 (pic_remap 0x20 0x28 pic_board) = io_in8 pic_board" by (simp add: pic_remap_def Let_def)
  then show ?thesis
    using pic_remap_state [of "0x20" "0x28" pic_board]
    by (simp add: Let_def pic_ready_def pic_device_def pic_board_def PIC1_DATA_def PIC2_DATA_def)
qed

theorem pic_mask_irq_correct_witness:
  "pic_ready (pic_unmask_irq 1 (pic_remap 0x20 0x28 pic_board)) \<and>
   \<not> masked (io_trace (pic_unmask_irq 1 (pic_remap 0x20 0x28 pic_board))) 1 \<and>
   masked (io_trace (pic_unmask_irq 1 (pic_remap 0x20 0x28 pic_board))) 12"
  using pic_mask_irq_correct [OF pic_board_ready, of 1] pic_remap_state [of "0x20" "0x28" pic_board]
  by (simp add: Let_def)

end
