(* ===== verification/Pit.thy ===== *)
theory Pit
  imports Console
begin

text \<open>
  The interval timer chip (\<open>cpu/pit/pit.c\<close>): programming the reload value of channel 0.
\<close>

definition PIT_DIVISOR :: u64 where "PIT_DIVISOR = 1193182"
definition PIT_COMMAND :: u16 where "PIT_COMMAND = 0x43"
definition PIT_DATA :: u16 where "PIT_DATA = 0x40"
definition TIMER_FREQUENCY :: u64 where "TIMER_FREQUENCY = 1000"

definition pit_set_reload :: "u16 \<Rightarrow> 'a cpu_state_scheme \<Rightarrow> 'a cpu_state_scheme" where
  "pit_set_reload count s =
     (let s = outb PIT_COMMAND 0x34 s;
          s = outb PIT_DATA (ucast count) s
      in outb PIT_DATA (ucast (drop_bit 8 count)) s)"

text \<open>A frequency of zero divides by zero, which faults.\<close>

definition pit_set_frequency :: "u64 \<Rightarrow> 'a cpu_state_scheme \<Rightarrow> 'a cpu_state_scheme option" where
  "pit_set_frequency frequency s =
     (if frequency = 0 then None
      else let divisor = PIT_DIVISOR div frequency;
               divisor = (if PIT_DIVISOR mod frequency > frequency div 2 then divisor + 1 else divisor)
           in Some (pit_set_reload (ucast divisor) s))"

definition init_pit :: "'a console_scheme \<Rightarrow> 'a console_scheme option" where
  "init_pit s = do {
     let s = kprint ''PIT...'' s;
     let s = pit_set_reload 0xffff s;
     s \<leftarrow> pit_set_frequency TIMER_FREQUENCY s;
     Some (kok s)
   }"

lemma pit_set_reload_writes:
  "io_trace (pit_set_reload c s) = io_trace s @
     [Outb PIT_COMMAND 0x34, Outb PIT_DATA (ucast c), Outb PIT_DATA (ucast (drop_bit 8 c))]"
  by (simp add: pit_set_reload_def Let_def)

lemma word16_bytes: "unat (ucast (c :: u16) :: u8) + 256 * unat (ucast (drop_bit 8 c) :: u8) = unat c"
proof -
  have "unat (drop_bit 8 c) = unat c div 256" by (simp add: drop_bit_eq_div unat_div)
  moreover have "unat c div 256 < 256" using unsigned_less [of c, where ?'a = nat] by simp
  ultimately have "unat (ucast (drop_bit 8 c) :: u8) = unat c div 256"
    by (simp add: unat_ucast_mod)
  moreover have "unat (ucast c :: u8) = unat c mod 256" by (simp add: unat_ucast_mod)
  ultimately show ?thesis by simp
qed

text \<open>The divisor of the source rounds to the nearest integer.\<close>

lemma div_round_nearest:
  fixes n f :: nat
  assumes "0 < f"
  defines "d \<equiv> n div f + (if n mod f > f div 2 then 1 else 0)"
  shows "2 * (d * f) \<le> 2 * n + f" "2 * n \<le> 2 * (d * f) + f"
proof -
  obtain q r where qr: "n = q * f + r" "r < f" "n div f = q" "n mod f = r"
    using assms(1) by (metis div_mult_mod_eq mod_less_divisor)
  have "d * f = q * f + (if r > f div 2 then f else 0)"
    unfolding d_def qr(3,4) by (simp add: distrib_right)
  moreover have "f \<le> 2 * (f div 2) + 1" "2 * (f div 2) \<le> f" by linarith+
  ultimately show "2 * (d * f) \<le> 2 * n + f" "2 * n \<le> 2 * (d * f) + f"
    unfolding qr(1) using qr(2) by (auto split: if_splits)
qed

text \<open>For a frequency of at least 19 Hz the two data bytes \<open>pit_set_frequency\<close> writes are the low and high
  half of a reload value whose product with the frequency is the chip's clock up to half a period:
  the closest frequency the chip can produce.\<close>

theorem pit_set_frequency_nearest:
  assumes "19 \<le> f" "f \<le> PIT_DIVISOR"
  shows "\<exists>d t. pit_set_frequency f s = Some t \<and> 0 < d \<and> d < 2 ^ 16 \<and>
    writes (io_trace t) = writes (io_trace s) @ [(0x43, 0x34), (0x40, of_nat (d mod 256)), (0x40, of_nat (d div 256))] \<and>
    2 * (d * unat f) \<le> 2 * 1193182 + unat f \<and> 2 * 1193182 \<le> 2 * (d * unat f) + unat f"
proof -
  define d where "d = 1193182 div unat f + (if 1193182 mod unat f > unat f div 2 then 1 else 0)"
  have f: "19 \<le> unat f" "unat f \<le> 1193182" using assms by (simp_all add: PIT_DIVISOR_def word_le_nat_alt)
  have "1193182 div unat f \<le> 1193182 div 19" using f(1) by (rule div_le_mono2 [rotated]) simp
  then have small: "d < 2 ^ 16" by (simp add: d_def)
  have "1 \<le> 1193182 div unat f" using f by (simp add: Suc_le_eq div_greater_zero_iff)
  then have pos: "0 < d" by (simp add: d_def)
  let ?w = "if PIT_DIVISOR mod f > f div 2 then PIT_DIVISOR div f + 1 else PIT_DIVISOR div f"
  have c: "PIT_DIVISOR mod f > f div 2 \<longleftrightarrow> 1193182 mod unat f > unat f div 2"
    by (simp add: word_less_nat_alt unat_div unat_mod PIT_DIVISOR_def)
  have "unat (PIT_DIVISOR div f) = 1193182 div unat f" by (simp add: unat_div PIT_DIVISOR_def)
  moreover have "unat (PIT_DIVISOR div f + 1) = 1193182 div unat f + 1"
    using \<open>1193182 div unat f \<le> 1193182 div 19\<close>
    by (subst unat_plus_no_overflow) (simp_all add: unat_div PIT_DIVISOR_def)
  ultimately have w: "unat ?w = d" using c by (simp add: d_def)
  let ?c = "ucast ?w :: u16"
  have uc: "unat ?c = d" using w small by (simp add: unat_ucast_mod)
  have lo: "ucast ?c = (of_nat (d mod 256) :: u8)" "ucast (drop_bit 8 ?c) = (of_nat (d div 256) :: u8)"
  proof -
    have "unat (ucast ?c :: u8) = d mod 256" using uc by (simp add: unat_ucast_mod)
    then show "ucast ?c = (of_nat (d mod 256) :: u8)" by (metis word_nat_of_unat)
    have "unat (ucast (drop_bit 8 ?c) :: u8) = d div 256"
      using word16_bytes [of ?c] uc \<open>unat (ucast ?c :: u8) = d mod 256\<close> by simp
    then show "ucast (drop_bit 8 ?c) = (of_nat (d div 256) :: u8)" by (metis word_nat_of_unat)
  qed
  have nz: "f \<noteq> 0" using f(1) by auto
  have "writes (io_trace (pit_set_reload ?c s)) = writes (io_trace s) @
      [(0x43, 0x34), (0x40, of_nat (d mod 256)), (0x40, of_nat (d div 256))]"
    unfolding pit_set_reload_writes lo by (simp add: PIT_COMMAND_def PIT_DATA_def)
  moreover have "pit_set_frequency f s = Some (pit_set_reload ?c s)"
    using nz by (simp add: pit_set_frequency_def Let_def)
  ultimately show ?thesis
    using pos small div_round_nearest [of "unat f" 1193182] f(1) unfolding d_def by auto
qed

theorem pit_set_frequency_nearest_witness:
  "\<exists>d t. pit_set_frequency TIMER_FREQUENCY (cpu_example 0) = Some t \<and>
     writes (io_trace t) = [(0x43, 0x34), (0x40, of_nat (d mod 256)), (0x40, of_nat (d div 256))] \<and>
     2 * (d * 1000) \<le> 2387364 \<and> 2385364 \<le> 2 * (d * 1000)"
  using pit_set_frequency_nearest [of TIMER_FREQUENCY "cpu_example 0"]
  by (auto simp: TIMER_FREQUENCY_def PIT_DIVISOR_def cpu_example_def)

end
