(* ===== verification/Timer.thy ===== *)
theory Timer
  imports Console
begin

text \<open>
  The system clock (\<open>cpu/timer/timer.c\<close>): the broken-down uptime kept in the kernel table and the
  monotonic millisecond counter, advanced by the timer interrupt, and the wrap-around comparisons.
\<close>

record system_time =
  milliseconds :: u32
  seconds :: u8
  minutes :: u8
  hours :: u8
  pad0 :: u8
  days :: u32

record timer_state =
  current_time :: system_time
  monotonic_ms :: u64

definition init_system_clock ::
  "timer_state \<times> 'a console_scheme \<Rightarrow> timer_state \<times> 'a console_scheme" where
  "init_system_clock = (\<lambda>(k, s).
     let s = kprint ''System Clock...'' s;
         k = k\<lparr>current_time := (current_time k)\<lparr>milliseconds := 0\<rparr>\<rparr>;
         k = k\<lparr>current_time := (current_time k)\<lparr>seconds := 0\<rparr>\<rparr>;
         k = k\<lparr>current_time := (current_time k)\<lparr>minutes := 0\<rparr>\<rparr>;
         k = k\<lparr>current_time := (current_time k)\<lparr>hours := 0\<rparr>\<rparr>;
         k = k\<lparr>current_time := (current_time k)\<lparr>days := 0\<rparr>\<rparr>;
         k = k\<lparr>monotonic_ms := 0\<rparr>
     in (k, kok s))"

text \<open>The handler increments a field and returns unless it reached its limit, in which case the field is
  reset and the next one is incremented.\<close>

definition timer_handler :: "timer_state \<Rightarrow> timer_state" where
  "timer_handler k =
     (let k = k\<lparr>monotonic_ms := monotonic_ms k + 1\<rparr>;
          t = current_time k;
          t = t\<lparr>milliseconds := milliseconds t + 1\<rparr> in
      if milliseconds t < 1000 then k\<lparr>current_time := t\<rparr> else
      let t = t\<lparr>milliseconds := 0\<rparr>;
          t = t\<lparr>seconds := seconds t + 1\<rparr> in
      if seconds t < 60 then k\<lparr>current_time := t\<rparr> else
      let t = t\<lparr>seconds := 0\<rparr>;
          t = t\<lparr>minutes := minutes t + 1\<rparr> in
      if minutes t < 60 then k\<lparr>current_time := t\<rparr> else
      let t = t\<lparr>minutes := 0\<rparr>;
          t = t\<lparr>hours := hours t + 1\<rparr> in
      if hours t < 24 then k\<lparr>current_time := t\<rparr> else
      let t = t\<lparr>hours := 0\<rparr>;
          t = t\<lparr>days := days t + 1\<rparr> in
      k\<lparr>current_time := t\<rparr>)"

text \<open>\<open>get_system_time\<close> copies the whole structure, padding included, to the caller's buffer.\<close>

definition get_system_time :: "timer_state \<Rightarrow> system_time" where
  "get_system_time k = current_time k"

definition uptime_ms :: "timer_state \<Rightarrow> u64" where
  "uptime_ms k = monotonic_ms k"

definition uptime_seconds :: "timer_state \<Rightarrow> u32" where
  "uptime_seconds k = ucast (uptime_ms k div 1000)"

definition uptime_minutes :: "timer_state \<Rightarrow> u32" where
  "uptime_minutes k = ucast (uptime_ms k div 60000)"

definition time_after :: "u64 \<Rightarrow> u64 \<Rightarrow> bool" where
  "time_after a b = (sint (b - a) < 0)"

definition time_before :: "u64 \<Rightarrow> u64 \<Rightarrow> bool" where
  "time_before a b = (sint (a - b) < 0)"

section \<open>The clock as a count of milliseconds\<close>

text \<open>The reference: the broken-down form of a number of milliseconds.\<close>

definition time_of :: "u8 \<Rightarrow> nat \<Rightarrow> nat \<Rightarrow> nat \<Rightarrow> nat \<Rightarrow> nat \<Rightarrow> system_time" where
  "time_of p ms sec mi hr d = \<lparr>milliseconds = of_nat ms, seconds = of_nat sec, minutes = of_nat mi,
     hours = of_nat hr, pad0 = p, days = of_nat d\<rparr>"

definition broken_down :: "u8 \<Rightarrow> nat \<Rightarrow> system_time" where
  "broken_down p n = time_of p (n mod 1000) (n div 1000 mod 60) (n div 60000 mod 60)
     (n div 3600000 mod 24) (n div 86400000)"

lemma carry:
  fixes n r :: nat
  assumes "0 < r"
  shows "Suc (n mod r) < r \<Longrightarrow> Suc n mod r = Suc (n mod r) \<and> Suc n div r = n div r"
    "\<not> Suc (n mod r) < r \<Longrightarrow> Suc n mod r = 0 \<and> Suc n div r = Suc (n div r)"
  using assms mod_less_divisor [OF assms, of n] by (auto simp: mod_Suc div_Suc)

lemma nested_div:
  "n div 60000 = n div 1000 div 60" "n div 3600000 = n div 1000 div 60 div 60"
  "n div 86400000 = n div 1000 div 60 div 60 div 24" for n :: nat
  by (simp_all add: div_mult2_eq [symmetric])

lemma field_step:
  assumes "m < r" "r < 2 ^ LENGTH('a)"
  shows "(of_nat m + 1 :: 'a::len word) < of_nat r \<longleftrightarrow> Suc m < r"
proof -
  have "(of_nat m + 1 :: 'a word) = of_nat (Suc m)" by simp
  then show ?thesis using assms by (simp only: word_less_nat_alt unat_of_nat_small)
qed

lemma timer_handler_digits:
  assumes "current_time k = time_of p a b c d e" "a < 1000" "b < 60" "c < 60" "d < 24"
  shows "current_time (timer_handler k) =
    (if Suc a < 1000 then time_of p (Suc a) b c d e
     else if Suc b < 60 then time_of p 0 (Suc b) c d e
     else if Suc c < 60 then time_of p 0 0 (Suc c) d e
     else if Suc d < 24 then time_of p 0 0 0 (Suc d) e
     else time_of p 0 0 0 0 (Suc e))"
proof -
  have "((of_nat a :: u32) + 1 < 1000) = (Suc a < 1000)"
    using field_step [OF assms(2), where ?'a = 32] by simp
  moreover have "((of_nat b :: u8) + 1 < 60) = (Suc b < 60)"
    using field_step [OF assms(3), where ?'a = 8] by simp
  moreover have "((of_nat c :: u8) + 1 < 60) = (Suc c < 60)"
    using field_step [OF assms(4), where ?'a = 8] by simp
  moreover have "((of_nat d :: u8) + 1 < 24) = (Suc d < 24)"
    using field_step [OF assms(5), where ?'a = 8] by simp
  ultimately show ?thesis
    using assms(1) by (simp add: timer_handler_def Let_def time_of_def add.commute)
qed

lemma timer_handler_step:
  assumes "current_time k = broken_down p n"
  shows "current_time (timer_handler k) = broken_down p (Suc n)"
proof -
  let ?a = "n div 1000" let ?b = "?a div 60" let ?c = "?b div 60"
  have "current_time k = time_of p (n mod 1000) (?a mod 60) (?b mod 60) (?c mod 24) (?c div 24)"
    using assms unfolding broken_down_def nested_div .
  note h = timer_handler_digits [OF this mod_less_divisor mod_less_divisor mod_less_divisor mod_less_divisor,
      OF zero_less_numeral zero_less_numeral zero_less_numeral zero_less_numeral]
  note c0 = carry [of 1000 n, OF zero_less_numeral] and c1 = carry [of 60 ?a, OF zero_less_numeral]
    and c2 = carry [of 60 ?b, OF zero_less_numeral] and c3 = carry [of 24 ?c, OF zero_less_numeral]
  show ?thesis
    unfolding h broken_down_def nested_div
    by (cases "Suc (n mod 1000) < 1000"; cases "Suc (?a mod 60) < 60"; cases "Suc (?b mod 60) < 60";
        cases "Suc (?c mod 24) < 24") (simp_all only: if_True if_False not_False_eq_True c0 c1 c2 c3)
qed

lemma monotonic_timer_handler [simp]: "monotonic_ms (timer_handler k) = monotonic_ms k + 1"
  by (simp add: timer_handler_def Let_def)

text \<open>C28: After \<open>init_system_clock\<close> and any number of timer interrupts the clock shows exactly that number of
  milliseconds: each field is the corresponding digit of the mixed-radix number, the day counter and the
  millisecond counter wrap at their widths.\<close>

theorem clock_counts_milliseconds:
  "current_time ((timer_handler ^^ n) (fst (init_system_clock (k, s)))) = broken_down (pad0 (current_time k)) n \<and>
   uptime_ms ((timer_handler ^^ n) (fst (init_system_clock (k, s)))) = of_nat n"
proof (induction n)
  case 0
  show ?case by (cases "current_time k") (simp add: init_system_clock_def broken_down_def time_of_def uptime_ms_def Let_def)
next
  case (Suc n)
  then show ?case using timer_handler_step [of _ "pad0 (current_time k)" n] by (simp add: uptime_ms_def)
qed

section \<open>Comparisons across a wrap-around\<close>

lemma sint_diff_small:
  fixes d :: nat
  assumes "d < 2 ^ 63"
  shows "sint (of_nat d :: u64) = int d" "sint (- of_nat d :: u64) = - int d"
proof -
  have *: "sint (word_of_int i :: u64) = i" if "- (2 ^ 63) \<le> i" "i < 2 ^ 63" for i
    using signed_take_bit_int_eq_self [of 63 i] that by (simp add: sint_sbintrunc')
  show "sint (of_nat d :: u64) = int d" using * [of "int d"] assms by simp
  show "sint (- of_nat d :: u64) = - int d" using * [of "- int d"] assms by simp
qed

text \<open>C0: \<open>time_after\<close> and \<open>time_before\<close> order two instants less than half the counter range apart correctly,
  also when the millisecond counter wraps around between them.\<close>

theorem time_comparisons_wrap:
  assumes "0 < d" "d < 2 ^ 63"
  shows "time_after (t + of_nat d) t \<and> \<not> time_after t (t + of_nat d) \<and> \<not> time_after t t \<and>
    time_before t (t + of_nat d) \<and> \<not> time_before (t + of_nat d) t \<and> \<not> time_before t t"
  using sint_diff_small [OF assms(2)] assms(1) by (simp add: time_after_def time_before_def)

theorem time_comparisons_wrap_witness:
  "time_after 3 0xFFFFFFFFFFFFFFFE \<and> \<not> time_after 0xFFFFFFFFFFFFFFFE 3 \<and> time_before 0xFFFFFFFFFFFFFFFE 3"
proof -
  have *: "(0xFFFFFFFFFFFFFFFE :: u64) + of_nat 5 = 3" by (simp add: word_unat_eq_iff)
  show ?thesis using time_comparisons_wrap [of 5 "0xFFFFFFFFFFFFFFFE", unfolded *] by simp
qed

end
