(* ===== verification/Serial.thy ===== *)
theory Serial
  imports Console
begin

text \<open>
  The serial port (\<open>serial/serial.c\<close>).  Waiting for the transmitter is a loop that reads the line status
  register until bit 5 is set; whether it ends depends on the device.
\<close>

definition SERIAL_PORT :: u16 where "SERIAL_PORT = 0x3F8"

definition init_serial :: "'a console_scheme \<Rightarrow> u32 \<times> 'a console_scheme" where
  "init_serial s =
     (let s = kprint ''Serial...'' s;
          s = outb (SERIAL_PORT + 1) 0x00 s;
          s = outb (SERIAL_PORT + 3) 0x80 s;
          s = outb (SERIAL_PORT + 0) 0x03 s;
          s = outb (SERIAL_PORT + 1) 0x00 s;
          s = outb (SERIAL_PORT + 3) 0x03 s;
          s = outb (SERIAL_PORT + 2) 0xC7 s;
          s = outb (SERIAL_PORT + 4) 0x0B s;
          s = outb (SERIAL_PORT + 4) 0x1E s;
          s = outb (SERIAL_PORT + 0) 0xAE s;
          (d, s) = inb (SERIAL_PORT + 0) s
      in if d \<noteq> 0xAE then (1, kerror ''Serial fault'' s)
         else let s = outb (SERIAL_PORT + 4) 0x0F s in (0, kok s))"

partial_function (option) wait_transmit :: "'a cpu_state_scheme \<Rightarrow> 'a cpu_state_scheme option" where
  "wait_transmit s =
     (let (d, s) = inb (SERIAL_PORT + 5) s
      in if d AND 0x20 = 0 then wait_transmit s else Some s)"

definition write_serial_char :: "u8 \<Rightarrow> 'a cpu_state_scheme \<Rightarrow> 'a cpu_state_scheme option" where
  "write_serial_char data s = do {
     s \<leftarrow> wait_transmit s;
     Some (outb SERIAL_PORT data s)
   }"

text \<open>The string is the sequence of its bytes before the terminator.\<close>

fun write_serial :: "u8 list \<Rightarrow> 'a cpu_state_scheme \<Rightarrow> 'a cpu_state_scheme option" where
  "write_serial [] s = Some s"
| "write_serial (c # cs) s = do {
     s \<leftarrow> write_serial_char c s;
     write_serial cs s
   }"

section \<open>Transmission\<close>

text \<open>The transmitter becomes ready after a bounded number of polls: the assumption on the hardware.\<close>

definition uart_ready :: "(io_event list \<Rightarrow> u16 \<Rightarrow> u8) \<Rightarrow> bool" where
  "uart_ready dev \<longleftrightarrow> (\<forall>es. \<exists>n. \<forall>ds. length ds = n \<longrightarrow>
     (\<exists>k \<le> n. dev (es @ map (Inb 0x3FD) (take k ds)) 0x3FD AND 0x20 \<noteq> 0))"

text \<open>The bytes handed to the transmitter.\<close>

definition transmitted :: "io_event list \<Rightarrow> u8 list" where
  "transmitted es = map snd (filter (\<lambda>(p, d). p = SERIAL_PORT) (writes es))"

lemma transmitted_append [simp]: "transmitted (es @ fs) = transmitted es @ transmitted fs"
  by (simp add: transmitted_def)

lemma wait_transmit_returns:
  assumes "\<And>ds. length ds = n \<Longrightarrow>
    \<exists>k \<le> n. io_in8 s (io_trace s @ map (Inb 0x3FD) (take k ds)) 0x3FD AND 0x20 \<noteq> 0"
  shows "\<exists>t. wait_transmit s = Some t \<and> io_in8 t = io_in8 s \<and> transmitted (io_trace t) = transmitted (io_trace s)"
  using assms
proof (induction n arbitrary: s)
  case 0
  then have "io_in8 s (io_trace s) 0x3FD AND 0x20 \<noteq> 0" by auto
  then show ?case
    by (subst wait_transmit.simps) (simp add: inb_def SERIAL_PORT_def Let_def transmitted_def)
next
  case (Suc n)
  let ?d = "io_in8 s (io_trace s) 0x3FD"
  let ?s = "s\<lparr>io_trace := io_trace s @ [Inb 0x3FD ?d]\<rparr>"
  show ?case
  proof (cases "?d AND 0x20 = 0")
    case True
    have "\<exists>k \<le> n. io_in8 ?s (io_trace ?s @ map (Inb 0x3FD) (take k ds)) 0x3FD AND 0x20 \<noteq> 0"
      if "length ds = n" for ds
    proof -
      obtain k where k: "k \<le> Suc n"
          "io_in8 s (io_trace s @ map (Inb 0x3FD) (take k (?d # ds))) 0x3FD AND 0x20 \<noteq> 0"
        using Suc.prems [of "?d # ds"] \<open>length ds = n\<close> by auto
      then obtain j where "k = Suc j" using True by (cases k) auto
      then show ?thesis using k by (intro exI [of _ j]) simp
    qed
    then obtain t where "wait_transmit ?s = Some t" "io_in8 t = io_in8 ?s"
        "transmitted (io_trace t) = transmitted (io_trace ?s)"
      using Suc.IH [of ?s] by blast
    then show ?thesis using True
      by (subst wait_transmit.simps) (simp add: inb_def SERIAL_PORT_def Let_def transmitted_def)
  next
    case False
    then show ?thesis
      by (subst wait_transmit.simps) (simp add: inb_def SERIAL_PORT_def Let_def transmitted_def)
  qed
qed

lemma write_serial_char_returns:
  assumes "uart_ready (io_in8 s)"
  obtains t where "write_serial_char c s = Some t" "io_in8 t = io_in8 s"
    "transmitted (io_trace t) = transmitted (io_trace s) @ [c]"
proof -
  obtain n where "\<forall>ds. length ds = n \<longrightarrow>
      (\<exists>k \<le> n. io_in8 s (io_trace s @ map (Inb 0x3FD) (take k ds)) 0x3FD AND 0x20 \<noteq> 0)"
    using assms unfolding uart_ready_def by blast
  then obtain t where "wait_transmit s = Some t" "io_in8 t = io_in8 s"
      "transmitted (io_trace t) = transmitted (io_trace s)"
    using wait_transmit_returns [of n s] by blast
  then show ?thesis
    using that [of "outb SERIAL_PORT c t"] by (simp add: write_serial_char_def transmitted_def)
qed

text \<open>When the transmitter always becomes ready after finitely many polls, \<open>write_serial\<close> returns and
  exactly the bytes of the string have been handed to the transmitter, in order.\<close>

theorem write_serial_transmits:
  assumes "uart_ready (io_in8 s)"
  shows "\<exists>t. write_serial cs s = Some t \<and> io_in8 t = io_in8 s \<and>
    transmitted (io_trace t) = transmitted (io_trace s) @ cs"
  using assms
proof (induction cs arbitrary: s)
  case Nil
  then show ?case by simp
next
  case (Cons c cs)
  obtain t where t: "write_serial_char c s = Some t" "io_in8 t = io_in8 s"
      "transmitted (io_trace t) = transmitted (io_trace s) @ [c]"
    using write_serial_char_returns [OF Cons.prems] .
  then show ?case using Cons.IH [of t] Cons.prems by auto
qed

text \<open>A port whose transmitter is busy on every other poll.\<close>

definition slow_uart :: cpu_state where
  "slow_uart = (cpu_example 0)\<lparr>io_in8 := (\<lambda>es p. if odd (length es) then 0x20 else 0)\<rparr>"

lemma slow_uart_ready: "uart_ready (io_in8 slow_uart)"
  unfolding uart_ready_def
proof
  fix es :: "io_event list"
  have "\<exists>k \<le> 1. io_in8 slow_uart (es @ map (Inb 0x3FD) (take k ds)) 0x3FD AND 0x20 \<noteq> 0"
    if "length ds = 1" for ds
    using that by (intro exI [of _ "if odd (length es) then 0 else 1"]) (simp add: slow_uart_def)
  then show "\<exists>n. \<forall>ds. length ds = n \<longrightarrow>
      (\<exists>k \<le> n. io_in8 slow_uart (es @ map (Inb 0x3FD) (take k ds)) 0x3FD AND 0x20 \<noteq> 0)"
    by blast
qed

theorem write_serial_transmits_witness:
  "\<exists>t. write_serial [0x4F, 0x4B, 0x0A] slow_uart = Some t \<and> transmitted (io_trace t) = [0x4F, 0x4B, 0x0A]"
proof -
  show ?thesis
    using slow_uart_ready write_serial_transmits [of slow_uart "[0x4F, 0x4B, 0x0A]"]
    by (auto simp: slow_uart_def cpu_example_def transmitted_def)
qed

end
