(* ===== verification/Ps2.thy ===== *)
theory Ps2
  imports Console
begin

text \<open>
  The PS/2 controller (\<open>ps2/ps2.c\<close>) and the keyboard interrupt (\<open>ps2/keyboard/kbd.c\<close>).  Reads wait for the
  output buffer to fill (status bit 0) and writes for the input buffer to drain (status bit 1).
\<close>

definition PS2_DATA :: u16 where "PS2_DATA = 0x60"
definition PS2_COMMAND :: u16 where "PS2_COMMAND = 0x64"
definition PS2_ENABLE_P1 :: u8 where "PS2_ENABLE_P1 = 0xAE"
definition PS2_ENABLE_P2 :: u8 where "PS2_ENABLE_P2 = 0xA8"
definition PS2_DISABLE_P1 :: u8 where "PS2_DISABLE_P1 = 0xAD"
definition PS2_DISABLE_P2 :: u8 where "PS2_DISABLE_P2 = 0xA7"

partial_function (option) ps2_wait_output :: "'a cpu_state_scheme \<Rightarrow> 'a cpu_state_scheme option" where
  "ps2_wait_output s =
     (let (st, s) = inb PS2_COMMAND s in if st AND 1 = 0 then ps2_wait_output s else Some s)"

partial_function (option) ps2_wait_input :: "'a cpu_state_scheme \<Rightarrow> 'a cpu_state_scheme option" where
  "ps2_wait_input s =
     (let (st, s) = inb PS2_COMMAND s in if st AND 2 \<noteq> 0 then ps2_wait_input s else Some s)"

definition ps2_read :: "'a cpu_state_scheme \<Rightarrow> (u8 \<times> 'a cpu_state_scheme) option" where
  "ps2_read s = do {
     s \<leftarrow> ps2_wait_output s;
     Some (inb PS2_DATA s)
   }"

definition ps2_write :: "u16 \<Rightarrow> u8 \<Rightarrow> 'a cpu_state_scheme \<Rightarrow> 'a cpu_state_scheme option" where
  "ps2_write port v s = do {
     s \<leftarrow> ps2_wait_input s;
     Some (outb port v s)
   }"

definition get_ps2_config :: "'a cpu_state_scheme \<Rightarrow> (u8 \<times> 'a cpu_state_scheme) option" where
  "get_ps2_config s = do {
     s \<leftarrow> ps2_write PS2_COMMAND 0x20 s;
     ps2_read s
   }"

definition write_ps2_config :: "u8 \<Rightarrow> 'a cpu_state_scheme \<Rightarrow> 'a cpu_state_scheme option" where
  "write_ps2_config v s = do {
     s \<leftarrow> ps2_write PS2_COMMAND 0x60 s;
     ps2_write PS2_DATA v s
   }"

definition init_ps2 :: "'a console_scheme \<Rightarrow> (u64 \<times> 'a console_scheme) option" where
  "init_ps2 s = do {
     let s = kprint ''PS/2...'' s;
     s \<leftarrow> ps2_write PS2_COMMAND PS2_DISABLE_P1 s;
     s \<leftarrow> ps2_write PS2_COMMAND PS2_DISABLE_P2 s;
     (ps2_config, s) \<leftarrow> get_ps2_config s;
     let ps2_config = ps2_config OR (push_bit 0 1 OR push_bit 6 1);
     let ps2_config = (if ps2_config AND push_bit 5 1 \<noteq> 0 then ps2_config OR push_bit 1 1 else ps2_config);
     s \<leftarrow> write_ps2_config ps2_config s;
     s \<leftarrow> ps2_write PS2_COMMAND PS2_ENABLE_P1 s;
     Some (0, kok s)
   }"

text \<open>The interrupt handler reads the scan code and drops it.\<close>

definition keyboard_handler :: "'a cpu_state_scheme \<Rightarrow> 'a cpu_state_scheme option" where
  "keyboard_handler s = do {
     (scancode, s) \<leftarrow> ps2_read s;
     Some s
   }"

section \<open>A controller\<close>

text \<open>A controller that keeps a configuration byte, always accepts a command and has its answer at once.
  The status register has bit 0 set and bit 1 clear; command \<open>0x20\<close> makes the next read of the data port
  return the configuration, and the byte written after command \<open>0x60\<close> replaces it.\<close>

fun ps2_config_of :: "u8 \<Rightarrow> (u16 \<times> u8) list \<Rightarrow> u8" where
  "ps2_config_of c ((p, v) # (q, w) # ws) =
     (if p = PS2_COMMAND \<and> v = 0x60 \<and> q = PS2_DATA then ps2_config_of w ws
      else ps2_config_of c ((q, w) # ws))"
| "ps2_config_of c _ = c"

definition ps2_device :: "u8 \<Rightarrow> (io_event list \<Rightarrow> u16 \<Rightarrow> u8) \<Rightarrow> bool" where
  "ps2_device c0 dev \<longleftrightarrow> (\<forall>es. dev es PS2_COMMAND = 0x01 \<and>
     (writes es \<noteq> [] \<and> last (writes es) = (PS2_COMMAND, 0x20) \<longrightarrow> dev es PS2_DATA = ps2_config_of c0 (writes es)))"

lemma ps2_waits:
  assumes "ps2_device c (io_in8 s)"
  shows "ps2_wait_output s = Some (s\<lparr>io_trace := io_trace s @ [Inb PS2_COMMAND 1]\<rparr>)"
    "ps2_wait_input s = Some (s\<lparr>io_trace := io_trace s @ [Inb PS2_COMMAND 1]\<rparr>)"
  using assms
  by (subst ps2_wait_output.simps ps2_wait_input.simps, simp add: inb_def ps2_device_def Let_def)+

lemma ps2_write_ready:
  assumes "ps2_device c (io_in8 s)"
  shows "ps2_write p v s = Some (s\<lparr>io_trace := io_trace s @ [Inb PS2_COMMAND 1, Outb p v]\<rparr>)"
  using ps2_waits [OF assms] by (simp add: ps2_write_def outb_def)

text \<open>On a controller that answers, \<open>init_ps2\<close> returns 0 and leaves the first port enabled last, with the
  configuration byte it found except that the keyboard interrupt and scan code translation are
  switched on, and the mouse interrupt too when the second port's clock is disabled.\<close>

theorem init_ps2_configures:
  assumes "ps2_device c (io_in8 s)" "writes (io_trace s) = []"
  shows "\<exists>t. init_ps2 s = Some (0, t) \<and>
    writes (io_trace t) = [(0x64, 0xAD), (0x64, 0xA7), (0x64, 0x20), (0x64, 0x60),
      (0x60, c OR 0x41 OR (if bit c 5 then 2 else 0)), (0x64, 0xAE)]"
proof -
  let ?u = "(kprint ''PS/2...'' s)\<lparr>io_trace := io_trace s @
     [Inb PS2_COMMAND 1, Outb PS2_COMMAND 0xAD, Inb PS2_COMMAND 1, Outb PS2_COMMAND 0xA7,
      Inb PS2_COMMAND 1, Outb PS2_COMMAND 0x20]\<rparr>"
  have d: "ps2_device c (io_in8 (s\<lparr>io_trace := es, kout := ks\<rparr>))" for es ks using assms(1) by simp
  have r: "ps2_read ?u = Some (c, ?u\<lparr>io_trace := io_trace ?u @ [Inb PS2_COMMAND 1, Inb PS2_DATA c]\<rparr>)"
    using assms ps2_waits [of c ?u] unfolding ps2_read_def
    by (simp add: console_defs ps2_device_def inb_def PS2_COMMAND_def PS2_DATA_def)
  have b5: "(c OR 0x41) AND 0x20 \<noteq> 0 \<longleftrightarrow> bit c 5"
  proof -
    have "(c OR 0x41) AND 0x20 = c AND 2 ^ 5" by (simp add: bit.conj_disj_distrib2)
    then show ?thesis by (simp only: and_exp_eq_0_iff_not_bit not_not)
  qed
  have pd: "push_bit 0 (1 :: u8) OR push_bit 6 1 = 0x41" "push_bit 5 (1 :: u8) = 0x20" "push_bit 1 (1 :: u8) = 2"
    by simp_all
  note defs = init_ps2_def get_ps2_config_def write_ps2_config_def PS2_DISABLE_P1_def PS2_DISABLE_P2_def
    PS2_ENABLE_P1_def
  show ?thesis
    unfolding defs pd using r assms b5
    by (simp add: ps2_write_ready [of c] or.assoc console_defs PS2_COMMAND_def PS2_DATA_def)
qed

definition ps2_board :: console where
  "ps2_board = cpu_state.extend ((cpu_example 0)\<lparr>io_in8 :=
     (\<lambda>es p. if p = PS2_COMMAND then 1 else ps2_config_of 0x20 (writes es))\<rparr>) \<lparr>kout = []\<rparr>"

theorem init_ps2_configures_witness:
  "\<exists>t. init_ps2 ps2_board = Some (0, t) \<and>
    writes (io_trace t) = [(0x64, 0xAD), (0x64, 0xA7), (0x64, 0x20), (0x64, 0x60), (0x60, 0x63), (0x64, 0xAE)]"
proof -
  have "ps2_device 0x20 (io_in8 ps2_board)" "writes (io_trace ps2_board) = []"
    by (simp_all add: ps2_board_def cpu_example_def cpu_state.defs ps2_device_def PS2_COMMAND_def PS2_DATA_def)
  moreover have "bit (0x20 :: u8) 5" by (simp add: bit_iff_odd_drop_bit)
  ultimately show ?thesis using init_ps2_configures [of "0x20" ps2_board] by simp
qed

end
