(* ===== verification/Spinlock.thy ===== *)
theory Spinlock
  imports Ports
begin

text \<open>
  Spinlocks (\<open>scheduling/spinlock.h\<close>).  The kernel runs on one processor and
  \<open>spinlock_acquire\<close> disables interrupts before it spins, so nobody can release a lock that
  is held when the loop starts: acquiring a held lock never returns.
\<close>

record spinlock_t =
  lock_held :: bool
  had_interrupt :: bool

definition spinlock_init :: "spinlock_t \<Rightarrow> spinlock_t" where
  "spinlock_init l = l\<lparr>lock_held := False\<rparr>"

definition spinlock_acquire ::
  "spinlock_t \<Rightarrow> 'a cpu_state_scheme \<Rightarrow> (spinlock_t \<times> 'a cpu_state_scheme) option" where
  "spinlock_acquire l s =
     (let l = l\<lparr>had_interrupt := have_interrupt s\<rparr>;
          s = disable_interrupt s
      in if lock_held l then None else Some (l\<lparr>lock_held := True\<rparr>, s))"

definition spinlock_release ::
  "spinlock_t \<Rightarrow> 'a cpu_state_scheme \<Rightarrow> spinlock_t \<times> 'a cpu_state_scheme" where
  "spinlock_release l s =
     (let l = l\<lparr>lock_held := False\<rparr>
      in (l, if had_interrupt l then enable_interrupt s else s))"

lemmas spinlock_defs = spinlock_init_def spinlock_acquire_def spinlock_release_def
  disable_interrupt_def enable_interrupt_def have_interrupt_def Let_def

lemma spinlock_acquire_held [simp]: "lock_held l \<Longrightarrow> spinlock_acquire l s = None"
  by (simp add: spinlock_defs)

lemma spinlock_acquire_free:
  "\<not> lock_held l \<Longrightarrow> spinlock_acquire l s =
     Some (l\<lparr>had_interrupt := interrupt_flag s, lock_held := True\<rparr>, s\<lparr>interrupt_flag := False\<rparr>)"
  by (simp add: spinlock_defs)

text \<open>A critical section leaves the interrupt flag as it was.\<close>

lemma spinlock_section:
  assumes "spinlock_acquire l s = Some (l', s')" "interrupt_flag t = False"
  shows "interrupt_flag (snd (spinlock_release l' t)) = interrupt_flag s"
    "\<not> lock_held (fst (spinlock_release l' t))"
  using assms by (auto simp: spinlock_defs split: if_splits)

end
