(* ===== verification/Gdt.thy ===== *)
theory Gdt
  imports Console Spinlock
begin

text \<open>
  Segmentation (\<open>cpu/gdt/gdt.c\<close>, \<open>gdt.h\<close>, the selectors of \<open>arch.h\<close>): the descriptor table, the task state
  segment and the registers the reload routines of \<open>gdt.asm\<close> load from them.  The addresses of the
  global objects are chosen by the linker and are parameters.
\<close>

record tss_desc =
  tss_length :: u16
  tss_base_low :: u16
  tss_base_mid :: u8
  tss_flags :: u8
  tss_flags2 :: u8
  tss_base_high :: u8
  tss_base_upper32 :: u32
  tss_reserved :: u32

record tss_t =
  rsp0 :: u64
  rsp1 :: u64
  rsp2 :: u64
  ist1 :: u64
  ist2 :: u64
  ist3 :: u64
  ist4 :: u64
  ist5 :: u64
  ist6 :: u64
  ist7 :: u64
  base_iomap :: u16

text \<open>Packed: one 32-bit and twelve 64-bit fields and two 16-bit ones.\<close>

definition sizeof_tss :: u64 where "sizeof_tss = 4 + 12 * 8 + 2 * 2"

record gdt_desc =
  limit :: u16
  base_low :: u16
  base_mid :: u8
  access :: u8
  granularity :: u8
  base_high :: u8

record gdt_ptr =
  ptr_limit :: u16
  ptr_base :: u64

record gdtr =
  entries :: "gdt_desc list"
  tss_entry :: tss_desc

text \<open>Five descriptors of 8 bytes and the 16 byte system descriptor.\<close>

definition sizeof_gdtr :: u64 where "sizeof_gdtr = 5 * 8 + 16"

definition zero_desc :: gdt_desc where
  "zero_desc = \<lparr>limit = 0, base_low = 0, base_mid = 0, access = 0, granularity = 0, base_high = 0\<rparr>"

definition zero_tss_desc :: tss_desc where
  "zero_tss_desc = \<lparr>tss_length = 0, tss_base_low = 0, tss_base_mid = 0, tss_flags = 0, tss_flags2 = 0,
     tss_base_high = 0, tss_base_upper32 = 0, tss_reserved = 0\<rparr>"

text \<open>The registers \<open>gdt_reload\<close> and \<open>tss_reload\<close> set: the descriptor table register, the segment selectors and
  the task register.\<close>

record gdt_state =
  gdt :: gdtr
  gdt_ptr_var :: gdt_ptr
  gdt_lock :: spinlock_t
  tss :: tss_t
  reg_gdtr :: gdt_ptr
  reg_cs :: u16
  reg_ds :: u16
  reg_tr :: u16

definition KERNEL_CODE64 :: u16 where "KERNEL_CODE64 = 0x08"
definition KERNEL_DATA64 :: u16 where "KERNEL_DATA64 = 0x10"
definition USER_CODE64 :: u16 where "USER_CODE64 = 0x1B"
definition USER_DATA64 :: u16 where "USER_DATA64 = 0x23"
definition TSS :: u16 where "TSS = 0x28"

definition gdt_reload :: "gdt_state \<Rightarrow> gdt_state" where
  "gdt_reload g = g\<lparr>reg_gdtr := gdt_ptr_var g, reg_cs := 8, reg_ds := 0x10\<rparr>"

definition tss_reload :: "gdt_state \<Rightarrow> gdt_state" where
  "tss_reload g = g\<lparr>reg_tr := 0x28\<rparr>"

definition set_desc :: "nat \<Rightarrow> u8 \<Rightarrow> u8 \<Rightarrow> gdtr \<Rightarrow> gdtr" where
  "set_desc i a g t = t\<lparr>entries := (entries t)[i := (entries t ! i)\<lparr>access := a, granularity := g\<rparr>]\<rparr>"

text \<open>The task state descriptor for a segment at the given address.\<close>

definition set_tss :: "u64 \<Rightarrow> tss_desc \<Rightarrow> tss_desc" where
  "set_tss tss_base d =
     (let d = d\<lparr>tss_length := ucast (sizeof_tss - 1), tss_flags := 0b10001001\<rparr>;
          d = d\<lparr>tss_base_low := ucast (tss_base AND 0xFFFF)\<rparr>;
          d = d\<lparr>tss_base_mid := ucast (drop_bit 16 tss_base AND 0xFF)\<rparr>;
          d = d\<lparr>tss_base_high := ucast (drop_bit 24 tss_base AND 0xFF)\<rparr>
      in d\<lparr>tss_base_upper32 := ucast (drop_bit 32 tss_base AND 0xFFFFFFFF)\<rparr>)"

definition gdt_setup ::
  "u64 \<Rightarrow> u64 \<Rightarrow> gdt_state \<times> 'a console_scheme \<Rightarrow> (gdt_state \<times> 'a console_scheme) option" where
  "gdt_setup gdt_addr tss_addr = (\<lambda>(g, s). do {
     let s = kprint ''GDT...'' s;
     (l, s) \<leftarrow> spinlock_acquire (gdt_lock g) s;
     let g = g\<lparr>gdt_lock := l\<rparr>;
     let t = set_desc 1 0b10011010 0b00100000 (gdt g);
     let t = set_desc 2 0b10010010 0 t;
     let t = set_desc 3 0b11110010 0 t;
     let t = set_desc 4 0b11111010 0b00100000 t;
     let g = g\<lparr>gdt := t\<lparr>tss_entry := set_tss tss_addr (tss_entry t)\<rparr>\<rparr>;
     let g = g\<lparr>gdt_ptr_var := \<lparr>ptr_limit = ucast (sizeof_gdtr - 1), ptr_base = gdt_addr\<rparr>\<rparr>;
     let g = gdt_reload g;
     let g = tss_reload g;
     let (l, s) = spinlock_release (gdt_lock g) s;
     Some (g\<lparr>gdt_lock := l\<rparr>, kok s)
   })"

definition init_gdt ::
  "u64 \<Rightarrow> u64 \<Rightarrow> gdt_state \<times> 'a console_scheme \<Rightarrow> (gdt_state \<times> 'a console_scheme) option" where
  "init_gdt gdt_addr tss_addr = (\<lambda>(g, s).
     gdt_setup gdt_addr tss_addr (g\<lparr>gdt_lock := spinlock_init (gdt_lock g)\<rparr>, s))"

definition set_kernel_stack :: "u64 \<Rightarrow> gdt_state \<Rightarrow> gdt_state" where
  "set_kernel_stack stack g = g\<lparr>tss := (tss g)\<lparr>rsp0 := stack\<rparr>\<rparr>"

section \<open>What the processor reads back\<close>

text \<open>The address a task state descriptor holds, the descriptor a selector names, and the two properties of
  a descriptor the segment registers depend on: whether it describes code, and its privilege level.\<close>

definition tss_desc_base :: "tss_desc \<Rightarrow> u64" where
  "tss_desc_base d = ucast (tss_base_low d) OR push_bit 16 (ucast (tss_base_mid d)) OR
     push_bit 24 (ucast (tss_base_high d)) OR push_bit 32 (ucast (tss_base_upper32 d))"

definition selected :: "u16 \<Rightarrow> gdtr \<Rightarrow> gdt_desc" where
  "selected sel t = entries t ! unat (drop_bit 3 sel)"

definition is_code :: "gdt_desc \<Rightarrow> bool" where
  "is_code d \<longleftrightarrow> bit (access d) 3"

definition is_long :: "gdt_desc \<Rightarrow> bool" where
  "is_long d \<longleftrightarrow> bit (granularity d) 5"

definition dpl :: "gdt_desc \<Rightarrow> u8" where
  "dpl d = drop_bit 5 (access d) AND 3"

definition rpl :: "u16 \<Rightarrow> u16" where
  "rpl sel = sel AND 3"

lemma split_u64_base:
  fixes a :: u64
  shows "ucast (ucast (a AND 0xFFFF) :: u16) OR push_bit 16 (ucast (ucast (drop_bit 16 a AND 0xFF) :: u8)) OR
     push_bit 24 (ucast (ucast (drop_bit 24 a AND 0xFF) :: u8)) OR
     push_bit 32 (ucast (ucast (drop_bit 32 a AND 0xFFFFFFFF) :: u32)) = a" (is "?l = a")
proof (rule u64_eqI)
  fix n :: nat assume "n < 64"
  have m: "(0xFFFF :: u64) = mask LENGTH(16)" "(0xFF :: u64) = mask LENGTH(8)" "(0xFFFFFFFF :: u64) = mask LENGTH(32)"
    by (simp_all add: mask_eq_exp_minus_1)
  note f = bit_field [of 0 a n, where ?'b = 16] bit_field [of 16 a n, where ?'b = 8]
    bit_field [of 24 a n, where ?'b = 8] bit_field [of 32 a n, where ?'b = 32]
  show "bit ?l n = bit a n"
    unfolding m bit_or_iff using f \<open>n < 64\<close> by (simp del: bit_push_bit_iff push_bit_of_1) linarith
qed

lemma gdt_entries:
  assumes "length es = 5"
  obtains a b c d e where "es = [a, b, c, d, e]"
  using assms by (auto simp: numeral_eq_Suc length_Suc_conv)

lemma access_bits:
  "bit (0b10011010 :: u8) 3" "\<not> bit (0b10010010 :: u8) 3" "\<not> bit (0b11110010 :: u8) 3" "bit (0b11111010 :: u8) 3"
  "bit (0b00100000 :: u8) 5"
  by (simp_all add: bit_iff_odd_drop_bit)

text \<open>C25: After \<open>init_gdt\<close> the processor uses the table just built: its register holds the table's address and
  last byte, the task register names a descriptor whose base is the address of the task state
  segment and whose limit is its last byte, and the kernel's selectors name a 64-bit code
  and a data segment of privilege 0.  The two user segments have privilege 3, but \<open>USER_CODE64\<close> names the data
  segment and \<open>USER_DATA64\<close> the code segment.\<close>

theorem init_gdt_correct:
  assumes "length (entries (gdt g)) = 5"
  shows "\<exists>h t. init_gdt gdt_addr tss_addr (g, s) = Some (h, t) \<and>
    reg_gdtr h = \<lparr>ptr_limit = 55, ptr_base = gdt_addr\<rparr> \<and> reg_tr h = TSS \<and>
    tss_desc_base (tss_entry (gdt h)) = tss_addr \<and> tss_length (tss_entry (gdt h)) = 103 \<and>
    reg_cs h = KERNEL_CODE64 \<and> reg_ds h = KERNEL_DATA64 \<and> is_code (selected KERNEL_CODE64 (gdt h)) \<and>
    is_long (selected KERNEL_CODE64 (gdt h)) \<and> dpl (selected KERNEL_CODE64 (gdt h)) = 0 \<and>
    \<not> is_code (selected KERNEL_DATA64 (gdt h)) \<and> dpl (selected KERNEL_DATA64 (gdt h)) = 0 \<and>
    \<not> is_code (selected USER_CODE64 (gdt h)) \<and> dpl (selected USER_CODE64 (gdt h)) = 3 \<and>
    is_code (selected USER_DATA64 (gdt h)) \<and> dpl (selected USER_DATA64 (gdt h)) = 3 \<and>
    interrupt_flag t = interrupt_flag s"
proof -
  obtain a b c d e where es: "entries (gdt g) = [a, b, c, d, e]" using gdt_entries [OF assms] .
  have sel: "unat (drop_bit 3 KERNEL_CODE64) = 1" "unat (drop_bit 3 KERNEL_DATA64) = 2"
    "unat (drop_bit 3 USER_CODE64) = 3" "unat (drop_bit 3 USER_DATA64) = 4"
    by (simp_all add: KERNEL_CODE64_def KERNEL_DATA64_def USER_CODE64_def USER_DATA64_def drop_bit_eq_div)
  have desc: "tss_length (set_tss tss_addr d) = 103" "tss_desc_base (set_tss tss_addr d) = tss_addr" for d
    subgoal by (simp add: set_tss_def sizeof_tss_def)
    subgoal by (cases d) (simp only: tss_desc_base_def set_tss_def Let_def tss_desc.simps split_u64_base)
    done
  have lim: "ucast (sizeof_gdtr - 1) = (55 :: u16)" by (simp add: sizeof_gdtr_def)
  have up: "[u, v, w, x, y][1 := z] = [u, z, w, x, y]" "[u, v, w, x, y][2 := z] = [u, v, z, x, y]"
    "[u, v, w, x, y][3 := z] = [u, v, w, z, y]" "[u, v, w, x, y][4 := z] = [u, v, w, x, z]"
    for u v w x y z :: gdt_desc
    by (simp_all add: eval_nat_numeral)
  have regs: "8 = KERNEL_CODE64" "0x10 = KERNEL_DATA64" "0x28 = TSS"
    by (simp_all add: KERNEL_CODE64_def KERNEL_DATA64_def TSS_def)
  show ?thesis
    unfolding init_gdt_def gdt_setup_def selected_def sel gdt_reload_def tss_reload_def regs set_desc_def
    by (simp add: spinlock_defs es up is_code_def is_long_def dpl_def access_bits desc lim console_defs)
qed

definition gdt_example :: gdt_state where
  "gdt_example = \<lparr>gdt = \<lparr>entries = replicate 5 zero_desc, tss_entry = zero_tss_desc\<rparr>,
     gdt_ptr_var = \<lparr>ptr_limit = 0, ptr_base = 0\<rparr>, gdt_lock = \<lparr>lock_held = False, had_interrupt = False\<rparr>,
     tss = \<lparr>rsp0 = 0, rsp1 = 0, rsp2 = 0, ist1 = 0, ist2 = 0, ist3 = 0, ist4 = 0, ist5 = 0, ist6 = 0, ist7 = 0,
       base_iomap = 0\<rparr>, reg_gdtr = \<lparr>ptr_limit = 0, ptr_base = 0\<rparr>, reg_cs = 0, reg_ds = 0, reg_tr = 0\<rparr>"

definition console_example :: console where
  "console_example = cpu_state.extend (cpu_example 0) \<lparr>kout = []\<rparr>"

theorem init_gdt_correct_witness:
  "\<exists>h t. init_gdt 0xFFFFFFFF80010000 0xFFFFFFFF80012345 (gdt_example, console_example) = Some (h, t) \<and>
    tss_desc_base (tss_entry (gdt h)) = 0xFFFFFFFF80012345 \<and> \<not> is_code (selected USER_CODE64 (gdt h))"
proof -
  have "length (entries (gdt gdt_example)) = 5" by (simp add: gdt_example_def)
  from init_gdt_correct [OF this, of "0xFFFFFFFF80010000" "0xFFFFFFFF80012345" console_example]
  show ?thesis by blast
qed

end
