(* ===== verification/Idt.thy ===== *)
theory Idt
  imports Gdt
begin

text \<open>
  The interrupt descriptor table (\<open>cpu/idt/idt.c\<close>) and the system call table (\<open>scheduling/syscall.c\<close>).  The
  entry points are assembly stubs; their addresses are parameters.
\<close>

section \<open>Interrupt gates\<close>

definition IDT_ENTRIES :: nat where "IDT_ENTRIES = 256"
definition IDT_TYPE_INTERRUPT_GATE :: u8 where "IDT_TYPE_INTERRUPT_GATE = 0x8E"
definition IDT_TYPE_TRAP_GATE :: u8 where "IDT_TYPE_TRAP_GATE = 0x8F"
definition IDT_TYPE_TASK_GATE :: u8 where "IDT_TYPE_TASK_GATE = 0x85"
definition IDT_TYPE_USER_INT_GATE :: u8 where "IDT_TYPE_USER_INT_GATE = 0xEE"

record idt_entry_t =
  offset_low :: u16
  selector :: u16
  ist :: u8
  type_attr :: u8
  offset_mid :: u16
  offset_high :: u32
  idt_reserved :: u32

record idtr =
  idtr_limit :: u16
  idtr_base :: u64

text \<open>The table, the operand of \<open>lidt\<close>, and the register it loads.\<close>

record idt_state =
  idt_entries :: "idt_entry_t list"
  idt_ptr :: idtr
  reg_idtr :: idtr

definition idt_set_entry :: "nat \<Rightarrow> u64 \<Rightarrow> u16 \<Rightarrow> u8 \<Rightarrow> idt_state \<Rightarrow> idt_state" where
  "idt_set_entry index handler sel flags i =
     i\<lparr>idt_entries := (idt_entries i)[index :=
        \<lparr>offset_low = ucast (handler AND 0xFFFF),
         selector = sel,
         ist = 0,
         type_attr = flags,
         offset_mid = ucast (drop_bit 16 handler AND 0xFFFF),
         offset_high = ucast (drop_bit 32 handler AND 0xFFFFFFFF),
         idt_reserved = 0\<rparr>]\<rparr>"

text \<open>The stubs \<open>isr0\<close> to \<open>isr19\<close> and \<open>irq0\<close> to \<open>irq15\<close>.\<close>

definition init_idt ::
  "u64 \<Rightarrow> (nat \<Rightarrow> u64) \<Rightarrow> (nat \<Rightarrow> u64) \<Rightarrow> idt_state \<times> 'a console_scheme \<Rightarrow> idt_state \<times> 'a console_scheme" where
  "init_idt idt_addr isr_stub irq_stub = (\<lambda>(i, s).
     let s = kprint ''IDT...'' s;
         i = i\<lparr>idt_ptr := \<lparr>idtr_limit = 16 * 256 - 1, idtr_base = idt_addr\<rparr>\<rparr>;
         i = fold (\<lambda>n. idt_set_entry n 0 0 0) [0..<256] i;
         i = fold (\<lambda>n. idt_set_entry n (isr_stub n) KERNEL_CODE64 IDT_TYPE_INTERRUPT_GATE) [0..<20] i;
         i = fold (\<lambda>n. idt_set_entry (32 + n) (irq_stub n) KERNEL_CODE64 IDT_TYPE_INTERRUPT_GATE) [0..<16] i;
         i = i\<lparr>reg_idtr := idt_ptr i\<rparr>
     in (i, kok s))"

section \<open>System calls\<close>

definition MAX_SYS_CALLS :: nat where "MAX_SYS_CALLS = 420"

text \<open>A handler takes six arguments and may change the state.\<close>

record 's syscall_entry_t =
  handler :: "(u64 list \<Rightarrow> 's \<Rightarrow> u64 \<times> 's) option"
  sys_name :: string
  arg_num :: nat

definition syscall_handler ::
  "'s syscall_entry_t list \<Rightarrow> u64 \<Rightarrow> u64 list \<Rightarrow> 's \<Rightarrow> u64 \<times> 's" where
  "syscall_handler table syscall_num args s =
     (if unat syscall_num \<ge> MAX_SYS_CALLS then (- 1, s)
      else case handler (table ! unat syscall_num) of
        None \<Rightarrow> (- 1, s)
      | Some h \<Rightarrow> h args s)"

definition init_syscalls ::
  "u64 \<Rightarrow> 's syscall_entry_t list \<times> idt_state \<times> 'a console_scheme \<Rightarrow>
   's syscall_entry_t list \<times> idt_state \<times> 'a console_scheme" where
  "init_syscalls syscall_entry = (\<lambda>(table, i, s).
     let s = kprint ''System Calls...'' s;
         table = fold (\<lambda>n t. t[n := \<lparr>handler = None, sys_name = [], arg_num = 0\<rparr>]) [0..<MAX_SYS_CALLS] table;
         i = idt_set_entry 0x80 syscall_entry KERNEL_CODE64 0xEE i
     in (table, i, kok s))"

section \<open>Dispatch\<close>

text \<open>What the processor takes from a gate: whether it is present, the address it jumps to and the lowest
  privilege that may raise it with an \<open>int\<close> instruction.\<close>

definition gate_present :: "idt_entry_t \<Rightarrow> bool" where
  "gate_present e \<longleftrightarrow> bit (type_attr e) 7"

definition gate_target :: "idt_entry_t \<Rightarrow> u64" where
  "gate_target e = ucast (offset_low e) OR push_bit 16 (ucast (offset_mid e)) OR push_bit 32 (ucast (offset_high e))"

definition gate_dpl :: "idt_entry_t \<Rightarrow> u8" where
  "gate_dpl e = drop_bit 5 (type_attr e) AND 3"

lemma split_u64_offset:
  fixes a :: u64
  shows "ucast (ucast (a AND 0xFFFF) :: u16) OR push_bit 16 (ucast (ucast (drop_bit 16 a AND 0xFFFF) :: u16)) OR
     push_bit 32 (ucast (ucast (drop_bit 32 a AND 0xFFFFFFFF) :: u32)) = a" (is "?l = a")
proof (rule u64_eqI)
  fix n :: nat assume "n < 64"
  have m: "(0xFFFF :: u64) = mask LENGTH(16)" "(0xFFFFFFFF :: u64) = mask LENGTH(32)"
    by (simp_all add: mask_eq_exp_minus_1)
  note f = bit_field [of 0 a n, where ?'b = 16] bit_field [of 16 a n, where ?'b = 16]
    bit_field [of 32 a n, where ?'b = 32]
  show "bit ?l n = bit a n"
    unfolding m bit_or_iff using f \<open>n < 64\<close> by (simp del: bit_push_bit_iff push_bit_of_1) linarith
qed

lemma idt_set_entry_nth:
  assumes "k < length (idt_entries i)"
  shows "gate_target (idt_entries (idt_set_entry k h sel fl i) ! k) = h"
    "selector (idt_entries (idt_set_entry k h sel fl i) ! k) = sel"
    "type_attr (idt_entries (idt_set_entry k h sel fl i) ! k) = fl"
proof -
  have e: "idt_entries (idt_set_entry k h sel fl i) ! k =
      \<lparr>offset_low = ucast (h AND 0xFFFF), selector = sel, ist = 0, type_attr = fl,
       offset_mid = ucast (drop_bit 16 h AND 0xFFFF), offset_high = ucast (drop_bit 32 h AND 0xFFFFFFFF),
       idt_reserved = 0\<rparr>"
    using assms by (simp add: idt_set_entry_def)
  show "gate_target (idt_entries (idt_set_entry k h sel fl i) ! k) = h"
    by (simp only: e gate_target_def idt_entry_t.simps split_u64_offset)
qed (use assms in \<open>simp_all add: idt_set_entry_def\<close>)

lemma idt_set_entry_simps [simp]:
  "length (idt_entries (idt_set_entry k h sel fl i)) = length (idt_entries i)"
  "reg_idtr (idt_set_entry k h sel fl i) = reg_idtr i"
  "idt_ptr (idt_set_entry k h sel fl i) = idt_ptr i"
  "n \<noteq> k \<Longrightarrow> idt_entries (idt_set_entry k h sel fl i) ! n = idt_entries i ! n"
  by (simp_all add: idt_set_entry_def)

text \<open>Filling a range of gates: the gates of the range hold their handler, the others are untouched.\<close>

lemma fold_set_entry:
  assumes "b + m \<le> length (idt_entries i)"
  shows "let j = fold (\<lambda>n. idt_set_entry (b + n) (h n) sel fl) [0..<m] i in
    length (idt_entries j) = length (idt_entries i) \<and> idt_ptr j = idt_ptr i \<and> reg_idtr j = reg_idtr i \<and>
    (\<forall>n < m. gate_target (idt_entries j ! (b + n)) = h n \<and> selector (idt_entries j ! (b + n)) = sel \<and>
       type_attr (idt_entries j ! (b + n)) = fl) \<and>
    (\<forall>k. k < b \<or> b + m \<le> k \<longrightarrow> idt_entries j ! k = idt_entries i ! k)"
  using assms
proof (induction m)
  case 0
  then show ?case by simp
next
  case (Suc m)
  then show ?case by (auto simp: Let_def less_Suc_eq idt_set_entry_nth)
qed

lemma gate_bits: "bit (0x8E :: u8) 7" "bit (0xEE :: u8) 7" "drop_bit 5 (0xEE :: u8) AND 3 = 3"
  "drop_bit 5 (0x8E :: u8) AND 3 = 0"
  by (simp_all add: bit_iff_odd_drop_bit)

lemma init_idt_gates:
  assumes "length (idt_entries i) = 256" "init_idt idt_addr isr_stub irq_stub (i, s) = (j, t)"
  shows "length (idt_entries j) = 256" "reg_idtr j = \<lparr>idtr_limit = 4095, idtr_base = idt_addr\<rparr>"
    "\<And>v. v < 20 \<Longrightarrow> gate_target (idt_entries j ! v) = isr_stub v \<and> selector (idt_entries j ! v) = KERNEL_CODE64 \<and>
       type_attr (idt_entries j ! v) = 0x8E"
    "\<And>n. n < 16 \<Longrightarrow> gate_target (idt_entries j ! (32 + n)) = irq_stub n \<and>
       selector (idt_entries j ! (32 + n)) = KERNEL_CODE64 \<and> type_attr (idt_entries j ! (32 + n)) = 0x8E"
    "\<And>v. v < 256 \<Longrightarrow> \<not> v < 20 \<Longrightarrow> \<not> (32 \<le> v \<and> v < 48) \<Longrightarrow> type_attr (idt_entries j ! v) = 0"
proof -
  define i0 where "i0 = i\<lparr>idt_ptr := \<lparr>idtr_limit = 16 * 256 - 1, idtr_base = idt_addr\<rparr>\<rparr>"
  define i1 where "i1 = fold (\<lambda>n. idt_set_entry n 0 0 0) [0..<256] i0"
  define i2 where "i2 = fold (\<lambda>n. idt_set_entry n (isr_stub n) KERNEL_CODE64 IDT_TYPE_INTERRUPT_GATE) [0..<20] i1"
  define i3 where
    "i3 = fold (\<lambda>n. idt_set_entry (32 + n) (irq_stub n) KERNEL_CODE64 IDT_TYPE_INTERRUPT_GATE) [0..<16] i2"
  have j: "j = i3\<lparr>reg_idtr := idt_ptr i3\<rparr>"
    using assms(2) by (simp add: init_idt_def Let_def i0_def i1_def i2_def i3_def)
  have l0: "length (idt_entries i0) = 256" using assms(1) by (simp add: i0_def)
  note f1 = fold_set_entry [of 0 256 i0 "\<lambda>_. 0" 0 0, unfolded add_0 Let_def, folded i1_def, simplified l0]
  have l1: "length (idt_entries i1) = 256" using f1 by simp
  note f2 = fold_set_entry [of 0 20 i1 isr_stub KERNEL_CODE64 IDT_TYPE_INTERRUPT_GATE, unfolded add_0 Let_def,
      folded i2_def, simplified l1]
  have l2: "length (idt_entries i2) = 256" using f2 by simp
  note f3 = fold_set_entry [of 32 16 i2 irq_stub KERNEL_CODE64 IDT_TYPE_INTERRUPT_GATE, unfolded Let_def,
      folded i3_def, simplified l2]
  show "length (idt_entries j) = 256" using f3 by (simp add: j)
  show "reg_idtr j = \<lparr>idtr_limit = 4095, idtr_base = idt_addr\<rparr>" using f1 f2 f3 by (simp add: j i0_def)
  show "gate_target (idt_entries j ! v) = isr_stub v \<and> selector (idt_entries j ! v) = KERNEL_CODE64 \<and>
       type_attr (idt_entries j ! v) = 0x8E" if "v < 20" for v
    using f2 f3 that by (simp add: j IDT_TYPE_INTERRUPT_GATE_def)
  show "gate_target (idt_entries j ! (32 + n)) = irq_stub n \<and>
       selector (idt_entries j ! (32 + n)) = KERNEL_CODE64 \<and> type_attr (idt_entries j ! (32 + n)) = 0x8E"
    if "n < 16" for n
    using f3 that by (simp add: j IDT_TYPE_INTERRUPT_GATE_def)
  show "type_attr (idt_entries j ! v) = 0" if "v < 256" "\<not> v < 20" "\<not> (32 \<le> v \<and> v < 48)" for v
    using f1 f2 f3 that by (cases "v < 32") (simp_all add: j not_less not_le)
qed

text \<open>C24: After \<open>init_idt\<close> and \<open>init_syscalls\<close> the processor uses the table; exactly the vectors 0 to 19, 32 to 47
  and \<open>0x80\<close> are present, each jumps to its stub although the address is stored in three pieces, and
  user code may raise only \<open>0x80\<close>.\<close>

theorem idt_dispatches:
  assumes "length (idt_entries i) = 256" "init_idt idt_addr isr_stub irq_stub (i, s) = (j, t)"
    "init_syscalls entry (table, j, t) = (table', k, u)"
  shows "reg_idtr k = \<lparr>idtr_limit = 4095, idtr_base = idt_addr\<rparr> \<and>
    (\<forall>v < 256. gate_present (idt_entries k ! v) \<longleftrightarrow> v < 20 \<or> 32 \<le> v \<and> v < 48 \<or> v = 0x80) \<and>
    (\<forall>v < 20. gate_target (idt_entries k ! v) = isr_stub v) \<and>
    (\<forall>n < 16. gate_target (idt_entries k ! (32 + n)) = irq_stub n) \<and>
    gate_target (idt_entries k ! 0x80) = entry \<and>
    (\<forall>v < 256. gate_present (idt_entries k ! v) \<longrightarrow>
       selector (idt_entries k ! v) = KERNEL_CODE64 \<and> gate_dpl (idt_entries k ! v) = (if v = 0x80 then 3 else 0))"
proof -
  note g = init_idt_gates [OF assms(1,2)]
  have k: "k = idt_set_entry 0x80 entry KERNEL_CODE64 0xEE j"
    using assms(3) by (simp add: init_syscalls_def Let_def)
  note sys = idt_set_entry_nth [of "0x80" j entry KERNEL_CODE64 "0xEE", folded k]
  have other: "idt_entries k ! v = idt_entries j ! v" if "v \<noteq> 0x80" for v using that by (simp add: k)
  have attr: "type_attr (idt_entries k ! v) = (if v = 0x80 then 0xEE else if v < 20 \<or> 32 \<le> v \<and> v < 48 then 0x8E else 0) \<and>
      (v < 20 \<or> 32 \<le> v \<and> v < 48 \<or> v = 0x80 \<longrightarrow> selector (idt_entries k ! v) = KERNEL_CODE64)"
    if "v < 256" for v
  proof -
    consider "v = 0x80" | "v < 20" | "32 \<le> v" "v < 48" | "v \<noteq> 0x80" "\<not> v < 20" "\<not> (32 \<le> v \<and> v < 48)" by linarith
    then show ?thesis
    proof cases
      case 1
      then show ?thesis using sys g(1) by simp
    next
      case 2
      then show ?thesis using g(3) [of v] other [of v] by simp
    next
      case 3
      then show ?thesis using g(4) [of "v - 32"] other [of v] by simp
    next
      case 4
      then show ?thesis using g(5) [of v] other [of v] \<open>v < 256\<close> by auto
    qed
  qed
  have "gate_present (idt_entries k ! v) \<longleftrightarrow> v < 20 \<or> 32 \<le> v \<and> v < 48 \<or> v = 0x80" if "v < 256" for v
    using attr [OF that] by (simp add: gate_present_def gate_bits)
  moreover have "gate_dpl (idt_entries k ! v) = (if v = 0x80 then 3 else 0)"
    if "v < 256" "v < 20 \<or> 32 \<le> v \<and> v < 48 \<or> v = 0x80" for v
    using attr [OF that(1)] that(2) by (auto simp: gate_dpl_def gate_bits)
  moreover have "gate_target (idt_entries k ! v) = isr_stub v" if "v < 20" for v
    using g(3) [OF that] other [of v] that by simp
  moreover have "gate_target (idt_entries k ! (32 + n)) = irq_stub n" if "n < 16" for n
    using g(4) [OF that] other [of "32 + n"] that by simp
  moreover have "reg_idtr k = \<lparr>idtr_limit = 4095, idtr_base = idt_addr\<rparr>" using g(2) by (simp add: k)
  moreover have "gate_target (idt_entries k ! 0x80) = entry" using sys(1) g(1) by simp
  ultimately show ?thesis using attr by blast
qed

definition idt_example :: idt_state where
  "idt_example = \<lparr>idt_entries = replicate 256 \<lparr>offset_low = 0, selector = 0, ist = 0, type_attr = 0, offset_mid = 0,
     offset_high = 0, idt_reserved = 0\<rparr>, idt_ptr = \<lparr>idtr_limit = 0, idtr_base = 0\<rparr>,
     reg_idtr = \<lparr>idtr_limit = 0, idtr_base = 0\<rparr>\<rparr>"

theorem idt_dispatches_witness:
  "\<exists>j t tab k u. init_idt 0xFFFFFFFF80020000 (\<lambda>n. 0xFFFFFFFF80001000 + of_nat n) (\<lambda>n. 0xFFFFFFFF80002000 + of_nat n)
     (idt_example, console_example) = (j, t) \<and>
   init_syscalls 0xFFFFFFFF80003000 ([] :: unit syscall_entry_t list, j, t) = (tab, k, u) \<and>
   gate_target (idt_entries k ! 14) = 0xFFFFFFFF8000100E \<and> gate_target (idt_entries k ! 0x80) = 0xFFFFFFFF80003000 \<and>
   \<not> gate_present (idt_entries k ! 20)"
proof -
  let ?isr = "\<lambda>n. 0xFFFFFFFF80001000 + of_nat n" and ?irq = "\<lambda>n. 0xFFFFFFFF80002000 + of_nat n"
  obtain j t where j: "init_idt 0xFFFFFFFF80020000 ?isr ?irq (idt_example, console_example) = (j, t)" by fastforce
  obtain tab k u where k: "init_syscalls 0xFFFFFFFF80003000 ([] :: unit syscall_entry_t list, j, t) = (tab, k, u)"
    by (cases "init_syscalls 0xFFFFFFFF80003000 ([] :: unit syscall_entry_t list, j, t)") auto
  have "length (idt_entries idt_example) = 256" by (simp add: idt_example_def)
  note d = idt_dispatches [OF this j k]
  have "gate_target (idt_entries k ! 14) = ?isr 14" "\<not> gate_present (idt_entries k ! 20)" using d by auto
  then show ?thesis using d j k by auto
qed

text \<open>A freshly initialised table has no handler, and every system call is answered with \<open>-1\<close>.\<close>

lemma fold_list_update:
  assumes "m \<le> length xs" "n < m"
  shows "fold (\<lambda>n t. t[n := x]) [0..<m] xs ! n = x \<and> length (fold (\<lambda>n t. t[n := x]) [0..<m] xs) = length xs"
  using assms
proof (induction m)
  case (Suc m)
  have "length (fold (\<lambda>n t. t[n := x]) [0..<m] xs) = length xs"
    by (induction m) simp_all
  then show ?case using Suc by (cases "n = m") auto
qed simp

lemma syscalls_unregistered:
  assumes "length table = MAX_SYS_CALLS" "init_syscalls entry (table, i, s) = (table', j, t)"
  shows "syscall_handler table' num args u = (- 1, u)"
  using assms fold_list_update [of MAX_SYS_CALLS table "unat num" "\<lparr>handler = None, sys_name = [], arg_num = 0\<rparr>"]
  by (auto simp: init_syscalls_def syscall_handler_def Let_def not_le)

end
