(* ===== verification/Vterm.thy ===== *)
theory Vterm
  imports Font Console
begin

text \<open>
  The framebuffer terminal (\<open>vterm/vterm.c\<close>).  The framebuffer is the byte memory behind the pointer the boot
  loader provides; \<open>fb_mem\<close> gives the byte at an offset from it.  A pixel is a 32-bit store at four times
  its index.  \<open>vterm_putc\<close> indexes \<open>default_font\<close>; an index past the end of the table makes it \<open>None\<close>.
\<close>

record vterm_state =
  fb_mem :: "u64 \<Rightarrow> u8"
  pitch :: u64
  width :: u64
  height :: u64
  cursor_x :: u64
  cursor_y :: u64
  term_color :: u32
  fg_color :: u32

record limine_framebuffer =
  fb_address :: "u64 \<Rightarrow> u8"
  fb_width :: u64
  fb_height :: u64
  fb_pitch :: u64

definition FB_HEIGHT :: u64 where "FB_HEIGHT = 1080"
definition FB_WIDTH :: u64 where "FB_WIDTH = 1920"

definition vterm_set_fg_color :: "u32 \<Rightarrow> vterm_state \<Rightarrow> vterm_state" where
  "vterm_set_fg_color color v = v\<lparr>fg_color := color\<rparr>"

definition vterm_set_term_color :: "u32 \<Rightarrow> vterm_state \<Rightarrow> vterm_state" where
  "vterm_set_term_color color v = v\<lparr>term_color := color\<rparr>"

text \<open>The store \<open>base[i] = color\<close> through a 32-bit pointer at byte offset \<open>base\<close>: four bytes, low byte first.\<close>

definition put_pixel :: "u64 \<Rightarrow> u64 \<Rightarrow> u32 \<Rightarrow> vterm_state \<Rightarrow> vterm_state" where
  "put_pixel base i color v = v\<lparr>fb_mem := (fb_mem v)
     (base + i * 4 := ucast color,
      base + i * 4 + 1 := ucast (drop_bit 8 color),
      base + i * 4 + 2 := ucast (drop_bit 16 color),
      base + i * 4 + 3 := ucast (drop_bit 24 color))\<rparr>"

definition clear_row :: "u32 \<Rightarrow> nat \<Rightarrow> vterm_state \<Rightarrow> vterm_state" where
  "clear_row color y v =
     fold (\<lambda>x v. put_pixel 0 (of_nat y * (pitch v div 4) + of_nat x) color v) [0..<unat (width v)] v"

definition vterm_clear :: "u32 \<Rightarrow> vterm_state \<Rightarrow> vterm_state" where
  "vterm_clear color v =
     (let v = fold (clear_row color) [0..<unat (height v)] v
      in v\<lparr>cursor_x := 0, cursor_y := 0\<rparr>)"

definition vterm_init :: "limine_framebuffer \<Rightarrow> vterm_state \<Rightarrow> vterm_state" where
  "vterm_init fb v =
     (let v = v\<lparr>fb_mem := fb_address fb, pitch := fb_pitch fb, width := fb_width fb, height := fb_height fb\<rparr>;
          v = vterm_set_fg_color COLOR_WHITE v;
          v = vterm_set_term_color COLOR_BLACK v
      in vterm_clear (term_color v) v)"

text \<open>\<open>memmove\<close> to the start of the framebuffer from a higher offset.\<close>

definition fb_move :: "u64 \<Rightarrow> u64 \<Rightarrow> vterm_state \<Rightarrow> vterm_state" where
  "fb_move from n v = v\<lparr>fb_mem := (\<lambda>o'. if o' < n then fb_mem v (from + o') else fb_mem v o')\<rparr>"

definition blank_row :: "u64 \<Rightarrow> nat \<Rightarrow> vterm_state \<Rightarrow> vterm_state" where
  "blank_row last_row y v =
     fold (\<lambda>x v. put_pixel last_row (of_nat y * (pitch v div 4) + of_nat x) (term_color v) v) [0..<unat (width v)] v"

definition vterm_scroll :: "vterm_state \<Rightarrow> vterm_state" where
  "vterm_scroll v =
     (let row_size = pitch v * 16;
          screen_size = pitch v * height v;
          visible_size = screen_size - row_size;
          v = fb_move row_size visible_size v;
          v = fold (blank_row visible_size) [0..<16] v
      in v\<lparr>cursor_y := cursor_y v - 16\<rparr>)"

definition newline :: "vterm_state \<Rightarrow> vterm_state" where
  "newline v =
     (let v = v\<lparr>cursor_x := 0, cursor_y := cursor_y v + 16\<rparr>
      in if cursor_y v + 16 > height v then vterm_scroll v else v)"

definition draw_pixel :: "u8 \<Rightarrow> nat \<Rightarrow> nat \<Rightarrow> vterm_state \<Rightarrow> vterm_state" where
  "draw_pixel row y x v =
     (if drop_bit (7 - x) row AND 1 \<noteq> 0
      then put_pixel 0 ((cursor_y v + of_nat y) * (pitch v div 4) + (cursor_x v + of_nat x)) (fg_color v) v
      else v)"

definition draw_row :: "nat \<Rightarrow> nat \<Rightarrow> vterm_state \<Rightarrow> vterm_state option" where
  "draw_row glyph y v =
     (if glyph + y < length default_font
      then Some (fold (draw_pixel (default_font ! (glyph + y)) y) [0..<8] v)
      else None)"

fun draw_rows :: "nat \<Rightarrow> nat list \<Rightarrow> vterm_state \<Rightarrow> vterm_state option" where
  "draw_rows glyph [] v = Some v"
| "draw_rows glyph (y # ys) v = do {
     v \<leftarrow> draw_row glyph y v;
     draw_rows glyph ys v
   }"

definition vterm_putc :: "u8 \<Rightarrow> vterm_state \<Rightarrow> vterm_state option" where
  "vterm_putc c v =
     (if c = 10 then Some (newline v)
      else do {
        let v = (if cursor_x v + 8 > width v then newline v else v);
        v \<leftarrow> draw_rows (unat c * 16) [0..<16] v;
        Some (v\<lparr>cursor_x := cursor_x v + 8\<rparr>)
      })"

fun vterm_print :: "u8 list \<Rightarrow> vterm_state \<Rightarrow> vterm_state option" where
  "vterm_print [] v = Some v"
| "vterm_print (c # cs) v = do {
     v \<leftarrow> vterm_putc c v;
     vterm_print cs v
   }"

section \<open>The terminal never leaves its framebuffer\<close>

text \<open>The geometry of a framebuffer the boot loader may provide, and a cursor inside it.  One line of text
  has to fit; the pitch is a whole number of pixels and at least a line of them.\<close>

definition vterm_geometry :: "vterm_state \<Rightarrow> bool" where
  "vterm_geometry v \<longleftrightarrow> 8 \<le> unat (width v) \<and> 16 \<le> unat (height v) \<and> 4 * unat (width v) \<le> unat (pitch v) \<and>
     4 dvd unat (pitch v) \<and> unat (pitch v) * unat (height v) < 2 ^ 63"

definition vterm_ok :: "vterm_state \<Rightarrow> bool" where
  "vterm_ok v \<longleftrightarrow> vterm_geometry v \<and> unat (cursor_x v) \<le> unat (width v) \<and> unat (cursor_y v) + 16 \<le> unat (height v)"

definition fb_size :: "vterm_state \<Rightarrow> nat" where
  "fb_size v = unat (pitch v) * unat (height v)"

text \<open>Two terminals that differ in the cursor and in bytes of the framebuffer only.\<close>

definition same_outside :: "vterm_state \<Rightarrow> vterm_state \<Rightarrow> bool" where
  "same_outside v w \<longleftrightarrow> pitch w = pitch v \<and> width w = width v \<and> height w = height v \<and>
     fg_color w = fg_color v \<and> term_color w = term_color v \<and>
     (\<forall>a. fb_size v \<le> unat a \<longrightarrow> fb_mem w a = fb_mem v a)"

lemma same_outside_refl [simp]: "same_outside v v"
  by (simp add: same_outside_def)

lemma same_outside_trans [trans]: "same_outside u v \<Longrightarrow> same_outside v w \<Longrightarrow> same_outside u w"
  by (simp add: same_outside_def fb_size_def)

lemma same_outside_geometry: "same_outside v w \<Longrightarrow> vterm_geometry v \<Longrightarrow> vterm_geometry w"
  by (simp add: same_outside_def vterm_geometry_def)

text \<open>A pixel of the screen, at a byte offset that is a multiple of four, lies in the framebuffer.\<close>

lemma pixel_offset:
  assumes "vterm_geometry v" "y < unat (height v)" "x < unat (width v)"
  shows "unat (of_nat y * (pitch v div 4) + of_nat x :: u64) = y * (unat (pitch v) div 4) + x"
    "4 * (y * (unat (pitch v) div 4) + x) + 4 \<le> fb_size v"
proof -
  let ?p = "unat (pitch v)"
  have g: "4 * unat (width v) \<le> ?p" "4 dvd ?p" "?p * unat (height v) < 2 ^ 63" using assms(1) by (auto simp: vterm_geometry_def)
  obtain q where q: "?p = 4 * q" using g(2) by (rule dvdE)
  have "x < q" using assms(3) g(1) q by simp
  then have "y * q + x + 1 \<le> (y + 1) * q" by simp
  also have "\<dots> \<le> unat (height v) * q" using assms(2) by (intro mult_right_mono) auto
  finally have le: "y * q + x + 1 \<le> unat (height v) * q" .
  have sz: "fb_size v = 4 * (unat (height v) * q)" by (simp add: fb_size_def q)
  then show "4 * (y * (?p div 4) + x) + 4 \<le> fb_size v" using le q by simp
  have small: "y * q + x < 2 ^ 63" using le sz g(3)[folded fb_size_def] by linarith
  have dv: "unat (pitch v div 4) = q" using q by (simp add: unat_div)
  have yq: "unat (of_nat y * (pitch v div 4) :: u64) = y * q"
  proof -
    have "y * q < 2 ^ 64" "y < 2 ^ 64" using small assms(2) unsigned_less [of "height v", where ?'a = nat] by simp_all
    then show ?thesis using dv by (simp add: unat_word_ariths unat_of_nat)
  qed
  moreover have "unat (of_nat x :: u64) = x"
    using assms(3) unsigned_less [of "width v", where ?'a = nat] by (intro unat_of_nat_small) simp
  ultimately show "unat (of_nat y * (pitch v div 4) + of_nat x :: u64) = y * (?p div 4) + x"
    using small q by (subst unat_plus_no_overflow) simp_all
qed

lemma put_pixel_same:
  assumes "vterm_geometry v" "unat base + 4 * unat i + 4 \<le> fb_size v"
  shows "same_outside v (put_pixel base i c v)"
proof -
  have sz: "fb_size v < 2 ^ 63" using assms(1) by (simp add: vterm_geometry_def fb_size_def)
  have u: "unat (base + i * 4) = unat base + 4 * unat i"
    using assms(2) sz by (simp add: unat_word_ariths)
  have off: "unat (base + i * 4 + of_nat k) = unat base + 4 * unat i + k" if "k < 4" for k
  proof -
    have "unat (of_nat k :: u64) = k" using that by (simp add: unat_of_nat)
    then show ?thesis using u assms(2) sz that by (subst unat_plus_no_overflow) simp_all
  qed
  have "a \<noteq> base + i * 4 + of_nat k" if "fb_size v \<le> unat a" "k < 4" for a k
    using off [OF that(2)] assms(2) that by auto
  from this [of _ 0] this [of _ 1] this [of _ 2] this [of _ 3] show ?thesis
    by (auto simp: same_outside_def put_pixel_def)
qed

text \<open>Drawing: the cursor stays and only bytes of the framebuffer change.\<close>

definition drawn :: "vterm_state \<Rightarrow> vterm_state \<Rightarrow> bool" where
  "drawn v w \<longleftrightarrow> same_outside v w \<and> vterm_geometry w \<and> cursor_x w = cursor_x v \<and> cursor_y w = cursor_y v"

lemma drawn_trans: "drawn u v \<Longrightarrow> drawn v w \<Longrightarrow> drawn u w"
  by (auto simp: drawn_def intro: same_outside_trans)

lemma drawn_put_pixel:
  assumes "vterm_geometry v" "unat base + 4 * unat i + 4 \<le> fb_size v"
  shows "drawn v (put_pixel base i c v)"
  using put_pixel_same [OF assms] same_outside_geometry [OF put_pixel_same [OF assms] assms(1)]
  by (simp add: drawn_def put_pixel_def)

lemma drawn_fold:
  assumes "vterm_geometry v" "\<And>x w. x \<in> set xs \<Longrightarrow> drawn v w \<Longrightarrow> drawn w (f x w)"
  shows "drawn v (fold f xs v)"
proof (rule fold_invariant [where Q = "\<lambda>x. x \<in> set xs"])
  show "drawn v v" using assms(1) by (simp add: drawn_def)
  show "drawn v (f x w)" if "x \<in> set xs" "drawn v w" for x w
    using drawn_trans assms(2) that by blast
qed

lemma drawn_same: "drawn v w \<Longrightarrow> pitch w = pitch v \<and> width w = width v \<and> height w = height v \<and> fb_size w = fb_size v \<and>
    vterm_geometry w"
  by (simp add: drawn_def same_outside_def fb_size_def)

lemma scroll_sizes:
  assumes "vterm_geometry v"
  shows "unat (pitch v) * 16 \<le> unat (pitch v) * unat (height v)"
    "unat (pitch v * height v - pitch v * 16) = unat (pitch v) * unat (height v) - unat (pitch v) * 16"
    "unat (pitch v * height v - pitch v * 16) \<le> fb_size v" "unat (pitch v) * 16 < 2 ^ 63"
proof -
  let ?p = "unat (pitch v)" and ?h = "unat (height v)"
  have g: "16 \<le> ?h" "?p * ?h < 2 ^ 63" using assms(1) by (auto simp: vterm_geometry_def)
  show ps: "?p * 16 \<le> ?p * ?h" using g(1) by (rule mult_left_mono) simp
  show p16: "?p * 16 < 2 ^ 63" using ps g(2) by (rule le_less_trans)
  then have m: "unat (pitch v * height v) = ?p * ?h" "unat (pitch v * 16) = ?p * 16"
    using g(2) by (simp_all add: unat_word_ariths)
  have "pitch v * 16 \<le> pitch v * height v" using m ps by (simp only: word_le_nat_alt)
  then show "unat (pitch v * height v - pitch v * 16) = ?p * ?h - ?p * 16" using m by (simp add: unat_sub)
  then show "unat (pitch v * height v - pitch v * 16) \<le> fb_size v" by (simp add: fb_size_def)
qed

lemma drawn_blank_row:
  assumes "vterm_geometry v" "y < 16"
  shows "drawn v (blank_row (pitch v * height v - pitch v * 16) y v)"
  unfolding blank_row_def
proof (rule drawn_fold [OF assms(1)])
  fix x w assume x: "x \<in> set [0..<unat (width v)]" and w: "drawn v w"
  let ?p = "unat (pitch v)" and ?h = "unat (height v)"
  have g: "16 \<le> ?h" "?p * ?h < 2 ^ 63" using assms(1) by (auto simp: vterm_geometry_def)
  note ps = scroll_sizes(1) [OF assms(1)] and b = scroll_sizes(2) [OF assms(1)]
  have yh: "y < unat (height w)" "x < unat (width w)" "vterm_geometry w"
    using assms(2) g(1) x drawn_same [OF w] by simp_all
  have gw: "vterm_geometry (w\<lparr>height := 16\<rparr>)" 
    using yh(3) drawn_same [OF w] scroll_sizes(4) [OF assms(1)] by (simp add: vterm_geometry_def)
  note po = pixel_offset [OF gw, of y x]
  show "drawn w (put_pixel (pitch v * height v - pitch v * 16) (of_nat y * (pitch w div 4) + of_nat x) (term_color w) w)"
  proof (rule drawn_put_pixel [OF yh(3)])
    let ?i = "of_nat y * (pitch w div 4) + of_nat x :: u64"
    have "4 * unat ?i + 4 \<le> ?p * 16"
      using po yh assms(2) drawn_same [OF w] by (simp add: fb_size_def)
    moreover have "fb_size w = ?p * ?h" using drawn_same [OF w] by (simp add: fb_size_def)
    ultimately show "unat (pitch v * height v - pitch v * 16) + 4 * unat ?i + 4 \<le> fb_size w"
      using b ps by linarith
  qed
qed

lemma fb_move_same:
  assumes "vterm_geometry v" "unat n \<le> fb_size v"
  shows "drawn v (fb_move from n v)"
  using assms by (auto simp: drawn_def same_outside_def fb_move_def vterm_geometry_def word_less_nat_alt)

lemma vterm_scroll_drawn:
  assumes "vterm_geometry v"
  shows "drawn (v\<lparr>cursor_y := cursor_y v - 16\<rparr>) (vterm_scroll v)"
proof -
  let ?n = "pitch v * height v - pitch v * 16"
  let ?u = "fb_move (pitch v * 16) ?n v"
  have u: "drawn v ?u" by (rule fb_move_same [OF assms scroll_sizes(3) [OF assms]])
  have "drawn ?u (fold (blank_row ?n) [0..<16] ?u)"
  proof (rule drawn_fold)
    show "vterm_geometry ?u" using drawn_same [OF u] by simp
    fix y w assume "y \<in> set [0..<16]" "drawn ?u w"
    then show "drawn w (blank_row ?n y w)"
      using drawn_blank_row [of w y] drawn_same [of ?u w] drawn_same [OF u] by simp
  qed
  then obtain w where w: "w = fold (blank_row ?n) [0..<16] ?u" "drawn v w" using u drawn_trans by blast
  have "vterm_scroll v = w\<lparr>cursor_y := cursor_y w - 16\<rparr>"
    unfolding w(1) by (simp only: vterm_scroll_def Let_def)
  then show ?thesis using w(2) by (auto simp: drawn_def same_outside_def vterm_geometry_def fb_size_def)
qed

lemma newline_ok:
  assumes "vterm_ok v"
  shows "vterm_ok (newline v)" "same_outside v (newline v)" "cursor_x (newline v) = 0"
proof -
  let ?v = "v\<lparr>cursor_x := 0, cursor_y := cursor_y v + 16\<rparr>"
  have g: "vterm_geometry v" "unat (cursor_y v) + 16 \<le> unat (height v)" using assms by (simp_all add: vterm_ok_def)
  then have gv: "vterm_geometry ?v" by (simp add: vterm_geometry_def)
  have "unat (pitch v) > 0" using g(1) by (simp add: vterm_geometry_def)
  then have "unat (height v) \<le> unat (pitch v) * unat (height v)" by simp
  also have "\<dots> < 2 ^ 63" using g(1) by (simp add: vterm_geometry_def)
  finally have hs: "unat (height v) < 2 ^ 63" .
  have y16: "unat (cursor_y v + 16) = unat (cursor_y v) + 16" "unat (32 + cursor_y v) = unat (cursor_y v) + 32"
    using g(2) hs by (subst unat_plus_no_overflow; simp)+
  have cond: "cursor_y ?v + 16 > height ?v \<longleftrightarrow> unat (cursor_y v) + 32 > unat (height v)"
    using y16(2) by (simp add: word_less_nat_alt)
  have nl: "newline v = (if unat (cursor_y v) + 32 > unat (height v) then vterm_scroll ?v else ?v)"
    unfolding newline_def Let_def cond ..
  have sc: "drawn (?v\<lparr>cursor_y := cursor_y v\<rparr>) (vterm_scroll ?v)" using vterm_scroll_drawn [OF gv] by simp
  show "cursor_x (newline v) = 0" using sc by (simp add: nl drawn_def)
  show "same_outside v (newline v)"
    using sc by (auto simp: nl drawn_def same_outside_def fb_size_def)
  show "vterm_ok (newline v)"
    using sc g y16(1) gv by (auto simp: nl vterm_ok_def drawn_def same_outside_def)
qed

lemma draw_pixel_drawn:
  assumes "vterm_geometry v" "unat (cursor_x v) + 8 \<le> unat (width v)" "unat (cursor_y v) + 16 \<le> unat (height v)"
    "y < 16" "x < 8"
  shows "drawn v (draw_pixel row y x v)"
proof -
  let ?y = "unat (cursor_y v) + y" and ?x = "unat (cursor_x v) + x"
  have "cursor_y v + of_nat y = of_nat ?y" "cursor_x v + of_nat x = of_nat ?x" by simp_all
  moreover note po = pixel_offset [OF assms(1), of ?y ?x]
  ultimately show ?thesis
    using assms unfolding draw_pixel_def
    by (auto simp del: of_nat_add intro!: drawn_put_pixel) (simp add: drawn_def)
qed

lemma draw_rows_drawn:
  assumes "vterm_geometry v" "unat (cursor_x v) + 8 \<le> unat (width v)" "unat (cursor_y v) + 16 \<le> unat (height v)"
    "\<forall>y \<in> set ys. y < 16 \<and> glyph + y < length default_font"
  shows "\<exists>w. draw_rows glyph ys v = Some w \<and> drawn v w"
  using assms
proof (induction ys arbitrary: v)
  case Nil
  then show ?case by (simp add: drawn_def)
next
  case (Cons y ys)
  let ?w = "fold (draw_pixel (default_font ! (glyph + y)) y) [0..<8] v"
  have w: "drawn v ?w"
  proof (rule drawn_fold [OF Cons.prems(1)])
    fix x w assume "x \<in> set [0..<8]" "drawn v w"
    then show "drawn w (draw_pixel (default_font ! (glyph + y)) y x w)"
      using Cons.prems drawn_same [of v w] by (intro draw_pixel_drawn) (auto simp: drawn_def)
  qed
  obtain u where "draw_rows glyph ys ?w = Some u" "drawn ?w u"
    using Cons.IH [of ?w] Cons.prems drawn_same [OF w] w by (auto simp: drawn_def)
  then show ?case using drawn_trans [OF w] Cons.prems(4) by (simp add: draw_row_def)
qed

lemma vterm_putc_cases:
  assumes "vterm_ok v"
  shows "if c = 0xFF then vterm_putc c v = None
    else \<exists>w. vterm_putc c v = Some w \<and> vterm_ok w \<and> same_outside v w"
proof -
  let ?v = "if cursor_x v + 8 > width v then newline v else v"
  note nl = newline_ok [OF assms]
  have cx: "cursor_x v + 8 > width v \<longleftrightarrow> unat (cursor_x v) + 8 > unat (width v)"
  proof -
    have "4 * unat (width v) \<le> unat (pitch v)" using assms by (simp add: vterm_ok_def vterm_geometry_def)
    then have "unat (cursor_x v + 8) = unat (cursor_x v) + 8"
      using assms unsigned_less [of "pitch v", where ?'a = nat]
      by (subst unat_plus_no_overflow) (simp_all add: vterm_ok_def)
    then show ?thesis by (simp add: word_less_nat_alt)
  qed
  have ok: "vterm_ok ?v" "same_outside v ?v" using assms nl by simp_all
  then have x8: "unat (cursor_x ?v) + 8 \<le> unat (width ?v)"
    using cx nl(3) by (auto simp: vterm_ok_def vterm_geometry_def)
  show ?thesis
  proof (cases "c = 0xFF")
    case True
    have "draw_rows 4080 (ys @ [15]) w = None" for ys w
      by (induction ys arbitrary: w) (simp_all add: draw_row_def length_default_font)
    moreover have "[0..<16] = [0..<15] @ [15 :: nat]" using upt_Suc_append [of 0 15] by simp
    ultimately have "draw_rows 4080 [0..<16] w = None" for w by metis
    then show ?thesis using True by (simp add: vterm_putc_def)
  next
    case False
    have "unat c < 255"
    proof -
      have "unat c \<noteq> 255" using False word_nat_of_unat [of c 255] by auto
      then show ?thesis using unsigned_less [of c, where ?'a = nat] by simp
    qed
    then obtain w where "draw_rows (unat c * 16) [0..<16] ?v = Some w" "drawn ?v w"
      using draw_rows_drawn [of ?v "[0..<16]" "unat c * 16"] ok(1) x8
      by (auto simp: vterm_ok_def length_default_font)
    moreover from this(2) have "vterm_ok (w\<lparr>cursor_x := cursor_x w + 8\<rparr>)"
      using ok(1) x8 by (auto simp: vterm_ok_def drawn_def same_outside_def vterm_geometry_def unat_word_ariths)
    moreover have "same_outside v (w\<lparr>cursor_x := cursor_x w + 8\<rparr>)"
      using \<open>drawn ?v w\<close> same_outside_trans [OF ok(2), of w] by (simp add: drawn_def same_outside_def fb_size_def)
    ultimately show ?thesis using False nl assms by (simp add: vterm_putc_def Let_def)
  qed
qed

text \<open>C29: On a terminal whose cursor lies in a well-formed framebuffer, printing any character but \<open>0xFF\<close>
  succeeds, keeps the cursor inside the screen, wrapping and scrolling as needed, and changes no byte outside
  the framebuffer.  The glyph of \<open>0xFF\<close> is one byte short: drawing it reads past the end of the font.\<close>

theorem vterm_putc_in_bounds:
  assumes "vterm_ok v"
  shows "if c = 0xFF then vterm_putc c v = None
    else \<exists>w. vterm_putc c v = Some w \<and> vterm_ok w \<and> same_outside v w"
  by (rule vterm_putc_cases [OF assms])

definition vterm_example :: vterm_state where
  "vterm_example = \<lparr>fb_mem = (\<lambda>_. 0), pitch = 256, width = 60, height = 40, cursor_x = 56, cursor_y = 16,
     term_color = 0, fg_color = 0xFFFFFF\<rparr>"

lemma vterm_example_ok: "vterm_ok vterm_example"
  by (simp add: vterm_ok_def vterm_geometry_def vterm_example_def)

theorem vterm_putc_in_bounds_witness:
  "vterm_ok vterm_example \<and> vterm_putc 0xFF vterm_example = None \<and>
   (\<exists>w. vterm_putc 0x41 vterm_example = Some w \<and> vterm_ok w \<and> fb_mem w 10240 = 0)"
proof -
  note ok = vterm_example_ok
  have "fb_size vterm_example \<le> unat (10240 :: u64)" by (simp add: fb_size_def vterm_example_def)
  then show ?thesis
    using ok vterm_putc_in_bounds [OF ok, of "0xFF"] vterm_putc_in_bounds [OF ok, of "0x41"]
    by (auto simp: same_outside_def) (simp add: vterm_example_def)
qed

end
