(* ===== verification/Errno.thy ===== *)
theory Errno
  imports Kernel_Prelude
begin

text \<open>
  The error numbers (\<open>errno.h\<close> of the system root): the codes the kernel returns, negated, and the table behind
  \<open>__get_err_code\<close>, which \<open>vterm_status\<close> prints.
\<close>

definition errno_codes :: "(string \<times> int) list" where
  "errno_codes = [
    (''EPERM'', 1), (''ENOENT'', 2), (''ESRCH'', 3), (''EINTR'', 4), (''EIO'', 5), (''ENXIO'', 6),
    (''E2BIG'', 7), (''ENOEXEC'', 8), (''EBADF'', 9), (''ECHILD'', 10), (''EAGAIN'', 11), (''ENOMEM'', 12),
    (''EACCES'', 13), (''EFAULT'', 14), (''ENOTBLK'', 15), (''EBUSY'', 16), (''EEXIST'', 17),
    (''EXDEV'', 18), (''ENODEV'', 19), (''ENOTDIR'', 20), (''EISDIR'', 21), (''EINVAL'', 22),
    (''ENFILE'', 23), (''EMFILE'', 24), (''ENOTTY'', 25), (''ETXTBSY'', 26), (''EFBIG'', 27),
    (''ENOSPC'', 28), (''ESPIPE'', 29), (''EROFS'', 30), (''EMLINK'', 31), (''EPIPE'', 32), (''EDOM'', 33),
    (''ERANGE'', 34), (''ENOMSG'', 35), (''EIDRM'', 36), (''ECHRNG'', 37), (''EL2NSYNC'', 38),
    (''EL3HLT'', 39), (''EL3RST'', 40), (''ELNRNG'', 41), (''EUNATCH'', 42), (''ENOCSI'', 43),
    (''EL2HLT'', 44), (''EDEADLK'', 45), (''ENOLCK'', 46), (''EBADE'', 50), (''EBADR'', 51),
    (''EXFULL'', 52), (''ENOANO'', 53), (''EBADRQC'', 54), (''EBADSLT'', 55), (''EDEADLOCK'', 56),
    (''EBFONT'', 57), (''ENOSTR'', 60), (''ENODATA'', 61), (''ETIME'', 62), (''ENOSR'', 63),
    (''ENONET'', 64), (''ENOPKG'', 65), (''EREMOTE'', 66), (''ENOLINK'', 67), (''EADV'', 68),
    (''ESRMNT'', 69), (''ECOMM'', 70), (''EPROTO'', 71), (''EMULTIHOP'', 74), (''ELBIN'', 75),
    (''EDOTDOT'', 76), (''EBADMSG'', 77), (''EFTYPE'', 79), (''ENOTUNIQ'', 80), (''EBADFD'', 81),
    (''EREMCHG'', 82), (''ELIBACC'', 83), (''ELIBBAD'', 84), (''ELIBSCN'', 85), (''ELIBMAX'', 86),
    (''ELIBEXEC'', 87), (''ENOSYS'', 88), (''ENOTEMPTY'', 90), (''ENAMETOOLONG'', 91), (''ELOOP'', 92),
    (''EOPNOTSUPP'', 95), (''EPFNOSUPPORT'', 96), (''ECONNRESET'', 104), (''ENOBUFS'', 105),
    (''EAFNOSUPPORT'', 106), (''EPROTOTYPE'', 107), (''ENOTSOCK'', 108), (''ENOPROTOOPT'', 109),
    (''ESHUTDOWN'', 110), (''ECONNREFUSED'', 111), (''EADDRINUSE'', 112), (''ECONNABORTED'', 113),
    (''ENETUNREACH'', 114), (''ENETDOWN'', 115), (''ETIMEDOUT'', 116), (''EHOSTDOWN'', 117),
    (''EHOSTUNREACH'', 118), (''EINPROGRESS'', 119), (''EALREADY'', 120), (''EDESTADDRREQ'', 121),
    (''EMSGSIZE'', 122), (''EPROTONOSUPPORT'', 123), (''ESOCKTNOSUPPORT'', 124), (''EADDRNOTAVAIL'', 125),
    (''ENETRESET'', 126), (''EISCONN'', 127), (''ENOTCONN'', 128), (''ETOOMANYREFS'', 129),
    (''EPROCLIM'', 130), (''EUSERS'', 131), (''EDQUOT'', 132), (''ESTALE'', 133), (''ENOTSUP'', 134),
    (''EILSEQ'', 138), (''EOVERFLOW'', 139), (''ECANCELED'', 140), (''ENOTRECOVERABLE'', 141),
    (''EOWNERDEAD'', 142), (''ESTRPIPE'', 143), (''EWOULDBLOCK'', 11)]"

text \<open>The codes the modelled components return.\<close>

definition EPERM :: int where "EPERM = 1"
definition ENOENT :: int where "ENOENT = 2"
definition ESRCH :: int where "ESRCH = 3"
definition EIO :: int where "EIO = 5"
definition ECHILD :: int where "ECHILD = 10"
definition EEXIST :: int where "EEXIST = 17"
definition EINVAL :: int where "EINVAL = 22"
definition ENOSYS :: int where "ENOSYS = 88"

definition err_messages_0 :: "(int \<times> string) list" where
  "err_messages_0 = [
    (1, ''Operation not permitted''), (2, ''No such file or directory''), (3, ''No such process''),
    (4, ''Interrupted system call''), (5, ''I/O error''), (6, ''No such device or address''),
    (7, ''Argument list too long''), (8, ''Exec format error''), (9, ''Bad file descriptor''),
    (10, ''No child processes''), (11, ''Resource temporarily unavailable''), (12, ''Not enough memory''),
    (13, ''Permission denied''), (14, ''Bad address''), (15, ''Block device required''),
    (16, ''Resource busy''), (17, ''File exists''), (18, ''Cross-device link''), (19, ''No such device''),
    (20, ''Not a directory''), (21, ''Is a directory''), (22, ''Invalid argument''),
    (23, ''Too many open files in system''), (24, ''Too many open files''), (25, ''Not a typewriter''),
    (26, ''Text file busy''), (27, ''File too large''), (28, ''No space left on device''),
    (29, ''Illegal seek''), (30, ''Read-only file system''), (31, ''Too many links''),
    (32, ''Broken pipe''), (33, ''Math argument out of domain of func''),
    (34, ''Math result not representable''), (35, ''No message of desired type''),
    (36, ''Identifier removed''), (37, ''Channel number out of range''),
    (38, ''Level 2 not synchronized''), (39, ''Level 3 halted''), (40, ''Level 3 reset''),
    (41, ''Link number out of range''), (42, ''Protocol driver not attached''),
    (43, ''No CSI structure available''), (44, ''Level 2 halted''), (45, ''Deadlock condition''),
    (46, ''No record locks available''), (50, ''Invalid exchange''), (51, ''Invalid request descriptor''),
    (52, ''Exchange full''), (53, ''No anode''), (54, ''Invalid request code''), (55, ''Invalid slot''),
    (56, ''File locking deadlock error''), (57, ''Bad font file format''), (60, ''Device not a stream''),
    (61, ''No data (for no delay IO)''), (62, ''Timer expired''), (63, ''Out of streams resources''),
    (64, ''Machine is not on the network''), (65, ''Package not installed''), (66, ''Object is remote'')]"

definition err_messages_1 :: "(int \<times> string) list" where
  "err_messages_1 = [
    (67, ''Link has been severed''), (68, ''Advertise error''), (69, ''Srmount error''),
    (70, ''Communication error on send''), (71, ''Protocol error''), (74, ''Multihop attempted''),
    (75, ''Inode is remote''), (76, ''Cross mount point''), (77, ''Unreadable message''),
    (79, ''Inappropriate file type or format''), (80, ''Given log. name not unique''),
    (81, ''Invalid file descriptor''), (82, ''Remote address changed''),
    (83, ''Can't access needed shared lib''), (84, ''Corrupted shared lib''),
    (85, ''.lib section in a.out corrupted''), (86, ''Too many libs linked''),
    (87, ''Exec shared library failed''), (88, ''Function not implemented''),
    (90, ''Directory not empty''), (91, ''File or path name too long''), (92, ''Too many symbolic links''),
    (95, ''Operation not supported''), (96, ''Protocol family not supported''),
    (104, ''Connection reset by peer''), (105, ''No buffer space available''),
    (106, ''Address family not supported''), (107, ''Protocol wrong type for socket''),
    (108, ''Socket operation on non-socket''), (109, ''Protocol not available''),
    (110, ''Can't send after socket shutdown''), (111, ''Connection refused''),
    (112, ''Address already in use''), (113, ''Connection aborted''), (114, ''Network is unreachable''),
    (115, ''Network interface not configured''), (116, ''Connection timed out''), (117, ''Host is down''),
    (118, ''Host unreachable''), (119, ''Connection already in progress''),
    (120, ''Socket already connected''), (121, ''Destination address required''),
    (122, ''Message too long''), (123, ''Unknown protocol''), (124, ''Socket type not supported''),
    (125, ''Address not available''), (126, ''Network reset''), (127, ''Socket is already connected''),
    (128, ''Socket not connected''), (129, ''Too many references''), (130, ''Process limit reached''),
    (131, ''Too many users''), (132, ''Quota exceeded''), (133, ''Stale file handle''),
    (138, ''Illegal byte sequence''), (139, ''Value too large for type''), (140, ''Operation canceled''),
    (141, ''State not recoverable''), (142, ''Previous owner died''), (143, ''Streams pipe error'')]"

text \<open>The \<open>switch\<close> of the source: the cases in order, then the default.\<close>

definition get_err_code :: "int \<Rightarrow> string" where
  "get_err_code err = (case map_of (err_messages_0 @ err_messages_1) err of Some m \<Rightarrow> m | None \<Rightarrow> ''Unknown error'')"

text \<open>\<open>__set_errno\<close> stores the positive code of a failed call in the global and returns the result unchanged.\<close>

definition set_errno :: "int \<Rightarrow> int \<Rightarrow> int \<times> int" where
  "set_errno ret errno = (ret, if ret < 0 then - ret else errno)"

lemma lookup_default:
  assumes "list_all (\<lambda>(c, m). m \<noteq> d) ms"
  shows "(case map_of ms c of Some m \<Rightarrow> m | None \<Rightarrow> d) = d \<longleftrightarrow> c \<notin> fst ` set ms"
proof (cases "map_of ms c")
  case None
  moreover have "c \<notin> fst ` set ms" using None by (simp only: map_of_eq_None_iff simp_thms)
  ultimately show ?thesis by simp
next
  case (Some m)
  then have "(c, m) \<in> set ms" by (rule map_of_SomeD)
  moreover from this have "m \<noteq> d" using assms by (auto simp: list_all_iff)
  ultimately show ?thesis using Some by force
qed

lemma get_err_code_unknown: "get_err_code c = ''Unknown error'' \<longleftrightarrow> c \<notin> set (map fst (err_messages_0 @ err_messages_1))"
  unfolding get_err_code_def set_map
  by (rule lookup_default) (simp add: err_messages_0_def err_messages_1_def)

text \<open>The codes with a message are those of the header, in its order, but for one code and the alias at the end.\<close>

lemma err_messages_codes:
  "map fst (err_messages_0 @ err_messages_1) = map snd (take 115 errno_codes) @
     map snd (butlast (drop 116 errno_codes))"
  by (simp add: err_messages_0_def err_messages_1_def errno_codes_def)

lemma errno_split:
  "errno_codes = take 115 errno_codes @ (''ENOTSUP'', 134) # butlast (drop 116 errno_codes) @ [(''EWOULDBLOCK'', 11)]"
  "11 \<in> set (map snd (take 115 errno_codes))"
  "134 \<notin> set (map fst (err_messages_0 @ err_messages_1))"
  by (simp_all add: errno_codes_def err_messages_0_def err_messages_1_def)

text \<open>Every error code of the header has a message of its own, different from the one for unknown codes, with
  the single exception of \<open>ENOTSUP\<close>.\<close>

theorem get_err_code_total:
  "filter (\<lambda>(n, c). get_err_code c = ''Unknown error'') errno_codes = [(''ENOTSUP'', 134)]"
proof -
  let ?P = "\<lambda>(n :: string, c). get_err_code c = ''Unknown error''"
  let ?a = "take 115 errno_codes" and ?b = "butlast (drop 116 errno_codes)"
  have "filter ?P ?a = []" "filter ?P ?b = []" "\<not> ?P (''EWOULDBLOCK'', 11)"
    using errno_split(2) unfolding filter_empty_conv get_err_code_unknown err_messages_codes by force+
  moreover have "?P (''ENOTSUP'', 134)" using errno_split(3) by (simp only: get_err_code_unknown) simp
  ultimately show ?thesis
    by (subst errno_split(1)) (simp only: filter_append filter.simps if_True if_False append_Nil append_Nil2)
qed

end
