(* ===== verification/Printf.thy ===== *)
theory Printf
  imports Serial Vterm Spinlock Errno
begin

text \<open>
  Formatted output (\<open>klibc/printf.c\<close>) with everything below it: each character goes to the serial port and to
  the terminal.  Strings are lists of bytes without their terminator.  Variadic arguments are a list of
  values; fetching a missing argument or one of another kind is undefined and gives \<open>None\<close>, as does a format
  that ends inside a directive, where the source would run past the terminator.

  The digit buffer of \<open>kprintnp\<close> is an uninitialised local array.  What it holds is a parameter of
  the state: \<open>stack_junk k\<close> is the array at the \<open>k\<close>-th call.
\<close>

record tty_state = cpu_state +
  vt :: vterm_state
  kprintf_spinlock :: spinlock_t
  stack_junk :: "nat \<Rightarrow> u8 list"
  kprintnp_calls :: nat

definition bytes_of :: "string \<Rightarrow> u8 list" where
  "bytes_of s = map (\<lambda>c. of_nat (of_char c)) s"

definition DIGITS_UPPERCASE :: "u8 list" where "DIGITS_UPPERCASE = bytes_of ''0123456789ABCDEF''"
definition DIGITS_LOWERCASE :: "u8 list" where "DIGITS_LOWERCASE = bytes_of ''0123456789abcdef''"

definition kputc :: "u8 \<Rightarrow> tty_state \<Rightarrow> tty_state option" where
  "kputc c s = do {
     s \<leftarrow> write_serial_char c s;
     v \<leftarrow> vterm_putc c (vt s);
     Some (s\<lparr>vt := v\<rparr>)
   }"

fun kprints :: "u8 list \<Rightarrow> tty_state \<Rightarrow> tty_state option" where
  "kprints [] s = Some s"
| "kprints (c # cs) s = do {
     s \<leftarrow> kputc c s;
     kprints cs s
   }"

section \<open>Numbers\<close>

text \<open>\<open>buffer[++i] = c\<close> on the array of 32 characters: an index past its end is an overflow.\<close>

definition push_digit :: "u8 \<Rightarrow> nat \<times> u8 list \<Rightarrow> (nat \<times> u8 list) option" where
  "push_digit c = (\<lambda>(i, buffer). if i + 1 < 32 then Some (i + 1, buffer[i + 1 := c]) else None)"

lemma push_digit_index: "push_digit c (i, b) = Some (j, b') \<Longrightarrow> j = i + 1 \<and> j < 32"
  by (auto simp: push_digit_def split: if_splits)

function digit_loop :: "u64 \<Rightarrow> u64 \<Rightarrow> u8 list \<Rightarrow> nat \<Rightarrow> u8 list \<Rightarrow> (nat \<times> u8 list) option" where
  "digit_loop num base digits i buffer =
     (if num > 0 then
        (if base = 0 \<or> unat (num mod base) \<ge> length digits \<or> i + 1 \<ge> 32 then None
         else digit_loop (num div base) base digits (i + 1) (buffer[i + 1 := digits ! unat (num mod base)]))
      else Some (i, buffer))"
  by pat_completeness auto
termination by (relation "measure (\<lambda>(_, _, _, i, _). 32 - i)") auto

declare digit_loop.simps [simp del]

function pad_loop :: "u8 \<Rightarrow> int \<Rightarrow> nat \<Rightarrow> u8 list \<Rightarrow> (nat \<times> u8 list) option" where
  "pad_loop pad w i buffer =
     (if int i < w then (if i + 1 \<ge> 32 then None else pad_loop pad w (i + 1) (buffer[i + 1 := pad]))
      else Some (i, buffer))"
  by pat_completeness auto
termination by (relation "measure (\<lambda>(_, _, i, _). 32 - i)") auto

declare pad_loop.simps [simp del]

text \<open>The buffer before the characters are written, and the loop \<open>while (--i >= 0) kputc(buffer[i])\<close>.\<close>

definition number_buffer :: "u8 list \<Rightarrow> u64 \<Rightarrow> u64 \<Rightarrow> bool \<Rightarrow> int \<Rightarrow> u8 \<Rightarrow> (nat \<times> u8 list) option" where
  "number_buffer buffer num base uppercase w pad = do {
     let digits = (if uppercase then DIGITS_UPPERCASE else DIGITS_LOWERCASE);
     (i, buffer) \<leftarrow> (if num = 0 then push_digit 48 (0, buffer) else digit_loop num base digits 0 buffer);
     pad_loop pad w i buffer
   }"

fun put_down :: "nat \<Rightarrow> u8 list \<Rightarrow> tty_state \<Rightarrow> tty_state option" where
  "put_down 0 buffer s = Some s"
| "put_down (Suc i) buffer s = do {
     s \<leftarrow> kputc (buffer ! i) s;
     put_down i buffer s
   }"

definition kprintnp :: "u64 \<Rightarrow> u64 \<Rightarrow> bool \<Rightarrow> int \<Rightarrow> u8 \<Rightarrow> tty_state \<Rightarrow> tty_state option" where
  "kprintnp num base uppercase w pad s = do {
     let buffer = stack_junk s (kprintnp_calls s);
     let s = s\<lparr>kprintnp_calls := kprintnp_calls s + 1\<rparr>;
     (i, buffer) \<leftarrow> number_buffer buffer num base uppercase w pad;
     put_down i buffer s
   }"

definition kprintns :: "u64 \<Rightarrow> u64 \<Rightarrow> tty_state \<Rightarrow> tty_state option" where
  "kprintns num base s =
     (if sint num < 0
      then do { s \<leftarrow> kputc 45 s; kprintnp (- num) base False 0 32 s }
      else kprintnp num base False 0 32 s)"

section \<open>Formats\<close>

datatype va_arg = VaInt u32 | VaLong u64 | VaPtr u64 | VaStr "u8 list option"

fun scan_width :: "u8 list \<Rightarrow> int \<Rightarrow> int \<times> u8 list" where
  "scan_width (c # cs) w = (if 48 \<le> c \<and> c \<le> 57 then scan_width cs (w * 10 + int (unat c - 48)) else (w, c # cs))"
| "scan_width [] w = (w, [])"

lemma scan_width_length: "length (snd (scan_width cs w)) \<le> length cs"
  by (induction cs w rule: scan_width.induct) auto

text \<open>Fetching an integer argument.  Every variadic integer occupies a 64-bit slot, so fetching an \<open>int\<close> from a
  64-bit argument takes its lower half; fetching a 64-bit value from an \<open>int\<close> is undefined.\<close>

fun unsigned_arg :: "bool \<Rightarrow> va_arg list \<Rightarrow> (u64 \<times> va_arg list) option" where
  "unsigned_arg is_long (VaLong n # args) = Some (if is_long then n else ucast (ucast n :: u32), args)"
| "unsigned_arg is_long (VaInt n # args) = (if is_long then None else Some (ucast n, args))"
| "unsigned_arg is_long _ = None"

fun signed_arg :: "bool \<Rightarrow> va_arg list \<Rightarrow> (u64 \<times> va_arg list) option" where
  "signed_arg is_long (VaLong n # args) = Some (if is_long then n else scast (ucast n :: u32), args)"
| "signed_arg is_long (VaInt n # args) = (if is_long then None else Some (scast n, args))"
| "signed_arg is_long _ = None"

text \<open>One conversion: the new count, the remaining arguments and the state.\<close>

definition convert ::
  "u8 \<Rightarrow> int \<Rightarrow> u8 \<Rightarrow> bool \<Rightarrow> va_arg list \<Rightarrow> u32 \<Rightarrow> tty_state \<Rightarrow> (u32 \<times> va_arg list \<times> tty_state) option" where
  "convert c w pad is_long args count s =
     (if c = 99 then
        (case args of VaInt n # args \<Rightarrow> do { s \<leftarrow> kputc (ucast n) s; Some (count + 1, args, s) } | _ \<Rightarrow> None)
      else if c = 115 then
        (case args of
           VaStr str # args \<Rightarrow> do {
             let str = (case str of None \<Rightarrow> bytes_of ''(null)'' | Some str \<Rightarrow> str);
             s \<leftarrow> kprints str s;
             Some (count + of_nat (length str), args, s)
           }
         | _ \<Rightarrow> None)
      else if c = 100 \<or> c = 105 then do {
        (n, args) \<leftarrow> signed_arg is_long args;
        s \<leftarrow> kprintns n 10 s;
        Some (count + 1, args, s)
      }
      else if c = 117 then do {
        (n, args) \<leftarrow> unsigned_arg is_long args;
        s \<leftarrow> kprintnp n 10 False w pad s;
        Some (count + 1, args, s)
      }
      else if c = 120 then do {
        (n, args) \<leftarrow> unsigned_arg is_long args;
        s \<leftarrow> kprintnp n 16 False w pad s;
        Some (count + 1, args, s)
      }
      else if c = 88 then do {
        (n, args) \<leftarrow> unsigned_arg is_long args;
        s \<leftarrow> kprintnp n 16 True w pad s;
        Some (count + 1, args, s)
      }
      else if c = 112 then
        (case args of
           VaPtr p # args \<Rightarrow> do {
             s \<leftarrow> kprints (bytes_of ''0x'') s;
             s \<leftarrow> kprintnp p 16 False 16 48 s;
             Some (count + 1, args, s)
           }
         | _ \<Rightarrow> None)
      else if c = 37 then do { s \<leftarrow> kputc 37 s; Some (count + 1, args, s) }
      else do { s \<leftarrow> kputc 37 s; s \<leftarrow> kputc c s; Some (count + 2, args, s) })"

text \<open>The directive behind a \<open>%\<close>: an optional zero, the width and an optional \<open>l\<close>, and what follows.\<close>

definition directive :: "u8 list \<Rightarrow> u8 \<times> int \<times> bool \<times> u8 list" where
  "directive fmt =
     (let (pad, fmt) = (case fmt of c # cs \<Rightarrow> if c = 48 then (48, cs) else (32, fmt) | [] \<Rightarrow> (32, []));
          (w, fmt) = scan_width fmt 0;
          (is_long, fmt) = (case fmt of c # cs \<Rightarrow> if c = 108 then (True, cs) else (False, fmt) | [] \<Rightarrow> (False, []))
      in (pad, w, is_long, fmt))"

lemma directive_length: "directive fmt = (pad, w, is_long, fmt') \<Longrightarrow> length fmt' \<le> length fmt"
  using scan_width_length [of fmt 0] scan_width_length [of "tl fmt" 0]
  by (auto simp: directive_def Let_def split: list.splits if_splits prod.splits)

function format_loop ::
  "u8 list \<Rightarrow> va_arg list \<Rightarrow> u32 \<Rightarrow> tty_state \<Rightarrow> (u32 \<times> tty_state) option" where
  "format_loop [] args count s = Some (count, s)"
| "format_loop (c # fmt) args count s =
     (if c = 37 then
        (case directive fmt of (pad, w, is_long, fmt') \<Rightarrow>
           (case fmt' of
              [] \<Rightarrow> None
            | d # fmt'' \<Rightarrow>
               (case convert d w pad is_long args count s of
                  None \<Rightarrow> None
                | Some (count, args, s) \<Rightarrow> format_loop fmt'' args count s)))
      else (case kputc c s of None \<Rightarrow> None | Some s \<Rightarrow> format_loop fmt args (count + 1) s))"
  by pat_completeness auto
termination
  by (relation "measure (\<lambda>(fmt, _). length fmt)") (auto dest!: directive_length [OF sym])

definition kprintf :: "u8 list \<Rightarrow> va_arg list \<Rightarrow> tty_state \<Rightarrow> (u32 \<times> tty_state) option" where
  "kprintf fmt args s = do {
     (l, s) \<leftarrow> spinlock_acquire (kprintf_spinlock s) s;
     let s = s\<lparr>kprintf_spinlock := l\<rparr>;
     (count, s) \<leftarrow> format_loop fmt args 0 s;
     let (l, s) = spinlock_release (kprintf_spinlock s) s;
     Some (count, s\<lparr>kprintf_spinlock := l\<rparr>)
   }"

definition init_kprintf_spinlock :: "tty_state \<Rightarrow> tty_state option" where
  "init_kprintf_spinlock s = do {
     let s = s\<lparr>kprintf_spinlock := spinlock_init (kprintf_spinlock s)\<rparr>;
     (_, s) \<leftarrow> kprintf (bytes_of ''Kprintf spinlock...'') [] s;
     let s = s\<lparr>vt := vterm_set_fg_color COLOR_GREEN (vt s)\<rparr>;
     (_, s) \<leftarrow> kprintf (bytes_of ''OK'' @ [10]) [] s;
     Some (s\<lparr>vt := vterm_set_fg_color COLOR_WHITE (vt s)\<rparr>)
   }"

text \<open>\<open>kok\<close> and \<open>kerror\<close> down to the devices.\<close>

definition kok_tty :: "tty_state \<Rightarrow> tty_state option" where
  "kok_tty s = do {
     let s = s\<lparr>vt := vterm_set_fg_color COLOR_GREEN (vt s)\<rparr>;
     (_, s) \<leftarrow> kprintf (bytes_of ''OK'' @ [10]) [] s;
     Some (s\<lparr>vt := vterm_set_fg_color COLOR_WHITE (vt s)\<rparr>)
   }"

definition kerror_tty :: "u8 list \<Rightarrow> tty_state \<Rightarrow> tty_state option" where
  "kerror_tty msg s = do {
     let s = s\<lparr>vt := vterm_set_fg_color COLOR_RED (vt s)\<rparr>;
     (_, s) \<leftarrow> kprintf (bytes_of ''Error: %s'' @ [10]) [VaStr (Some msg)] s;
     Some (s\<lparr>vt := vterm_set_fg_color COLOR_WHITE (vt s)\<rparr>)
   }"

definition vterm_status :: "u8 list \<Rightarrow> int \<Rightarrow> tty_state \<Rightarrow> tty_state option" where
  "vterm_status str ret s = do {
     v \<leftarrow> vterm_print str (vt s);
     v \<leftarrow> vterm_print (bytes_of ''...'') v;
     let s = s\<lparr>vt := v\<rparr>;
     if ret \<noteq> 0 then kerror_tty (bytes_of (get_err_code ret)) s else kok_tty s
   }"

section \<open>Assertions\<close>

text \<open>\<open>utoa\<close> of \<open>klibc/assert.c\<close>: digits are stored from the lowest up and then reversed in place.\<close>

function utoa_digits :: "u32 \<Rightarrow> u8 list" where
  "utoa_digits n = ucast (48 + n mod 10) # (if n div 10 \<noteq> 0 then utoa_digits (n div 10) else [])"
  by pat_completeness auto
termination
proof (relation "measure unat")
  fix n :: u32 assume "n div 10 \<noteq> 0"
  then have "unat (n div 10) \<noteq> 0" by (simp add: unat_eq_zero)
  then show "(n div 10, n) \<in> measure unat" by (simp add: unat_div)
qed simp

declare utoa_digits.simps [simp del]

text \<open>The loop \<open>while (p < q)\<close> swapping the ends.\<close>

function swap_ends :: "nat \<Rightarrow> nat \<Rightarrow> u8 list \<Rightarrow> u8 list" where
  "swap_ends p q buf = (if p < q then swap_ends (p + 1) (q - 1) (buf[p := buf ! q, q := buf ! p]) else buf)"
  by pat_completeness auto
termination by (relation "measure (\<lambda>(p, q, _). q - p)") auto

declare swap_ends.simps [simp del]

definition utoa :: "u32 \<Rightarrow> u8 list" where
  "utoa n = (let buf = utoa_digits n in swap_ends 0 (length buf - 1) buf)"

text \<open>The failed assertion: the state in which \<open>hcf\<close> is entered.\<close>

definition assert_fail :: "string \<Rightarrow> string \<Rightarrow> u32 \<Rightarrow> string option \<Rightarrow> tty_state \<Rightarrow> tty_state option" where
  "assert_fail expr file line func s = do {
     s \<leftarrow> kerror_tty (bytes_of ''Assertion failed:'') s;
     s \<leftarrow> kerror_tty (bytes_of expr) s;
     s \<leftarrow> kerror_tty (bytes_of ''Function:'') s;
     s \<leftarrow> kerror_tty (bytes_of (case func of Some f \<Rightarrow> f | None \<Rightarrow> ''<unknown>'')) s;
     s \<leftarrow> kerror_tty (bytes_of ''File:'') s;
     s \<leftarrow> kerror_tty (bytes_of file) s;
     s \<leftarrow> kerror_tty (bytes_of ''Line:'') s;
     s \<leftarrow> kerror_tty (utoa line) s;
     Some (disable_interrupt s)
   }"

end
