(* ===== verification/Printf_Correct.thy ===== *)
theory Printf_Correct
  imports Printf
begin

text \<open>
  What printing does: literal text and strings arrive unchanged at the serial port, and numbers do not.
\<close>

section \<open>Literal text\<close>

definition tty_ok :: "tty_state \<Rightarrow> bool" where
  "tty_ok s \<longleftrightarrow> uart_ready (io_in8 s) \<and> vterm_ok (vt s)"

definition sent :: "tty_state \<Rightarrow> u8 list" where
  "sent s = transmitted (io_trace s)"

lemma wait_transmit_frame:
  assumes "wait_transmit s = Some t"
  shows "cpu_state.more t = cpu_state.more s \<and> interrupt_flag t = interrupt_flag s"
  by (rule wait_transmit.raw_induct [where P = "\<lambda>s t. cpu_state.more t = cpu_state.more s \<and>
        interrupt_flag t = interrupt_flag s", OF _ assms])
    (fastforce simp: inb_def Let_def split: if_splits)

lemma write_serial_char_frame:
  assumes "write_serial_char c s = Some t"
  shows "cpu_state.more t = cpu_state.more s" "interrupt_flag t = interrupt_flag s"
  using assms wait_transmit_frame [of s] by (auto simp: write_serial_char_def outb_def bind_eq_Some_conv)

lemma tty_more:
  assumes "cpu_state.more (t :: tty_state) = cpu_state.more s"
  shows "vt t = vt s" "kprintf_spinlock t = kprintf_spinlock s" "stack_junk t = stack_junk s"
    "kprintnp_calls t = kprintnp_calls s"
  using assms by (cases s; cases t; simp)+

text \<open>What a print leaves alone.\<close>

definition printed :: "tty_state \<Rightarrow> u8 list \<Rightarrow> tty_state \<Rightarrow> bool" where
  "printed s cs t \<longleftrightarrow> tty_ok t \<and> sent t = sent s @ cs \<and> interrupt_flag t = interrupt_flag s \<and>
     io_in8 t = io_in8 s \<and>
     kprintf_spinlock t = kprintf_spinlock s \<and> stack_junk t = stack_junk s \<and> kprintnp_calls t = kprintnp_calls s"

lemma kputc_prints:
  assumes "tty_ok s" "c \<noteq> 0xFF"
  obtains t where "kputc c s = Some t" "printed s [c] t"
proof -
  have ok: "uart_ready (io_in8 s)" "vterm_ok (vt s)" using assms(1) by (simp_all add: tty_ok_def)
  obtain u where u: "write_serial_char c s = Some u" "io_in8 u = io_in8 s"
      "transmitted (io_trace u) = transmitted (io_trace s) @ [c]"
    using write_serial_char_returns [OF ok(1)] .
  note fr = write_serial_char_frame [OF u(1)]
  note more = tty_more [OF fr(1)]
  obtain v where "vterm_putc c (vt s) = Some v" "vterm_ok v"
    using vterm_putc_cases [OF ok(2), of c] assms(2) by auto
  then show ?thesis
    using that [of "u\<lparr>vt := v\<rparr>"] u fr(2) more ok(1)
    by (simp add: kputc_def printed_def tty_ok_def sent_def)
qed

lemma kprints_prints:
  assumes "tty_ok s" "0xFF \<notin> set cs"
  shows "\<exists>t. kprints cs s = Some t \<and> printed s cs t"
  using assms
proof (induction cs arbitrary: s)
  case Nil
  then show ?case by (simp add: printed_def)
next
  case (Cons c cs)
  obtain t where t: "kputc c s = Some t" "printed s [c] t"
    by (rule kputc_prints [of s c]) (use Cons.prems in auto)
  then have "tty_ok t" by (simp add: printed_def)
  then obtain u where "kprints cs t = Some u" "printed t cs u" using Cons.IH [of t] Cons.prems by auto
  then show ?case using t by (auto simp: printed_def)
qed

lemma format_loop_literal:
  "37 \<notin> set fmt \<Longrightarrow>
   format_loop fmt args n s = map_option (\<lambda>t. (n + of_nat (length fmt), t)) (kprints fmt s)"
  by (induction fmt arbitrary: n s) (auto split: option.splits simp: add.assoc)

lemma kprintf_unlocked:
  assumes "\<not> lock_held (kprintf_spinlock s)"
  shows "kprintf fmt args s = do {
     (count, t) \<leftarrow> format_loop fmt args 0 (s\<lparr>interrupt_flag := False, kprintf_spinlock :=
        (kprintf_spinlock s)\<lparr>had_interrupt := interrupt_flag s, lock_held := True\<rparr>\<rparr>);
     let (l, u) = spinlock_release (kprintf_spinlock t) t;
     Some (count, u\<lparr>kprintf_spinlock := l\<rparr>)
   }"
  using assms by (simp add: kprintf_def spinlock_acquire_free)

lemma kprintf_locked: "lock_held (kprintf_spinlock s) \<Longrightarrow> kprintf fmt args s = None"
  by (simp add: kprintf_def)

text \<open>With a transmitter that becomes ready and a well-formed terminal, printing a text without directives
  returns, the bytes arrive at the serial port unchanged and in order, the count is their number, and the
  lock and the interrupt flag are as before.\<close>

theorem kprintf_literal:
  assumes "tty_ok s" "\<not> lock_held (kprintf_spinlock s)" "37 \<notin> set fmt" "0xFF \<notin> set fmt"
  shows "\<exists>t. kprintf fmt args s = Some (of_nat (length fmt), t) \<and> tty_ok t \<and> sent t = sent s @ fmt \<and>
    \<not> lock_held (kprintf_spinlock t) \<and> interrupt_flag t = interrupt_flag s"
proof -
  let ?l = "(kprintf_spinlock s)\<lparr>had_interrupt := interrupt_flag s, lock_held := True\<rparr>"
  let ?s = "s\<lparr>interrupt_flag := False, kprintf_spinlock := ?l\<rparr>"
  have "tty_ok ?s" using assms(1) by (simp add: tty_ok_def)
  then obtain t where t: "kprints fmt ?s = Some t" "printed ?s fmt t"
    using kprints_prints assms(4) by blast
  have "kprintf fmt args s = (let (l, u) = spinlock_release (kprintf_spinlock t) t in
      Some (of_nat (length fmt), u\<lparr>kprintf_spinlock := l\<rparr>))"
    unfolding kprintf_unlocked [OF assms(2)] format_loop_literal [OF assms(3)] by (simp add: t(1))
  then show ?thesis
    using t(2) assms(1) by (auto simp: printed_def spinlock_defs tty_ok_def sent_def split: if_splits)
qed

section \<open>Numbers\<close>

text \<open>The digits of a number, lowest first, and the padded number as it should be printed.\<close>

function low_digits :: "nat \<Rightarrow> nat \<Rightarrow> nat list" where
  "low_digits b n = (if n = 0 \<or> b < 2 then [] else (n mod b) # low_digits b (n div b))"
  by pat_completeness auto
termination by (relation "measure snd") auto

declare low_digits.simps [simp del]

definition number_text :: "bool \<Rightarrow> nat \<Rightarrow> nat \<Rightarrow> u8 \<Rightarrow> nat \<Rightarrow> u8 list" where
  "number_text up b w pad n =
     (let ds = (if n = 0 then [0] else low_digits b n);
          cs = map (\<lambda>d. (if up then DIGITS_UPPERCASE else DIGITS_LOWERCASE) ! d) (rev ds)
      in replicate (w - length cs) pad @ cs)"

lemma low_digits_length: "n < b ^ k \<Longrightarrow> length (low_digits b n) \<le> k"
proof (induction k arbitrary: n)
  case 0
  then show ?case by (simp add: low_digits.simps)
next
  case (Suc k)
  then have "n div b < b ^ k" by (simp add: less_mult_imp_div_less mult.commute)
  then show ?case using Suc.IH [of "n div b"] by (subst low_digits.simps) auto
qed

text \<open>Filling the buffer behind position \<open>i\<close>.\<close>

definition filled :: "u8 list \<Rightarrow> nat \<Rightarrow> u8 list \<Rightarrow> u8 list" where
  "filled buf i cs = take (i + 1) buf @ cs @ drop (i + 1 + length cs) buf"

lemma filled_Cons:
  "i + 1 < length buf \<Longrightarrow> filled (buf[i + 1 := c]) (i + 1) cs = filled buf i (c # cs)"
  by (simp add: filled_def take_Suc_conv_app_nth drop_update_cancel)

lemma filled_Nil: "filled buf i [] = buf"
  by (simp add: filled_def)

lemma filled_append: "i + 1 + length cs + length ds \<le> length buf \<Longrightarrow>
    filled (filled buf i cs) (i + length cs) ds = filled buf i (cs @ ds)"
  by (simp add: filled_def add.commute add.left_commute)

lemma digit_loop_spec:
  assumes "length buf = 32" "2 \<le> unat base" "unat base \<le> length digits" "i + length (low_digits (unat base) (unat num)) < 32"
  shows "digit_loop num base digits i buf =
    Some (i + length (low_digits (unat base) (unat num)),
      filled buf i (map ((!) digits) (low_digits (unat base) (unat num))))"
  using assms
proof (induction num base digits i buf rule: digit_loop.induct)
  case (1 num base digits i buf)
  show ?case
  proof (cases "num = 0")
    case True
    then show ?thesis by (subst digit_loop.simps) (simp add: low_digits.simps filled_Nil)
  next
    case False
    let ?b = "unat base" and ?n = "unat num"
    have n: "?n \<noteq> 0" using False by (simp add: unat_eq_zero)
    then have ld: "low_digits ?b ?n = ?n mod ?b # low_digits ?b (?n div ?b)"
      using "1.prems"(2) by (subst low_digits.simps) simp
    have b: "base \<noteq> 0" using "1.prems"(2) by auto
    have m: "unat (num mod base) = ?n mod ?b" "unat (num div base) = ?n div ?b" by (simp_all add: unat_mod unat_div)
    have lt: "?n mod ?b < length digits"
    proof -
      have "?n mod ?b < ?b" using "1.prems"(2) by (intro mod_less_divisor) simp
      then show ?thesis using "1.prems"(3) by simp
    qed
    have i: "i + 1 < 32" using "1.prems"(4) ld by simp
    have "digit_loop num base digits i buf =
        digit_loop (num div base) base digits (i + 1) (buf[i + 1 := digits ! (?n mod ?b)])"
      using False b lt i m by (subst digit_loop.simps) (simp add: word_gt_0)
    also have "\<dots> = Some (i + 1 + length (low_digits ?b (?n div ?b)),
        filled (buf[i + 1 := digits ! (?n mod ?b)]) (i + 1) (map ((!) digits) (low_digits ?b (?n div ?b))))"
      using "1.IH" False b lt i m "1.prems" ld by (simp add: word_gt_0)
    finally show ?thesis using i "1.prems"(1) ld by (simp add: filled_Cons [of i buf, simplified])
  qed
qed

lemma pad_loop_spec:
  assumes "length buf = 32" "i + (w - i) < 32"
  shows "pad_loop pad (int w) i buf = Some (i + (w - i), filled buf i (replicate (w - i) pad))"
  using assms
proof (induction "w - i" arbitrary: i buf)
  case 0
  then show ?case by (subst pad_loop.simps) (simp add: filled_Nil)
next
  case (Suc k)
  have "pad_loop pad (int w) i buf = pad_loop pad (int w) (i + 1) (buf[i + 1 := pad])"
  proof -
    have "int i < int w" "i + 1 < 32" using Suc.hyps(2) Suc.prems by simp_all
    then show ?thesis by (subst pad_loop.simps) simp
  qed
  also have "\<dots> = Some (i + 1 + (w - (i + 1)), filled (buf[i + 1 := pad]) (i + 1) (replicate (w - (i + 1)) pad))"
    using Suc.hyps Suc.prems by (intro Suc.hyps(1)) simp_all
  also have "\<dots> = Some (i + (w - i), filled buf i (replicate (w - i) pad))"
  proof -
    have "replicate (w - i) pad = pad # replicate (w - (i + 1)) pad" using Suc.hyps(2)
      by (cases "w - i") simp_all
    then show ?thesis using Suc.hyps(2) Suc.prems filled_Cons [of i buf pad] by simp
  qed
  finally show ?case .
qed

lemma put_down_kprints: "n \<le> length buf \<Longrightarrow> put_down n buf s = kprints (rev (take n buf)) s"
proof (induction n arbitrary: s)
  case (Suc n)
  then have "put_down n buf = kprints (rev (take n buf))" by (intro ext) simp
  then show ?case using Suc.prems by (simp add: take_Suc_conv_app_nth Suc_le_eq)
qed simp

lemma digits_length: "length DIGITS_UPPERCASE = 16" "length DIGITS_LOWERCASE = 16"
  by (simp_all add: DIGITS_UPPERCASE_def DIGITS_LOWERCASE_def bytes_of_def)

lemma u64_low_digits: "10 \<le> b \<Longrightarrow> length (low_digits b (unat (n :: u64))) \<le> 20"
proof (rule low_digits_length)
  assume "10 \<le> b"
  have "unat n < 10 ^ 20" using unsigned_less [of n, where ?'a = nat] by simp
  also have "\<dots> \<le> b ^ 20" using \<open>10 \<le> b\<close> by (rule power_mono) simp
  finally show "unat n < b ^ 20" .
qed

lemma number_buffer_spec:
  fixes num :: u64 and pad :: u8 and up :: bool
  assumes "length buf = 32" "10 \<le> unat base" "unat base \<le> 16" "w \<le> 31"
  defines "tx \<equiv> number_text up (unat base) w pad (unat num)"
  shows "number_buffer buf num base up (int w) pad = Some (length tx, filled buf 0 (rev tx))"
    "0 < length tx" "length tx \<le> 31"
proof -
  let ?dg = "if up then DIGITS_UPPERCASE else DIGITS_LOWERCASE"
  define ds where "ds = (if unat num = 0 then [0] else low_digits (unat base) (unat num))"
  let ?cs = "map ((!) ?dg) ds"
  have tx: "tx = replicate (w - length ds) pad @ rev ?cs"
    by (simp add: tx_def number_text_def Let_def ds_def rev_map)
  have ds20: "length ds \<le> 20" "0 < length ds"
    using u64_low_digits [OF assms(2), of num] assms(2)
    by (auto simp: ds_def low_digits.simps [of "unat base" "unat num"])
  show "0 < length tx" "length tx \<le> 31" using ds20 assms(4) by (simp_all add: tx)
  have d0: "?dg ! 0 = 48" by (simp add: DIGITS_UPPERCASE_def DIGITS_LOWERCASE_def bytes_of_def)
  have first: "(if num = 0 then push_digit 48 (0, buf) else digit_loop num base ?dg 0 buf) =
      Some (length ds, filled buf 0 ?cs)"
  proof (cases "num = 0")
    case True
    have "filled (buf[1 := 48]) 1 [] = filled buf 0 [48]" using filled_Cons [of 0 buf 48 "[]"] assms(1) by simp
    then show ?thesis using True d0 by (simp add: push_digit_def ds_def filled_Nil)
  next
    case False
    then have n: "unat num \<noteq> 0" by (simp add: unat_eq_zero)
    then have "digit_loop num base ?dg 0 buf = Some (0 + length ds, filled buf 0 ?cs)"
      using digit_loop_spec [OF assms(1), of base ?dg 0 num] ds20 assms(2,3) digits_length by (simp add: ds_def)
    then show ?thesis using False by simp
  qed
  have lf: "length (filled buf 0 ?cs) = 32" using ds20 assms(1) by (simp add: filled_def)
  have "number_buffer buf num base up (int w) pad = pad_loop pad (int w) (length ds) (filled buf 0 ?cs)"
    unfolding number_buffer_def Let_def first by simp
  also have "\<dots> = Some (length ds + (w - length ds), filled (filled buf 0 ?cs) (length ds) (replicate (w - length ds) pad))"
    using ds20 assms(4) by (intro pad_loop_spec [OF lf]) simp
  also have "filled (filled buf 0 ?cs) (length ds) (replicate (w - length ds) pad) = filled buf 0 (rev tx)"
    using filled_append [of 0 ?cs "replicate (w - length ds) pad" buf] ds20 assms(1,4) by (simp add: tx)
  finally show "number_buffer buf num base up (int w) pad = Some (length tx, filled buf 0 (rev tx))"
    by (simp add: tx add.commute)
qed

lemma kprintnp_text:
  assumes "length (stack_junk s (kprintnp_calls s)) = 32" "base = 10 \<or> base = 16" "w \<le> 31"
  shows "kprintnp num base up (int w) pad s =
    kprints (tl (number_text up (unat base) w pad (unat num)) @ [hd (stack_junk s (kprintnp_calls s))])
      (s\<lparr>kprintnp_calls := kprintnp_calls s + 1\<rparr>)"
proof -
  let ?j = "stack_junk s (kprintnp_calls s)" and ?t = "number_text up (unat base) w pad (unat num)"
  have b: "10 \<le> unat base" "unat base \<le> 16" using assms(2) by auto
  note nb = number_buffer_spec [OF assms(1) b assms(3), where num = num and up = up and pad = pad]
  obtain j js where j: "?j = j # js" "length js = 31" using assms(1) by (cases ?j) auto
  have "take (length ?t) (filled ?j 0 (rev ?t)) = j # butlast (rev ?t)"
    using nb(2) j(1) by (cases "length ?t") (auto simp: filled_def butlast_conv_take)
  then have "rev (take (length ?t) (filled ?j 0 (rev ?t))) = tl ?t @ [j]"
    by (simp add: butlast_rev)
  moreover have "length ?t \<le> length (filled ?j 0 (rev ?t))" using nb(3) by (simp add: filled_def)
  ultimately show ?thesis
    using nb(1) j(1) put_down_kprints by (simp add: kprintnp_def)
qed

text \<open>C40: \<open>kprintnp\<close> stores the characters one position too high in its buffer and prints one position too low:
  in place of the padded number it prints the number without its first character, followed by a byte
  of uninitialised stack memory.\<close>

theorem kprintnp_off_by_one:
  assumes "length (stack_junk s (kprintnp_calls s)) = 32" "base = 10 \<or> base = 16" "w \<le> 31"
  shows "kprintnp num base up (int w) pad s =
    kprints (tl (number_text up (unat base) w pad (unat num)) @ [hd (stack_junk s (kprintnp_calls s))])
      (s\<lparr>kprintnp_calls := kprintnp_calls s + 1\<rparr>)"
  by (rule kprintnp_text [OF assms])

definition tty_example :: tty_state where
  "tty_example = cpu_state.extend (slow_uart\<lparr>interrupt_flag := True\<rparr>) \<lparr>vt = vterm_example,
     kprintf_spinlock = \<lparr>lock_held = False, had_interrupt = False\<rparr>, stack_junk = (\<lambda>_. replicate 32 0x3F),
     kprintnp_calls = 0\<rparr>"

lemma tty_example_ok: "tty_ok tty_example" "\<not> lock_held (kprintf_spinlock tty_example)" "sent tty_example = []"
  using slow_uart_ready vterm_example_ok
  by (simp_all add: tty_ok_def tty_example_def cpu_state.defs sent_def slow_uart_def cpu_example_def transmitted_def)

theorem kprintf_literal_witness:
  "\<exists>t. kprintf (bytes_of ''GDT...'') [] tty_example = Some (6, t) \<and> sent t = bytes_of ''GDT...'' \<and> interrupt_flag t"
proof -
  have "37 \<notin> set (bytes_of ''GDT...'')" "0xFF \<notin> set (bytes_of ''GDT...'')" "length (bytes_of ''GDT...'') = 6"
    by (simp_all add: bytes_of_def)
  then show ?thesis
    using kprintf_literal [OF tty_example_ok(1,2), of "bytes_of ''GDT...''" "[]"] tty_example_ok(3)
    by (auto simp: tty_example_def cpu_state.defs)
qed

theorem kprintnp_off_by_one_witness:
  "kprintnp 1024 10 False 6 48 tty_example = kprints (bytes_of ''01024?'') (tty_example\<lparr>kprintnp_calls := 1\<rparr>)"
proof -
  have "stack_junk tty_example (kprintnp_calls tty_example) = replicate 32 0x3F" "kprintnp_calls tty_example = 0"
    by (simp_all add: tty_example_def cpu_state.defs)
  moreover have "low_digits 10 1024 = [4, 2, 0, 1]" by (simp add: low_digits.simps)
  then have "number_text False 10 6 48 1024 = bytes_of ''001024''"
    by (simp add: number_text_def DIGITS_LOWERCASE_def bytes_of_def numeral_eq_Suc)
  ultimately show ?thesis
    using kprintnp_off_by_one [of tty_example 10 6 1024 False 48] by (simp add: bytes_of_def)
qed

section \<open>Decimal conversion in assertions\<close>

lemma swap_ends_length [simp]: "length (swap_ends p q buf) = length buf"
  by (induction p q buf rule: swap_ends.induct) (subst swap_ends.simps, simp)

lemma swap_ends_nth:
  assumes "q < length buf" "k < length buf"
  shows "swap_ends p q buf ! k = (if p \<le> k \<and> k \<le> q then buf ! (p + q - k) else buf ! k)"
  using assms
proof (induction p q buf rule: swap_ends.induct)
  case (1 p q buf)
  show ?case
  proof (cases "p < q")
    case True
    then have "swap_ends p q buf = swap_ends (p + 1) (q - 1) (buf[p := buf ! q, q := buf ! p])"
      by (subst swap_ends.simps) simp
    moreover note "1.IH" [OF True]
    ultimately show ?thesis using True "1.prems" by (auto simp: nth_list_update)
  next
    case False
    then have "p \<le> k \<and> k \<le> q \<Longrightarrow> p + q - k = k" by linarith
    then show ?thesis using False by (subst swap_ends.simps) simp
  qed
qed

lemma swap_ends_rev: "swap_ends 0 (length buf - 1) buf = rev buf"
  by (cases "buf = []") (auto simp: swap_ends.simps [of 0 0 "[]"] rev_nth swap_ends_nth intro!: nth_equalityI)

lemma utoa_digits_low:
  "utoa_digits n = map (\<lambda>d. of_nat (48 + d)) (if n = 0 then [0] else low_digits 10 (unat n))"
proof (induction n rule: utoa_digits.induct)
  case (1 n)
  have h: "ucast (48 + n mod 10) = (of_nat (48 + unat n mod 10) :: u8)"
  proof -
    have "unat (48 + n mod 10) = 48 + unat n mod 10"
    proof -
      have "unat (n mod 10) = unat n mod 10" by (simp add: unat_mod)
      moreover have "unat n mod 10 < 10" by simp
      ultimately show ?thesis by (subst unat_plus_no_overflow) simp_all
    qed
    then have "unat (ucast (48 + n mod 10) :: u8) = 48 + unat n mod 10"
      using mod_less_divisor [of 10 "unat n"] by (simp add: unat_ucast_mod)
    then show ?thesis by (rule word_nat_of_unat)
  qed
  show ?case
  proof (cases "n = 0")
    case True
    then show ?thesis using h by (subst utoa_digits.simps) simp
  next
    case False
    then have n: "unat n \<noteq> 0" by (simp add: unat_eq_zero)
    have d: "n div 10 = 0 \<longleftrightarrow> unat n div 10 = 0" using unat_eq_zero [of "n div 10"] by (simp add: unat_div)
    have "low_digits 10 (unat n) = (unat n mod 10) # low_digits 10 (unat n div 10)"
      using n by (subst low_digits.simps) simp
    moreover have "low_digits 10 0 = []" by (simp add: low_digits.simps)
    ultimately show ?thesis
      using 1 h n False d by (subst utoa_digits.simps) (auto simp: unat_div)
  qed
qed

text \<open>C35: \<open>utoa\<close> produces the decimal representation of its argument, although it stores the digits in
  reverse and swaps them in place.\<close>

theorem utoa_decimal:
  "utoa n = number_text False 10 0 0 (unat n)"
proof -
  have dg: "DIGITS_LOWERCASE ! d = of_nat (48 + d)" if "d < 10" for d
    using that by (auto simp: DIGITS_LOWERCASE_def bytes_of_def less_Suc_eq numeral_eq_Suc)
  have lt: "d < 10" if "d \<in> set (low_digits 10 m)" for d m
    using that
  proof (induction "10 :: nat" m rule: low_digits.induct)
    case (1 m)
    then show ?case by (subst (asm) low_digits.simps) (auto split: if_splits)
  qed
  have "utoa n = rev (utoa_digits n)" by (simp add: utoa_def Let_def swap_ends_rev [simplified])
  also have "\<dots> = number_text False 10 0 0 (unat n)"
    using dg lt by (auto simp: utoa_digits_low number_text_def rev_map unat_eq_zero)
  finally show ?thesis .
qed

end
