(* ===== verification/Printf_Total.thy ===== *)
theory Printf_Total
  imports Printf_Correct
begin

text \<open>
  Formatted printing returns and what it prints: a format and its arguments are read as a list of pieces, the characters
  copied through and the numbers, under which \<open>kprintf\<close> always comes back, leaves the lock and the interrupt flag
  alone and sends the text of the pieces to the serial port.
\<close>

text \<open>The terminal and the port work, and no byte that the number printer leaks is the one character the
  terminal cannot draw.\<close>

definition tty_inv :: "tty_state \<Rightarrow> bool" where
  "tty_inv s \<longleftrightarrow> tty_ok s \<and> (\<forall>k. length (stack_junk s k) = 32 \<and> hd (stack_junk s k) \<noteq> 0xFF)"

section \<open>Pieces of text\<close>

text \<open>A character, or a number with its base, its case, its width and its padding.  A number is sent without its first
  character and with the first byte of the uninitialised buffer behind it.\<close>

datatype piece = Byte u8 | Number u64 nat bool nat u8

fun render :: "(nat \<Rightarrow> u8 list) \<Rightarrow> nat \<Rightarrow> piece list \<Rightarrow> u8 list" where
  "render j k [] = []"
| "render j k (Byte c # ps) = c # render j k ps"
| "render j k (Number n b up w pad # ps) = tl (number_text up b w pad (unat n)) @ hd (j k) # render j (k + 1) ps"

fun numbers :: "piece list \<Rightarrow> nat" where
  "numbers [] = 0"
| "numbers (Byte c # ps) = numbers ps"
| "numbers (Number n b up w pad # ps) = numbers ps + 1"

lemma numbers_append: "numbers (ps @ qs) = numbers ps + numbers qs"
  by (induction ps rule: numbers.induct) auto

lemma render_append: "render j k (ps @ qs) = render j k ps @ render j (k + numbers ps) qs"
  by (induction j k ps rule: render.induct) simp_all

lemma render_bytes: "render j k (map Byte cs) = cs" "numbers (map Byte cs) = 0"
  by (induction cs) simp_all

definition prints :: "tty_state \<Rightarrow> piece list \<Rightarrow> tty_state \<Rightarrow> bool" where
  "prints s ps t \<longleftrightarrow> tty_inv t \<and> sent t = sent s @ render (stack_junk s) (kprintnp_calls s) ps \<and>
     stack_junk t = stack_junk s \<and> kprintnp_calls t = kprintnp_calls s + numbers ps \<and>
     interrupt_flag t = interrupt_flag s \<and> kprintf_spinlock t = kprintf_spinlock s"

lemma prints_append: "prints s ps t \<Longrightarrow> prints t qs u \<Longrightarrow> prints s (ps @ qs) u"
  by (simp add: prints_def render_append numbers_append add.assoc)

lemma prints_inv: "prints s ps t \<Longrightarrow> tty_inv t"
  by (simp add: prints_def)

lemma prints_kprints:
  assumes "tty_inv s" "0xFF \<notin> set cs"
  obtains t where "kprints cs s = Some t" "prints s (map Byte cs) t"
proof -
  obtain t where "kprints cs s = Some t" "printed s cs t"
    using kprints_prints [of s cs] assms by (auto simp: tty_inv_def)
  then show ?thesis using that assms(1) by (auto simp: prints_def tty_inv_def printed_def render_bytes)
qed

lemma prints_kputc:
  assumes "tty_inv s" "c \<noteq> 0xFF"
  obtains t where "kputc c s = Some t" "prints s [Byte c] t"
  using prints_kprints [of s "[c]"] assms by (auto simp: bind_eq_Some_conv)

lemma digits_not_FF: "0xFF \<notin> set DIGITS_UPPERCASE" "0xFF \<notin> set DIGITS_LOWERCASE"
  by (simp_all add: DIGITS_UPPERCASE_def DIGITS_LOWERCASE_def bytes_of_def)

lemma low_digits_less: "d \<in> set (low_digits b n) \<Longrightarrow> d < b"
proof (induction b n rule: low_digits.induct)
  case (1 b n)
  then show ?case by (subst (asm) (2) low_digits.simps) (auto split: if_splits)
qed

lemma number_text_not_FF:
  assumes "2 \<le> b" "b \<le> 16" "pad \<noteq> 0xFF"
  shows "0xFF \<notin> set (number_text up b w pad n)"
proof -
  let ?dg = "if up then DIGITS_UPPERCASE else DIGITS_LOWERCASE"
  have "?dg ! d \<noteq> 0xFF" if "d < 16" for d
  proof -
    have "d < length ?dg" "0xFF \<notin> set ?dg" using that digits_not_FF digits_length by simp_all
    then show ?thesis by (metis nth_mem)
  qed
  then show ?thesis
    using assms by (auto simp: number_text_def Let_def dest: low_digits_less)
qed

lemma prints_kprintnp:
  assumes "tty_inv s" "base = 10 \<or> base = 16" "0 \<le> w" "w \<le> 31" "pad \<noteq> 0xFF"
  obtains t where "kprintnp num base up w pad s = Some t" "prints s [Number num (unat base) up (nat w) pad] t"
proof -
  let ?j = "stack_junk s (kprintnp_calls s)" and ?s = "s\<lparr>kprintnp_calls := kprintnp_calls s + 1\<rparr>"
  let ?cs = "tl (number_text up (unat base) (nat w) pad (unat num)) @ [hd ?j]"
  have j: "length ?j = 32" "hd ?j \<noteq> 0xFF" using assms(1) by (simp_all add: tty_inv_def)
  have "0xFF \<notin> set (number_text up (unat base) (nat w) pad (unat num))"
    using assms(2,5) by (intro number_text_not_FF) auto
  then have "0xFF \<notin> set ?cs" using j(2) list.set_sel(2) by (cases "number_text up (unat base) (nat w) pad (unat num)") auto
  moreover have "tty_inv ?s" using assms(1) by (simp add: tty_inv_def tty_ok_def)
  ultimately obtain t where t: "kprints ?cs ?s = Some t" "prints ?s (map Byte ?cs) t" using prints_kprints by blast
  have "sent ?s = sent s" by (simp add: sent_def)
  then have "prints s [Number num (unat base) up (nat w) pad] t"
    using t(2) by (simp add: prints_def render_append render_bytes numbers_append del: map_append)
  moreover have "kprintnp num base up w pad s = Some t"
    using t(1) kprintnp_text [OF j(1) assms(2), of "nat w" num up pad] assms(3,4) by simp
  ultimately show ?thesis using that by blast
qed

text \<open>A signed decimal number; its width is ignored.\<close>

definition signed_pieces :: "u64 \<Rightarrow> piece list" where
  "signed_pieces n = (if sint n < 0 then [Byte 45, Number (- n) 10 False 0 32] else [Number n 10 False 0 32])"

lemma prints_kprintns:
  assumes "tty_inv s"
  obtains t where "kprintns num 10 s = Some t" "prints s (signed_pieces num) t"
proof (cases "sint num < 0")
  case True
  obtain u where u: "kputc 45 s = Some u" "prints s [Byte 45] u" by (rule prints_kputc [OF assms, of 45]) simp_all
  obtain t where t: "kprintnp (- num) 10 False 0 32 u = Some t" "prints u [Number (- num) 10 False 0 32] t"
    by (rule prints_kprintnp [OF prints_inv [OF u(2)], of 10 0 32 "- num" False]) simp_all
  have "prints s (signed_pieces num) t" using prints_append [OF u(2) t(2)] True by (simp add: signed_pieces_def)
  then show ?thesis using that True u(1) t(1) by (simp add: kprintns_def)
next
  case False
  obtain t where "kprintnp num 10 False 0 32 s = Some t" "prints s [Number num 10 False 0 32] t"
    by (rule prints_kprintnp [OF assms, of 10 0 32 num False]) simp_all
  then show ?thesis using that False by (simp add: kprintns_def signed_pieces_def)
qed

section \<open>Reading a format\<close>

text \<open>The pieces of a conversion and the arguments that remain, or \<open>None\<close> when the arguments do not fit.\<close>

definition number_pieces :: "int \<Rightarrow> nat \<Rightarrow> bool \<Rightarrow> u8 \<Rightarrow> bool \<Rightarrow> va_arg list \<Rightarrow> (piece list \<times> va_arg list) option" where
  "number_pieces w base up pad is_long args =
     (if w \<le> 31 then map_option (\<lambda>(n, as). ([Number n base up (nat w) pad], as)) (unsigned_arg is_long args) else None)"

definition conversion_pieces :: "u8 \<Rightarrow> int \<Rightarrow> u8 \<Rightarrow> bool \<Rightarrow> va_arg list \<Rightarrow> (piece list \<times> va_arg list) option" where
  "conversion_pieces c w pad is_long args =
     (if c = 99 then
        (case args of VaInt n # as \<Rightarrow> if ucast n \<noteq> (0xFF :: u8) then Some ([Byte (ucast n)], as) else None | _ \<Rightarrow> None)
      else if c = 115 then
        (case args of
           VaStr None # as \<Rightarrow> Some (map Byte (bytes_of ''(null)''), as)
         | VaStr (Some str) # as \<Rightarrow> if 0xFF \<in> set str then None else Some (map Byte str, as)
         | _ \<Rightarrow> None)
      else if c = 100 \<or> c = 105 then map_option (\<lambda>(n, as). (signed_pieces n, as)) (signed_arg is_long args)
      else if c = 117 then number_pieces w 10 False pad is_long args
      else if c = 120 then number_pieces w 16 False pad is_long args
      else if c = 88 then number_pieces w 16 True pad is_long args
      else if c = 112 then
        (case args of VaPtr p # as \<Rightarrow> Some (map Byte (bytes_of ''0x'') @ [Number p 16 False 16 48], as) | _ \<Rightarrow> None)
      else if c = 37 then Some ([Byte 37], args)
      else if c = 0xFF then None else Some ([Byte 37, Byte c], args))"

lemma convert_prints:
  assumes "tty_inv s" "conversion_pieces c w pad is_long args = Some (ps, as)" "0 \<le> w" "pad \<noteq> 0xFF"
  shows "\<exists>n t. convert c w pad is_long args count s = Some (n, as, t) \<and> prints s ps t"
proof -
  note P = prints_kputc [OF assms(1)] prints_kprints [OF assms(1)]
  consider "c = 99" | "c = 115" | "c = 100 \<or> c = 105" | "c = 117 \<or> c = 120 \<or> c = 88" | "c = 112" | "c = 37"
    | "c \<notin> {99, 115, 100, 105, 117, 120, 88, 112, 37}" by blast
  then show ?thesis
  proof cases
    case 1
    then obtain n where n: "args = VaInt n # as" "ucast n \<noteq> (0xFF :: u8)" "ps = [Byte (ucast n)]"
      using assms(2) by (auto simp: conversion_pieces_def split: list.splits va_arg.splits if_splits)
    obtain t where "kputc (ucast n) s = Some t" "prints s [Byte (ucast n)] t" by (rule P(1) [OF n(2)])
    then show ?thesis using 1 n by (simp add: convert_def)
  next
    case 2
    let ?str = "\<lambda>str. case str of None \<Rightarrow> bytes_of ''(null)'' | Some str \<Rightarrow> str"
    obtain str where n: "args = VaStr str # as" "\<forall>x. str = Some x \<longrightarrow> 0xFF \<notin> set x" "ps = map Byte (?str str)"
      using assms(2) 2 by (auto simp: conversion_pieces_def split: list.splits va_arg.splits option.splits if_splits)
    have "0xFF \<notin> set (?str str)" using n(2) by (auto simp: bytes_of_def split: option.splits)
    then obtain t where "kprints (?str str) s = Some t" "prints s ps t" unfolding n(3) by (rule P(2))
    then show ?thesis using 2 n(1) by (simp add: convert_def)
  next
    case 3
    then obtain n where n: "signed_arg is_long args = Some (n, as)" "ps = signed_pieces n"
      using assms(2) by (auto simp: conversion_pieces_def)
    obtain t where "kprintns n 10 s = Some t" "prints s (signed_pieces n) t" by (rule prints_kprintns [OF assms(1)])
    then show ?thesis using 3 n by (auto simp: convert_def)
  next
    case 4
    define base :: u64 where "base = (if c = 117 then 10 else 16)"
    obtain n where n: "unsigned_arg is_long args = Some (n, as)" "w \<le> 31" "ps = [Number n (unat base) (c = 88) (nat w) pad]"
      using assms(2) 4 by (auto simp: conversion_pieces_def number_pieces_def base_def split: if_splits)
    have "base = 10 \<or> base = 16" by (simp add: base_def)
    then obtain t where "kprintnp n base (c = 88) w pad s = Some t" "prints s ps t"
      unfolding n(3) by (rule prints_kprintnp [OF assms(1) _ assms(3) n(2) assms(4)])
    then show ?thesis using 4 n(1) by (auto simp: convert_def base_def)
  next
    case 5
    then obtain p where n: "args = VaPtr p # as" "ps = map Byte (bytes_of ''0x'') @ [Number p 16 False 16 48]"
      using assms(2) by (auto simp: conversion_pieces_def split: list.splits va_arg.splits)
    have "0xFF \<notin> set (bytes_of ''0x'')" by (simp add: bytes_of_def)
    then obtain u where u: "kprints (bytes_of ''0x'') s = Some u" "prints s (map Byte (bytes_of ''0x'')) u" by (rule P(2))
    obtain t where "kprintnp p 16 False 16 48 u = Some t" "prints u [Number p 16 False 16 48] t"
      by (rule prints_kprintnp [OF prints_inv [OF u(2)], of 16 16 48 p False]) simp_all
    then show ?thesis using 5 n u(1) prints_append [OF u(2)] by (auto simp: convert_def)
  next
    case 6
    then have "as = args" "ps = [Byte 37]" using assms(2) by (simp_all add: conversion_pieces_def)
    moreover obtain t where "kputc 37 s = Some t" "prints s [Byte 37] t" by (rule P(1) [of 37]) simp_all
    ultimately show ?thesis using 6 by (simp add: convert_def)
  next
    case 7
    then have n: "as = args" "c \<noteq> 0xFF" "ps = [Byte 37] @ [Byte c]"
      using assms(2) by (auto simp: conversion_pieces_def split: if_splits)
    obtain u where u: "kputc 37 s = Some u" "prints s [Byte 37] u" by (rule P(1) [of 37]) simp_all
    obtain t where "kputc c u = Some t" "prints u [Byte c] t" by (rule prints_kputc [OF prints_inv [OF u(2)] n(2)])
    then show ?thesis using 7 n u(1) prints_append [OF u(2)] by (auto simp: convert_def)
  qed
qed

function format_pieces :: "u8 list \<Rightarrow> va_arg list \<Rightarrow> piece list option" where
  "format_pieces [] args = Some []"
| "format_pieces (c # fmt) args =
     (if c = 37 then
        (case directive fmt of (pad, w, is_long, fmt') \<Rightarrow>
           (case fmt' of
              [] \<Rightarrow> None
            | d # fmt'' \<Rightarrow>
               (case conversion_pieces d w pad is_long args of
                  None \<Rightarrow> None
                | Some (ps, as) \<Rightarrow> map_option ((@) ps) (format_pieces fmt'' as))))
      else if c = 0xFF then None else map_option ((#) (Byte c)) (format_pieces fmt args))"
  by pat_completeness auto
termination
  by (relation "measure (\<lambda>(fmt, _). length fmt)") (auto dest!: directive_length [OF sym])

lemma scan_width_nonneg: "0 \<le> w \<Longrightarrow> 0 \<le> fst (scan_width cs w)"
  by (induction cs w rule: scan_width.induct) auto

lemma directive_range: "directive fmt = (pad, w, is_long, fmt') \<Longrightarrow> 0 \<le> w \<and> pad \<noteq> 0xFF"
  using scan_width_nonneg [of 0 fmt] scan_width_nonneg [of 0 "tl fmt"] scan_width_nonneg [of 0 "[]"]
  by (auto simp: directive_def Let_def split: list.splits if_splits prod.splits)

lemma format_loop_prints:
  assumes "tty_inv s" "format_pieces fmt args = Some ps"
  shows "\<exists>n t. format_loop fmt args count s = Some (n, t) \<and> prints s ps t"
  using assms
proof (induction fmt args arbitrary: count s ps rule: format_pieces.induct)
  case (1 args)
  then show ?case by (simp add: prints_def)
next
  case (2 c fmt args)
  show ?case
  proof (cases "c = 37")
    case True
    obtain pad w is_long fmt' where d: "directive fmt = (pad, w, is_long, fmt')" by (metis prod_cases4)
    then obtain x fmt'' qs as rs where x: "fmt' = x # fmt''" "conversion_pieces x w pad is_long args = Some (qs, as)"
        "format_pieces fmt'' as = Some rs" "ps = qs @ rs"
      using "2.prems"(2) True by (auto split: list.splits option.splits)
    obtain n t where t: "convert x w pad is_long args count s = Some (n, as, t)" "prints s qs t"
      using convert_prints [OF "2.prems"(1) x(2), of count] directive_range [OF d] by blast
    obtain m u where "format_loop fmt'' as n t = Some (m, u)" "prints t rs u"
      using "2.IH"(1) [OF True d [symmetric] refl refl x(1) x(2) refl prints_inv [OF t(2)] x(3)] by blast
    then show ?thesis using True d x t(1) prints_append [OF t(2)] by auto
  next
    case False
    then obtain rs where r: "c \<noteq> 0xFF" "format_pieces fmt args = Some rs" "ps = [Byte c] @ rs"
      using "2.prems"(2) by (auto split: if_splits)
    obtain t where t: "kputc c s = Some t" "prints s [Byte c] t" by (rule prints_kputc [OF "2.prems"(1) r(1)])
    obtain n u where "format_loop fmt args (count + 1) t = Some (n, u)" "prints t rs u"
      using "2.IH"(2) [OF False r(1) prints_inv [OF t(2)] r(2)] by blast
    then show ?thesis using False t(1) r(3) prints_append [OF t(2)] by auto
  qed
qed

text \<open>A call of \<open>kprintf\<close> outside a call of \<open>kprintf\<close>: the lock is free again at its end.\<close>

definition kprintf_ready :: "tty_state \<Rightarrow> bool" where
  "kprintf_ready s \<longleftrightarrow> tty_inv s \<and> \<not> lock_held (kprintf_spinlock s)"

definition reported :: "tty_state \<Rightarrow> piece list \<Rightarrow> tty_state \<Rightarrow> bool" where
  "reported s ps t \<longleftrightarrow> kprintf_ready t \<and> sent t = sent s @ render (stack_junk s) (kprintnp_calls s) ps \<and>
     stack_junk t = stack_junk s \<and> kprintnp_calls t = kprintnp_calls s + numbers ps \<and> interrupt_flag t = interrupt_flag s"

lemma reported_append: "reported s ps t \<Longrightarrow> reported t qs u \<Longrightarrow> reported s (ps @ qs) u"
  by (simp add: reported_def render_append numbers_append add.assoc)

lemma kprintf_returns:
  assumes "kprintf_ready s" "format_pieces fmt args = Some ps"
  shows "\<exists>n t. kprintf fmt args s = Some (n, t) \<and> reported s ps t"
proof -
  let ?l = "(kprintf_spinlock s)\<lparr>had_interrupt := interrupt_flag s, lock_held := True\<rparr>"
  let ?s = "s\<lparr>interrupt_flag := False, kprintf_spinlock := ?l\<rparr>"
  have "tty_inv ?s" using assms(1) by (simp add: kprintf_ready_def tty_inv_def tty_ok_def)
  then obtain n t where "format_loop fmt args 0 ?s = Some (n, t)" "prints ?s ps t"
    using format_loop_prints [OF _ assms(2)] by blast
  moreover have "\<not> lock_held (kprintf_spinlock s)" using assms(1) by (simp add: kprintf_ready_def)
  ultimately show ?thesis
    using kprintf_unlocked [of s fmt args]
    by (auto simp: spinlock_defs kprintf_ready_def reported_def prints_def tty_inv_def tty_ok_def sent_def)
qed

end
