(* ===== verification/Context.thy ===== *)
theory Context
  imports Kernel_Prelude
begin

text \<open>
  The saved processor context (\<open>context_t\<close> of \<open>arch.h\<close>) that the interrupt stubs push and that the scheduler keeps for
  every thread, and the stack sizes of the same header.
\<close>

record context_t =
  ctx_r15 :: u64
  ctx_r14 :: u64
  ctx_r13 :: u64
  ctx_r12 :: u64
  ctx_r11 :: u64
  ctx_r10 :: u64
  ctx_r9 :: u64
  ctx_r8 :: u64
  ctx_rbp :: u64
  ctx_rdi :: u64
  ctx_rsi :: u64
  ctx_rdx :: u64
  ctx_rcx :: u64
  ctx_rbx :: u64
  ctx_rax :: u64
  ctx_int_no :: u64
  ctx_err_code :: u64
  ctx_rip :: u64
  ctx_cs :: u64
  ctx_rflags :: u64
  ctx_rsp :: u64
  ctx_ss :: u64

definition KSTACK_SIZE :: u64 where "KSTACK_SIZE = 0x8000"
definition IST_STACK_SIZE :: u64 where "IST_STACK_SIZE = 0x4000"
definition TSTACK_SIZE :: u64 where "TSTACK_SIZE = 0x4000"

definition zero_context :: context_t where
  "zero_context = \<lparr>ctx_r15 = 0, ctx_r14 = 0, ctx_r13 = 0, ctx_r12 = 0, ctx_r11 = 0, ctx_r10 = 0, ctx_r9 = 0, ctx_r8 = 0, ctx_rbp = 0, 
     ctx_rdi = 0, ctx_rsi = 0, ctx_rdx = 0, ctx_rcx = 0, ctx_rbx = 0, ctx_rax = 0, ctx_int_no = 0, ctx_err_code = 0, 
     ctx_rip = 0, ctx_cs = 0, ctx_rflags = 0, ctx_rsp = 0, ctx_ss = 0\<rparr>"

end
