(* ===== verification/Isr.thy ===== *)
theory Isr
  imports Printf_Total Context
begin

text \<open>
  The exception handler (\<open>cpu/isr/isr.c\<close>): it prints a report with \<open>kprintf\<close> and halts.  Halting is modelled by
  the state in which \<open>hcf\<close> is entered; \<open>None\<close> means that the handler does not get that far.  The registers the
  handler reads with inline assembly, and the memory it dumps, are parameters; a read may fault.
\<close>

definition isr_exception_messages :: "string list" where
  "isr_exception_messages = [''Divide by zero'',
     ''Debug'',
     ''NMI'',
     ''Breakpoint'',
     ''Overflow'',
     ''Bound Range Exceeded'',
     ''Invalid Opcode'',
     ''Device Not Available'',
     ''Double fault'',
     ''Co-processor Segment Overrun'',
     ''Invalid TSS'',
     ''Segment not present'',
     ''Stack-Segment Fault'',
     ''GPF'',
     ''Page Fault'',
     ''Reserved'',
     ''x87 Floating Point Exception'',
     ''alignment check'',
     ''Machine check'',
     ''SIMD floating-point exception'',
     ''Virtualization Exception'',
     ''Deadlock'',
     ''Reserved'',
     ''Reserved'',
     ''Reserved'',
     ''Reserved'',
     ''Reserved'',
     ''Reserved'',
     ''Reserved'',
     ''Reserved'',
     ''Reserved'',
     ''Security Exception'',
     ''Reserved'',
     ''Triple Fault'',
     ''FPU error'']"

record live_regs =
  live_rax :: u64
  live_rbx :: u64
  live_rcx :: u64
  live_rdx :: u64
  live_rsi :: u64
  live_rdi :: u64
  live_cr0 :: u64
  live_cr2 :: u64
  live_cr3 :: u64
  live_cr4 :: u64

definition kmsg :: "string \<Rightarrow> va_arg list \<Rightarrow> tty_state \<Rightarrow> tty_state option" where
  "kmsg fmt args s = map_option snd (kprintf (bytes_of fmt) args s)"

text \<open>A message that ends in a line feed.\<close>

definition kline :: "string \<Rightarrow> va_arg list \<Rightarrow> tty_state \<Rightarrow> tty_state option" where
  "kline fmt args = kmsg (fmt @ [CHR 10]) args"

definition vstr :: "string \<Rightarrow> va_arg" where
  "vstr m = VaStr (Some (bytes_of m))"

section \<open>The kind of the exception\<close>

text \<open>The \<open>switch\<close> on the vector: the entry of the message table and the cause.\<close>

definition isr_cause :: "nat \<Rightarrow> (nat \<times> string) option" where
  "isr_cause n =
     (if n = 0 then Some (0, ''Division by zero or division overflow'')
      else if n = 1 then Some (1, ''Debug symbol'')
      else if n = 2 then Some (2, ''Non-maskable interrupt'')
      else if n = 3 then Some (3, ''Breakpoint instruction'')
      else if n = 4 then Some (4, ''Overflow when executing INTO instruction'')
      else if n = 5 then Some (5, ''Index out of bounds'')
      else if n = 6 then Some (6, ''Undefined instruction or corrupted code'')
      else if n = 7 then Some (7, ''FPU instruction attempted, but no FPU'')
      else if n = 8 then Some (8, ''Exception during exception handling'')
      else if n = 9 then Some (9, ''Outdated hardware exception'')
      else if n = 10 then Some (10, ''Invalid segment selector'')
      else if n = 11 then Some (11, ''References a descriptor which is not present, but is marked as present'')
      else if n = 12 then Some (12, ''Stack corruption or other stack failure'')
      else if n = 13 then Some (13, ''Segment or privilege violation'')
      else if n = 14 then Some (14, ''Invalid memory access'')
      else if n = 15 then Some (15, ''Reserved'')
      else if n = 16 then Some (16, ''Waiting floating point instruction executed and failed'')
      else if n = 17 then Some (17, ''Unaligned memory acessed/referenced'')
      else if n = 18 then Some (18, ''Processor detected internal errors'')
      else if n = 19 then Some (19, ''Unmasked 128-bit media floating point exception and OSXMMEXCPT bit is set to 1'')
      else if n = 20 then Some (20, ''???'')
      else if n = 21 then Some (21, ''???'')
      else if 22 \<le> n \<and> n \<le> 27 then Some (27, ''Reserved'')
      else if n = 28 then Some (28, ''???'')
      else if n = 29 then Some (29, ''???'')
      else if n = 30 then Some (30, ''???'')
      else if n = 31 then Some (31, ''Reserved'')
      else None)"

definition yes_no :: "bool \<Rightarrow> va_arg" where
  "yes_no b = vstr (if b then ''Yes'' else ''No'')"

definition isr_details :: "live_regs \<Rightarrow> context_t \<Rightarrow> tty_state \<Rightarrow> tty_state option" where
  "isr_details regs ctx s =
     (case isr_cause (unat (ctx_int_no ctx)) of
        Some (i, cause) \<Rightarrow> do {
          s \<leftarrow> kline ''Type: %s'' [vstr (isr_exception_messages ! i)] s;
          s \<leftarrow> kline (''Cause: '' @ cause) [] s;
          if ctx_int_no ctx = 14 then do {
            s \<leftarrow> kline ''Fault Address (CR2): 0x%lx'' [VaLong (live_cr2 regs)] s;
            s \<leftarrow> kline ''Page Fault Flags:'' [] s;
            s \<leftarrow> kline ''Present: %s'' [yes_no (ctx_err_code ctx AND 1 \<noteq> 0)] s;
            s \<leftarrow> kline ''Write: %s'' [yes_no (ctx_err_code ctx AND 2 \<noteq> 0)] s;
            kline ''User: %s'' [yes_no (ctx_err_code ctx AND 4 \<noteq> 0)] s
          }
          else Some s
        }
      | None \<Rightarrow> do {
          s \<leftarrow> kline ''Type: Idek how you got here. You fucked up dude, like, fucked up fucked up'' [] s;
          kline (''Cause: Doing something you really shouldn'' @ [CHR 39] @ ''t have been doing'') [] s
        })"

section \<open>The rest of the report\<close>

definition isr_registers :: "live_regs \<Rightarrow> context_t \<Rightarrow> tty_state \<Rightarrow> tty_state option" where
  "isr_registers regs ctx s = do {
     s \<leftarrow> kline [] [] s;
     s \<leftarrow> kline ''---Registers---'' [] s;
     s \<leftarrow> kline ''RIP: 0x%016lx (Instruction Pointer)'' [VaLong (ctx_rip ctx)] s;
     s \<leftarrow> kline ''RSP: 0x%016lx (Stack Pointer)'' [VaLong (ctx_rsp ctx)] s;
     s \<leftarrow> kline ''RBP: 0x%016lx (Base Pointer)'' [VaLong (ctx_rbp ctx)] s;
     s \<leftarrow> kline ''RFLAGS: 0x%016lx'' [VaLong (ctx_rflags ctx)] s;
     s \<leftarrow> kline ''CS: 0x%04lx SS: 0x%04lx'' [VaLong (ctx_cs ctx), VaLong (ctx_ss ctx)] s;
     s \<leftarrow> kline ''RAX: 0x%016lx RBX: 0x%016lx'' [VaLong (live_rax regs), VaLong (live_rbx regs)] s;
     s \<leftarrow> kline ''RCX: 0x%016lx RDX: 0x%016lx'' [VaLong (live_rcx regs), VaLong (live_rdx regs)] s;
     s \<leftarrow> kline ''RSI: 0x%016lx RDI: 0x%016lx'' [VaLong (live_rsi regs), VaLong (live_rdi regs)] s;
     s \<leftarrow> kline [] [] s;
     s \<leftarrow> kline ''---Control Registers---'' [] s;
     s \<leftarrow> kline ''CR0: 0x%016lx (System Control)'' [VaLong (live_cr0 regs)] s;
     s \<leftarrow> kline ''CR3: 0x%016lx (Page Directory)'' [VaLong (live_cr3 regs)] s;
     kline ''CR4: 0x%016lx (Extended Features)'' [VaLong (live_cr4 regs)] s
   }"

fun isr_code_loop :: "(u64 \<Rightarrow> u8 option) \<Rightarrow> u64 \<Rightarrow> int list \<Rightarrow> tty_state \<Rightarrow> tty_state option" where
  "isr_code_loop rd8 code_ptr [] s = Some s"
| "isr_code_loop rd8 code_ptr (i # is) s = do {
     s \<leftarrow> (if i = 0 then kmsg ''['' [] s else Some s);
     b \<leftarrow> rd8 (code_ptr + of_int i);
     s \<leftarrow> kmsg ''%02x '' [VaInt (ucast b)] s;
     s \<leftarrow> (if i = 0 then kmsg '']'' [] s else Some s);
     isr_code_loop rd8 code_ptr is s
   }"

definition isr_code_dump :: "(u64 \<Rightarrow> u8 option) \<Rightarrow> context_t \<Rightarrow> tty_state \<Rightarrow> tty_state option" where
  "isr_code_dump rd8 ctx s = do {
     s \<leftarrow> kline [] [] s;
     s \<leftarrow> kline ''Code dump (RIP):'' [] s;
     s \<leftarrow> kline ''Address: 0x%lx'' [VaLong (ctx_rip ctx)] s;
     s \<leftarrow> kmsg ''Bytes: '' [] s;
     s \<leftarrow> isr_code_loop rd8 (ctx_rip ctx) [-8..7] s;
     kline [] [] s
   }"

fun isr_stack_loop :: "(u64 \<Rightarrow> u64 option) \<Rightarrow> u64 \<Rightarrow> nat list \<Rightarrow> tty_state \<Rightarrow> tty_state option" where
  "isr_stack_loop rd64 stack_ptr [] s = Some s"
| "isr_stack_loop rd64 stack_ptr (i # is) s = do {
     v \<leftarrow> rd64 (stack_ptr + of_nat i * 8);
     s \<leftarrow> kmsg ''RSP+%02d: 0x%016lx'' [VaInt (of_nat i * 8), VaLong v] s;
     s \<leftarrow> (if i = 0 then kmsg '' <- RSP'' [] s else Some s);
     s \<leftarrow> kline [] [] s;
     isr_stack_loop rd64 stack_ptr is s
   }"

definition isr_stack_dump :: "(u64 \<Rightarrow> u64 option) \<Rightarrow> context_t \<Rightarrow> tty_state \<Rightarrow> tty_state option" where
  "isr_stack_dump rd64 ctx s = do {
     s \<leftarrow> kline [] [] s;
     s \<leftarrow> kline ''Stack dump (RSP):'' [] s;
     s \<leftarrow> kline ''Stack pointer: 0x%lx'' [VaLong (ctx_rsp ctx)] s;
     isr_stack_loop rd64 (ctx_rsp ctx) [0..<8] s
   }"

fun isr_trace_loop :: "(u64 \<Rightarrow> u64 option) \<Rightarrow> nat list \<Rightarrow> u64 \<Rightarrow> tty_state \<Rightarrow> tty_state option" where
  "isr_trace_loop rd64 [] rbp_ptr s = Some s"
| "isr_trace_loop rd64 (i # is) rbp_ptr s =
     (if rbp_ptr = NULL then Some s
      else do {
        ret \<leftarrow> rd64 (rbp_ptr + 8);
        s \<leftarrow> kline ''Context %d: RBP=0x%lx, Return=0x%lx'' [VaInt (of_nat i), VaLong rbp_ptr, VaLong ret] s;
        rbp_ptr \<leftarrow> rd64 rbp_ptr;
        if rbp_ptr < 0x100000 \<or> rbp_ptr > 0x1000000 then Some s
        else isr_trace_loop rd64 is rbp_ptr s
      })"

definition isr_stack_trace :: "(u64 \<Rightarrow> u64 option) \<Rightarrow> context_t \<Rightarrow> tty_state \<Rightarrow> tty_state option" where
  "isr_stack_trace rd64 ctx s = do {
     s \<leftarrow> kline [] [] s;
     s \<leftarrow> kline ''---Stack Trace---'' [] s;
     isr_trace_loop rd64 [0..<5] (ctx_rbp ctx) s
   }"

definition isr_system_state :: "live_regs \<Rightarrow> context_t \<Rightarrow> tty_state \<Rightarrow> tty_state option" where
  "isr_system_state regs ctx s = do {
     s \<leftarrow> kline [] [] s;
     s \<leftarrow> kline ''---Memory State---'' [] s;
     s \<leftarrow> kline ''Kernel stack range: 0x%lx - 0x%lx''
       [VaLong (ctx_rsp ctx AND NOT 0xFFF), VaLong ((ctx_rsp ctx AND NOT 0xFFF) + 0x1000)] s;
     s \<leftarrow> kline ''Code segment: 0x%lx'' [VaLong (ctx_rip ctx AND NOT 0xFFF)] s;
     s \<leftarrow> kline [] [] s;
     s \<leftarrow> kline ''---System State---'' [] s;
     s \<leftarrow> kline ''Interrupts: %s'' [vstr (if ctx_rflags ctx AND 0x200 \<noteq> 0 then ''Enabled'' else ''Disabled'')] s;
     s \<leftarrow> kline ''Privilege level: ring %lu'' [VaLong (ctx_cs ctx AND 3)] s;
     kline ''Paging: %s'' [vstr (if live_cr0 regs AND 0x80000000 \<noteq> 0 then ''Enabled'' else ''Disabled'')] s
   }"

definition isr_handler ::
  "(u64 \<Rightarrow> u8 option) \<Rightarrow> (u64 \<Rightarrow> u64 option) \<Rightarrow> live_regs \<Rightarrow> context_t option \<Rightarrow> tty_state \<Rightarrow> tty_state option" where
  "isr_handler rd8 rd64 regs context s = do {
     let s = disable_interrupt s;
     s \<leftarrow> kline [] [] s;
     s \<leftarrow> kline ''EXCEPTION'' [] s;
     s \<leftarrow> kline ''---------------'' [] s;
     case context of
       None \<Rightarrow> do {
         s \<leftarrow> kline ''Null Fault Context'' [] s;
         Some (disable_interrupt s)
       }
     | Some ctx \<Rightarrow> do {
         s \<leftarrow> kline ''---Exception Details---'' [] s;
         s \<leftarrow> kline ''Exception Number: %u (0x%x)'' [VaLong (ctx_int_no ctx), VaLong (ctx_int_no ctx)] s;
         s \<leftarrow> kline ''Error Code: 0x%lx'' [VaLong (ctx_err_code ctx)] s;
         s \<leftarrow> isr_details regs ctx s;
         s \<leftarrow> isr_registers regs ctx s;
         s \<leftarrow> isr_code_dump rd8 ctx s;
         s \<leftarrow> isr_stack_dump rd64 ctx s;
         s \<leftarrow> isr_stack_trace rd64 ctx s;
         s \<leftarrow> isr_system_state regs ctx s;
         Some (disable_interrupt s)
       }
   }"

section \<open>What is reported\<close>

text \<open>The report as pieces of text: what is printed for which register, flag and word of memory.\<close>

definition lit :: "string \<Rightarrow> piece list" where
  "lit cs = map Byte (bytes_of cs)"

definition ln :: "string \<Rightarrow> piece list" where
  "ln cs = lit cs @ [Byte 10]"

definition hex :: "nat \<Rightarrow> u64 \<Rightarrow> piece list" where
  "hex w n = [Number n 16 False w (if w = 0 then 32 else 48)]"

definition dec :: "u64 \<Rightarrow> piece list" where
  "dec n = [Number n 10 False 0 32]"

definition answer :: "bool \<Rightarrow> string" where
  "answer b = (if b then ''Yes'' else ''No'')"

definition ability :: "bool \<Rightarrow> string" where
  "ability b = (if b then ''Enabled'' else ''Disabled'')"

text \<open>The number of the exception is printed with \<open>%u\<close> and \<open>%x\<close>: its lower half.\<close>

definition heading_text :: "context_t \<Rightarrow> piece list" where
  "heading_text ctx = ln ''---Exception Details---'' @
     lit ''Exception Number: '' @ dec (ucast (ucast (ctx_int_no ctx) :: u32)) @
     lit '' (0x'' @ hex 0 (ucast (ucast (ctx_int_no ctx) :: u32)) @ ln '')'' @
     lit ''Error Code: 0x'' @ hex 0 (ctx_err_code ctx) @ ln []"

definition details_text :: "live_regs \<Rightarrow> context_t \<Rightarrow> piece list" where
  "details_text regs ctx =
     (case isr_cause (unat (ctx_int_no ctx)) of
        Some (i, cause) \<Rightarrow> ln (''Type: '' @ isr_exception_messages ! i) @ ln (''Cause: '' @ cause) @
          (if ctx_int_no ctx = 14 then
             lit ''Fault Address (CR2): 0x'' @ hex 0 (live_cr2 regs) @ ln [] @ ln ''Page Fault Flags:'' @
             ln (''Present: '' @ answer (bit (ctx_err_code ctx) 0)) @
             ln (''Write: '' @ answer (bit (ctx_err_code ctx) 1)) @
             ln (''User: '' @ answer (bit (ctx_err_code ctx) 2))
           else [])
      | None \<Rightarrow> ln ''Type: Idek how you got here. You fucked up dude, like, fucked up fucked up'' @
          ln (''Cause: Doing something you really shouldn'' @ [CHR 39] @ ''t have been doing''))"

definition registers_text :: "live_regs \<Rightarrow> context_t \<Rightarrow> piece list" where
  "registers_text regs ctx = ln [] @ ln ''---Registers---'' @
     lit ''RIP: 0x'' @ hex 16 (ctx_rip ctx) @ ln '' (Instruction Pointer)'' @
     lit ''RSP: 0x'' @ hex 16 (ctx_rsp ctx) @ ln '' (Stack Pointer)'' @
     lit ''RBP: 0x'' @ hex 16 (ctx_rbp ctx) @ ln '' (Base Pointer)'' @
     lit ''RFLAGS: 0x'' @ hex 16 (ctx_rflags ctx) @ ln [] @
     lit ''CS: 0x'' @ hex 4 (ctx_cs ctx) @ lit '' SS: 0x'' @ hex 4 (ctx_ss ctx) @ ln [] @
     lit ''RAX: 0x'' @ hex 16 (live_rax regs) @ lit '' RBX: 0x'' @ hex 16 (live_rbx regs) @ ln [] @
     lit ''RCX: 0x'' @ hex 16 (live_rcx regs) @ lit '' RDX: 0x'' @ hex 16 (live_rdx regs) @ ln [] @
     lit ''RSI: 0x'' @ hex 16 (live_rsi regs) @ lit '' RDI: 0x'' @ hex 16 (live_rdi regs) @ ln []"

definition control_text :: "live_regs \<Rightarrow> piece list" where
  "control_text regs = ln [] @ ln ''---Control Registers---'' @
     lit ''CR0: 0x'' @ hex 16 (live_cr0 regs) @ ln '' (System Control)'' @
     lit ''CR3: 0x'' @ hex 16 (live_cr3 regs) @ ln '' (Page Directory)'' @
     lit ''CR4: 0x'' @ hex 16 (live_cr4 regs) @ ln '' (Extended Features)''"

text \<open>The sixteen bytes around the instruction pointer, the byte at it in brackets, and eight words of the stack.\<close>

definition byte_text :: "int \<Rightarrow> u8 \<Rightarrow> piece list" where
  "byte_text i b = (if i = 0 then lit ''['' @ hex 2 (ucast b) @ lit '' ]'' else hex 2 (ucast b) @ lit '' '')"

definition word_text :: "nat \<Rightarrow> u64 \<Rightarrow> piece list" where
  "word_text i v = lit ''RSP+'' @ dec (of_nat (8 * i)) @ lit '': 0x'' @ hex 16 v @ (if i = 0 then ln '' <- RSP'' else ln [])"

definition code_bytes :: "(u64 \<Rightarrow> u8 option) \<Rightarrow> u64 \<Rightarrow> int list \<Rightarrow> u8 list option" where
  "code_bytes rd8 rip is = those (map (\<lambda>i. rd8 (rip + of_int i)) is)"

definition stack_words :: "(u64 \<Rightarrow> u64 option) \<Rightarrow> u64 \<Rightarrow> nat list \<Rightarrow> u64 list option" where
  "stack_words rd64 rsp is = those (map (\<lambda>i. rd64 (rsp + of_nat i * 8)) is)"

text \<open>The frames of the trace: at most \<open>n\<close>.  It ends before a null frame pointer and after a frame whose saved frame
  pointer is outside the range from 1 MiB to 16 MiB.\<close>

fun stack_frames :: "(u64 \<Rightarrow> u64 option) \<Rightarrow> nat \<Rightarrow> u64 \<Rightarrow> (u64 \<times> u64) list option" where
  "stack_frames rd64 0 p = Some []"
| "stack_frames rd64 (Suc n) p =
     (if p = NULL then Some []
      else (case (rd64 (p + 8), rd64 p) of
              (Some ret, Some q) \<Rightarrow>
                if 0x100000 \<le> q \<and> q \<le> 0x1000000 then map_option ((#) (p, ret)) (stack_frames rd64 n q) else Some [(p, ret)]
            | _ \<Rightarrow> None))"

definition frame_text :: "nat \<Rightarrow> u64 \<times> u64 \<Rightarrow> piece list" where
  "frame_text i f = lit ''Context '' @ dec (of_nat i) @ lit '': RBP=0x'' @ hex 0 (fst f) @ lit '', Return=0x'' @ hex 0 (snd f) @ ln []"

fun trace_text :: "nat \<Rightarrow> (u64 \<times> u64) list \<Rightarrow> piece list" where
  "trace_text i [] = []"
| "trace_text i (f # fs) = frame_text i f @ trace_text (i + 1) fs"

definition system_text :: "live_regs \<Rightarrow> context_t \<Rightarrow> piece list" where
  "system_text regs ctx = ln [] @ ln ''---Memory State---'' @
     lit ''Kernel stack range: 0x'' @ hex 0 (ctx_rsp ctx AND NOT 0xFFF) @ lit '' - 0x'' @ hex 0 ((ctx_rsp ctx AND NOT 0xFFF) + 0x1000) @ ln [] @
     lit ''Code segment: 0x'' @ hex 0 (ctx_rip ctx AND NOT 0xFFF) @ ln [] @
     ln [] @ ln ''---System State---'' @
     ln (''Interrupts: '' @ ability (bit (ctx_rflags ctx) 9)) @
     lit ''Privilege level: ring '' @ dec (ctx_cs ctx AND 3) @ ln [] @
     ln (''Paging: '' @ ability (bit (live_cr0 regs) 31))"

text \<open>The whole report; \<open>None\<close> when a byte or word that it shows cannot be read.\<close>

definition isr_report ::
  "(u64 \<Rightarrow> u8 option) \<Rightarrow> (u64 \<Rightarrow> u64 option) \<Rightarrow> live_regs \<Rightarrow> context_t option \<Rightarrow> piece list option" where
  "isr_report rd8 rd64 regs context =
     (case context of
        None \<Rightarrow> Some (ln [] @ ln ''EXCEPTION'' @ ln ''---------------'' @ ln ''Null Fault Context'')
      | Some ctx \<Rightarrow>
          (case (code_bytes rd8 (ctx_rip ctx) [-8..7], stack_words rd64 (ctx_rsp ctx) [0..<8], stack_frames rd64 5 (ctx_rbp ctx)) of
             (Some bs, Some vs, Some fs) \<Rightarrow> Some (ln [] @ ln ''EXCEPTION'' @ ln ''---------------'' @
               heading_text ctx @ details_text regs ctx @ registers_text regs ctx @ control_text regs @
               ln [] @ ln ''Code dump (RIP):'' @ lit ''Address: 0x'' @ hex 0 (ctx_rip ctx) @ ln [] @
               lit ''Bytes: '' @ concat (map2 byte_text [-8..7] bs) @ ln [] @
               ln [] @ ln ''Stack dump (RSP):'' @ lit ''Stack pointer: 0x'' @ hex 0 (ctx_rsp ctx) @ ln [] @
               concat (map2 word_text [0..<8] vs) @
               ln [] @ ln ''---Stack Trace---'' @ trace_text 0 fs @ system_text regs ctx)
           | _ \<Rightarrow> None))"

section \<open>The handler prints the report\<close>

text \<open>Interrupts are off from the first instruction of the handler on.\<close>

definition isr_ready :: "tty_state \<Rightarrow> bool" where
  "isr_ready s \<longleftrightarrow> kprintf_ready s \<and> \<not> interrupt_flag s"

definition isr_step :: "tty_state \<Rightarrow> tty_state option \<Rightarrow> piece list option \<Rightarrow> bool" where
  "isr_step s r p \<longleftrightarrow> (case p of None \<Rightarrow> r = None | Some ps \<Rightarrow> \<exists>t. r = Some t \<and> reported s ps t)"

fun and_then :: "piece list option \<Rightarrow> piece list option \<Rightarrow> piece list option" where
  "and_then (Some ps) (Some qs) = Some (ps @ qs)"
| "and_then _ _ = None"

lemma and_then_None [simp]: "and_then p None = None"
  by (cases p) simp_all

lemma and_then_Nil [simp]: "and_then (Some []) q = q" "and_then q (Some []) = q"
  by (cases q; simp)+

lemma reported_ready: "isr_ready s \<Longrightarrow> reported s ps t \<Longrightarrow> isr_ready t"
  by (simp add: isr_ready_def reported_def)

lemma isr_step_bind:
  assumes "isr_ready s" "isr_step s r p" "\<And>t. isr_ready t \<Longrightarrow> isr_step t (f t) q"
  shows "isr_step s (r \<bind> f) (and_then p q)"
proof (cases p)
  case None
  then show ?thesis using assms(2) by (simp add: isr_step_def)
next
  case (Some ps)
  then obtain t where t: "r = Some t" "reported s ps t" using assms(2) by (auto simp: isr_step_def)
  then show ?thesis using assms(3) [OF reported_ready [OF assms(1) t(2)]] Some
    by (cases q) (auto simp: isr_step_def dest: reported_append)
qed

lemma isr_step_eq: "isr_step s r p \<Longrightarrow> p = q \<Longrightarrow> isr_step s r q"
  by simp

lemma isr_step_Some: "isr_ready s \<Longrightarrow> isr_step s (Some s) (Some [])"
  by (simp add: isr_step_def isr_ready_def reported_def)

lemma isr_step_halt: "isr_ready s \<Longrightarrow> isr_step s (Some (disable_interrupt s)) (Some [])"
  by (simp add: isr_step_def isr_ready_def reported_def disable_interrupt_def kprintf_ready_def tty_inv_def tty_ok_def sent_def)

lemma isr_step_if: "isr_step s x p \<Longrightarrow> isr_step s y q \<Longrightarrow> isr_step s (if b then x else y) (if b then p else q)"
  by simp

lemma kmsg_step:
  assumes "isr_ready s" "format_pieces (bytes_of fmt) args \<noteq> None"
  shows "isr_step s (kmsg fmt args s) (format_pieces (bytes_of fmt) args)"
proof -
  obtain ps where ps: "format_pieces (bytes_of fmt) args = Some ps" using assms(2) by blast
  obtain n t where "kprintf (bytes_of fmt) args s = Some (n, t)" "reported s ps t"
    using kprintf_returns [OF _ ps, of s] assms(1) by (auto simp: isr_ready_def)
  then show ?thesis by (simp add: ps isr_step_def kmsg_def)
qed

lemma kline_step:
  "isr_ready s \<Longrightarrow> format_pieces (bytes_of (fmt @ [CHR 10])) args \<noteq> None \<Longrightarrow>
   isr_step s (kline fmt args s) (format_pieces (bytes_of (fmt @ [CHR 10])) args)"
  by (simp add: kline_def kmsg_step)

lemma format_literal: "37 \<notin> set fmt \<Longrightarrow> 0xFF \<notin> set fmt \<Longrightarrow> format_pieces fmt args = Some (map Byte fmt)"
  by (induction fmt) auto

lemmas format_simps = bytes_of_def directive_def conversion_pieces_def number_pieces_def Let_def

lemmas text_simps = lit_def ln_def hex_def dec_def

lemmas steps = isr_step_bind isr_step_if isr_step_Some kline_step kmsg_step

lemma isr_messages_ok: "i < 35 \<Longrightarrow> 0xFF \<notin> set (bytes_of (isr_exception_messages ! i))"
proof -
  assume "i < 35"
  have "list_all (\<lambda>m. 0xFF \<notin> set (bytes_of m)) isr_exception_messages" "length isr_exception_messages = 35"
    by (simp_all add: isr_exception_messages_def bytes_of_def)
  then show ?thesis using \<open>i < 35\<close> by (simp add: list_all_length)
qed

lemma isr_cause_ok:
  assumes "isr_cause n = Some (i, cause)"
  shows "i < 35" "format_pieces (bytes_of ((''Cause: '' @ cause) @ [CHR 10])) args = Some (ln (''Cause: '' @ cause))"
proof -
  show "i < 35" using assms by (auto simp: isr_cause_def split: if_splits)
  have "37 \<notin> set (bytes_of ((''Cause: '' @ cause) @ [CHR 10]))" "0xFF \<notin> set (bytes_of ((''Cause: '' @ cause) @ [CHR 10]))"
    using assms by (auto simp: isr_cause_def bytes_of_def split: if_splits)
  then show "format_pieces (bytes_of ((''Cause: '' @ cause) @ [CHR 10])) args = Some (ln (''Cause: '' @ cause))"
    by (subst format_literal) (simp_all add: text_simps bytes_of_def)
qed

lemma string_lines:
  assumes "0xFF \<notin> set (bytes_of x)"
  shows "format_pieces (bytes_of (''Type: %s'' @ [CHR 10])) [vstr x] = Some (ln (''Type: '' @ x))"
    "format_pieces (bytes_of (''Present: %s'' @ [CHR 10])) [vstr x] = Some (ln (''Present: '' @ x))"
    "format_pieces (bytes_of (''Write: %s'' @ [CHR 10])) [vstr x] = Some (ln (''Write: '' @ x))"
    "format_pieces (bytes_of (''User: %s'' @ [CHR 10])) [vstr x] = Some (ln (''User: '' @ x))"
    "format_pieces (bytes_of (''Interrupts: %s'' @ [CHR 10])) [vstr x] = Some (ln (''Interrupts: '' @ x))"
    "format_pieces (bytes_of (''Paging: %s'' @ [CHR 10])) [vstr x] = Some (ln (''Paging: '' @ x))"
  using assms by (simp_all add: vstr_def format_simps text_simps)

lemma flag_tests:
  "(x AND 1 \<noteq> 0) = bit (x :: u64) 0" "(x AND 2 \<noteq> 0) = bit x 1" "(x AND 4 \<noteq> 0) = bit x 2"
  "(x AND 0x200 \<noteq> 0) = bit x 9" "(x AND 0x80000000 \<noteq> 0) = bit x 31"
  using and_exp_eq_0_iff_not_bit [of x 0] and_exp_eq_0_iff_not_bit [of x 1] and_exp_eq_0_iff_not_bit [of x 2]
    and_exp_eq_0_iff_not_bit [of x 9] and_exp_eq_0_iff_not_bit [of x 31] by simp_all

lemma answer_ok: "0xFF \<notin> set (bytes_of (answer b))" "0xFF \<notin> set (bytes_of (ability b))"
  by (simp_all add: answer_def ability_def bytes_of_def)

lemma yes_no_answer: "yes_no b = vstr (answer b)"
  by (simp add: yes_no_def answer_def)

lemma isr_details_step:
  assumes "isr_ready s"
  shows "isr_step s (isr_details regs ctx s) (Some (details_text regs ctx))"
proof (cases "isr_cause (unat (ctx_int_no ctx))")
  case None
  show ?thesis unfolding isr_details_def details_text_def None option.case
    by (rule isr_step_eq, (rule steps assms | assumption | simp add: format_simps text_simps)+)
next
  case (Some p)
  obtain i cause where p: "p = (i, cause)" by (cases p)
  note ic = isr_cause_ok [OF Some [unfolded p]]
  note f = string_lines [OF isr_messages_ok [OF ic(1)]] ic(2) string_lines [OF answer_ok(1)]
  show ?thesis
    unfolding isr_details_def details_text_def Some p option.case prod.case yes_no_answer flag_tests
    by (rule isr_step_eq, (rule steps assms | assumption | simp only: f option.simps not_False_eq_True
        | simp add: format_simps text_simps)+)
qed

lemma isr_registers_step:
  assumes "isr_ready s"
  shows "isr_step s (isr_registers regs ctx s) (Some (registers_text regs ctx @ control_text regs))"
  unfolding isr_registers_def registers_text_def control_text_def
  by (rule isr_step_eq, (rule steps assms | assumption | simp add: format_simps text_simps)+)

lemma code_bytes_Cons: "code_bytes rd8 p (i # is) =
    (case rd8 (p + of_int i) of None \<Rightarrow> None | Some b \<Rightarrow> map_option ((#) b) (code_bytes rd8 p is))"
  by (simp add: code_bytes_def split: option.split)

lemma wide_byte: "ucast (ucast (b :: u8) :: u32) = (ucast b :: u64)"
  by (rule bit_word_eqI) (auto simp: bit_simps dest: bit_imp_le_length)

lemma isr_code_loop_step:
  "isr_ready s \<Longrightarrow> isr_step s (isr_code_loop rd8 p is s)
     (map_option (\<lambda>bs. concat (map2 byte_text is bs)) (code_bytes rd8 p is))"
proof (induction "is" arbitrary: s)
  case Nil
  then show ?case using isr_step_Some by (simp add: code_bytes_def)
next
  case (Cons i "is")
  show ?case
  proof (cases "rd8 (p + of_int i)")
    case None
    then show ?thesis by (simp add: code_bytes_Cons isr_step_def bind_eq_None_conv del: not_None_eq)
  next
    case (Some b)
    show ?thesis unfolding isr_code_loop.simps Some bind.bind_lunit code_bytes_Cons option.case
      by (rule isr_step_eq, (rule steps Cons | assumption | simp add: format_simps text_simps)+)
        (cases "code_bytes rd8 p is"; simp add: format_simps text_simps wide_byte byte_text_def [of i b] byte_text_def [of 0 b])
  qed
qed

lemma offset_pieces:
  "i < 8 \<Longrightarrow> signed_pieces (scast (of_nat i * 8 :: u32)) = dec (of_nat (8 * i))"
  "i < 8 \<Longrightarrow> signed_pieces (scast (of_nat i :: u32)) = dec (of_nat i)"
proof -
  assume "i < 8"
  then have "i \<in> {0, 1, 2, 3, 4, 5, 6, 7}" by auto
  then show "signed_pieces (scast (of_nat i * 8 :: u32)) = dec (of_nat (8 * i))"
    "signed_pieces (scast (of_nat i :: u32)) = dec (of_nat i)"
    by (auto simp: signed_pieces_def dec_def)
qed

lemma zero_pieces: "signed_pieces 0 = dec 0"
  by (simp add: signed_pieces_def dec_def)

lemma stack_words_Cons: "stack_words rd64 p (i # is) =
    (case rd64 (p + of_nat i * 8) of None \<Rightarrow> None | Some v \<Rightarrow> map_option ((#) v) (stack_words rd64 p is))"
  by (simp add: stack_words_def split: option.split)

lemma isr_stack_loop_step:
  "isr_ready s \<Longrightarrow> \<forall>i\<in>set is. i < 8 \<Longrightarrow> isr_step s (isr_stack_loop rd64 p is s)
     (map_option (\<lambda>vs. concat (map2 word_text is vs)) (stack_words rd64 p is))"
proof (induction "is" arbitrary: s)
  case Nil
  then show ?case using isr_step_Some by (simp add: stack_words_def)
next
  case (Cons i "is")
  have i: "i < 8" "\<forall>i\<in>set is. i < 8" using Cons.prems by simp_all
  show ?case
  proof (cases "rd64 (p + of_nat i * 8)")
    case None
    then show ?thesis by (simp add: stack_words_Cons isr_step_def)
  next
    case (Some v)
    show ?thesis unfolding isr_stack_loop.simps Some bind.bind_lunit stack_words_Cons option.case
      by (rule isr_step_eq, (rule steps Cons.prems(1) Cons.IH i | assumption | simp add: format_simps text_simps)+)
        (cases "stack_words rd64 p is"; simp add: format_simps text_simps offset_pieces(1) [OF i(1)] zero_pieces
          word_text_def [of i v] word_text_def [of 0 v])
  qed
qed

lemma isr_trace_loop_step:
  "isr_ready s \<Longrightarrow> i + n \<le> 8 \<Longrightarrow>
   isr_step s (isr_trace_loop rd64 [i..<i + n] p s) (map_option (trace_text i) (stack_frames rd64 n p))"
proof (induction n arbitrary: s i p)
  case 0
  then show ?case using isr_step_Some by simp
next
  case (Suc n)
  have u: "[i..<i + Suc n] = i # [i + 1..<i + 1 + n]" by (simp add: upt_rec)
  have i: "i < 8" "i + 1 + n \<le> 8" using Suc.prems by simp_all
  have d: "format_pieces (bytes_of (''Context %d: RBP=0x%lx, Return=0x%lx'' @ [CHR 10])) [VaInt (of_nat i), VaLong p, VaLong v] =
      Some (frame_text i (p, v))" for v
    by (simp add: format_simps text_simps offset_pieces(2) [OF i(1)] frame_text_def)
  show ?case
  proof (cases "p = NULL \<or> rd64 (p + 8) = None")
    case True
    then show ?thesis unfolding u isr_trace_loop.simps using isr_step_Some [OF Suc.prems(1)] by (auto simp: isr_step_def)
  next
    case False
    then obtain v where v: "p \<noteq> NULL" "rd64 (p + 8) = Some v" by auto
    show ?thesis
    proof (cases "rd64 p")
      case None
      then show ?thesis unfolding u isr_trace_loop.simps using v by (simp add: isr_step_def)
    next
      case (Some q)
      have "isr_step s (kline ''Context %d: RBP=0x%lx, Return=0x%lx'' [VaInt (of_nat i), VaLong p, VaLong v] s)
          (Some (frame_text i (p, v)))"
        using kline_step [OF Suc.prems(1), of "''Context %d: RBP=0x%lx, Return=0x%lx''" "[VaInt (of_nat i), VaLong p, VaLong v]",
            unfolded d] by blast
      then have step: "isr_step s (kline ''Context %d: RBP=0x%lx, Return=0x%lx'' [VaInt (of_nat i), VaLong p, VaLong v] s \<bind>
          (\<lambda>s. if q < 0x100000 \<or> q > 0x1000000 then Some s else isr_trace_loop rd64 [i + 1..<i + 1 + n] q s))
          (and_then (Some (frame_text i (p, v)))
            (if q < 0x100000 \<or> q > 0x1000000 then Some [] else map_option (trace_text (i + 1)) (stack_frames rd64 n q)))"
        by (rule isr_step_bind [OF Suc.prems(1)]) (intro isr_step_if isr_step_Some Suc.IH i | assumption)+
      have "and_then (Some (frame_text i (p, v)))
            (if q < 0x100000 \<or> q > 0x1000000 then Some [] else map_option (trace_text (i + 1)) (stack_frames rd64 n q)) =
          map_option (trace_text i) (stack_frames rd64 (Suc n) p)"
        using v Some by (cases "stack_frames rd64 n q") (auto simp: not_le)
      from isr_step_eq [OF step this] show ?thesis unfolding u isr_trace_loop.simps using v Some by simp
    qed
  qed
qed

lemma isr_system_state_step:
  assumes "isr_ready s"
  shows "isr_step s (isr_system_state regs ctx s) (Some (system_text regs ctx))"
  unfolding isr_system_state_def system_text_def flag_tests ability_def [symmetric]
  by (rule isr_step_eq, (rule steps assms | assumption | simp only: string_lines [OF answer_ok(2)] option.simps not_False_eq_True
      | simp add: format_simps text_simps)+)

lemma isr_code_dump_step:
  assumes "isr_ready s"
  shows "isr_step s (isr_code_dump rd8 ctx s) (map_option (\<lambda>bs. ln [] @ ln ''Code dump (RIP):'' @
     lit ''Address: 0x'' @ hex 0 (ctx_rip ctx) @ ln [] @ lit ''Bytes: '' @ concat (map2 byte_text [-8..7] bs) @ ln [])
     (code_bytes rd8 (ctx_rip ctx) [-8..7]))"
proof -
  define around where "around = [-8..7 :: int]"
  show ?thesis unfolding isr_code_dump_def around_def [symmetric]
    by (rule isr_step_eq, (rule steps assms isr_code_loop_step | assumption | simp add: format_simps text_simps)+)
      (cases "code_bytes rd8 (ctx_rip ctx) around"; simp add: format_simps text_simps)
qed

lemma isr_stack_dump_step:
  assumes "isr_ready s"
  shows "isr_step s (isr_stack_dump rd64 ctx s) (map_option (\<lambda>vs. ln [] @ ln ''Stack dump (RSP):'' @
     lit ''Stack pointer: 0x'' @ hex 0 (ctx_rsp ctx) @ ln [] @ concat (map2 word_text [0..<8] vs))
     (stack_words rd64 (ctx_rsp ctx) [0..<8]))"
proof -
  have "\<forall>i\<in>set [0..<8]. i < (8 :: nat)" by simp
  note loop = isr_stack_loop_step [OF _ this]
  show ?thesis unfolding isr_stack_dump_def
    by (rule isr_step_eq, (rule steps assms loop | assumption | simp add: format_simps text_simps)+)
      (cases "stack_words rd64 (ctx_rsp ctx) [0..<8]"; simp only: option.simps; simp add: format_simps text_simps)
qed

lemma isr_stack_trace_step:
  assumes "isr_ready s"
  shows "isr_step s (isr_stack_trace rd64 ctx s)
     (map_option (\<lambda>fs. ln [] @ ln ''---Stack Trace---'' @ trace_text 0 fs) (stack_frames rd64 5 (ctx_rbp ctx)))"
proof -
  note loop = isr_trace_loop_step [where i = 0 and n = 5, simplified add_0_left]
  show ?thesis unfolding isr_stack_trace_def
    by (rule isr_step_eq, (rule steps assms loop | assumption | simp add: format_simps text_simps)+)
      (cases "stack_frames rd64 5 (ctx_rbp ctx)"; simp only: option.simps; simp add: format_simps text_simps)
qed

lemma isr_heading_step:
  assumes "isr_ready s" "\<And>t. isr_ready t \<Longrightarrow> isr_step t (f t) p"
  shows "isr_step s (do {
      s \<leftarrow> kline ''---Exception Details---'' [] s;
      s \<leftarrow> kline ''Exception Number: %u (0x%x)'' [VaLong (ctx_int_no ctx), VaLong (ctx_int_no ctx)] s;
      s \<leftarrow> kline ''Error Code: 0x%lx'' [VaLong (ctx_err_code ctx)] s;
      f s
    }) (and_then (Some (heading_text ctx)) p)"
  by (rule isr_step_eq, (rule steps assms | assumption | simp add: format_simps text_simps)+)
    (cases p; simp add: format_simps text_simps heading_text_def)

lemma isr_handler_null:
  assumes "isr_ready s"
  shows "isr_step s (isr_handler rd8 rd64 regs None s) (isr_report rd8 rd64 regs None)"
proof -
  have s: "disable_interrupt s = s" using assms by (simp add: disable_interrupt_def isr_ready_def)
  show ?thesis unfolding isr_handler_def isr_report_def Let_def option.case s
    by (rule isr_step_eq, (rule isr_step_bind kline_step assms isr_step_halt | assumption | simp add: format_simps text_simps)+)
qed

lemma isr_handler_context:
  assumes "isr_ready s"
  shows "isr_step s (isr_handler rd8 rd64 regs (Some ctx) s) (isr_report rd8 rd64 regs (Some ctx))"
proof -
  have s: "disable_interrupt s = s" using assms by (simp add: disable_interrupt_def isr_ready_def)
  note parts = isr_step_bind isr_details_step isr_registers_step isr_code_dump_step isr_stack_dump_step isr_stack_trace_step
    isr_system_state_step isr_step_halt
  define rest where "rest = (\<lambda>s. do {
     s \<leftarrow> isr_details regs ctx s;
     s \<leftarrow> isr_registers regs ctx s;
     s \<leftarrow> isr_code_dump rd8 ctx s;
     s \<leftarrow> isr_stack_dump rd64 ctx s;
     s \<leftarrow> isr_stack_trace rd64 ctx s;
     s \<leftarrow> isr_system_state regs ctx s;
     Some (disable_interrupt s)
   })"
  define body where "body = (case (code_bytes rd8 (ctx_rip ctx) [-8..7], stack_words rd64 (ctx_rsp ctx) [0..<8],
       stack_frames rd64 5 (ctx_rbp ctx)) of
     (Some bs, Some vs, Some fs) \<Rightarrow> Some (details_text regs ctx @ (registers_text regs ctx @ control_text regs) @
       (ln [] @ ln ''Code dump (RIP):'' @ lit ''Address: 0x'' @ hex 0 (ctx_rip ctx) @ ln [] @
         lit ''Bytes: '' @ concat (map2 byte_text [-8..7] bs) @ ln []) @
       (ln [] @ ln ''Stack dump (RSP):'' @ lit ''Stack pointer: 0x'' @ hex 0 (ctx_rsp ctx) @ ln [] @
         concat (map2 word_text [0..<8] vs)) @
       (ln [] @ ln ''---Stack Trace---'' @ trace_text 0 fs) @ system_text regs ctx)
   | _ \<Rightarrow> None)"
  have rest: "isr_step t (rest t) body" if "isr_ready t" for t
    unfolding rest_def body_def
    by (rule isr_step_eq, (rule parts that | assumption)+) (simp split: option.split)
  have "isr_step s (isr_handler rd8 rd64 regs (Some ctx) s)
      (and_then (Some (ln [])) (and_then (Some (ln ''EXCEPTION'')) (and_then (Some (ln ''---------------''))
        (and_then (Some (heading_text ctx)) body))))"
    unfolding isr_handler_def Let_def option.case s rest_def [symmetric]
    by (rule isr_step_eq, (rule isr_step_bind kline_step assms isr_heading_step rest | assumption | simp add: format_simps text_simps)+)
  then show ?thesis unfolding isr_report_def option.case body_def
    by (rule isr_step_eq) (simp split: option.split)
qed

lemma isr_handler_disabled: "isr_handler rd8 rd64 regs context (disable_interrupt s) = isr_handler rd8 rd64 regs context s"
  by (simp add: isr_handler_def disable_interrupt_def)

text \<open>C30: What the exception handler prints.  With a working port and terminal, whose junk in the number buffer is drawable,
  and a free output lock, the handler sends exactly the report to the serial port and halts with interrupts disabled:
  number, cause, page-fault flags, registers, code bytes, stack words, frames and system state, each value in its line, for
  every vector, context and register contents, and only the null-context lines without a context.  Every number lacks its
  first digit and drags a junk byte along.  The handler needs to read the sixteen bytes around \<open>rip\<close>, the
  eight words from \<open>rsp\<close> and the frames it shows: when one of them faults, it does not reach its end.  Nor does it when
  the exception interrupts a print: its first print spins on the lock the interrupted one holds.\<close>

theorem isr_handler_reports:
  assumes "tty_inv s"
  shows "case if lock_held (kprintf_spinlock s) then None else isr_report rd8 rd64 regs context of
      None \<Rightarrow> isr_handler rd8 rd64 regs context s = None
    | Some ps \<Rightarrow> \<exists>t. isr_handler rd8 rd64 regs context s = Some t \<and> \<not> interrupt_flag t \<and>
        sent t = sent s @ render (stack_junk s) (kprintnp_calls s) ps"
proof (cases "lock_held (kprintf_spinlock s)")
  case True
  then show ?thesis by (simp add: isr_handler_def kline_def kmsg_def kprintf_locked disable_interrupt_def)
next
  case False
  let ?s = "disable_interrupt s"
  have r: "isr_ready ?s" "sent ?s = sent s" "stack_junk ?s = stack_junk s" "kprintnp_calls ?s = kprintnp_calls s" "\<not> interrupt_flag ?s"
    using assms False by (simp_all add: isr_ready_def kprintf_ready_def tty_inv_def tty_ok_def disable_interrupt_def sent_def)
  have "isr_step ?s (isr_handler rd8 rd64 regs context ?s) (isr_report rd8 rd64 regs context)"
    using isr_handler_null [OF r(1)] isr_handler_context [OF r(1)] by (cases "context") simp_all
  then show ?thesis
    using False r(2-5) by (auto simp: isr_step_def reported_def isr_handler_disabled split: option.splits)
qed

definition regs_example :: live_regs where
  "regs_example = \<lparr>live_rax = 1, live_rbx = 2, live_rcx = 3, live_rdx = 4, live_rsi = 5, live_rdi = 6,
     live_cr0 = 0x80010011, live_cr2 = 0xDEAD, live_cr3 = 0x1000, live_cr4 = 0x20\<rparr>"

text \<open>A page fault at \<open>0x101000\<close>, with two frames on a stack from \<open>0x103000\<close> on and nothing else readable.\<close>

definition fault_example :: context_t where
  "fault_example = zero_context\<lparr>ctx_int_no := 14, ctx_err_code := 6, ctx_rip := 0x101010, ctx_rsp := 0x103000, ctx_rbp := 0x103020\<rparr>"

definition code_example :: "u64 \<Rightarrow> u8 option" where
  "code_example a = (if 0x101000 \<le> a \<and> a < 0x102000 then Some 0x90 else None)"

definition stack_example :: "u64 \<Rightarrow> u64 option" where
  "stack_example a = (if a = 0x103020 then Some 0x103030 else if a = 0x103028 then Some 0x101040
     else if 0x103000 \<le> a \<and> a < 0x104000 then Some 0 else None)"

lemma those_map: "\<forall>x\<in>set xs. f x = Some y \<Longrightarrow> those (map f xs) = Some (replicate (length xs) y)"
  by (induction xs) auto

lemma code_bytes_example: "code_bytes code_example (ctx_rip fault_example) [-8..7] = Some (replicate 16 0x90)"
proof -
  have "\<forall>i\<in>set [-8..7]. code_example (ctx_rip fault_example + of_int i) = Some 0x90"
    by (simp add: fault_example_def code_example_def upto_rec1)
  from those_map [OF this] show ?thesis by (simp add: code_bytes_def del: set_upto)
qed

lemma stack_example_words:
  "stack_words stack_example (ctx_rsp fault_example) [0..<8] = Some [0, 0, 0, 0, 0x103030, 0x101040, 0, 0]"
  by (simp add: stack_words_def stack_example_def fault_example_def upt_rec)

lemma stack_example_frames:
  "stack_frames stack_example 5 (ctx_rbp fault_example) = Some [(0x103020, 0x101040), (0x103030, 0)]"
proof -
  have n: "(5 :: nat) = Suc (Suc (Suc (Suc (Suc 0))))" by simp
  show ?thesis unfolding n by (simp add: stack_example_def fault_example_def)
qed

lemma null_example: "render j k (the (isr_report rd8 rd64 regs None)) =
    bytes_of (CHR 10 # ''EXCEPTION'' @ CHR 10 # ''---------------'' @ CHR 10 # ''Null Fault Context'' @ [CHR 10])"
  by (simp add: isr_report_def text_simps bytes_of_def)

theorem isr_handler_reports_witness:
  "(\<exists>ps t. isr_report code_example stack_example regs_example (Some fault_example) = Some ps \<and>
      isr_handler code_example stack_example regs_example (Some fault_example) tty_example = Some t \<and>
      \<not> interrupt_flag t \<and> sent t = render (\<lambda>_. replicate 32 0x3F) 0 ps) \<and>
   (\<exists>t. isr_handler code_example stack_example regs_example None tty_example = Some t \<and>
      sent t = bytes_of (CHR 10 # ''EXCEPTION'' @ CHR 10 # ''---------------'' @ CHR 10 # ''Null Fault Context'' @ [CHR 10])) \<and>
   isr_handler code_example stack_example regs_example (Some (fault_example\<lparr>ctx_rsp := 0\<rparr>)) tty_example = None"
proof -
  have i: "tty_inv tty_example"
    using tty_example_ok by (simp add: tty_inv_def tty_example_def cpu_state.defs)
  have j: "stack_junk tty_example = (\<lambda>_. replicate 32 0x3F)" "kprintnp_calls tty_example = 0"
    by (simp_all add: tty_example_def cpu_state.defs)
  note report = isr_handler_reports [OF i, unfolded if_not_P [OF tty_example_ok(2)] tty_example_ok(3) append_Nil j]
  obtain ps where ps: "isr_report code_example stack_example regs_example (Some fault_example) = Some ps"
    unfolding isr_report_def option.case code_bytes_example stack_example_words stack_example_frames prod.case by blast
  obtain qs where qs: "isr_report code_example stack_example regs_example None = Some qs" by (simp add: isr_report_def)
  have "stack_words stack_example 0 [0..<8] = None" by (simp add: stack_words_def stack_example_def upt_rec)
  then have none: "isr_report code_example stack_example regs_example (Some (fault_example\<lparr>ctx_rsp := 0\<rparr>)) = None"
    unfolding isr_report_def by (simp only: option.case context_t.simps fault_example_def prod.case split: option.split) simp
  note q = null_example [of "\<lambda>_. replicate 32 0x3F" 0 code_example stack_example regs_example, unfolded qs option.sel]
  show ?thesis
    using report [of code_example stack_example regs_example "Some fault_example", unfolded ps option.case]
      report [of code_example stack_example regs_example None, unfolded qs option.case q]
      report [of code_example stack_example regs_example "Some (fault_example\<lparr>ctx_rsp := 0\<rparr>)", unfolded none option.case] ps
    by blast
qed

end
