(* ===== verification/Outcome.thy ===== *)
theory Outcome
  imports Kernel_Prelude
begin

text \<open>
  Control flow of the scheduling code.  A call either returns a value or control leaves it for good: the processor
  halts, spins on a lock nobody can release, dereferences a pointer to no object, or executes the software
  interrupt that hands the processor to the scheduler in a function that is declared not to return.  In each
  case the state at that point matters, since other code runs on it.  A computation that runs forever, by a loop or by
  unbounded recursion, is \<open>None\<close>.
\<close>

datatype stop = Halted | Deadlock | Fault | Yielded

datatype ('a, 's) outcome = Done 'a 's | Stop stop 's

definition seq ::
  "('a, 's) outcome option \<Rightarrow> ('a \<Rightarrow> 's \<Rightarrow> ('b, 's) outcome option) \<Rightarrow> ('b, 's) outcome option" where
  "seq m f = Option.bind m (\<lambda>r. case r of Done a s \<Rightarrow> f a s | Stop w s \<Rightarrow> Some (Stop w s))"

abbreviation ret :: "'a \<Rightarrow> 's \<Rightarrow> ('a, 's) outcome option" where
  "ret a s \<equiv> Some (Done a s)"

abbreviation stop :: "stop \<Rightarrow> 's \<Rightarrow> ('a, 's) outcome option" where
  "stop w s \<equiv> Some (Stop w s)"

lemma seq_simps [simp]:
  "seq (ret a s) f = f a s"
  "seq (stop w s) f = stop w s"
  "seq None f = None"
  by (simp_all add: seq_def)

lemma seq_assoc: "seq (seq m f) g = seq m (\<lambda>a s. seq (f a s) g)"
  by (simp add: seq_def bind_assoc split: outcome.splits) (cases m; simp split: outcome.splits)

lemma seq_ret [simp]: "seq m ret = m"
  by (cases m) (auto simp: seq_def split: outcome.splits)

lemma seq_mono [partial_function_mono]:
  assumes "mono_option B" "\<And>a s. mono_option (\<lambda>g. C g a s)"
  shows "mono_option (\<lambda>g. seq (B g) (C g))"
  unfolding seq_def
proof (rule bind_mono [OF assms(1)])
  fix r show "mono_option (\<lambda>g. case r of Done a s \<Rightarrow> C g a s | Stop w s \<Rightarrow> Some (Stop w s))"
    by (cases r) (simp_all add: assms(2) option.const_mono)
qed

text \<open>A call of a function that is modelled with \<open>option\<close>.\<close>

definition call :: "('a \<times> 's) option \<Rightarrow> ('a, 's) outcome option" where
  "call m = Option.bind m (\<lambda>(a, s). ret a s)"

lemma call_simps [simp]: "call (Some (a, s)) = ret a s" "call None = None"
  by (simp_all add: call_def)

lemma seq_Done_iff: "seq m f = ret b t \<longleftrightarrow> (\<exists>a s. m = ret a s \<and> f a s = ret b t)"
  by (cases m) (auto simp: seq_def split: outcome.splits)

end
