(* ===== verification/Sched_State.thy ===== *)
theory Sched_State
  imports Outcome Context Spinlock Errno Kheap_Zero
begin

text \<open>
  The data of the scheduling code: threads (\<open>scheduling/thread.h\<close>), processes (\<open>process.h\<close>), mutexes (\<open>mutex.h\<close>),
  the kernel table (\<open>kernel.h\<close>) and the globals of \<open>thread.c\<close>, \<open>scheduler.c\<close> and \<open>process.c\<close>.

  Thread and process structures live in a store of typed objects, keyed by the address \<open>kmalloc\<close> returned for them;
  \<open>kmalloc\<close> and \<open>kfree\<close> are those of the heap model.  A structure that has been freed is no longer in the store, so
  using it, or following a null pointer, is a \<open>Fault\<close>.
\<close>

section \<open>Threads\<close>

datatype thread_state = THREAD_READY | THREAD_RUNNING | THREAD_BLOCKED | THREAD_TERMED

datatype thread_privilege = THREAD_RING_0 | THREAD_RING_3

datatype thread_priority =
    THREAD_PRIO_LOW | THREAD_PRIO_BG | THREAD_PRIO_NORMAL | THREAD_PRIO_HIGH | THREAD_PRIO_IMPORTANT
  | THREAD_PRIO_IMMEDIATE | PRIORITY_LEVELS

definition MAX_THREADS :: nat where "MAX_THREADS = 256"

record thread =
  t_tid :: u32
  t_o_pid :: u32
  t_proc :: addr
  t_state :: thread_state
  t_privilege :: thread_privilege
  t_priority :: thread_priority
  t_context :: context_t
  t_stack_base :: u64
  t_stack_size :: u64
  t_kernel_stack :: u64
  t_time_slice :: u32
  t_time_used :: u32
  t_cooldown :: int
  t_user_data :: addr
  t_next :: addr

text \<open>\<open>memset(t, 0, sizeof(thread_t))\<close>: the enumerators with value 0.\<close>

definition zero_thread :: thread where
  "zero_thread = \<lparr>t_tid = 0, t_o_pid = 0, t_proc = 0, t_state = THREAD_READY, t_privilege = THREAD_RING_0,
     t_priority = THREAD_PRIO_LOW, t_context = zero_context, t_stack_base = 0, t_stack_size = 0,
     t_kernel_stack = 0, t_time_slice = 0, t_time_used = 0, t_cooldown = 0, t_user_data = 0, t_next = 0\<rparr>"

definition sizeof_thread :: u64 where "sizeof_thread = 264"

section \<open>Mutexes\<close>

record mutex_t =
  m_lock :: spinlock_t
  m_locked :: bool
  m_owner :: addr
  m_waiter_head :: addr
  m_waiter_tail :: addr
  m_waiter_count :: u64

definition zero_mutex :: mutex_t where
  "zero_mutex = \<lparr>m_lock = \<lparr>lock_held = False, had_interrupt = False\<rparr>, m_locked = False, m_owner = 0,
     m_waiter_head = 0, m_waiter_tail = 0, m_waiter_count = 0\<rparr>"

section \<open>Processes\<close>

definition MAX_PROCS :: nat where "MAX_PROCS = 1024"
definition MAX_FD :: nat where "MAX_FD = 32"

datatype process_state = PROC_READY | PROC_RUNNING | PROC_BLOCKED | PROC_ZOMBIE | PROC_EXITED

record file_descriptor =
  fd_node :: addr
  fd_offset :: u64
  fd_present :: u64
  fd_flags :: u64

record cred =
  c_uid :: int
  c_euid :: int
  c_suid :: int
  c_gid :: int
  c_egid :: int
  c_sgid :: int

record process =
  p_pid :: int
  p_ppid :: int
  p_cred :: cred
  p_state :: process_state
  p_umask :: int
  p_next_sibling :: addr
  p_main_thread :: addr
  p_wait_head :: addr
  p_wait_tail :: addr
  p_cwd :: addr
  p_cwd_path :: "u8 list"
  p_address_space :: u64
  p_fds :: "file_descriptor list"
  p_exit_code :: int
  p_lock :: mutex_t

definition zero_process :: process where
  "zero_process = \<lparr>p_pid = 0, p_ppid = 0,
     p_cred = \<lparr>c_uid = 0, c_euid = 0, c_suid = 0, c_gid = 0, c_egid = 0, c_sgid = 0\<rparr>,
     p_state = PROC_READY, p_umask = 0, p_next_sibling = 0, p_main_thread = 0, p_wait_head = 0, p_wait_tail = 0,
     p_cwd = 0, p_cwd_path = replicate 256 0, p_address_space = 0,
     p_fds = replicate MAX_FD \<lparr>fd_node = 0, fd_offset = 0, fd_present = 0, fd_flags = 0\<rparr>,
     p_exit_code = 0, p_lock = zero_mutex\<rparr>"

definition sizeof_process :: u64 where "sizeof_process = 1440"

section \<open>The state\<close>

record sched_state = kheap_state +
  threads :: "addr \<Rightarrow> thread option"
  procs :: "addr \<Rightarrow> process option"
  current_thread :: addr
  thread_table :: "addr list"
  thread_count :: u32
  next_tid :: u32
  schedule_lock :: spinlock_t
  thread_mutex :: mutex_t
  ready_head :: addr
  ready_tail :: addr
  priority_counter :: u32
  process_table :: "addr list"
  process_table_lock :: mutex_t
  next_pid :: int
  tss_rsp0 :: u64

type_synonym ('a, 'r) sched_result = "('a, 'r sched_state_scheme) outcome option"

text \<open>Reading and writing through a thread or process pointer.\<close>

definition get_thread :: "addr \<Rightarrow> 'r sched_state_scheme \<Rightarrow> (thread, 'r) sched_result" where
  "get_thread p s = (case threads s p of None \<Rightarrow> stop Fault s | Some t \<Rightarrow> ret t s)"

definition put_thread :: "addr \<Rightarrow> (thread \<Rightarrow> thread) \<Rightarrow> 'r sched_state_scheme \<Rightarrow> (unit, 'r) sched_result" where
  "put_thread p f s = (case threads s p of
     None \<Rightarrow> stop Fault s
   | Some t \<Rightarrow> ret () (s\<lparr>threads := (threads s)(p \<mapsto> f t)\<rparr>))"

definition get_proc :: "addr \<Rightarrow> 'r sched_state_scheme \<Rightarrow> (process, 'r) sched_result" where
  "get_proc p s = (case procs s p of None \<Rightarrow> stop Fault s | Some t \<Rightarrow> ret t s)"

definition put_proc :: "addr \<Rightarrow> (process \<Rightarrow> process) \<Rightarrow> 'r sched_state_scheme \<Rightarrow> (unit, 'r) sched_result" where
  "put_proc p f s = (case procs s p of
     None \<Rightarrow> stop Fault s
   | Some t \<Rightarrow> ret () (s\<lparr>procs := (procs s)(p \<mapsto> f t)\<rparr>))"

lemma get_put_simps [simp]:
  "threads s p = Some t \<Longrightarrow> get_thread p s = ret t s"
  "threads s p = Some t \<Longrightarrow> put_thread p f s = ret () (s\<lparr>threads := (threads s)(p \<mapsto> f t)\<rparr>)"
  "procs s p = Some q \<Longrightarrow> get_proc p s = ret q s"
  "procs s p = Some q \<Longrightarrow> put_proc p g s = ret () (s\<lparr>procs := (procs s)(p \<mapsto> g q)\<rparr>)"
  by (simp_all add: get_thread_def put_thread_def get_proc_def put_proc_def)

text \<open>\<open>hcf\<close> and the software interrupt that enters the scheduler.\<close>

definition sched_hcf :: "'r sched_state_scheme \<Rightarrow> ('a, 'r) sched_result" where
  "sched_hcf s = stop Halted (disable_interrupt s)"

definition int_0x20 :: "'r sched_state_scheme \<Rightarrow> ('a, 'r) sched_result" where
  "int_0x20 s = stop Yielded s"

text \<open>\<open>kfree\<close> of a raw block, of a thread and of a process.\<close>

definition free_block :: "u64 \<Rightarrow> 'r sched_state_scheme \<Rightarrow> (unit, 'r) sched_result" where
  "free_block p s = call (map_option (\<lambda>s. ((), s)) (kfree p s))"

definition free_thread :: "addr \<Rightarrow> 'r sched_state_scheme \<Rightarrow> (unit, 'r) sched_result" where
  "free_thread p s = seq (free_block p s) (\<lambda>_ s. ret () (s\<lparr>threads := (threads s)(p := None)\<rparr>))"

definition free_proc :: "addr \<Rightarrow> 'r sched_state_scheme \<Rightarrow> (unit, 'r) sched_result" where
  "free_proc p s = seq (free_block p s) (\<lambda>_ s. ret () (s\<lparr>procs := (procs s)(p := None)\<rparr>))"

section \<open>The scheduling lock\<close>

text \<open>Waiting for ever on a lock that is already held: the lock has remembered the interrupt flag, and interrupts are off.\<close>

definition spinning :: "'r sched_state_scheme \<Rightarrow> 'r sched_state_scheme" where
  "spinning s = (disable_interrupt s)\<lparr>schedule_lock := (schedule_lock s)\<lparr>had_interrupt := have_interrupt s\<rparr>\<rparr>"

definition lock_schedule_spin :: "'r sched_state_scheme \<Rightarrow> (unit, 'r) sched_result" where
  "lock_schedule_spin s = (case spinlock_acquire (schedule_lock s) s of
     None \<Rightarrow> stop Deadlock (spinning s)
   | Some (l, s) \<Rightarrow> ret () (s\<lparr>schedule_lock := l\<rparr>))"

definition unlock_schedule_spin :: "'r sched_state_scheme \<Rightarrow> (unit, 'r) sched_result" where
  "unlock_schedule_spin s =
     (let (l, s) = spinlock_release (schedule_lock s) s in ret () (s\<lparr>schedule_lock := l\<rparr>))"

end
