(* ===== verification/Fifo.thy ===== *)
theory Fifo
  imports Outcome
begin

text \<open>
  The contract of a first-in first-out queue kept in a mutable state: \<open>queue s xs\<close> says that the state holds the items
  \<open>xs\<close>, oldest first, and \<open>item s x\<close> that \<open>x\<close> may be put in it.  The ready queue of the scheduler and the wait
  queues of the mutexes provide it.
\<close>

fun push_all :: "('a \<Rightarrow> 's \<Rightarrow> (unit, 's) outcome option) \<Rightarrow> 'a list \<Rightarrow> 's \<Rightarrow> (unit, 's) outcome option" where
  "push_all push [] s = ret () s"
| "push_all push (x # xs) s = seq (push x s) (\<lambda>_ s. push_all push xs s)"

fun pop_many :: "('s \<Rightarrow> ('a, 's) outcome option) \<Rightarrow> nat \<Rightarrow> 's \<Rightarrow> ('a list, 's) outcome option" where
  "pop_many pop 0 s = ret [] s"
| "pop_many pop (Suc n) s = seq (pop s) (\<lambda>x s. seq (pop_many pop n s) (\<lambda>xs s. ret (x # xs) s))"

locale fifo_queue =
  fixes queue :: "'s \<Rightarrow> 'a list \<Rightarrow> bool"
    and item :: "'s \<Rightarrow> 'a \<Rightarrow> bool"
    and push :: "'a \<Rightarrow> 's \<Rightarrow> (unit, 's) outcome option"
    and pop :: "'s \<Rightarrow> ('a, 's) outcome option"
  assumes push_queue: "queue s xs \<Longrightarrow> item s x \<Longrightarrow> x \<notin> set xs \<Longrightarrow>
      \<exists>u. push x s = ret () u \<and> queue u (xs @ [x]) \<and> item u = item s"
    and pop_queue: "queue s (x # xs) \<Longrightarrow> \<exists>u. pop s = ret x u \<and> queue u xs \<and> item u = item s"
begin

lemma push_all_queue:
  assumes "queue s xs" "distinct (xs @ ys)" "\<forall>y\<in>set ys. item s y"
  shows "\<exists>u. push_all push ys s = ret () u \<and> queue u (xs @ ys) \<and> item u = item s"
  using assms
proof (induction ys arbitrary: s xs)
  case (Cons y ys)
  obtain t where t: "push y s = ret () t" "queue t (xs @ [y])" "item t = item s"
    using push_queue [of s xs y] Cons.prems by auto
  then show ?case using Cons.IH [of t "xs @ [y]"] Cons.prems by auto
qed simp

lemma pop_many_queue: "queue s (xs @ ys) \<Longrightarrow> \<exists>u. pop_many pop (length xs) s = ret xs u \<and> queue u ys"
proof (induction xs arbitrary: s)
  case (Cons x xs)
  then obtain t where "pop s = ret x t" "queue t (xs @ ys)" using pop_queue [of s x "xs @ ys"] by auto
  then show ?case using Cons.IH [of t] by auto
qed simp

lemma first_in_first_out:
  assumes "queue s xs" "distinct (xs @ ys)" "\<forall>y\<in>set ys. item s y" "n \<le> length (xs @ ys)"
  shows "\<exists>u. seq (push_all push ys s) (\<lambda>_ s. pop_many pop n s) = ret (take n (xs @ ys)) u \<and> queue u (drop n (xs @ ys))"
proof -
  obtain t where t: "push_all push ys s = ret () t" "queue t (xs @ ys)" using push_all_queue [OF assms(1-3)] by auto
  have "queue t (take n (xs @ ys) @ drop n (xs @ ys))" using t(2) by (simp only: append_take_drop_id)
  moreover have "length (take n (xs @ ys)) = n" using assms(4) by simp
  ultimately show ?thesis using pop_many_queue [of t "take n (xs @ ys)"] t(1) by (simp only: seq_simps)
qed

end

end
