(* ===== verification/Ready_Queue.thy ===== *)
theory Ready_Queue
  imports Sched_State Fifo
begin

text \<open>
  The ready queue of \<open>scheduling/scheduler.c\<close>: a singly linked list through the \<open>next\<close> field of the threads, with a
  head and a tail pointer.  It is shown to implement a first-in first-out list.
\<close>

section \<open>Operations\<close>

definition priority_to_stride :: "thread_priority \<Rightarrow> int" where
  "priority_to_stride priority = (case priority of
     THREAD_PRIO_IMMEDIATE \<Rightarrow> 1
   | THREAD_PRIO_IMPORTANT \<Rightarrow> 2
   | THREAD_PRIO_HIGH \<Rightarrow> 4
   | THREAD_PRIO_NORMAL \<Rightarrow> 8
   | THREAD_PRIO_BG \<Rightarrow> 16
   | THREAD_PRIO_LOW \<Rightarrow> 32
   | _ \<Rightarrow> 8)"

definition set_next :: "addr \<Rightarrow> thread \<Rightarrow> thread" where
  "set_next n t = t\<lparr>t_next := n\<rparr>"

definition set_state :: "thread_state \<Rightarrow> thread \<Rightarrow> thread" where
  "set_state st t = t\<lparr>t_state := st\<rparr>"

text \<open>Linking at the tail; \<open>thread_create\<close> and \<open>thread_unblock\<close> repeat these lines.\<close>

definition link_tail :: "addr \<Rightarrow> 'r sched_state_scheme \<Rightarrow> (unit, 'r) sched_result" where
  "link_tail t s =
     (if ready_head s = NULL then ret () (s\<lparr>ready_head := t, ready_tail := t\<rparr>)
      else seq (put_thread (ready_tail s) (set_next t) s) (\<lambda>_ s. ret () (s\<lparr>ready_tail := t\<rparr>)))"

definition enqueue_ready_tail :: "addr \<Rightarrow> 'r sched_state_scheme \<Rightarrow> (unit, 'r) sched_result" where
  "enqueue_ready_tail t s =
     (if t = NULL then ret () s
      else seq (put_thread t (set_next NULL) s) (\<lambda>_ s. link_tail t s))"

definition dequeue_ready_head :: "'r sched_state_scheme \<Rightarrow> (addr, 'r) sched_result" where
  "dequeue_ready_head s =
     (let t = ready_head s in
      if t = NULL then ret NULL s
      else seq (get_thread (ready_head s) s) (\<lambda>h s.
        let s = s\<lparr>ready_head := t_next h\<rparr>;
            s = (if ready_head s = NULL then s\<lparr>ready_tail := NULL\<rparr> else s)
        in seq (put_thread t (set_next NULL) s) (\<lambda>_ s. ret t s)))"

text \<open>Walking the list from \<open>cur\<close> until \<open>t\<close> or its end: the node reached and the one before it.  The list may be
  cyclic or contain a freed thread.\<close>

partial_function (option) find_in_queue ::
  "addr \<Rightarrow> addr \<Rightarrow> addr \<Rightarrow> 'r sched_state_scheme \<Rightarrow> (addr \<times> addr, 'r) sched_result" where
  "find_in_queue t prev cur s =
     (if cur = NULL \<or> cur = t then ret (prev, cur) s
      else seq (get_thread cur s) (\<lambda>c s. find_in_queue t cur (t_next c) s))"

definition add_to_ready_queue :: "addr \<Rightarrow> 'r sched_state_scheme \<Rightarrow> (unit, 'r) sched_result" where
  "add_to_ready_queue t s =
     (if t = NULL then ret () s
      else seq (get_thread t s) (\<lambda>th s.
        if t_state th = THREAD_TERMED then ret () s
        else seq (lock_schedule_spin s) (\<lambda>_ s.
          seq (find_in_queue t NULL (ready_head s) s) (\<lambda>(prev, cur) s.
            if cur \<noteq> NULL then unlock_schedule_spin s
            else seq (put_thread t (set_next NULL) s) (\<lambda>_ s.
              seq (put_thread t (set_state THREAD_READY) s) (\<lambda>_ s.
                seq (enqueue_ready_tail t s) (\<lambda>_ s. unlock_schedule_spin s)))))))"

definition remove_from_ready_queue :: "addr \<Rightarrow> 'r sched_state_scheme \<Rightarrow> (unit, 'r) sched_result" where
  "remove_from_ready_queue t s =
     (if t = NULL then ret () s
      else seq (lock_schedule_spin s) (\<lambda>_ s.
        seq (find_in_queue t NULL (ready_head s) s) (\<lambda>(prev, cur) s.
          if cur = NULL then unlock_schedule_spin s
          else seq (get_thread cur s) (\<lambda>c s.
            seq (if prev \<noteq> NULL then put_thread prev (set_next (t_next c)) s
                 else ret () (s\<lparr>ready_head := t_next c\<rparr>)) (\<lambda>_ s.
              let s = (if cur = ready_tail s then s\<lparr>ready_tail := prev\<rparr> else s)
              in seq (put_thread t (set_next NULL) s) (\<lambda>_ s. unlock_schedule_spin s))))))"

section \<open>The queue as a list\<close>

text \<open>Following \<open>next\<close> from \<open>p\<close> visits \<open>xs\<close> and arrives at \<open>q\<close>.\<close>

fun linked :: "(addr \<Rightarrow> thread option) \<Rightarrow> addr \<Rightarrow> addr list \<Rightarrow> addr \<Rightarrow> bool" where
  "linked th p [] q \<longleftrightarrow> p = q"
| "linked th p (x # xs) q \<longleftrightarrow> p = x \<and> x \<noteq> NULL \<and> (\<exists>t. th x = Some t \<and> linked th (t_next t) xs q)"

definition ready_queue :: "'r sched_state_scheme \<Rightarrow> addr list \<Rightarrow> bool" where
  "ready_queue s xs \<longleftrightarrow> linked (threads s) (ready_head s) xs NULL \<and> distinct xs \<and>
     (xs \<noteq> [] \<longrightarrow> ready_tail s = last xs)"

lemma linked_NULL [simp]: "linked th 0 xs 0 \<longleftrightarrow> xs = []"
  by (cases xs) auto

lemma linked_nonnull: "linked th p xs q \<Longrightarrow> NULL \<notin> set xs"
  by (induction xs arbitrary: p) auto

lemma linked_dom: "linked th p xs q \<Longrightarrow> x \<in> set xs \<Longrightarrow> \<exists>t. th x = Some t"
  by (induction xs arbitrary: p) auto

lemma linked_cong:
  "(\<And>x. x \<in> set xs \<Longrightarrow> map_option t_next (th' x) = map_option t_next (th x)) \<Longrightarrow> linked th' p xs q = linked th p xs q"
proof (induction xs arbitrary: p)
  case (Cons x xs)
  then have "map_option t_next (th' x) = map_option t_next (th x)" by simp
  then show ?case using Cons.IH Cons.prems by (cases "th x"; cases "th' x") auto
qed simp

lemma linked_update_other [simp]: "a \<notin> set xs \<Longrightarrow> linked (th(a := t)) p xs q = linked th p xs q"
  by (rule linked_cong) auto

lemma linked_update_field:
  "th a = Some t \<Longrightarrow> t_next t' = t_next t \<Longrightarrow> linked (th(a \<mapsto> t')) p xs q = linked th p xs q"
  by (rule linked_cong) auto

lemma linked_append: "linked th p (xs @ ys) q \<longleftrightarrow> (\<exists>r. linked th p xs r \<and> linked th r ys q)"
  by (induction xs arbitrary: p) auto

text \<open>Redirecting the end of a list.\<close>

lemma linked_redirect:
  assumes "linked th p (xs @ [l]) q" "l \<notin> set xs" "th l = Some t"
  shows "linked (th(l \<mapsto> set_next r t)) p (xs @ [l]) r"
  using assms by (auto simp: linked_append set_next_def)

section \<open>Refinement\<close>

lemma set_next_idem [simp]: "set_next a (set_next b t) = set_next a t" "t_next (set_next a t) = a"
  by (simp_all add: set_next_def)

text \<open>What the queue operations may change: the links, the two ends, and the flag saved in the lock.\<close>

definition relinked :: "'r sched_state_scheme \<Rightarrow> 'r sched_state_scheme \<Rightarrow> bool" where
  "relinked s u \<longleftrightarrow> (\<exists>th h t.
     u = s\<lparr>threads := th, ready_head := h, ready_tail := t\<rparr> \<and>
     (\<forall>x. map_option (set_next NULL) (th x) = map_option (set_next NULL) (threads s x)))"

lemma relinkedI:
  assumes "\<And>x. map_option (set_next NULL) (th x) = map_option (set_next NULL) (threads s x)"
  shows "relinked s (s\<lparr>threads := th, ready_head := h, ready_tail := t\<rparr>)"
  unfolding relinked_def using assms by (intro exI [of _ th] exI [of _ h] exI [of _ t]) simp

lemma relinked_ends: "relinked s (s\<lparr>ready_head := h, ready_tail := t\<rparr>)"
  using relinkedI [where th = "threads s" and h = h and t = t, of s] by simp

lemma relinked_refl [simp]: "relinked s s"
  using relinked_ends [where s = s and h = "ready_head s" and t = "ready_tail s"] by simp

lemma relinked_trans:
  assumes "relinked s t" "relinked t u"
  shows "relinked s u"
proof -
  obtain th h e where t: "t = s\<lparr>threads := th, ready_head := h, ready_tail := e\<rparr>"
    "\<And>x. map_option (set_next NULL) (th x) = map_option (set_next NULL) (threads s x)"
    using assms(1) unfolding relinked_def by blast
  obtain th' h' e' where u: "u = t\<lparr>threads := th', ready_head := h', ready_tail := e'\<rparr>"
    "\<And>x. map_option (set_next NULL) (th' x) = map_option (set_next NULL) (threads t x)"
    using assms(2) unfolding relinked_def by blast
  have "u = s\<lparr>threads := th', ready_head := h', ready_tail := e'\<rparr>" using t(1) u(1) by simp
  then show ?thesis using t u relinkedI [where th = th' and h = h' and t = e', of s] by simp
qed

lemma relinked_both:
  "threads s a = Some x \<Longrightarrow>
   relinked s (s\<lparr>threads := (threads s)(a \<mapsto> set_next n x), ready_head := h, ready_tail := t\<rparr>)"
  by (rule relinkedI) simp

lemma relinked_link: "threads s a = Some x \<Longrightarrow> relinked s (s\<lparr>threads := (threads s)(a \<mapsto> set_next n x)\<rparr>)"
  using relinked_both [where h = "ready_head s" and t = "ready_tail s"] by fastforce

lemma relinked_threads: "relinked s u \<Longrightarrow> map_option (set_next NULL) (threads u x) = map_option (set_next NULL) (threads s x)"
  by (auto simp: relinked_def)

lemma link_tail_spec:
  assumes "ready_queue s xs" "t \<noteq> NULL" "t \<notin> set xs" "threads s t = Some th" "t_next th = NULL"
  shows "\<exists>u. link_tail t s = ret () u \<and> ready_queue u (xs @ [t]) \<and> relinked s u \<and>
    (\<forall>y. y \<notin> set xs \<union> {t} \<longrightarrow> threads u y = threads s y)"
proof (cases "xs = []")
  case True
  then have "ready_head s = NULL" using assms(1) by (simp add: ready_queue_def)
  then show ?thesis
    using True assms by (intro exI [of _ "s\<lparr>ready_head := t, ready_tail := t\<rparr>"])
      (use relinked_ends [of s t t] in \<open>auto simp: link_tail_def ready_queue_def\<close>)
next
  case False
  then obtain ys l where xs: "xs = ys @ [l]" by (cases xs rule: rev_cases) auto
  have q: "linked (threads s) (ready_head s) (ys @ [l]) NULL" "distinct (ys @ [l])" "ready_tail s = l"
    using assms(1) xs by (simp_all add: ready_queue_def)
  obtain lt where lt: "threads s l = Some lt" using linked_dom [OF q(1), of l] by auto
  have h: "ready_head s \<noteq> NULL" using q(1) by (cases ys) auto
  let ?u = "s\<lparr>threads := (threads s)(l \<mapsto> set_next t lt), ready_tail := t\<rparr>"
  have "linked (threads ?u) (ready_head s) (ys @ [l]) t" using linked_redirect [OF q(1) _ lt] q(2) by simp
  moreover have "threads ?u t = Some th" using assms(3,4) xs by auto
  ultimately have "linked (threads ?u) (ready_head s) ((ys @ [l]) @ [t]) NULL"
    using assms(2,5) by (subst linked_append) auto
  then have "ready_queue ?u (xs @ [t])" using q(2) assms(3) xs by (auto simp: ready_queue_def)
  moreover have "link_tail t s = ret () ?u" using h q(3) lt by (simp add: link_tail_def)
  moreover have "\<forall>y. y \<notin> set xs \<union> {t} \<longrightarrow> threads ?u y = threads s y" using xs by simp
  moreover have "relinked s ?u"
    using relinked_both [OF lt, where h = "ready_head s" and t = t and n = t] by simp
  ultimately show ?thesis by blast
qed

lemma enqueue_spec:
  assumes "ready_queue s xs" "t \<noteq> NULL" "t \<notin> set xs" "threads s t \<noteq> None"
  shows "\<exists>u. enqueue_ready_tail t s = ret () u \<and> ready_queue u (xs @ [t]) \<and> relinked s u \<and>
    (\<forall>y. y \<notin> set xs \<union> {t} \<longrightarrow> threads u y = threads s y)"
proof -
  obtain th where th: "threads s t = Some th" using assms(4) by auto
  let ?s = "s\<lparr>threads := (threads s)(t \<mapsto> set_next NULL th)\<rparr>"
  have q: "ready_queue ?s xs" using assms(1,3) by (simp add: ready_queue_def)
  have "threads ?s t = Some (set_next NULL th)" by simp
  from link_tail_spec [OF q assms(2,3) this]
  obtain u where "link_tail t ?s = ret () u" "ready_queue u (xs @ [t])" "relinked ?s u"
    "\<forall>y. y \<notin> set xs \<union> {t} \<longrightarrow> threads u y = threads s y" by auto
  moreover have "relinked s ?s" by (rule relinked_link [OF th])
  ultimately show ?thesis using th assms(2) relinked_trans by (auto simp: enqueue_ready_tail_def)
qed

lemma dequeue_empty: "ready_queue s [] \<Longrightarrow> dequeue_ready_head s = ret NULL s"
  by (simp add: dequeue_ready_head_def ready_queue_def)

lemma dequeue_spec:
  assumes "ready_queue s (x # xs)"
  shows "\<exists>u. dequeue_ready_head s = ret x u \<and> ready_queue u xs \<and> relinked s u"
proof -
  obtain th where th: "threads s x = Some th" "ready_head s = x" "x \<noteq> NULL" "linked (threads s) (t_next th) xs NULL"
    using assms by (auto simp: ready_queue_def)
  have xn: "x \<notin> set xs" "distinct xs" using assms by (auto simp: ready_queue_def)
  define e where "e = (if t_next th = NULL then NULL else ready_tail s)"
  let ?u = "s\<lparr>threads := (threads s)(x \<mapsto> set_next NULL th), ready_head := t_next th, ready_tail := e\<rparr>"
  have "xs = [] \<longleftrightarrow> t_next th = NULL" using th(4) by (cases xs) auto
  then have "ready_queue ?u xs" using assms th xn by (auto simp: ready_queue_def e_def)
  moreover have "dequeue_ready_head s = ret x ?u" using th by (simp add: dequeue_ready_head_def Let_def e_def)
  moreover have "relinked s ?u" by (rule relinked_both [OF th(1)])
  ultimately show ?thesis by blast
qed

lemma find_in_queue_spec:
  "linked (threads s) cur xs NULL \<Longrightarrow> t \<noteq> NULL \<Longrightarrow>
   find_in_queue t prev cur s = ret (last (prev # takeWhile (\<lambda>x. x \<noteq> t) xs), if t \<in> set xs then t else NULL) s"
proof (induction xs arbitrary: prev cur)
  case Nil
  then show ?case by (subst find_in_queue.simps) simp
next
  case (Cons x xs)
  then obtain th where "threads s x = Some th" "cur = x" "x \<noteq> NULL" "linked (threads s) (t_next th) xs NULL" by auto
  then show ?case using Cons by (subst find_in_queue.simps) auto
qed

lemma find_in_ready_queue:
  "ready_queue s xs \<Longrightarrow> t \<noteq> NULL \<Longrightarrow> find_in_queue t NULL (ready_head s) s =
     ret (last (NULL # takeWhile (\<lambda>x. x \<noteq> t) xs), if t \<in> set xs then t else NULL) s"
  by (rule find_in_queue_spec) (simp_all add: ready_queue_def)

section \<open>The operations that take the lock\<close>

definition locked :: "'r sched_state_scheme \<Rightarrow> 'r sched_state_scheme" where
  "locked s = (disable_interrupt s)\<lparr>schedule_lock := \<lparr>lock_held = True, had_interrupt = interrupt_flag s\<rparr>\<rparr>"

text \<open>After taking and releasing the lock only the interrupt flag it remembers is new.\<close>

definition unlocked :: "'r sched_state_scheme \<Rightarrow> 'r sched_state_scheme" where
  "unlocked s = s\<lparr>schedule_lock := \<lparr>lock_held = False, had_interrupt = interrupt_flag s\<rparr>\<rparr>"

lemma lock_schedule_free [simp]: "\<not> lock_held (schedule_lock s) \<Longrightarrow> lock_schedule_spin s = ret () (locked s)"
  by (cases "schedule_lock s") (simp add: lock_schedule_spin_def spinlock_acquire_def locked_def have_interrupt_def Let_def)

lemma lock_schedule_held [simp]: "lock_held (schedule_lock s) \<Longrightarrow> lock_schedule_spin s = stop Deadlock (spinning s)"
  by (simp add: lock_schedule_spin_def)

lemma locked_simps [simp]:
  "threads (locked s) = threads s" "ready_head (locked s) = ready_head s" "ready_tail (locked s) = ready_tail s"
  "lock_held (schedule_lock (locked s))" "procs (locked s) = procs s" "ready_queue (locked s) = ready_queue s"
  by (simp_all add: locked_def disable_interrupt_def ready_queue_def fun_eq_iff)

lemma unlocked_simps [simp]:
  "threads (unlocked s) = threads s" "ready_head (unlocked s) = ready_head s" "ready_tail (unlocked s) = ready_tail s"
  "\<not> lock_held (schedule_lock (unlocked s))" "procs (unlocked s) = procs s" "ready_queue (unlocked s) = ready_queue s"
  by (simp_all add: unlocked_def ready_queue_def fun_eq_iff)

lemma unlock_relinked:
  assumes "relinked (locked s) u"
  shows "\<exists>v. unlock_schedule_spin u = ret () v \<and> relinked (unlocked s) v \<and> ready_queue v = ready_queue u \<and> threads v = threads u"
proof -
  obtain th h t where u: "u = (locked s)\<lparr>threads := th, ready_head := h, ready_tail := t\<rparr>"
    "\<And>x. map_option (set_next NULL) (th x) = map_option (set_next NULL) (threads s x)"
    using assms unfolding relinked_def by auto
  let ?v = "(unlocked s)\<lparr>threads := th, ready_head := h, ready_tail := t\<rparr>"
  have "unlock_schedule_spin u = ret () ?v"
    by (simp add: u unlock_schedule_spin_def spinlock_release_def locked_def unlocked_def disable_interrupt_def enable_interrupt_def)
  moreover have "relinked (unlocked s) ?v" by (rule relinkedI) (simp add: u)
  moreover have "ready_queue ?v = ready_queue u" by (simp add: u ready_queue_def fun_eq_iff)
  ultimately show ?thesis using u(1) by (intro exI [of _ ?v]) simp
qed

lemma relinked_remove:
  assumes "ready_queue s xs" "t \<in> set xs" "threads s t = Some th" "p = last (NULL # takeWhile (\<lambda>x. x \<noteq> t) xs)"
  shows "\<exists>u. seq (if p \<noteq> NULL then put_thread p (set_next (t_next th)) s else ret () (s\<lparr>ready_head := t_next th\<rparr>)) (\<lambda>_ s.
       let s = (if t = ready_tail s then s\<lparr>ready_tail := p\<rparr> else s) in put_thread t (set_next NULL) s) = ret () u \<and>
     ready_queue u (remove1 t xs) \<and> relinked s u"
proof -
  obtain ys zs where xs: "xs = ys @ t # zs" "t \<notin> set ys" using assms(2) by (meson split_list_first)
  have l: "linked (threads s) (ready_head s) ys t" "linked (threads s) (t_next th) zs NULL" "t \<noteq> NULL"
    and d: "distinct xs" and e: "ready_tail s = last (t # zs)"
    using assms(1,3) xs by (auto simp: ready_queue_def linked_append)
  have "takeWhile (\<lambda>x. x \<noteq> t) xs = ys" unfolding xs(1) by (subst takeWhile_append2) (use xs(2) in auto)
  then have p: "p = last (NULL # ys)" using assms(4) by simp
  have r: "remove1 t xs = ys @ zs" using xs by (simp add: remove1_append)
  define e' where "e' = (if zs = [] then p else ready_tail s)"
  have te: "t = ready_tail s \<longleftrightarrow> zs = []" using e d xs by auto
  show ?thesis
  proof (cases ys rule: rev_cases)
    case Nil
    let ?u = "s\<lparr>threads := (threads s)(t \<mapsto> set_next NULL th), ready_head := t_next th, ready_tail := e'\<rparr>"
    have "ready_queue ?u zs" using Nil l d e xs by (auto simp: ready_queue_def e'_def)
    moreover have "relinked s ?u" by (rule relinked_both [OF assms(3)])
    ultimately show ?thesis using r Nil p te assms(3) by (intro exI [of _ ?u]) (auto simp: e'_def Let_def)
  next
    case (snoc ws w)
    obtain wt where w: "threads s w = Some wt" using linked_dom [OF l(1), of w] snoc by auto
    have nw: "w \<noteq> NULL" "w \<noteq> t" "p = w" using linked_nonnull [OF l(1)] snoc xs p by auto
    let ?s = "s\<lparr>threads := (threads s)(w \<mapsto> set_next (t_next th) wt)\<rparr>"
    let ?u = "?s\<lparr>threads := (threads ?s)(t \<mapsto> set_next NULL th), ready_head := ready_head s, ready_tail := e'\<rparr>"
    have "linked (threads ?s) (ready_head s) (ws @ [w]) (t_next th)"
      using linked_redirect [where th = "threads s" and l = w and t = wt and xs = ws and q = t] l(1) snoc d xs w by auto
    then have "linked (threads ?s) (ready_head s) (ys @ zs) NULL"
      using l(2) snoc d xs by (auto simp: linked_append)
    then have "ready_queue ?u (ys @ zs)" using snoc d e xs nw by (auto simp: ready_queue_def e'_def)
    moreover have "relinked s ?u"
      by (rule relinked_trans [OF relinked_link [OF w] relinked_both]) (use nw assms(3) in simp)
    ultimately show ?thesis using r nw te w assms(3) by (intro exI [of _ ?u]) (auto simp: e'_def Let_def)
  qed
qed

text \<open>What the exported operations do to the list.\<close>

lemma remove_spec:
  assumes "ready_queue s xs" "t \<noteq> NULL" "\<not> lock_held (schedule_lock s)"
  shows "\<exists>u. remove_from_ready_queue t s = ret () u \<and> ready_queue u (remove1 t xs) \<and> relinked (unlocked s) u"
proof (cases "t \<in> set xs")
  case False
  have "relinked (locked s) (locked s)" by simp
  then obtain v where "unlock_schedule_spin (locked s) = ret () v" "relinked (unlocked s) v" "ready_queue v = ready_queue s"
    using unlock_relinked by fastforce
  then show ?thesis
    using assms False find_in_ready_queue [of "locked s" xs t] by (auto simp: remove_from_ready_queue_def remove1_idem)
next
  case True
  obtain th where th: "threads s t = Some th"
    using assms(1) True linked_dom [of "threads s" "ready_head s" xs NULL t] by (auto simp: ready_queue_def)
  define p where "p = last (NULL # takeWhile (\<lambda>x. x \<noteq> t) xs)"
  have f: "find_in_queue t NULL (ready_head s) (locked s) = ret (p, t) (locked s)"
    using assms True find_in_ready_queue [of "locked s" xs t] by (simp add: p_def)
  obtain u where u: "seq (if p \<noteq> NULL then put_thread p (set_next (t_next th)) (locked s)
         else ret () ((locked s)\<lparr>ready_head := t_next th\<rparr>)) (\<lambda>_ s.
       let s = (if t = ready_tail s then s\<lparr>ready_tail := p\<rparr> else s) in put_thread t (set_next NULL) s) = ret () u"
    "ready_queue u (remove1 t xs)" "relinked (locked s) u"
    using relinked_remove [of "locked s" xs t th p] assms(1) True th p_def by auto
  obtain v where v: "unlock_schedule_spin u = ret () v" "relinked (unlocked s) v" "ready_queue v = ready_queue u"
    using unlock_relinked [OF u(3)] by auto
  obtain a w where w: "(if p \<noteq> NULL then put_thread p (set_next (t_next th)) (locked s)
      else ret () ((locked s)\<lparr>ready_head := t_next th\<rparr>)) = ret a w"
    "put_thread t (set_next NULL) (if t = ready_tail w then w\<lparr>ready_tail := p\<rparr> else w) = ret () u"
    using u(1) unfolding seq_Done_iff Let_def by blast
  have "remove_from_ready_queue t s = ret () v"
    using assms(2,3) th f
    by (simp add: remove_from_ready_queue_def Let_def w v(1) split del: if_split)
  then show ?thesis using u(2) v by auto
qed

lemma add_present:
  assumes "ready_queue s xs" "t \<in> set xs" "\<not> lock_held (schedule_lock s)"
  shows "\<exists>u. add_to_ready_queue t s = ret () u \<and> ready_queue u xs \<and> (u = s \<or> relinked (unlocked s) u)"
proof -
  obtain th where th: "threads s t = Some th" "t \<noteq> NULL"
    using assms linked_dom linked_nonnull by (fastforce simp: ready_queue_def)
  have "relinked (locked s) (locked s)" by simp
  then obtain v where "unlock_schedule_spin (locked s) = ret () v" "relinked (unlocked s) v" "ready_queue v = ready_queue s"
    using unlock_relinked by fastforce
  then show ?thesis
    using assms th find_in_ready_queue [of "locked s" xs t] by (cases "t_state th") (auto simp: add_to_ready_queue_def)
qed

lemma add_new:
  assumes "ready_queue s xs" "t \<notin> set xs" "t \<noteq> NULL" "threads s t = Some th" "t_state th \<noteq> THREAD_TERMED"
    "\<not> lock_held (schedule_lock s)"
  shows "\<exists>u. add_to_ready_queue t s = ret () u \<and> ready_queue u (xs @ [t]) \<and>
    relinked (unlocked (s\<lparr>threads := (threads s)(t \<mapsto> set_state THREAD_READY th)\<rparr>)) u \<and>
    (\<forall>y. y \<notin> set xs \<union> {t} \<longrightarrow> threads u y = threads s y)"
proof -
  let ?s = "s\<lparr>threads := (threads s)(t \<mapsto> set_state THREAD_READY (set_next NULL th))\<rparr>"
  let ?r = "s\<lparr>threads := (threads s)(t \<mapsto> set_state THREAD_READY th)\<rparr>"
  have l: "(locked s)\<lparr>threads := (threads s)(t \<mapsto> set_state THREAD_READY (set_next NULL th))\<rparr> = locked ?s"
    by (simp add: locked_def disable_interrupt_def)
  have "ready_queue (locked ?s) xs" using assms(1,2) by (simp add: ready_queue_def)
  then obtain u where u: "enqueue_ready_tail t (locked ?s) = ret () u" "ready_queue u (xs @ [t])" "relinked (locked ?s) u"
    "\<forall>y. y \<notin> set xs \<union> {t} \<longrightarrow> threads u y = threads s y"
    using enqueue_spec [of "locked ?s" xs t] assms(2,3) by auto
  obtain v where v: "unlock_schedule_spin u = ret () v" "relinked (unlocked ?s) v" "ready_queue v = ready_queue u"
    "threads v = threads u"
    using unlock_relinked [OF u(3)] by auto
  have "unlocked ?s = (unlocked ?r)\<lparr>threads := (threads (unlocked ?r))(t \<mapsto> set_next NULL (set_state THREAD_READY th))\<rparr>"
    by (cases s; cases th) (simp add: unlocked_def set_state_def set_next_def)
  then have "relinked (unlocked ?r) (unlocked ?s)"
    using relinked_link [of "unlocked ?r" t "set_state THREAD_READY th" NULL] by simp
  then have "relinked (unlocked ?r) v" using v(2) by (rule relinked_trans)
  moreover have "add_to_ready_queue t s = ret () v"
    using assms find_in_ready_queue [of "locked s" xs t] u(1) v(1) l by (simp add: add_to_ready_queue_def)
  ultimately show ?thesis using u(2,4) v(3,4) by auto
qed

section \<open>The queue contract\<close>

definition live_thread :: "'r sched_state_scheme \<Rightarrow> addr \<Rightarrow> bool" where
  "live_thread s t \<longleftrightarrow> t \<noteq> NULL \<and> threads s t \<noteq> None"

lemma relinked_live: "relinked s u \<Longrightarrow> live_thread u = live_thread s"
proof (rule ext)
  fix x assume "relinked s u"
  then show "live_thread u x = live_thread s x"
    using relinked_threads [of s u x] by (cases "threads u x"; cases "threads s x") (auto simp: live_thread_def)
qed

interpretation rq: fifo_queue ready_queue live_thread enqueue_ready_tail dequeue_ready_head
proof unfold_locales
  fix s :: "'r sched_state_scheme" and xs x
  assume "ready_queue s xs" "live_thread s x" "x \<notin> set xs"
  then obtain u where "enqueue_ready_tail x s = ret () u" "ready_queue u (xs @ [x])" "relinked s u"
    using enqueue_spec [of s xs x] unfolding live_thread_def by blast
  then show "\<exists>u. enqueue_ready_tail x s = ret () u \<and> ready_queue u (xs @ [x]) \<and> live_thread u = live_thread s"
    using relinked_live by blast
next
  fix s :: "'r sched_state_scheme" and x xs
  assume "ready_queue s (x # xs)"
  then show "\<exists>u. dequeue_ready_head s = ret x u \<and> ready_queue u xs \<and> live_thread u = live_thread s"
    using dequeue_spec relinked_live by blast
qed

end
