(* ===== verification/Mutex.thy ===== *)
theory Mutex
  imports Ready_Queue
begin

text \<open>
  The mutexes of \<open>scheduling/mutex.c\<close> and, since acquiring a mutex blocks the caller and blocking acquires a mutex,
  \<open>thread_from_tid\<close> and \<open>thread_block\<close> of \<open>scheduling/thread.c\<close>.

  A mutex is a global variable or a field of a process, so a pointer to one is a \<open>mutex_ref\<close>.
\<close>

section \<open>Operations\<close>

datatype mutex_ref = NullMutex | ThreadMutex | ProcTableLock | ProcLock addr

fun get_mutex :: "mutex_ref \<Rightarrow> 'r sched_state_scheme \<Rightarrow> (mutex_t, 'r) sched_result" where
  "get_mutex NullMutex s = stop Fault s"
| "get_mutex ThreadMutex s = ret (thread_mutex s) s"
| "get_mutex ProcTableLock s = ret (process_table_lock s) s"
| "get_mutex (ProcLock p) s = seq (get_proc p s) (\<lambda>q s. ret (p_lock q) s)"

fun put_mutex :: "mutex_ref \<Rightarrow> (mutex_t \<Rightarrow> mutex_t) \<Rightarrow> 'r sched_state_scheme \<Rightarrow> (unit, 'r) sched_result" where
  "put_mutex NullMutex f s = stop Fault s"
| "put_mutex ThreadMutex f s = ret () (s\<lparr>thread_mutex := f (thread_mutex s)\<rparr>)"
| "put_mutex ProcTableLock f s = ret () (s\<lparr>process_table_lock := f (process_table_lock s)\<rparr>)"
| "put_mutex (ProcLock p) f s = put_proc p (\<lambda>q. q\<lparr>p_lock := f (p_lock q)\<rparr>) s"

definition init_mutex :: "mutex_ref \<Rightarrow> 'r sched_state_scheme \<Rightarrow> (unit, 'r) sched_result" where
  "init_mutex m s =
     (if m = NullMutex then ret () s
      else put_mutex m (\<lambda>x. x\<lparr>m_lock := spinlock_init (m_lock x), m_locked := False, m_owner := NULL, m_waiter_head := NULL,
                              m_waiter_tail := NULL, m_waiter_count := 0\<rparr>) s)"

text \<open>\<open>spinlock_acquire(&mutex->lock)\<close> and \<open>spinlock_release(&mutex->lock)\<close>.\<close>

definition mutex_spin :: "mutex_ref \<Rightarrow> 'r sched_state_scheme \<Rightarrow> (unit, 'r) sched_result" where
  "mutex_spin m s =
     seq (get_mutex m s) (\<lambda>x s.
       case spinlock_acquire (m_lock x) s of
         None \<Rightarrow> seq (put_mutex m (\<lambda>x. x\<lparr>m_lock := (m_lock x)\<lparr>had_interrupt := have_interrupt s\<rparr>\<rparr>) (disable_interrupt s))
                   (\<lambda>_ s. stop Deadlock s)
       | Some (l, s) \<Rightarrow> put_mutex m (\<lambda>x. x\<lparr>m_lock := l\<rparr>) s)"

definition mutex_unspin :: "mutex_ref \<Rightarrow> 'r sched_state_scheme \<Rightarrow> (unit, 'r) sched_result" where
  "mutex_unspin m s =
     seq (get_mutex m s) (\<lambda>x s.
       let (l, s) = spinlock_release (m_lock x) s in put_mutex m (\<lambda>x. x\<lparr>m_lock := l\<rparr>) s)"

text \<open>Joining the queue of waiters, and taking the first one out of it.\<close>

definition join_waiters :: "mutex_ref \<Rightarrow> addr \<Rightarrow> 'r sched_state_scheme \<Rightarrow> (unit, 'r) sched_result" where
  "join_waiters m t s =
     seq (put_thread t (set_state THREAD_BLOCKED) s) (\<lambda>_ s.
       seq (put_thread t (set_next NULL) s) (\<lambda>_ s.
         seq (get_mutex m s) (\<lambda>x s.
           seq (if m_waiter_tail x \<noteq> NULL
                then seq (put_thread (m_waiter_tail x) (set_next t) s) (\<lambda>_ s. put_mutex m (\<lambda>x. x\<lparr>m_waiter_tail := t\<rparr>) s)
                else put_mutex m (\<lambda>x. x\<lparr>m_waiter_head := t, m_waiter_tail := t\<rparr>) s) (\<lambda>_ s.
             put_mutex m (\<lambda>x. x\<lparr>m_waiter_count := m_waiter_count x + 1\<rparr>) s))))"

definition take_waiter :: "mutex_ref \<Rightarrow> 'r sched_state_scheme \<Rightarrow> (addr, 'r) sched_result" where
  "take_waiter m s =
     seq (get_mutex m s) (\<lambda>x s.
       let next = m_waiter_head x in
       seq (get_thread next s) (\<lambda>n s.
         seq (put_mutex m (\<lambda>x. x\<lparr>m_waiter_head := t_next n,
                                  m_waiter_tail := (if t_next n = NULL then NULL else m_waiter_tail x),
                                  m_waiter_count := m_waiter_count x - 1\<rparr>) s) (\<lambda>_ s. ret next s)))"

definition release_mutex :: "mutex_ref \<Rightarrow> 'r sched_state_scheme \<Rightarrow> (unit, 'r) sched_result" where
  "release_mutex m s =
     (if m = NullMutex then ret () s
      else seq (mutex_spin m s) (\<lambda>_ s.
        seq (get_mutex m s) (\<lambda>x s.
          if m_owner x \<noteq> current_thread s then mutex_unspin m s
          else seq (put_mutex m (\<lambda>x. x\<lparr>m_locked := False, m_owner := NULL\<rparr>) s) (\<lambda>_ s.
            seq (if m_waiter_head x \<noteq> NULL
                 then seq (take_waiter m s) (\<lambda>next s.
                   seq (put_thread next (set_state THREAD_READY) s) (\<lambda>_ s. add_to_ready_queue next s))
                 else ret () s) (\<lambda>_ s. mutex_unspin m s)))))"

fun find_tid :: "u32 \<Rightarrow> addr list \<Rightarrow> 'r sched_state_scheme \<Rightarrow> (addr, 'r) sched_result" where
  "find_tid tid [] s = ret NULL s"
| "find_tid tid (t # ts) s =
     (if t = NULL then find_tid tid ts s
      else seq (get_thread t s) (\<lambda>th s. if t_tid th = tid then ret t s else find_tid tid ts s))"

definition thread_from_tid :: "u32 \<Rightarrow> 'r sched_state_scheme \<Rightarrow> (addr, 'r) sched_result" where
  "thread_from_tid tid s = find_tid tid (take MAX_THREADS (thread_table s)) s"

text \<open>\<open>thread_block\<close> after its first line, which acquires the thread mutex.\<close>

definition thread_block_locked :: "u32 \<Rightarrow> 'r sched_state_scheme \<Rightarrow> (unit, 'r) sched_result" where
  "thread_block_locked tid s =
     seq (thread_from_tid tid s) (\<lambda>t s.
       seq (release_mutex ThreadMutex s) (\<lambda>_ s.
         if t = NULL then sched_hcf s
         else seq (get_thread t s) (\<lambda>th s.
           if t_tid th = 0 then sched_hcf s
           else seq (put_thread t (set_state THREAD_BLOCKED) s) (\<lambda>_ s.
             seq (remove_from_ready_queue t s) (\<lambda>_ s. int_0x20 s)))))"

partial_function (option) acquire_mutex :: "mutex_ref \<Rightarrow> 'r sched_state_scheme \<Rightarrow> (int, 'r) sched_result" where
  "acquire_mutex m s =
     seq (mutex_spin m s) (\<lambda>_ s.
       seq (get_mutex m s) (\<lambda>x s.
         if \<not> m_locked x
         then seq (put_mutex m (\<lambda>x. x\<lparr>m_locked := True, m_owner := current_thread s\<rparr>) s) (\<lambda>_ s.
           seq (mutex_unspin m s) (\<lambda>_ s. ret 0 s))
         else seq (join_waiters m (current_thread s) s) (\<lambda>_ s.
           seq (mutex_unspin m s) (\<lambda>_ s.
             seq (get_thread (current_thread s) s) (\<lambda>cur s.
               seq (acquire_mutex ThreadMutex s) (\<lambda>_ s.
                 seq (thread_block_locked (t_tid cur) s) (\<lambda>_ s.
                   acquire_mutex m s)))))))"

definition thread_block :: "u32 \<Rightarrow> 'r sched_state_scheme \<Rightarrow> (unit, 'r) sched_result" where
  "thread_block tid s = seq (acquire_mutex ThreadMutex s) (\<lambda>_ s. thread_block_locked tid s)"

section \<open>Mutexes as values\<close>

fun mutex_of :: "mutex_ref \<Rightarrow> 'r sched_state_scheme \<Rightarrow> mutex_t option" where
  "mutex_of NullMutex s = None"
| "mutex_of ThreadMutex s = Some (thread_mutex s)"
| "mutex_of ProcTableLock s = Some (process_table_lock s)"
| "mutex_of (ProcLock p) s = map_option p_lock (procs s p)"

fun set_mutex :: "mutex_ref \<Rightarrow> mutex_t \<Rightarrow> 'r sched_state_scheme \<Rightarrow> 'r sched_state_scheme" where
  "set_mutex NullMutex x s = s"
| "set_mutex ThreadMutex x s = s\<lparr>thread_mutex := x\<rparr>"
| "set_mutex ProcTableLock x s = s\<lparr>process_table_lock := x\<rparr>"
| "set_mutex (ProcLock p) x s = s\<lparr>procs := (procs s)(p := map_option (\<lambda>q. q\<lparr>p_lock := x\<rparr>) (procs s p))\<rparr>"

lemma get_mutex_simps [simp]:
  "mutex_of m s = Some x \<Longrightarrow> get_mutex m s = ret x s"
  "mutex_of m s = Some x \<Longrightarrow> put_mutex m f s = ret () (set_mutex m (f x) s)"
  by (cases m; auto)+

lemma set_mutex_simps [simp]:
  "mutex_of m s = Some x \<Longrightarrow> mutex_of m (set_mutex m y s) = Some y"
  "set_mutex m y (set_mutex m z s) = set_mutex m y s"
  "threads (set_mutex m y s) = threads s"
  "interrupt_flag (set_mutex m y s) = interrupt_flag s"
  "current_thread (set_mutex m y s) = current_thread s"
  "schedule_lock (set_mutex m y s) = schedule_lock s"
  "thread_table (set_mutex m y s) = thread_table s"
  "ready_queue (set_mutex m y s) = ready_queue s"
  "set_mutex m y (s\<lparr>interrupt_flag := b\<rparr>) = (set_mutex m y s)\<lparr>interrupt_flag := b\<rparr>"
  "mutex_of m (s\<lparr>interrupt_flag := b\<rparr>) = mutex_of m s"
  "mutex_of m (s\<lparr>threads := th\<rparr>) = mutex_of m s"
  by (cases m; auto simp: option.map_comp o_def ready_queue_def fun_eq_iff)+

lemma set_mutex_same [simp]: "mutex_of m s = Some x \<Longrightarrow> set_mutex m x s = s"
  by (cases m) (auto simp: fun_upd_idem)

lemma set_mutex_flag [simp]: "(set_mutex m y s)\<lparr>interrupt_flag := interrupt_flag s\<rparr> = set_mutex m y s"
  by (cases m) auto

lemma set_mutex_threads: "set_mutex m y (s\<lparr>threads := th\<rparr>) = (set_mutex m y s)\<lparr>threads := th\<rparr>"
  by (cases m) auto

lemma mutex_of_not_Null: "mutex_of m s = Some x \<Longrightarrow> m \<noteq> NullMutex"
  by auto

abbreviation quiet_lock :: "'r sched_state_scheme \<Rightarrow> spinlock_t" where
  "quiet_lock s \<equiv> \<lparr>lock_held = False, had_interrupt = interrupt_flag s\<rparr>"

abbreviation taken_lock :: "'r sched_state_scheme \<Rightarrow> spinlock_t" where
  "taken_lock s \<equiv> \<lparr>lock_held = True, had_interrupt = interrupt_flag s\<rparr>"

lemma mutex_spin_free [simp]:
  assumes "mutex_of m s = Some x" "\<not> lock_held (m_lock x)"
  shows "mutex_spin m s = ret () ((set_mutex m (x\<lparr>m_lock := taken_lock s\<rparr>) s)\<lparr>interrupt_flag := False\<rparr>)"
  using assms by (cases "m_lock x") (simp add: mutex_spin_def spinlock_defs)

lemma mutex_unspin_taken [simp]:
  assumes "mutex_of m s = Some x" "m_lock x = \<lparr>lock_held = True, had_interrupt = b\<rparr>" "\<not> interrupt_flag s"
  shows "mutex_unspin m s = ret () ((set_mutex m (x\<lparr>m_lock := \<lparr>lock_held = False, had_interrupt = b\<rparr>\<rparr>) s)\<lparr>interrupt_flag := b\<rparr>)"
proof (cases b)
  case False
  have "s = s\<lparr>interrupt_flag := False\<rparr>" using assms(3) by simp
  then show ?thesis using False assms by (simp add: mutex_unspin_def spinlock_defs)
qed (use assms in \<open>simp add: mutex_unspin_def spinlock_defs\<close>)

section \<open>Uncontended use\<close>

lemma acquire_mutex_free:
  assumes "mutex_of m s = Some x" "\<not> lock_held (m_lock x)" "\<not> m_locked x"
  shows "acquire_mutex m s =
    ret 0 (set_mutex m (x\<lparr>m_lock := quiet_lock s, m_locked := True, m_owner := current_thread s\<rparr>) s)"
  using assms by (subst acquire_mutex.simps) (cases x, simp)

lemma release_mutex_free:
  assumes "mutex_of m s = Some x" "\<not> lock_held (m_lock x)" "m_owner x = current_thread s" "m_waiter_head x = NULL"
  shows "release_mutex m s =
    ret () (set_mutex m (x\<lparr>m_lock := quiet_lock s, m_locked := False, m_owner := NULL\<rparr>) s)"
  using assms mutex_of_not_Null [OF assms(1)] by (cases x) (simp add: release_mutex_def)

lemma release_mutex_other:
  assumes "mutex_of m s = Some x" "\<not> lock_held (m_lock x)" "m_owner x \<noteq> current_thread s"
  shows "release_mutex m s = ret () (set_mutex m (x\<lparr>m_lock := quiet_lock s\<rparr>) s)"
  using assms mutex_of_not_Null [OF assms(1)] by (simp add: release_mutex_def)

text \<open>A free mutex, and what is left of it after a critical section.\<close>

definition idle_mutex :: "mutex_t \<Rightarrow> bool" where
  "idle_mutex x \<longleftrightarrow> \<not> lock_held (m_lock x) \<and> \<not> m_locked x \<and> m_owner x = NULL \<and> m_waiter_head x = NULL"

section \<open>The queue of waiters\<close>

definition wait_queue :: "mutex_ref \<Rightarrow> 'r sched_state_scheme \<Rightarrow> addr list \<Rightarrow> bool" where
  "wait_queue m s xs \<longleftrightarrow> (case mutex_of m s of
     None \<Rightarrow> False
   | Some x \<Rightarrow> linked (threads s) (m_waiter_head x) xs NULL \<and> distinct xs \<and>
       m_waiter_tail x = last (NULL # xs) \<and> m_waiter_count x = of_nat (length xs))"

lemma join_waiters_spec:
  assumes "wait_queue m s xs" "threads s t = Some c" "t \<noteq> NULL" "t \<notin> set xs"
  shows "\<exists>th x h n. mutex_of m s = Some x \<and>
    join_waiters m t s = ret () ((set_mutex m (x\<lparr>m_waiter_head := h, m_waiter_tail := t, m_waiter_count := n\<rparr>) s)\<lparr>threads := th\<rparr>) \<and>
    wait_queue m ((set_mutex m (x\<lparr>m_waiter_head := h, m_waiter_tail := t, m_waiter_count := n\<rparr>) s)\<lparr>threads := th\<rparr>) (xs @ [t]) \<and>
    (\<forall>y. y \<notin> set xs \<union> {t} \<longrightarrow> th y = threads s y) \<and> th t = Some (set_next NULL (set_state THREAD_BLOCKED c)) \<and>
    (\<forall>y \<noteq> t. map_option (set_next NULL) (th y) = map_option (set_next NULL) (threads s y))"
proof -
  let ?c = "set_next NULL (set_state THREAD_BLOCKED c)"
  let ?th = "(threads s)(t \<mapsto> ?c)"
  obtain x where x: "mutex_of m s = Some x" using assms(1) by (auto simp: wait_queue_def split: option.splits)
  have q: "linked (threads s) (m_waiter_head x) xs NULL" "distinct xs" "m_waiter_tail x = last (NULL # xs)"
    "m_waiter_count x = of_nat (length xs)" using assms(1) x by (simp_all add: wait_queue_def)
  have lq: "linked ?th (m_waiter_head x) xs NULL" using q(1) assms(4) by simp
  show ?thesis
  proof (cases xs rule: rev_cases)
    case Nil
    then show ?thesis
      using x q assms(2,3)
      by (intro exI [of _ ?th] exI [of _ x] exI [of _ t] exI [of _ 1])
        (cases x, simp add: join_waiters_def wait_queue_def set_mutex_threads)
  next
    case (snoc ys l)
    obtain lt where lt: "threads s l = Some lt" using linked_dom [OF q(1), of l] snoc by auto
    have l: "l \<noteq> NULL" "l \<noteq> t" "m_waiter_tail x = l" using linked_nonnull [OF q(1)] snoc assms(4) q(3) by auto
    let ?u = "?th(l \<mapsto> set_next t lt)"
    have "linked ?u (m_waiter_head x) (ys @ [l]) t"
      using linked_redirect [where th = ?th and l = l and t = lt and xs = ys and q = NULL and r = t] lq snoc q(2) lt l by auto
    then have "linked ?u (m_waiter_head x) ((ys @ [l]) @ [t]) NULL"
      using assms(3) l by (subst linked_append) auto
    then show ?thesis
      using x q assms(2,3,4) lt l snoc
      by (intro exI [of _ ?u] exI [of _ x] exI [of _ "m_waiter_head x"] exI [of _ "m_waiter_count x + 1"])
        (cases x, auto simp: join_waiters_def wait_queue_def set_mutex_threads)
  qed
qed

lemma take_waiter_spec:
  assumes "wait_queue m s (t # xs)"
  shows "\<exists>x n. mutex_of m s = Some x \<and> threads s t = Some n \<and> m_waiter_head x = t \<and> t \<noteq> NULL \<and>
    (let u = set_mutex m (x\<lparr>m_waiter_head := t_next n, m_waiter_tail := last (NULL # xs), m_waiter_count := of_nat (length xs)\<rparr>) s
     in take_waiter m s = ret t u \<and> wait_queue m u xs)"
proof -
  obtain x where x: "mutex_of m s = Some x" using assms by (auto simp: wait_queue_def split: option.splits)
  obtain n where n: "m_waiter_head x = t" "t \<noteq> NULL" "threads s t = Some n" "linked (threads s) (t_next n) xs NULL"
    "distinct xs" "m_waiter_tail x = last (t # xs)" "m_waiter_count x = 1 + of_nat (length xs)"
    using assms x by (auto simp: wait_queue_def)
  have "xs = [] \<longleftrightarrow> t_next n = NULL" using n(4) by (cases xs) auto
  then show ?thesis
    using x n by (intro exI [of _ x] exI [of _ n]) (auto simp: take_waiter_def wait_queue_def Let_def)
qed

interpretation mq: fifo_queue "wait_queue m" live_thread "join_waiters m" "take_waiter m" for m
proof unfold_locales
  fix s :: "'r sched_state_scheme" and xs t
  assume q: "wait_queue m s xs" and l: "live_thread s t" and n: "t \<notin> set xs"
  obtain c where c: "threads s t = Some c" "t \<noteq> NULL" using l by (auto simp: live_thread_def)
  obtain th x h k where j: "join_waiters m t s = ret () ((set_mutex m (x\<lparr>m_waiter_head := h, m_waiter_tail := t, m_waiter_count := k\<rparr>) s)\<lparr>threads := th\<rparr>)"
    "wait_queue m ((set_mutex m (x\<lparr>m_waiter_head := h, m_waiter_tail := t, m_waiter_count := k\<rparr>) s)\<lparr>threads := th\<rparr>) (xs @ [t])"
    "th t = Some (set_next NULL (set_state THREAD_BLOCKED c))"
    "\<forall>y \<noteq> t. map_option (set_next NULL) (th y) = map_option (set_next NULL) (threads s y)"
    using join_waiters_spec [OF q c n] by blast
  have "live_thread (s\<lparr>threads := th\<rparr>) y = live_thread s y" for y
    using j(3,4) c by (cases "y = t"; cases "th y"; cases "threads s y") (auto simp: live_thread_def)
  then show "\<exists>u. join_waiters m t s = ret () u \<and> wait_queue m u (xs @ [t]) \<and> live_thread u = live_thread s"
    using j(1,2) by (auto simp: live_thread_def fun_eq_iff)
next
  fix s :: "'r sched_state_scheme" and t xs
  assume "wait_queue m s (t # xs)"
  from take_waiter_spec [OF this]
  show "\<exists>u. take_waiter m s = ret t u \<and> wait_queue m u xs \<and> live_thread u = live_thread s"
    by (auto simp: live_thread_def fun_eq_iff Let_def)
qed

end
