(* ===== verification/Thread.thy ===== *)
theory Thread
  imports Mutex Gdt
begin

text \<open>
  Threads (\<open>scheduling/thread.c\<close>) and the operations of \<open>scheduling/process.c\<close> they call: looking a process up, attaching a
  thread to it and detaching it, and waking the threads that wait for it.

  \<open>thread_block\<close> and \<open>thread_exit\<close> leave the thread for good: they end in \<open>Yielded\<close>, or in \<open>Halted\<close> where the code gives
  up.  The entry function of a thread is its address.
\<close>

section \<open>Lookup and membership of a process\<close>

definition set_proc :: "addr \<Rightarrow> thread \<Rightarrow> thread" where
  "set_proc p t = t\<lparr>t_proc := p\<rparr>"

fun find_pid :: "int \<Rightarrow> addr list \<Rightarrow> 'r sched_state_scheme \<Rightarrow> (addr, 'r) sched_result" where
  "find_pid pid [] s = ret NULL s"
| "find_pid pid (p # ps) s =
     (if p = NULL then find_pid pid ps s
      else seq (get_proc p s) (\<lambda>q s. if p_pid q = pid then ret p s else find_pid pid ps s))"

definition process_from_pid :: "int \<Rightarrow> 'r sched_state_scheme \<Rightarrow> (addr, 'r) sched_result" where
  "process_from_pid pid s =
     (if pid < 0 then ret NULL s
      else seq (acquire_mutex ProcTableLock s) (\<lambda>_ s.
        seq (find_pid pid (take MAX_PROCS (process_table s)) s) (\<lambda>res s.
          seq (release_mutex ProcTableLock s) (\<lambda>_ s. ret res s))))"

definition process_add_thread :: "addr \<Rightarrow> addr \<Rightarrow> 'r sched_state_scheme \<Rightarrow> (int, 'r) sched_result" where
  "process_add_thread p t s =
     (if p = NULL \<or> t = NULL then ret (- EINVAL) s
      else seq (acquire_mutex (ProcLock p) s) (\<lambda>_ s.
        seq (get_proc p s) (\<lambda>q s.
          seq (put_thread t (\<lambda>th. th\<lparr>t_o_pid := word_of_int (p_pid q)\<rparr>) s) (\<lambda>_ s.
            seq (put_thread t (set_proc p) s) (\<lambda>_ s.
              seq (if p_main_thread q = NULL then put_proc p (\<lambda>q. q\<lparr>p_main_thread := t\<rparr>) s else ret () s) (\<lambda>_ s.
                seq (release_mutex (ProcLock p) s) (\<lambda>_ s. ret 0 s)))))))"

definition process_remove_thread :: "addr \<Rightarrow> addr \<Rightarrow> 'r sched_state_scheme \<Rightarrow> (int, 'r) sched_result" where
  "process_remove_thread p t s =
     (if p = NULL \<or> t = NULL then ret (- EINVAL) s
      else seq (acquire_mutex (ProcLock p) s) (\<lambda>_ s.
        seq (get_proc p s) (\<lambda>q s.
          seq (if p_main_thread q = t then put_proc p (\<lambda>q. q\<lparr>p_main_thread := NULL\<rparr>) s else ret () s) (\<lambda>_ s.
            seq (release_mutex (ProcLock p) s) (\<lambda>_ s. ret 0 s)))))"

section \<open>Creating a thread\<close>

text \<open>The part of the structure set before the stacks are allocated.\<close>

definition fresh_thread :: "u32 \<Rightarrow> thread_privilege \<Rightarrow> thread_priority \<Rightarrow> u32 \<Rightarrow> thread" where
  "fresh_thread tid privilege priority owner_pid =
     zero_thread\<lparr>t_tid := tid, t_o_pid := owner_pid, t_state := THREAD_READY, t_privilege := privilege,
       t_priority := priority, t_stack_size := TSTACK_SIZE, t_next := NULL\<rparr>"

definition initial_context :: "u64 \<Rightarrow> u32 \<Rightarrow> addr \<Rightarrow> thread_privilege \<Rightarrow> thread \<Rightarrow> context_t" where
  "initial_context function argc argv privilege t =
     zero_context\<lparr>ctx_rip := function, ctx_rsp := t_stack_base t + t_stack_size t - 8,
       ctx_rdi := scast argc, ctx_rsi := argv, ctx_rflags := 0x202,
       ctx_cs := (if privilege = THREAD_RING_3 then ucast USER_CODE64 else ucast KERNEL_CODE64),
       ctx_ss := (if privilege = THREAD_RING_3 then ucast USER_DATA64 else ucast KERNEL_DATA64)\<rparr>"

definition free_nonnull :: "u64 \<Rightarrow> 'r sched_state_scheme \<Rightarrow> (unit, 'r) sched_result" where
  "free_nonnull p s = (if p \<noteq> 0 then free_block p s else ret () s)"

text \<open>Allocating the stacks; the result says whether all of them could be had.\<close>

definition alloc_stacks :: "addr \<Rightarrow> thread_privilege \<Rightarrow> 'r sched_state_scheme \<Rightarrow> (bool, 'r) sched_result" where
  "alloc_stacks t privilege s =
     (if privilege = THREAD_RING_3
      then seq (call (kmalloc TSTACK_SIZE s)) (\<lambda>stack s.
        seq (put_thread t (\<lambda>th. th\<lparr>t_stack_base := stack\<rparr>) s) (\<lambda>_ s.
          seq (call (kmalloc KSTACK_SIZE s)) (\<lambda>kstack s.
            seq (put_thread t (\<lambda>th. th\<lparr>t_kernel_stack := kstack\<rparr>) s) (\<lambda>_ s.
              if stack = 0 \<or> kstack = 0
              then seq (free_nonnull stack s) (\<lambda>_ s.
                seq (free_nonnull kstack s) (\<lambda>_ s.
                  seq (free_thread t s) (\<lambda>_ s. ret False s)))
              else ret True s))))
      else seq (call (kmalloc TSTACK_SIZE s)) (\<lambda>stack s.
        seq (put_thread t (\<lambda>th. th\<lparr>t_stack_base := stack, t_kernel_stack := 0\<rparr>) s) (\<lambda>_ s.
          if stack = 0 then seq (free_thread t s) (\<lambda>_ s. ret False s) else ret True s)))"

text \<open>Attaching the thread to its process; both branches of the source do the same for \<open>owner_pid\<close> and for 0.\<close>

definition attach_owner :: "u32 \<Rightarrow> addr \<Rightarrow> 'r sched_state_scheme \<Rightarrow> (unit, 'r) sched_result" where
  "attach_owner owner_pid t s =
     seq (put_thread t (set_proc NULL) s) (\<lambda>_ s.
       seq (process_from_pid (uint owner_pid) s) (\<lambda>owner s.
         if owner \<noteq> NULL
         then seq (process_add_thread owner t s) (\<lambda>_ s. put_thread t (set_proc owner) s)
         else ret () s))"

definition free_slot :: "addr list \<Rightarrow> nat option" where
  "free_slot table = find (\<lambda>i. table ! i = NULL) [1..<MAX_THREADS]"

definition free_stacks :: "addr \<Rightarrow> thread_privilege \<Rightarrow> 'r sched_state_scheme \<Rightarrow> (unit, 'r) sched_result" where
  "free_stacks t privilege s =
     seq (get_thread t s) (\<lambda>th s.
       seq (free_block (t_stack_base th) s) (\<lambda>_ s.
         if privilege = THREAD_RING_3 then free_block (t_kernel_stack th) s else ret () s))"

text \<open>Linking at the tail under the lock; \<open>thread_unblock\<close> repeats these lines.\<close>

definition link_ready :: "addr \<Rightarrow> 'r sched_state_scheme \<Rightarrow> (unit, 'r) sched_result" where
  "link_ready t s =
     seq (lock_schedule_spin s) (\<lambda>_ s. seq (link_tail t s) (\<lambda>_ s. unlock_schedule_spin s))"

definition unlock_fail :: "'r sched_state_scheme \<Rightarrow> (addr, 'r) sched_result" where
  "unlock_fail s = seq (release_mutex ThreadMutex s) (\<lambda>_ s. ret NULL s)"

definition thread_create ::
  "u64 \<Rightarrow> u32 \<Rightarrow> addr \<Rightarrow> thread_privilege \<Rightarrow> thread_priority \<Rightarrow> u32 \<Rightarrow> 'r sched_state_scheme \<Rightarrow> (addr, 'r) sched_result" where
  "thread_create function argc argv privilege priority owner_pid s =
     (if function = 0 then ret NULL s
      else seq (acquire_mutex ThreadMutex s) (\<lambda>_ s.
        if of_nat MAX_THREADS \<le> thread_count s then unlock_fail s
        else seq (call (kmalloc sizeof_thread s)) (\<lambda>t s.
          if t = NULL then unlock_fail s
          else
            let s = s\<lparr>threads := (threads s)(t \<mapsto> fresh_thread (next_tid s) privilege priority owner_pid),
                      next_tid := next_tid s + 1\<rparr>
            in seq (alloc_stacks t privilege s) (\<lambda>ok s.
              if \<not> ok then unlock_fail s
              else seq (put_thread t (\<lambda>th. th\<lparr>t_context := initial_context function argc argv privilege th\<rparr>) s) (\<lambda>_ s.
                seq (attach_owner owner_pid t s) (\<lambda>_ s.
                  case free_slot (thread_table s) of
                    None \<Rightarrow> seq (free_stacks t privilege s) (\<lambda>_ s.
                      seq (free_thread t s) (\<lambda>_ s. unlock_fail s))
                  | Some i \<Rightarrow>
                      let s = s\<lparr>thread_table := (thread_table s)[i := t], thread_count := thread_count s + 1\<rparr>
                      in seq (release_mutex ThreadMutex s) (\<lambda>_ s.
                        seq (link_ready t s) (\<lambda>_ s. ret t s))))))))"

section \<open>Unblocking, exit and termination\<close>

definition thread_unblock :: "u32 \<Rightarrow> 'r sched_state_scheme \<Rightarrow> (int, 'r) sched_result" where
  "thread_unblock tid s =
     seq (acquire_mutex ThreadMutex s) (\<lambda>_ s.
       seq (thread_from_tid tid s) (\<lambda>t s.
         seq (release_mutex ThreadMutex s) (\<lambda>_ s.
           if t = NULL then ret (- ESRCH) s
           else seq (get_thread t s) (\<lambda>th s.
             if t_state th \<noteq> THREAD_BLOCKED then ret (- EINVAL) s
             else seq (put_thread t (set_state THREAD_READY) s) (\<lambda>_ s.
               seq (put_thread t (set_next NULL) s) (\<lambda>_ s.
                 seq (link_ready t s) (\<lambda>_ s. ret 0 s)))))))"

partial_function (option) wake_loop :: "addr \<Rightarrow> 'r sched_state_scheme \<Rightarrow> (unit, 'r) sched_result" where
  "wake_loop cur s =
     (if cur = NULL then ret () s
      else seq (get_thread cur s) (\<lambda>c s.
        seq (thread_unblock (t_tid c) s) (\<lambda>_ s.
          seq (get_thread cur s) (\<lambda>c s. wake_loop (t_next c) s))))"

definition wake_waiters :: "addr \<Rightarrow> 'r sched_state_scheme \<Rightarrow> (unit, 'r) sched_result" where
  "wake_waiters p s =
     (if p = NULL then ret () s
      else seq (acquire_mutex (ProcLock p) s) (\<lambda>_ s.
        seq (get_proc p s) (\<lambda>q s.
          seq (wake_loop (p_wait_head q) s) (\<lambda>_ s.
            seq (put_proc p (\<lambda>q. q\<lparr>p_wait_head := NULL, p_wait_tail := NULL\<rparr>) s) (\<lambda>_ s.
              release_mutex (ProcLock p) s)))))"

definition thread_exit :: "'r sched_state_scheme \<Rightarrow> (unit, 'r) sched_result" where
  "thread_exit s =
     (let current = current_thread s in
      if current = NULL then sched_hcf s
      else seq (get_thread current s) (\<lambda>th s.
        if t_tid th = 0 then sched_hcf s
        else seq (if t_proc th \<noteq> NULL
             then seq (acquire_mutex (ProcLock (t_proc th)) s) (\<lambda>_ s.
               seq (get_proc (t_proc th) s) (\<lambda>q s.
                 if p_main_thread q = current
                 then seq (put_proc (t_proc th) (\<lambda>q. q\<lparr>p_exit_code := 0, p_state := PROC_ZOMBIE\<rparr>) s) (\<lambda>_ s.
                   seq (release_mutex (ProcLock (t_proc th)) s) (\<lambda>_ s. wake_waiters (t_proc th) s))
                 else release_mutex (ProcLock (t_proc th)) s))
             else ret () s) (\<lambda>_ s.
          seq (acquire_mutex ThreadMutex s) (\<lambda>_ s.
            seq (put_thread current (set_state THREAD_TERMED) s) (\<lambda>_ s.
              seq (release_mutex ThreadMutex s) (\<lambda>_ s. int_0x20 (s\<lparr>current_thread := NULL\<rparr>)))))))"

definition thread_terminate :: "u32 \<Rightarrow> 'r sched_state_scheme \<Rightarrow> (int, 'r) sched_result" where
  "thread_terminate tid s =
     (if tid = 0 then ret (- EPERM) s
      else seq (acquire_mutex ThreadMutex s) (\<lambda>_ s.
        seq (thread_from_tid tid s) (\<lambda>t s.
          if t = NULL then seq (release_mutex ThreadMutex s) (\<lambda>_ s. ret (- ESRCH) s)
          else if t = current_thread s
          then seq (release_mutex ThreadMutex s) (\<lambda>_ s. seq (thread_exit s) (\<lambda>_ s. ret 0 s))
          else seq (put_thread t (set_state THREAD_TERMED) s) (\<lambda>_ s.
            seq (get_thread t s) (\<lambda>th s.
              seq (if t_proc th \<noteq> NULL then seq (process_remove_thread (t_proc th) t s) (\<lambda>_ s. ret () s) else ret () s) (\<lambda>_ s.
                seq (put_thread t (set_next NULL) s) (\<lambda>_ s.
                  seq (release_mutex ThreadMutex s) (\<lambda>_ s.
                    seq (remove_from_ready_queue t s) (\<lambda>_ s. ret 0 s)))))))))"

section \<open>Collecting terminated threads\<close>

definition reap_thread :: "nat \<Rightarrow> addr \<Rightarrow> thread \<Rightarrow> 'r sched_state_scheme \<Rightarrow> (unit, 'r) sched_result" where
  "reap_thread i t th s =
     seq (remove_from_ready_queue t s) (\<lambda>_ s.
       seq (free_nonnull (t_stack_base th) s) (\<lambda>_ s.
         seq (if t_privilege th = THREAD_RING_3 then free_nonnull (t_kernel_stack th) s else ret () s) (\<lambda>_ s.
           seq (if t_proc th \<noteq> NULL then seq (process_remove_thread (t_proc th) t s) (\<lambda>_ s. ret () s) else ret () s) (\<lambda>_ s.
             seq (free_thread t s) (\<lambda>_ s.
               ret () (s\<lparr>thread_table := (thread_table s)[i := NULL], thread_count := thread_count s - 1\<rparr>))))))"

fun clean_slots :: "nat list \<Rightarrow> 'r sched_state_scheme \<Rightarrow> (unit, 'r) sched_result" where
  "clean_slots [] s = ret () s"
| "clean_slots (i # is) s =
     (let t = thread_table s ! i in
      if t = NULL then clean_slots is s
      else seq (get_thread t s) (\<lambda>th s.
        seq (if t_state th = THREAD_TERMED then reap_thread i t th s else ret () s) (\<lambda>_ s. clean_slots is s)))"

definition clean_up :: "'r sched_state_scheme \<Rightarrow> (unit, 'r) sched_result" where
  "clean_up s =
     seq (acquire_mutex ThreadMutex s) (\<lambda>_ s.
       seq (clean_slots [0..<MAX_THREADS] s) (\<lambda>_ s. release_mutex ThreadMutex s))"

section \<open>Initialisation\<close>

definition init_threading :: "u64 \<Rightarrow> 'r sched_state_scheme \<Rightarrow> (unit, 'r) sched_result" where
  "init_threading idle_task s =
     (let s = kprint ''Threading...'' s;
          s = s\<lparr>thread_table := replicate MAX_THREADS NULL\<rparr>
      in seq (init_mutex ThreadMutex s) (\<lambda>_ s.
        let s = s\<lparr>schedule_lock := spinlock_init (schedule_lock s)\<rparr>
        in seq (call (kmalloc sizeof_thread s)) (\<lambda>k s.
          if k = NULL then stop Fault s
          else
            let s = s\<lparr>threads := (threads s)(k \<mapsto> zero_thread\<lparr>t_tid := 0, t_state := THREAD_RUNNING,
                     t_privilege := THREAD_RING_0, t_priority := THREAD_PRIO_IMMEDIATE, t_next := NULL\<rparr>)\<rparr>
            in seq (process_from_pid 0 s) (\<lambda>kp s.
              seq (put_thread k (\<lambda>th. th\<lparr>t_o_pid := 0, t_proc := kp\<rparr>) s) (\<lambda>_ s.
                seq (if kp \<noteq> NULL then seq (process_add_thread kp k s) (\<lambda>_ s. ret () s) else ret () s) (\<lambda>_ s.
                  let s = s\<lparr>current_thread := k, thread_table := (thread_table s)[0 := k], thread_count := 1, next_tid := 1\<rparr>
                  in seq (thread_create idle_task 0 NULL THREAD_RING_0 THREAD_PRIO_LOW 0 s) (\<lambda>idle s.
                    if idle = NULL then sched_hcf (kerror ''Failed to create idle thread'' s)
                    else ret () (kok s))))))))"

end
