(* ===== verification/Process.thy ===== *)
theory Process
  imports Thread
begin

text \<open>
  Processes (\<open>scheduling/process.c\<close>): the process table, creation, exit, termination and waiting.

  A pointer argument \<open>int *exit_code\<close> is modelled by whether it is given; what is stored through it is part of
  the result.
\<close>

section \<open>Operations\<close>

definition find_free_slot :: "addr list \<Rightarrow> int" where
  "find_free_slot table =
     (case find (\<lambda>i. table ! i = NULL) [0..<MAX_PROCS] of None \<Rightarrow> - 1 | Some i \<Rightarrow> int i)"

text \<open>Forgetting a child: by its index when the caller asked for one process, else wherever the table has it.\<close>

definition process_cleanup ::
  "addr \<Rightarrow> nat \<Rightarrow> int \<Rightarrow> bool \<Rightarrow> int \<Rightarrow> 'r sched_state_scheme \<Rightarrow> (int option, 'r) sched_result" where
  "process_cleanup child index pid exit_code code s =
     seq (acquire_mutex ProcTableLock s) (\<lambda>_ s.
       let s = s\<lparr>process_table :=
                 (if pid \<noteq> - 1 then (process_table s)[index := NULL]
                  else map (\<lambda>p. if p = child then NULL else p) (process_table s))\<rparr>
       in seq (release_mutex ProcTableLock s) (\<lambda>_ s.
         seq (get_proc child s) (\<lambda>q s.
           seq (free_nonnull (p_address_space q) s) (\<lambda>_ s.
             seq (free_proc child s) (\<lambda>_ s. ret (if exit_code then Some code else None) s)))))"

text \<open>\<open>p->address_space = is_userspace ? create_address_space() : 0\<close>\<close>

definition new_address_space :: "bool \<Rightarrow> 'r sched_state_scheme \<Rightarrow> (u64, 'r) sched_result" where
  "new_address_space is_userspace s = (if is_userspace then call (create_address_space s) else ret 0 s)"

definition process_create ::
  "u64 \<Rightarrow> u32 \<Rightarrow> addr \<Rightarrow> int \<Rightarrow> bool \<Rightarrow> 'r sched_state_scheme \<Rightarrow> (addr, 'r) sched_result" where
  "process_create entry argc argv ppid is_userspace s =
     seq (acquire_mutex ProcTableLock s) (\<lambda>_ s.
       let slot = find_free_slot (process_table s) in
       if slot < 0 then seq (release_mutex ProcTableLock s) (\<lambda>_ s. ret NULL s)
       else seq (call (kmalloc sizeof_process s)) (\<lambda>p s.
         if p = NULL then seq (release_mutex ProcTableLock s) (\<lambda>_ s. ret NULL s)
         else
           let s = s\<lparr>procs := (procs s)(p \<mapsto> zero_process\<lparr>p_ppid := ppid, p_state := PROC_READY, p_umask := 2 * 8 + 2\<rparr>)\<rparr>
           in seq (init_mutex (ProcLock p) s) (\<lambda>_ s.
             seq (new_address_space is_userspace s) (\<lambda>space s.
               seq (put_proc p (\<lambda>q. q\<lparr>p_address_space := space, p_exit_code := 0, p_pid := next_pid s\<rparr>) s) (\<lambda>_ s.
                 let s = s\<lparr>next_pid := next_pid s + 1\<rparr>
                 in seq (release_mutex ProcTableLock s) (\<lambda>_ s.
                   seq (put_proc p (\<lambda>q. q\<lparr>p_fds := map (\<lambda>f. f\<lparr>fd_node := NULL\<rparr>) (p_fds q)\<rparr>) s) (\<lambda>_ s.
                     if entry = 0 then ret p s
                     else seq (get_proc p s) (\<lambda>q s.
                       seq (thread_create entry argc argv (if is_userspace then THREAD_RING_3 else THREAD_RING_0)
                              THREAD_PRIO_NORMAL (word_of_int (p_pid q)) s) (\<lambda>t s.
                         if t = NULL
                         then seq (acquire_mutex ProcTableLock s) (\<lambda>_ s.
                           let s = s\<lparr>process_table := (process_table s)[nat slot := NULL]\<rparr>
                           in seq (release_mutex ProcTableLock s) (\<lambda>_ s.
                             seq (free_nonnull (p_address_space q) s) (\<lambda>_ s.
                               seq (free_proc p s) (\<lambda>_ s. ret NULL s))))
                         else seq (put_proc p (\<lambda>q. q\<lparr>p_main_thread := t\<rparr>) s) (\<lambda>_ s. ret p s))))))))))"

definition process_exit :: "int \<Rightarrow> 'r sched_state_scheme \<Rightarrow> (unit, 'r) sched_result" where
  "process_exit code s =
     (let self = current_thread s in
      if self = NULL then sched_hcf s
      else seq (get_thread self s) (\<lambda>th s.
        seq (process_from_pid (uint (t_o_pid th)) s) (\<lambda>p s.
          if p = NULL then sched_hcf s
          else seq (acquire_mutex (ProcLock p) s) (\<lambda>_ s.
            seq (put_proc p (\<lambda>q. q\<lparr>p_exit_code := code, p_state := PROC_ZOMBIE\<rparr>) s) (\<lambda>_ s.
              seq (release_mutex (ProcLock p) s) (\<lambda>_ s.
                seq (wake_waiters p s) (\<lambda>_ s. thread_exit s)))))))"

definition process_terminate :: "int \<Rightarrow> 'r sched_state_scheme \<Rightarrow> (int, 'r) sched_result" where
  "process_terminate pid s =
     (if pid = 0 then ret (- EPERM) s
      else seq (process_from_pid pid s) (\<lambda>p s.
        if p = NULL then ret (- ESRCH) s
        else seq (acquire_mutex (ProcLock p) s) (\<lambda>_ s.
          seq (put_proc p (\<lambda>q. q\<lparr>p_state := PROC_ZOMBIE\<rparr>) s) (\<lambda>_ s.
            seq (get_proc p s) (\<lambda>q s.
              seq (if p_main_thread q \<noteq> NULL
                   then seq (get_thread (p_main_thread q) s) (\<lambda>th s.
                     seq (thread_terminate (t_tid th) s) (\<lambda>_ s. ret () s))
                   else ret () s) (\<lambda>_ s.
                seq (release_mutex (ProcLock p) s) (\<lambda>_ s. ret 0 s)))))))"

text \<open>The search of \<open>process_wait\<close>: the first process of the table that is a child of the caller and, unless any will
  do, has the wanted process ID, with its index.\<close>

fun find_child :: "int \<Rightarrow> int \<Rightarrow> nat \<Rightarrow> addr list \<Rightarrow> 'r sched_state_scheme \<Rightarrow> (addr \<times> nat, 'r) sched_result" where
  "find_child cur_pid pid i [] s = ret (NULL, i) s"
| "find_child cur_pid pid i (p # ps) s =
     (if p = NULL then find_child cur_pid pid (Suc i) ps s
      else seq (get_proc p s) (\<lambda>q s.
        if p_ppid q \<noteq> cur_pid then find_child cur_pid pid (Suc i) ps s
        else if pid \<noteq> - 1 \<and> p_pid q \<noteq> pid then find_child cur_pid pid (Suc i) ps s
        else ret (p, i) s))"

definition process_wait :: "int \<Rightarrow> bool \<Rightarrow> 'r sched_state_scheme \<Rightarrow> (int \<times> int option, 'r) sched_result" where
  "process_wait pid exit_code s =
     (let cur = current_thread s in
      if cur = NULL then ret (- EINVAL, None) s
      else seq (get_thread cur s) (\<lambda>th s.
        seq (acquire_mutex ProcTableLock s) (\<lambda>_ s.
          seq (find_child (uint (t_o_pid th)) pid 0 (take MAX_PROCS (process_table s)) s) (\<lambda>(child, index) s.
            seq (release_mutex ProcTableLock s) (\<lambda>_ s.
              if child = NULL then ret (- ECHILD, None) s
              else seq (acquire_mutex (ProcLock child) s) (\<lambda>_ s.
                seq (get_proc child s) (\<lambda>q s.
                  if p_state q = PROC_ZOMBIE \<or> p_state q = PROC_EXITED
                  then seq (put_proc child (\<lambda>q. q\<lparr>p_state := PROC_EXITED\<rparr>) s) (\<lambda>_ s.
                    seq (release_mutex (ProcLock child) s) (\<lambda>_ s.
                      seq (process_cleanup child index pid exit_code (p_exit_code q) s) (\<lambda>out s. ret (0, out) s)))
                  else seq (put_thread cur (set_next NULL) s) (\<lambda>_ s.
                    seq (if p_wait_head q = NULL
                         then put_proc child (\<lambda>q. q\<lparr>p_wait_head := cur, p_wait_tail := cur\<rparr>) s
                         else seq (put_thread (p_wait_tail q) (set_next cur) s) (\<lambda>_ s.
                           put_proc child (\<lambda>q. q\<lparr>p_wait_tail := cur\<rparr>) s)) (\<lambda>_ s.
                      seq (thread_block (t_tid th) s) (\<lambda>_ s.
                        seq (acquire_mutex (ProcLock child) s) (\<lambda>_ s.
                          seq (get_proc child s) (\<lambda>q s.
                            seq (put_proc child (\<lambda>q. q\<lparr>p_state := PROC_EXITED\<rparr>) s) (\<lambda>_ s.
                              seq (release_mutex (ProcLock child) s) (\<lambda>_ s.
                                seq (process_cleanup child index pid exit_code (p_exit_code q) s) (\<lambda>out s. ret (0, out) s)))))))))))))))"

definition init_processes :: "'r sched_state_scheme \<Rightarrow> (unit, 'r) sched_result" where
  "init_processes s =
     (let s = kprint ''Processes...'' s
      in seq (init_mutex ProcTableLock s) (\<lambda>_ s.
        let s = s\<lparr>process_table := replicate MAX_PROCS NULL\<rparr>
        in seq (call (kmalloc sizeof_process s)) (\<lambda>k s.
          if k = NULL then stop Fault s
          else
            let s = s\<lparr>procs := (procs s)(k \<mapsto> zero_process\<lparr>p_pid := 0, p_ppid := 0, p_state := PROC_RUNNING, p_address_space := 0\<rparr>)\<rparr>
            in seq (init_mutex (ProcLock k) s) (\<lambda>_ s.
              seq (acquire_mutex ProcTableLock s) (\<lambda>_ s.
                let s = s\<lparr>process_table := (process_table s)[0 := k]\<rparr>
                in seq (release_mutex ProcTableLock s) (\<lambda>_ s. ret () (kok s)))))))"

end
