(* ===== verification/Scheduler.thy ===== *)
theory Scheduler
  imports Process Timer Ps2 Pic
begin

text \<open>
  \<open>scheduler_tick\<close> of \<open>scheduling/scheduler.c\<close>, the context switch of \<open>scheduling/context_switch.asm\<close> and the interrupt
  dispatcher of \<open>cpu/irq/irq.c\<close> that calls it.

  The interrupt frame the stubs pushed is passed in and handed back: the processor resumes from it.
\<close>

section \<open>Switching contexts\<close>

text \<open>Into kernel mode all 22 words are copied.  Into user mode the interrupt number and error code of the frame stay, the
  selectors are constants and interrupts are forced on.\<close>

definition context_switch :: "context_t \<Rightarrow> context_t \<Rightarrow> bool \<Rightarrow> context_t" where
  "context_switch old_ctx new_ctx is_ring_3 =
     (if \<not> is_ring_3 then new_ctx
      else new_ctx\<lparr>ctx_int_no := ctx_int_no old_ctx, ctx_err_code := ctx_err_code old_ctx,
                   ctx_cs := ucast USER_CODE64, ctx_rflags := ctx_rflags new_ctx OR 0x200, ctx_ss := ucast USER_DATA64\<rparr>)"

section \<open>The scheduler\<close>

definition set_cooldown :: "int \<Rightarrow> thread \<Rightarrow> thread" where
  "set_cooldown c t = t\<lparr>t_cooldown := c\<rparr>"

definition requeue :: "addr \<Rightarrow> 'r sched_state_scheme \<Rightarrow> (unit, 'r) sched_result" where
  "requeue t s =
     seq (lock_schedule_spin s) (\<lambda>_ s. seq (enqueue_ready_tail t s) (\<lambda>_ s. unlock_schedule_spin s))"

text \<open>Taking the lock around a function that takes it again.\<close>

definition unqueue :: "addr \<Rightarrow> 'r sched_state_scheme \<Rightarrow> (unit, 'r) sched_result" where
  "unqueue t s =
     seq (lock_schedule_spin s) (\<lambda>_ s. seq (remove_from_ready_queue t s) (\<lambda>_ s. unlock_schedule_spin s))"

text \<open>What happens to the interrupted thread.\<close>

definition retire_old :: "addr \<Rightarrow> 'r sched_state_scheme \<Rightarrow> (unit, 'r) sched_result" where
  "retire_old old s =
     seq (get_thread old s) (\<lambda>th s.
       case t_state th of
         THREAD_RUNNING \<Rightarrow> seq (put_thread old (set_state THREAD_READY) s) (\<lambda>_ s. requeue old s)
       | THREAD_BLOCKED \<Rightarrow> seq (unqueue old s) (\<lambda>_ s. ret () (s\<lparr>current_thread := NULL\<rparr>))
       | THREAD_TERMED \<Rightarrow> seq (unqueue old s) (\<lambda>_ s. ret () (s\<lparr>current_thread := NULL\<rparr>))
       | THREAD_READY \<Rightarrow> seq (put_thread old (set_state THREAD_READY) s) (\<lambda>_ s. requeue old s))"

text \<open>Dequeuing, dropping the threads of zombie processes.\<close>

partial_function (option) dequeue_live :: "'r sched_state_scheme \<Rightarrow> (addr, 'r) sched_result" where
  "dequeue_live s =
     seq (dequeue_ready_head s) (\<lambda>next s.
       if next = NULL then ret NULL s
       else seq (get_thread next s) (\<lambda>n s.
         if t_proc n = NULL then ret next s
         else seq (get_proc (t_proc n) s) (\<lambda>q s.
           if p_state q \<noteq> PROC_ZOMBIE then ret next s else dequeue_live s)))"

fun scan_ready :: "addr list \<Rightarrow> 'r sched_state_scheme \<Rightarrow> (addr, 'r) sched_result" where
  "scan_ready [] s = ret NULL s"
| "scan_ready (t # ts) s =
     (if t = NULL then scan_ready ts s
      else seq (get_thread t s) (\<lambda>th s. if t_state th = THREAD_READY then ret t s else scan_ready ts s))"

text \<open>The three sources a thread is taken from: the ready queue, the thread table, the kernel thread.\<close>

definition next_thread :: "'r sched_state_scheme \<Rightarrow> (addr, 'r) sched_result" where
  "next_thread s =
     seq (lock_schedule_spin s) (\<lambda>_ s.
       seq (dequeue_live s) (\<lambda>next s.
         seq (unlock_schedule_spin s) (\<lambda>_ s.
           seq (if next = NULL
                then seq (acquire_mutex ThreadMutex s) (\<lambda>_ s.
                  seq (scan_ready (drop 1 (take MAX_THREADS (thread_table s))) s) (\<lambda>next s.
                    seq (release_mutex ThreadMutex s) (\<lambda>_ s. ret next s)))
                else ret next s) (\<lambda>next s.
             if next = NULL
             then let t = thread_table s ! 0 in
               if t = NULL then ret NULL s
               else seq (get_thread t s) (\<lambda>th s. ret (if t_state th \<noteq> THREAD_TERMED then t else NULL) s)
             else ret next s))))"

definition dispatch :: "context_t \<Rightarrow> addr \<Rightarrow> 'r sched_state_scheme \<Rightarrow> (context_t, 'r) sched_result" where
  "dispatch ctx next s =
     (let s = s\<lparr>current_thread := next\<rparr>
      in seq (put_thread next (set_state THREAD_RUNNING) s) (\<lambda>_ s.
        seq (get_thread next s) (\<lambda>n s.
          let s = (if t_privilege n = THREAD_RING_3 then s\<lparr>tss_rsp0 := t_kernel_stack n + KSTACK_SIZE - 8\<rparr> else s)
          in seq (unlock_schedule_spin s) (\<lambda>_ s.
            let ctx = context_switch ctx (t_context n) (t_privilege n = THREAD_RING_3)
            in seq (clean_up s) (\<lambda>_ s. ret ctx s)))))"

partial_function (option) select_loop :: "context_t \<Rightarrow> 'r sched_state_scheme \<Rightarrow> (context_t, 'r) sched_result" where
  "select_loop ctx s =
     seq (next_thread s) (\<lambda>next s.
       if next = NULL then ret ctx s
       else seq (get_thread next s) (\<lambda>n s.
         if t_state n = THREAD_BLOCKED \<or> t_state n = THREAD_TERMED
         then seq (unqueue next s) (\<lambda>_ s. select_loop ctx s)
         else if t_cooldown n > 0
         then seq (put_thread next (set_cooldown (t_cooldown n - 1)) s) (\<lambda>_ s.
           seq (requeue next s) (\<lambda>_ s. select_loop ctx s))
         else seq (put_thread next (set_cooldown (priority_to_stride (t_priority n) - 1)) s) (\<lambda>_ s.
           if t_privilege n = THREAD_RING_3 \<and> t_kernel_stack n = 0
           then seq (put_thread next (set_state THREAD_TERMED) s) (\<lambda>_ s. select_loop ctx s)
           else dispatch ctx next s)))"

definition scheduler_tick :: "context_t option \<Rightarrow> 'r sched_state_scheme \<Rightarrow> (context_t option, 'r) sched_result" where
  "scheduler_tick context s =
     (case context of
        None \<Rightarrow> ret None s
      | Some ctx \<Rightarrow>
          let s = s\<lparr>priority_counter := priority_counter s + 1\<rparr>;
              old = current_thread s
          in seq (if old \<noteq> NULL
                  then seq (put_thread old (\<lambda>th. th\<lparr>t_context := ctx\<rparr>) s) (\<lambda>_ s. retire_old old s)
                  else ret () s) (\<lambda>_ s.
               seq (select_loop ctx s) (\<lambda>ctx s. ret (Some ctx) s)))"

section \<open>Interrupt requests\<close>

text \<open>The clock of the kernel table is a value of its own, since nothing else reads it.\<close>

definition irq_handler ::
  "context_t option \<Rightarrow> timer_state \<Rightarrow> 'r sched_state_scheme \<Rightarrow> (context_t option \<times> timer_state, 'r) sched_result" where
  "irq_handler context k s =
     (case context of
        None \<Rightarrow> ret (None, k) s
      | Some ctx \<Rightarrow>
          let irq_num = (ucast (ctx_int_no ctx - 32) :: u32) in
          if irq_num > 15 then ret (context, k) s
          else
            let s = pic_send_eoi (ucast irq_num) s in
            if irq_num = 0 then seq (scheduler_tick context s) (\<lambda>context s. ret (context, timer_handler k) s)
            else if irq_num = 1 then seq (call (map_option (Pair ()) (keyboard_handler s))) (\<lambda>_ s. ret (context, k) s)
            else ret (context, k) s)"

end
