(* ===== verification/Sched_Correct.thy ===== *)
theory Sched_Correct
  imports Scheduler
begin

text \<open>
  What \<open>scheduler_tick\<close> guarantees.  When every queued thread can run, the tick returns and resumes the first thread of the
  queue among those with the least cooldown; the interrupted thread goes to the end of the queue with its context
  saved.  When the interrupted thread has blocked or ended, the tick never returns: it takes the schedule lock
  twice.
\<close>

section \<open>Invariant\<close>

definition can_run :: "(addr \<Rightarrow> process option) \<Rightarrow> thread \<Rightarrow> bool" where
  "can_run ps t \<longleftrightarrow> 0 \<le> t_cooldown t \<and> (t_privilege t = THREAD_RING_3 \<longrightarrow> t_kernel_stack t \<noteq> 0) \<and>
     (t_proc t = NULL \<or> (case ps (t_proc t) of None \<Rightarrow> False | Some q \<Rightarrow> p_state q \<noteq> PROC_ZOMBIE))"

definition schedulable :: "'r sched_state_scheme \<Rightarrow> addr \<Rightarrow> bool" where
  "schedulable s x \<longleftrightarrow> (\<exists>t. threads s x = Some t \<and> t_state t = THREAD_READY \<and> can_run (procs s) t)"

text \<open>No entry of the thread table is dangling or waits to be collected.\<close>

definition table_alive :: "'r sched_state_scheme \<Rightarrow> bool" where
  "table_alive s \<longleftrightarrow> length (thread_table s) = MAX_THREADS \<and>
     (\<forall>t\<in>set (thread_table s). t \<noteq> NULL \<longrightarrow> (case threads s t of None \<Rightarrow> False | Some th \<Rightarrow> t_state th \<noteq> THREAD_TERMED))"

definition sched_ok :: "'r sched_state_scheme \<Rightarrow> addr list \<Rightarrow> bool" where
  "sched_ok s xs \<longleftrightarrow> ready_queue s xs \<and> (\<forall>x\<in>set xs. schedulable s x) \<and> \<not> lock_held (schedule_lock s) \<and>
     idle_mutex (thread_mutex s) \<and> table_alive s"

text \<open>The state between two ticks: the current thread runs and is not queued.\<close>

definition tick_ok :: "'r sched_state_scheme \<Rightarrow> addr list \<Rightarrow> bool" where
  "tick_ok s xs \<longleftrightarrow> sched_ok s xs \<and> current_thread s \<noteq> NULL \<and> current_thread s \<notin> set xs \<and>
     (case threads s (current_thread s) of None \<Rightarrow> False | Some t \<Rightarrow> t_state t = THREAD_RUNNING \<and> can_run (procs s) t)"

definition cooldown :: "'r sched_state_scheme \<Rightarrow> addr \<Rightarrow> int" where
  "cooldown s x = (case threads s x of None \<Rightarrow> 0 | Some t \<Rightarrow> t_cooldown t)"

lemma relinked_get:
  assumes "relinked s u" "threads s x = Some t"
  obtains n where "threads u x = Some (set_next n t)"
proof -
  obtain t' where t': "threads u x = Some t'" "set_next NULL t' = set_next NULL t"
    using relinked_threads [OF assms(1), of x] assms(2) by (cases "threads u x") auto
  then have "t' = set_next (t_next t') t" by (cases t; cases t') (simp add: set_next_def)
  then show ?thesis using that t'(1) by metis
qed

lemma relinked_rest:
  assumes "relinked s u"
  shows "procs u = procs s" "current_thread u = current_thread s" "thread_table u = thread_table s"
    "thread_mutex u = thread_mutex s" "schedule_lock u = schedule_lock s" "interrupt_flag u = interrupt_flag s"
    "tss_rsp0 u = tss_rsp0 s" "process_table_lock u = process_table_lock s" "process_table u = process_table s"
  using assms by (auto simp: relinked_def)

lemma set_next_fields [simp]:
  "t_state (set_next n t) = t_state t" "t_cooldown (set_next n t) = t_cooldown t" "t_privilege (set_next n t) = t_privilege t"
  "t_kernel_stack (set_next n t) = t_kernel_stack t" "t_proc (set_next n t) = t_proc t" "t_context (set_next n t) = t_context t"
  "t_priority (set_next n t) = t_priority t" "t_tid (set_next n t) = t_tid t"
  by (simp_all add: set_next_def)

lemma can_run_simps [simp]:
  "can_run ps (set_next n t) = can_run ps t" "can_run ps (set_state st t) = can_run ps t"
  "can_run ps (t\<lparr>t_context := c\<rparr>) = can_run ps t" "can_run ps (t\<lparr>t_state := st\<rparr>) = can_run ps t"
  by (simp_all add: can_run_def set_next_def set_state_def set_cooldown_def)

lemma can_run_cooldown: "can_run ps t \<Longrightarrow> 0 \<le> c \<Longrightarrow> can_run ps (set_cooldown c t)"
  by (simp add: can_run_def set_cooldown_def)

lemma relinked_field:
  assumes "relinked s u" "\<And>n t. f (set_next n t) = f t"
  shows "map_option f (threads u x) = map_option f (threads s x)"
proof (cases "threads s x")
  case None
  then show ?thesis using relinked_threads [OF assms(1), of x] by simp
next
  case (Some t)
  then obtain n where "threads u x = Some (set_next n t)" using relinked_get [OF assms(1)] by blast
  then show ?thesis using Some assms(2) by simp
qed

lemma relinked_none: "relinked s u \<Longrightarrow> threads s x = None \<Longrightarrow> threads u x = None"
  using relinked_threads [of s u x] by simp

lemma relinked_schedulable:
  assumes "relinked s u"
  shows "schedulable u x = schedulable s x"
proof (cases "threads s x")
  case None
  then show ?thesis using relinked_none [OF assms] by (simp add: schedulable_def)
next
  case (Some t)
  then obtain n where "threads u x = Some (set_next n t)" using relinked_get [OF assms] by blast
  then show ?thesis using Some relinked_rest(1) [OF assms] by (simp add: schedulable_def)
qed

lemma relinked_table: "relinked s u \<Longrightarrow> table_alive u = table_alive s"
proof -
  assume r: "relinked s u"
  have "(case threads u t of None \<Rightarrow> False | Some th \<Rightarrow> t_state th \<noteq> THREAD_TERMED) =
    (case threads s t of None \<Rightarrow> False | Some th \<Rightarrow> t_state th \<noteq> THREAD_TERMED)" for t
    using r by (cases "threads s t") (auto dest: relinked_none elim: relinked_get)
  then show ?thesis by (simp add: table_alive_def relinked_rest [OF r])
qed

lemma relinked_cooldown: "relinked s u \<Longrightarrow> cooldown u x = cooldown s x"
  by (cases "threads s x") (auto simp: cooldown_def dest: relinked_none elim: relinked_get)

lemma unlocked_rest [simp]:
  "schedulable (unlocked s) = schedulable s" "table_alive (unlocked s) = table_alive s" "cooldown (unlocked s) = cooldown s"
  "thread_mutex (unlocked s) = thread_mutex s" "schedule_lock (unlocked s) = quiet_lock s"
  "interrupt_flag (unlocked s) = interrupt_flag s" "current_thread (unlocked s) = current_thread s"
  "tss_rsp0 (unlocked s) = tss_rsp0 s" "thread_table (unlocked s) = thread_table s"
  by (simp_all add: unlocked_def schedulable_def table_alive_def cooldown_def fun_eq_iff split: option.split)

lemma sched_ok_relinked:
  assumes "sched_ok s xs" "relinked (unlocked s) u" "ready_queue u ys" "\<And>y. y \<in> set ys \<Longrightarrow> schedulable s y"
  shows "sched_ok u ys"
  using assms by (simp add: sched_ok_def relinked_rest [OF assms(2)] relinked_schedulable [OF assms(2)] relinked_table [OF assms(2)])

section \<open>The steps of a tick\<close>

lemma next_thread_head:
  assumes "sched_ok s (x # xs)"
  shows "\<exists>u. next_thread s = ret x u \<and> ready_queue u xs \<and> relinked (unlocked s) u"
proof -
  have q: "ready_queue (locked s) (x # xs)" "schedulable s x" "\<not> lock_held (schedule_lock s)" "x \<noteq> NULL"
    using assms by (auto simp: sched_ok_def ready_queue_def)
  obtain t where t: "threads s x = Some t" using q(2) by (auto simp: schedulable_def split: option.splits)
  obtain v where v: "dequeue_ready_head (locked s) = ret x v" "ready_queue v xs" "relinked (locked s) v"
    using dequeue_spec [OF q(1)] by auto
  obtain n where n: "threads v x = Some (set_next n t)" using relinked_get [OF v(3), of x t] t by auto
  have "procs v = procs s" using relinked_rest(1) [OF v(3)] by simp
  then have d: "dequeue_live (locked s) = ret x v"
    using v(1) n q(2,4) t by (subst dequeue_live.simps) (auto simp: schedulable_def can_run_def split: option.splits)
  obtain u where "unlock_schedule_spin v = ret () u" "relinked (unlocked s) u" "ready_queue u = ready_queue v"
    using unlock_relinked [OF v(3)] by auto
  then show ?thesis using d q(3,4) v(2) by (auto simp: next_thread_def)
qed

lemma requeue_spec:
  assumes "ready_queue s xs" "t \<noteq> NULL" "t \<notin> set xs" "threads s t \<noteq> None" "\<not> lock_held (schedule_lock s)"
  shows "\<exists>u. requeue t s = ret () u \<and> ready_queue u (xs @ [t]) \<and> relinked (unlocked s) u"
proof -
  obtain v where v: "enqueue_ready_tail t (locked s) = ret () v" "ready_queue v (xs @ [t])" "relinked (locked s) v"
    using enqueue_spec [of "locked s" xs t] assms by auto
  obtain u where "unlock_schedule_spin v = ret () u" "relinked (unlocked s) u" "ready_queue u = ready_queue v"
    using unlock_relinked [OF v(3)] by auto
  then show ?thesis using v assms(5) by (auto simp: requeue_def)
qed

lemma clean_slots_alive:
  "table_alive s \<Longrightarrow> \<forall>i\<in>set is. i < MAX_THREADS \<Longrightarrow> clean_slots is s = ret () s"
proof (induction "is")
  case (Cons i "is")
  then have "thread_table s ! i \<in> set (thread_table s)" by (simp add: table_alive_def)
  then have "thread_table s ! i \<noteq> NULL \<Longrightarrow>
      \<exists>th. threads s (thread_table s ! i) = Some th \<and> t_state th \<noteq> THREAD_TERMED"
    using Cons.prems(1) by (auto simp: table_alive_def split: option.splits)
  then show ?case using Cons by (auto simp: Let_def)
qed simp

lemma clean_up_alive:
  assumes "table_alive s" "idle_mutex (thread_mutex s)"
  shows "clean_up s = ret () (s\<lparr>thread_mutex := (thread_mutex s)\<lparr>m_lock := quiet_lock s\<rparr>\<rparr>)"
proof -
  let ?x = "(thread_mutex s)\<lparr>m_lock := quiet_lock s, m_locked := True, m_owner := current_thread s\<rparr>"
  have "acquire_mutex ThreadMutex s = ret 0 (s\<lparr>thread_mutex := ?x\<rparr>)"
    using acquire_mutex_free [of ThreadMutex s] assms(2) by (simp add: idle_mutex_def)
  moreover have "clean_slots [0..<MAX_THREADS] (s\<lparr>thread_mutex := ?x\<rparr>) = ret () (s\<lparr>thread_mutex := ?x\<rparr>)"
    by (rule clean_slots_alive) (use assms(1) in \<open>auto simp: table_alive_def\<close>)
  moreover have "release_mutex ThreadMutex (s\<lparr>thread_mutex := ?x\<rparr>) =
      ret () (s\<lparr>thread_mutex := (thread_mutex s)\<lparr>m_lock := quiet_lock s\<rparr>\<rparr>)"
    using release_mutex_free [of ThreadMutex "s\<lparr>thread_mutex := ?x\<rparr>"] assms(2)
    by (cases "thread_mutex s") (simp add: idle_mutex_def)
  ultimately show ?thesis by (simp add: clean_up_def)
qed

lemma unlock_quiet: "schedule_lock s = quiet_lock s \<Longrightarrow> unlock_schedule_spin s = ret () s"
  by (cases "interrupt_flag s") (simp_all add: unlock_schedule_spin_def spinlock_release_def enable_interrupt_def)

text \<open>Changing a field of a thread other than its link.\<close>

lemma ready_queue_field:
  "threads s x = Some t \<Longrightarrow> t_next t' = t_next t \<Longrightarrow> ready_queue (s\<lparr>threads := (threads s)(x \<mapsto> t')\<rparr>) = ready_queue s"
  by (simp add: ready_queue_def fun_eq_iff linked_update_field)

lemma table_alive_field:
  "table_alive s \<Longrightarrow> t_state t' \<noteq> THREAD_TERMED \<Longrightarrow> table_alive (s\<lparr>threads := (threads s)(x \<mapsto> t')\<rparr>)"
  by (auto simp: table_alive_def)

lemma schedulable_other [simp]: "x \<noteq> y \<Longrightarrow> schedulable (s\<lparr>threads := (threads s)(x \<mapsto> t')\<rparr>) y = schedulable s y"
  by (simp add: schedulable_def split: option.split)

definition resumed :: "context_t \<Rightarrow> thread \<Rightarrow> context_t" where
  "resumed ctx t = context_switch ctx (t_context t) (t_privilege t = THREAD_RING_3)"

definition kernel_stack_set :: "thread \<Rightarrow> 'r sched_state_scheme \<Rightarrow> bool" where
  "kernel_stack_set t u \<longleftrightarrow> (t_privilege t = THREAD_RING_3 \<longrightarrow> tss_rsp0 u = t_kernel_stack t + KSTACK_SIZE - 8)"

lemma dispatch_spec:
  assumes "sched_ok s xs" "schedule_lock s = quiet_lock s" "threads s x = Some t" "can_run (procs s) t" "x \<notin> set xs" "x \<noteq> NULL"
  shows "\<exists>u. dispatch ctx x s = ret (resumed ctx t) u \<and> current_thread u = x \<and> kernel_stack_set t u \<and>
    threads u = (threads s)(x \<mapsto> set_state THREAD_RUNNING t) \<and> tick_ok u xs"
proof -
  let ?r = "set_state THREAD_RUNNING t"
  define s1 where "s1 = s\<lparr>current_thread := x, threads := (threads s)(x \<mapsto> ?r)\<rparr>"
  define s2 where "s2 = (if t_privilege t = THREAD_RING_3 then s1\<lparr>tss_rsp0 := t_kernel_stack t + KSTACK_SIZE - 8\<rparr> else s1)"
  have f: "threads s2 = (threads s)(x \<mapsto> ?r)" "procs s2 = procs s" "current_thread s2 = x" "thread_mutex s2 = thread_mutex s"
    "schedule_lock s2 = schedule_lock s" "interrupt_flag s2 = interrupt_flag s" "thread_table s2 = thread_table s"
    "ready_head s2 = ready_head s" "ready_tail s2 = ready_tail s" "kernel_stack_set t s2"
    by (simp_all add: s2_def s1_def kernel_stack_set_def)
  have alive: "table_alive s2"
    using table_alive_field [of s ?r x] assms(1) f by (simp add: sched_ok_def table_alive_def set_state_def)
  have q: "ready_queue s2 xs"
    using assms(1) linked_update_field [of "threads s" x t ?r] assms(3) by (simp add: sched_ok_def ready_queue_def f set_state_def)
  let ?u = "s2\<lparr>thread_mutex := (thread_mutex s2)\<lparr>m_lock := quiet_lock s2\<rparr>\<rparr>"
  have c: "clean_up s2 = ret () ?u" using clean_up_alive [OF alive] assms(1) f by (simp add: sched_ok_def)
  have "unlock_schedule_spin s2 = ret () s2" by (rule unlock_quiet) (simp add: f assms(2))
  moreover have "dispatch ctx x s = seq (unlock_schedule_spin s2) (\<lambda>_ s. seq (clean_up s) (\<lambda>_ s. ret (resumed ctx t) s))"
    using assms(3) by (cases "t_privilege t") (simp_all add: dispatch_def resumed_def s2_def s1_def Let_def set_state_def)
  ultimately have "dispatch ctx x s = ret (resumed ctx t) ?u" using c by simp
  moreover have "tick_ok ?u xs"
  proof -
    have "schedulable s2 y" if "y \<in> set xs" for y
      using that assms(1,5) f by (auto simp: sched_ok_def schedulable_def)
    then show ?thesis
      using assms(1,4,5,6) q alive f
      by (simp add: tick_ok_def sched_ok_def ready_queue_def table_alive_def schedulable_def idle_mutex_def set_state_def)
  qed
  ultimately show ?thesis using f by (intro exI [of _ ?u]) (simp add: kernel_stack_set_def)
qed

section \<open>Selection\<close>

text \<open>\<open>x\<close> is the first of the queue \<open>ys @ x # zs\<close> among those with the least cooldown.\<close>

definition first_least :: "('a \<Rightarrow> int) \<Rightarrow> 'a list \<Rightarrow> 'a \<Rightarrow> 'a list \<Rightarrow> bool" where
  "first_least c ys x zs \<longleftrightarrow> (\<forall>y\<in>set ys. c x < c y) \<and> (\<forall>z\<in>set zs. c x \<le> c z)"

text \<open>Rotating a queue whose head still has to wait, counting the wait down, does not change the choice.\<close>

lemma first_least_rotate:
  assumes "xs @ [x] = ys @ z # zs" "first_least (c(x := c x - 1)) ys z zs" "x \<notin> set xs"
  shows "\<exists>ys' zs'. x # xs = ys' @ z # zs' \<and> zs' @ ys' = zs @ ys \<and> first_least c ys' z zs'"
proof (cases zs rule: rev_cases)
  case Nil
  then have "ys = xs" "z = x" using assms(1) by auto
  have "c x \<le> c y" if "y \<in> set xs" for y
  proof -
    have "y \<noteq> x" using that assms(3) by auto
    then show ?thesis using that assms(2) \<open>ys = xs\<close> \<open>z = x\<close> by (auto simp: first_least_def)
  qed
  then have "x # xs = [] @ z # xs \<and> xs @ [] = zs @ ys \<and> first_least c [] z xs"
    using Nil \<open>ys = xs\<close> \<open>z = x\<close> by (simp add: first_least_def)
  then show ?thesis by blast
next
  case (snoc zs0 w)
  then have "w = x" "xs = ys @ z # zs0" using assms(1) by auto
  then have "x # xs = (x # ys) @ z # zs0 \<and> zs0 @ (x # ys) = zs @ ys \<and> first_least c (x # ys) z zs0"
    using snoc assms(2,3) by (auto simp: first_least_def) (metis+)
  then show ?thesis by blast
qed

definition total_cooldown :: "'r sched_state_scheme \<Rightarrow> addr list \<Rightarrow> nat" where
  "total_cooldown s xs = sum_list (map (\<lambda>x. nat (cooldown s x)) xs)"

text \<open>One round of the loop for a thread that still has to wait.\<close>

lemma wait_step:
  assumes "sched_ok s (x # xs)" "threads s x = Some t" "0 < t_cooldown t"
  shows "\<exists>u. select_loop ctx s = select_loop ctx u \<and> sched_ok u (xs @ [x]) \<and>
    (\<forall>y. \<exists>n. threads u y = map_option (set_next n) (((threads s)(x \<mapsto> set_cooldown (t_cooldown t - 1) t)) y)) \<and>
    procs u = procs s \<and> interrupt_flag u = interrupt_flag s"
proof -
  have st: "t_state t = THREAD_READY" "can_run (procs s) t" "x \<noteq> NULL" "x \<notin> set xs"
    using assms(1,2) by (auto simp: sched_ok_def schedulable_def ready_queue_def)
  let ?t = "set_cooldown (t_cooldown t - 1) t"
  obtain a where a: "next_thread s = ret x a" "ready_queue a xs" "relinked (unlocked s) a"
    using next_thread_head [OF assms(1)] by auto
  obtain n where n: "threads a x = Some (set_next n t)" using relinked_get [OF a(3), of x t] assms(2) by auto
  define b where "b = a\<lparr>threads := (threads a)(x \<mapsto> set_cooldown (t_cooldown t - 1) (set_next n t))\<rparr>"
  have oka: "sched_ok a xs" using sched_ok_relinked [OF assms(1) a(3,2)] assms(1) by (simp add: sched_ok_def)
  have bx: "threads b x = Some (set_next n ?t)" by (simp add: b_def set_cooldown_def set_next_def)
  have "schedulable b y" if "y \<in> set xs" for y
    using that oka st(4) unfolding b_def by (subst schedulable_other) (auto simp: sched_ok_def)
  then have okb: "sched_ok b xs"
    using oka ready_queue_field [OF n, of "set_cooldown (t_cooldown t - 1) (set_next n t)"]
      table_alive_field [of a "set_cooldown (t_cooldown t - 1) (set_next n t)" x] st(1)
    by (simp add: sched_ok_def b_def set_cooldown_def)
  obtain u where u: "requeue x b = ret () u" "ready_queue u (xs @ [x])" "relinked (unlocked b) u"
    using requeue_spec [of b xs x] okb st bx by (auto simp: sched_ok_def)
  have "schedulable b x" using bx st assms(3) relinked_rest(1) [OF a(3)]
    by (simp add: schedulable_def b_def can_run_cooldown) (simp add: set_cooldown_def)
  then have "sched_ok u (xs @ [x])"
    using sched_ok_relinked [OF okb u(3,2)] okb by (auto simp: sched_ok_def)
  moreover have "select_loop ctx s = select_loop ctx u"
    using a(1) n u(1) st(1,3) assms(3) by (subst select_loop.simps) (simp add: b_def)
  moreover have "\<exists>n. threads u y = map_option (set_next n) (((threads s)(x \<mapsto> ?t)) y)" for y
  proof (cases "y = x")
    case True
    then show ?thesis using relinked_get [OF u(3), of x "set_next n ?t"] bx by auto
  next
    case False
    show ?thesis
    proof (cases "threads s y")
      case None
      then show ?thesis using False relinked_none [OF a(3)] relinked_none [OF u(3)] by (simp add: b_def)
    next
      case (Some ty)
      then obtain m where "threads b y = Some (set_next m ty)" using False relinked_get [OF a(3), of y ty] by (auto simp: b_def)
      then show ?thesis using False Some relinked_get [OF u(3), of y "set_next m ty"] by auto
    qed
  qed
  ultimately show ?thesis
    using relinked_rest(1,6) [OF a(3)] relinked_rest(1,6) [OF u(3)] by (intro exI [of _ u]) (simp add: b_def)
qed

lemma stride_positive: "0 < priority_to_stride p"
  by (cases p) (simp_all add: priority_to_stride_def)

text \<open>The round that picks the head.\<close>

lemma pick_step:
  assumes "sched_ok s (x # xs)" "threads s x = Some t" "t_cooldown t = 0"
  shows "\<exists>u. select_loop ctx s = ret (resumed ctx t) u \<and> current_thread u = x \<and> kernel_stack_set t u \<and> tick_ok u xs \<and>
    (\<forall>y \<noteq> x. \<exists>n. threads u y = map_option (set_next n) (threads s y)) \<and>
    (\<exists>n. threads u x = Some (set_next n (set_state THREAD_RUNNING (set_cooldown (priority_to_stride (t_priority t) - 1) t))))"
proof -
  have st: "t_state t = THREAD_READY" "can_run (procs s) t" "x \<noteq> NULL" "x \<notin> set xs"
    using assms(1,2) by (auto simp: sched_ok_def schedulable_def ready_queue_def)
  define c where "c = priority_to_stride (t_priority t) - 1"
  have c: "0 \<le> c" using stride_positive [of "t_priority t"] by (simp add: c_def)
  obtain a where a: "next_thread s = ret x a" "ready_queue a xs" "relinked (unlocked s) a"
    using next_thread_head [OF assms(1)] by auto
  obtain n where n: "threads a x = Some (set_next n t)" using relinked_get [OF a(3), of x t] assms(2) by auto
  let ?t = "set_cooldown c (set_next n t)"
  define b where "b = a\<lparr>threads := (threads a)(x \<mapsto> ?t)\<rparr>"
  have oka: "sched_ok a xs" using sched_ok_relinked [OF assms(1) a(3,2)] assms(1) by (simp add: sched_ok_def)
  have "schedulable b y" if "y \<in> set xs" for y
    using that oka st(4) unfolding b_def by (subst schedulable_other) (auto simp: sched_ok_def)
  then have okb: "sched_ok b xs"
    using oka ready_queue_field [OF n, of ?t] table_alive_field [of a ?t x] st(1)
    by (simp add: sched_ok_def b_def set_cooldown_def)
  have pr: "procs b = procs s" using relinked_rest(1) [OF a(3)] by (simp add: b_def)
  have q: "schedule_lock b = quiet_lock b" using relinked_rest(5,6) [OF a(3)] by (simp add: b_def)
  have bx: "threads b x = Some ?t" by (simp add: b_def)
  have cr: "can_run (procs b) ?t" using st(2) c pr by (simp add: can_run_cooldown)
  obtain u where u: "dispatch ctx x b = ret (resumed ctx ?t) u" "current_thread u = x" "kernel_stack_set ?t u"
    "threads u = (threads b)(x \<mapsto> set_state THREAD_RUNNING ?t)" "tick_ok u xs"
    using dispatch_spec [OF okb q bx cr st(4,3)] by blast
  have "t_privilege t = THREAD_RING_3 \<longrightarrow> t_kernel_stack t \<noteq> 0" using st(2) by (simp add: can_run_def)
  then have "select_loop ctx s = dispatch ctx x b"
    using a(1) n st(1,3) assms(3) by (subst select_loop.simps) (auto simp: b_def c_def)
  moreover have "\<exists>n. threads u y = map_option (set_next n) (threads s y)" if "y \<noteq> x" for y
  proof (cases "threads s y")
    case None
    then show ?thesis using that relinked_none [OF a(3)] u(4) by (simp add: b_def)
  next
    case (Some ty)
    then show ?thesis using that relinked_get [OF a(3), of y ty] u(4) by (auto simp: b_def)
  qed
  moreover have "set_state THREAD_RUNNING ?t = set_next n (set_state THREAD_RUNNING (set_cooldown c t))"
    by (simp add: set_state_def set_next_def set_cooldown_def)
  ultimately show ?thesis
    using u by (intro exI [of _ u]) (auto simp: resumed_def kernel_stack_set_def c_def set_cooldown_def)
qed

lemma threads_relink_cooldown:
  assumes "\<And>y. \<exists>n. threads u y = map_option (set_next n) (((threads s)(x \<mapsto> set_cooldown c t)) y)"
  shows "cooldown u = (cooldown s)(x := c)"
proof (rule ext)
  fix y obtain n where n: "threads u y = map_option (set_next n) (((threads s)(x \<mapsto> set_cooldown c t)) y)" using assms by blast
  show "cooldown u y = ((cooldown s)(x := c)) y"
    by (cases "threads s y") (auto simp: cooldown_def n set_cooldown_def)
qed

text \<open>What a thread keeps while it waits: everything but its link and its cooldown.\<close>

definition same_thread :: "thread option \<Rightarrow> thread option \<Rightarrow> bool" where
  "same_thread a b \<longleftrightarrow> map_option (\<lambda>t. set_cooldown 0 (set_next NULL t)) a = map_option (\<lambda>t. set_cooldown 0 (set_next NULL t)) b"

lemma same_thread_refl [simp]: "same_thread a a"
  by (simp add: same_thread_def)

lemma same_thread_trans: "same_thread a b \<Longrightarrow> same_thread b c \<Longrightarrow> same_thread a c"
  by (simp add: same_thread_def)

lemma same_thread_sym: "same_thread a b \<Longrightarrow> same_thread b a"
  by (simp add: same_thread_def)

lemma same_thread_state: "same_thread (Some t) (Some t') \<Longrightarrow> same_thread (Some (set_state st t)) (Some (set_state st t'))"
  by (cases t; cases t') (simp add: same_thread_def set_state_def set_next_def set_cooldown_def)

lemma set_next_cooldown: "set_next n (set_cooldown c t) = set_cooldown c (set_next n t)"
  "set_cooldown c (set_cooldown d t) = set_cooldown c t"
  by (simp_all add: set_next_def set_cooldown_def)

lemma same_threadI:
  "a = map_option (set_next n) b \<Longrightarrow> same_thread a b"
  "a = Some (set_next n (set_cooldown c t)) \<Longrightarrow> b = Some t \<Longrightarrow> same_thread a b"
  by (auto simp: same_thread_def option.map_comp o_def set_next_cooldown)

lemma same_threadD:
  assumes "same_thread a (Some t)"
  obtains t' where "a = Some t'" "t_context t' = t_context t" "t_privilege t' = t_privilege t" "t_kernel_stack t' = t_kernel_stack t"
    "t_state t' = t_state t"
proof -
  obtain t' where t': "a = Some t'" "set_cooldown 0 (set_next NULL t') = set_cooldown 0 (set_next NULL t)"
    using assms by (auto simp: same_thread_def)
  then have "t_context t' = t_context t" "t_privilege t' = t_privilege t" "t_kernel_stack t' = t_kernel_stack t" "t_state t' = t_state t"
    by (cases t'; cases t; simp add: set_cooldown_def set_next_def)+
  then show ?thesis using that t'(1) by blast
qed

lemma select_loop_spec:
  assumes "sched_ok s xs" "xs \<noteq> []"
  shows "\<exists>ys x zs t u. xs = ys @ x # zs \<and> first_least (cooldown s) ys x zs \<and> threads s x = Some t \<and>
    select_loop ctx s = ret (resumed ctx t) u \<and> current_thread u = x \<and> kernel_stack_set t u \<and> tick_ok u (zs @ ys) \<and>
    (\<forall>y \<noteq> x. same_thread (threads u y) (threads s y)) \<and>
    same_thread (threads u x) (Some (set_state THREAD_RUNNING t))"
  using assms
proof (induction "total_cooldown s xs" arbitrary: s xs rule: less_induct)
  case less
  obtain x zs where xs: "xs = x # zs" using less.prems(2) by (cases xs) auto
  have ok: "sched_ok s (x # zs)" using less.prems(1) xs by simp
  obtain t where t: "threads s x = Some t" "can_run (procs s) t" "x \<notin> set zs"
    using ok by (auto simp: sched_ok_def schedulable_def ready_queue_def)
  show ?case
  proof (cases "0 < t_cooldown t")
    case False
    then have z: "t_cooldown t = 0" using t(2) by (simp add: can_run_def)
    have "0 \<le> cooldown s y" if "y \<in> set zs" for y
      using that ok by (auto simp: sched_ok_def schedulable_def can_run_def cooldown_def)
    then have "first_least (cooldown s) [] x zs" using t(1) z by (simp add: first_least_def cooldown_def)
    moreover obtain u n where u: "select_loop ctx s = ret (resumed ctx t) u" "current_thread u = x" "kernel_stack_set t u" "tick_ok u zs"
      "\<forall>y \<noteq> x. \<exists>n. threads u y = map_option (set_next n) (threads s y)"
      "threads u x = Some (set_next n (set_state THREAD_RUNNING (set_cooldown (priority_to_stride (t_priority t) - 1) t)))"
      using pick_step [OF ok t(1) z, of ctx] by auto
    moreover have "same_thread (threads u y) (threads s y)" if "y \<noteq> x" for y using u(5) that same_threadI(1) by blast
    moreover have "same_thread (threads u x) (Some (set_state THREAD_RUNNING t))"
      using u(6) by (cases t) (simp add: same_thread_def set_state_def set_next_def set_cooldown_def)
    moreover have "xs = [] @ x # zs" "tick_ok u (zs @ [])" using xs u(4) by simp_all
    ultimately show ?thesis using t(1) by blast
  next
    case True
    let ?c = "t_cooldown t - 1"
    obtain v where v: "select_loop ctx s = select_loop ctx v" "sched_ok v (zs @ [x])"
      "\<And>y. \<exists>n. threads v y = map_option (set_next n) (((threads s)(x \<mapsto> set_cooldown ?c t)) y)"
      using wait_step [OF ok t(1) True, of ctx] by auto
    have cd: "cooldown v = (cooldown s)(x := cooldown s x - 1)"
      using threads_relink_cooldown [OF v(3)] t(1) by (simp add: cooldown_def)
    have cx: "cooldown s x = t_cooldown t" using t(1) by (simp add: cooldown_def)
    have "map (\<lambda>y. nat (cooldown v y)) zs = map (\<lambda>y. nat (cooldown s y)) zs"
      using t(3) cd by auto
    then have "total_cooldown v (zs @ [x]) = sum_list (map (\<lambda>y. nat (cooldown s y)) zs) + nat (t_cooldown t - 1)"
      unfolding total_cooldown_def map_append sum_list_append by (simp only:) (simp add: cd cx)
    then have "total_cooldown v (zs @ [x]) < total_cooldown s xs"
      using True xs cx by (simp add: total_cooldown_def)
    from less.hyps [OF this v(2)] obtain ys w ws t' u where I: "zs @ [x] = ys @ w # ws" "first_least (cooldown v) ys w ws"
      "threads v w = Some t'" "select_loop ctx v = ret (resumed ctx t') u" "current_thread u = w" "kernel_stack_set t' u"
      "tick_ok u (ws @ ys)" "\<forall>y \<noteq> w. same_thread (threads u y) (threads v y)"
      "same_thread (threads u w) (Some (set_state THREAD_RUNNING t'))" by auto
    have st: "same_thread (threads v y) (threads s y)" for y
    proof -
      obtain n where "threads v y = map_option (set_next n) (((threads s)(x \<mapsto> set_cooldown ?c t)) y)" using v(3) by blast
      then show ?thesis using t(1) by (cases "y = x") (auto intro: same_threadI)
    qed
    obtain ys' zs' where r: "x # zs = ys' @ w # zs'" "zs' @ ys' = ws @ ys" "first_least (cooldown s) ys' w zs'"
      using first_least_rotate [OF I(1) _ t(3), of "cooldown s"] I(2) cd by auto
    obtain t0 where t0: "threads s w = Some t0" "t_context t0 = t_context t'" "t_privilege t0 = t_privilege t'"
        "t_kernel_stack t0 = t_kernel_stack t'"
      using same_threadD [OF same_thread_sym [OF st [of w, unfolded I(3)]]] by metis
    have w: "same_thread (threads u w) (Some (set_state THREAD_RUNNING t0))"
      using same_thread_trans [OF I(9) same_thread_state] st [of w] I(3) t0(1) by simp
    have "select_loop ctx s = ret (resumed ctx t0) u" "kernel_stack_set t0 u"
      using v(1) I(4,6) t0 by (simp_all add: resumed_def kernel_stack_set_def)
    moreover have "xs = ys' @ w # zs'" "tick_ok u (zs' @ ys')" using xs r(1,2) I(7) by simp_all
    moreover have "\<forall>y \<noteq> w. same_thread (threads u y) (threads s y)" using I(8) st same_thread_trans by blast
    ultimately show ?thesis using r(3) t0(1) I(5) w by blast
  qed
qed

end
