(* ===== verification/Sched_Props.thy ===== *)
theory Sched_Props
  imports Sched_Correct Kheap_Correct
begin

text \<open>
  The properties of the scheduler: the ready queue is first-in first-out, a tick resumes the right thread and keeps the
  invariant, and a thread that blocks freezes the machine at the next tick.
\<close>

section \<open>A concrete state\<close>

text \<open>Three threads: the running one at \<open>0x1000\<close> and two queued ones, of which the first still has to wait.\<close>

definition example_thread :: "u32 \<Rightarrow> thread_state \<Rightarrow> int \<Rightarrow> addr \<Rightarrow> thread" where
  "example_thread tid st c n =
     zero_thread\<lparr>t_tid := tid, t_state := st, t_cooldown := c, t_next := n, t_priority := THREAD_PRIO_NORMAL\<rparr>"

definition sched_example :: sched_state where
  "sched_example = kheap_state.extend kheap_example
     \<lparr>threads = [0x1000 \<mapsto> example_thread 1 THREAD_RUNNING 0 0, 0x2000 \<mapsto> example_thread 2 THREAD_READY 3 0x3000,
                 0x3000 \<mapsto> example_thread 3 THREAD_READY 0 0],
      procs = Map.empty, current_thread = 0x1000,
      thread_table = [0, 0x1000, 0x2000, 0x3000] @ replicate 252 0, thread_count = 3, next_tid = 4,
      schedule_lock = \<lparr>lock_held = False, had_interrupt = False\<rparr>, thread_mutex = zero_mutex,
      ready_head = 0x2000, ready_tail = 0x3000, priority_counter = 0,
      process_table = replicate 1024 0, process_table_lock = zero_mutex, next_pid = 0, tss_rsp0 = 0\<rparr>"

lemma sched_example_fields [simp]:
  "threads sched_example = [0x1000 \<mapsto> example_thread 1 THREAD_RUNNING 0 0, 0x2000 \<mapsto> example_thread 2 THREAD_READY 3 0x3000,
     0x3000 \<mapsto> example_thread 3 THREAD_READY 0 0]"
  "procs sched_example = Map.empty" "current_thread sched_example = 0x1000"
  "thread_table sched_example = [0, 0x1000, 0x2000, 0x3000] @ replicate 252 0"
  "schedule_lock sched_example = \<lparr>lock_held = False, had_interrupt = False\<rparr>"
  "thread_mutex sched_example = zero_mutex" "ready_head sched_example = 0x2000" "ready_tail sched_example = 0x3000"
  "process_table_lock sched_example = zero_mutex" "process_table sched_example = replicate 1024 0"
  by (simp_all add: sched_example_def kheap_state.defs sched_state.defs)

lemma example_thread_fields [simp]:
  "t_tid (example_thread tid st c n) = tid" "t_state (example_thread tid st c n) = st" "t_cooldown (example_thread tid st c n) = c"
  "t_next (example_thread tid st c n) = n" "t_proc (example_thread tid st c n) = 0"
  "t_privilege (example_thread tid st c n) = THREAD_RING_0"
  by (simp_all add: example_thread_def zero_thread_def)

lemma sched_example_queue: "ready_queue sched_example [0x2000, 0x3000]"
  by (simp add: ready_queue_def)

lemma sched_example_ok: "tick_ok sched_example [0x2000, 0x3000]"
  by (simp add: tick_ok_def sched_ok_def sched_example_queue schedulable_def can_run_def idle_mutex_def zero_mutex_def
      table_alive_def MAX_THREADS_def)

lemma set_state_context [simp]: "t_context (set_state st t) = t_context t"
  by (simp add: set_state_def)

lemma same_context: "same_thread a (Some t) \<Longrightarrow> map_option t_context a = Some (t_context t)"
  by (erule same_threadD) simp

section \<open>The ready queue\<close>

text \<open>C10: The ready queue is a first-in first-out queue: after enqueuing the threads \<open>ys\<close> behind the queued \<open>xs\<close>, dequeuing
  any number of times returns them in that order and leaves the rest queued.\<close>

theorem ready_queue_fifo:
  assumes "ready_queue s xs" "distinct (xs @ ys)" "\<forall>y\<in>set ys. live_thread s y" "n \<le> length (xs @ ys)"
  shows "\<exists>u. seq (push_all enqueue_ready_tail ys s) (\<lambda>_ s. pop_many dequeue_ready_head n s) = ret (take n (xs @ ys)) u \<and>
    ready_queue u (drop n (xs @ ys))"
  by (rule rq.first_in_first_out [OF assms])

theorem ready_queue_fifo_witness:
  "\<exists>u. seq (push_all enqueue_ready_tail [0x1000] sched_example) (\<lambda>_ s. pop_many dequeue_ready_head 2 s) = ret [0x2000, 0x3000] u \<and>
    ready_queue u [0x1000]"
  using ready_queue_fifo [OF sched_example_queue, of "[0x1000]" 2] by (simp add: live_thread_def)

section \<open>A tick\<close>

text \<open>The first half of a tick: the interrupted thread becomes ready, with its context saved, and joins the queue.\<close>

lemma tick_prefix:
  assumes "tick_ok s xs" "threads s (current_thread s) = Some t0"
  obtains u0 where "scheduler_tick (Some ctx) s = seq (select_loop ctx u0) (\<lambda>c s. ret (Some c) s)"
    "sched_ok u0 (xs @ [current_thread s])" "cooldown u0 = cooldown s"
    "relinked (unlocked (s\<lparr>priority_counter := priority_counter s + 1, threads := (threads s)(current_thread s \<mapsto> set_state THREAD_READY (t0\<lparr>t_context := ctx\<rparr>))\<rparr>)) u0"
proof -
  let ?old = "current_thread s"
  define r where "r = set_state THREAD_READY (t0\<lparr>t_context := ctx\<rparr>)"
  have T: "sched_ok s xs" "?old \<noteq> NULL" "?old \<notin> set xs" "t_state t0 = THREAD_RUNNING" "can_run (procs s) t0"
    using assms(1,2) by (auto simp: tick_ok_def)
  define s2 where "s2 = s\<lparr>priority_counter := priority_counter s + 1, threads := (threads s)(?old \<mapsto> r)\<rparr>"
  have q2: "ready_queue s2 xs" using T(1,3) by (simp add: s2_def sched_ok_def ready_queue_def)
  have "schedulable s2 y" if "y \<in> set xs" for y
    using that T(1,3) by (auto simp: s2_def sched_ok_def schedulable_def)
  moreover have "table_alive s2"
    using table_alive_field [of s r ?old] T(1) by (simp add: s2_def sched_ok_def table_alive_def set_state_def r_def)
  ultimately have ok2: "sched_ok s2 xs" using q2 T(1) by (simp add: sched_ok_def s2_def)
  have sch: "schedulable s2 ?old" using T(5) by (simp add: schedulable_def s2_def) (simp add: set_state_def r_def)
  obtain u0 where u0: "requeue ?old s2 = ret () u0" "ready_queue u0 (xs @ [?old])" "relinked (unlocked s2) u0"
    using requeue_spec [of s2 xs ?old] q2 T(2,3) ok2 by (auto simp: s2_def sched_ok_def)
  have ok: "sched_ok u0 (xs @ [?old])" using sched_ok_relinked [OF ok2 u0(3,2)] ok2 sch by (auto simp: sched_ok_def)
  have cd: "cooldown u0 = cooldown s"
    using relinked_cooldown [OF u0(3)] assms(2) by (auto simp: fun_eq_iff cooldown_def s2_def set_state_def r_def)
  have "scheduler_tick (Some ctx) s = seq (select_loop ctx u0) (\<lambda>c s. ret (Some c) s)"
    using T(2,4) assms(2) u0(1) by (simp add: scheduler_tick_def retire_old_def Let_def s2_def set_state_def r_def)
  then show ?thesis using that ok cd u0(3) by (simp add: s2_def r_def)
qed

text \<open>C6: While the invariant holds, \<open>scheduler_tick\<close> returns.  It puts the interrupted thread, its context saved, at the end of
  the ready queue and resumes the first thread of the queue among those with the least cooldown: the interrupt
  frame becomes that thread's context, for a user thread with the user selectors and its kernel stack in the TSS.  The
  threads before it in the queue are moved behind the others, and the invariant holds again.\<close>

theorem scheduler_tick_selects:
  assumes "tick_ok s xs" "threads s (current_thread s) = Some t0"
  shows "\<exists>ys x zs t u. xs @ [current_thread s] = ys @ x # zs \<and> first_least (cooldown s) ys x zs \<and>
    ((threads s)(current_thread s \<mapsto> t0\<lparr>t_context := ctx\<rparr>)) x = Some t \<and>
    scheduler_tick (Some ctx) s = ret (Some (resumed ctx t)) u \<and> current_thread u = x \<and> kernel_stack_set t u \<and>
    tick_ok u (zs @ ys) \<and> (x \<noteq> current_thread s \<longrightarrow> map_option t_context (threads u (current_thread s)) = Some ctx)"
proof -
  let ?old = "current_thread s"
  let ?r = "set_state THREAD_READY (t0\<lparr>t_context := ctx\<rparr>)"
  define s2 where "s2 = s\<lparr>priority_counter := priority_counter s + 1, threads := (threads s)(?old \<mapsto> ?r)\<rparr>"
  obtain u0 where u0: "scheduler_tick (Some ctx) s = seq (select_loop ctx u0) (\<lambda>c s. ret (Some c) s)"
    "sched_ok u0 (xs @ [?old])" "cooldown u0 = cooldown s" "relinked (unlocked s2) u0"
    unfolding s2_def by (rule tick_prefix [OF assms])
  obtain ys x zs t u where sel: "xs @ [?old] = ys @ x # zs" "first_least (cooldown u0) ys x zs" "threads u0 x = Some t"
    "select_loop ctx u0 = ret (resumed ctx t) u" "current_thread u = x" "kernel_stack_set t u" "tick_ok u (zs @ ys)"
    "\<forall>y \<noteq> x. same_thread (threads u y) (threads u0 y)"
    using select_loop_spec [OF u0(2), of ctx] by blast
  have tick: "scheduler_tick (Some ctx) s = ret (Some (resumed ctx t)) u" using u0(1) sel(4) by simp
  have ex: "\<exists>t'. ((threads s)(?old \<mapsto> t0\<lparr>t_context := ctx\<rparr>)) x = Some t' \<and> t_context t' = t_context t \<and>
      t_privilege t' = t_privilege t \<and> t_kernel_stack t' = t_kernel_stack t"
  proof -
    obtain t2 where t2: "threads s2 x = Some t2"
      using relinked_none [OF u0(4), of x] sel(3) by (cases "threads s2 x") auto
    obtain n where "t = set_next n t2" using relinked_get [OF u0(4), of x t2] t2 sel(3) by auto
    then show ?thesis using t2 by (auto simp: s2_def set_state_def split: if_splits)
  qed
  then obtain t' where t': "((threads s)(?old \<mapsto> t0\<lparr>t_context := ctx\<rparr>)) x = Some t'" "t_context t' = t_context t"
      "t_privilege t' = t_privilege t" "t_kernel_stack t' = t_kernel_stack t" by blast
  have "map_option t_context (threads u ?old) = Some ctx" if "x \<noteq> ?old"
  proof -
    obtain n where "threads u0 ?old = Some (set_next n ?r)" using relinked_get [OF u0(4), of ?old ?r] by (auto simp: s2_def)
    then have "same_thread (threads u ?old) (Some (set_next n ?r))" using sel(8) that by metis
    from same_context [OF this] show ?thesis by simp
  qed
  then show ?thesis
    using sel t' tick u0(3) by (intro exI [of _ ys] exI [of _ x] exI [of _ zs] exI [of _ t'] exI [of _ u])
      (simp add: resumed_def kernel_stack_set_def)
qed

theorem scheduler_tick_selects_witness:
  "\<exists>u. scheduler_tick (Some zero_context) sched_example = ret (Some zero_context) u \<and> current_thread u = 0x3000 \<and>
    tick_ok u [0x1000, 0x2000]"
proof -
  have c: "current_thread sched_example = 0x1000" by simp
  have t0: "threads sched_example (current_thread sched_example) = Some (example_thread 1 THREAD_RUNNING 0 0)" by simp
  obtain ys x zs t u where r: "[0x2000, 0x3000, 0x1000] = ys @ x # zs" "first_least (cooldown sched_example) ys x zs"
    "((threads sched_example)(0x1000 \<mapsto> (example_thread 1 THREAD_RUNNING 0 0)\<lparr>t_context := zero_context\<rparr>)) x = Some t"
    "scheduler_tick (Some zero_context) sched_example = ret (Some (resumed zero_context t)) u" "current_thread u = x"
    "tick_ok u (zs @ ys)"
    using scheduler_tick_selects [OF sched_example_ok t0, of zero_context] unfolding c append.simps by blast
  have "(ys = [] \<and> x = 0x2000) \<or> (ys = [0x2000] \<and> x = 0x3000 \<and> zs = [0x1000]) \<or> (ys = [0x2000, 0x3000] \<and> x = 0x1000)"
    using r(1) by (cases ys; cases "tl ys"; cases "tl (tl ys)") auto
  then have s: "ys = [0x2000]" "x = 0x3000" "zs = [0x1000]" using r(1,2) by (auto simp: first_least_def cooldown_def)
  moreover have "t = example_thread 3 THREAD_READY 0 0" using r(3) s by simp
  then have "resumed zero_context t = zero_context"
    by (simp add: resumed_def context_switch_def example_thread_def zero_thread_def)
  ultimately show ?thesis using r(4,5,6) by auto
qed

section \<open>Blocking\<close>

text \<open>The lock is taken by \<open>scheduler_tick\<close> and again by \<open>remove_from_ready_queue\<close>.\<close>

lemma unqueue_deadlock: "\<not> lock_held (schedule_lock s) \<Longrightarrow> t \<noteq> NULL \<Longrightarrow> unqueue t s = stop Deadlock (spinning (locked s))"
  by (simp add: unqueue_def remove_from_ready_queue_def)

lemma scheduler_tick_deadlock:
  assumes "threads s (current_thread s) = Some t" "current_thread s \<noteq> NULL" "t_state t = THREAD_BLOCKED \<or> t_state t = THREAD_TERMED"
    "\<not> lock_held (schedule_lock s)"
  shows "\<exists>u. scheduler_tick (Some ctx) s = stop Deadlock u \<and> \<not> interrupt_flag u"
  using assms by (auto simp: scheduler_tick_def retire_old_def Let_def unqueue_deadlock spinning_def disable_interrupt_def)

lemma find_tid_spec:
  "\<forall>t\<in>set ts. t \<noteq> NULL \<longrightarrow> threads s t \<noteq> None \<Longrightarrow>
   find_tid tid ts s = ret (case find (\<lambda>t. t \<noteq> NULL \<and> map_option t_tid (threads s t) = Some tid) ts of None \<Rightarrow> NULL | Some t \<Rightarrow> t) s"
  by (induction ts) auto

lemma thread_from_tid_spec:
  assumes "table_alive s"
  shows "thread_from_tid tid s =
    ret (case find (\<lambda>t. t \<noteq> NULL \<and> map_option t_tid (threads s t) = Some tid) (thread_table s) of None \<Rightarrow> NULL | Some t \<Rightarrow> t) s"
proof -
  have "take MAX_THREADS (thread_table s) = thread_table s" "\<forall>t\<in>set (thread_table s). t \<noteq> NULL \<longrightarrow> threads s t \<noteq> None"
    using assms by (auto simp: table_alive_def split: option.splits)
  then show ?thesis by (simp only: thread_from_tid_def find_tid_spec)
qed

lemma thread_mutex_section:
  assumes "idle_mutex (thread_mutex s)"
  defines "h \<equiv> (thread_mutex s)\<lparr>m_lock := quiet_lock s, m_locked := True, m_owner := current_thread s\<rparr>"
  shows "acquire_mutex ThreadMutex s = ret 0 (s\<lparr>thread_mutex := h\<rparr>)"
    "release_mutex ThreadMutex (s\<lparr>thread_mutex := h\<rparr>) = ret () (s\<lparr>thread_mutex := (thread_mutex s)\<lparr>m_lock := quiet_lock s\<rparr>\<rparr>)"
  using acquire_mutex_free [of ThreadMutex s] release_mutex_free [of ThreadMutex "s\<lparr>thread_mutex := h\<rparr>"] assms(1)
  by (cases "thread_mutex s"; simp add: idle_mutex_def h_def)+

text \<open>C31: A thread that blocks stops the whole machine: \<open>thread_block\<close> marks it blocked, takes it out of the ready queue and raises
  the scheduling interrupt, and \<open>scheduler_tick\<close> then spins for ever on the schedule lock it holds itself, with
  interrupts disabled.\<close>

theorem thread_block_freezes:
  assumes "tick_ok s xs" "threads s (current_thread s) = Some t" "t_tid t \<noteq> 0"
    "find (\<lambda>x. x \<noteq> NULL \<and> map_option t_tid (threads s x) = Some (t_tid t)) (thread_table s) = Some (current_thread s)"
  shows "\<exists>u v. thread_block (t_tid t) s = stop Yielded u \<and> ready_queue u xs \<and> scheduler_tick (Some ctx) u = stop Deadlock v \<and>
    \<not> interrupt_flag v"
proof -
  let ?c = "current_thread s"
  let ?m = "(thread_mutex s)\<lparr>m_lock := quiet_lock s\<rparr>"
  have T: "sched_ok s xs" "?c \<noteq> NULL" "?c \<notin> set xs" using assms(1) by (auto simp: tick_ok_def)
  have i: "idle_mutex (thread_mutex s)" using T(1) by (simp add: sched_ok_def)
  define h where "h = s\<lparr>thread_mutex := (thread_mutex s)\<lparr>m_lock := quiet_lock s, m_locked := True, m_owner := ?c\<rparr>\<rparr>"
  define b where "b = s\<lparr>thread_mutex := ?m, threads := (threads s)(?c \<mapsto> set_state THREAD_BLOCKED t)\<rparr>"
  have "table_alive h" using T(1) by (simp add: h_def sched_ok_def table_alive_def)
  then have f: "thread_from_tid (t_tid t) h = ret ?c h"
    using thread_from_tid_spec [of h "t_tid t"] assms(4) by (simp add: h_def)
  have qb: "ready_queue b xs" using T(1,3) by (simp add: b_def sched_ok_def ready_queue_def)
  obtain u where u: "remove_from_ready_queue ?c b = ret () u" "ready_queue u (remove1 ?c xs)" "relinked (unlocked b) u"
    using remove_spec [OF qb T(2)] T(1) by (auto simp: b_def sched_ok_def)
  obtain n where n: "threads u ?c = Some (set_next n (set_state THREAD_BLOCKED t))"
    using relinked_get [OF u(3), of ?c "set_state THREAD_BLOCKED t"] by (auto simp: b_def)
  have cu: "current_thread u = ?c" "schedule_lock u = quiet_lock b" using relinked_rest [OF u(3)] by (simp_all add: b_def)
  have "\<exists>v. scheduler_tick (Some ctx) u = stop Deadlock v \<and> \<not> interrupt_flag v"
    by (rule scheduler_tick_deadlock [of _ "set_next n (set_state THREAD_BLOCKED t)"]) (simp_all add: n cu T(2) set_state_def)
  moreover have "thread_block (t_tid t) s = stop Yielded u"
    using thread_mutex_section [OF i] f assms(2,3) T(2) u(1)
    by (simp add: thread_block_def thread_block_locked_def h_def [symmetric] b_def int_0x20_def)
  moreover have "ready_queue u xs" using u(2) T(3) by (simp add: remove1_idem)
  ultimately show ?thesis by blast
qed

theorem thread_block_freezes_witness:
  "\<exists>u v. thread_block 1 sched_example = stop Yielded u \<and> ready_queue u [0x2000, 0x3000] \<and>
    scheduler_tick (Some zero_context) u = stop Deadlock v \<and> \<not> interrupt_flag v"
  using thread_block_freezes [OF sched_example_ok, of "example_thread 1 THREAD_RUNNING 0 0" zero_context] by simp

end
