(* ===== verification/Thread_Props.thy ===== *)
theory Thread_Props
  imports Sched_Props
begin

text \<open>
  Properties of the thread and mutex operations that other components rely on: which waiter a mutex wakes, what happens on a
  contended thread mutex, and what terminating a queued thread and waking the waiters of a process do to the
  queues.
\<close>

section \<open>Terminating a queued thread\<close>

lemma relinked_head:
  assumes "threads s a = Some x"
  shows "relinked s (s\<lparr>ready_head := h, threads := (threads s)(a \<mapsto> set_next n x)\<rparr>)"
  using relinked_trans [OF relinked_ends [where s = s and h = h and t = "ready_tail s"] relinked_link] assms by simp

text \<open>Removing a thread whose link has already been cleared.\<close>

lemma remove_cleared:
  assumes "linked (threads s) (ready_head s) (xs @ [t]) NULL" "distinct (xs @ [t])" "ready_tail s \<noteq> t" "\<not> lock_held (schedule_lock s)"
  shows "\<exists>u. remove_from_ready_queue t s = ret () u \<and> linked (threads u) (ready_head u) xs NULL \<and> ready_tail u = ready_tail s \<and>
    relinked (unlocked s) u"
proof -
  have tn: "t \<noteq> NULL" "t \<notin> set xs" using linked_nonnull [OF assms(1)] assms(2) by auto
  obtain th where th: "threads s t = Some th" "t_next th = NULL" using assms(1) by (auto simp: linked_append)
  have "takeWhile (\<lambda>x. x \<noteq> t) (xs @ [t]) = xs" using tn(2) by (subst takeWhile_append2) auto
  then have f: "find_in_queue t NULL (ready_head s) (locked s) = ret (last (NULL # xs), t) (locked s)"
    using find_in_queue_spec [of "locked s" "ready_head s" "xs @ [t]" t NULL] assms(1) tn by simp
  have idem: "(threads s)(t \<mapsto> set_next NULL th) = threads s" using th by (cases th) (auto simp: set_next_def fun_eq_iff)
  show ?thesis
  proof (cases xs rule: rev_cases)
    case Nil
    define v where "v = (locked s)\<lparr>ready_head := NULL, threads := (threads s)(t \<mapsto> set_next NULL th)\<rparr>"
    have rv: "relinked (locked s) v" unfolding v_def using relinked_head [of "locked s" t th] th by simp
    obtain u where u: "unlock_schedule_spin v = ret () u" "relinked (unlocked s) u" "threads u = threads v" "ready_head u = ready_head v" "ready_tail u = ready_tail v"
      using unlock_relinked [OF rv] by (auto simp: unlock_schedule_spin_def spinlock_release_def enable_interrupt_def Let_def)
    then have "remove_from_ready_queue t s = ret () u"
      using f Nil tn th assms(3,4) by (simp add: remove_from_ready_queue_def Let_def v_def)
    then show ?thesis using u Nil by (auto simp: v_def)
  next
    case (snoc ys l)
    obtain lt where lt: "threads s l = Some lt" using linked_dom [OF assms(1), of l] snoc by auto
    have l: "l \<noteq> NULL" "l \<noteq> t" using linked_nonnull [OF assms(1)] snoc tn by auto
    let ?th = "(threads s)(l \<mapsto> set_next NULL lt)"
    define v where "v = (locked s)\<lparr>threads := ?th(t \<mapsto> set_next NULL th)\<rparr>"
    have rv: "relinked (locked s) v"
      using relinked_trans [OF relinked_link [of "locked s" l lt NULL] relinked_link, of t th NULL] lt th l by (simp add: v_def)
    have "linked (threads s) (ready_head s) (ys @ [l]) t" using assms(1) snoc by (auto simp: linked_append)
    then have "linked ?th (ready_head s) xs NULL"
      using linked_redirect [where th = "threads s" and l = l and t = lt and xs = ys and q = t] lt snoc assms(2) by auto
    then have lv: "linked (threads v) (ready_head v) xs NULL" using tn(2) by (simp add: v_def)
    obtain u where u: "unlock_schedule_spin v = ret () u" "relinked (unlocked s) u" "threads u = threads v" "ready_head u = ready_head v" "ready_tail u = ready_tail v"
      using unlock_relinked [OF rv] by (auto simp: unlock_schedule_spin_def spinlock_release_def enable_interrupt_def Let_def)
    have "remove_from_ready_queue t s = ret () u"
      using f snoc l tn th lt u(1) assms(3,4) by (simp add: remove_from_ready_queue_def Let_def v_def)
    then show ?thesis using u lv by (auto simp: v_def)
  qed
qed

text \<open>C32: Terminating a thread in the middle of the ready queue cuts the queue off behind it: \<open>thread_terminate\<close> clears the
  thread's link before taking it out, so the threads \<open>ys\<close> queued behind it are no longer reachable, while the tail
  pointer still names the last of them, where threads queued later will be linked.\<close>

theorem thread_terminate_truncates:
  assumes "sched_ok s (xs @ t # ys)" "ys \<noteq> []" "threads s t = Some th" "t_proc th = NULL" "t \<noteq> current_thread s" "tid \<noteq> 0"
    "find (\<lambda>x. x \<noteq> NULL \<and> map_option t_tid (threads s x) = Some tid) (thread_table s) = Some t"
  shows "\<exists>u. thread_terminate tid s = ret 0 u \<and> linked (threads u) (ready_head u) xs NULL \<and> ready_tail u = last ys"
proof -
  let ?m = "(thread_mutex s)\<lparr>m_lock := quiet_lock s\<rparr>"
  have q: "linked (threads s) (ready_head s) (xs @ t # ys) NULL" "distinct (xs @ t # ys)" "ready_tail s = last ys"
    using assms(1,2) by (auto simp: sched_ok_def ready_queue_def)
  have tn: "t \<noteq> NULL" using linked_nonnull [OF q(1)] by auto
  have i: "idle_mutex (thread_mutex s)" using assms(1) by (simp add: sched_ok_def)
  define h where "h = s\<lparr>thread_mutex := (thread_mutex s)\<lparr>m_lock := quiet_lock s, m_locked := True, m_owner := current_thread s\<rparr>\<rparr>"
  define th' where "th' = (threads s)(t \<mapsto> set_next NULL (set_state THREAD_TERMED th))"
  define b where "b = s\<lparr>threads := th', thread_mutex := ?m\<rparr>"
  have f: "thread_from_tid tid h = ret t h"
    using thread_from_tid_spec [of h tid] assms(1,7) by (simp add: h_def sched_ok_def table_alive_def)
  have rel: "release_mutex ThreadMutex (h\<lparr>threads := th'\<rparr>) = ret () b"
  proof -
    have "h\<lparr>threads := th'\<rparr> = s\<lparr>threads := th',
        thread_mutex := (thread_mutex s)\<lparr>m_lock := quiet_lock s, m_locked := True, m_owner := current_thread s\<rparr>\<rparr>"
      unfolding h_def by (cases s) simp
    then show ?thesis using thread_mutex_section(2) [of "s\<lparr>threads := th'\<rparr>"] i by (simp add: b_def)
  qed
  have "linked (threads s) (ready_head s) (xs @ [t]) (t_next th)" using q(1) assms(3) by (auto simp: linked_append)
  then have "linked th' (ready_head s) (xs @ [t]) NULL"
    using q(2) tn assms(3) by (auto simp: th'_def linked_append)
  then have lb: "linked (threads b) (ready_head b) (xs @ [t]) NULL" by (simp add: b_def)
  obtain u where u: "remove_from_ready_queue t b = ret () u" "linked (threads u) (ready_head u) xs NULL" "ready_tail u = ready_tail b"
    using remove_cleared [OF lb] last_in_set [OF assms(2)] q(2,3) assms(1) by (fastforce simp: b_def sched_ok_def)
  have "thread_terminate tid s = ret 0 u"
    using thread_mutex_section(1) [OF i] f rel u(1) assms(3-6) tn
    by (simp add: thread_terminate_def h_def [symmetric]) (simp add: h_def th'_def set_state_def)
  then show ?thesis using u q(3) by (auto simp: b_def)
qed

theorem thread_terminate_truncates_witness:
  "\<exists>u. thread_terminate 2 sched_example = ret 0 u \<and> ready_head u = 0 \<and> ready_tail u = 0x3000"
  using thread_terminate_truncates [of sched_example "[]" "0x2000" "[0x3000]" "example_thread 2 THREAD_READY 3 0x3000" 2]
    sched_example_ok by (simp add: tick_ok_def)

section \<open>Waking the waiters of a process\<close>

lemma link_ready_spec:
  assumes "ready_queue s xs" "t \<noteq> NULL" "t \<notin> set xs" "threads s t = Some th" "t_next th = NULL" "\<not> lock_held (schedule_lock s)"
  shows "\<exists>u. link_ready t s = ret () u \<and> ready_queue u (xs @ [t]) \<and> relinked (unlocked s) u \<and> threads u t = Some th \<and>
    (\<forall>y. y \<notin> set xs \<union> {t} \<longrightarrow> threads u y = threads s y)"
proof -
  obtain v where v: "link_tail t (locked s) = ret () v" "ready_queue v (xs @ [t])" "relinked (locked s) v"
    "\<forall>y. y \<notin> set xs \<union> {t} \<longrightarrow> threads v y = threads s y"
    using link_tail_spec [of "locked s" xs t th] assms by auto
  obtain u where u: "unlock_schedule_spin v = ret () u" "relinked (unlocked s) u" "ready_queue u = ready_queue v" "threads u = threads v"
    using unlock_relinked [OF v(3)] by auto
  obtain n where n: "threads v t = Some (set_next n th)" using relinked_get [OF v(3), of t th] assms(4) by auto
  have "n = NULL" using v(2) n by (auto simp: ready_queue_def linked_append)
  then have "threads v t = Some th" using n assms(5) by (cases th) (simp add: set_next_def)
  then show ?thesis using u v assms(6) by (auto simp: link_ready_def)
qed

lemma thread_unblock_spec:
  assumes i: "idle_mutex (thread_mutex s)" "\<not> lock_held (schedule_lock s)" "ready_queue s xs" "table_alive s"
    and a: "threads s t = Some th" "t_state th = THREAD_BLOCKED" "t \<notin> set xs"
      "find (\<lambda>x. x \<noteq> NULL \<and> map_option t_tid (threads s x) = Some tid) (thread_table s) = Some t"
  shows "\<exists>u. thread_unblock tid s = ret 0 u \<and> ready_queue u (xs @ [t]) \<and> procs u = procs s \<and>
    current_thread u = current_thread s \<and> interrupt_flag u = interrupt_flag s \<and>
    threads u t = Some (set_next NULL (set_state THREAD_READY th)) \<and> (\<forall>y. y \<notin> set xs \<union> {t} \<longrightarrow> threads u y = threads s y)"
proof -
  have tn: "t \<noteq> NULL" using a(4) by (auto simp: find_Some_iff)
  let ?r = "set_next NULL (set_state THREAD_READY th)"
  define h where "h = s\<lparr>thread_mutex := (thread_mutex s)\<lparr>m_lock := quiet_lock s, m_locked := True, m_owner := current_thread s\<rparr>\<rparr>"
  define b where "b = s\<lparr>thread_mutex := (thread_mutex s)\<lparr>m_lock := quiet_lock s\<rparr>, threads := (threads s)(t \<mapsto> ?r)\<rparr>"
  have f: "thread_from_tid tid h = ret t h"
    using thread_from_tid_spec [of h tid] a(4) i(4) by (simp add: h_def table_alive_def)
  have "ready_queue b xs" using i(3) a(3) by (simp add: b_def ready_queue_def)
  then obtain u where u: "link_ready t b = ret () u" "ready_queue u (xs @ [t])" "relinked (unlocked b) u" "threads u t = Some ?r"
    "\<forall>y. y \<notin> set xs \<union> {t} \<longrightarrow> threads u y = threads b y"
    using link_ready_spec [of b xs t ?r] tn a(3) i(2) by (auto simp: b_def)
  have "thread_unblock tid s = ret 0 u"
    using thread_mutex_section [OF i(1)] f a(1,2) tn u(1)
    by (simp add: thread_unblock_def h_def [symmetric] b_def)
  then show ?thesis using u relinked_rest(1,2,6) [OF u(3)] by (auto simp: b_def)
qed

text \<open>Of the threads that wait for a process only the first is woken when it ends: \<open>thread_unblock\<close> clears the link of
  the first waiter and queues it, so the loop of \<open>wake_waiters\<close> finds no second one.  The others stay blocked,
  and the process forgets them.\<close>

theorem wake_waiters_first_only:
  assumes "sched_ok s xs" "procs s p = Some q" "p \<noteq> NULL" "idle_mutex (p_lock q)" "p_wait_head q = w"
    "linked (threads s) w (w # ws) NULL" "distinct (w # ws)" "set (w # ws) \<inter> set xs = {}"
    "\<forall>y\<in>set (w # ws). map_option t_state (threads s y) = Some THREAD_BLOCKED"
    "\<forall>tw. threads s w = Some tw \<longrightarrow>
       find (\<lambda>x. x \<noteq> NULL \<and> map_option t_tid (threads s x) = Some (t_tid tw)) (thread_table s) = Some w"
  shows "\<exists>u. wake_waiters p s = ret () u \<and> ready_queue u (xs @ [w]) \<and>
    (\<forall>y\<in>set ws. map_option t_state (threads u y) = Some THREAD_BLOCKED) \<and>
    map_option p_wait_head (procs u p) = Some NULL"
proof -
  let ?q = "q\<lparr>p_lock := (p_lock q)\<lparr>m_lock := quiet_lock s, m_locked := True, m_owner := current_thread s\<rparr>\<rparr>"
  define h where "h = s\<lparr>procs := (procs s)(p \<mapsto> ?q)\<rparr>"
  have acq: "acquire_mutex (ProcLock p) s = ret 0 h"
    using acquire_mutex_free [of "ProcLock p" s "p_lock q"] assms(2,4) by (simp add: idle_mutex_def h_def)
  obtain tw where tw: "threads s w = Some tw" "t_state tw = THREAD_BLOCKED" "w \<noteq> NULL" using assms(6,9) by auto
  have find: "find (\<lambda>x. x \<noteq> NULL \<and> map_option t_tid (threads s x) = Some (t_tid tw)) (thread_table s) = Some w"
    using assms(10) tw(1) by blast
  have okh: "ready_queue h xs" "\<not> lock_held (schedule_lock h)" "idle_mutex (thread_mutex h)" "table_alive h"
    using assms(1) by (simp_all add: h_def sched_ok_def ready_queue_def table_alive_def)
  have "threads h w = Some tw" "w \<notin> set xs" using tw(1) assms(8) by (auto simp: h_def)
  then obtain v where v: "thread_unblock (t_tid tw) h = ret 0 v" "ready_queue v (xs @ [w])" "procs v = procs h"
    "current_thread v = current_thread s" "interrupt_flag v = interrupt_flag s"
    "threads v w = Some (set_next NULL (set_state THREAD_READY tw))" "\<forall>y. y \<notin> set xs \<union> {w} \<longrightarrow> threads v y = threads s y"
    using thread_unblock_spec [OF okh(3,2,1,4) _ tw(2), of w "t_tid tw"] find by (auto simp: h_def)
  have loop: "wake_loop w h = ret () v"
    using tw(1,3) v(1,6) by (subst wake_loop.simps, simp add: h_def, subst wake_loop.simps, simp add: h_def)
  let ?r = "?q\<lparr>p_wait_head := NULL, p_wait_tail := NULL\<rparr>"
  let ?u = "v\<lparr>procs := (procs v)(p \<mapsto> ?r\<lparr>p_lock := (p_lock q)\<lparr>m_lock := quiet_lock s, m_locked := False, m_owner := NULL\<rparr>\<rparr>)\<rparr>"
  have "release_mutex (ProcLock p) (v\<lparr>procs := (procs v)(p \<mapsto> ?r)\<rparr>) = ret () ?u"
    using release_mutex_free [of "ProcLock p" "v\<lparr>procs := (procs v)(p \<mapsto> ?r)\<rparr>"] assms(4) v(4,5)
    by (cases "p_lock q") (simp add: idle_mutex_def)
  then have "wake_waiters p s = ret () ?u"
    using acq loop assms(3,5) v(3) by (simp add: wake_waiters_def) (simp add: h_def)
  moreover have "map_option t_state (threads ?u y) = Some THREAD_BLOCKED" if "y \<in> set ws" for y
  proof -
    have "y \<notin> set xs \<union> {w}" using that assms(7,8) by auto
    then show ?thesis using that v(7) assms(9) by simp
  qed
  moreover have "ready_queue ?u (xs @ [w])" using v(2) by (simp add: ready_queue_def)
  ultimately show ?thesis by (intro exI [of _ ?u]) simp
qed

definition wait_example :: sched_state where
  "wait_example = sched_example
     \<lparr>threads := [0x1000 \<mapsto> example_thread 1 THREAD_RUNNING 0 0, 0x2000 \<mapsto> example_thread 2 THREAD_BLOCKED 0 0x3000,
                  0x3000 \<mapsto> example_thread 3 THREAD_BLOCKED 0 0],
      procs := [0x9000 \<mapsto> zero_process\<lparr>p_wait_head := 0x2000, p_wait_tail := 0x3000\<rparr>],
      ready_head := 0, ready_tail := 0\<rparr>"

theorem wake_waiters_first_only_witness:
  "\<exists>u. wake_waiters 0x9000 wait_example = ret () u \<and> ready_queue u [0x2000] \<and>
    map_option t_state (threads u 0x3000) = Some THREAD_BLOCKED"
proof -
  have ok: "sched_ok wait_example []"
    by (simp add: wait_example_def sched_ok_def ready_queue_def idle_mutex_def zero_mutex_def table_alive_def MAX_THREADS_def)
  show ?thesis
    using wake_waiters_first_only [OF ok, of "0x9000" "zero_process\<lparr>p_wait_head := 0x2000, p_wait_tail := 0x3000\<rparr>" "0x2000" "[0x3000]"]
    by (auto simp: wait_example_def zero_process_def idle_mutex_def zero_mutex_def)
qed

section \<open>Mutexes\<close>

lemma relinked_mutex: "relinked s u \<Longrightarrow> mutex_of m u = mutex_of m s"
  by (cases m) (auto simp: relinked_def)

lemma unlocked_mutex [simp]: "mutex_of m (unlocked s) = mutex_of m s"
  by (cases m) (auto simp: unlocked_def)

lemma ready_queue_flag: "ready_queue (s\<lparr>interrupt_flag := b\<rparr>) = ready_queue s"
  by (simp add: ready_queue_def fun_eq_iff)

lemma wait_queue_frame:
  "wait_queue m s xs \<Longrightarrow> \<forall>y\<in>set xs. threads u y = threads s y \<Longrightarrow> mutex_of m u = Some x' \<Longrightarrow> mutex_of m s = Some x \<Longrightarrow>
   m_waiter_head x' = m_waiter_head x \<Longrightarrow> m_waiter_tail x' = m_waiter_tail x \<Longrightarrow> m_waiter_count x' = m_waiter_count x \<Longrightarrow>
   wait_queue m u xs"
  using linked_cong [of xs "threads u" "threads s"] by (simp add: wait_queue_def)

text \<open>C16: Releasing a mutex that threads wait for leaves it unlocked and without an owner, makes the longest waiting thread ready
  and queues it behind the ready threads; the other waiters keep waiting in their order, and the interrupt flag is as
  before.\<close>

theorem release_mutex_wakes_first:
  assumes "mutex_of m s = Some x" "\<not> lock_held (m_lock x)" "m_owner x = current_thread s" "wait_queue m s (t # ws)"
    "ready_queue s xs" "set (t # ws) \<inter> set xs = {}" "\<not> lock_held (schedule_lock s)"
  shows "\<exists>u y. release_mutex m s = ret () u \<and> mutex_of m u = Some y \<and> \<not> m_locked y \<and> m_owner y = NULL \<and> \<not> lock_held (m_lock y) \<and>
    wait_queue m u ws \<and> ready_queue u (xs @ [t]) \<and> map_option t_state (threads u t) = Some THREAD_READY \<and>
    interrupt_flag u = interrupt_flag s"
proof -
  define x1 where "x1 = x\<lparr>m_lock := taken_lock s, m_locked := False, m_owner := NULL\<rparr>"
  define a where "a = (set_mutex m x1 s)\<lparr>interrupt_flag := False\<rparr>"
  have ma: "mutex_of m a = Some x1" using assms(1) by (simp add: a_def)
  have wa: "wait_queue m a (t # ws)"
    by (rule wait_queue_frame [OF assms(4) _ ma assms(1)]) (simp_all add: a_def x1_def)
  obtain n where n: "threads a t = Some n" "m_waiter_head x1 = t" "t \<noteq> NULL"
    and b: "let u = set_mutex m (x1\<lparr>m_waiter_head := t_next n, m_waiter_tail := last (NULL # ws), m_waiter_count := of_nat (length ws)\<rparr>) a
       in take_waiter m a = ret t u \<and> wait_queue m u ws"
    using take_waiter_spec [OF wa] ma by auto
  define x2 where "x2 = x1\<lparr>m_waiter_head := t_next n, m_waiter_tail := last (NULL # ws), m_waiter_count := of_nat (length ws)\<rparr>"
  define c where "c = set_mutex m x2 a"
  have tk: "take_waiter m a = ret t c" "wait_queue m c ws" using b by (simp_all add: c_def x2_def Let_def)
  have mc: "mutex_of m c = Some x2" using ma by (simp add: c_def)
  define d where "d = c\<lparr>threads := (threads c)(t \<mapsto> set_state THREAD_READY n)\<rparr>"
  have fd: "threads d t = Some (set_state THREAD_READY n)" "\<not> lock_held (schedule_lock d)" "ready_queue d xs" "\<not> interrupt_flag d"
    using assms(5,6,7) by (simp_all add: d_def c_def a_def ready_queue_def) (cases m; simp)+
  have "d\<lparr>threads := (threads d)(t \<mapsto> set_state THREAD_READY (set_state THREAD_READY n))\<rparr> = d"
    using fd(1) by (simp add: d_def set_state_def)
  then obtain e where e: "add_to_ready_queue t d = ret () e" "ready_queue e (xs @ [t])" "relinked (unlocked d) e"
    "\<forall>y. y \<notin> set xs \<union> {t} \<longrightarrow> threads e y = threads d y"
    using add_new [OF fd(3) _ n(3) fd(1) _ fd(2)] assms(6) by (auto simp: set_state_def)
  have me: "mutex_of m e = Some x2" using relinked_mutex [OF e(3)] mc by (simp add: d_def)
  define u where "u = (set_mutex m (x2\<lparr>m_lock := quiet_lock s\<rparr>) e)\<lparr>interrupt_flag := interrupt_flag s\<rparr>"
  have fl: "\<not> interrupt_flag e" using relinked_rest(6) [OF e(3)] fd(4) by simp
  have un: "mutex_unspin m e = ret () u"
    using mutex_unspin_taken [OF me _ fl, of "interrupt_flag s"] by (simp add: x2_def x1_def u_def)
  have "release_mutex m s = ret () u"
    using assms(1,2,3) mutex_of_not_Null [OF assms(1)] n tk(1) e(1) un
    by (simp add: release_mutex_def x1_def a_def [symmetric, unfolded x1_def])
       (simp add: a_def x1_def d_def c_def)
  moreover have "wait_queue m u ws"
  proof (rule wait_queue_frame [OF tk(2) _ _ mc])
    show "mutex_of m u = Some (x2\<lparr>m_lock := quiet_lock s\<rparr>)" using me by (simp add: u_def)
    have "t \<notin> set ws" using assms(1,4) by (simp add: wait_queue_def)
    then show "\<forall>y\<in>set ws. threads u y = threads c y" using e(4) assms(6) by (auto simp: u_def d_def)
  qed simp_all
  moreover obtain k where "threads e t = Some (set_next k (set_state THREAD_READY n))"
    using relinked_get [OF e(3), of t] fd(1) by auto
  moreover have "ready_queue u (xs @ [t])" using e(2) by (simp add: u_def ready_queue_flag)
  ultimately show ?thesis
    using me by (intro exI [of _ u] exI [of _ "x2\<lparr>m_lock := quiet_lock s\<rparr>"]) (simp add: u_def x2_def x1_def set_state_def)
qed

definition mutex_example :: sched_state where
  "mutex_example = wait_example
     \<lparr>process_table_lock := zero_mutex\<lparr>m_locked := True, m_owner := 0x1000, m_waiter_head := 0x2000, m_waiter_tail := 0x3000,
                                        m_waiter_count := 2\<rparr>\<rparr>"

theorem release_mutex_wakes_first_witness:
  "\<exists>u. release_mutex ProcTableLock mutex_example = ret () u \<and> \<not> m_locked (process_table_lock u) \<and>
    wait_queue ProcTableLock u [0x3000] \<and> ready_queue u [0x2000]"
  using release_mutex_wakes_first [of ProcTableLock mutex_example "process_table_lock mutex_example" "0x2000" "[0x3000]" "[]"]
  by (auto simp: mutex_example_def wait_example_def zero_mutex_def wait_queue_def ready_queue_def)

section \<open>A contended thread mutex\<close>

text \<open>The mutex is held, the current thread exists, and so does the last waiter.\<close>

definition contended :: "'r sched_state_scheme \<Rightarrow> bool" where
  "contended s \<longleftrightarrow> m_locked (thread_mutex s) \<and> \<not> lock_held (m_lock (thread_mutex s)) \<and> threads s (current_thread s) \<noteq> None \<and>
     (m_waiter_tail (thread_mutex s) \<noteq> NULL \<longrightarrow> threads s (m_waiter_tail (thread_mutex s)) \<noteq> None)"

lemma join_waiters_contended:
  assumes "m_locked (thread_mutex s)" "threads s (current_thread s) \<noteq> None"
    "m_waiter_tail (thread_mutex s) \<noteq> NULL \<longrightarrow> threads s (m_waiter_tail (thread_mutex s)) \<noteq> None"
  shows "\<exists>u. join_waiters ThreadMutex (current_thread s) s = ret () u \<and> m_locked (thread_mutex u) \<and>
    m_lock (thread_mutex u) = m_lock (thread_mutex s) \<and> threads u (current_thread u) \<noteq> None \<and>
    m_waiter_tail (thread_mutex u) = current_thread u \<and> interrupt_flag u = interrupt_flag s"
  using assms by (cases "m_waiter_tail (thread_mutex s) = NULL"; cases "m_waiter_tail (thread_mutex s) = current_thread s")
    (auto simp: join_waiters_def)

text \<open>Blocking on the thread mutex acquires the thread mutex.\<close>

lemma acquire_contended:
  assumes "acquire_mutex m s = Some r"
  shows "\<not> (m = ThreadMutex \<and> contended s)"
proof (rule acquire_mutex.raw_induct [where P = "\<lambda>m s r. \<not> (m = ThreadMutex \<and> contended s)", OF _ assms])
  fix acq m and s :: "'r sched_state_scheme" and r
  assume IH: "\<And>m s r. acq m s = Some r \<Longrightarrow> \<not> (m = ThreadMutex \<and> contended s)"
    and body: "seq (mutex_spin m s) (\<lambda>_ s.
       seq (get_mutex m s) (\<lambda>x s.
         if \<not> m_locked x
         then seq (put_mutex m (\<lambda>x. x\<lparr>m_locked := True, m_owner := current_thread s\<rparr>) s) (\<lambda>_ s.
           seq (mutex_unspin m s) (\<lambda>_ s. ret 0 s))
         else seq (join_waiters m (current_thread s) s) (\<lambda>_ s.
           seq (mutex_unspin m s) (\<lambda>_ s.
             seq (get_thread (current_thread s) s) (\<lambda>cur s.
               seq (acq ThreadMutex s) (\<lambda>_ s.
                 seq (thread_block_locked (t_tid cur) s) (\<lambda>_ s. acq m s))))))) = Some r"
  show "\<not> (m = ThreadMutex \<and> contended s)"
  proof
    assume c: "m = ThreadMutex \<and> contended s"
    let ?s = "s\<lparr>thread_mutex := (thread_mutex s)\<lparr>m_lock := taken_lock s\<rparr>, interrupt_flag := False\<rparr>"
    obtain u where u: "join_waiters ThreadMutex (current_thread s) ?s = ret () u" "m_locked (thread_mutex u)"
      "m_lock (thread_mutex u) = taken_lock s" "threads u (current_thread u) \<noteq> None"
      "m_waiter_tail (thread_mutex u) = current_thread u" "\<not> interrupt_flag u"
      using join_waiters_contended [of ?s] c by (auto simp: contended_def)
    let ?v = "u\<lparr>thread_mutex := (thread_mutex u)\<lparr>m_lock := quiet_lock s\<rparr>, interrupt_flag := interrupt_flag s\<rparr>"
    have "mutex_unspin ThreadMutex u = ret () ?v"
      using mutex_unspin_taken [of ThreadMutex u "thread_mutex u" "interrupt_flag s"] u(3,6) by simp
    moreover have "contended ?v" using u by (simp add: contended_def)
    then have "acq ThreadMutex ?v = None" using IH [of ThreadMutex ?v] by (cases "acq ThreadMutex ?v") auto
    ultimately have "False" using body c u by (auto simp: contended_def)
    then show False .
  qed
qed

text \<open>C33: A second thread that needs the thread mutex while it is held never gets to wait for it: blocking on a mutex calls
  \<open>thread_block\<close>, which first acquires the thread mutex itself, so the calls nest without end.  The same happens
  to \<open>clean_up\<close>, which every scheduler tick calls, and to \<open>thread_create\<close>.\<close>

theorem thread_mutex_contention_diverges:
  assumes "contended s" "function \<noteq> 0"
  shows "acquire_mutex ThreadMutex s = None \<and> clean_up s = None \<and>
    thread_create function argc argv privilege priority owner_pid s = None"
proof -
  have n: "acquire_mutex ThreadMutex s = None"
    using acquire_contended [of ThreadMutex s] assms(1) by (cases "acquire_mutex ThreadMutex s") auto
  then show ?thesis using assms(2) by (simp add: clean_up_def thread_create_def)
qed

theorem thread_mutex_contention_diverges_witness:
  "let s = sched_example\<lparr>thread_mutex := zero_mutex\<lparr>m_locked := True, m_owner := 0x2000\<rparr>\<rparr> in
   acquire_mutex ThreadMutex s = None \<and> clean_up s = None \<and>
   thread_create 0x400000 0 0 THREAD_RING_0 THREAD_PRIO_NORMAL 0 s = None"
  using thread_mutex_contention_diverges [of "sched_example\<lparr>thread_mutex := zero_mutex\<lparr>m_locked := True, m_owner := 0x2000\<rparr>\<rparr>" "0x400000"]
  by (simp add: contended_def zero_mutex_def)

end
