(* ===== verification/Heap_Frame.thy ===== *)
theory Heap_Frame
  imports Kheap
begin

text \<open>
  The memory management keeps to its own state: no operation of the page tables or the heap changes what a client adds
  to the state record.
\<close>

lemma pmm_alloc_page_more:
  "vmm_state.more (snd (pmm_alloc_page s)) = vmm_state.more s"
  by (auto simp: pmm_alloc_page_def split: option.splits)

lemma alloc_table_more: "alloc_table s = Some (p, u) \<Longrightarrow> vmm_state.more u = vmm_state.more s"
  using pmm_alloc_page_more [of s] by (auto simp: alloc_table_def zero_page_def split: prod.splits if_splits)

lemma walk_level_more: "walk_level e c s = Some (ok, u) \<Longrightarrow> vmm_state.more u = vmm_state.more s"
  by (auto simp: walk_level_def bind_eq_Some_conv split: if_splits dest: alloc_table_more)

lemma walk_more: "walk v c s = Some (p, u) \<Longrightarrow> vmm_state.more u = vmm_state.more s"
  by (auto simp: walk_def Let_def bind_eq_Some_conv split: if_splits dest!: walk_level_more)

lemma vmm_map_more: "vmm_map v p f s = Some u \<Longrightarrow> vmm_state.more u = vmm_state.more s"
  by (auto simp: vmm_map_def invlpg_def Let_def bind_eq_Some_conv dest!: walk_more)

lemma create_address_space_more: "create_address_space s = Some (p, u) \<Longrightarrow> vmm_state.more u = vmm_state.more s"
  using pmm_alloc_page_more [of s]
  by (auto simp: create_address_space_def zero_page_def copy_upper_half_def Let_def split: prod.splits if_splits)

lemma vwrite_more: "vwrite v x s = Some u \<Longrightarrow> vmm_state.more u = vmm_state.more s"
  by (auto simp: vwrite_def)

lemma set_block_more:
  "set_block_size p n s = Some u \<Longrightarrow> vmm_state.more u = vmm_state.more s"
  "set_block_free p b s = Some u \<Longrightarrow> vmm_state.more u = vmm_state.more s"
  "set_block_next p n s = Some u \<Longrightarrow> vmm_state.more u = vmm_state.more s"
  by (auto simp: set_block_size_def set_block_free_def set_block_next_def bind_eq_Some_conv dest: vwrite_more)

lemma split_block_more: "split_block b n s = Some u \<Longrightarrow> vmm_state.more u = vmm_state.more s"
  by (auto simp: split_block_def Let_def bind_eq_Some_conv split: if_splits dest!: set_block_more)

lemma map_heap_pages_more:
  assumes "map_heap_pages a k n s = Some (b, u)"
  shows "vmm_state.more u = vmm_state.more s"
proof -
  have "vmm_state.more (snd r) = vmm_state.more s" if "map_heap_pages a k n s = Some r" for r
  proof (rule map_heap_pages.raw_induct [where P = "\<lambda>a k n s r. vmm_state.more (snd r) = vmm_state.more s", OF _ that])
    fix f a k n and s :: "'a vmm_state_scheme" and r
    assume IH: "\<And>a k n s r. f a k n s = Some r \<Longrightarrow> vmm_state.more (snd r) = vmm_state.more s"
      and body: "(if k < n then let (physical, s) = pmm_alloc_page s in
            if physical = 0 then Some (False, s)
            else Option.bind (vmm_map (a + k) physical (VMM_PRESENT OR VMM_WRITE) s) (\<lambda>s. f a (k + PAGE_SIZE_VMM) n s)
          else Some (True, s)) = Some r"
    show "vmm_state.more (snd r) = vmm_state.more s"
      using body pmm_alloc_page_more [of s]
      by (auto simp: bind_eq_Some_conv split: if_splits prod.splits dest!: IH vmm_map_more)
  qed
  then show ?thesis using assms by fastforce
qed

lemma kheap_more: "vmm_state.more u = vmm_state.more s \<Longrightarrow> kheap_state.more u = kheap_state.more s"
  for s u :: "'a kheap_state_scheme"
  by (cases s; cases u) simp

lemma request_more_memory_more: "request_more_memory n s = Some (p, u) \<Longrightarrow> kheap_state.more u = kheap_state.more s"
  by (auto simp: request_more_memory_def Let_def bind_eq_Some_conv split: if_splits
      dest!: set_block_more [THEN kheap_more] map_heap_pages_more [THEN kheap_more])

lemma kmalloc_more:
  assumes "kmalloc n s = Some (p, u)"
  shows "kheap_state.more u = kheap_state.more s"
  using assms
  by (auto simp: kmalloc_def kheap_alloc_def Let_def bind_eq_Some_conv kerror_def kprint_def emit_def split: if_splits
      dest!: set_block_more [THEN kheap_more] split_block_more [THEN kheap_more] request_more_memory_more)

lemma coalesce_more:
  assumes "coalesce_loop c s = Some u"
  shows "vmm_state.more u = vmm_state.more s"
  by (rule coalesce_loop.raw_induct [where P = "\<lambda>c s u. vmm_state.more u = vmm_state.more s", OF _ assms])
    (fastforce simp: bind_eq_Some_conv split: if_splits dest!: set_block_more)

lemma kfree_more: "kfree p s = Some u \<Longrightarrow> kheap_state.more u = kheap_state.more s"
  by (auto simp: kfree_def kheap_free_def bind_eq_Some_conv split: if_splits
      dest!: set_block_more [THEN kheap_more] coalesce_more [THEN kheap_more])

end
