(* ===== verification/Process_Props.thy ===== *)
theory Process_Props
  imports Thread_Props Heap_Frame
begin

text \<open>
  The process table.  No operation that creates processes or threads stores anything in it, so a created process cannot be
  found by its ID.
\<close>

section \<open>Operations that leave the process table alone\<close>

named_theorems table_intros

definition table_is :: "addr list \<Rightarrow> ('a, 'r) sched_result \<Rightarrow> bool" where
  "table_is v m \<longleftrightarrow> (\<forall>a u. m = ret a u \<longrightarrow> process_table u = v)"

lemma table_is_simps [simp]:
  "table_is v (ret a s) \<longleftrightarrow> process_table s = v" "table_is v (stop w s)" "table_is v None"
  by (auto simp: table_is_def)

lemma table_seq [table_intros]:
  "table_is v m \<Longrightarrow> (\<And>a u. process_table u = v \<Longrightarrow> table_is v (f a u)) \<Longrightarrow> table_is v (seq m f)"
  by (auto simp: table_is_def seq_Done_iff)

lemma table_if [table_intros]: "(b \<Longrightarrow> table_is v m) \<Longrightarrow> (\<not> b \<Longrightarrow> table_is v n) \<Longrightarrow> table_is v (if b then m else n)"
  by simp

lemma table_call: "(\<And>p u. m = Some (p, u) \<Longrightarrow> process_table u = v) \<Longrightarrow> table_is v (call m)"
  by (cases m) (auto simp: call_def table_is_def)

lemma table_more: "kheap_state.more u = kheap_state.more s \<Longrightarrow> process_table u = process_table s"
  for s u :: "'r sched_state_scheme"
  by (cases s; cases u) simp

lemma table_kmalloc [table_intros]: "process_table s = v \<Longrightarrow> table_is v (call (kmalloc n s))"
  by (rule table_call) (auto dest!: kmalloc_more table_more)

lemma table_access [table_intros]:
  "process_table s = v \<Longrightarrow> table_is v (get_thread p s)" "process_table s = v \<Longrightarrow> table_is v (put_thread p f s)"
  "process_table s = v \<Longrightarrow> table_is v (get_proc p s)" "process_table s = v \<Longrightarrow> table_is v (put_proc p g s)"
  by (auto simp: get_thread_def put_thread_def get_proc_def put_proc_def split: option.splits)

lemma table_mutex_access [table_intros]:
  "process_table s = v \<Longrightarrow> table_is v (get_mutex m s)" "process_table s = v \<Longrightarrow> table_is v (put_mutex m f s)"
  by (cases m; auto intro!: table_intros)+

lemma table_locks [table_intros]:
  "process_table s = v \<Longrightarrow> table_is v (lock_schedule_spin s)" "process_table s = v \<Longrightarrow> table_is v (unlock_schedule_spin s)"
  by (auto simp: lock_schedule_spin_def unlock_schedule_spin_def spinlock_defs spinning_def Let_def split: option.splits)

lemma table_free_block [table_intros]: "process_table s = v \<Longrightarrow> table_is v (free_block p s)"
  unfolding free_block_def by (rule table_call) (auto dest!: kfree_more table_more)

lemma table_free [table_intros]:
  "process_table s = v \<Longrightarrow> table_is v (free_thread p s)" "process_table s = v \<Longrightarrow> table_is v (free_proc p s)"
  "process_table s = v \<Longrightarrow> table_is v (free_nonnull p s)"
  by (auto simp: free_thread_def free_proc_def free_nonnull_def intro!: table_intros)

lemma table_mutex_spin [table_intros]:
  "process_table s = v \<Longrightarrow> table_is v (mutex_spin m s)" "process_table s = v \<Longrightarrow> table_is v (mutex_unspin m s)"
  by (auto simp: mutex_spin_def mutex_unspin_def spinlock_defs intro!: table_intros split: option.splits)

lemma table_queue [table_intros]:
  "process_table s = v \<Longrightarrow> table_is v (link_tail t s)" "process_table s = v \<Longrightarrow> table_is v (enqueue_ready_tail t s)"
  "process_table s = v \<Longrightarrow> table_is v (link_ready t s)"
  by (auto simp: link_tail_def enqueue_ready_tail_def link_ready_def intro!: table_intros)

lemma table_find_in_queue [table_intros]:
  assumes "process_table s = v"
  shows "table_is v (find_in_queue t prev cur s)"
proof -
  have "process_table s = v \<longrightarrow> table_is v (Some r)" if "find_in_queue t prev cur s = Some r" for r
  proof (rule find_in_queue.raw_induct [where P = "\<lambda>t prev cur s r. process_table s = v \<longrightarrow> table_is v (Some r)", OF _ that])
    fix f t prev cur and s :: "'a sched_state_scheme" and r
    assume IH: "\<And>t prev cur s r. f t prev cur s = Some r \<Longrightarrow> process_table s = v \<longrightarrow> table_is v (Some r)"
      and body: "(if cur = NULL \<or> cur = t then ret (prev, cur) s
        else seq (get_thread cur s) (\<lambda>c s. f t cur (t_next c) s)) = Some r"
    have "table_is v (f t prev cur s)" if "process_table s = v" for t prev cur s
      using IH [of t prev cur s] that by (cases "f t prev cur s") auto
    then have "process_table s = v \<Longrightarrow> table_is v (if cur = NULL \<or> cur = t then ret (prev, cur) s
        else seq (get_thread cur s) (\<lambda>c s. f t cur (t_next c) s))" by (auto intro!: table_intros)
    then show "process_table s = v \<longrightarrow> table_is v (Some r)" unfolding body by blast
  qed
  then show ?thesis using assms by (cases "find_in_queue t prev cur s") auto
qed

lemma table_ready_queue [table_intros]:
  "process_table s = v \<Longrightarrow> table_is v (add_to_ready_queue t s)" "process_table s = v \<Longrightarrow> table_is v (remove_from_ready_queue t s)"
  by (auto simp: add_to_ready_queue_def remove_from_ready_queue_def Let_def intro!: table_intros)

lemma table_waiters [table_intros]:
  "process_table s = v \<Longrightarrow> table_is v (join_waiters m t s)" "process_table s = v \<Longrightarrow> table_is v (take_waiter m s)"
  "process_table s = v \<Longrightarrow> table_is v (release_mutex m s)"
  by (auto simp: join_waiters_def take_waiter_def release_mutex_def Let_def intro!: table_intros)

lemma table_find [table_intros]:
  "process_table s = v \<Longrightarrow> table_is v (find_tid tid ts s)" "process_table s = v \<Longrightarrow> table_is v (find_pid pid ts s)"
  by (induction ts arbitrary: s) (auto intro!: table_intros)

lemma table_thread_block [table_intros]: "process_table s = v \<Longrightarrow> table_is v (thread_block_locked tid s)"
  by (auto simp: thread_block_locked_def thread_from_tid_def sched_hcf_def int_0x20_def intro!: table_intros)

lemma table_acquire [table_intros]:
  assumes "process_table s = v"
  shows "table_is v (acquire_mutex m s)"
proof -
  have "process_table s = v \<longrightarrow> table_is v (Some r)" if "acquire_mutex m s = Some r" for r
  proof (rule acquire_mutex.raw_induct [where P = "\<lambda>m s r. process_table s = v \<longrightarrow> table_is v (Some r)", OF _ that])
    fix acq m and s :: "'a sched_state_scheme" and r
    let ?body = "seq (mutex_spin m s) (\<lambda>_ s.
       seq (get_mutex m s) (\<lambda>x s.
         if \<not> m_locked x
         then seq (put_mutex m (\<lambda>x. x\<lparr>m_locked := True, m_owner := current_thread s\<rparr>) s) (\<lambda>_ s.
           seq (mutex_unspin m s) (\<lambda>_ s. ret 0 s))
         else seq (join_waiters m (current_thread s) s) (\<lambda>_ s.
           seq (mutex_unspin m s) (\<lambda>_ s.
             seq (get_thread (current_thread s) s) (\<lambda>cur s.
               seq (acq ThreadMutex s) (\<lambda>_ s.
                 seq (thread_block_locked (t_tid cur) s) (\<lambda>_ s. acq m s)))))))"
    assume IH: "\<And>m s r. acq m s = Some r \<Longrightarrow> process_table s = v \<longrightarrow> table_is v (Some r)" and body: "?body = Some r"
    have "table_is v (acq m s)" if "process_table s = v" for m s
      using IH [of m s] that by (cases "acq m s") auto
    then have "process_table s = v \<Longrightarrow> table_is v ?body" by (auto intro!: table_intros)
    then show "process_table s = v \<longrightarrow> table_is v (Some r)" unfolding body by blast
  qed
  then show ?thesis using assms by (cases "acquire_mutex m s") auto
qed

lemma table_process_from_pid [table_intros]: "process_table s = v \<Longrightarrow> table_is v (process_from_pid pid s)"
  by (auto simp: process_from_pid_def intro!: table_intros)

lemma table_process_add_thread [table_intros]: "process_table s = v \<Longrightarrow> table_is v (process_add_thread p t s)"
  by (auto simp: process_add_thread_def intro!: table_intros)

lemma table_thread_parts [table_intros]:
  "process_table s = v \<Longrightarrow> table_is v (alloc_stacks t privilege s)" "process_table s = v \<Longrightarrow> table_is v (attach_owner pid t s)"
  "process_table s = v \<Longrightarrow> table_is v (free_stacks t privilege s)" "process_table s = v \<Longrightarrow> table_is v (unlock_fail s)"
  by (auto simp: alloc_stacks_def attach_owner_def free_stacks_def unlock_fail_def intro!: table_intros)

lemma table_thread_create [table_intros]:
  "process_table s = v \<Longrightarrow> table_is v (thread_create f argc argv privilege priority pid s)"
  by (auto simp: thread_create_def Let_def intro!: table_intros split: option.split)

lemma find_free_slot_update:
  assumes "\<not> find_free_slot table < 0"
  shows "table[nat (find_free_slot table) := NULL] = table"
proof (cases "find (\<lambda>i. table ! i = NULL) [0..<MAX_PROCS]")
  case None
  then show ?thesis using assms by (simp add: find_free_slot_def)
next
  case (Some i)
  then have "table ! i = NULL" by (auto simp: find_Some_iff)
  then show ?thesis using Some by (simp add: find_free_slot_def) (metis list_update_id)
qed

lemma table_address_space [table_intros]: "process_table s = v \<Longrightarrow> table_is v (new_address_space user s)"
  by (auto simp: new_address_space_def intro!: table_intros table_call dest!: create_address_space_more kheap_more table_more)

lemma table_init_mutex [table_intros]: "process_table s = v \<Longrightarrow> table_is v (init_mutex m s)"
  by (auto simp: init_mutex_def intro!: table_intros)

section \<open>Creating a process\<close>

text \<open>C34: A process is never registered: whatever \<open>process_create\<close> returns, the process table is as before.  The free slot it
  looked for stays empty, so \<open>process_from_pid\<close>, \<open>process_wait\<close> and \<open>process_terminate\<close> cannot find the new
  process.\<close>

theorem process_create_unregistered:
  "table_is (process_table s) (process_create entry argc argv ppid is_userspace s)"
  unfolding process_create_def Let_def
  by (intro table_intros) (auto intro!: table_intros simp: find_free_slot_update)

end
