(* ===== verification/Sched_Fair.thy ===== *)
theory Sched_Fair
  imports Sched_Props
begin

text \<open>
  The scheduler shares the processor by strides.  Every thread of the queue has a due time: how many
  more queue visits pass before it is picked.  A tick picks the thread that is due first, brings every
  other thread that much nearer, and makes the picked one wait its stride times the number of threads.
  It follows that no ready thread starves.
\<close>

section \<open>Due times\<close>

definition place :: "'a list \<Rightarrow> 'a \<Rightarrow> nat" where
  "place q y = length (takeWhile (\<lambda>z. z \<noteq> y) q)"

definition due :: "'r sched_state_scheme \<Rightarrow> addr list \<Rightarrow> addr \<Rightarrow> nat" where
  "due s q y = nat (cooldown s y) * length q + place q y"

definition stride :: "'r sched_state_scheme \<Rightarrow> addr \<Rightarrow> nat" where
  "stride s x = (case threads s x of None \<Rightarrow> 0 | Some t \<Rightarrow> nat (priority_to_stride (t_priority t)))"

lemma place_less: "y \<in> set q \<Longrightarrow> place q y < length q"
  unfolding place_def by (induction q) auto

lemma place_Cons [simp]: "place (x # q) y = (if x = y then 0 else Suc (place q y))"
  by (simp add: place_def)

lemma place_append: "place (q @ r) y = (if y \<in> set q then place q y else length q + place r y)"
  by (induction q) (auto simp: place_def)

text \<open>Sending the head to the end of the queue brings everybody one visit nearer.\<close>

lemma place_rotate: "x \<notin> set zs \<Longrightarrow> y \<in> set zs \<Longrightarrow> place (x # zs) y = Suc (place (zs @ [x]) y)"
  by (auto simp: place_append)

lemma place_last: "x \<notin> set zs \<Longrightarrow> place (zs @ [x]) x = length zs"
  by (simp add: place_append)

lemma due_wait:
  assumes "x \<notin> set zs" "cooldown v = (cooldown s)(x := cooldown s x - 1)" "0 < cooldown s x" "y \<in> set (x # zs)"
  shows "due s (x # zs) y = Suc (due v (zs @ [x]) y)"
proof (cases "y = x")
  case True
  have "nat (cooldown s x) = Suc (nat (cooldown s x - 1))" using assms(3) by simp
  then show ?thesis using True assms(1,2) by (simp add: due_def place_last)
next
  case False
  then show ?thesis using assms place_rotate [OF assms(1), of y] by (simp add: due_def)
qed

section \<open>One selection\<close>

text \<open>What the selection does to due times: \<open>q\<close> is the queue before, \<open>ws\<close> the queue after, behind which
  the picked thread \<open>x\<close> will join again.\<close>

definition stride_step ::
  "'r sched_state_scheme \<Rightarrow> addr list \<Rightarrow> addr \<Rightarrow> 'r sched_state_scheme \<Rightarrow> addr list \<Rightarrow> bool" where
  "stride_step s q x u ws \<longleftrightarrow> x \<in> set q \<and> set (ws @ [x]) = set q \<and> length (ws @ [x]) = length q \<and>
     (\<forall>y\<in>set q - {x}. due s q x < due s q y \<and> due u (ws @ [x]) y = due s q y - due s q x - 1) \<and>
     due u (ws @ [x]) x = stride s x * length q - 1 \<and> (\<forall>y. stride u y = stride s y)"

lemma stride_step_rotate:
  assumes "stride_step v (zs @ [x]) w u ws" "\<And>y. y \<in> set (x # zs) \<Longrightarrow> due s (x # zs) y = Suc (due v (zs @ [x]) y)"
    "\<And>y. stride v y = stride s y"
  shows "stride_step s (x # zs) w u ws"
proof -
  have w: "w \<in> set (x # zs)" using assms(1) by (auto simp: stride_step_def)
  show ?thesis
    using assms(1) unfolding stride_step_def
    by (simp only: assms(2) [OF w]) (use assms(2,3) in auto)
qed

lemma relink_stride:
  assumes "\<And>y. \<exists>n. threads u y = map_option (set_next n) (((threads s)(x \<mapsto> set_cooldown c t)) y)" "threads s x = Some t"
  shows "stride u y = stride s y"
proof -
  obtain n where "threads u y = map_option (set_next n) (((threads s)(x \<mapsto> set_cooldown c t)) y)" using assms(1) by blast
  then show ?thesis using assms(2) by (cases "threads s y") (auto simp: stride_def set_cooldown_def)
qed

lemma select_loop_due:
  assumes "sched_ok s q" "q \<noteq> []"
  shows "\<exists>x ws r u. select_loop ctx s = ret r u \<and> current_thread u = x \<and> tick_ok u ws \<and> stride_step s q x u ws"
  using assms
proof (induction "total_cooldown s q" arbitrary: s q rule: less_induct)
  case less
  obtain x zs where q: "q = x # zs" using less.prems(2) by (cases q) auto
  have ok: "sched_ok s (x # zs)" using less.prems(1) q by simp
  obtain t where t: "threads s x = Some t" "can_run (procs s) t" "x \<notin> set zs"
    using ok by (auto simp: sched_ok_def schedulable_def ready_queue_def)
  have cx: "cooldown s x = t_cooldown t" using t(1) by (simp add: cooldown_def)
  show ?case
  proof (cases "0 < t_cooldown t")
    case False
    then have z: "t_cooldown t = 0" using t(2) by (simp add: can_run_def)
    let ?p = "set_state THREAD_RUNNING (set_cooldown (priority_to_stride (t_priority t) - 1) t)"
    obtain u n where u: "select_loop ctx s = ret (resumed ctx t) u" "current_thread u = x" "tick_ok u zs"
      "\<And>y. y \<noteq> x \<Longrightarrow> \<exists>n. threads u y = map_option (set_next n) (threads s y)"
      "threads u x = Some (set_next n ?p)"
      using pick_step [OF ok t(1) z, of ctx] by auto
    have other: "cooldown u y = cooldown s y" "stride u y = stride s y" if "y \<noteq> x" for y
    proof -
      obtain m where "threads u y = map_option (set_next m) (threads s y)" using u(4) [OF \<open>y \<noteq> x\<close>] by blast
      then show "cooldown u y = cooldown s y" "stride u y = stride s y"
        by (cases "threads s y"; simp add: cooldown_def stride_def)+
    qed
    have "t_cooldown ?p = priority_to_stride (t_priority t) - 1" "t_priority ?p = t_priority t"
      by (simp_all add: set_state_def set_cooldown_def)
    then have me: "cooldown u x = priority_to_stride (t_priority t) - 1" "stride u x = nat (priority_to_stride (t_priority t))"
      by (simp_all add: cooldown_def stride_def u(5))
    have sx: "stride s x = nat (priority_to_stride (t_priority t))" using t(1) by (simp add: stride_def)
    have dx: "due s (x # zs) x = 0" by (simp add: due_def cx z)
    have "due u (zs @ [x]) x = stride s x * length (x # zs) - 1"
    proof -
      have "stride s x \<noteq> 0" using stride_positive [of "t_priority t"] sx by simp
      then obtain k where k: "stride s x = Suc k" using not0_implies_Suc by blast
      then have "nat (cooldown u x) = k" using sx me(1) by simp
      then show ?thesis using k t(3) by (simp add: due_def place_last)
    qed
    moreover have "due s (x # zs) y = Suc (due u (zs @ [x]) y)" if "y \<in> set zs" for y
    proof -
      have "y \<noteq> x" using that t(3) by auto
      then show ?thesis using that other(1) place_rotate [OF t(3) that] by (simp add: due_def)
    qed
    moreover have "stride u y = stride s y" for y using other(2) me(2) sx by (cases "y = x") auto
    ultimately have "stride_step s (x # zs) x u zs" using t(3) by (auto simp: stride_step_def dx)
    then show ?thesis using u(1-3) q by blast
  next
    case True
    let ?c = "t_cooldown t - 1"
    obtain v where v: "select_loop ctx s = select_loop ctx v" "sched_ok v (zs @ [x])"
      "\<And>y. \<exists>n. threads v y = map_option (set_next n) (((threads s)(x \<mapsto> set_cooldown ?c t)) y)"
      using wait_step [OF ok t(1) True, of ctx] by auto
    have cd: "cooldown v = (cooldown s)(x := cooldown s x - 1)"
      using threads_relink_cooldown [OF v(3)] cx by simp
    have "map (\<lambda>y. nat (cooldown v y)) zs = map (\<lambda>y. nat (cooldown s y)) zs"
      using t(3) cd by auto
    then have "total_cooldown v (zs @ [x]) = sum_list (map (\<lambda>y. nat (cooldown s y)) zs) + nat (t_cooldown t - 1)"
      unfolding total_cooldown_def map_append sum_list_append by (simp only:) (simp add: cd cx)
    then have "total_cooldown v (zs @ [x]) < total_cooldown s q"
      using True q cx by (simp add: total_cooldown_def)
    from less.hyps [OF this v(2)] obtain w ws r u where I: "select_loop ctx v = ret r u" "current_thread u = w" "tick_ok u ws"
      "stride_step v (zs @ [x]) w u ws" by auto
    have "stride_step s (x # zs) w u ws"
    proof (rule stride_step_rotate [OF I(4)])
      show "due s (x # zs) y = Suc (due v (zs @ [x]) y)" if "y \<in> set (x # zs)" for y
        by (rule due_wait [OF t(3) cd _ that]) (simp add: cx True)
      show "stride v y = stride s y" for y by (rule relink_stride [OF v(3) t(1)])
    qed
    then show ?thesis using I v(1) q by auto
  qed
qed

section \<open>Ticks\<close>

text \<open>The queue of a tick: the threads that wait, and behind them the one that was interrupted.\<close>

abbreviation tick_queue :: "'r sched_state_scheme \<Rightarrow> addr list \<Rightarrow> addr list" where
  "tick_queue s xs \<equiv> xs @ [current_thread s]"

lemma stride_step_cong:
  assumes "cooldown s' = cooldown s" "\<And>y. stride s' y = stride s y" "stride_step s' q x u ws"
  shows "stride_step s q x u ws"
proof -
  have "due s' q y = due s q y" for y by (simp add: due_def assms(1))
  then show ?thesis using assms(2,3) by (simp add: stride_step_def)
qed

lemma tick_due:
  assumes "tick_ok s xs"
  obtains ws r u where "scheduler_tick (Some ctx) s = ret (Some r) u" "tick_ok u ws"
    "stride_step s (tick_queue s xs) (current_thread u) u ws"
proof -
  let ?old = "current_thread s"
  obtain t0 where t0: "threads s ?old = Some t0" using assms by (auto simp: tick_ok_def split: option.splits)
  let ?r = "set_state THREAD_READY (t0\<lparr>t_context := ctx\<rparr>)"
  obtain u0 where u0: "scheduler_tick (Some ctx) s = seq (select_loop ctx u0) (\<lambda>c s. ret (Some c) s)"
    "sched_ok u0 (xs @ [?old])" "cooldown u0 = cooldown s"
    "relinked (unlocked (s\<lparr>priority_counter := priority_counter s + 1, threads := (threads s)(?old \<mapsto> ?r)\<rparr>)) u0"
    by (rule tick_prefix [OF assms t0])
  obtain x ws r u where u: "select_loop ctx u0 = ret r u" "current_thread u = x" "tick_ok u ws"
      "stride_step u0 (xs @ [?old]) x u ws"
    using select_loop_due [OF u0(2), of ctx] by auto
  have "stride u0 y = stride s y" for y
  proof (cases "((threads s)(?old \<mapsto> ?r)) y")
    case None
    then have "threads u0 y = None" "threads s y = None"
      using relinked_none [OF u0(4), of y] by (auto split: if_splits)
    then show ?thesis by (simp add: stride_def)
  next
    case (Some t)
    then obtain n where "threads u0 y = Some (set_next n t)" using relinked_get [OF u0(4), of y t] by auto
    then show ?thesis using Some t0 by (auto simp: stride_def set_state_def split: if_splits)
  qed
  then have "stride_step s (xs @ [?old]) x u ws" using stride_step_cong [OF u0(3) _ u(4)] by blast
  then show ?thesis using that [of r u ws] u0(1) u by simp
qed

fun ticks :: "context_t list \<Rightarrow> 'r sched_state_scheme \<Rightarrow> (unit, 'r) sched_result" where
  "ticks [] s = ret () s"
| "ticks (c # cs) s = seq (scheduler_tick (Some c) s) (\<lambda>_ s. ticks cs s)"

lemma ticks_reach:
  assumes "tick_ok s xs" "y \<in> set xs" "due s (tick_queue s xs) y < length cs"
  shows "\<exists>k u. k < length cs \<and> ticks (take (Suc k) cs) s = ret () u \<and> current_thread u = y"
  using assms
proof (induction cs arbitrary: s xs)
  case (Cons c cs)
  obtain ws r u where u: "scheduler_tick (Some c) s = ret (Some r) u" "tick_ok u ws"
      "stride_step s (tick_queue s xs) (current_thread u) u ws"
    by (rule tick_due [OF Cons.prems(1)])
  show ?case
  proof (cases "current_thread u = y")
    case True
    then show ?thesis using u(1) by (intro exI [of _ 0] exI [of _ u]) simp
  next
    case False
    have y: "y \<in> set (tick_queue s xs) - {current_thread u}" using Cons.prems(2) False by auto
    have "set (ws @ [current_thread u]) = set (tick_queue s xs)" using u(3) by (simp add: stride_step_def)
    then have "y \<in> set (ws @ [current_thread u])" using y by blast
    then have "y \<in> set ws" using False by simp
    moreover have "due u (tick_queue u ws) y = due s (tick_queue s xs) y - due s (tick_queue s xs) (current_thread u) - 1"
      "due s (tick_queue s xs) (current_thread u) < due s (tick_queue s xs) y"
      using u(3) y unfolding stride_step_def by blast+
    then have "due u (tick_queue u ws) y < length cs" using Cons.prems(3) by simp
    ultimately obtain k v where "k < length cs" "ticks (take (Suc k) cs) u = ret () v" "current_thread v = y"
      using Cons.IH [OF u(2)] by blast
    then show ?thesis using u(1) by (intro exI [of _ "Suc k"] exI [of _ v]) simp
  qed
qed simp

section \<open>Properties\<close>

text \<open>C7: \<open>scheduler_tick\<close> refines stride scheduling.  It resumes the thread that is due first; every other
  thread comes nearer by the visits that passed, and the thread resumed is due again after its stride times the
  number of threads.  The invariant and the strides are kept.\<close>

theorem scheduler_tick_strides:
  assumes "tick_ok s xs"
  shows "\<exists>ws r u. scheduler_tick (Some ctx) s = ret (Some r) u \<and> tick_ok u ws \<and>
    stride_step s (tick_queue s xs) (current_thread u) u ws"
  using tick_due [OF assms] by metis

theorem scheduler_tick_strides_witness:
  "\<exists>ws r u. scheduler_tick (Some zero_context) sched_example = ret (Some r) u \<and> tick_ok u ws \<and>
     stride_step sched_example [0x2000, 0x3000, 0x1000] (current_thread u) u ws"
  using scheduler_tick_strides [OF sched_example_ok, of zero_context] by simp

text \<open>C8: no ready thread starves: a thread in the queue is resumed within its cooldown plus one, times the
  number of threads, ticks, whatever contexts the interrupts deliver.\<close>

theorem no_starvation:
  assumes "tick_ok s xs" "y \<in> set xs" "(nat (cooldown s y) + 1) * (length xs + 1) \<le> length cs"
  shows "\<exists>k u. k < length cs \<and> ticks (take (Suc k) cs) s = ret () u \<and> current_thread u = y"
proof (rule ticks_reach [OF assms(1,2)])
  have "place (tick_queue s xs) y < length (tick_queue s xs)" by (rule place_less) (use assms(2) in simp)
  then show "due s (tick_queue s xs) y < length cs" using assms(3) by (simp add: due_def algebra_simps)
qed

theorem no_starvation_witness:
  "\<exists>k u. k < 12 \<and> ticks (take (Suc k) (replicate 12 zero_context)) sched_example = ret () u \<and> current_thread u = 0x2000"
proof -
  have "(nat (cooldown sched_example 0x2000) + 1) * (length [0x2000, 0x3000 :: addr] + 1) \<le> length (replicate 12 zero_context)"
    by (simp add: cooldown_def)
  from no_starvation [OF sched_example_ok _ this] show ?thesis by simp
qed

end
