(* ===== verification/Slab.thy ===== *)
theory Slab
  imports Klibc_Mem Heap_Frame
begin

text \<open>
  The slab allocator (\<open>klibc/kmem/slab.c\<close>).  A cache keeps slabs, single pages with a header and a list of free objects
  threaded through the objects; cache and slab structures live in the paged memory of the heap model, with the field offsets
  of the C structures.  Addresses that are not mapped, and division by zero, stop the model with \<open>None\<close>, like
  loops that do not end.

  The constructor and destructor of a cache are function pointers; \<open>run f x s\<close> stands for calling the
  function at address \<open>f\<close> with the argument \<open>x\<close>.
\<close>

section \<open>Structures\<close>

definition PAGE_SIZE_SLAB :: u64 where "PAGE_SIZE_SLAB = PAGE_SIZE_VMM"
definition SLAB_MAGIC :: u32 where "SLAB_MAGIC = 0x534C4142"

definition sizeof_slab :: u64 where "sizeof_slab = 40"
definition sizeof_slab_cache :: u64 where "sizeof_slab_cache = 72"

text \<open>The two halves of a quadword, for the 32-bit fields.\<close>

definition read_low :: "u64 \<Rightarrow> 'a vmm_state_scheme \<Rightarrow> u32 option" where
  "read_low p s = map_option ucast (vread p s)"

definition read_high :: "u64 \<Rightarrow> 'a vmm_state_scheme \<Rightarrow> u32 option" where
  "read_high p s = map_option (\<lambda>q. ucast (drop_bit 32 q)) (vread p s)"

definition write_low :: "u64 \<Rightarrow> u32 \<Rightarrow> 'a vmm_state_scheme \<Rightarrow> 'a vmm_state_scheme option" where
  "write_low p x s = do { q \<leftarrow> vread p s; vwrite p (push_bit 32 (drop_bit 32 q) OR ucast x) s }"

definition write_high :: "u64 \<Rightarrow> u32 \<Rightarrow> 'a vmm_state_scheme \<Rightarrow> 'a vmm_state_scheme option" where
  "write_high p x s = do { q \<leftarrow> vread p s; vwrite p (push_bit 32 (ucast x) OR take_bit 32 q) s }"

text \<open>\<open>slab_t\<close>: \<open>next\<close>, \<open>cache\<close>, \<open>free_count\<close>, \<open>total_objects\<close>, \<open>magic\<close>, \<open>free_list\<close> at 0, 8, 16, 20, 24, 32.\<close>

definition slab_next :: "u64 \<Rightarrow> 'a vmm_state_scheme \<Rightarrow> u64 option" where "slab_next p = vread p"
definition slab_free_count :: "u64 \<Rightarrow> 'a vmm_state_scheme \<Rightarrow> u32 option" where "slab_free_count p = read_low (p + 16)"
definition slab_total_objects :: "u64 \<Rightarrow> 'a vmm_state_scheme \<Rightarrow> u32 option" where "slab_total_objects p = read_high (p + 16)"
definition slab_magic :: "u64 \<Rightarrow> 'a vmm_state_scheme \<Rightarrow> u32 option" where "slab_magic p = read_low (p + 24)"
definition slab_free_list :: "u64 \<Rightarrow> 'a vmm_state_scheme \<Rightarrow> u64 option" where "slab_free_list p = vread (p + 32)"

text \<open>\<open>slab_cache_t\<close>: \<open>name\<close>, \<open>object_size\<close>, \<open>align\<close>, \<open>objects_per_slab\<close>, \<open>partial\<close>, \<open>full\<close>, \<open>empty\<close>, \<open>ctor\<close>, \<open>dtor\<close>, eight bytes each.\<close>

definition cache_object_size :: "u64 \<Rightarrow> 'a vmm_state_scheme \<Rightarrow> u64 option" where "cache_object_size c = vread (c + 8)"
definition cache_align :: "u64 \<Rightarrow> 'a vmm_state_scheme \<Rightarrow> u64 option" where "cache_align c = vread (c + 16)"
definition cache_partial :: "u64 \<Rightarrow> u64" where "cache_partial c = c + 32"
definition cache_full :: "u64 \<Rightarrow> u64" where "cache_full c = c + 40"
definition cache_empty :: "u64 \<Rightarrow> u64" where "cache_empty c = c + 48"
definition cache_ctor :: "u64 \<Rightarrow> 'a vmm_state_scheme \<Rightarrow> u64 option" where "cache_ctor c = vread (c + 56)"
definition cache_dtor :: "u64 \<Rightarrow> 'a vmm_state_scheme \<Rightarrow> u64 option" where "cache_dtor c = vread (c + 64)"

section \<open>Operations\<close>

definition align_up :: "u64 \<Rightarrow> u64 \<Rightarrow> u64" where
  "align_up v a = (v + (a - 1)) AND NOT (a - 1)"

definition slab_from_object :: "u64 \<Rightarrow> u64" where
  "slab_from_object object = object AND NOT (PAGE_SIZE_SLAB - 1)"

definition first_object_offset :: "u64 \<Rightarrow> u64" where
  "first_object_offset align = align_up (align_up sizeof_slab 8) align"

definition slab_objects :: "u64 \<Rightarrow> u64 \<Rightarrow> u64 option" where
  "slab_objects align object_size =
     (if object_size = 0 then None else Some ((PAGE_SIZE_SLAB - first_object_offset align) div object_size))"

text \<open>Threading the objects of a new slab: the address of the last one.\<close>

fun thread_objects :: "nat \<Rightarrow> u64 \<Rightarrow> u64 \<Rightarrow> u64 \<Rightarrow> 'a vmm_state_scheme \<Rightarrow> (u64 \<times> 'a vmm_state_scheme) option" where
  "thread_objects 0 object previous sz s = Some (previous, s)"
| "thread_objects (Suc n) object previous sz s = do {
     s \<leftarrow> vwrite object previous s;
     thread_objects n (object + sz) object sz s
   }"

definition slab_init :: "u64 \<Rightarrow> 'a vmm_state_scheme \<Rightarrow> (u64 \<times> 'a vmm_state_scheme) option" where
  "slab_init cache s =
     (let (physical, s) = pmm_alloc_page s in
      if physical = 0 then Some (NULL, s)
      else do {
        let slab = physical;
        s \<leftarrow> vmm_map slab physical (VMM_PRESENT OR VMM_WRITE) s;
        (_, s) \<leftarrow> memset slab 0 PAGE_SIZE_SLAB s;
        align \<leftarrow> cache_align cache s;
        sz \<leftarrow> cache_object_size cache s;
        objects \<leftarrow> slab_objects align sz;
        if objects = 0 then Some (NULL, s)
        else do {
          s \<leftarrow> vwrite (slab + 8) cache s;
          s \<leftarrow> write_high (slab + 16) (ucast objects) s;
          s \<leftarrow> write_low (slab + 16) (ucast objects) s;
          s \<leftarrow> write_low (slab + 24) SLAB_MAGIC s;
          (previous, s) \<leftarrow> thread_objects (unat objects) (slab + first_object_offset align) NULL sz s;
          s \<leftarrow> vwrite (slab + 32) previous s;
          Some (slab, s)
        }
      })"

definition slab_cache_create ::
  "u64 \<Rightarrow> u64 \<Rightarrow> u64 \<Rightarrow> u64 \<Rightarrow> u64 \<Rightarrow> 'a kheap_state_scheme \<Rightarrow> (u64 \<times> 'a kheap_state_scheme) option" where
  "slab_cache_create name object_size align ctor dtor s =
     (if object_size = 0 then Some (NULL, s)
      else do {
        let align = (if align < 8 then 8 else align);
        (cache, s) \<leftarrow> kmalloc sizeof_slab_cache s;
        if cache = NULL then Some (NULL, s)
        else do {
          s \<leftarrow> vwrite cache name s;
          s \<leftarrow> vwrite (cache + 16) align s;
          s \<leftarrow> vwrite (cache + 56) ctor s;
          s \<leftarrow> vwrite (cache + 64) dtor s;
          s \<leftarrow> vwrite (cache_partial cache) NULL s;
          s \<leftarrow> vwrite (cache_full cache) NULL s;
          s \<leftarrow> vwrite (cache_empty cache) NULL s;
          s \<leftarrow> vwrite (cache + 8) (align_up object_size align) s;
          n \<leftarrow> slab_objects align (align_up object_size align);
          s \<leftarrow> vwrite (cache + 24) n s;
          if n = 0 then do { s \<leftarrow> kfree cache s; Some (NULL, s) }
          else Some (cache, s)
        }
      })"

definition slab_pop_object :: "u64 \<Rightarrow> 'a vmm_state_scheme \<Rightarrow> (u64 \<times> 'a vmm_state_scheme) option" where
  "slab_pop_object slab s =
     (if slab = NULL then Some (NULL, s)
      else do {
        object \<leftarrow> slab_free_list slab s;
        if object = NULL then Some (NULL, s)
        else do {
          n \<leftarrow> vread object s;
          s \<leftarrow> vwrite (slab + 32) n s;
          k \<leftarrow> slab_free_count slab s;
          s \<leftarrow> write_low (slab + 16) (k - 1) s;
          Some (object, s)
        }
      })"

definition slab_push_object :: "u64 \<Rightarrow> u64 \<Rightarrow> 'a vmm_state_scheme \<Rightarrow> 'a vmm_state_scheme option" where
  "slab_push_object slab object s = do {
     l \<leftarrow> slab_free_list slab s;
     s \<leftarrow> vwrite object l s;
     s \<leftarrow> vwrite (slab + 32) object s;
     k \<leftarrow> slab_free_count slab s;
     write_low (slab + 16) (k + 1) s
   }"

text \<open>The address of the link that leads to a slab, or of the null link at the end of the list.\<close>

partial_function (option) find_link :: "u64 \<Rightarrow> u64 \<Rightarrow> 'a vmm_state_scheme \<Rightarrow> u64 option" where
  "find_link slab link s =
     Option.bind (vread link s) (\<lambda>q. if q = NULL \<or> q = slab then Some link else find_link slab q s)"

text \<open>Taking a slab out of the list at \<open>from\<close>; the result says whether it was there.\<close>

definition unlink_slab :: "u64 \<Rightarrow> u64 \<Rightarrow> 'a vmm_state_scheme \<Rightarrow> (bool \<times> 'a vmm_state_scheme) option" where
  "unlink_slab slab from s = do {
     link \<leftarrow> find_link slab from s;
     q \<leftarrow> vread link s;
     if q = NULL then Some (False, s)
     else do {
       n \<leftarrow> slab_next slab s;
       s \<leftarrow> vwrite link n s;
       Some (True, s)
     }
   }"

definition link_slab :: "u64 \<Rightarrow> u64 \<Rightarrow> 'a vmm_state_scheme \<Rightarrow> 'a vmm_state_scheme option" where
  "link_slab slab to s = do {
     h \<leftarrow> vread to s;
     s \<leftarrow> vwrite slab h s;
     vwrite to slab s
   }"

definition call_pointer ::
  "(u64 \<Rightarrow> u64 \<Rightarrow> 's \<Rightarrow> 's option) \<Rightarrow> u64 \<Rightarrow> u64 \<Rightarrow> 's \<Rightarrow> 's option" where
  "call_pointer run f x s = (if f \<noteq> 0 then run f x s else Some s)"

text \<open>The slab an object is taken from: a partial one, an empty one, or a new one; null when there is none.\<close>

definition choose_slab :: "u64 \<Rightarrow> 'a vmm_state_scheme \<Rightarrow> (u64 \<times> 'a vmm_state_scheme) option" where
  "choose_slab cache s = do {
     p \<leftarrow> vread (cache_partial cache) s;
     if p \<noteq> NULL then Some (p, s)
     else do {
       e \<leftarrow> vread (cache_empty cache) s;
       if e \<noteq> NULL then Some (e, s)
       else do {
         (slab, s) \<leftarrow> slab_init cache s;
         if slab = NULL then Some (NULL, s)
         else do { s \<leftarrow> link_slab slab (cache_partial cache) s; Some (slab, s) }
       }
     }
   }"

text \<open>A slab whose last free object was taken moves to the list of full slabs.\<close>

definition retire_full :: "u64 \<Rightarrow> u64 \<Rightarrow> 'a vmm_state_scheme \<Rightarrow> 'a vmm_state_scheme option" where
  "retire_full cache slab s = do {
     k \<leftarrow> slab_free_count slab s;
     if k = 0
     then do {
       (_, s) \<leftarrow> unlink_slab slab (cache_partial cache) s;
       link_slab slab (cache_full cache) s
     }
     else Some s
   }"

definition slab_alloc ::
  "(u64 \<Rightarrow> u64 \<Rightarrow> 'a kheap_state_scheme \<Rightarrow> 'a kheap_state_scheme option) \<Rightarrow>
   u64 \<Rightarrow> 'a kheap_state_scheme \<Rightarrow> (u64 \<times> 'a kheap_state_scheme) option" where
  "slab_alloc run cache s =
     (if cache = NULL then Some (NULL, s)
      else do {
        (slab, s) \<leftarrow> choose_slab cache s;
        if slab = NULL then do { sz \<leftarrow> cache_object_size cache s; kmalloc sz s }
        else do {
          (object, s) \<leftarrow> slab_pop_object slab s;
          if object = NULL then Some (NULL, s)
          else do {
            s \<leftarrow> retire_full cache slab s;
            ctor \<leftarrow> cache_ctor cache s;
            s \<leftarrow> call_pointer run ctor object s;
            Some (object, s)
          }
        }
      })"

text \<open>Giving the page of a slab back; \<open>slab_destroy\<close> repeats these lines.\<close>

definition release_slab :: "u64 \<Rightarrow> 'a vmm_state_scheme \<Rightarrow> 'a vmm_state_scheme option" where
  "release_slab slab s =
     (let physical = virtual_to_physical slab s in do {
        s \<leftarrow> vmm_unmap slab s;
        Some (pmm_free_page physical s)
      })"

text \<open>A slab that was full gets back to the partial ones; one without an object in use is given up.\<close>

definition revive_slab :: "u64 \<Rightarrow> u64 \<Rightarrow> 'a vmm_state_scheme \<Rightarrow> 'a vmm_state_scheme option" where
  "revive_slab cache slab s = do {
     (found, s) \<leftarrow> unlink_slab slab (cache_full cache) s;
     if found then link_slab slab (cache_partial cache) s else Some s
   }"

definition give_up_slab :: "u64 \<Rightarrow> u64 \<Rightarrow> 'a vmm_state_scheme \<Rightarrow> 'a vmm_state_scheme option" where
  "give_up_slab cache slab s = do {
     k \<leftarrow> slab_free_count slab s;
     n \<leftarrow> slab_total_objects slab s;
     if k = n
     then do {
       (_, s) \<leftarrow> unlink_slab slab (cache_partial cache) s;
       release_slab slab s
     }
     else Some s
   }"

definition slab_free ::
  "(u64 \<Rightarrow> u64 \<Rightarrow> 'a kheap_state_scheme \<Rightarrow> 'a kheap_state_scheme option) \<Rightarrow>
   u64 \<Rightarrow> u64 \<Rightarrow> 'a kheap_state_scheme \<Rightarrow> 'a kheap_state_scheme option" where
  "slab_free run cache object s =
     (if cache = NULL \<or> object = NULL then Some s
      else (let slab = slab_from_object object in do {
        m \<leftarrow> slab_magic slab s;
        if m \<noteq> SLAB_MAGIC then kfree object s
        else do {
          dtor \<leftarrow> cache_dtor cache s;
          s \<leftarrow> call_pointer run dtor object s;
          k \<leftarrow> slab_free_count slab s;
          let was_full = (k = 0);
          s \<leftarrow> slab_push_object slab object s;
          if was_full then revive_slab cache slab s else give_up_slab cache slab s
        }
      }))"

partial_function (option) release_slabs :: "u64 \<Rightarrow> 'a vmm_state_scheme \<Rightarrow> 'a vmm_state_scheme option" where
  "release_slabs slab s =
     (if slab = NULL then Some s
      else Option.bind (slab_next slab s) (\<lambda>n. Option.bind (release_slab slab s) (release_slabs n)))"

definition slab_destroy :: "u64 \<Rightarrow> 'a kheap_state_scheme \<Rightarrow> 'a kheap_state_scheme option" where
  "slab_destroy cache s =
     (if cache = NULL then Some s
      else do {
        p \<leftarrow> vread (cache_partial cache) s;
        s \<leftarrow> release_slabs p s;
        e \<leftarrow> vread (cache_empty cache) s;
        s \<leftarrow> release_slabs e s;
        kfree cache s
      })"

text \<open>Every cache of the kernel is created without constructor and destructor; no other function is behind the pointers.\<close>

definition no_code :: "u64 \<Rightarrow> u64 \<Rightarrow> 's \<Rightarrow> 's option" where
  "no_code f x s = None"

section \<open>Frame\<close>

lemma fill_up_more: "fill_up p c i n s = Some u \<Longrightarrow> vmm_state.more u = vmm_state.more s"
  by (induction p c i n s rule: fill_up.induct) (fastforce simp: bind_eq_Some_conv vwrite8_def dest: vwrite_more)+

lemma write_half_more:
  "write_low p x s = Some u \<Longrightarrow> vmm_state.more u = vmm_state.more s"
  "write_high p x s = Some u \<Longrightarrow> vmm_state.more u = vmm_state.more s"
  by (auto simp: write_low_def write_high_def bind_eq_Some_conv dest!: vwrite_more)

lemma thread_objects_more: "thread_objects n x p z s = Some (q, u) \<Longrightarrow> vmm_state.more u = vmm_state.more s"
  by (induction n x p z s rule: thread_objects.induct) (fastforce simp: bind_eq_Some_conv dest: vwrite_more)+

lemma slab_init_more: "slab_init c s = Some (p, u) \<Longrightarrow> vmm_state.more u = vmm_state.more s"
  using pmm_alloc_page_more [of s]
  by (auto simp: slab_init_def memset_def Let_def bind_eq_Some_conv split: prod.splits if_splits
      dest!: vwrite_more write_half_more thread_objects_more vmm_map_more fill_up_more)

lemma slab_lists_more:
  "slab_pop_object b s = Some (x, u) \<Longrightarrow> vmm_state.more u = vmm_state.more s"
  "slab_push_object b x s = Some u \<Longrightarrow> vmm_state.more u = vmm_state.more s"
  "unlink_slab b l s = Some (f, u) \<Longrightarrow> vmm_state.more u = vmm_state.more s"
  "link_slab b l s = Some u \<Longrightarrow> vmm_state.more u = vmm_state.more s"
  "choose_slab c s = Some (b, u) \<Longrightarrow> vmm_state.more u = vmm_state.more s"
  by (auto simp: slab_pop_object_def slab_push_object_def unlink_slab_def link_slab_def choose_slab_def bind_eq_Some_conv
      split: if_splits dest!: vwrite_more write_half_more slab_init_more)

lemma pmm_free_page_more: "vmm_state.more (pmm_free_page p s) = vmm_state.more s"
  by (simp add: pmm_free_page_def Let_def)

lemma vmm_unmap_more: "vmm_unmap v s = Some u \<Longrightarrow> vmm_state.more u = vmm_state.more s"
  by (auto simp: vmm_unmap_def invlpg_def bind_eq_Some_conv split: if_splits dest!: walk_more)

lemma release_slab_more: "release_slab b s = Some u \<Longrightarrow> vmm_state.more u = vmm_state.more s"
  by (auto simp: release_slab_def Let_def bind_eq_Some_conv pmm_free_page_more dest!: vmm_unmap_more)

lemma retire_full_more: "retire_full c b s = Some u \<Longrightarrow> vmm_state.more u = vmm_state.more s"
  by (auto simp: retire_full_def bind_eq_Some_conv split: if_splits dest!: slab_lists_more)

lemma revive_slab_more: "revive_slab c b s = Some u \<Longrightarrow> vmm_state.more u = vmm_state.more s"
  by (auto simp: revive_slab_def bind_eq_Some_conv split: if_splits dest!: slab_lists_more)

lemma give_up_slab_more: "give_up_slab c b s = Some u \<Longrightarrow> vmm_state.more u = vmm_state.more s"
  by (auto simp: give_up_slab_def bind_eq_Some_conv split: if_splits dest!: slab_lists_more release_slab_more)

lemma slab_alloc_more:
  assumes "slab_alloc no_code c s = Some (p, u)"
  shows "kheap_state.more u = kheap_state.more s"
proof (cases "c = NULL")
  case True
  then show ?thesis using assms by (simp add: slab_alloc_def)
next
  case False
  then obtain b t where t: "choose_slab c s = Some (b, t)"
    using assms by (auto simp: slab_alloc_def bind_eq_Some_conv)
  have "kheap_state.more t = kheap_state.more s" using slab_lists_more(5) [OF t] by (rule kheap_more)
  moreover have "kheap_state.more u = kheap_state.more t"
  proof (cases "b = NULL")
    case True
    then show ?thesis using assms False t by (auto simp: slab_alloc_def bind_eq_Some_conv dest!: kmalloc_more)
  next
    case nb: False
    obtain x v where v: "slab_pop_object b t = Some (x, v)" using assms False nb t by (auto simp: slab_alloc_def bind_eq_Some_conv)
    have "kheap_state.more v = kheap_state.more t" using slab_lists_more(1) [OF v] by (rule kheap_more)
    moreover have "u = v \<or> retire_full c b v = Some u"
      using assms False nb t v by (auto simp: slab_alloc_def bind_eq_Some_conv call_pointer_def no_code_def split: if_splits)
    ultimately show ?thesis using kheap_more [OF retire_full_more [of c b v u]] by auto
  qed
  ultimately show ?thesis by simp
qed

lemma slab_free_more:
  assumes "slab_free no_code c p s = Some u"
  shows "kheap_state.more u = kheap_state.more s"
proof (cases "c = NULL \<or> p = NULL")
  case True
  then show ?thesis using assms by (auto simp: slab_free_def)
next
  case False
  let ?b = "slab_from_object p"
  obtain m where m: "slab_magic ?b s = Some m" using assms False by (auto simp: slab_free_def Let_def bind_eq_Some_conv)
  show ?thesis
  proof (cases "m = SLAB_MAGIC")
    case nm: False
    then show ?thesis using assms False m by (simp add: slab_free_def Let_def kfree_more)
  next
    case True
    obtain d k where dk: "cache_dtor c s = Some d" "call_pointer no_code d p s = Some s" "slab_free_count ?b s = Some k"
      using assms False m True by (auto simp: slab_free_def Let_def bind_eq_Some_conv call_pointer_def no_code_def split: if_splits)
    obtain t where t: "slab_push_object ?b p s = Some t"
      using assms False m True dk by (auto simp: slab_free_def Let_def bind_eq_Some_conv)
    have "vmm_state.more u = vmm_state.more t"
      using assms False m True dk t revive_slab_more [of c ?b t u] give_up_slab_more [of c ?b t u]
      by (simp add: slab_free_def Let_def split: if_splits)
    then show ?thesis using slab_lists_more(2) [OF t] kheap_more [of u s] by simp
  qed
qed

end
