(* ===== verification/Slab_Props.thy ===== *)
theory Slab_Props
  imports Slab Kheap_Correct
begin

text \<open>
  Properties of the slab allocator: the objects of a slab lie inside its page, and the page of an empty slab is never given
  back to the physical memory manager.
\<close>

section \<open>Layout\<close>

lemma first_object_offsets:
  "k \<in> set [3..<13] \<Longrightarrow> first_object_offset (2 ^ k) \<le> 4096"
  by (auto simp: upt_rec first_object_offset_def align_up_def sizeof_slab_def)

lemma objects_inside:
  assumes "k \<in> set [3..<13]" "slab_objects (2 ^ k) object_size = Some n" "i < unat n"
  shows "40 \<le> unat (first_object_offset (2 ^ k)) \<and>
    unat (first_object_offset (2 ^ k)) + i * unat object_size + unat object_size \<le> unat PAGE_SIZE_SLAB"
proof -
  let ?o = "first_object_offset (2 ^ k)"
  have p: "unat PAGE_SIZE_SLAB = 4096" by (simp add: PAGE_SIZE_SLAB_def PAGE_SIZE_VMM_def)
  have o: "?o \<le> PAGE_SIZE_SLAB" using first_object_offsets [OF assms(1)] by (simp add: PAGE_SIZE_SLAB_def PAGE_SIZE_VMM_def)
  have n: "unat n = (4096 - unat ?o) div unat object_size"
    using assms(2) o p by (auto simp: slab_objects_def unat_div unat_sub split: if_splits)
  have "Suc i * unat object_size \<le> unat n * unat object_size" using assms(3) by (simp only: mult_le_mono1 Suc_leI)
  also have "\<dots> \<le> 4096 - unat ?o" by (simp add: n)
  finally have "i * unat object_size + unat object_size \<le> 4096 - unat ?o" by simp
  moreover have "unat ?o \<le> 4096" using o p by (simp add: word_le_nat_alt)
  moreover have "40 \<le> unat ?o"
    using assms(1) by (auto simp: upt_rec first_object_offset_def align_up_def sizeof_slab_def)
  ultimately show ?thesis using p by simp
qed

text \<open>For an alignment that is a power of two between 8 and the page size, the objects of a slab lie one behind the other inside
  the page, behind the header.\<close>

theorem slab_objects_fit:
  assumes "k \<in> set [3..<13]" "slab_objects (2 ^ k) object_size = Some n" "i < unat n"
  shows "40 \<le> unat (first_object_offset (2 ^ k)) \<and>
    unat (first_object_offset (2 ^ k)) + i * unat object_size + unat object_size \<le> unat PAGE_SIZE_SLAB"
  by (rule objects_inside [OF assms])

theorem slab_objects_fit_witness:
  "slab_objects (2 ^ 3) 48 = Some 84 \<and> 40 + 83 * 48 + 48 \<le> (4096 :: nat)"
proof -
  have s: "slab_objects (2 ^ 3) 48 = Some 84"
    by (simp add: slab_objects_def first_object_offset_def align_up_def sizeof_slab_def PAGE_SIZE_SLAB_def PAGE_SIZE_VMM_def)
  have "40 \<le> unat (first_object_offset (2 ^ 3)) \<and>
      unat (first_object_offset (2 ^ 3)) + 83 * unat (48 :: u64) + unat (48 :: u64) \<le> unat PAGE_SIZE_SLAB"
    by (rule slab_objects_fit [OF _ s]) simp_all
  then show ?thesis
    using s by (simp add: first_object_offset_def align_up_def sizeof_slab_def PAGE_SIZE_SLAB_def PAGE_SIZE_VMM_def)
qed

section \<open>Giving pages back\<close>

lemma walk_read: "\<exists>pte. walk v False s = Some (pte, s)"
proof -
  have "walk_level e False s = Some (pmem s e AND VMM_PRESENT \<noteq> 0, s)" for e by (simp add: walk_level_def)
  then show ?thesis by (simp add: walk_def Let_def)
qed

lemma vmm_unmap_pmm:
  "\<exists>u. vmm_unmap v s = Some u \<and> pmm_bitmap u = pmm_bitmap s \<and> managed_base u = managed_base s \<and> total_pages u = total_pages s"
  using walk_read [of v s] by (auto simp: vmm_unmap_def invlpg_def)

text \<open>The page of a slab is leaked when its last object is freed: slabs are used at their physical address, but \<open>slab_free\<close>
  and \<open>slab_destroy\<close> compute the page to free by subtracting the offset of the higher-half mapping, so \<open>pmm_free_page\<close>
  gets an address outside the managed memory and does nothing.\<close>

theorem slab_page_leaked:
  assumes "g_hhdm_offset s = 0xFFFF800000000000" "slab < 2 ^ 46" "unat (managed_base s) + total_pages s * PAGE_SIZE \<le> 2 ^ 46"
  shows "\<exists>u. release_slab slab s = Some u \<and> pmm_bitmap u = pmm_bitmap s"
proof -
  obtain u where u: "vmm_unmap slab s = Some u" "pmm_bitmap u = pmm_bitmap s" "managed_base u = managed_base s" "total_pages u = total_pages s"
    using vmm_unmap_pmm by blast
  let ?p = "virtual_to_physical slab s"
  have "?p = slab + 2 ^ 47" using assms(1) by (simp add: virtual_to_physical_def)
  moreover have "unat slab < 2 ^ 46" using assms(2) by (simp add: word_less_nat_alt)
  ultimately have p: "unat ?p = unat slab + 2 ^ 47" by (simp add: unat_word_ariths)
  have le: "managed_base s \<le> ?p" using assms(3) p by (simp add: word_le_nat_alt)
  have "unat (?p - managed_base s) = unat slab + 2 ^ 47 - unat (managed_base s)" using p le by (simp add: unat_sub)
  moreover have "total_pages s * PAGE_SIZE \<le> 2 ^ 46" "unat (managed_base s) \<le> 2 ^ 46" using assms(3) by simp_all
  ultimately have "total_pages s * PAGE_SIZE \<le> unat (?p - managed_base s)" by simp
  then have "total_pages s \<le> unat (?p - managed_base s) div PAGE_SIZE"
    using div_le_mono [of "total_pages s * PAGE_SIZE" _ PAGE_SIZE] by (simp add: PAGE_SIZE_def)
  then have "pmm_free_page ?p u = u" using le u(3,4) by (simp add: pmm_free_page_def Let_def)
  then show ?thesis using u by (simp add: release_slab_def)
qed

theorem slab_page_leaked_witness:
  "let s = vmm_example\<lparr>g_hhdm_offset := 0xFFFF800000000000\<rparr> in
   \<exists>u. release_slab 0x102000 s = Some u \<and> pmm_bitmap u = pmm_bitmap s"
  using slab_page_leaked [of "vmm_example\<lparr>g_hhdm_offset := 0xFFFF800000000000\<rparr>" "0x102000"]
  by (simp add: vmm_example_def PAGE_SIZE_def)

end
