(* ===== verification/Slab_Correct.thy ===== *)
theory Slab_Correct
  imports Slab_Props
begin

text \<open>
  Allocation from a slab and release back to it.
\<close>

section \<open>Words of a slab\<close>

lemma low_half_word: "push_bit 32 (drop_bit 32 q) OR ucast (ucast q :: u32) = (q :: u64)"
  by (rule bit_word_eqI) (auto simp: bit_simps)

lemma low_half_replace:
  "ucast (push_bit 32 (drop_bit 32 q) OR ucast (k :: u32) :: u64) = k"
  "drop_bit 32 (push_bit 32 (drop_bit 32 (q :: u64)) OR ucast (k :: u32)) = drop_bit 32 q"
  by (rule bit_word_eqI; auto simp: bit_simps dest: bit_imp_le_length)+

text \<open>A store to a word of the domain, as a function on states.\<close>

lemma vwrite_word:
  assumes "vm_ok s D" "v \<in> D"
  shows "\<exists>t. vwrite v x s = Some t \<and> vm_ok t D \<and> (\<forall>w\<in>D. vread w t = (if w = v then Some x else vread w s))"
  by (rule vwrite_spec [OF assms, of x]) blast

lemma write_low_word:
  assumes "vm_ok s D" "v \<in> D" "vread v s = Some q"
  shows "\<exists>t. write_low v k s = Some t \<and> vm_ok t D \<and>
    (\<forall>w\<in>D. vread w t = (if w = v then Some (push_bit 32 (drop_bit 32 q) OR ucast k) else vread w s))"
  using vwrite_word [OF assms(1,2)] assms(3) by (simp add: write_low_def)

section \<open>Taking and returning an object\<close>

lemma slab_pop_spec:
  assumes "vm_ok s D" "{b + 16, b + 32} \<subseteq> D" "b \<noteq> NULL" "x \<noteq> NULL"
    "vread (b + 32) s = Some x" "vread x s = Some n" "vread (b + 16) s = Some q"
  shows "\<exists>t. slab_pop_object b s = Some (x, t) \<and> vm_ok t D \<and> (\<forall>w\<in>D. vread w t =
    (if w = b + 32 then Some n else if w = b + 16 then Some (push_bit 32 (drop_bit 32 q) OR ucast (ucast q - 1 :: u32)) else vread w s))"
proof -
  obtain u where u: "vwrite (b + 32) n s = Some u" "vm_ok u D" "\<forall>w\<in>D. vread w u = (if w = b + 32 then Some n else vread w s)"
    using vwrite_word [OF assms(1), of "b + 32" n] assms(2) by auto
  have q: "vread (b + 16) u = Some q" using u(3) assms(2,7) by simp
  obtain t where t: "write_low (b + 16) (ucast q - 1) u = Some t" "vm_ok t D"
      "\<forall>w\<in>D. vread w t = (if w = b + 16 then Some (push_bit 32 (drop_bit 32 q) OR ucast (ucast q - 1 :: u32)) else vread w u)"
    using write_low_word [OF u(2) _ q] assms(2) by auto
  have "slab_pop_object b s = Some (x, t)"
    using assms(3-6) u(1) q t(1) by (simp add: slab_pop_object_def slab_free_list_def slab_free_count_def read_low_def)
  then show ?thesis using t(2,3) u(3) by auto
qed

lemma slab_push_spec:
  assumes "vm_ok s D" "{b + 16, b + 32, x} \<subseteq> D" "x \<noteq> b + 16"
    "vread (b + 32) s = Some n" "vread (b + 16) s = Some q"
  shows "\<exists>t. slab_push_object b x s = Some t \<and> vm_ok t D \<and> (\<forall>w\<in>D. vread w t =
    (if w = b + 32 then Some x else if w = b + 16 then Some (push_bit 32 (drop_bit 32 q) OR ucast (ucast q + 1 :: u32))
     else if w = x then Some n else vread w s))"
proof -
  obtain u where u: "vwrite x n s = Some u" "vm_ok u D" "\<forall>w\<in>D. vread w u = (if w = x then Some n else vread w s)"
    using vwrite_word [OF assms(1), of x n] assms(2) by auto
  obtain v where v: "vwrite (b + 32) x u = Some v" "vm_ok v D" "\<forall>w\<in>D. vread w v = (if w = b + 32 then Some x else vread w u)"
    using vwrite_word [OF u(2), of "b + 32" x] assms(2) by auto
  have q: "vread (b + 16) v = Some q" using v(3) u(3) assms(2,3,5) by auto
  obtain t where t: "write_low (b + 16) (ucast q + 1) v = Some t" "vm_ok t D"
      "\<forall>w\<in>D. vread w t = (if w = b + 16 then Some (push_bit 32 (drop_bit 32 q) OR ucast (ucast q + 1 :: u32)) else vread w v)"
    using write_low_word [OF v(2) _ q] assms(2) by auto
  have "slab_push_object b x s = Some t"
    using assms(4) u(1) v(1) q t(1) by (simp add: slab_push_object_def slab_free_list_def slab_free_count_def read_low_def)
  then show ?thesis using t(2,3) u(3) v(3) by auto
qed

text \<open>A slab with at least two free objects, but not all free, at the front of a cache's partial list.\<close>

definition slab_ready :: "u64 \<Rightarrow> u64 \<Rightarrow> u64 \<Rightarrow> u64 \<Rightarrow> u64 \<Rightarrow> 'a vmm_state_scheme \<Rightarrow> bool" where
  "slab_ready c b x n q s \<longleftrightarrow> vread (cache_partial c) s = Some b \<and> vread (c + 56) s = Some 0 \<and> vread (c + 64) s = Some 0 \<and>
     vread (b + 16) s = Some q \<and> map_option (\<lambda>m. ucast m = SLAB_MAGIC) (vread (b + 24) s) = Some True \<and>
     vread (b + 32) s = Some x \<and> vread x s = Some n \<and>
     (ucast q :: u32) \<noteq> 0 \<and> (ucast q :: u32) \<noteq> 1 \<and> (ucast q :: u32) \<noteq> ucast (drop_bit 32 q)"

text \<open>C18: \<open>slab_alloc\<close> returns the first free object of such a slab, and giving it back with \<open>slab_free\<close> restores every word of the cache and the slab.\<close>

theorem slab_alloc_free:
  fixes s :: "'a kheap_state_scheme"
  assumes "vm_ok s D" "{cache_partial c, c + 56, c + 64, b + 16, b + 24, b + 32, x} \<subseteq> D"
    "{c + 56, c + 64} \<inter> {b + 16, b + 32, x} = {}" "x \<notin> {b + 16, b + 24, b + 32}"
    "c \<noteq> NULL" "x \<noteq> NULL" "b \<noteq> NULL" "slab_from_object x = b" "slab_ready c b x n q s"
  shows "\<exists>t u. slab_alloc no_code c s = Some (x, t) \<and> slab_free no_code c x t = Some u \<and> (\<forall>w\<in>D. vread w u = vread w s)"
proof -
  let ?k = "ucast q :: u32"
  note r = assms(9) [unfolded slab_ready_def]
  obtain t where t: "slab_pop_object b s = Some (x, t)" "vm_ok t D" "\<forall>w\<in>D. vread w t =
    (if w = b + 32 then Some n else if w = b + 16 then Some (push_bit 32 (drop_bit 32 q) OR ucast (?k - 1)) else vread w s)"
    using slab_pop_spec [OF assms(1), of b x n q] assms(2,6,7) r by auto
  let ?q = "push_bit 32 (drop_bit 32 q) OR ucast (?k - 1)"
  have rt: "vread (b + 32) t = Some n" "vread (b + 16) t = Some ?q" "vread (b + 24) t = vread (b + 24) s" "vread x t = Some n"
      "vread (c + 56) t = Some 0" "vread (c + 64) t = Some 0"
    using t(3) assms(2-4) r by auto
  have k1: "?k - 1 \<noteq> 0" using r by simp
  have al: "slab_alloc no_code c s = Some (x, t)"
    using assms(5-7) r t(1) rt k1
    by (simp add: slab_alloc_def choose_slab_def retire_full_def slab_free_count_def read_low_def low_half_replace cache_ctor_def call_pointer_def)
  obtain u where u: "slab_push_object b x t = Some u" "\<forall>w\<in>D. vread w u =
    (if w = b + 32 then Some x else if w = b + 16 then Some (push_bit 32 (drop_bit 32 ?q) OR ucast (ucast ?q + 1 :: u32))
     else if w = x then Some n else vread w t)"
    using slab_push_spec [OF t(2) _ _ rt(1,2), of x] assms(2,4) by auto
  have q: "push_bit 32 (drop_bit 32 ?q) OR ucast (ucast ?q + 1 :: u32) = q" by (simp only: low_half_replace diff_add_cancel low_half_word)
  have same: "\<forall>w\<in>D. vread w u = vread w s" using u(2) t(3) q r by auto
  have "slab_free no_code c x t = Some u"
  proof -
    have m: "slab_magic b t = Some SLAB_MAGIC" using rt(3) r by (auto simp: slab_magic_def read_low_def)
    have "slab_free_count b u = Some ?k" "slab_total_objects b u = Some (ucast (drop_bit 32 q))"
      using same assms(2) r by (auto simp: slab_free_count_def slab_total_objects_def read_low_def read_high_def)
    then have "give_up_slab c b u = Some u" using r by (simp add: give_up_slab_def)
    moreover have "slab_free_count b t = Some (?k - 1)" using rt(2) by (simp add: slab_free_count_def read_low_def low_half_replace)
    ultimately show ?thesis
      using assms(5,6,8) m rt(6) u(1) k1 by (simp add: slab_free_def Let_def cache_dtor_def call_pointer_def)
  qed
  then show ?thesis using al same by blast
qed

text \<open>A slab and its cache in the first page of the heap's addresses.\<close>

lemma poke_words:
  fixes s :: "'a vmm_state_scheme"
  assumes "vm_ok s D" "distinct (map fst ws)" "fst ` set ws \<subseteq> D"
  shows "\<exists>t :: 'a vmm_state_scheme. vm_ok t D \<and> (\<forall>w\<in>set ws. vread (fst w) t = Some (snd w))"
  using assms(2,3)
proof (induction ws)
  case Nil
  then show ?case using assms(1) by auto
next
  case (Cons w ws)
  then obtain u :: "'a vmm_state_scheme" where u: "vm_ok u D" "\<forall>w\<in>set ws. vread (fst w) u = Some (snd w)" by auto
  have "fst w \<in> D" using Cons.prems by simp
  then obtain t :: "'a vmm_state_scheme" where t: "vm_ok t D" "\<forall>v\<in>D. vread v t = (if v = fst w then Some (snd w) else vread v u)"
    using vwrite_word [OF u(1)] by blast
  have "vread (fst y) t = Some (snd y)" if "y \<in> set (w # ws)" for y
  proof (cases "fst y = fst w")
    case True
    then have "y = w" using that Cons.prems(1) by (auto simp: image_iff)
    then show ?thesis using t(2) \<open>fst w \<in> D\<close> by simp
  next
    case False
    then have "y \<in> set ws" using that by auto
    then show ?thesis using t(2) u(2) Cons.prems(2) False by auto
  qed
  then show ?case using t(1) by blast
qed

theorem slab_alloc_free_witness:
  "\<exists>(s :: kheap_state) t u. slab_ready 0xFFFF800010000400 0xFFFF800010000000 0xFFFF800010000100 0 0x5400000003 s \<and>
     slab_alloc no_code 0xFFFF800010000400 s = Some (0xFFFF800010000100, t) \<and> slab_free no_code 0xFFFF800010000400 0xFFFF800010000100 t = Some u"
proof -
  let ?b = "0xFFFF800010000000 :: u64" and ?c = "0xFFFF800010000400 :: u64" and ?x = "0xFFFF800010000100 :: u64"
  let ?ws = "[(?c + 32, ?b), (?c + 56, 0), (?c + 64, 0), (?b + 16, 0x5400000003), (?b + 24, 0x534C4142), (?b + 32, ?x), (?x, 0)] :: (u64 \<times> u64) list"
  let ?D = "heap_words HEAP_BASE (HEAP_BASE + 4096)"
  obtain s0 where s0: "init_kheap kheap_example = Some (4072, s0)" "heap_ok s0 [(4072, True)]"
    using init_kheap_spec [of kheap_example] kheap_example_ok by auto
  then have vm: "vm_ok s0 ?D" by (simp add: heap_ok_def add.commute)
  have D: "HEAP_START + of_nat i \<in> ?D" if "8 dvd i" "i < 4096" for i
    using that heap_words_mem [of "HEAP_BASE + 4096" "HEAP_BASE + i" HEAP_BASE] by (simp add: HEAP_BASE_def) (simp add: HEAP_START_def)
  have sub: "fst ` set ?ws \<subseteq> ?D"
    using D [of 1056] D [of 1080] D [of 1088] D [of 16] D [of 24] D [of 32] D [of 256] by (simp add: HEAP_START_def)
  obtain s :: kheap_state where s: "vm_ok s ?D" "\<forall>w\<in>set ?ws. vread (fst w) s = Some (snd w)"
    using poke_words [OF vm _ sub] by auto
  have r: "slab_ready ?c ?b ?x 0 0x5400000003 s"
    using s(2) by (simp add: slab_ready_def cache_partial_def SLAB_MAGIC_def)
  have "\<exists>t u. slab_alloc no_code ?c s = Some (?x, t) \<and> slab_free no_code ?c ?x t = Some u \<and> (\<forall>w\<in>?D. vread w u = vread w s)"
  proof (rule slab_alloc_free [OF s(1) _ _ _ _ _ _ _ r])
    show "{cache_partial ?c, ?c + 56, ?c + 64, ?b + 16, ?b + 24, ?b + 32, ?x} \<subseteq> ?D" using sub by (simp add: cache_partial_def)
    show "slab_from_object ?x = ?b" by (simp add: slab_from_object_def PAGE_SIZE_SLAB_def PAGE_SIZE_VMM_def)
  qed simp_all
  then show ?thesis using r by blast
qed

end
