(* ===== verification/Slab_Memory.thy ===== *)
theory Slab_Memory
  imports Slab_Correct Klibc_Correct
begin

text \<open>
  Memory as a function: on a domain of words, a state is described by the function that gives each word its
  value, and every store of the slab allocator is an update of that function.
\<close>

section \<open>Words\<close>

definition holds :: "u64 set \<Rightarrow> (u64 \<Rightarrow> u64) \<Rightarrow> 'a vmm_state_scheme \<Rightarrow> bool" where
  "holds D m s \<longleftrightarrow> vm_ok s D \<and> (\<forall>w\<in>D. vread w s = Some (m w))"

text \<open>What a run of stores does: afterwards memory is \<open>m\<close>, and nothing but memory has changed.\<close>

definition after :: "u64 set \<Rightarrow> (u64 \<Rightarrow> u64) \<Rightarrow> 'a vmm_state_scheme \<Rightarrow> 'a vmm_state_scheme \<Rightarrow> bool" where
  "after D m s t \<longleftrightarrow> holds D m t \<and> t = s\<lparr>pmem := pmem t\<rparr>"

lemma afterD: "after D m s t \<Longrightarrow> holds D m t" "after D m s t \<Longrightarrow> t = s\<lparr>pmem := pmem t\<rparr>"
  by (simp_all add: after_def)

lemma after_refl: "holds D m s \<Longrightarrow> after D m s s"
  by (simp add: after_def)

lemma after_trans: "after D m s t \<Longrightarrow> after D n t u \<Longrightarrow> after D n s u"
  unfolding after_def by (metis vmm_state.update_convs(1) vmm_state.surjective)

lemma holds_read: "holds D m s \<Longrightarrow> w \<in> D \<Longrightarrow> vread w s = Some (m w)"
  by (simp add: holds_def)

lemma holds_exists: "vm_ok s D \<Longrightarrow> holds D (\<lambda>w. the (vread w s)) s"
  unfolding holds_def using vread_total by fastforce

lemma holds_cong: "holds D m s \<Longrightarrow> (\<And>w. w \<in> D \<Longrightarrow> n w = m w) \<Longrightarrow> holds D n s"
  by (simp add: holds_def)

lemma after_cong: "after D m s t \<Longrightarrow> (\<And>w. w \<in> D \<Longrightarrow> n w = m w) \<Longrightarrow> after D n s t"
  unfolding after_def by (rule conjI [OF holds_cong]) (elim conjE, assumption)+

lemma holds_write:
  assumes "holds D m s" "v \<in> D"
  obtains t where "vwrite v x s = Some t" "after D (m(v := x)) s t"
proof -
  have ok: "vm_ok s D" using assms(1) by (simp add: holds_def)
  show ?thesis
  proof (rule vwrite_spec [OF ok assms(2), of x])
    fix t
    assume t: "vwrite v x s = Some t" "vm_ok t D" "t = s\<lparr>pmem := pmem t\<rparr>"
      "\<And>w. w \<in> D \<Longrightarrow> vread w t = (if w = v then Some x else vread w s)"
    have "holds D (m(v := x)) t" using t(2,4) assms(1) by (simp add: holds_def)
    then have "after D (m(v := x)) s t" unfolding after_def using t(3) by (rule conjI)
    then show thesis by (rule that [OF t(1)])
  qed
qed

definition set_low :: "u32 \<Rightarrow> u64 \<Rightarrow> u64" where
  "set_low k q = push_bit 32 (drop_bit 32 q) OR ucast k"

definition set_high :: "u32 \<Rightarrow> u64 \<Rightarrow> u64" where
  "set_high k q = push_bit 32 (ucast k) OR take_bit 32 q"

lemma halves [simp]:
  "ucast (set_low k q) = k" "drop_bit 32 (set_low k q) = drop_bit 32 q"
  "ucast (set_high k q) = (ucast q :: u32)" "drop_bit 32 (set_high k q) = ucast k"
  unfolding set_low_def set_high_def
  by (rule bit_word_eqI; auto simp: bit_simps dest: bit_imp_le_length)+

lemma holds_low:
  assumes "holds D m s" "v \<in> D"
  obtains t where "write_low v k s = Some t" "after D (m(v := set_low k (m v))) s t"
  by (rule holds_write [OF assms, of "set_low k (m v)"])
    (use holds_read [OF assms] in \<open>simp add: write_low_def set_low_def\<close>)

lemma holds_high:
  assumes "holds D m s" "v \<in> D"
  obtains t where "write_high v k s = Some t" "after D (m(v := set_high k (m v))) s t"
  by (rule holds_write [OF assms, of "set_high k (m v)"])
    (use holds_read [OF assms] in \<open>simp add: write_high_def set_high_def\<close>)

section \<open>Pages\<close>

text \<open>The words of a page below the kernel half.\<close>

lemma low_page_words:
  assumes "is_frame b" "unat b + 4096 \<le> 2 ^ 47"
  shows "w \<in> page_qwords b \<longleftrightarrow> unat b \<le> unat w \<and> unat w < unat b + 4096 \<and> 8 dvd unat w"
proof -
  have b: "canonical b" using assms(2) by (simp add: canonical_def word_less_nat_alt)
  have "4096 dvd unat b" using assms(1) by (simp add: is_frame_iff mod_eq_0_iff_dvd)
  then obtain q where q: "unat b = 4096 * q" by (rule dvdE)
  have eq: "unat w div 4096 = unat b div 4096 \<longleftrightarrow> unat b \<le> unat w \<and> unat w < unat b + 4096"
    unfolding q by (simp add: div_eq_dividend_iff) linarith
  have "canonical w" if "unat w < unat b + 4096" using that assms(2) by (simp add: canonical_def word_less_nat_alt)
  then show ?thesis
    using canonical_page [OF _ b, of w] eq unfolding page_qwords_def aligned8_def mod_eq_0_iff_dvd by blast
qed

lemma low_page_word:
  assumes "is_frame b" "unat b + 4096 \<le> 2 ^ 47" "i < 4096" "8 dvd i"
  shows "b + of_nat i \<in> page_qwords b" "unat (b + of_nat i) = unat b + i"
proof -
  show u: "unat (b + of_nat i) = unat b + i"
    using assms by (subst unat_plus_no_overflow) (simp_all add: unat_of_nat_small)
  have "8 dvd unat b" using assms(1) unfolding is_frame_iff mod_eq_0_iff_dvd by (elim conjE) (rule dvd_trans [of _ 4096], simp_all)
  then show "b + of_nat i \<in> page_qwords b" unfolding low_page_words [OF assms(1,2)] u using assms(3,4) by simp
qed

text \<open>Clearing a page of the domain.\<close>

lemma clear_page:
  assumes "holds D m s" "page_qwords b \<subseteq> D" "is_frame b" "unat b + 4096 \<le> 2 ^ 47"
  obtains t where "memset b 0 PAGE_SIZE_SLAB s = Some (b, t)" "after D (\<lambda>w. if w \<in> page_qwords b then 0 else m w) s t"
proof -
  let ?B = "{a. qword_addr a \<in> D}"
  have al: "aligned8 w" if "w \<in> D" for w
    using assms(1) that unfolding holds_def vm_ok_def backed_def by blast
  have D: "D = qword_addr ` ?B"
  proof (intro equalityI subsetI)
    fix w assume "w \<in> D"
    moreover have "qword_addr w = w" using qword_bytes(1) [OF al [OF \<open>w \<in> D\<close>], of 0] by simp
    ultimately show "w \<in> qword_addr ` ?B" by (intro image_eqI [of _ _ w]) simp_all
  qed auto
  have vm: "vm8_ok s ?B" using assms(1) D unfolding vm8_ok_def holds_def by simp
  have n: "unat PAGE_SIZE_SLAB = 4096" by (simp add: PAGE_SIZE_SLAB_def PAGE_SIZE_VMM_def)
  have page: "unat (b + of_nat i) = unat b + i \<and> qword_addr (b + of_nat i) \<in> page_qwords b" if "i < 4096" for i
  proof -
    have u: "unat (b + of_nat i) = unat b + i"
      using assms(4) that by (subst unat_plus_no_overflow) (simp_all add: unat_of_nat_small)
    have "8 dvd unat b" using low_page_word(2) [OF assms(3,4), of 0] assms(3) low_page_words [OF assms(3,4), of b]
      low_page_word(1) [OF assms(3,4), of 0] by simp
    then show ?thesis using u that unfolding low_page_words [OF assms(3,4)] unat_qword_addr by (auto elim!: dvdE)
  qed
  have "range8 b (unat PAGE_SIZE_SLAB) \<subseteq> ?B" using page assms(2) unfolding n range8_def by auto
  then obtain t where t: "memset b 0 PAGE_SIZE_SLAB s = Some (b, t)" "wrote8 ?B s t"
      "\<forall>a\<in>?B. vread8 a t = (if unat (a - b) < 4096 then Some 0 else vread8 a s)"
    using memset_spec [OF vm, of b PAGE_SIZE_SLAB 0] unfolding n by auto
  have ok: "vm_ok t D" using t(2) D unfolding wrote8_def vm8_ok_def by simp
  have byte: "qword_addr (w + of_nat k) = w \<and> unat (w + of_nat k) = unat w + k" if wk: "w \<in> D" "k < 8" for w k
  proof -
    obtain r where r: "unat w = 8 * r" using al [OF wk(1)] unfolding aligned8_def by (metis mod_0_imp_dvd dvdE)
    have "unat w < 2 ^ 64" using unsigned_less [of w, where ?'a = nat] by simp
    then have "unat w + k < 2 ^ 64" using wk(2) unfolding r by simp
    then have "unat (w + of_nat k) = unat w + k"
      using wk(2) by (subst unat_plus_no_overflow) (simp_all add: unat_of_nat_small)
    then show ?thesis using qword_bytes(1) [OF al [OF wk(1)] wk(2)] by simp
  qed
  show ?thesis
  proof (rule that [OF t(1)])
    have "vread w t = Some (if w \<in> page_qwords b then 0 else m w)" if w: "w \<in> D" for w
    proof (cases "w \<in> page_qwords b")
      case True
      obtain q where q: "vread w t = Some q" using vread_total [OF ok w] by blast
      have "get_byte k q = 0" if "k < 8" for k
      proof -
        let ?a = "w + of_nat k"
        have pw: "unat b \<le> unat w" "unat w < unat b + 4096" "8 dvd unat w" "8 dvd unat b"
          using True low_page_words [OF assms(3,4)] low_page_word(1) [OF assms(3,4), of 0] by simp_all
        obtain x y where xy: "unat w = 8 * x" "unat b = 8 * y" using pw(3,4) by (auto elim!: dvdE)
        have "unat w + k < unat b + 4096" using pw(2) that unfolding xy by presburger
        moreover have "b \<le> ?a" using pw(1) byte [OF w that] by (simp add: word_le_nat_alt)
        ultimately have "unat (?a - b) < 4096" using byte [OF w that] pw(1) by (simp add: unat_sub)
        moreover have "?a \<in> ?B" using byte [OF w that] w by simp
        ultimately have "vread8 ?a t = Some 0" using t(3) by simp
        then show ?thesis using byte [OF w that] qword_bytes(2) [OF al [OF w] that] q by (simp add: vread8_def)
      qed
      then have "q = 0" by (intro get_byte_ext) (simp add: get_byte_def)
      then show ?thesis using True q by simp
    next
      case False
      have "vread w t = vread w s"
      proof (rule vread_bytes_cong [OF al [OF w]])
        fix k :: nat assume k: "k < 8"
        let ?a = "w + of_nat k"
        have "\<not> unat (?a - b) < 4096"
        proof
          assume "unat (?a - b) < 4096"
          then have "qword_addr (b + of_nat (unat (?a - b))) \<in> page_qwords b" using page by blast
          then show False using False byte [OF w k] by simp
        qed
        then show "vread8 ?a t = vread8 ?a s" using t(3) byte [OF w k] w by simp
      qed
      then show ?thesis using False holds_read [OF assms(1) w] by simp
    qed
    then have "holds D (\<lambda>w. if w \<in> page_qwords b then 0 else m w) t" using ok by (simp add: holds_def)
    moreover have "t = s\<lparr>pmem := pmem t\<rparr>" using t(2) by (simp add: wrote8_def)
    ultimately show "after D (\<lambda>w. if w \<in> page_qwords b then 0 else m w) s t" unfolding after_def by (rule conjI)
  qed
qed

end
