(* ===== verification/Slab_Fresh.thy ===== *)
theory Slab_Fresh
  imports Slab_Memory
begin

text \<open>
  New slabs.  \<open>slab_init\<close> turns a free page into a stack of objects, \<open>slab_alloc\<close> pops it, and the slab moves to the
  list of full slabs with its last object.
\<close>

section \<open>Objects of a slab\<close>

primrec slots :: "nat \<Rightarrow> u64 \<Rightarrow> u64 \<Rightarrow> u64 list" where
  "slots 0 x sz = []"
| "slots (Suc n) x sz = x # slots n (x + sz) sz"

lemma slots_length [simp]: "length (slots n x sz) = n"
  by (induction n arbitrary: x) simp_all

lemma slots_nth: "i < n \<Longrightarrow> slots n x sz ! i = x + of_nat i * sz"
  by (induction n arbitrary: x i) (auto simp: nth_Cons' algebra_simps split: nat.split)

lemma slots_mem: "y \<in> set (slots n x sz) \<longleftrightarrow> (\<exists>i<n. y = x + of_nat i * sz)"
  by (auto simp: in_set_conv_nth slots_nth)

text \<open>The stack of free objects that starts at an address, threaded through the objects.\<close>

fun free_chain :: "(u64 \<Rightarrow> u64) \<Rightarrow> u64 \<Rightarrow> u64 list \<Rightarrow> bool" where
  "free_chain m p [] \<longleftrightarrow> p = NULL"
| "free_chain m p (x # xs) \<longleftrightarrow> p = x \<and> x \<noteq> NULL \<and> free_chain m (m x) xs"

lemma free_chain_cong: "(\<And>x. x \<in> set xs \<Longrightarrow> n x = m x) \<Longrightarrow> free_chain n p xs = free_chain m p xs"
  by (induction xs arbitrary: p) auto

lemma thread_objects_chain:
  assumes "holds D m s" "free_chain m prev ys" "set (slots n x sz) \<subseteq> D" "distinct (slots n x sz @ ys)" "0 \<notin> set (slots n x sz)"
  shows "\<exists>p t m'. thread_objects n x prev sz s = Some (p, t) \<and> after D m' s t \<and> free_chain m' p (rev (slots n x sz) @ ys) \<and>
    (\<forall>w. w \<notin> set (slots n x sz) \<longrightarrow> m' w = m w)"
  using assms
proof (induction n arbitrary: x prev ys m s)
  case 0
  then show ?case using after_refl by fastforce
next
  case (Suc n)
  let ?m = "m(x := prev)"
  have x: "x \<in> D" using Suc.prems(3) by simp
  obtain u where u: "vwrite x prev s = Some u" "after D ?m s u" by (rule holds_write [OF Suc.prems(1) x])
  have "free_chain ?m prev ys"
    by (rule free_chain_cong [THEN iffD2, OF _ Suc.prems(2)]) (use Suc.prems(4) in auto)
  then have ch: "free_chain ?m x (x # ys)" using Suc.prems(5) by simp
  have "set (slots n (x + sz) sz) \<subseteq> D" "distinct (slots n (x + sz) sz @ x # ys)" "0 \<notin> set (slots n (x + sz) sz)"
    using Suc.prems(3-5) by auto
  then obtain p t m' where t: "thread_objects n (x + sz) x sz u = Some (p, t)" "after D m' u t"
      "free_chain m' p (rev (slots n (x + sz) sz) @ x # ys)" "\<forall>w. w \<notin> set (slots n (x + sz) sz) \<longrightarrow> m' w = ?m w"
    using Suc.IH [OF afterD(1) [OF u(2)] ch] by blast
  have "after D m' s t" by (rule after_trans [OF u(2) t(2)])
  then show ?case using u(1) t by auto
qed

section \<open>Layout\<close>

text \<open>What a cache whose objects have alignment \<open>2 ^ k\<close> and size \<open>sz\<close> is good for: \<open>n\<close> objects in each page.\<close>

definition layout :: "nat \<Rightarrow> u64 \<Rightarrow> nat \<Rightarrow> bool" where
  "layout k sz n \<longleftrightarrow> k \<in> set [3..<13] \<and> slab_objects (2 ^ k) sz = Some (of_nat n) \<and> 0 < n \<and> n < 4096 \<and> 2 ^ k dvd unat sz"

definition page_objects :: "u64 \<Rightarrow> nat \<Rightarrow> u64 \<Rightarrow> nat \<Rightarrow> u64 list" where
  "page_objects b k sz n = slots n (b + first_object_offset (2 ^ k)) sz"

lemma layoutD:
  assumes "layout k sz n"
  shows "k \<in> set [3..<13]" "slab_objects (2 ^ k) sz = Some (of_nat n)" "0 < n" "n < 4096" "2 ^ k dvd unat sz"
  using assms unfolding layout_def by blast+

lemma layout_size: "layout k sz n \<Longrightarrow> 0 < unat sz"
  using layoutD(2) [of k sz n] by (auto simp: slab_objects_def unat_gt_0 split: if_splits)

lemma layout_count:
  assumes "layout k sz n"
  shows "unat (of_nat n :: u64) = n" "(of_nat n :: u64) \<noteq> 0" "ucast (of_nat n :: u64) = (of_nat n :: u32)"
    "ucast (of_nat n :: u32) = (of_nat n :: u64)"
proof -
  show u: "unat (of_nat n :: u64) = n" using layoutD(4) [OF assms] by (simp add: unat_of_nat_small)
  then show "(of_nat n :: u64) \<noteq> 0" using layoutD(3) [OF assms] by (metis not_gr_zero unsigned_0)
  show "ucast (of_nat n :: u64) = (of_nat n :: u32)"
    using layoutD(4) [OF assms] u by (simp add: word_unat_eq_iff unat_ucast_mod unat_of_nat_small)
  show "ucast (of_nat n :: u32) = (of_nat n :: u64)"
    using layoutD(4) [OF assms] u by (simp add: word_unat_eq_iff unat_ucast_mod unat_of_nat_small)
qed

lemma first_object_aligned:
  "k \<in> set [3..<13] \<Longrightarrow> 2 ^ k dvd unat (first_object_offset (2 ^ k))"
  by (auto simp: upt_rec first_object_offset_def align_up_def sizeof_slab_def)

lemma layout_object:
  assumes "layout k sz n" "i < n" "is_frame b" "unat b + 4096 \<le> 2 ^ 47"
  shows "unat (page_objects b k sz n ! i) = unat b + unat (first_object_offset (2 ^ k)) + i * unat sz"
    "unat b + 40 \<le> unat (page_objects b k sz n ! i)" "unat (page_objects b k sz n ! i) + unat sz \<le> unat b + 4096"
    "2 ^ k dvd unat (page_objects b k sz n ! i)" "page_objects b k sz n ! i \<in> page_qwords b"
proof -
  let ?f = "first_object_offset (2 ^ k) :: u64"
  have l: "k \<in> set [3..<13]" "slab_objects (2 ^ k) sz = Some (of_nat n)" "n < 4096" "2 ^ k dvd unat sz"
    using assms(1) by (simp_all add: layout_def)
  have n: "unat (of_nat n :: u64) = n" using l(3) by (simp add: unat_of_nat_small)
  have p: "unat PAGE_SIZE_SLAB = 4096" by (simp add: PAGE_SIZE_SLAB_def PAGE_SIZE_VMM_def)
  have in_page: "40 \<le> unat ?f" "unat ?f + i * unat sz + unat sz \<le> 4096"
    using objects_inside [OF l(1,2), of i] assms(2) n p by simp_all
  have i: "unat (of_nat i * sz) = i * unat sz"
    using in_page(2) assms(2) l(3) by (simp add: unat_mult_lem unat_word_ariths unat_of_nat_small)
  have "unat (b + ?f) = unat b + unat ?f" using assms(4) in_page(2) by (subst unat_plus_no_overflow) simp_all
  then show u: "unat (page_objects b k sz n ! i) = unat b + unat ?f + i * unat sz"
    using assms(2,4) in_page(2) i by (simp add: page_objects_def slots_nth) (subst unat_plus_no_overflow, simp_all)
  show "unat b + 40 \<le> unat (page_objects b k sz n ! i)" "unat (page_objects b k sz n ! i) + unat sz \<le> unat b + 4096"
    using in_page unfolding u by simp_all
  have kk: "3 \<le> k" "k \<le> 12" using l(1) unfolding set_upt atLeastLessThan_iff by simp_all
  have "(2 :: nat) ^ k dvd 2 ^ 12" using kk(2) by (rule le_imp_power_dvd)
  moreover have "2 ^ 12 dvd unat b" using assms(3) by (simp add: is_frame_iff mod_eq_0_iff_dvd)
  ultimately have "2 ^ k dvd unat b" by (rule dvd_trans)
  then show d: "2 ^ k dvd unat (page_objects b k sz n ! i)"
    unfolding u using first_object_aligned [OF l(1)] l(4) by simp
  have "(8 :: nat) dvd 2 ^ k" using le_imp_power_dvd [OF kk(1), of "2 :: nat"] by simp
  then have "8 dvd unat (page_objects b k sz n ! i)" using d by (rule dvd_trans)
  moreover have "0 < unat sz" using l(2) by (auto simp: slab_objects_def unat_gt_0 split: if_splits)
  ultimately show "page_objects b k sz n ! i \<in> page_qwords b"
    using in_page unfolding low_page_words [OF assms(3,4)] u by simp
qed

lemma layout_objects:
  assumes "layout k sz n" "is_frame b" "unat b + 4096 \<le> 2 ^ 47"
  shows "distinct (page_objects b k sz n)" "0 \<notin> set (page_objects b k sz n)" "set (page_objects b k sz n) \<subseteq> page_qwords b"
    "i < 40 \<Longrightarrow> b + of_nat i \<notin> set (page_objects b k sz n)" "length (page_objects b k sz n) = n"
proof -
  show l: "length (page_objects b k sz n) = n" by (simp add: page_objects_def)
  note ob = layout_object [OF assms(1) _ assms(2,3)]
  have sz: "0 < unat sz" by (rule layout_size [OF assms(1)])
  have "i = j" if "i < n" "j < n" "page_objects b k sz n ! i = page_objects b k sz n ! j" for i j
  proof -
    have "i * unat sz = j * unat sz" using ob(1) [OF that(1)] ob(1) [OF that(2)] unfolding that(3) by linarith
    then show ?thesis using sz by simp
  qed
  then show "distinct (page_objects b k sz n)" unfolding distinct_conv_nth l by blast
  show "0 \<notin> set (page_objects b k sz n)"
  proof
    assume "0 \<in> set (page_objects b k sz n)"
    then obtain i where "i < n" "page_objects b k sz n ! i = 0" using l by (auto simp: in_set_conv_nth)
    then show False using ob(2) [of i] by simp
  qed
  show "set (page_objects b k sz n) \<subseteq> page_qwords b" using ob(5) l by (auto simp: in_set_conv_nth)
  show "b + of_nat i \<notin> set (page_objects b k sz n)" if "i < 40" for i
  proof
    assume "b + of_nat i \<in> set (page_objects b k sz n)"
    then obtain j where "j < n" "page_objects b k sz n ! j = b + of_nat i" using l by (auto simp: in_set_conv_nth)
    moreover have "unat (b + of_nat i) = unat b + i"
      using that assms(3) by (subst unat_plus_no_overflow) (simp_all add: unat_of_nat_small)
    ultimately show False using ob(2) [of j] that by simp
  qed
qed

section \<open>A new slab\<close>

definition slab_stack :: "(u64 \<Rightarrow> u64) \<Rightarrow> u64 \<Rightarrow> nat \<Rightarrow> u64 list \<Rightarrow> bool" where
  "slab_stack m b n xs \<longleftrightarrow> drop_bit 32 (m (b + 16)) = of_nat n \<and> ucast (m (b + 16)) = (of_nat (length xs) :: u32) \<and>
     (ucast (m (b + 24)) :: u32) = SLAB_MAGIC \<and> free_chain m (m (b + 32)) xs"

lemma slab_init_spec:
  fixes s :: "'a vmm_state_scheme"
  assumes ok: "vm_ok s D" "\<And>w. w \<in> D \<Longrightarrow> KERNEL_HALF \<le> w"
    and c: "{c + 8, c + 16} \<subseteq> D" "vread (c + 16) s = Some (2 ^ k)" "vread (c + 8) s = Some sz" "layout k sz n"
    and pages: "4 \<le> card (pmm_avail s)" "\<And>f. f \<in> pmm_avail s \<Longrightarrow> unat f + 4096 \<le> 2 ^ 47"
  obtains b t m where "slab_init c s = Some (b, t)" "b \<in> pmm_avail s" "b \<noteq> 0" "is_frame b" "unat b + 4096 \<le> 2 ^ 47"
    "holds (D \<union> page_qwords b) m t" "\<forall>w. w \<in> D \<longrightarrow> vread w s = Some (m w)" "m b = 0"
    "slab_stack m b n (rev (page_objects b k sz n))" "vmm_state.more t = vmm_state.more s"
proof -
  have wf: "pmm_wf s" using ok(1) by (simp add: vm_ok_def)
  obtain b s1 where p: "pmm_alloc_page s = (b, s1)" by (cases "pmm_alloc_page s")
  have ne: "pmm_avail s \<noteq> {}" using pages(1) by auto
  note al = pmm_alloc_some [OF wf ne p]
  have fr: "is_frame b" using pmm_frames [OF wf] pmm_avail_managed al(1) by blast
  have low: "unat b + 4096 \<le> 2 ^ 47" by (rule pages(2) [OF al(1)])
  have "pmm_wf s1" using pmm_wf_alloc [OF wf] p by simp
  moreover have "0 + 3 \<le> card (pmm_avail s1)" using al(1,3) pages(1) by (simp add: pmm.finite_avail)
  ultimately obtain s2 where m: "vmm_map b b (VMM_PRESENT OR VMM_WRITE) s1 = Some s2" using vmm_map_total by metis
  let ?P = "page_qwords b"
  let ?D = "D \<union> ?P"
  have disj: "D \<inter> ?P = {}"
  proof -
    have "unat KERNEL_HALF \<le> unat w" if "w \<in> D" for w using ok(2) [OF that] by (simp add: word_le_nat_alt)
    then show ?thesis using low by (fastforce simp: low_page_words [OF fr low] KERNEL_HALF_def)
  qed
  note mp = vm_ok_map_page [OF ok(1) p al(2) map_flags m disj]
  define m0 where "m0 = (\<lambda>w. the (vread w s2))"
  have h0: "holds ?D m0 s2" unfolding m0_def by (rule holds_exists [OF mp(1)])
  have m0: "vread w s = Some (m0 w)" if "w \<in> D" for w
    using vread_total [OF ok(1) that] mp(2) [OF that] by (auto simp: m0_def)
  have hd: "b + of_nat i \<in> ?D" if "i < 4096" "8 dvd i" for i using low_page_word(1) [OF fr low that] by simp
  have w: "b + 8 \<in> ?D" "b + 16 \<in> ?D" "b + 24 \<in> ?D" "b + 32 \<in> ?D" using hd [of 8] hd [of 16] hd [of 24] hd [of 32] by simp_all
  have notD: "b \<notin> D" "b + 8 \<notin> D" "b + 16 \<notin> D" "b + 24 \<notin> D" "b + 32 \<notin> D"
    using low_page_word(1) [OF fr low, of 0] low_page_word(1) [OF fr low, of 8] low_page_word(1) [OF fr low, of 16]
      low_page_word(1) [OF fr low, of 24] low_page_word(1) [OF fr low, of 32] disj by auto
  obtain s3 where s3: "memset b 0 PAGE_SIZE_SLAB s2 = Some (b, s3)" "after ?D (\<lambda>w. if w \<in> ?P then 0 else m0 w) s2 s3"
    by (rule clear_page [OF h0 _ fr low]) blast
  define m1 where "m1 = (\<lambda>w. if w \<in> ?P then 0 else m0 w)"
  have h3: "holds ?D m1 s3" using afterD(1) [OF s3(2)] by (simp add: m1_def)
  have cw: "vread (c + 16) s3 = Some (2 ^ k)" "vread (c + 8) s3 = Some sz"
  proof -
    have "vread x s3 = vread x s" if "x \<in> D" for x
      using holds_read [OF h3, of x] m0 [OF that] that disj by (auto simp: m1_def)
    then show "vread (c + 16) s3 = Some (2 ^ k)" "vread (c + 8) s3 = Some sz" using c(1-3) by auto
  qed
  obtain s4 where s4: "vwrite (b + 8) c s3 = Some s4" "after ?D (m1(b + 8 := c)) s3 s4" by (rule holds_write [OF h3 w(1)])
  define m2 where "m2 = m1(b + 8 := c)"
  note h4 = afterD(1) [OF s4(2), folded m2_def]
  obtain s5 where s5: "write_high (b + 16) (of_nat n) s4 = Some s5" "after ?D (m2(b + 16 := set_high (of_nat n) (m2 (b + 16)))) s4 s5"
    by (rule holds_high [OF h4 w(2)])
  define m3 where "m3 = m2(b + 16 := set_high (of_nat n) (m2 (b + 16)))"
  note h5 = afterD(1) [OF s5(2), folded m3_def]
  obtain s6 where s6: "write_low (b + 16) (of_nat n) s5 = Some s6" "after ?D (m3(b + 16 := set_low (of_nat n) (m3 (b + 16)))) s5 s6"
    by (rule holds_low [OF h5 w(2)])
  define m4 where "m4 = m3(b + 16 := set_low (of_nat n) (m3 (b + 16)))"
  note h6 = afterD(1) [OF s6(2), folded m4_def]
  obtain s7 where s7: "write_low (b + 24) SLAB_MAGIC s6 = Some s7" "after ?D (m4(b + 24 := set_low SLAB_MAGIC (m4 (b + 24)))) s6 s7"
    by (rule holds_low [OF h6 w(3)])
  define m5 where "m5 = m4(b + 24 := set_low SLAB_MAGIC (m4 (b + 24)))"
  note h7 = afterD(1) [OF s7(2), folded m5_def]
  note ob = layout_objects [OF c(4) fr low]
  have "set (slots n (b + first_object_offset (2 ^ k)) sz) \<subseteq> ?D" "distinct (slots n (b + first_object_offset (2 ^ k)) sz @ [])"
      "0 \<notin> set (slots n (b + first_object_offset (2 ^ k)) sz)"
    using ob(1-3) unfolding page_objects_def by auto
  then obtain q s8 m6 where s8: "thread_objects n (b + first_object_offset (2 ^ k)) NULL sz s7 = Some (q, s8)" "after ?D m6 s7 s8"
      "free_chain m6 q (rev (page_objects b k sz n))" "\<forall>w. w \<notin> set (page_objects b k sz n) \<longrightarrow> m6 w = m5 w"
    using thread_objects_chain [OF h7, of NULL "[]" n "b + first_object_offset (2 ^ k)" sz] unfolding page_objects_def by auto
  obtain s9 where s9: "vwrite (b + 32) q s8 = Some s9" "after ?D (m6(b + 32 := q)) s8 s9"
    by (rule holds_write [OF afterD(1) [OF s8(2)] w(4)])
  define m7 where "m7 = m6(b + 32 := q)"
  have nob: "b \<notin> set (page_objects b k sz n)" "b + 8 \<notin> set (page_objects b k sz n)" "b + 16 \<notin> set (page_objects b k sz n)"
      "b + 24 \<notin> set (page_objects b k sz n)" "b + 32 \<notin> set (page_objects b k sz n)"
    using ob(4) [of 0] ob(4) [of 8] ob(4) [of 16] ob(4) [of 24] ob(4) [of 32] by simp_all
  note defs = m7_def m5_def m4_def m3_def m2_def m1_def
  show ?thesis
  proof (rule that [of b s9 m7])
    show "slab_init c s = Some (b, s9)"
      using p al(2) m s3(1) cw layoutD(2) [OF c(4)] layout_count [OF c(4)] s4(1) s5(1) s6(1) s7(1) s8(1) s9(1)
      by (simp add: slab_init_def Let_def cache_align_def cache_object_size_def)
    show "holds (D \<union> ?P) m7 s9" using afterD(1) [OF s9(2)] by (simp add: m7_def)
    show "\<forall>w. w \<in> D \<longrightarrow> vread w s = Some (m7 w)"
    proof (intro allI impI)
      fix w assume that: "w \<in> D"
      have "w \<notin> set (page_objects b k sz n)" "w \<notin> ?P" using ob(3) disj that by auto
      then show "vread w s = Some (m7 w)" using m0 [OF that] s8(4) that notD by (auto simp: defs)
    qed
    have P: "b \<in> ?P" using low_page_word(1) [OF fr low, of 0] by simp
    then show "m7 b = 0" using s8(4) nob(1) by (simp add: defs)
    have "free_chain m7 q (rev (page_objects b k sz n))"
      by (rule free_chain_cong [THEN iffD2, OF _ s8(3)]) (use nob(5) in \<open>auto simp: m7_def\<close>)
    then show "slab_stack m7 b n (rev (page_objects b k sz n))"
      using s8(4) nob ob(5) layout_count(4) [OF c(4)] by (simp add: slab_stack_def defs)
    have "after ?D m7 s2 s9"
      unfolding m7_def using s3(2) s4(2) s5(2) s6(2) s7(2) s8(2) s9(2) by (meson after_trans)
    then have "s9 = s2\<lparr>pmem := pmem s9\<rparr>" by (rule afterD)
    from arg_cong [OF this, of vmm_state.more] have "vmm_state.more s9 = vmm_state.more s2" by simp
    then show "vmm_state.more s9 = vmm_state.more s" using mp(3) by simp
  qed (use al(1,2) fr low in simp_all)
qed

section \<open>Popping objects\<close>

text \<open>A cache and the page of one of its slabs in a domain of words.\<close>

definition slab_site :: "u64 set \<Rightarrow> u64 \<Rightarrow> u64 \<Rightarrow> bool" where
  "slab_site D c b \<longleftrightarrow> c \<noteq> NULL \<and> b \<noteq> NULL \<and> is_frame b \<and> unat b + 4096 \<le> 2 ^ 47 \<and>
     {c + 32, c + 40, c + 56} \<union> page_qwords b \<subseteq> D \<and> {c + 32, c + 40, c + 56} \<inter> page_qwords b = {}"

text \<open>The slab at the head of the partial list has the free objects \<open>xs\<close> left; the cache has no constructor.\<close>

definition serves :: "(u64 \<Rightarrow> u64) \<Rightarrow> u64 \<Rightarrow> u64 \<Rightarrow> nat \<Rightarrow> u64 list \<Rightarrow> bool" where
  "serves m c b n xs \<longleftrightarrow> m (c + 32) = b \<and> m (c + 56) = 0 \<and> slab_stack m b n xs \<and> distinct xs \<and> length xs < 4096 \<and>
     set xs \<subseteq> page_qwords b \<and> {b, b + 16, b + 24, b + 32} \<inter> set xs = {}"

lemma slab_site_words:
  assumes "slab_site D c b"
  shows "b \<in> page_qwords b" "b + 16 \<in> page_qwords b" "b + 24 \<in> page_qwords b" "b + 32 \<in> page_qwords b" "page_qwords b \<subseteq> D"
  using low_page_word(1) [of b 0] low_page_word(1) [of b 16] low_page_word(1) [of b 24] low_page_word(1) [of b 32] assms
  by (simp_all add: slab_site_def)

lemma slab_pop_stack:
  assumes "holds D m s" "slab_site D c b" "serves m c b n (x # xs)"
  obtains t m' where "slab_pop_object b s = Some (x, t)" "after D m' s t" "serves m' c b n xs"
    "\<And>w. w \<notin> page_qwords b \<Longrightarrow> m' w = m w" "m' b = m b"
proof -
  note st = slab_site_words [OF assms(2)]
  note sv = assms(3) [unfolded serves_def slab_stack_def]
  have D: "b + 16 \<in> D" "b + 32 \<in> D" "x \<in> D" using st sv by auto
  obtain u where u: "vwrite (b + 32) (m x) s = Some u" "after D (m(b + 32 := m x)) s u" by (rule holds_write [OF assms(1) D(2)])
  obtain t where t: "write_low (b + 16) (of_nat (length xs)) u = Some t"
      "after D ((m(b + 32 := m x))(b + 16 := set_low (of_nat (length xs)) ((m(b + 32 := m x)) (b + 16)))) u t"
    by (rule holds_low [OF afterD(1) [OF u(2)] D(1)])
  define m' where "m' = m(b + 32 := m x, b + 16 := set_low (of_nat (length xs)) (m (b + 16)))"
  have af: "after D m' s t" using after_trans [OF u(2) t(2)] by (simp add: m'_def)
  have x: "m (b + 32) = x" "x \<noteq> NULL" "free_chain m (m x) xs" using sv by auto
  have "free_chain m' (m x) xs" by (rule free_chain_cong [THEN iffD2, OF _ x(3)]) (use sv in \<open>auto simp: m'_def\<close>)
  moreover have "m' (c + 32) = m (c + 32)" "m' (c + 56) = m (c + 56)"
  proof -
    have "c + 32 \<notin> page_qwords b" "c + 56 \<notin> page_qwords b" using assms(2) by (simp_all add: slab_site_def)
    then have "c + 32 \<noteq> b + 16" "c + 32 \<noteq> b + 32" "c + 56 \<noteq> b + 16" "c + 56 \<noteq> b + 32" using st(2,4) by metis+
    then show "m' (c + 32) = m (c + 32)" "m' (c + 56) = m (c + 56)" by (simp_all add: m'_def)
  qed
  moreover have "m' (b + 16) = set_low (of_nat (length xs)) (m (b + 16))" "m' (b + 24) = m (b + 24)" "m' (b + 32) = m x"
    using x sv by (simp_all add: m'_def)
  ultimately have sv': "serves m' c b n xs"
    using sv by (auto simp: serves_def slab_stack_def)
  have "vread (b + 16) u = Some (m (b + 16))" using holds_read [OF afterD(1) [OF u(2)] D(1)] by simp
  then have pop: "slab_pop_object b s = Some (x, t)"
    using assms(2) x holds_read [OF assms(1) D(2)] holds_read [OF assms(1) D(3)] u(1) t(1) sv
    by (simp add: slab_pop_object_def slab_free_list_def slab_free_count_def read_low_def slab_site_def)
  show ?thesis by (rule that [OF pop af sv']) (use st in \<open>auto simp: m'_def\<close>)
qed

lemma slab_alloc_chosen:
  assumes "holds D m s" "slab_site D c b" "serves m c b n (x # xs)"
  shows "choose_slab c s = Some (b, s)"
proof -
  have "c + 32 \<in> D" using assms(2) by (simp add: slab_site_def)
  from holds_read [OF assms(1) this] show ?thesis
    using assms(2,3) by (simp add: choose_slab_def cache_partial_def serves_def slab_site_def)
qed

lemma slab_alloc_more_left:
  fixes s :: "'a kheap_state_scheme"
  assumes "holds D m s" "slab_site D c b" "serves m c b n (x # xs)" "xs \<noteq> []"
  obtains t m' where "slab_alloc no_code c s = Some (x, t)" "after D m' s t" "serves m' c b n xs"
    "\<And>w. w \<notin> page_qwords b \<Longrightarrow> m' w = m w" "m' b = m b"
proof -
  obtain t m' where t: "slab_pop_object b s = Some (x, t)" "after D m' s t" "serves m' c b n xs"
      "\<And>w. w \<notin> page_qwords b \<Longrightarrow> m' w = m w" "m' b = m b"
    by (rule slab_pop_stack [OF assms(1-3)]) blast
  have D: "b + 16 \<in> D" "c + 56 \<in> D" using slab_site_words [OF assms(2)] assms(2) by (auto simp: slab_site_def)
  have "(of_nat (length xs) :: u32) \<noteq> 0"
    using t(3) assms(4) by (simp add: serves_def word_unat_eq_iff unat_of_nat_small)
  then have "retire_full c b t = Some t"
    using holds_read [OF afterD(1) [OF t(2)] D(1)] t(3)
    by (simp add: retire_full_def slab_free_count_def read_low_def serves_def slab_stack_def)
  moreover have "cache_ctor c t = Some 0"
    using holds_read [OF afterD(1) [OF t(2)] D(2)] t(3) by (simp add: cache_ctor_def serves_def)
  moreover have "x \<noteq> NULL" using assms(3) by (simp add: serves_def slab_stack_def)
  ultimately have "slab_alloc no_code c s = Some (x, t)"
    using slab_alloc_chosen [OF assms(1-3)] t(1) assms(2) by (simp add: slab_alloc_def call_pointer_def slab_site_def)
  then show ?thesis using that t by blast
qed

lemma slab_alloc_last:
  fixes s :: "'a kheap_state_scheme"
  assumes "holds D m s" "slab_site D c b" "serves m c b n [x]"
  obtains t m' where "slab_alloc no_code c s = Some (x, t)" "after D m' s t" "m' (c + 32) = m b" "m' (c + 40) = b"
    "\<And>w. w \<notin> page_qwords b \<Longrightarrow> w \<notin> {c + 32, c + 40} \<Longrightarrow> m' w = m w"
proof -
  obtain t m1 where t: "slab_pop_object b s = Some (x, t)" "after D m1 s t" "serves m1 c b n []"
      "\<And>w. w \<notin> page_qwords b \<Longrightarrow> m1 w = m w" "m1 b = m b"
    by (rule slab_pop_stack [OF assms]) blast
  note st = slab_site_words [OF assms(2)]
  have D: "b + 16 \<in> D" "c + 56 \<in> D" "c + 32 \<in> D" "c + 40 \<in> D" "b \<in> D" using st assms(2) by (auto simp: slab_site_def)
  have nin: "c + 32 \<notin> page_qwords b" "c + 40 \<notin> page_qwords b" "c + 56 \<notin> page_qwords b" "c + 32 \<noteq> b" "c + 40 \<noteq> b" "c + 56 \<noteq> b"
    using assms(2) st(1) by (auto simp: slab_site_def)
  note h = afterD(1) [OF t(2)]
  have r: "vread (c + 32) t = Some b" "vread b t = Some (m b)" "b \<noteq> NULL"
    using holds_read [OF h D(3)] holds_read [OF h D(5)] t(3,5) assms(2) by (simp_all add: serves_def slab_site_def)
  have fl: "find_link b (c + 32) t = Some (c + 32)" using r(1) by (subst find_link.simps) simp
  obtain u where u: "vwrite (c + 32) (m b) t = Some u" "after D (m1(c + 32 := m b)) t u" by (rule holds_write [OF h D(3)])
  note hu = afterD(1) [OF u(2)]
  obtain v where v: "vwrite b ((m1(c + 32 := m b)) (c + 40)) u = Some v"
      "after D ((m1(c + 32 := m b))(b := (m1(c + 32 := m b)) (c + 40))) u v" by (rule holds_write [OF hu D(5)])
  obtain w where w: "vwrite (c + 40) b v = Some w"
      "after D ((m1(c + 32 := m b))(b := (m1(c + 32 := m b)) (c + 40), c + 40 := b)) v w"
    by (rule holds_write [OF afterD(1) [OF v(2)] D(4)])
  define m' where "m' = m1(c + 32 := m b, b := m1 (c + 40), c + 40 := b)"
  have "after D m' v w" using w(2) by (simp add: m'_def)
  then have af: "after D m' s w" using t(2) u(2) v(2) by (meson after_trans)
  have "slab_free_count b t = Some 0"
    using holds_read [OF h D(1)] t(3) by (simp add: slab_free_count_def read_low_def serves_def slab_stack_def)
  moreover have "unlink_slab b (c + 32) t = Some (True, u)" using fl r u(1) by (simp add: unlink_slab_def slab_next_def)
  moreover have "link_slab b (c + 40) u = Some w"
    using holds_read [OF hu D(4)] v(1) w(1) by (simp add: link_slab_def)
  ultimately have "retire_full c b t = Some w" by (simp add: retire_full_def cache_partial_def cache_full_def)
  moreover have "m' (c + 56) = 0" using t(3) nin by (simp add: m'_def serves_def)
  then have "cache_ctor c w = Some 0" using holds_read [OF afterD(1) [OF af] D(2)] by (simp add: cache_ctor_def)
  moreover have "x \<noteq> NULL" using assms(3) by (simp add: serves_def slab_stack_def)
  ultimately have "slab_alloc no_code c s = Some (x, w)"
    using slab_alloc_chosen [OF assms] t(1) assms(2) by (simp add: slab_alloc_def call_pointer_def slab_site_def)
  then show ?thesis
  proof (rule that [OF _ af])
    show "m' (c + 32) = m b" "m' (c + 40) = b" using nin by (simp_all add: m'_def)
    show "m' y = m y" if "y \<notin> page_qwords b" "y \<notin> {c + 32, c + 40}" for y
      using that t(4) st(1) by (auto simp: m'_def)
  qed
qed

section \<open>Emptying a new slab\<close>

primrec slab_allocs :: "nat \<Rightarrow> u64 \<Rightarrow> 'a kheap_state_scheme \<Rightarrow> (u64 list \<times> 'a kheap_state_scheme) option" where
  "slab_allocs 0 c s = Some ([], s)"
| "slab_allocs (Suc n) c s = do {
     (x, s) \<leftarrow> slab_alloc no_code c s;
     (xs, s) \<leftarrow> slab_allocs n c s;
     Some (x # xs, s)
   }"

lemma slab_allocs_all:
  fixes s :: "'a kheap_state_scheme"
  assumes "holds D m s" "slab_site D c b" "serves m c b n xs" "xs \<noteq> []"
  shows "\<exists>t m'. slab_allocs (length xs) c s = Some (xs, t) \<and> after D m' s t \<and> m' (c + 32) = m b \<and> m' (c + 40) = b \<and>
    (\<forall>w. w \<notin> page_qwords b \<longrightarrow> w \<notin> {c + 32, c + 40} \<longrightarrow> m' w = m w)"
  using assms
proof (induction xs arbitrary: m s)
  case (Cons x xs)
  show ?case
  proof (cases "xs = []")
    case True
    show ?thesis
      by (rule slab_alloc_last [OF Cons.prems(1,2) Cons.prems(3) [unfolded True]]) (use True in auto)
  next
    case False
    obtain u m1 where u: "slab_alloc no_code c s = Some (x, u)" "after D m1 s u" "serves m1 c b n xs"
        "\<forall>w. w \<notin> page_qwords b \<longrightarrow> m1 w = m w" "m1 b = m b"
      by (rule slab_alloc_more_left [OF Cons.prems(1-3) False]) blast
    obtain t m' where t: "slab_allocs (length xs) c u = Some (xs, t)" "after D m' u t" "m' (c + 32) = m1 b" "m' (c + 40) = b"
        "\<forall>w. w \<notin> page_qwords b \<longrightarrow> w \<notin> {c + 32, c + 40} \<longrightarrow> m' w = m1 w"
      using Cons.IH [OF afterD(1) [OF u(2)] Cons.prems(2) u(3) False] by blast
    have "slab_allocs (length (x # xs)) c s = Some (x # xs, t)" using u(1) t(1) by simp
    then show ?thesis using after_trans [OF u(2) t(2)] t(3-5) u(4,5) by auto
  qed
qed simp

lemma kernel_not_low:
  assumes "KERNEL_HALF \<le> w" "is_frame b" "unat b + 4096 \<le> 2 ^ 47"
  shows "w \<notin> page_qwords b"
proof -
  have "unat KERNEL_HALF \<le> unat w" using assms(1) by (simp add: word_le_nat_alt)
  then show ?thesis using assms(3) by (simp add: low_page_words [OF assms(2,3)] KERNEL_HALF_def)
qed

text \<open>A cache without slabs: the words \<open>slab_alloc\<close> reads first.\<close>

definition empty_cache :: "u64 \<Rightarrow> nat \<Rightarrow> u64 \<Rightarrow> 'a vmm_state_scheme \<Rightarrow> bool" where
  "empty_cache c k sz s \<longleftrightarrow> vread (c + 8) s = Some sz \<and> vread (c + 16) s = Some (2 ^ k) \<and> vread (c + 32) s = Some 0 \<and>
     vread (c + 48) s = Some 0 \<and> vread (c + 56) s = Some 0"

lemma new_slab_serves:
  fixes s :: "'a kheap_state_scheme"
  assumes ok: "vm_ok s D" "\<And>w. w \<in> D \<Longrightarrow> KERNEL_HALF \<le> w"
    and c: "{c + 8, c + 16, c + 32, c + 40, c + 48, c + 56} \<subseteq> D" "c \<noteq> NULL" "empty_cache c k sz s" "layout k sz n"
    and pages: "4 \<le> card (pmm_avail s)" "\<And>f. f \<in> pmm_avail s \<Longrightarrow> unat f + 4096 \<le> 2 ^ 47"
  obtains b t m where "choose_slab c s = Some (b, t)" "b \<in> pmm_avail s" "slab_site (D \<union> page_qwords b) c b"
    "holds (D \<union> page_qwords b) m t" "serves m c b n (rev (page_objects b k sz n))" "m b = 0"
    "\<forall>w. w \<in> D \<longrightarrow> w \<noteq> c + 32 \<longrightarrow> vread w s = Some (m w)" "vmm_state.more t = vmm_state.more s"
proof -
  have f: "vread (c + 16) s = Some (2 ^ k)" "vread (c + 8) s = Some sz" "vread (c + 32) s = Some 0" "vread (c + 48) s = Some 0"
      "vread (c + 56) s = Some 0" and d: "{c + 8, c + 16} \<subseteq> D"
    using c(1,3) by (auto simp: empty_cache_def)
  obtain b t0 m0 where i: "slab_init c s = Some (b, t0)" "b \<in> pmm_avail s" "b \<noteq> 0" "is_frame b" "unat b + 4096 \<le> 2 ^ 47"
      "holds (D \<union> page_qwords b) m0 t0" "\<forall>w. w \<in> D \<longrightarrow> vread w s = Some (m0 w)" "m0 b = 0"
      "slab_stack m0 b n (rev (page_objects b k sz n))" "vmm_state.more t0 = vmm_state.more s"
    by (rule slab_init_spec [OF ok d f(1,2) c(4) pages]) blast
  let ?D = "D \<union> page_qwords b"
  have low: "w \<notin> page_qwords b" if "w \<in> D" for w by (rule kernel_not_low [OF ok(2) [OF that] i(4,5)])
  have nin: "c + 32 \<notin> page_qwords b" "c + 40 \<notin> page_qwords b" "c + 56 \<notin> page_qwords b"
    using c(1) low by auto
  then have site: "slab_site ?D c b" using c(1,2) i(3-5) by (simp add: slab_site_def)
  note st = slab_site_words [OF site]
  have bD: "b \<in> ?D" "c + 32 \<in> ?D" "c + 56 \<in> ?D" using st(1) c(1) by auto
  obtain u where u: "vwrite b 0 t0 = Some u" "after ?D (m0(b := 0)) t0 u" by (rule holds_write [OF i(6) bD(1)])
  obtain t where t: "vwrite (c + 32) b u = Some t" "after ?D (m0(b := 0, c + 32 := b)) u t"
    by (rule holds_write [OF afterD(1) [OF u(2)] bD(2)])
  define m where "m = m0(b := 0, c + 32 := b)"
  have m0: "m0 (c + 32) = 0" "m0 (c + 56) = 0" using i(7) f(3,5) c(1) by auto
  have "vread (c + 32) t0 = Some 0" using holds_read [OF i(6) bD(2)] m0(1) by simp
  then have link: "link_slab b (c + 32) t0 = Some t" using u(1) t(1) by (simp add: link_slab_def)
  have choose: "choose_slab c s = Some (b, t)"
    using f(3,4) i(1,3) link by (simp add: choose_slab_def cache_partial_def cache_empty_def)
  have af: "after ?D m t0 t" using after_trans [OF u(2) t(2)] by (simp add: m_def)
  note lo = layout_objects [OF c(4) i(4,5)]
  have nob: "b \<notin> set (page_objects b k sz n)" "b + 16 \<notin> set (page_objects b k sz n)"
      "b + 24 \<notin> set (page_objects b k sz n)" "b + 32 \<notin> set (page_objects b k sz n)"
    using lo(4) [of 0] lo(4) [of 16] lo(4) [of 24] lo(4) [of 32] by simp_all
  have same: "m w = m0 w" if "w \<noteq> b" "w \<in> page_qwords b" for w using that nin(1) by (auto simp: m_def)
  have hd: "m (b + 16) = m0 (b + 16)" "m (b + 24) = m0 (b + 24)" "m (b + 32) = m0 (b + 32)"
    by (rule same; simp add: st)+
  have sk: "slab_stack m b n (rev (page_objects b k sz n))"
  proof -
    have ch: "free_chain m0 (m0 (b + 32)) (rev (page_objects b k sz n))" using i(9) by (simp add: slab_stack_def)
    have "free_chain m (m0 (b + 32)) (rev (page_objects b k sz n))"
    proof (rule free_chain_cong [THEN iffD2, OF _ ch])
      fix x assume "x \<in> set (rev (page_objects b k sz n))"
      then have "x \<in> page_qwords b" "x \<noteq> b" using lo(3) nob(1) by auto
      then show "m x = m0 x" by (intro same)
    qed
    then show ?thesis using i(9) hd by (simp add: slab_stack_def)
  qed
  have "c + 32 \<noteq> b" "c + 56 \<noteq> b" using nin st(1) by auto
  then have "m (c + 32) = b" "m (c + 56) = 0" using m0 by (simp_all add: m_def)
  then have sv: "serves m c b n (rev (page_objects b k sz n))"
    using sk lo nob layoutD(4) [OF c(4)] by (simp add: serves_def)
  show ?thesis
  proof (rule that [OF choose i(2) site afterD(1) [OF af] sv])
    show "m b = 0" using \<open>c + 32 \<noteq> b\<close> by (simp add: m_def)
    show "\<forall>w. w \<in> D \<longrightarrow> w \<noteq> c + 32 \<longrightarrow> vread w s = Some (m w)"
    proof (intro allI impI)
      fix w assume that: "w \<in> D" "w \<noteq> c + 32"
      have "w \<noteq> b" using low [OF that(1)] st(1) by auto
      then show "vread w s = Some (m w)" using i(7) that by (simp add: m_def)
    qed
    have "t = t0\<lparr>pmem := pmem t\<rparr>" by (rule afterD(2) [OF af])
    from arg_cong [OF this, of vmm_state.more] show "vmm_state.more t = vmm_state.more s" using i(10) by simp
  qed
qed

lemma slab_allocs_empty_cache:
  fixes s :: "'a kheap_state_scheme"
  assumes ok: "vm_ok s D" "\<And>w. w \<in> D \<Longrightarrow> KERNEL_HALF \<le> w"
    and c: "{c + 8, c + 16, c + 32, c + 40, c + 48, c + 56} \<subseteq> D" "c \<noteq> NULL" "empty_cache c k sz s" "layout k sz n"
    and pages: "4 \<le> card (pmm_avail s)" "\<And>f. f \<in> pmm_avail s \<Longrightarrow> unat f + 4096 \<le> 2 ^ 47"
  obtains b t m where "slab_allocs n c s = Some (rev (page_objects b k sz n), t)" "b \<in> pmm_avail s"
    "is_frame b" "unat b + 4096 \<le> 2 ^ 47" "holds (D \<union> page_qwords b) m t" "m (c + 32) = 0" "m (c + 40) = b"
    "\<forall>w. w \<in> D \<longrightarrow> w \<notin> {c + 32, c + 40} \<longrightarrow> vread w s = Some (m w)" "vmm_state.more t = vmm_state.more s"
proof -
  obtain b u m0 where u: "choose_slab c s = Some (b, u)" "b \<in> pmm_avail s" "slab_site (D \<union> page_qwords b) c b"
      "holds (D \<union> page_qwords b) m0 u" "serves m0 c b n (rev (page_objects b k sz n))" "m0 b = 0"
      "\<forall>w. w \<in> D \<longrightarrow> w \<noteq> c + 32 \<longrightarrow> vread w s = Some (m0 w)" "vmm_state.more u = vmm_state.more s"
    by (rule new_slab_serves [OF ok c pages]) blast
  have fr: "is_frame b" "unat b + 4096 \<le> 2 ^ 47" using u(3) by (simp_all add: slab_site_def)
  have len: "length (rev (page_objects b k sz n)) = n" using layout_objects(5) [OF c(4) fr] by simp
  have "rev (page_objects b k sz n) \<noteq> []" using len layoutD(3) [OF c(4)] by auto
  note all = slab_allocs_all [OF u(4,3,5) this, unfolded len]
  then obtain t m where t: "slab_allocs n c u = Some (rev (page_objects b k sz n), t)" "after (D \<union> page_qwords b) m u t"
      "m (c + 32) = m0 b" "m (c + 40) = b" "\<forall>w. w \<notin> page_qwords b \<longrightarrow> w \<notin> {c + 32, c + 40} \<longrightarrow> m w = m0 w" by blast
  obtain y ys where ys: "rev (page_objects b k sz n) = y # ys" using len layoutD(3) [OF c(4)] by (cases "rev (page_objects b k sz n)") auto
  have "choose_slab c u = Some (b, u)" by (rule slab_alloc_chosen [OF u(4,3) u(5) [unfolded ys]])
  then have "slab_alloc no_code c s = slab_alloc no_code c u" using u(1) c(2) by (simp add: slab_alloc_def)
  moreover obtain n' where "n = Suc n'" using layoutD(3) [OF c(4)] by (cases n) auto
  ultimately have "slab_allocs n c s = Some (rev (page_objects b k sz n), t)" using t(1) by simp
  then show ?thesis
  proof (rule that [OF _ u(2) fr afterD(1) [OF t(2)]])
    show "m (c + 32) = 0" "m (c + 40) = b" using t(3,4) u(6) by simp_all
    show "\<forall>w. w \<in> D \<longrightarrow> w \<notin> {c + 32, c + 40} \<longrightarrow> vread w s = Some (m w)"
      using u(7) t(5) kernel_not_low [OF ok(2) fr] by auto
    have "t = u\<lparr>pmem := pmem t\<rparr>" by (rule afterD(2) [OF t(2)])
    from arg_cong [OF this, of vmm_state.more] show "vmm_state.more t = vmm_state.more s" using u(8) by simp
  qed
qed

end
