(* ===== verification/Slab_Cache.thy ===== *)
theory Slab_Cache
  imports Slab_Fresh Kheap_Clients
begin

text \<open>
  A cache from its creation on: \<open>slab_cache_create\<close> allocates and fills in the descriptor on the heap, and the allocations that
  follow hand out every object of the first page.
\<close>

section \<open>Sizes\<close>

lemma align_up_ge:
  assumes "k < 64" "align_up sz (2 ^ k) \<noteq> 0"
  shows "2 ^ k dvd unat (align_up sz (2 ^ k))" "unat sz \<le> unat (align_up sz (2 ^ k))"
proof -
  have lt: "(2 :: nat) ^ k < 2 ^ 64" using assms(1) by (intro power_strict_increasing) simp_all
  then have p: "unat ((2 :: u64) ^ k) = 2 ^ k" using unat_of_nat_small [where 'a = 64, of "2 ^ k"] by simp
  have m: "(2 :: u64) ^ k - 1 = mask k" by (simp add: mask_eq_exp_minus_1)
  let ?u = "unat (sz + mask k)"
  have a: "unat (align_up sz (2 ^ k)) = ?u - ?u mod 2 ^ k"
    unfolding align_up_def m using unat_and_not_mask [of "sz + mask k" k] assms(1) by simp
  show "2 ^ k dvd unat (align_up sz (2 ^ k))" unfolding a by (rule dvd_minus_mod)
  have um: "unat (mask k :: u64) = 2 ^ k - 1" using p unat_sub [of 1 "2 ^ k :: u64"] unfolding m [symmetric] by (simp add: word_le_nat_alt)
  show "unat sz \<le> unat (align_up sz (2 ^ k))"
  proof (cases "unat sz + (2 ^ k - 1) < 2 ^ 64")
    case True
    then have u: "?u = unat sz + (2 ^ k - 1)" using um by (subst unat_plus_no_overflow) simp_all
    have "?u mod 2 ^ k < 2 ^ k" by simp
    then have "?u mod 2 ^ k \<le> 2 ^ k - 1" by linarith
    then show ?thesis unfolding a u by linarith
  next
    case False
    have "?u = unat sz + (2 ^ k - 1) - 2 ^ 64"
      using False um unsigned_less [of sz, where ?'a = nat] lt by (simp add: unat_word_ariths mod_if)
    moreover have "unat sz < 2 ^ 64" "0 < (2 :: nat) ^ k" using unsigned_less [of sz, where ?'a = nat] by simp_all
    ultimately have "?u < 2 ^ k" by linarith
    then have "unat (align_up sz (2 ^ k)) = 0" unfolding a by simp
    then show ?thesis using assms(2) by (simp add: unat_eq_zero)
  qed
qed

lemma layout_align_up:
  assumes "k \<in> set [3..<13]" "slab_objects (2 ^ k) (align_up sz (2 ^ k)) = Some n" "n \<noteq> 0"
  shows "layout k (align_up sz (2 ^ k)) (unat n)" "unat sz \<le> unat (align_up sz (2 ^ k))"
proof -
  have k: "k < 64" using assms(1) unfolding set_upt atLeastLessThan_iff by simp
  have nz: "align_up sz (2 ^ k) \<noteq> 0" using assms(2) by (auto simp: slab_objects_def split: if_splits)
  have n0: "0 < unat n" using assms(3) by (simp add: unat_gt_0)
  have "unat (first_object_offset (2 ^ k)) + (unat n - 1) * unat (align_up sz (2 ^ k)) + unat (align_up sz (2 ^ k)) \<le> 4096"
      "40 \<le> unat (first_object_offset (2 ^ k))"
    using objects_inside [OF assms(1,2), of "unat n - 1"] n0 by (simp_all add: PAGE_SIZE_SLAB_def PAGE_SIZE_VMM_def)
  moreover have "unat n - 1 \<le> (unat n - 1) * unat (align_up sz (2 ^ k))" using nz by (simp add: unat_gt_0 Suc_le_eq)
  ultimately have "unat n < 4096" by linarith
  then show "layout k (align_up sz (2 ^ k)) (unat n)"
    using assms(1,2) n0 align_up_ge(1) [OF k nz] unfolding layout_def by simp
  show "unat sz \<le> unat (align_up sz (2 ^ k))" by (rule align_up_ge(2) [OF k nz])
qed

section \<open>Creating a cache\<close>

text \<open>Memory in which only words of one block's payload change keeps the heap in order.\<close>

lemma after_payload:
  fixes s :: "'a kheap_state_scheme"
  assumes "heap_ok s (xs @ (k, f) # ys)" "holds (heap_words HEAP_BASE (heap_end (xs @ (k, f) # ys))) m s"
    "after (heap_words HEAP_BASE (heap_end (xs @ (k, f) # ys))) m' s t"
    "\<And>w. w \<notin> {of_nat (heap_end xs + 24 + i) | i. i < k} \<Longrightarrow> m' w = m w"
  shows "heap_ok t (xs @ (k, f) # ys)"
proof (rule heap_ok_payload [OF assms(1) _ order_refl])
  let ?z = "heap_end (xs @ (k, f) # ys)"
  have z: "?z < 2 ^ 64" by (rule heap_ok_block(4) [OF assms(1)])
  note h = afterD(1) [OF assms(3)]
  show "stores HEAP_BASE ?z s t {heap_end xs + 24..<heap_end xs + 24 + k}"
    unfolding stores_def
  proof (intro conjI allI impI)
    show "vm_ok t (heap_words HEAP_BASE ?z)" using h by (simp add: holds_def)
    show "t = s\<lparr>pmem := pmem t\<rparr>" by (rule afterD(2) [OF assms(3)])
    fix y assume y: "HEAP_BASE \<le> y" "y < ?z" "8 dvd y" "y \<notin> {heap_end xs + 24..<heap_end xs + 24 + k}"
    have D: "of_nat y \<in> heap_words HEAP_BASE ?z" using y z by (subst heap_words_mem) simp_all
    have "of_nat y \<notin> {of_nat (heap_end xs + 24 + i) :: u64 | i. i < k}"
    proof
      assume "of_nat y \<in> {of_nat (heap_end xs + 24 + i) :: u64 | i. i < k}"
      then obtain i where i: "i < k" "(of_nat y :: u64) = of_nat (heap_end xs + 24 + i)" by blast
      have "heap_end xs + 24 + i < 2 ^ 64" using i(1) heap_ok_block(3) [OF assms(1)] z by linarith
      then have "y = heap_end xs + 24 + i" using u64_of_nat_inj [OF i(2)] y(2) z by simp
      then show False using y(4) i(1) by simp
    qed
    then show "vread (of_nat y) t = vread (of_nat y) s"
      using holds_read [OF h D] holds_read [OF assms(2) D] assms(4) by simp
  qed
qed

text \<open>Several stores in a row.\<close>

definition put_word :: "u64 \<times> u64 \<Rightarrow> (u64 \<Rightarrow> u64) \<Rightarrow> u64 \<Rightarrow> u64" where
  "put_word w m = m(fst w := snd w)"

primrec pokes :: "(u64 \<times> u64) list \<Rightarrow> 'a vmm_state_scheme \<Rightarrow> 'a vmm_state_scheme option" where
  "pokes [] s = Some s"
| "pokes (w # ws) s = Option.bind (vwrite (fst w) (snd w) s) (pokes ws)"

lemma pokes_after:
  assumes "holds D m s" "fst ` set ws \<subseteq> D"
  shows "\<exists>t. pokes ws s = Some t \<and> after D (fold put_word ws m) s t"
  using assms
proof (induction ws arbitrary: m s)
  case Nil
  then show ?case using after_refl by auto
next
  case (Cons w ws)
  obtain u where u: "vwrite (fst w) (snd w) s = Some u" "after D (put_word w m) s u"
    by (rule holds_write [OF Cons.prems(1), of "fst w" "snd w"]) (use Cons.prems(2) in \<open>auto simp: put_word_def\<close>)
  obtain t where t: "pokes ws u = Some t" "after D (fold put_word ws (put_word w m)) u t"
    using Cons.IH [OF afterD(1) [OF u(2)]] Cons.prems(2) by fastforce
  then show ?case using u after_trans [OF u(2) t(2)] by simp
qed

lemma heap_words_kernel: "w \<in> heap_words HEAP_BASE z \<Longrightarrow> z < 2 ^ 64 \<Longrightarrow> KERNEL_HALF \<le> w"
  unfolding heap_words_def using KERNEL_HALF_heap by auto

lemma payload_word:
  assumes "heap_ok s (xs @ (k, f) # ys)" "i < k" "8 dvd i"
  shows "of_nat (heap_end xs + 24) + of_nat i \<in> heap_words HEAP_BASE (heap_end (xs @ (k, f) # ys))"
proof -
  note hb = heap_ok_block [OF assms(1)]
  have "heap_end xs + 24 + i < heap_end (xs @ (k, f) # ys)" using assms(2) hb(3) by linarith
  moreover have "8 dvd heap_end xs + 24 + i" using hb(5) assms(3) by simp
  ultimately have "(of_nat (heap_end xs + 24 + i) :: u64) \<in> heap_words HEAP_BASE (heap_end (xs @ (k, f) # ys))"
    using hb(2,4) by (subst heap_words_mem) simp_all
  then show ?thesis by simp
qed

lemma carve_head:
  assumes "sz \<le> m"
  obtains k zs where "carve sz m @ ys = (k, False) # zs" "sz \<le> k"
proof (cases "m \<le> sz + 24")
  case True
  then show ?thesis using that [of m ys] assms by (simp add: carve_def)
next
  case False
  then show ?thesis using that [of sz "(m - sz - 24, True) # ys"] by (simp add: carve_def)
qed

lemma slab_cache_create_spec:
  fixes s :: "'a kheap_state_scheme"
  assumes "heap_ok s bs" "first_fit 80 bs = Some (xs, m, ys)" "k \<in> set [3..<13]"
    "slab_objects (2 ^ k) (align_up sz (2 ^ k)) = Some n" "n \<noteq> 0" "sz \<noteq> 0"
  obtains t where "slab_cache_create name sz (2 ^ k) 0 0 s = Some (of_nat (heap_end xs + 24), t)"
    "heap_ok t (xs @ carve 80 m @ ys)" "empty_cache (of_nat (heap_end xs + 24)) k (align_up sz (2 ^ k)) t"
    "pmm_avail t = pmm_avail s"
proof -
  have a16: "unat (align16 sizeof_slab_cache) = 80" by (simp add: align16_def sizeof_slab_cache_def)
  let ?c = "of_nat (heap_end xs + 24) :: u64" and ?A = "2 ^ k :: u64"
  have cs: "sizeof_slab_cache \<noteq> 0" by (simp add: sizeof_slab_cache_def)
  obtain u where u: "kmalloc sizeof_slab_cache s = Some (?c, u)" "heap_ok u (xs @ carve 80 m @ ys)"
      "stores HEAP_BASE (heap_end bs) s u {heap_end xs..<heap_end xs + 24 + m}"
    using kmalloc_fit [OF assms(1) cs] assms(2) unfolding a16 by metis
  have m80: "80 \<le> m" using first_fit_Some [OF assms(2)] by simp
  obtain k' zs where car: "xs @ carve 80 m @ ys = xs @ (k', False) # zs" "80 \<le> k'" using carve_head [OF m80] by metis
  let ?z = "heap_end (xs @ (k', False) # zs)"
  let ?D = "heap_words HEAP_BASE ?z"
  have ok: "heap_ok u (xs @ (k', False) # zs)" using u(2) car(1) by simp
  note hb = heap_ok_block [OF ok]
  define mu where "mu = (\<lambda>w. the (vread w u))"
  have hu: "holds ?D mu u" unfolding mu_def by (rule holds_exists [OF hb(1)])
  have cD: "?c + of_nat i \<in> ?D" if "i < 80" "8 dvd i" for i
    by (rule payload_word [OF ok]) (use that car(2) in simp_all)
  let ?ws = "[(?c, name), (?c + 16, ?A), (?c + 56, 0), (?c + 64, 0), (?c + 32, NULL), (?c + 40, NULL), (?c + 48, NULL),
    (?c + 8, align_up sz ?A), (?c + 24, n)]"
  have "fst ` set ?ws \<subseteq> ?D"
    using cD [of 0] cD [of 8] cD [of 16] cD [of 24] cD [of 32] cD [of 40] cD [of 48] cD [of 56] cD [of 64] by simp
  then obtain t where t: "pokes ?ws u = Some t" "after ?D (fold put_word ?ws mu) u t"
    using pokes_after [OF hu] by blast
  define mt where "mt = fold put_word ?ws mu"
  have ht: "holds ?D mt t" unfolding mt_def by (rule afterD(1) [OF t(2)])
  have c0: "?c \<noteq> NULL"
  proof -
    have "unat ?c = heap_end xs + 24" by (rule payload_pointer [OF ok])
    then show ?thesis by (metis add_is_0 unsigned_0 zero_neq_numeral)
  qed
  have A: "\<not> ?A < 8" using assms(3) by (auto simp: upt_rec)
  have create: "slab_cache_create name sz ?A 0 0 s = Some (?c, t)"
    using t(1) u(1) assms(4-6) c0 A
    by (auto simp: slab_cache_create_def Let_def bind_eq_Some_conv cache_partial_def cache_full_def cache_empty_def)
  have ok_t: "heap_ok t (xs @ (k', False) # zs)"
  proof (rule after_payload [OF ok hu t(2)])
    fix w assume w: "w \<notin> {of_nat (heap_end xs + 24 + i) :: u64 | i. i < k'}"
    have "w \<noteq> ?c + of_nat i" if "i < 80" for i using w that car(2) by (auto simp: add.assoc)
    from this [of 0] this [of 8] this [of 16] this [of 24] this [of 32] this [of 40] this [of 48] this [of 56] this [of 64]
    show "fold put_word ?ws mu w = mu w" by (simp add: put_word_def)
  qed
  have "empty_cache ?c k (align_up sz ?A) t"
    using holds_read [OF ht, of "?c + 8"] holds_read [OF ht, of "?c + 16"] holds_read [OF ht, of "?c + 32"]
      holds_read [OF ht, of "?c + 48"] holds_read [OF ht, of "?c + 56"]
      cD [of 8] cD [of 16] cD [of 32] cD [of 48] cD [of 56]
    by (simp add: empty_cache_def mt_def put_word_def)
  moreover have "pmm_avail t = pmm_avail u"
    using afterD(2) [OF t(2)] vmm_frame_simps(3) by metis
  ultimately show ?thesis
    using that [OF create] ok_t car(1) stores_avail [OF u(3)] by simp
qed

section \<open>From creation to the last object\<close>

text \<open>The heap after the cache has got a full slab: only the list head of full slabs has changed.\<close>

lemma heap_ok_full_slab:
  fixes s u :: "'a kheap_state_scheme"
  assumes "heap_ok s (xs @ (k, f) # ys)" "48 \<le> k"
    and D: "D = heap_words HEAP_BASE (heap_end (xs @ (k, f) # ys))" and c: "c = of_nat (heap_end xs + 24)"
    and u: "vm_ok u D" "\<forall>w. w \<in> D \<longrightarrow> w \<noteq> c + 40 \<longrightarrow> vread w u = vread w s" "vread (c + 40) u = Some b"
      "vmm_state.more u = vmm_state.more s"
  shows "heap_ok u (xs @ (k, f) # ys)"
proof -
  let ?bs = "xs @ (k, f) # ys"
  note hb = heap_ok_block [OF assms(1)]
  obtain t where t: "heap_ok t ?bs" "stores HEAP_BASE (heap_end ?bs) s t {heap_end xs + 24 + 40}"
      "vread (of_nat (heap_end xs + 24 + 40)) t = Some b"
    by (rule poke_payload [OF assms(1), of 40 b]) (use assms(2) in simp_all)
  have "vread (of_nat y) u = vread (of_nat y) t" if y: "HEAP_BASE \<le> y" "y < heap_end ?bs" "8 dvd y" for y
  proof (cases "y = heap_end xs + 24 + 40")
    case True
    then show ?thesis using t(3) u(3) c by simp
  next
    case False
    have yD: "of_nat y \<in> D" unfolding D using y hb(4) by (subst heap_words_mem) simp_all
    have "of_nat y \<noteq> c + 40"
    proof
      assume "of_nat y = c + 40"
      then have "(of_nat y :: u64) = of_nat (heap_end xs + 24 + 40)" using c by simp
      then have "y = heap_end xs + 24 + 40" by (rule u64_of_nat_inj) (use y hb(3,4) assms(2) in linarith)+
      then show False using False by simp
    qed
    then show ?thesis using u(2) yD storesD(3) [OF t(2) y(1,2,3)] False by simp
  qed
  then have "heap_seg u HEAP_BASE ?bs NULL = heap_seg t HEAP_BASE ?bs NULL" by (intro heap_seg_cong) simp_all
  moreover have "free_list u = free_list s" by (rule vmm_more_kheap(1) [OF u(4)])
  ultimately show ?thesis using assms(1) t(1) u(1) D by (simp add: heap_ok_def)
qed

text \<open>Objects of a page keep their distance.\<close>

lemma page_objects_apart:
  assumes "layout k sz n" "is_frame b" "unat b + 4096 \<le> 2 ^ 47" "i < n" "j < n" "i \<noteq> j"
  shows "unat (page_objects b k sz n ! i) + unat sz \<le> unat (page_objects b k sz n ! j) \<or>
    unat (page_objects b k sz n ! j) + unat sz \<le> unat (page_objects b k sz n ! i)"
proof -
  have step: "i * unat sz + unat sz \<le> j * unat sz" if "i < j" for i j :: nat
  proof -
    have "Suc i * unat sz \<le> j * unat sz" using that by (intro mult_le_mono1) simp
    then show ?thesis by simp
  qed
  show ?thesis
    using step [of i j] step [of j i] assms(6)
    unfolding layout_object(1) [OF assms(1,4,2,3)] layout_object(1) [OF assms(1,5,2,3)] by linarith
qed

text \<open>The pages of the allocator lie below the hole in the address space.\<close>

lemma avail_low:
  assumes "vm_ok s D" "f \<in> pmm_avail s"
  shows "unat f + 4096 \<le> 2 ^ 47"
proof -
  have wf: "pmm_wf s" using assms(1) by (simp add: vm_ok_def vmm_wf_def)
  obtain i where i: "i < total_pages s" "f = page_addr s i" using assms(2) by (auto simp: pmm_avail_def)
  have "i * 4096 + 4096 \<le> 4096 * total_pages s" using i(1) by simp
  then show ?thesis using unat_page_addr [OF wf i(1)] wf i(2) by (simp add: pmm_wf_def PAGE_SIZE_def)
qed

text \<open>C12: a cache created on a heap serves a whole page of objects.  The descriptor is a block of the heap; as many allocations as
  fit in a page return objects in one free page, aligned, behind the slab's header, inside the page and disjoint
  from each other; and the heap is well formed all along.\<close>

theorem slab_cache_provides:
  fixes s :: "'a kheap_state_scheme"
  assumes "heap_ok s bs" "first_fit 80 bs = Some (xs, m, ys)" "k \<in> set [3..<13]"
    "slab_objects (2 ^ k) (align_up sz (2 ^ k)) = Some n" "n \<noteq> 0"
    "4 \<le> card (pmm_avail s)"
  shows "\<exists>c t objs u b. slab_cache_create name sz (2 ^ k) 0 0 s = Some (c, t) \<and> slab_allocs (unat n) c t = Some (objs, u) \<and>
    heap_ok u (xs @ carve 80 m @ ys) \<and> b \<in> pmm_avail s \<and> length objs = unat n \<and>
    (\<forall>x\<in>set objs. 2 ^ k dvd unat x \<and> unat b + 40 \<le> unat x \<and> unat x + unat sz \<le> unat b + 4096) \<and>
    (\<forall>i<unat n. \<forall>j<unat n. i \<noteq> j \<longrightarrow>
      unat (objs ! i) + unat sz \<le> unat (objs ! j) \<or> unat (objs ! j) + unat sz \<le> unat (objs ! i))"
proof -
  let ?S = "align_up sz (2 ^ k)" and ?c = "of_nat (heap_end xs + 24) :: u64" and ?n = "unat n"
  have sz: "sz \<noteq> 0" using assms(4) by (auto simp: slab_objects_def align_up_def bit_not_iff intro!: u64_eqI split: if_splits)
  obtain t where t: "slab_cache_create name sz (2 ^ k) 0 0 s = Some (?c, t)" "heap_ok t (xs @ carve 80 m @ ys)"
      "empty_cache ?c k ?S t" "pmm_avail t = pmm_avail s"
    by (rule slab_cache_create_spec [OF assms(1-5) sz]) blast
  have m80: "80 \<le> m" using first_fit_Some [OF assms(2)] by simp
  obtain k' zs where car: "xs @ carve 80 m @ ys = xs @ (k', False) # zs" "80 \<le> k'" using carve_head [OF m80] by metis
  define D where "D = heap_words HEAP_BASE (heap_end (xs @ (k', False) # zs))"
  have ok: "heap_ok t (xs @ (k', False) # zs)" using t(2) car(1) by simp
  note hb = heap_ok_block [OF ok]
  have vm: "vm_ok t D" using hb(1) by (simp add: D_def)
  have kernel: "KERNEL_HALF \<le> w" if "w \<in> D" for w using heap_words_kernel that hb(4) unfolding D_def by blast
  have cD: "?c + of_nat i \<in> D" if "i < 80" "8 dvd i" for i
    unfolding D_def by (rule payload_word [OF ok]) (use that car(2) in simp_all)
  have sub: "{?c + 8, ?c + 16, ?c + 32, ?c + 40, ?c + 48, ?c + 56} \<subseteq> D"
    using cD [of 8] cD [of 16] cD [of 32] cD [of 40] cD [of 48] cD [of 56] by simp
  have c0: "?c \<noteq> NULL" using payload_pointer [OF ok] by (metis add_is_0 unsigned_0 zero_neq_numeral)
  note lay = layout_align_up [OF assms(3-5)]
  have pages: "4 \<le> card (pmm_avail t)" "\<And>f. f \<in> pmm_avail t \<Longrightarrow> unat f + 4096 \<le> 2 ^ 47"
    using assms(6) t(4) avail_low [OF vm] by simp_all
  obtain b u mu where u: "slab_allocs ?n ?c t = Some (rev (page_objects b k ?S ?n), u)" "b \<in> pmm_avail t"
      "is_frame b" "unat b + 4096 \<le> 2 ^ 47" "holds (D \<union> page_qwords b) mu u" "mu (?c + 32) = 0" "mu (?c + 40) = b"
      "\<forall>w. w \<in> D \<longrightarrow> w \<notin> {?c + 32, ?c + 40} \<longrightarrow> vread w t = Some (mu w)" "vmm_state.more u = vmm_state.more t"
    by (rule slab_allocs_empty_cache [OF vm kernel sub c0 t(3) lay(1) pages]) blast
  have ok_u: "heap_ok u (xs @ (k', False) # zs)"
  proof (rule heap_ok_full_slab [OF ok _ D_def refl _ _ _ u(9)])
    show "48 \<le> k'" using car(2) by simp
    show "vm_ok u D" using u(5) vm_ok_mono by (auto simp: holds_def)
    have rd: "vread w u = Some (mu w)" if "w \<in> D" for w using holds_read [OF u(5)] that by simp
    then show "vread (?c + 40) u = Some b" using sub u(7) by simp
    have "vread (?c + 32) t = Some (mu (?c + 32))" using t(3) u(6) by (simp add: empty_cache_def)
    then show "\<forall>w. w \<in> D \<longrightarrow> w \<noteq> ?c + 40 \<longrightarrow> vread w u = vread w t" using rd u(8) by auto
  qed
  let ?objs = "rev (page_objects b k ?S ?n)"
  note lo = layout_object [OF lay(1) _ u(3,4)]
  have len: "length (page_objects b k ?S ?n) = ?n" by (rule layout_objects(5) [OF lay(1) u(3,4)])
  have inside: "2 ^ k dvd unat x \<and> unat b + 40 \<le> unat x \<and> unat x + unat sz \<le> unat b + 4096" if mem: "x \<in> set ?objs" for x
  proof -
    obtain i where "i < ?n" "x = page_objects b k ?S ?n ! i" using mem len by (auto simp: in_set_conv_nth)
    then show ?thesis using lo(2-4) [of i] lay(2) by auto
  qed
  have rn: "?objs ! i = page_objects b k ?S ?n ! (?n - Suc i)" if "i < ?n" for i using that by (simp add: rev_nth len)
  have apart: "unat (?objs ! i) + unat sz \<le> unat (?objs ! j) \<or> unat (?objs ! j) + unat sz \<le> unat (?objs ! i)"
    if "i < ?n" "j < ?n" "i \<noteq> j" for i j
  proof -
    have "?n - Suc i \<noteq> ?n - Suc j" using that by linarith
    then show ?thesis
      using page_objects_apart [OF lay(1) u(3,4), of "?n - Suc i" "?n - Suc j"] that lay(2) rn [OF that(1)] rn [OF that(2)] by simp linarith
  qed
  show ?thesis
    using t(1,4) u(1,2) ok_u inside apart len car(1) by (intro exI [of _ ?c] exI [of _ t] exI [of _ ?objs] exI [of _ u] exI [of _ b]) simp
qed

theorem slab_cache_provides_witness:
  "\<exists>(s :: kheap_state) c t objs u. slab_cache_create 0x1234 100 (2 ^ 4) 0 0 s = Some (c, t) \<and>
     slab_allocs 36 c t = Some (objs, u) \<and> length objs = 36 \<and> heap_ok u [(80, False), (3968, True)]"
proof -
  obtain s :: kheap_state where s: "heap_ok s [(4072, True)]" "14 \<le> card (pmm_avail s) + 4"
    using init_kheap_spec [of kheap_example] kheap_example_ok by auto
  have "slab_objects (2 ^ 4) (align_up 100 (2 ^ 4)) = Some 36"
    by (simp add: slab_objects_def first_object_offset_def align_up_def sizeof_slab_def PAGE_SIZE_SLAB_def PAGE_SIZE_VMM_def)
  from slab_cache_provides [OF s(1) _ _ this, of "[]" 4072 "[]" "0x1234"]
  obtain c t objs u where "slab_cache_create 0x1234 100 (2 ^ 4) 0 0 s = Some (c, t)" "slab_allocs 36 c t = Some (objs, u)"
      "length objs = 36" "heap_ok u [(80, False), (3968, True)]"
    using s(2) by (auto simp: carve_def upt_rec)
  then show ?thesis by blast
qed

end
