(* ===== verification/Heap_Remap.thy ===== *)
theory Heap_Remap
  imports Kheap_Correct
begin

text \<open>
  Where the heap's addresses lead.  Stores into blocks leave every translation alone; the growth of the heap gives the pages it maps
  frames that were free, so that its first growth takes the heap's first page away from the frame it was on.
\<close>

declare of_nat_add [simp del]

section \<open>Stores and allocations keep translations\<close>

lemma vwrite_lookup:
  assumes "vm_ok s D" "v \<in> D" "vwrite v x s = Some t"
  shows "vm_ok t D" "vmm_lookup t w = vmm_lookup s w" "g_hhdm_offset t = g_hhdm_offset s"
proof -
  obtain lv where lv: "levels_ok s lv" "backed s lv D" using assms(1) by (auto simp: vm_ok_def)
  obtain f where f: "is_frame f" "lv f = None"
      "vwrite v x s = Some (s\<lparr>pmem := (pmem s)(entry_addr s f (level_index 0 v) := x)\<rparr>)"
    using backed_entry [OF assms(1) lv assms(2)] by metis
  then have t: "t = s\<lparr>pmem := (pmem s)(entry_addr s f (level_index 0 v) := x)\<rparr>" using assms(3) by simp
  show "vmm_lookup t w = vmm_lookup s w" by (rule data_write(2) [OF lv(1) f(2,1) level_index_bound t])
  show "vm_ok t D" using vwrite_spec [OF assms(1,2), of x] assms(3) by auto
  show "g_hhdm_offset t = g_hhdm_offset s" by (simp add: t)
qed

lemma pmm_alloc_vmm:
  assumes "vm_ok s D" "pmm_alloc_page s = (p, t)"
  shows "vmm_wf t" "vmm_lookup t w = vmm_lookup s w"
proof -
  obtain lv where lv: "levels_ok s lv" using assms(1) by (auto simp: vm_ok_def)
  have wf: "pmm_wf s" "hhdm_ok s" using assms(1) by (simp_all add: vm_ok_def)
  note more = pmm_alloc_more [OF assms(2)]
  have nt: "next_table t f i = next_table s f i" for f i by (simp add: next_table_def entry_addr_def more)
  have "table_lookup t k f w = table_lookup s k f w" for k f
    by (induction k arbitrary: f) (auto simp: nt split: option.splits)
  then show "vmm_lookup t w = vmm_lookup s w" by (simp add: vmm_lookup_def more)
  have "pmm_avail t \<subseteq> pmm_avail s" using pmm.alloc_shrinks [OF wf(1)] assms(2) by auto
  then have "levels_ok t lv"
    using lv unfolding levels_ok_def nt more(2) by (elim conjE, intro conjI) (assumption | blast)+
  moreover have "pmm_wf t" using pmm_wf_alloc [OF wf(1)] assms(2) by simp
  ultimately show "vmm_wf t" using wf(2) by (auto simp: vmm_wf_def hhdm_ok_def more)
qed

lemma set_block_lookup:
  assumes "vm_ok s (heap_words l z)" "z \<le> 2 ^ 64" "l \<le> a" "a + 24 \<le> z" "8 dvd a"
  shows "set_block_size (of_nat a) n s = Some t \<Longrightarrow> vm_ok t (heap_words l z) \<and> vmm_lookup t = vmm_lookup s"
    "set_block_free (of_nat a) b s = Some t \<Longrightarrow> vm_ok t (heap_words l z) \<and> vmm_lookup t = vmm_lookup s"
    "set_block_next (of_nat a) n s = Some t \<Longrightarrow> vm_ok t (heap_words l z) \<and> vmm_lookup t = vmm_lookup s"
proof -
  have store: "vm_ok u (heap_words l z) \<and> vmm_lookup u = vmm_lookup s"
    if "i \<in> {0, 8, 16}" "vwrite (of_nat (a + i)) x s = Some u" for i x u
  proof -
    have "(of_nat (a + i) :: u64) \<in> heap_words l z" using that(1) assms(2-5) by (subst heap_words_mem) auto
    from vwrite_lookup(1,2) [OF assms(1) this that(2)] show ?thesis by auto
  qed
  show "set_block_size (of_nat a) n s = Some t \<Longrightarrow> vm_ok t (heap_words l z) \<and> vmm_lookup t = vmm_lookup s"
    using store [of 0 n t] by (simp add: set_block_size_def)
  show "set_block_free (of_nat a) b s = Some t \<Longrightarrow> vm_ok t (heap_words l z) \<and> vmm_lookup t = vmm_lookup s"
    using store [of 8 _ t] by (auto simp: set_block_free_def bind_eq_Some_conv of_nat_add)
  show "set_block_next (of_nat a) n s = Some t \<Longrightarrow> vm_ok t (heap_words l z) \<and> vmm_lookup t = vmm_lookup s"
    using store [of 16 n t] by (simp add: set_block_next_def of_nat_add)
qed

section \<open>New pages\<close>

lemma map_heap_pages_lookup:
  assumes "map_heap_pages (of_nat b) (of_nat off) (of_nat (off + 4096 * k)) s = Some (True, t)"
    "vm_ok s (heap_words l (b + off))" "l \<le> b" "4096 dvd b + off" "KERNEL_HALF \<le> of_nat b"
    "b + off + 4096 * k < 2 ^ 64"
  shows "(\<forall>w \<in> heap_words l (b + off). vmm_lookup t w = vmm_lookup s w) \<and>
    (0 < k \<longrightarrow> (\<exists>f\<in>pmm_avail s. vmm_lookup t (of_nat (b + off)) = Some f))"
  using assms
proof (induction k arbitrary: off s)
  case 0
  then show ?case by (subst (asm) map_heap_pages.simps) auto
next
  case (Suc k)
  have u: "unat (of_nat x :: u64) = x" if "x \<le> off + 4096 * Suc k" for x
    using Suc.prems(6) that by (intro unat_of_nat_small) simp
  have lt: "(of_nat off :: u64) < of_nat (off + 4096 * Suc k)"
    unfolding word_less_nat_alt by (subst (1 2) u) simp_all
  obtain p s1 where p: "pmm_alloc_page s = (p, s1)" by (cases "pmm_alloc_page s")
  have nz: "p \<noteq> 0" using Suc.prems(1) lt p by (subst (asm) map_heap_pages.simps) auto
  have wf: "pmm_wf s" using Suc.prems(2) by (simp add: vm_ok_def)
  have "pmm_avail s \<noteq> {}" using pmm_alloc_none [OF wf] p nz by auto
  note al = pmm_alloc_some [OF wf this p]
  have base: "(of_nat b + of_nat off :: u64) = of_nat (b + off)" by (simp add: of_nat_add)
  have next_off: "(of_nat off + PAGE_SIZE_VMM :: u64) = of_nat (off + 4096)"
    by (simp add: of_nat_add PAGE_SIZE_VMM_def)
  have stop: "off + 4096 * Suc k = (off + 4096) + 4096 * k" by simp
  obtain s2 where s2: "vmm_map (of_nat (b + off)) p (VMM_PRESENT OR VMM_WRITE) s1 = Some s2"
      "map_heap_pages (of_nat b) (of_nat (off + 4096)) (of_nat ((off + 4096) + 4096 * k)) s2 = Some (True, t)"
    using Suc.prems(1) lt p nz unfolding stop
    by (subst (asm) map_heap_pages.simps) (auto simp: base next_off bind_eq_Some_conv)
  have kh: "KERNEL_HALF \<le> (of_nat (b + off) :: u64)"
    using Suc.prems(5,6) by (simp add: word_le_nat_alt unat_of_nat_small)
  have pg: "heap_words l (b + (off + 4096)) = heap_words l (b + off) \<union> page_qwords (of_nat (b + off))"
    "heap_words l (b + off) \<inter> page_qwords (of_nat (b + off)) = {}"
    using heap_words_page [OF kh Suc.prems(4), of l] Suc.prems(3,6) by (simp_all add: add.assoc)
  note mp = vm_ok_map_page [OF Suc.prems(2) p nz map_flags s2(1) pg(2)]
  have ok2: "vm_ok s2 (heap_words l (b + (off + 4096)))" using mp(1) pg(1) by simp
  note pv = pmm_alloc_vmm [OF Suc.prems(2) p]
  have look: "vmm_lookup s2 w = (if same_page w (of_nat (b + off)) then Some (p AND PAGE_MASK) else vmm_lookup s w)" for w
    using vmm_map_spec(2) [OF pv(1) map_flags s2(1)] pv(2) by simp
  have "is_frame p" using pmm_frames [OF wf] pmm_avail_managed al(1) by blast
  then have here: "vmm_lookup s2 (of_nat (b + off)) = Some p" by (simp add: look same_page_def is_frame_def)
  have old: "vmm_lookup s2 w = vmm_lookup s w" if w: "w \<in> heap_words l (b + off)" for w
  proof -
    have "aligned8 w \<and> canonical w" using Suc.prems(2) w by (auto simp: vm_ok_def backed_def)
    then have "\<not> same_page w (of_nat (b + off))" using pg(2) w by (auto simp: page_qwords_def)
    then show ?thesis by (simp add: look)
  qed
  have rest: "\<forall>w \<in> heap_words l (b + (off + 4096)). vmm_lookup t w = vmm_lookup s2 w"
  proof -
    have "4096 dvd b + (off + 4096)" using Suc.prems(4) by (metis add.assoc dvd_add_triv_right_iff)
    then show ?thesis using Suc.IH [OF s2(2) ok2] Suc.prems(3-6) by (simp add: add.assoc)
  qed
  have "(of_nat (b + off) :: u64) \<in> heap_words l (b + (off + 4096))"
  proof -
    have "8 dvd b + off" by (rule dvd_trans [OF _ Suc.prems(4)]) simp
    then show ?thesis using Suc.prems(3,6) by (subst heap_words_mem) auto
  qed
  then have "vmm_lookup t (of_nat (b + off)) = Some p" using rest here by simp
  moreover have "vmm_lookup t w = vmm_lookup s w" if "w \<in> heap_words l (b + off)" for w
    using rest old [OF that] that pg(1) by simp
  ultimately show ?case using al(1) by blast
qed

lemma lookup_heap_current: "vmm_lookup (s\<lparr>heap_current := h\<rparr>) = vmm_lookup s"
proof
  fix w
  have "table_lookup (s\<lparr>heap_current := h\<rparr>) k f w = table_lookup s k f w" for k f
    by (induction k arbitrary: f) (auto simp: next_table_def entry_addr_def Let_def split: option.splits)
  then show "vmm_lookup (s\<lparr>heap_current := h\<rparr>) w = vmm_lookup s w" by (simp add: vmm_lookup_def)
qed

lemma request_more_memory_lookup:
  assumes "request_more_memory sz s = Some (p, t)" "p \<noteq> NULL" "unat sz + 24 + 4095 < 2 ^ 64"
    "heap_current s = of_nat b" "vm_ok s (heap_words l b)" "l \<le> b" "4096 dvd b" "KERNEL_HALF \<le> of_nat b"
    "b + 4096 * heap_pages sz < 2 ^ 64"
  shows "vm_ok t (heap_words l (b + 4096 * heap_pages sz))" "\<exists>f\<in>pmm_avail s. vmm_lookup t (of_nat b) = Some f"
proof -
  let ?n = "4096 * heap_pages sz"
  obtain s1 u v where m: "map_heap_pages (of_nat b) (of_nat 0) (of_nat (0 + ?n)) s = Some (True, s1)"
      and w: "set_block_size (of_nat b) (of_nat (?n - 24)) (s1\<lparr>heap_current := heap_current s1 + of_nat ?n\<rparr>) = Some u"
        "set_block_free (of_nat b) 0 u = Some v" "set_block_next (of_nat b) NULL v = Some t"
    using assms(1,2) request_more_memory_unfold [OF assms(3,4)] by (auto simp: bind_eq_Some_conv split: if_splits)
  let ?s2 = "s1\<lparr>heap_current := heap_current s1 + of_nat ?n\<rparr>"
  have "vm_ok s1 (heap_words l (b + ?n))" using map_heap_pages_spec [OF m, of l] assms(5-9) by auto
  then have ok: "vm_ok ?s2 (heap_words l (b + ?n))" using vm_view_cong(2) [of ?s2 s1] by simp
  have same: "vmm_lookup ?s2 = vmm_lookup s1" by (rule lookup_heap_current)
  have "8 dvd b" by (rule dvd_trans [OF _ assms(7)]) simp
  then have b: "b + ?n \<le> 2 ^ 64" "l \<le> b" "b + 24 \<le> b + ?n" "8 dvd b" using assms(6,9) by (simp_all add: heap_pages_def)
  note a1 = set_block_lookup(1) [OF ok b w(1)]
  note a2 = set_block_lookup(2) [OF conjunct1 [OF a1] b w(2)]
  note a3 = set_block_lookup(3) [OF conjunct1 [OF a2] b w(3)]
  show "vm_ok t (heap_words l (b + ?n))" using a3 by simp
  show "\<exists>f\<in>pmm_avail s. vmm_lookup t (of_nat b) = Some f"
    using map_heap_pages_lookup [OF m, of l] assms(5-9) a1 a2 a3 same by (simp add: heap_pages_def)
qed

text \<open>The first growth moves the heap's first page to another frame.\<close>

lemma first_growth_frame:
  assumes "heap_ok s bs" "heap_current s = HEAP_START" "sz \<noteq> 0" "first_fit (unat (align16 sz)) bs = None"
    "heap_end bs \<le> HEAP_BASE + 4096" "HEAP_BASE + 4096 * heap_pages (align16 sz) < 2 ^ 64"
    "kmalloc sz s = Some (HEAP_START + 24, t)"
  shows "\<exists>f g. vmm_lookup s HEAP_START = Some f \<and> vmm_lookup t HEAP_START = Some g \<and> f \<noteq> g \<and> g \<in> pmm_avail s"
proof -
  let ?n = "4096 * heap_pages (align16 sz)" and ?l = "heap_end (butlast bs)"
  have ok: "vm_ok s (heap_words HEAP_BASE (heap_end bs))" "bs \<noteq> []" using assms(1) by (simp_all add: heap_ok_def)
  obtain m f where "last bs = (m, f)" by (cases "last bs")
  then have bs: "bs = butlast bs @ [(m, f)]" using append_butlast_last_id [of bs] ok(2) by simp
  have "heap_ok s (butlast bs @ [(m, f)])" using assms(1) bs by simp
  note hb = heap_ok_block [OF this]
  have e: "?l + 24 \<le> heap_end bs" "HEAP_BASE \<le> ?l" "8 dvd ?l" using hb(2,3,5) bs by simp_all
  have "HEAP_START + 24 \<noteq> NULL" by (simp add: HEAP_START_def)
  then obtain r where r: "request_more_memory (align16 sz) s = Some (HEAP_START + 24, r)"
      "set_block_next (of_nat ?l) (HEAP_START + 24 - sizeof_block_header) r = Some t"
    using assms(7) unfolding kmalloc_nofit [OF assms(1,3,4)] by (auto simp: bind_eq_Some_conv split: if_splits)
  have vm: "vm_ok s (heap_words HEAP_BASE HEAP_BASE)"
    by (rule vm_ok_mono [OF ok(1)]) simp
  have kh: "KERNEL_HALF \<le> of_nat HEAP_BASE" by (simp add: KERNEL_HALF_def HEAP_START_def)
  have al: "4096 dvd HEAP_BASE" by (simp add: HEAP_BASE_def HEAP_START_def)
  have bound: "unat (align16 sz) + 24 + 4095 < 2 ^ 64" using heap_pages_bound [of "[]"] assms(6) by simp
  have cur: "heap_current s = of_nat HEAP_BASE" using assms(2) by simp
  note req = request_more_memory_lookup [OF r(1) \<open>HEAP_START + 24 \<noteq> NULL\<close> bound cur vm order_refl al kh assms(6)]
  have "?l + 24 \<le> HEAP_BASE + ?n"
  proof -
    have "1 \<le> heap_pages (align16 sz)" by (simp add: heap_pages_def)
    then show ?thesis using e(1) assms(5) by linarith
  qed
  from set_block_lookup(3) [OF req(1) _ e(2) this e(3) r(2)] have "vmm_lookup t = vmm_lookup r"
    using assms(6) by simp
  moreover obtain g where g: "g \<in> pmm_avail s" "vmm_lookup r HEAP_START = Some g" using req(2) by auto
  moreover obtain f where "vmm_lookup s HEAP_START = Some f" "f \<notin> pmm_avail s"
  proof -
    have "(of_nat HEAP_BASE :: u64) \<in> heap_words HEAP_BASE (heap_end bs)"
    proof -
      have "heap_end bs \<le> 2 ^ 64" "HEAP_BASE < heap_end bs" "HEAP_BASE < 2 ^ 64"
        using e assms(1) by (simp_all add: heap_ok_def)
      then show ?thesis by (subst heap_words_mem) simp_all
    qed
    then show ?thesis using that ok(1) by (auto simp: vm_ok_def backed_def)
  qed
  ultimately show ?thesis by auto
qed

declare of_nat_add [simp]

end
