(* ===== verification/Thread_Create.thy ===== *)
theory Thread_Create
  imports Thread_Props Heap_Frame Kheap_Clients Heap_Remap
begin

text \<open>
  Creating a thread, on a heap: what \<open>thread_create\<close> sets up when both allocations succeed, and what the heap's first growth
  makes of the first stack.
\<close>

section \<open>A successful creation\<close>

text \<open>The locks of the threads and of the process table are free.\<close>

definition locks_free :: "'r sched_state_scheme \<Rightarrow> bool" where
  "locks_free s \<longleftrightarrow> idle_mutex (thread_mutex s) \<and> idle_mutex (process_table_lock s) \<and> \<not> lock_held (schedule_lock s)"

definition taken_mutex :: "mutex_t \<Rightarrow> 'r sched_state_scheme \<Rightarrow> mutex_t" where
  "taken_mutex x s = x\<lparr>m_lock := quiet_lock s, m_locked := True, m_owner := current_thread s\<rparr>"

definition new_thread :: "u64 \<Rightarrow> u32 \<Rightarrow> addr \<Rightarrow> u32 \<Rightarrow> thread_priority \<Rightarrow> u32 \<Rightarrow> addr \<Rightarrow> u64 \<Rightarrow> thread" where
  "new_thread function argc argv tid priority owner_pid owner stack =
     (fresh_thread tid THREAD_RING_0 priority owner_pid)\<lparr>t_stack_base := stack, t_kernel_stack := 0,
       t_context := zero_context\<lparr>ctx_rip := function, ctx_rsp := stack + TSTACK_SIZE - 8, ctx_rdi := scast argc, ctx_rsi := argv,
         ctx_rflags := 0x202, ctx_cs := ucast KERNEL_CODE64, ctx_ss := ucast KERNEL_DATA64\<rparr>, t_proc := owner\<rparr>"

text \<open>The process with a given number, the first in the table, and a null pointer if there is none.\<close>

fun process_with :: "int \<Rightarrow> (addr \<Rightarrow> process option) \<Rightarrow> addr list \<Rightarrow> addr" where
  "process_with pid pr [] = NULL"
| "process_with pid pr (p # ps) = (if p \<noteq> NULL \<and> map_option p_pid (pr p) = Some pid then p else process_with pid pr ps)"

definition owner_of :: "u32 \<Rightarrow> 'r sched_state_scheme \<Rightarrow> addr" where
  "owner_of pid s = process_with (uint pid) (procs s) (take MAX_PROCS (process_table s))"

text \<open>Every entry of the process table is null or a process whose lock is free.\<close>

definition processes_ok :: "'r sched_state_scheme \<Rightarrow> bool" where
  "processes_ok s \<longleftrightarrow> (\<forall>p\<in>set (process_table s). p \<noteq> NULL \<longrightarrow> (\<exists>q. procs s p = Some q \<and> idle_mutex (p_lock q)))"

lemma process_with_cases: "process_with pid pr ps = NULL \<or> process_with pid pr ps \<in> set ps \<and> map_option p_pid (pr (process_with pid pr ps)) = Some pid"
  by (induction ps) auto

lemma find_pid_with: "\<forall>p\<in>set ps. p \<noteq> NULL \<longrightarrow> procs s p \<noteq> None \<Longrightarrow> find_pid pid ps s = ret (process_with pid (procs s) ps) s"
  by (induction ps) (auto simp: get_proc_def)

lemma owner_cases:
  assumes "processes_ok s" "owner_of pid s \<noteq> NULL"
  obtains q where "procs s (owner_of pid s) = Some q" "idle_mutex (p_lock q)" "p_pid q = uint pid"
  using process_with_cases [of "uint pid" "procs s" "take MAX_PROCS (process_table s)"] assms in_set_takeD
  unfolding owner_of_def processes_ok_def by fastforce

lemma process_from_pid_owner:
  assumes "idle_mutex (process_table_lock s)" "processes_ok s"
  shows "\<exists>x. process_from_pid (uint pid) s = ret (owner_of pid s) (s\<lparr>process_table_lock := x\<rparr>)"
proof -
  let ?u = "s\<lparr>process_table_lock := taken_mutex (process_table_lock s) s\<rparr>"
  have acq: "acquire_mutex ProcTableLock s = ret 0 ?u"
    using acquire_mutex_free [of ProcTableLock s] assms(1) by (simp add: idle_mutex_def taken_mutex_def)
  have rel: "\<exists>x. release_mutex ProcTableLock ?u = ret () (s\<lparr>process_table_lock := x\<rparr>)"
    using release_mutex_free [of ProcTableLock ?u] assms(1) by (simp add: idle_mutex_def taken_mutex_def) blast
  have "find_pid (uint pid) (take MAX_PROCS (process_table ?u)) ?u =
      ret (process_with (uint pid) (procs ?u) (take MAX_PROCS (process_table ?u))) ?u"
    by (rule find_pid_with) (use assms(2) in \<open>auto simp: processes_ok_def dest: in_set_takeD\<close>)
  then show ?thesis using acq rel by (auto simp: process_from_pid_def owner_of_def)
qed

text \<open>A process a thread is added to: the first thread becomes its main thread.\<close>

definition with_thread :: "addr \<Rightarrow> mutex_t \<Rightarrow> process \<Rightarrow> process" where
  "with_thread t x q = q\<lparr>p_main_thread := (if p_main_thread q = NULL then t else p_main_thread q), p_lock := x\<rparr>"

lemma process_add_thread_spec:
  assumes "procs s p = Some q" "idle_mutex (p_lock q)" "p \<noteq> NULL" "threads s t = Some th" "t \<noteq> NULL"
  shows "\<exists>x. process_add_thread p t s = ret 0 (s\<lparr>procs := (procs s)(p \<mapsto> with_thread t x q),
    threads := (threads s)(t \<mapsto> th\<lparr>t_o_pid := word_of_int (p_pid q), t_proc := p\<rparr>)\<rparr>)"
proof -
  let ?x = "taken_mutex (p_lock q) s"
  let ?q = "q\<lparr>p_lock := ?x\<rparr>" and ?th = "th\<lparr>t_o_pid := word_of_int (p_pid q), t_proc := p\<rparr>"
  let ?s1 = "s\<lparr>procs := (procs s)(p \<mapsto> ?q)\<rparr>"
  have acq: "acquire_mutex (ProcLock p) s = ret 0 ?s1"
    using acquire_mutex_free [of "ProcLock p" s] assms(1,2) by (simp add: idle_mutex_def taken_mutex_def)
  define q' where "q' = ?q\<lparr>p_main_thread := (if p_main_thread q = NULL then t else p_main_thread q)\<rparr>"
  define s2 where "s2 = s\<lparr>procs := (procs s)(p \<mapsto> q'), threads := (threads s)(t \<mapsto> ?th)\<rparr>"
  have "m_lock (p_lock q') = quiet_lock s" "m_owner (p_lock q') = current_thread s" "m_waiter_head (p_lock q') = NULL"
    using assms(2) by (simp_all add: q'_def taken_mutex_def idle_mutex_def)
  moreover have "mutex_of (ProcLock p) s2 = Some (p_lock q')" "current_thread s2 = current_thread s" "quiet_lock s2 = quiet_lock s"
    "\<not> lock_held (quiet_lock s)" by (simp_all add: s2_def)
  ultimately have "release_mutex (ProcLock p) s2 =
      ret () (set_mutex (ProcLock p) ((p_lock q')\<lparr>m_lock := quiet_lock s, m_locked := False, m_owner := NULL\<rparr>) s2)"
    using release_mutex_free [of "ProcLock p" s2 "p_lock q'"] by metis
  moreover have "set_mutex (ProcLock p) y s2 = s\<lparr>procs := (procs s)(p \<mapsto> with_thread t y q), threads := (threads s)(t \<mapsto> ?th)\<rparr>" for y
    by (cases s) (simp add: s2_def q'_def with_thread_def)
  ultimately have rel: "\<exists>x. release_mutex (ProcLock p) s2 =
      ret () (s\<lparr>procs := (procs s)(p \<mapsto> with_thread t x q), threads := (threads s)(t \<mapsto> ?th)\<rparr>)" by auto
  have order: "s\<lparr>threads := a, procs := b\<rparr> = s\<lparr>procs := b, threads := a\<rparr>" for a b by (cases s) simp
  have "process_add_thread p t s = seq (release_mutex (ProcLock p) s2) (\<lambda>_ s. ret 0 s)"
    unfolding process_add_thread_def acq seq_simps
    using assms(1,3-5) by (simp add: get_proc_def put_proc_def put_thread_def set_proc_def s2_def q'_def order)
  then show ?thesis using rel by auto
qed

lemma attach_owner_spec:
  assumes "idle_mutex (process_table_lock s)" "processes_ok s" "threads s t = Some th" "t \<noteq> NULL" "t_o_pid th = pid"
  shows "\<exists>x pr. attach_owner pid t s = ret () (s\<lparr>process_table_lock := x, procs := pr,
      threads := (threads s)(t \<mapsto> th\<lparr>t_proc := owner_of pid s\<rparr>)\<rparr>) \<and>
    (owner_of pid s = NULL \<longrightarrow> pr = procs s) \<and>
    (\<forall>q. owner_of pid s \<noteq> NULL \<longrightarrow> procs s (owner_of pid s) = Some q \<longrightarrow> (\<exists>y. pr = (procs s)(owner_of pid s \<mapsto> with_thread t y q)))"
proof -
  let ?o = "owner_of pid s"
  let ?s1 = "s\<lparr>threads := (threads s)(t \<mapsto> th\<lparr>t_proc := NULL\<rparr>)\<rparr>"
  have same: "owner_of pid ?s1 = ?o" by (simp add: owner_of_def)
  have "processes_ok ?s1" "idle_mutex (process_table_lock ?s1)" using assms(1,2) by (simp_all add: processes_ok_def)
  then obtain x where x: "process_from_pid (uint pid) ?s1 = ret ?o (?s1\<lparr>process_table_lock := x\<rparr>)"
    using process_from_pid_owner [of ?s1 pid] unfolding same by blast
  let ?s2 = "?s1\<lparr>process_table_lock := x\<rparr>"
  show ?thesis
  proof (cases "?o = NULL")
    case True
    then have "attach_owner pid t s = ret () (s\<lparr>process_table_lock := x, procs := procs s, threads := (threads s)(t \<mapsto> th\<lparr>t_proc := ?o\<rparr>)\<rparr>)"
      using x assms(3) by (simp add: attach_owner_def set_proc_def put_thread_def)
    then show ?thesis using True by blast
  next
    case False
    obtain q where q: "procs s ?o = Some q" "idle_mutex (p_lock q)" "p_pid q = uint pid"
      by (rule owner_cases [OF assms(2) False])
    obtain y where y: "process_add_thread ?o t ?s2 = ret 0 (?s2\<lparr>procs := (procs ?s2)(?o \<mapsto> with_thread t y q),
        threads := (threads ?s2)(t \<mapsto> th\<lparr>t_proc := NULL, t_o_pid := word_of_int (p_pid q), t_proc := ?o\<rparr>)\<rparr>)"
      using process_add_thread_spec [of ?s2 ?o q t "th\<lparr>t_proc := NULL\<rparr>"] q(1,2) False assms(4) by auto
    have th: "th\<lparr>t_proc := NULL, t_o_pid := word_of_int (p_pid q), t_proc := ?o\<rparr> = th\<lparr>t_proc := ?o\<rparr>"
      using q(3) assms(5) by (cases th) simp
    have "attach_owner pid t s = ret () (s\<lparr>process_table_lock := x, procs := (procs s)(?o \<mapsto> with_thread t y q),
        threads := (threads s)(t \<mapsto> th\<lparr>t_proc := ?o\<rparr>)\<rparr>)"
      using x y False assms(3) unfolding th by (simp add: attach_owner_def set_proc_def put_thread_def)
    then show ?thesis using q(1) False by auto
  qed
qed

lemma thread_create_steps:
  assumes "locks_free s" "ready_queue s q" "function \<noteq> 0" "\<not> of_nat MAX_THREADS \<le> thread_count s"
    and slot: "free_slot (thread_table s) = Some i" and procs: "processes_ok s"
    and k1: "kmalloc sizeof_thread (s\<lparr>thread_mutex := taken_mutex (thread_mutex s) s\<rparr>) = Some (t, s2)" "t \<noteq> NULL" "threads s t = None"
    and k2: "kmalloc TSTACK_SIZE (s2\<lparr>threads := (threads s)(t \<mapsto> fresh_thread (next_tid s) THREAD_RING_0 priority pid),
        next_tid := next_tid s + 1\<rparr>) = Some (p, s4)" "p \<noteq> 0"
  shows "\<exists>u. thread_create function argc argv THREAD_RING_0 priority pid s = ret t u \<and> ready_queue u (q @ [t]) \<and>
    threads u t = Some (new_thread function argc argv (next_tid s) priority pid (owner_of pid s) p) \<and>
    (\<forall>r. owner_of pid s \<noteq> NULL \<longrightarrow> procs s (owner_of pid s) = Some r \<longrightarrow>
      (\<exists>x. procs u = (procs s)(owner_of pid s \<mapsto> with_thread t x r))) \<and>
    thread_table u = (thread_table s)[i := t] \<and> thread_count u = thread_count s + 1 \<and> next_tid u = next_tid s + 1 \<and>
    (\<forall>y. y \<notin> set q \<union> {t} \<longrightarrow> threads u y = threads s y)"
proof -
  let ?o = "owner_of pid s"
  let ?m = "taken_mutex (thread_mutex s) s"
  let ?s1 = "s\<lparr>thread_mutex := ?m\<rparr>"
  let ?f = "fresh_thread (next_tid s) THREAD_RING_0 priority pid"
  let ?s3 = "s2\<lparr>threads := (threads s)(t \<mapsto> ?f), next_tid := next_tid s + 1\<rparr>"
  have i: "idle_mutex (thread_mutex s)" "idle_mutex (process_table_lock s)" "\<not> lock_held (schedule_lock s)"
    using assms(1) by (simp_all add: locks_free_def)
  have acq: "acquire_mutex ThreadMutex s = ret 0 ?s1"
    using acquire_mutex_free [of ThreadMutex s] i(1) by (simp add: idle_mutex_def taken_mutex_def)
  have m2: "kheap_state.more s2 = kheap_state.more ?s1" by (rule kmalloc_more [OF k1(1)])
  have m4: "kheap_state.more s4 = kheap_state.more ?s3" by (rule kmalloc_more [OF k2(1)])
  have f4: "threads s4 = (threads s)(t \<mapsto> ?f)" "next_tid s4 = next_tid s + 1" "thread_table s4 = thread_table s"
      "thread_count s4 = thread_count s" "process_table s4 = process_table s" "process_table_lock s4 = process_table_lock s"
      "thread_mutex s4 = ?m" "current_thread s4 = current_thread s" "schedule_lock s4 = schedule_lock s"
      "ready_head s4 = ready_head s" "ready_tail s4 = ready_tail s" "procs s4 = procs s"
    using m2 m4 by (cases s; cases s2; cases s4; simp)+
  define s5 where "s5 = s4\<lparr>threads := (threads s4)(t \<mapsto> ?f\<lparr>t_stack_base := p, t_kernel_stack := 0\<rparr>)\<rparr>"
  have stacks: "alloc_stacks t THREAD_RING_0 ?s3 = ret True s5"
    using k2 f4(1) by (simp add: alloc_stacks_def s5_def)
  define c where "c = ?f\<lparr>t_stack_base := p, t_kernel_stack := 0,
      t_context := initial_context function argc argv THREAD_RING_0 (?f\<lparr>t_stack_base := p, t_kernel_stack := 0\<rparr>)\<rparr>"
  define s6 where "s6 = s5\<lparr>threads := (threads s5)(t \<mapsto> c)\<rparr>"
  let ?g = "new_thread function argc argv (next_tid s) priority pid ?o p"
  have g: "c\<lparr>t_proc := ?o\<rparr> = ?g"
    by (simp add: c_def new_thread_def initial_context_def fresh_thread_def zero_thread_def)
  have f6: "threads s6 = (threads s)(t \<mapsto> c)" "next_tid s6 = next_tid s + 1" "thread_table s6 = thread_table s"
      "thread_count s6 = thread_count s" "process_table s6 = process_table s" "process_table_lock s6 = process_table_lock s"
      "thread_mutex s6 = ?m" "current_thread s6 = current_thread s" "schedule_lock s6 = schedule_lock s"
      "ready_head s6 = ready_head s" "ready_tail s6 = ready_tail s" "procs s6 = procs s"
    using f4 by (simp_all add: s6_def s5_def)
  have o6: "owner_of pid s6 = ?o" "processes_ok s6" using procs f6(5,12) by (simp_all add: owner_of_def processes_ok_def)
  have "t_o_pid c = pid" "threads s6 t = Some c" "idle_mutex (process_table_lock s6)"
    using f6(1,6) i(2) by (simp_all add: c_def fresh_thread_def)
  then obtain x pr where attach: "attach_owner pid t s6 =
        ret () (s6\<lparr>process_table_lock := x, procs := pr, threads := (threads s6)(t \<mapsto> ?g)\<rparr>)"
      and pr: "\<forall>r. ?o \<noteq> NULL \<longrightarrow> procs s ?o = Some r \<longrightarrow> (\<exists>y. pr = (procs s)(?o \<mapsto> with_thread t y r))"
    using attach_owner_spec [of s6 t c pid] o6 k1(2) unfolding o6(1) g f6(12) by blast
  define s7 where "s7 = s6\<lparr>process_table_lock := x, procs := pr, threads := (threads s6)(t \<mapsto> ?g), thread_table := (thread_table s)[i := t], thread_count := thread_count s + 1\<rparr>"
  obtain y where rel: "release_mutex ThreadMutex s7 = ret () (s7\<lparr>thread_mutex := y\<rparr>)"
    using release_mutex_free [of ThreadMutex s7] i(1) f6(7,8) by (simp add: s7_def taken_mutex_def idle_mutex_def)
  define s8 where "s8 = s7\<lparr>thread_mutex := y\<rparr>"
  have f8: "threads s8 = (threads s)(t \<mapsto> ?g)" "ready_head s8 = ready_head s" "ready_tail s8 = ready_tail s"
      "schedule_lock s8 = schedule_lock s" "thread_table s8 = (thread_table s)[i := t]" "thread_count s8 = thread_count s + 1"
      "next_tid s8 = next_tid s + 1" "procs s8 = pr"
    using f6 by (simp_all add: s8_def s7_def)
  have tq: "t \<notin> set q" using assms(2) k1(3) linked_dom [of "threads s" "ready_head s" q NULL t] by (auto simp: ready_queue_def)
  have "ready_queue s8 q" using assms(2) tq f8(1-3) by (simp add: ready_queue_def)
  moreover have "t_next ?g = NULL" by (simp add: new_thread_def fresh_thread_def zero_thread_def)
  ultimately obtain u where u: "link_ready t s8 = ret () u" "ready_queue u (q @ [t])" "relinked (unlocked s8) u" "threads u t = Some ?g"
      "\<forall>y. y \<notin> set q \<union> {t} \<longrightarrow> threads u y = threads s8 y"
    using link_ready_spec [of s8 q t ?g] tq k1(2) f8(1,4) i(3) by auto
  have fu: "thread_table u = thread_table s8" "thread_count u = thread_count s8" "next_tid u = next_tid s8" "procs u = procs s8"
    using u(3) by (auto simp: relinked_def unlocked_def)
  have "thread_create function argc argv THREAD_RING_0 priority pid s = ret t u"
  proof -
    have f2: "threads s2 = threads s" "next_tid s2 = next_tid s" using m2 by (cases s; cases s2; simp)+
    have put: "put_thread t (\<lambda>th. th\<lparr>t_context := initial_context function argc argv THREAD_RING_0 th\<rparr>) s5 = ret () s6"
      using get_put_simps(2) [of s5 t "?f\<lparr>t_stack_base := p, t_kernel_stack := 0\<rparr>"] by (simp add: s5_def s6_def c_def)
    define v where "v = s6\<lparr>process_table_lock := x, procs := pr, threads := (threads s6)(t \<mapsto> ?g)\<rparr>"
    have sl: "free_slot (thread_table v) = Some i" using slot f6(3) by (simp add: v_def)
    have st: "v\<lparr>thread_table := (thread_table v)[i := t], thread_count := thread_count v + 1\<rparr> = s7"
      using f6(3,4) by (simp add: s7_def v_def)
    show ?thesis
      unfolding thread_create_def acq seq_simps
      using assms(3,4) k1(1,2) stacks attach [folded v_def] put sl st rel u(1) f2
      by (simp add: Let_def s8_def)
  qed
  moreover have "\<forall>y. y \<notin> set q \<union> {t} \<longrightarrow> threads u y = threads s y" using u(5) f8(1) by simp
  moreover have "\<forall>r. ?o \<noteq> NULL \<longrightarrow> procs s ?o = Some r \<longrightarrow> (\<exists>x. procs u = (procs s)(?o \<mapsto> with_thread t x r))"
    using pr fu(4) f8(8) by simp
  ultimately show ?thesis using u(2,4) fu(1-3) f8(5-7) by auto
qed

section \<open>Creation on a heap\<close>

lemma thread_block_size: "align16 sizeof_thread = 272" "align16 TSTACK_SIZE = 16384" "heap_pages 16384 = 5" "sizeof_thread \<noteq> 0" "TSTACK_SIZE \<noteq> 0"
  by (simp_all add: align16_def sizeof_thread_def TSTACK_SIZE_def heap_pages_def)

lemma upper_view:
  "vm_view (s\<lparr>thread_mutex := x\<rparr>) = vm_view s" "vm_view (s\<lparr>threads := th, next_tid := n\<rparr>) = vm_view s"
  by (simp_all add: vm_view_def)

text \<open>The allocation of the thread structure, and the state in which the stack is allocated.\<close>

lemma thread_structure:
  fixes s :: "'r sched_state_scheme"
  assumes "heap_ok s bs" "first_fit 272 bs = Some (xs, m, ys)"
  obtains s2 where "kmalloc sizeof_thread (s\<lparr>thread_mutex := x\<rparr>) = Some (of_nat (heap_end xs + 24), s2)"
    "heap_ok (s2\<lparr>threads := th, next_tid := n\<rparr>) (xs @ carve 272 m @ ys)"
    "heap_current (s2\<lparr>threads := th, next_tid := n\<rparr>) = heap_current s"
    "pmm_avail (s2\<lparr>threads := th, next_tid := n\<rparr>) = pmm_avail s" "(of_nat (heap_end xs + 24) :: u64) \<noteq> NULL"
    "heap_end xs + 24 + 272 \<le> heap_end bs" "heap_end bs < 2 ^ 64"
proof -
  let ?s1 = "s\<lparr>thread_mutex := x\<rparr>"
  have ok1: "heap_ok ?s1 bs" by (rule heap_ok_view [OF assms(1) upper_view(1)]) simp
  obtain s2 where s2: "kmalloc sizeof_thread ?s1 = Some (of_nat (heap_end xs + 24), s2)"
      "heap_ok s2 (xs @ carve 272 m @ ys)" "stores HEAP_BASE (heap_end bs) ?s1 s2 {heap_end xs..<heap_end xs + 24 + m}"
    using kmalloc_fit [OF ok1 thread_block_size(4), of xs m ys] assms(2) unfolding thread_block_size(1) by auto
  have bs: "bs = xs @ (m, True) # ys" "272 \<le> m" using first_fit_Some [OF assms(2)] by auto
  note hb = heap_ok_block [OF assms(1) [unfolded bs(1)]]
  have nn: "(of_nat (heap_end xs + 24) :: u64) \<noteq> NULL"
    using payload_pointer [OF assms(1) [unfolded bs(1)]] by (metis add_is_0 unsigned_0 zero_neq_numeral)
  show ?thesis
  proof (rule that [OF s2(1) _ _ _ nn])
    show "heap_ok (s2\<lparr>threads := th, next_tid := n\<rparr>) (xs @ carve 272 m @ ys)"
      by (rule heap_ok_view [OF s2(2) upper_view(2)]) simp
    show "heap_current (s2\<lparr>threads := th, next_tid := n\<rparr>) = heap_current s" using stores_kheap(2) [OF s2(3)] by simp
    show "pmm_avail (s2\<lparr>threads := th, next_tid := n\<rparr>) = pmm_avail s"
      using stores_avail [OF s2(3)] by (simp add: vm_view_cong(3) [OF upper_view(2)] vm_view_cong(3) [OF upper_view(1)])
    show "heap_end xs + 24 + 272 \<le> heap_end bs" "heap_end bs < 2 ^ 64" using hb(3,4) bs by simp_all
  qed
qed

lemma first_fit_small:
  assumes "blocks_end a bs < a + 24 + sz"
  shows "first_fit sz bs = None"
proof (cases "first_fit sz bs")
  case (Some r)
  then obtain xs m ys where "first_fit sz bs = Some (xs, m, ys)" by (cases r) auto
  then have "bs = xs @ (m, True) # ys" "sz \<le> m" using first_fit_Some by auto
  moreover have "a \<le> blocks_end a xs" "blocks_end a xs + 24 + m \<le> blocks_end (blocks_end a xs + 24 + m) ys"
    by (rule blocks_end_ge)+
  ultimately have "a + 24 + sz \<le> blocks_end a bs" by simp
  then show ?thesis using assms by simp
qed

text \<open>The stack: the first block that fits, or the block the heap grows by.\<close>

lemma thread_stack:
  assumes "heap_ok s bs" "first_fit 16384 bs = Some (zs, k, ws) \<or>
      first_fit 16384 bs = None \<and> zs = bs \<and> heap_full_ok s bs \<and> heap_end bs + 20480 < 2 ^ 64 \<and> 20 \<le> card (pmm_avail s)"
  obtains t where "kmalloc TSTACK_SIZE s = Some (of_nat (heap_end zs + 24), t)" "(of_nat (heap_end zs + 24) :: u64) \<noteq> 0"
  using assms(2)
proof (elim disjE conjE)
  assume fit: "first_fit 16384 bs = Some (zs, k, ws)"
  then have "heap_ok s (zs @ (k, True) # ws)" using assms(1) first_fit_Some by blast
  then have "(of_nat (heap_end zs + 24) :: u64) \<noteq> 0" using payload_pointer by (metis add_is_0 unsigned_0 zero_neq_numeral)
  moreover obtain t where "kmalloc TSTACK_SIZE s = Some (of_nat (heap_end zs + 24), t)"
    using kmalloc_fit [OF assms(1) thread_block_size(5), of zs k ws] fit unfolding thread_block_size(2) by auto
  ultimately show ?thesis using that by blast
next
  assume grow: "first_fit 16384 bs = None" "zs = bs" "heap_full_ok s bs" "heap_end bs + 20480 < 2 ^ 64" "20 \<le> card (pmm_avail s)"
  have "unat (of_nat (heap_end bs + 24) :: u64) = heap_end bs + 24" using grow(4) by (simp add: unat_of_nat del: of_nat_add)
  then have "(of_nat (heap_end bs + 24) :: u64) \<noteq> 0" by (metis add_is_0 unsigned_0 zero_neq_numeral)
  moreover obtain t where "kmalloc TSTACK_SIZE s = Some (of_nat (heap_end bs + 24), t)"
    using kmalloc_grow_total [OF grow(3) thread_block_size(5)] grow(1,4,5) by (auto simp: thread_block_size)
  ultimately show ?thesis using that grow(2) by blast
qed

text \<open>C18: on a heap with room for the structure, with free locks and fewer than \<open>MAX_THREADS\<close> threads, \<open>thread_create\<close> makes a
  kernel thread ready to run: its structure is the first block that fits, its stack the next that fits or the page block that
  the heap grows by at its end (every growth but the first), its context enters the function on top of the stack with its
  arguments, it takes the next thread number and the first free slot of the table, it belongs to the first process of the
  process table with the given number (or to none), whose main thread it becomes if there is none yet, and it is queued behind
  every other thread.\<close>

theorem thread_create_ready:
  fixes s :: "'r sched_state_scheme"
  assumes "locks_free s" "ready_queue s q" "function \<noteq> 0" "\<not> of_nat MAX_THREADS \<le> thread_count s"
    "free_slot (thread_table s) = Some i" "processes_ok s"
    and heap: "heap_ok s bs" "first_fit 272 bs = Some (xs, m, ys)"
    and stack: "first_fit 16384 (xs @ carve 272 m @ ys) = Some (zs, k, ws) \<or>
      first_fit 16384 (xs @ carve 272 m @ ys) = None \<and> zs = xs @ carve 272 m @ ys \<and> heap_full_ok s bs \<and>
      heap_end bs + 20480 < 2 ^ 64 \<and> 20 \<le> card (pmm_avail s)"
    and fresh: "threads s (of_nat (heap_end xs + 24)) = None"
  shows "\<exists>u t. thread_create function argc argv THREAD_RING_0 priority pid s = ret t u \<and> t = of_nat (heap_end xs + 24) \<and>
    ready_queue u (q @ [t]) \<and>
    threads u t = Some (new_thread function argc argv (next_tid s) priority pid (owner_of pid s) (of_nat (heap_end zs + 24))) \<and>
    (\<forall>r. owner_of pid s \<noteq> NULL \<longrightarrow> procs s (owner_of pid s) = Some r \<longrightarrow>
      (\<exists>x. procs u = (procs s)(owner_of pid s \<mapsto> with_thread t x r))) \<and>
    thread_table u = (thread_table s)[i := t] \<and> thread_count u = thread_count s + 1 \<and> next_tid u = next_tid s + 1 \<and>
    (\<forall>y. y \<notin> set q \<union> {t} \<longrightarrow> threads u y = threads s y)"
proof -
  let ?t = "of_nat (heap_end xs + 24) :: u64"
  let ?th = "(threads s)(?t \<mapsto> fresh_thread (next_tid s) THREAD_RING_0 priority pid)"
  have bs: "heap_end (xs @ carve 272 m @ ys) = heap_end bs" using first_fit_Some [OF heap(2)] by auto
  obtain s2 where s2: "kmalloc sizeof_thread (s\<lparr>thread_mutex := taken_mutex (thread_mutex s) s\<rparr>) = Some (?t, s2)"
      "heap_ok (s2\<lparr>threads := ?th, next_tid := next_tid s + 1\<rparr>) (xs @ carve 272 m @ ys)" "?t \<noteq> NULL"
      "heap_current (s2\<lparr>threads := ?th, next_tid := next_tid s + 1\<rparr>) = heap_current s"
      "pmm_avail (s2\<lparr>threads := ?th, next_tid := next_tid s + 1\<rparr>) = pmm_avail s"
    by (rule thread_structure [OF heap(1,2), where x = "taken_mutex (thread_mutex s) s" and th = ?th and n = "next_tid s + 1"]) blast
  obtain s4 where s4: "kmalloc TSTACK_SIZE (s2\<lparr>threads := ?th, next_tid := next_tid s + 1\<rparr>) = Some (of_nat (heap_end zs + 24), s4)"
      "(of_nat (heap_end zs + 24) :: u64) \<noteq> 0"
    by (rule thread_stack [OF s2(2), of zs k ws]) (use stack s2(2,4,5) bs in \<open>auto simp: heap_full_ok_def\<close>)
  note steps = thread_create_steps [OF assms(1-6) s2(1,3) fresh s4, of argc argv]
  show ?thesis by (rule exE [OF steps], elim conjE, intro exI conjI) (rule refl | assumption)+
qed

text \<open>C38: the two allocations of \<open>thread_create\<close>, structure and stack, on a heap that has not grown yet, as \<open>init_kheap\<close> leaves it.  The
  stack does not fit, and the first growth maps the heap's first page again: the stack handed out begins at the payload of the
  heap's first block and contains the structure just allocated, and the first page is on another frame, a page that was
  free before, so that what was stored in the structure there is gone.\<close>

theorem first_thread_in_its_stack:
  fixes s :: "'r kheap_state_scheme"
  assumes heap: "heap_ok s bs" "first_fit 272 bs = Some (xs, m, ys)" "heap_current s = HEAP_START" "heap_end bs \<le> HEAP_BASE + 4096"
      "20 \<le> card (pmm_avail s)"
  shows "\<exists>t u v f g. kmalloc sizeof_thread s = Some (t, u) \<and> kmalloc TSTACK_SIZE u = Some (HEAP_START + 24, v) \<and>
    unat (HEAP_START + 24) \<le> unat t \<and> unat t + unat sizeof_thread \<le> unat (HEAP_START + 24) + unat TSTACK_SIZE \<and>
    vmm_lookup u HEAP_START = Some f \<and> vmm_lookup v HEAP_START = Some g \<and> f \<noteq> g \<and> g \<in> pmm_avail u"
proof -
  let ?t = "of_nat (heap_end xs + 24) :: u64" and ?bs = "xs @ carve 272 m @ ys"
  have bs: "bs = xs @ (m, True) # ys" "272 \<le> m" using first_fit_Some [OF heap(2)] by auto
  note hb = heap_ok_block [OF heap(1) [unfolded bs(1)]]
  obtain u where u: "kmalloc sizeof_thread s = Some (?t, u)" "heap_ok u ?bs"
      "stores HEAP_BASE (heap_end bs) s u {heap_end xs..<heap_end xs + 24 + m}"
    using kmalloc_fit [OF heap(1) thread_block_size(4), of xs m ys] heap(2) unfolding thread_block_size(1) by auto
  have cur: "heap_current u = HEAP_START" using stores_kheap(2) [OF u(3)] heap(3) by simp
  have av: "pmm_avail u = pmm_avail s" by (rule stores_avail [OF u(3)])
  have eb: "heap_end ?bs = heap_end bs" using bs by simp
  have none: "first_fit (unat (align16 TSTACK_SIZE)) ?bs = None"
    unfolding thread_block_size(2) by (rule first_fit_small [of HEAP_BASE]) (use eb heap(4) in simp)
  have room: "heap_end ?bs \<le> HEAP_BASE + 4096" "HEAP_BASE + 4096 * heap_pages (align16 TSTACK_SIZE) < 2 ^ 64"
      "4 * heap_pages (align16 TSTACK_SIZE) \<le> card (pmm_avail u)"
    using eb heap(4,5) av by (simp_all add: thread_block_size HEAP_BASE_def HEAP_START_def)
  obtain v where v: "kmalloc TSTACK_SIZE u = Some (HEAP_START + 24, v)"
    by (rule first_growth [OF u(2) cur thread_block_size(5) none room])
  note frame = first_growth_frame [OF u(2) cur thread_block_size(5) none room(1,2) v]
  have "unat ?t = heap_end xs + 24" by (rule payload_pointer [OF heap(1) [unfolded bs(1)]])
  moreover have "unat (HEAP_START + 24) = HEAP_BASE + 24" by (simp add: HEAP_BASE_def HEAP_START_def)
  moreover have "HEAP_BASE \<le> heap_end xs" by (rule blocks_end_ge)
  moreover have "heap_end xs + 24 + 272 \<le> HEAP_BASE + 4096" using hb(3) bs heap(4) by simp
  ultimately have "unat (HEAP_START + 24) \<le> unat ?t \<and> unat ?t + unat sizeof_thread \<le> unat (HEAP_START + 24) + unat TSTACK_SIZE"
    by (simp add: sizeof_thread_def TSTACK_SIZE_def)
  then show ?thesis using u(1) v frame by blast
qed

section \<open>A machine with sixty-four pages\<close>

definition big_example :: sched_state where
  "big_example = sched_example\<lparr>pmm_bitmap := 0x03 # replicate 7 0, pmm_bitmap_size := 8, total_pages := 64\<rparr>"

lemma big_example_fields [simp]:
  "threads big_example = threads sched_example" "thread_table big_example = thread_table sched_example"
  "thread_mutex big_example = zero_mutex" "schedule_lock big_example = schedule_lock sched_example"
  "process_table_lock big_example = zero_mutex" "process_table big_example = replicate 1024 0"
  "thread_count big_example = 3" "next_tid big_example = 4" "ready_head big_example = 0x2000" "ready_tail big_example = 0x3000"
  "managed_base big_example = 0x100000" "total_pages big_example = 64" "pmm_bitmap big_example = 0x03 # replicate 7 0"
  "pmem big_example = (\<lambda>_. 0)" "current_pml4 big_example = 0x101000" "cr3 big_example = 0x101000"
  "g_hhdm_offset big_example = 0xFFFF800000000000"
  by (simp_all add: big_example_def sched_example_def kheap_example_def vmm_example_def kheap_state.defs sched_state.defs vmm_state.defs)

lemma big_example_pages: "pmm_wf big_example" "0x101000 \<notin> pmm_avail big_example" "56 \<le> card (pmm_avail big_example)"
proof -
  show wf: "pmm_wf big_example" by (simp add: pmm_wf_def PAGE_SIZE_def)
  have "page_addr big_example 1 = 0x101000" by (simp add: page_addr_def PAGE_SIZE_def)
  moreover have "i = 1" if "i < 64" "page_addr big_example 1 = page_addr big_example i" for i
    using page_addr_inj [OF wf, of 1 i] that by simp
  moreover have "BIT_TEST (pmm_bitmap big_example) 1" by (simp add: BIT_TEST_def)
  ultimately show "0x101000 \<notin> pmm_avail big_example" by (auto simp: pmm_avail_def)
  have free: "\<not> BIT_TEST (pmm_bitmap big_example) j" if j: "8 \<le> j" "j < 64" for j
  proof -
    have "j div 8 \<noteq> 0" "j div 8 < 8" using j by auto
    then obtain k where "j div 8 = Suc k" "k < 7" by (cases "j div 8") auto
    then show ?thesis by (simp add: BIT_TEST_def)
  qed
  then have sub: "page_addr big_example ` {8..<64} \<subseteq> pmm_avail big_example" by (auto simp: pmm_avail_def)
  have "inj_on (page_addr big_example) {8..<64}" using page_addr_inj [OF wf] by (auto simp: inj_on_def)
  then have "card (page_addr big_example ` {8..<64}) = 56" by (simp add: card_image)
  then show "56 \<le> card (pmm_avail big_example)" using card_mono [OF pmm.finite_avail sub] by simp
qed

lemma big_example_vm: "vm_ok big_example {}"
proof (rule vm_ok_empty)
  have "levels_ok big_example [current_pml4 big_example \<mapsto> 4]"
    by (rule levels_ok_empty) (use big_example_pages(2) in \<open>simp_all add: is_frame_def PAGE_MASK_def\<close>)
  then show "vmm_wf big_example" using big_example_pages(1) by (auto simp: vmm_wf_def hhdm_ok_def)
qed simp

text \<open>After \<open>init_kheap\<close>, two threads are queued and the heap is one free block; the kernel process is the only process.\<close>

lemma big_heap:
  obtains s :: sched_state where "heap_ok s [(4072, True)]" "heap_current s = HEAP_START" "52 \<le> card (pmm_avail s)"
    "locks_free s" "ready_queue s [0x2000, 0x3000]" "thread_count s = 3" "next_tid s = 4" "free_slot (thread_table s) = Some 4"
    "process_table s = 0x9000 # replicate 1023 0" "threads s = threads sched_example" "procs s = [0x9000 \<mapsto> zero_process]"
proof -
  obtain t :: sched_state where t: "init_kheap big_example = Some (4072, t)" "heap_ok t [(4072, True)]" "heap_current t = HEAP_START"
      "card (pmm_avail big_example) \<le> card (pmm_avail t) + 4"
    using init_kheap_spec [OF big_example_vm] big_example_pages(3) by auto
  have slot: "free_slot (thread_table sched_example) = Some 4"
    by (simp add: free_slot_def MAX_THREADS_def upt_rec nth_append)
  let ?l = "\<lparr>lock_held = False, had_interrupt = False\<rparr>"
  define s where "s = t\<lparr>threads := threads sched_example, thread_table := thread_table sched_example, thread_count := 3, next_tid := 4,
    thread_mutex := zero_mutex, process_table_lock := zero_mutex, schedule_lock := ?l, ready_head := 0x2000, ready_tail := 0x3000,
    process_table := 0x9000 # replicate 1023 0, procs := [0x9000 \<mapsto> zero_process]\<rparr>"
  have v: "vm_view s = vm_view t" by (simp add: s_def vm_view_def)
  have "heap_ok s [(4072, True)]" by (rule heap_ok_view [OF t(2) v]) (simp add: s_def)
  moreover have "pmm_avail s = pmm_avail t" by (rule vm_view_cong(3) [OF v])
  moreover have "ready_queue s [0x2000, 0x3000]" by (simp add: s_def ready_queue_def)
  ultimately show ?thesis
    using that [of s] t(3,4) big_example_pages(3) slot
    by (simp add: s_def locks_free_def idle_mutex_def zero_mutex_def)
qed

theorem first_thread_in_its_stack_witness:
  "\<exists>(s :: sched_state) u v. kmalloc sizeof_thread s = Some (0xFFFF800010000018, u) \<and> kmalloc TSTACK_SIZE u = Some (0xFFFF800010000018, v) \<and>
     vmm_lookup v 0xFFFF800010000000 \<noteq> vmm_lookup u 0xFFFF800010000000"
proof -
  obtain s :: sched_state where s: "heap_ok s [(4072, True)]" "heap_current s = HEAP_START" "52 \<le> card (pmm_avail s)"
    by (rule big_heap)
  have f: "first_fit 272 [(4072, True)] = Some ([], 4072, [])" by simp
  obtain t u v where u: "kmalloc sizeof_thread s = Some (t, u)" "kmalloc TSTACK_SIZE u = Some (HEAP_START + 24, v)"
      "vmm_lookup v HEAP_START \<noteq> vmm_lookup u HEAP_START"
    using first_thread_in_its_stack [OF s(1) f s(2)] s(3) by fastforce
  have "t = of_nat (heap_end [] + 24)"
    using kmalloc_fit [OF s(1) thread_block_size(4), of "[]" 4072 "[]"] u(1) unfolding thread_block_size(1) by auto
  then show ?thesis using u by (auto simp: HEAP_START_def)
qed

text \<open>A heap with one large free block: the first block, and behind it what a growth brought and gave back.\<close>

lemma big_free_heap:
  obtains s :: sched_state where "heap_ok s [(24552, True)]"
    "locks_free s" "ready_queue s [0x2000, 0x3000]" "thread_count s = 3" "next_tid s = 4" "free_slot (thread_table s) = Some 4"
    "process_table s = 0x9000 # replicate 1023 0" "threads s = threads sched_example" "procs s = [0x9000 \<mapsto> zero_process]"
proof -
  obtain r :: sched_state where r: "heap_ok r [(4072, True)]" "52 \<le> card (pmm_avail r)"
    "locks_free r" "ready_queue r [0x2000, 0x3000]" "thread_count r = 3" "next_tid r = 4" "free_slot (thread_table r) = Some 4"
    "process_table r = 0x9000 # replicate 1023 0" "threads r = threads sched_example" "procs r = [0x9000 \<mapsto> zero_process]"
    by (rule big_heap)
  let ?r = "r\<lparr>heap_current := of_nat (HEAP_BASE + 4096)\<rparr>"
  have "heap_ok ?r [(4072, True)]" by (rule heap_ok_view [OF r(1)]) (simp_all add: vm_view_def)
  then have full: "heap_full_ok ?r [(4072, True)]"
    by (simp add: heap_full_ok_def add.assoc) (simp add: HEAP_BASE_def HEAP_START_def)
  have av: "pmm_avail ?r = pmm_avail r" by (rule vm_view_cong(3)) (simp add: vm_view_def)
  have e: "heap_end [(4072, True)] = 18446603336489635840" by (simp add: HEAP_BASE_def HEAP_START_def)
  have p: "heap_pages (align16 20000) = 5" by (simp add: align16_def heap_pages_def)
  obtain t where t: "kmalloc 20000 ?r = Some (of_nat (heap_end [(4072, True)] + 24), t)" "heap_full_ok t ([(4072, True)] @ [(20456, False)])"
  proof -
    have "first_fit (unat (align16 20000)) [(4072, True)] = None" by (simp add: align16_def)
    from kmalloc_grow_total [OF full _ this] r(2) show ?thesis unfolding e p av using that by (simp add: HEAP_START_def) blast
  qed
  have "heap_ok t ([(4072, True)] @ (20456, False) # [])" using t(2) by (simp add: heap_full_ok_def)
  from kfree_spec [OF this] obtain u where u: "kfree (of_nat (heap_end [(4072, True)] + 24)) t = Some u"
      "heap_ok u (coalesce [(4072, True), (20456, True)])" by auto
  have "kheap_state.more u = kheap_state.more r" using kmalloc_more [OF t(1)] kfree_more [OF u(1)] by simp
  then have "threads u = threads r" "thread_table u = thread_table r" "thread_mutex u = thread_mutex r" "process_table u = process_table r"
      "process_table_lock u = process_table_lock r" "schedule_lock u = schedule_lock r" "thread_count u = thread_count r"
      "next_tid u = next_tid r" "ready_head u = ready_head r" "ready_tail u = ready_tail r" "procs u = procs r"
    by (cases u; cases r; simp)+
  then show ?thesis
    using that [of u] r(3-10) u(2) by (simp add: locks_free_def ready_queue_def)
qed

text \<open>The thread belongs to the kernel process, number 0, and becomes its main thread.\<close>

theorem thread_create_ready_witness:
  "\<exists>(s :: sched_state) u. thread_create 0xFFFFFFFF80001000 2 0x500000 THREAD_RING_0 THREAD_PRIO_LOW 0 s = ret 0xFFFF800010000018 u \<and>
     ready_queue u [0x2000, 0x3000, 0xFFFF800010000018] \<and> next_tid u = 5 \<and>
     threads u 0xFFFF800010000018 = Some (new_thread 0xFFFFFFFF80001000 2 0x500000 4 THREAD_PRIO_LOW 0 0x9000 0xFFFF800010000140) \<and>
     map_option p_main_thread (procs u 0x9000) = Some 0xFFFF800010000018"
proof -
  obtain s :: sched_state where s: "heap_ok s [(24552, True)]" "locks_free s" "ready_queue s [0x2000, 0x3000]" "thread_count s = 3"
    "next_tid s = 4" "free_slot (thread_table s) = Some 4" "process_table s = 0x9000 # replicate 1023 0" "threads s = threads sched_example"
    "procs s = [0x9000 \<mapsto> zero_process]"
    by (rule big_free_heap)
  have f: "first_fit 272 [(24552, True)] = Some ([], 24552, [])"
      "first_fit 16384 ([] @ carve 272 24552 @ []) = Some ([(272, False)], 24256, [])" by (simp_all add: carve_def)
  have t: "(of_nat (heap_end [] + 24) :: u64) = 0xFFFF800010000018" "(of_nat (heap_end [(272, False)] + 24) :: u64) = 0xFFFF800010000140"
    by (simp_all add: HEAP_START_def HEAP_BASE_def)
  have n: "threads s (of_nat (heap_end [] + 24)) = None" unfolding t s(8) by simp
  have ok: "processes_ok s" using s(7,9) by (auto simp: processes_ok_def zero_process_def zero_mutex_def idle_mutex_def)
  have own: "owner_of 0 s = 0x9000" using s(7,9) by (simp add: owner_of_def MAX_PROCS_def zero_process_def)
  have c: "\<not> of_nat MAX_THREADS \<le> thread_count s" using s(4) by (simp add: MAX_THREADS_def)
  obtain u x where u: "thread_create 0xFFFFFFFF80001000 2 0x500000 THREAD_RING_0 THREAD_PRIO_LOW 0 s = ret 0xFFFF800010000018 u"
      "ready_queue u ([0x2000, 0x3000] @ [0xFFFF800010000018])" "next_tid u = next_tid s + 1"
      "threads u 0xFFFF800010000018 = Some (new_thread 0xFFFFFFFF80001000 2 0x500000 (next_tid s) THREAD_PRIO_LOW 0 0x9000 0xFFFF800010000140)"
      "procs u = (procs s)(0x9000 \<mapsto> with_thread 0xFFFF800010000018 x zero_process)"
    using thread_create_ready [OF s(2,3) _ c s(6) ok s(1) f(1) disjI1 [OF f(2)] n, of "0xFFFFFFFF80001000" 2 "0x500000" THREAD_PRIO_LOW 0] s(9)
    unfolding t own by auto
  have "map_option p_main_thread (procs u 0x9000) = Some 0xFFFF800010000018" by (simp add: u(5) with_thread_def zero_process_def)
  then show ?thesis using u(1-4) unfolding s(5) by (intro exI [of _ s] exI [of _ u]) simp
qed

end
