(* ===== verification/Hashtable.thy ===== *)
theory Hashtable
  imports Slab Outcome
begin

text \<open>
  The chained hash table (\<open>klibc/kmem/hashtable.c\<close>).  Entries are objects of a store keyed by the address the slab allocator
  returned for them; an entry holds the bytes its key pointer refers to.  A table is a value with its bucket array; a table
  whose array could not be allocated has none.  Reading outside the array, through a pointer to no entry, or
  reducing modulo a capacity of zero is a \<open>Fault\<close>.
\<close>

section \<open>Structures\<close>

definition FNV1PRIME :: u64 where "FNV1PRIME = 0x100000001b3"
definition FNV1OFFSET :: u64 where "FNV1OFFSET = 0xcbf29ce484222325"

record hash_entry_t =
  he_next :: addr
  he_prev :: addr
  he_hash :: u64
  he_key_size :: u64
  he_key :: addr
  he_bytes :: "u8 list"
  he_value :: addr

record hashtable_t =
  entry_count :: u64
  capacity :: u64
  entries :: addr
  buckets :: "addr list"

definition sizeof_hash_entry :: u64 where "sizeof_hash_entry = 48"

record hash_state = kheap_state +
  hash_entry_cache :: addr
  hash_entries :: "addr \<Rightarrow> hash_entry_t option"

type_synonym ('a, 'r) hash_result = "('a, 'r hash_state_scheme) outcome option"

definition get_he :: "addr \<Rightarrow> 'r hash_state_scheme \<Rightarrow> (hash_entry_t, 'r) hash_result" where
  "get_he p s = (case hash_entries s p of None \<Rightarrow> stop Fault s | Some e \<Rightarrow> ret e s)"

definition put_he :: "addr \<Rightarrow> (hash_entry_t \<Rightarrow> hash_entry_t) \<Rightarrow> 'r hash_state_scheme \<Rightarrow> (unit, 'r) hash_result" where
  "put_he p f s = (case hash_entries s p of
     None \<Rightarrow> stop Fault s
   | Some e \<Rightarrow> ret () (s\<lparr>hash_entries := (hash_entries s)(p \<mapsto> f e)\<rparr>))"

definition get_bucket :: "hashtable_t \<Rightarrow> u64 \<Rightarrow> 'r hash_state_scheme \<Rightarrow> (addr, 'r) hash_result" where
  "get_bucket t i s = (if unat i < length (buckets t) then ret (buckets t ! unat i) s else stop Fault s)"

lemma he_simps [simp]:
  "hash_entries s p = Some e \<Longrightarrow> get_he p s = ret e s"
  "hash_entries s p = Some e \<Longrightarrow> put_he p f s = ret () (s\<lparr>hash_entries := (hash_entries s)(p \<mapsto> f e)\<rparr>)"
  "unat i < length (buckets t) \<Longrightarrow> get_bucket t i s = ret (buckets t ! unat i) s"
  by (simp_all add: get_he_def put_he_def get_bucket_def)

text \<open>\<open>slab_free(hash_entry_cache, entry)\<close> and \<open>kfree\<close>.\<close>

definition free_entry :: "addr \<Rightarrow> 'r hash_state_scheme \<Rightarrow> (unit, 'r) hash_result" where
  "free_entry p s =
     seq (call (map_option (Pair ()) (slab_free no_code (hash_entry_cache s) p s))) (\<lambda>_ s.
       ret () (s\<lparr>hash_entries := (hash_entries s)(p := None)\<rparr>))"

definition free_memory :: "addr \<Rightarrow> 'r hash_state_scheme \<Rightarrow> (unit, 'r) hash_result" where
  "free_memory p s = call (map_option (Pair ()) (kfree p s))"

section \<open>Operations\<close>

fun fnv1a_step :: "u64 \<Rightarrow> u8 list \<Rightarrow> u64" where
  "fnv1a_step h [] = h"
| "fnv1a_step h (b # bs) = fnv1a_step ((h XOR ucast b) * FNV1PRIME) bs"

definition fnv1ahash :: "u8 list \<Rightarrow> u64" where
  "fnv1ahash buffer = fnv1a_step FNV1OFFSET buffer"

definition entry_matches :: "hash_entry_t \<Rightarrow> u8 list \<Rightarrow> u64 \<Rightarrow> bool" where
  "entry_matches e key hash \<longleftrightarrow> he_key_size e = of_nat (length key) \<and> he_hash e = hash \<and> he_bytes e = key"

partial_function (option) search_chain :: "u8 list \<Rightarrow> u64 \<Rightarrow> addr \<Rightarrow> 'r hash_state_scheme \<Rightarrow> (addr, 'r) hash_result" where
  "search_chain key hash entry s =
     (if entry = NULL then ret NULL s
      else seq (get_he entry s) (\<lambda>e s.
        if entry_matches e key hash then ret entry s else search_chain key hash (he_next e) s))"

definition get_entry :: "hashtable_t \<Rightarrow> u8 list \<Rightarrow> u64 \<Rightarrow> 'r hash_state_scheme \<Rightarrow> (addr, 'r) hash_result" where
  "get_entry t key hash s =
     (if capacity t = 0 then stop Fault s
      else seq (get_bucket t (hash mod capacity t) s) (\<lambda>entry s. search_chain key hash entry s))"

text \<open>Filling in a new entry and linking it at the front of its chain.\<close>

definition insert_entry ::
  "hashtable_t \<Rightarrow> addr \<Rightarrow> addr \<Rightarrow> addr \<Rightarrow> u8 list \<Rightarrow> u64 \<Rightarrow> 'r hash_state_scheme \<Rightarrow> (int \<times> hashtable_t, 'r) hash_result" where
  "insert_entry t entry kp value key hash s =
     seq (get_bucket t (hash mod capacity t) s) (\<lambda>nx s.
       let s = s\<lparr>hash_entries := (hash_entries s)(entry \<mapsto>
                  \<lparr>he_next = nx, he_prev = NULL, he_hash = hash, he_key_size = of_nat (length key), he_key = kp,
                   he_bytes = key, he_value = value\<rparr>)\<rparr>
       in seq (if nx \<noteq> NULL then put_he nx (\<lambda>e. e\<lparr>he_prev := entry\<rparr>) s else ret () s) (\<lambda>_ s.
         ret (0, t\<lparr>buckets := (buckets t)[unat (hash mod capacity t) := entry], entry_count := entry_count t + 1\<rparr>) s))"

definition hashtable_set ::
  "hashtable_t \<Rightarrow> addr \<Rightarrow> u8 list \<Rightarrow> 'r hash_state_scheme \<Rightarrow> (int \<times> hashtable_t, 'r) hash_result" where
  "hashtable_set t value key s =
     (let hash = fnv1ahash key in
      seq (get_entry t key hash s) (\<lambda>entry s.
        if entry \<noteq> NULL
        then seq (put_he entry (\<lambda>e. e\<lparr>he_value := value\<rparr>) s) (\<lambda>_ s. ret (0, t) s)
        else seq (call (slab_alloc no_code (hash_entry_cache s) s)) (\<lambda>entry s.
          if entry = NULL then ret (- 1, t) s
          else seq (call (kmalloc (of_nat (length key)) s)) (\<lambda>kp s.
            if kp = NULL then seq (free_entry entry s) (\<lambda>_ s. ret (- 1, t) s)
            else insert_entry t entry kp value key hash s))))"

text \<open>The value is stored through the caller's pointer only when the key is found.\<close>

definition hashtable_get :: "hashtable_t \<Rightarrow> u8 list \<Rightarrow> 'r hash_state_scheme \<Rightarrow> (int \<times> addr option, 'r) hash_result" where
  "hashtable_get t key s =
     seq (get_entry t key (fnv1ahash key) s) (\<lambda>entry s.
       if entry = NULL then ret (- 1, None) s
       else seq (get_he entry s) (\<lambda>e s. ret (0, Some (he_value e)) s))"

definition hashtable_remove :: "hashtable_t \<Rightarrow> u8 list \<Rightarrow> 'r hash_state_scheme \<Rightarrow> (int \<times> hashtable_t, 'r) hash_result" where
  "hashtable_remove t key s =
     (let hash = fnv1ahash key in
      if capacity t = 0 then stop Fault s
      else seq (get_entry t key hash s) (\<lambda>entry s.
        if entry = NULL then ret (- 1, t) s
        else seq (get_he entry s) (\<lambda>e s.
          seq (if he_prev e \<noteq> NULL
               then seq (put_he (he_prev e) (\<lambda>p. p\<lparr>he_next := he_next e\<rparr>) s) (\<lambda>_ s. ret t s)
               else ret (t\<lparr>buckets := (buckets t)[unat (hash mod capacity t) := he_next e]\<rparr>) s) (\<lambda>t s.
            seq (if he_next e \<noteq> NULL then put_he (he_next e) (\<lambda>n. n\<lparr>he_prev := he_prev e\<rparr>) s else ret () s) (\<lambda>_ s.
              seq (free_memory (he_key e) s) (\<lambda>_ s.
                seq (free_entry entry s) (\<lambda>_ s. ret (0, t\<lparr>entry_count := entry_count t - 1\<rparr>) s)))))))"

partial_function (option) free_chain :: "addr \<Rightarrow> 'r hash_state_scheme \<Rightarrow> (unit, 'r) hash_result" where
  "free_chain entry s =
     (if entry = NULL then ret () s
      else seq (get_he entry s) (\<lambda>e s.
        seq (free_memory (he_key e) s) (\<lambda>_ s.
          seq (free_entry entry s) (\<lambda>_ s. free_chain (he_next e) s))))"

fun free_chains :: "addr list \<Rightarrow> 'r hash_state_scheme \<Rightarrow> (unit, 'r) hash_result" where
  "free_chains [] s = ret () s"
| "free_chains (b # bs) s = seq (free_chain b s) (\<lambda>_ s. free_chains bs s)"

definition hashtable_destroy :: "hashtable_t \<Rightarrow> 'r hash_state_scheme \<Rightarrow> (int \<times> hashtable_t, 'r) hash_result" where
  "hashtable_destroy t s =
     (if length (buckets t) < unat (capacity t) then stop Fault s
      else seq (free_chains (take (unat (capacity t)) (buckets t)) s) (\<lambda>_ s.
        seq (free_memory (entries t) s) (\<lambda>_ s.
          ret (0, t\<lparr>entries := NULL, buckets := [], entry_count := 0\<rparr>) s)))"

text \<open>The address of the name literal the cache is created with is not known; nothing reads it.\<close>

definition hashtable_init :: "hashtable_t \<Rightarrow> u64 \<Rightarrow> 'r hash_state_scheme \<Rightarrow> (int \<times> hashtable_t, 'r) hash_result" where
  "hashtable_init t sz s =
     seq (if hash_entry_cache s = NULL
          then seq (call (slab_cache_create 0 sizeof_hash_entry 0 0 0 s)) (\<lambda>c s.
            ret (c \<noteq> NULL) (s\<lparr>hash_entry_cache := c\<rparr>))
          else ret True s) (\<lambda>ok s.
       if \<not> ok then ret (- 1, t) s
       else seq (call (kmalloc (sz * 8) s)) (\<lambda>a s.
         let t = t\<lparr>capacity := sz, entries := a, buckets := []\<rparr> in
         if a = NULL then ret (- 1, t) s
         else ret (0, t\<lparr>buckets := replicate (unat (sz * 8) div 8) NULL, entry_count := 0\<rparr>) s))"

end
