(* ===== verification/Vnode.thy ===== *)
theory Vnode
  imports Hashtable Spinlock Errno
begin

text \<open>
  Vnodes and the vnode cache (\<open>fs/vfs/vnode.c\<close>), with the structures of \<open>vnode.h\<close>, \<open>vfs.h\<close> and \<open>path.h\<close>.  Vnodes and mounted
  file systems are objects of stores keyed by the address the slab allocator returned for them.  The operations of a
  file system, reached through the pointers of \<open>vnodeops_t\<close> and \<open>vfsops_t\<close>, are a parameter: the repository has no file system yet.
  A null function pointer is \<open>None\<close>.
\<close>

section \<open>Structures\<close>

definition NAME_MAX :: nat where "NAME_MAX = 255"
definition VFS_MOUNT_PATH_MAX :: nat where "VFS_MOUNT_PATH_MAX = 256"
definition VFREEING :: u32 where "VFREEING = 0x08"

datatype vtype_t = VNON | VREG | VDIR | VBLK | VCHR | VLNK | VSCK | VBAD

record vnode_t =
  v_flag :: u32
  v_count :: u32
  v_shlockc :: u32
  v_exlockc :: u32
  v_op :: addr
  v_un :: addr
  v_parent :: addr
  v_name :: "u8 list"
  v_vfsp :: addr
  v_type :: vtype_t
  v_data :: addr

text \<open>\<open>memset(vp, 0, sizeof(*vp))\<close>.\<close>

definition zero_vnode :: vnode_t where
  "zero_vnode = \<lparr>v_flag = 0, v_count = 0, v_shlockc = 0, v_exlockc = 0, v_op = NULL, v_un = NULL, v_parent = NULL, v_name = [],
     v_vfsp = NULL, v_type = VNON, v_data = NULL\<rparr>"

record vfs_t =
  vfs_next :: addr
  vfs_op :: addr
  vfs_vnode_covered :: addr
  vfs_flag :: u32
  vfs_bsize :: u64
  vfs_data :: addr
  vfs_mount_path :: "u8 list"

record vfs_manager_t = hash_state +
  mount_table :: hashtable_t
  vnode_table :: hashtable_t
  vnode_table_lock :: spinlock_t
  mount_table_lock :: spinlock_t
  vfs_cache :: addr
  vnode_cache :: addr
  namecache_table :: hashtable_t
  namecache_lock :: spinlock_t
  vnodes :: "addr \<Rightarrow> vnode_t option"
  vfss :: "addr \<Rightarrow> vfs_t option"

type_synonym ('a, 'r) vfs_result = "('a, 'r vfs_manager_t_scheme) outcome option"

text \<open>The functions behind an operations table: the vnode's \<open>vn_inactive\<close>, and the file system's \<open>vfs_mount\<close>, \<open>vfs_unmount\<close>,
  \<open>vfs_root\<close> and \<open>vfs_vget\<close>; the last two may store a vnode through their pointer argument.\<close>

record 's fs_ops =
  vn_inactive :: "addr \<Rightarrow> (addr \<Rightarrow> 's \<Rightarrow> (int, 's) outcome option) option"
  vfs_mount :: "addr \<Rightarrow> (addr \<Rightarrow> addr \<Rightarrow> u8 list \<Rightarrow> int \<Rightarrow> 's \<Rightarrow> (int, 's) outcome option) option"
  vfs_unmount :: "addr \<Rightarrow> (addr \<Rightarrow> int \<Rightarrow> 's \<Rightarrow> (int, 's) outcome option) option"
  vfs_root :: "addr \<Rightarrow> (addr \<Rightarrow> addr \<Rightarrow> 's \<Rightarrow> (int \<times> addr, 's) outcome option) option"
  vfs_vget :: "addr \<Rightarrow> (addr \<Rightarrow> addr \<Rightarrow> u64 \<Rightarrow> 's \<Rightarrow> (int \<times> addr, 's) outcome option) option"

definition get_vnode :: "addr \<Rightarrow> 'r vfs_manager_t_scheme \<Rightarrow> (vnode_t, 'r) vfs_result" where
  "get_vnode p s = (case vnodes s p of None \<Rightarrow> stop Fault s | Some v \<Rightarrow> ret v s)"

definition put_vnode :: "addr \<Rightarrow> (vnode_t \<Rightarrow> vnode_t) \<Rightarrow> 'r vfs_manager_t_scheme \<Rightarrow> (unit, 'r) vfs_result" where
  "put_vnode p f s = (case vnodes s p of
     None \<Rightarrow> stop Fault s
   | Some v \<Rightarrow> ret () (s\<lparr>vnodes := (vnodes s)(p \<mapsto> f v)\<rparr>))"

definition get_vfs :: "addr \<Rightarrow> 'r vfs_manager_t_scheme \<Rightarrow> (vfs_t, 'r) vfs_result" where
  "get_vfs p s = (case vfss s p of None \<Rightarrow> stop Fault s | Some v \<Rightarrow> ret v s)"

definition put_vfs :: "addr \<Rightarrow> (vfs_t \<Rightarrow> vfs_t) \<Rightarrow> 'r vfs_manager_t_scheme \<Rightarrow> (unit, 'r) vfs_result" where
  "put_vfs p f s = (case vfss s p of
     None \<Rightarrow> stop Fault s
   | Some v \<Rightarrow> ret () (s\<lparr>vfss := (vfss s)(p \<mapsto> f v)\<rparr>))"

lemma vnode_simps [simp]:
  "vnodes s p = Some v \<Longrightarrow> get_vnode p s = ret v s"
  "vnodes s p = Some v \<Longrightarrow> put_vnode p f s = ret () (s\<lparr>vnodes := (vnodes s)(p \<mapsto> f v)\<rparr>)"
  "vfss s q = Some w \<Longrightarrow> get_vfs q s = ret w s"
  "vfss s q = Some w \<Longrightarrow> put_vfs q g s = ret () (s\<lparr>vfss := (vfss s)(q \<mapsto> g w)\<rparr>)"
  by (simp_all add: get_vnode_def put_vnode_def get_vfs_def put_vfs_def)

text \<open>A failed \<open>assert\<close> prints and halts.\<close>

definition assertion_failed :: "string \<Rightarrow> string \<Rightarrow> string \<Rightarrow> string \<Rightarrow> 'r vfs_manager_t_scheme \<Rightarrow> ('a, 'r) vfs_result" where
  "assertion_failed expr file line func s =
     stop Halted (disable_interrupt (kerror line (kerror ''Line:'' (kerror file (kerror ''File:'' (kerror func (kerror ''Function:''
       (kerror expr (kerror ''Assertion failed:'' s)))))))))"

section \<open>Locks and keys\<close>

definition vfs_lock_vnode_table :: "'r vfs_manager_t_scheme \<Rightarrow> (unit, 'r) vfs_result" where
  "vfs_lock_vnode_table s = (case spinlock_acquire (vnode_table_lock s) s of
     None \<Rightarrow> stop Deadlock (disable_interrupt (s\<lparr>vnode_table_lock := (vnode_table_lock s)\<lparr>had_interrupt := have_interrupt s\<rparr>\<rparr>))
   | Some (l, s) \<Rightarrow> ret () (s\<lparr>vnode_table_lock := l\<rparr>))"

definition vfs_unlock_vnode_table :: "'r vfs_manager_t_scheme \<Rightarrow> (unit, 'r) vfs_result" where
  "vfs_unlock_vnode_table s = (let (l, s) = spinlock_release (vnode_table_lock s) s in ret () (s\<lparr>vnode_table_lock := l\<rparr>))"

text \<open>The bytes of a 64-bit integer in memory order, and back.\<close>

definition word_bytes :: "u64 \<Rightarrow> u8 list" where
  "word_bytes w = map (\<lambda>i. ucast (drop_bit (8 * i) w)) [0..<8]"

fun bytes_word :: "u8 list \<Rightarrow> u64" where
  "bytes_word [] = 0"
| "bytes_word (b # bs) = ucast b OR push_bit 8 (bytes_word bs)"

definition create_vnode_key :: "addr \<Rightarrow> u64 \<Rightarrow> u8 list" where
  "create_vnode_key vfsp nodeid = word_bytes vfsp @ word_bytes nodeid"

definition vnode_cache_insert_locked :: "addr \<Rightarrow> u64 \<Rightarrow> addr \<Rightarrow> 'r vfs_manager_t_scheme \<Rightarrow> (int, 'r) vfs_result" where
  "vnode_cache_insert_locked vfsp nodeid vp s =
     seq (hashtable_set (vnode_table s) vp (create_vnode_key vfsp nodeid) s) (\<lambda>(r, t) s. ret r (s\<lparr>vnode_table := t\<rparr>))"

text \<open>The second result is what was stored through \<open>out_vp\<close>, if anything.\<close>

definition vnode_cache_lookup_locked :: "addr \<Rightarrow> u64 \<Rightarrow> 'r vfs_manager_t_scheme \<Rightarrow> (int \<times> addr option, 'r) vfs_result" where
  "vnode_cache_lookup_locked vfsp nodeid s = hashtable_get (vnode_table s) (create_vnode_key vfsp nodeid) s"

definition vnode_cache_remove_locked :: "addr \<Rightarrow> u64 \<Rightarrow> 'r vfs_manager_t_scheme \<Rightarrow> (int, 'r) vfs_result" where
  "vnode_cache_remove_locked vfsp nodeid s =
     seq (hashtable_remove (vnode_table s) (create_vnode_key vfsp nodeid) s) (\<lambda>(r, t) s. ret r (s\<lparr>vnode_table := t\<rparr>))"

text \<open>The content of a pointer variable that was \<open>NULL\<close> before a call.\<close>

definition stored :: "addr option \<Rightarrow> addr" where
  "stored v = (case v of None \<Rightarrow> NULL | Some p \<Rightarrow> p)"

section \<open>Reference counts\<close>

definition vnode_ref :: "addr \<Rightarrow> 'r vfs_manager_t_scheme \<Rightarrow> (unit, 'r) vfs_result" where
  "vnode_ref vp s =
     (if vp = NULL then assertion_failed ''vp'' ''src/fs/vfs/vnode.c'' ''48'' ''vnode_ref'' s
      else put_vnode vp (\<lambda>v. v\<lparr>v_count := v_count v + 1\<rparr>) s)"

definition run_inactive :: "'r vfs_manager_t_scheme fs_ops \<Rightarrow> addr \<Rightarrow> 'r vfs_manager_t_scheme \<Rightarrow> (unit, 'r) vfs_result" where
  "run_inactive ops vp s =
     seq (get_vnode vp s) (\<lambda>v s.
       if v_op v = NULL then ret () s
       else (case vn_inactive ops (v_op v) of None \<Rightarrow> ret () s | Some f \<Rightarrow> seq (f vp s) (\<lambda>_ s. ret () s)))"

text \<open>The parts of \<open>vnode_free\<close> around the release of the parent.\<close>

definition free_vnode_data :: "addr \<Rightarrow> 'r vfs_manager_t_scheme \<Rightarrow> (unit, 'r) vfs_result" where
  "free_vnode_data vp s =
     seq (get_vnode vp s) (\<lambda>v s.
       if v_data v = NULL then ret () s
       else seq (free_memory (v_data v) s) (\<lambda>_ s. put_vnode vp (\<lambda>v. v\<lparr>v_data := NULL\<rparr>) s))"

definition free_vnode_object :: "addr \<Rightarrow> 'r vfs_manager_t_scheme \<Rightarrow> (unit, 'r) vfs_result" where
  "free_vnode_object vp s =
     seq (call (map_option (Pair ()) (slab_free no_code (vnode_cache s) vp s))) (\<lambda>_ s. ret () (s\<lparr>vnodes := (vnodes s)(vp := None)\<rparr>))"

text \<open>\<open>vnode_unref\<close> and \<open>vnode_free\<close> call each other; here the body of \<open>vnode_free\<close> is written out in the branch that calls it.\<close>

partial_function (option) vnode_unref ::
  "'r vfs_manager_t_scheme fs_ops \<Rightarrow> addr \<Rightarrow> 'r vfs_manager_t_scheme \<Rightarrow> (unit, 'r) vfs_result" where
  "vnode_unref ops vp s =
     (if vp = NULL then assertion_failed ''vp'' ''src/fs/vfs/vnode.c'' ''54'' ''vnode_unref'' s
      else seq (get_vnode vp s) (\<lambda>v s.
        seq (put_vnode vp (\<lambda>v. v\<lparr>v_count := v_count v - 1\<rparr>) s) (\<lambda>_ s.
          if v_count v = 0 then stop Halted (disable_interrupt (kerror ''Vnode reference count already at 0'' s))
          else if v_count v > 1 then ret () s
          else seq (put_vnode vp (\<lambda>v. v\<lparr>v_flag := v_flag v OR VFREEING\<rparr>) s) (\<lambda>_ s.
            if v_flag v AND VFREEING \<noteq> 0 then ret () s
            else seq (run_inactive ops vp s) (\<lambda>_ s.
              seq (free_vnode_data vp s) (\<lambda>_ s.
                seq (get_vnode vp s) (\<lambda>v s.
                  if v_parent v = NULL then free_vnode_object vp s
                  else seq (vnode_unref ops (v_parent v) s) (\<lambda>_ s.
                    seq (put_vnode vp (\<lambda>v. v\<lparr>v_parent := NULL\<rparr>) s) (\<lambda>_ s. free_vnode_object vp s)))))))))"

definition vnode_free :: "'r vfs_manager_t_scheme fs_ops \<Rightarrow> addr \<Rightarrow> 'r vfs_manager_t_scheme \<Rightarrow> (unit, 'r) vfs_result" where
  "vnode_free ops vp s =
     (if vp = NULL then ret () s
      else seq (free_vnode_data vp s) (\<lambda>_ s.
        seq (get_vnode vp s) (\<lambda>v s.
          if v_parent v = NULL then free_vnode_object vp s
          else seq (vnode_unref ops (v_parent v) s) (\<lambda>_ s.
            seq (put_vnode vp (\<lambda>v. v\<lparr>v_parent := NULL\<rparr>) s) (\<lambda>_ s. free_vnode_object vp s)))))"

section \<open>Vnodes\<close>

definition vnode_clear_parent :: "'r vfs_manager_t_scheme fs_ops \<Rightarrow> addr \<Rightarrow> 'r vfs_manager_t_scheme \<Rightarrow> (unit, 'r) vfs_result" where
  "vnode_clear_parent ops child s =
     (if child = NULL then ret () s
      else seq (get_vnode child s) (\<lambda>v s.
        seq (if v_parent v \<noteq> NULL
             then seq (vnode_unref ops (v_parent v) s) (\<lambda>_ s. put_vnode child (\<lambda>v. v\<lparr>v_parent := NULL\<rparr>) s)
             else ret () s) (\<lambda>_ s.
          put_vnode child (\<lambda>v. v\<lparr>v_name := []\<rparr>) s)))"

definition vnode_set_parent ::
  "'r vfs_manager_t_scheme fs_ops \<Rightarrow> addr \<Rightarrow> addr \<Rightarrow> u8 list option \<Rightarrow> 'r vfs_manager_t_scheme \<Rightarrow> (unit, 'r) vfs_result" where
  "vnode_set_parent ops child parent name s =
     (if child = NULL then ret () s
      else seq (vnode_clear_parent ops child s) (\<lambda>_ s.
        seq (if parent \<noteq> NULL then vnode_ref parent s else ret () s) (\<lambda>_ s.
          seq (put_vnode child (\<lambda>v. v\<lparr>v_parent := parent\<rparr>) s) (\<lambda>_ s.
            put_vnode child (\<lambda>v. v\<lparr>v_name := (case name of None \<Rightarrow> [] | Some n \<Rightarrow> take NAME_MAX n)\<rparr>) s))))"

definition vnode_alloc :: "addr \<Rightarrow> vtype_t \<Rightarrow> 'r vfs_manager_t_scheme \<Rightarrow> (addr, 'r) vfs_result" where
  "vnode_alloc vfsp type s =
     (if vnode_cache s = NULL then assertion_failed ''vfs_manager.vnode_cache'' ''src/fs/vfs/vnode.c'' ''116'' ''vnode_alloc'' s
      else seq (call (slab_alloc no_code (vnode_cache s) s)) (\<lambda>vp s.
        if vp = NULL then ret NULL s
        else ret vp (s\<lparr>vnodes := (vnodes s)(vp \<mapsto> zero_vnode\<lparr>v_vfsp := vfsp, v_type := type, v_count := 1\<rparr>)\<rparr>)))"

section \<open>The vnode cache\<close>

definition vnode_cache_insert :: "addr \<Rightarrow> u64 \<Rightarrow> addr \<Rightarrow> 'r vfs_manager_t_scheme \<Rightarrow> (int, 'r) vfs_result" where
  "vnode_cache_insert vfsp nodeid vp s =
     (if vfsp = NULL \<or> vp = NULL then ret (- EINVAL) s
      else seq (vfs_lock_vnode_table s) (\<lambda>_ s.
        seq (vnode_cache_lookup_locked vfsp nodeid s) (\<lambda>(r, existing) s.
          if r = 0 \<and> stored existing \<noteq> NULL then seq (vfs_unlock_vnode_table s) (\<lambda>_ s. ret (- EEXIST) s)
          else seq (vnode_cache_insert_locked vfsp nodeid vp s) (\<lambda>r s.
            seq (vfs_unlock_vnode_table s) (\<lambda>_ s. ret r s)))))"

text \<open>The argument \<open>out\<close> says whether \<open>out_vp\<close> is a pointer at all; nothing is ever stored through it.\<close>

definition vnode_cache_lookup :: "addr \<Rightarrow> u64 \<Rightarrow> bool \<Rightarrow> 'r vfs_manager_t_scheme \<Rightarrow> (int, 'r) vfs_result" where
  "vnode_cache_lookup vfsp nodeid out s =
     (if vfsp = NULL \<or> \<not> out then ret (- EINVAL) s
      else seq (vfs_lock_vnode_table s) (\<lambda>_ s.
        seq (vnode_cache_lookup_locked vfsp nodeid s) (\<lambda>(r, vp) s.
          if r \<noteq> 0 \<or> stored vp = NULL then seq (vfs_unlock_vnode_table s) (\<lambda>_ s. ret (- ENOENT) s)
          else seq (vnode_ref (stored vp) s) (\<lambda>_ s.
            seq (vfs_unlock_vnode_table s) (\<lambda>_ s. ret 0 s)))))"

definition vnode_cache_remove :: "addr \<Rightarrow> u64 \<Rightarrow> 'r vfs_manager_t_scheme \<Rightarrow> (int, 'r) vfs_result" where
  "vnode_cache_remove vfsp nodeid s =
     (if vfsp = NULL then ret (- EINVAL) s
      else seq (vfs_lock_vnode_table s) (\<lambda>_ s.
        seq (vnode_cache_remove_locked vfsp nodeid s) (\<lambda>r s.
          seq (vfs_unlock_vnode_table s) (\<lambda>_ s. ret r s))))"

text \<open>The result is the code and what was stored through \<open>out\<close>.\<close>

definition vnode_get ::
  "'r vfs_manager_t_scheme fs_ops \<Rightarrow> addr \<Rightarrow> bool \<Rightarrow> u64 \<Rightarrow> 'r vfs_manager_t_scheme \<Rightarrow> (int \<times> addr option, 'r) vfs_result" where
  "vnode_get ops vfsp out nodeid s =
     (if vfsp = NULL \<or> \<not> out then ret (- EINVAL, None) s
      else seq (vnode_cache_lookup vfsp nodeid True s) (\<lambda>r s.
        if r = 0 then ret (r, Some NULL) s
        else seq (get_vfs vfsp s) (\<lambda>f s.
          if vfs_op f = NULL then ret (- ENOSYS, None) s
          else (case vfs_vget ops (vfs_op f) of
            None \<Rightarrow> ret (- ENOSYS, None) s
          | Some vget \<Rightarrow> seq (vget vfsp NULL nodeid s) (\<lambda>(r, vp) s.
              if r \<noteq> 0 then ret (r, None) s
              else if vp = NULL then ret (- EIO, None) s
              else seq (put_vnode vp (\<lambda>v. v\<lparr>v_vfsp := vfsp\<rparr>) s) (\<lambda>_ s.
                seq (vfs_lock_vnode_table s) (\<lambda>_ s.
                  seq (vnode_cache_lookup_locked vfsp nodeid s) (\<lambda>(r, existing) s.
                    if r = 0 \<and> stored existing \<noteq> NULL
                    then seq (vnode_ref (stored existing) s) (\<lambda>_ s.
                      seq (vfs_unlock_vnode_table s) (\<lambda>_ s.
                        seq (vnode_unref ops vp s) (\<lambda>_ s. ret (0, Some (stored existing)) s)))
                    else seq (vnode_cache_insert_locked vfsp nodeid vp s) (\<lambda>_ s.
                      seq (vfs_unlock_vnode_table s) (\<lambda>_ s. ret (0, Some vp) s))))))))))"

definition vnode_put :: "'r vfs_manager_t_scheme fs_ops \<Rightarrow> addr \<Rightarrow> 'r vfs_manager_t_scheme \<Rightarrow> (unit, 'r) vfs_result" where
  "vnode_put ops vp s = (if vp = NULL then ret () s else vnode_unref ops vp s)"

text \<open>The node numbers in the table that belong to a file system, in table order.  A key of less than sixteen bytes is none of a
  vnode.\<close>

partial_function (option) chain_nodeids :: "addr \<Rightarrow> addr \<Rightarrow> 'r vfs_manager_t_scheme \<Rightarrow> (u64 list, 'r) vfs_result" where
  "chain_nodeids vfsp entry s =
     (if entry = NULL then ret [] s
      else seq (get_he entry s) (\<lambda>e s.
        if length (he_bytes e) < 16 then stop Fault s
        else seq (chain_nodeids vfsp (he_next e) s) (\<lambda>ns s.
          ret (if bytes_word (take 8 (he_bytes e)) = vfsp then bytes_word (take 8 (drop 8 (he_bytes e))) # ns else ns) s)))"

fun table_nodeids :: "addr \<Rightarrow> addr list \<Rightarrow> 'r vfs_manager_t_scheme \<Rightarrow> (u64 list, 'r) vfs_result" where
  "table_nodeids vfsp [] s = ret [] s"
| "table_nodeids vfsp (b # bs) s = seq (chain_nodeids vfsp b s) (\<lambda>ns s. seq (table_nodeids vfsp bs s) (\<lambda>ms s. ret (ns @ ms) s))"

text \<open>Both passes over the table take the lock around the loop.\<close>

definition scan_vnode_table :: "addr \<Rightarrow> u64 \<Rightarrow> 'r vfs_manager_t_scheme \<Rightarrow> (u64 list, 'r) vfs_result" where
  "scan_vnode_table vfsp cap s =
     seq (vfs_lock_vnode_table s) (\<lambda>_ s.
       if length (buckets (vnode_table s)) < unat cap then stop Fault s
       else seq (table_nodeids vfsp (take (unat cap) (buckets (vnode_table s))) s) (\<lambda>ns s.
         seq (vfs_unlock_vnode_table s) (\<lambda>_ s. ret ns s)))"

definition purge_vnode :: "'r vfs_manager_t_scheme fs_ops \<Rightarrow> addr \<Rightarrow> u64 \<Rightarrow> 'r vfs_manager_t_scheme \<Rightarrow> (unit, 'r) vfs_result" where
  "purge_vnode ops vfsp nodeid s =
     seq (vfs_lock_vnode_table s) (\<lambda>_ s.
       seq (vnode_cache_lookup_locked vfsp nodeid s) (\<lambda>(r, vp) s.
         seq (vnode_cache_remove_locked vfsp nodeid s) (\<lambda>rem s.
           seq (vfs_unlock_vnode_table s) (\<lambda>_ s.
             if r = 0 \<and> stored vp \<noteq> NULL \<and> rem = 0 then vnode_unref ops (stored vp) s else ret () s))))"

fun purge_nodeids :: "'r vfs_manager_t_scheme fs_ops \<Rightarrow> addr \<Rightarrow> u64 list \<Rightarrow> 'r vfs_manager_t_scheme \<Rightarrow> (unit, 'r) vfs_result" where
  "purge_nodeids ops vfsp [] s = ret () s"
| "purge_nodeids ops vfsp (n # ns) s = seq (purge_vnode ops vfsp n s) (\<lambda>_ s. purge_nodeids ops vfsp ns s)"

definition vfs_purge_vnodes :: "'r vfs_manager_t_scheme fs_ops \<Rightarrow> addr \<Rightarrow> 'r vfs_manager_t_scheme \<Rightarrow> (unit, 'r) vfs_result" where
  "vfs_purge_vnodes ops vfsp s =
     (if vfsp = NULL then ret () s
      else let cap = capacity (vnode_table s) in
        seq (scan_vnode_table vfsp cap s) (\<lambda>found s.
          if found = [] then ret () s
          else seq (call (kmalloc (8 * of_nat (length found)) s)) (\<lambda>nodeids s.
            if nodeids = NULL then ret () s
            else seq (scan_vnode_table vfsp cap s) (\<lambda>ns s.
              seq (purge_nodeids ops vfsp ns s) (\<lambda>_ s. free_memory nodeids s)))))"

end
