(* ===== verification/Vfs.thy ===== *)
theory Vfs
  imports Vnode
begin

text \<open>
  Mounted file systems (\<open>fs/vfs/vfs.c\<close>) and the name cache of path resolution (\<open>fs/vfs/path.c\<close>).  A string argument is the list of
  its bytes without the terminator, or \<open>None\<close> for a null pointer.
\<close>

section \<open>Mount table\<close>

definition vfs_lock_mount_table :: "'r vfs_manager_t_scheme \<Rightarrow> (unit, 'r) vfs_result" where
  "vfs_lock_mount_table s = (case spinlock_acquire (mount_table_lock s) s of
     None \<Rightarrow> stop Deadlock (disable_interrupt (s\<lparr>mount_table_lock := (mount_table_lock s)\<lparr>had_interrupt := have_interrupt s\<rparr>\<rparr>))
   | Some (l, s) \<Rightarrow> ret () (s\<lparr>mount_table_lock := l\<rparr>))"

definition vfs_unlock_mount_table :: "'r vfs_manager_t_scheme \<Rightarrow> (unit, 'r) vfs_result" where
  "vfs_unlock_mount_table s = (let (l, s) = spinlock_release (mount_table_lock s) s in ret () (s\<lparr>mount_table_lock := l\<rparr>))"

partial_function (option) for_chain ::
  "(addr \<Rightarrow> 'r vfs_manager_t_scheme \<Rightarrow> (unit, 'r) vfs_result) \<Rightarrow> addr \<Rightarrow> 'r vfs_manager_t_scheme \<Rightarrow> (unit, 'r) vfs_result" where
  "for_chain call_back entry s =
     (if entry = NULL then ret () s
      else seq (get_he entry s) (\<lambda>e s.
        seq (call_back (he_value e) s) (\<lambda>_ s.
          seq (get_he entry s) (\<lambda>e s. for_chain call_back (he_next e) s))))"

text \<open>The loop reads the capacity and the array of the table anew in every round, since the call back may change them.\<close>

partial_function (option) for_buckets ::
  "(addr \<Rightarrow> 'r vfs_manager_t_scheme \<Rightarrow> (unit, 'r) vfs_result) \<Rightarrow> u64 \<Rightarrow> 'r vfs_manager_t_scheme \<Rightarrow> (unit, 'r) vfs_result" where
  "for_buckets call_back i s =
     (if i < capacity (mount_table s)
      then seq (get_bucket (mount_table s) i s) (\<lambda>b s.
        seq (for_chain call_back b s) (\<lambda>_ s. for_buckets call_back (i + 1) s))
      else ret () s)"

definition vfs_for_each ::
  "(addr \<Rightarrow> 'r vfs_manager_t_scheme \<Rightarrow> (unit, 'r) vfs_result) option \<Rightarrow> 'r vfs_manager_t_scheme \<Rightarrow> (unit, 'r) vfs_result" where
  "vfs_for_each call_back s = (case call_back of
     None \<Rightarrow> ret () s
   | Some f \<Rightarrow> seq (vfs_lock_mount_table s) (\<lambda>_ s. seq (for_buckets f 0 s) (\<lambda>_ s. vfs_unlock_mount_table s)))"

text \<open>The argument and second result: what the pointer \<open>root\<close> refers to, if it is not null.\<close>

definition vfs_root_vnode ::
  "'r vfs_manager_t_scheme fs_ops \<Rightarrow> addr \<Rightarrow> addr option \<Rightarrow> 'r vfs_manager_t_scheme \<Rightarrow> (int \<times> addr option, 'r) vfs_result" where
  "vfs_root_vnode ops vfsp root s =
     (if vfsp = NULL then ret (- EINVAL, root) s
      else seq (get_vfs vfsp s) (\<lambda>f s.
        if vfs_op f = NULL then ret (- EINVAL, root) s
        else (case (vfs_root ops (vfs_op f), root) of
          (Some get_root, Some r0) \<Rightarrow> seq (get_root vfsp r0 s) (\<lambda>(r, p) s.
            if r = 0 \<and> p \<noteq> NULL then seq (vnode_ref p s) (\<lambda>_ s. ret (r, Some p) s) else ret (r, Some p) s)
        | _ \<Rightarrow> ret (- EINVAL, root) s)))"

definition vfs_from_vnode :: "addr \<Rightarrow> 'r vfs_manager_t_scheme \<Rightarrow> (addr, 'r) vfs_result" where
  "vfs_from_vnode vp s = (if vp = NULL then ret NULL s else seq (get_vnode vp s) (\<lambda>v s. ret (v_vfsp v) s))"

definition vfs_from_path :: "u8 list option \<Rightarrow> 'r vfs_manager_t_scheme \<Rightarrow> (addr, 'r) vfs_result" where
  "vfs_from_path path s = (case path of
     None \<Rightarrow> ret NULL s
   | Some p \<Rightarrow> seq (vfs_lock_mount_table s) (\<lambda>_ s.
       seq (hashtable_get (mount_table s) (p @ [0]) s) (\<lambda>(_, vfsp) s.
         seq (vfs_unlock_mount_table s) (\<lambda>_ s. ret (stored vfsp) s))))"

partial_function (option) find_covering :: "addr \<Rightarrow> addr \<Rightarrow> 'r vfs_manager_t_scheme \<Rightarrow> (addr, 'r) vfs_result" where
  "find_covering vp entry s =
     (if entry = NULL then ret NULL s
      else seq (get_he entry s) (\<lambda>e s.
        if he_value e = NULL then find_covering vp (he_next e) s
        else seq (get_vfs (he_value e) s) (\<lambda>f s.
          if vfs_vnode_covered f = vp then ret (he_value e) s else find_covering vp (he_next e) s)))"

fun find_covering_all :: "addr \<Rightarrow> addr list \<Rightarrow> 'r vfs_manager_t_scheme \<Rightarrow> (addr, 'r) vfs_result" where
  "find_covering_all vp [] s = ret NULL s"
| "find_covering_all vp (b # bs) s = seq (find_covering vp b s) (\<lambda>p s. if p \<noteq> NULL then ret p s else find_covering_all vp bs s)"

definition vfs_find_mounted_on_vnode :: "addr \<Rightarrow> 'r vfs_manager_t_scheme \<Rightarrow> (addr, 'r) vfs_result" where
  "vfs_find_mounted_on_vnode vp s =
     (if vp = NULL then ret NULL s
      else seq (vfs_lock_mount_table s) (\<lambda>_ s.
        if length (buckets (mount_table s)) < unat (capacity (mount_table s)) then stop Fault s
        else seq (find_covering_all vp (take (unat (capacity (mount_table s))) (buckets (mount_table s))) s) (\<lambda>p s.
          seq (vfs_unlock_mount_table s) (\<lambda>_ s. ret p s))))"

text \<open>\<open>strlcpy\<close> into the 256 bytes of \<open>vfs_mount_path\<close>.\<close>

definition vfs_mount_fs ::
  "'r vfs_manager_t_scheme fs_ops \<Rightarrow> addr \<Rightarrow> addr \<Rightarrow> u8 list option \<Rightarrow> int \<Rightarrow> 'r vfs_manager_t_scheme \<Rightarrow> (int, 'r) vfs_result" where
  "vfs_mount_fs ops vfsp covered path flags s =
     (if vfsp = NULL then ret (- EINVAL) s
      else seq (get_vfs vfsp s) (\<lambda>f s.
        if vfs_op f = NULL then ret (- EINVAL) s
        else (case (vfs_mount ops (vfs_op f), path) of
          (Some mount, Some p) \<Rightarrow>
            seq (put_vfs vfsp (\<lambda>f. f\<lparr>vfs_vnode_covered := covered, vfs_flag := word_of_int flags, vfs_next := NULL\<rparr>) s) (\<lambda>_ s.
              seq (if covered \<noteq> NULL then vnode_ref covered s else ret () s) (\<lambda>_ s.
                seq (mount vfsp covered p flags s) (\<lambda>r s.
                  if r \<noteq> 0
                  then seq (if covered \<noteq> NULL then vnode_unref ops covered s else ret () s) (\<lambda>_ s. ret r s)
                  else seq (put_vfs vfsp (\<lambda>f. f\<lparr>vfs_mount_path := take (VFS_MOUNT_PATH_MAX - 1) p\<rparr>) s) (\<lambda>_ s.
                    seq (vfs_lock_mount_table s) (\<lambda>_ s.
                      seq (hashtable_set (mount_table s) vfsp (take (VFS_MOUNT_PATH_MAX - 1) p @ [0]) s) (\<lambda>(_, t) s.
                        seq (vfs_unlock_mount_table (s\<lparr>mount_table := t\<rparr>)) (\<lambda>_ s. ret 0 s)))))))
        | _ \<Rightarrow> ret (- EINVAL) s)))"

definition vfs_unmount_fs ::
  "'r vfs_manager_t_scheme fs_ops \<Rightarrow> addr \<Rightarrow> int \<Rightarrow> 'r vfs_manager_t_scheme \<Rightarrow> (int, 'r) vfs_result" where
  "vfs_unmount_fs ops vfsp flags s =
     (if vfsp = NULL then ret (- EINVAL) s
      else seq (get_vfs vfsp s) (\<lambda>f s.
        if vfs_op f = NULL then ret (- EINVAL) s
        else (case vfs_unmount ops (vfs_op f) of
          None \<Rightarrow> ret (- EINVAL) s
        | Some unmount \<Rightarrow> seq (vfs_lock_mount_table s) (\<lambda>_ s.
            seq (unmount vfsp flags s) (\<lambda>r s.
              if r \<noteq> 0 then seq (vfs_unlock_mount_table s) (\<lambda>_ s. ret r s)
              else seq (get_vfs vfsp s) (\<lambda>f s.
                seq (hashtable_remove (mount_table s) (vfs_mount_path f @ [0]) s) (\<lambda>(_, t) s.
                  let s = s\<lparr>mount_table := t\<rparr> in
                  seq (if vfs_vnode_covered f \<noteq> NULL then vnode_unref ops (vfs_vnode_covered f) s else ret () s) (\<lambda>_ s.
                    seq (vfs_unlock_mount_table s) (\<lambda>_ s.
                      seq (vfs_purge_vnodes ops vfsp s) (\<lambda>_ s.
                        seq (call (map_option (Pair ()) (slab_free no_code (vfs_cache s) vfsp s))) (\<lambda>_ s.
                          ret 0 (s\<lparr>vfss := (vfss s)(vfsp := None)\<rparr>))))))))))))"

definition sizeof_vfs :: u64 where "sizeof_vfs = 304"
definition sizeof_vnode :: u64 where "sizeof_vnode = 320"

text \<open>The results of the initialisations are not checked.  The address of the name a cache is created with is not known; nothing
  reads it.\<close>

definition init_vfs :: "'r vfs_manager_t_scheme \<Rightarrow> (unit, 'r) vfs_result" where
  "init_vfs s =
     (let s = kprint ''VFS...'' s;
          s = s\<lparr>vnode_table_lock := spinlock_init (vnode_table_lock s), mount_table_lock := spinlock_init (mount_table_lock s)\<rparr>
      in seq (hashtable_init (mount_table s) 128 s) (\<lambda>(_, t) s.
        let s = s\<lparr>mount_table := t\<rparr> in
        seq (hashtable_init (vnode_table s) 256 s) (\<lambda>(_, t) s.
          let s = s\<lparr>vnode_table := t\<rparr> in
          seq (call (slab_cache_create 0 sizeof_vfs 0 0 0 s)) (\<lambda>c s.
            let s = s\<lparr>vfs_cache := c\<rparr> in
            seq (call (slab_cache_create 0 sizeof_vnode 0 0 0 s)) (\<lambda>c s. ret () (kok (s\<lparr>vnode_cache := c\<rparr>)))))))"

end
