(* ===== verification/Path.thy ===== *)
theory Path
  imports Vfs
begin

text \<open>
  The name cache of path resolution (\<open>fs/vfs/path.c\<close>).  A key is a structure on the stack that \<open>strlcpy\<close> fills only up to the end
  of the name: the bytes behind the terminator are whatever the stack held.  They are an argument here, and part of the key.
\<close>

definition make_namecache_key :: "u8 list \<Rightarrow> addr \<Rightarrow> u8 list \<Rightarrow> u8 list" where
  "make_namecache_key stack dvp name =
     (let n = take NAME_MAX name in word_bytes dvp @ n @ [0] @ take (NAME_MAX - length n) (drop (Suc (length n)) stack))"

text \<open>The condition of the source is a disjunction: it holds as soon as the first pointer is not null, and reads through the null
  pointer otherwise; the function behind the table is then called without a test.\<close>

definition namei_get_root_vnode :: "'r vfs_manager_t_scheme fs_ops \<Rightarrow> 'r vfs_manager_t_scheme \<Rightarrow> (addr, 'r) vfs_result" where
  "namei_get_root_vnode ops s =
     seq (vfs_from_path (Some [47]) s) (\<lambda>vfsp s.
       if vfsp = NULL then stop Fault s
       else seq (get_vfs vfsp s) (\<lambda>f s.
         if vfs_op f = NULL then stop Fault s
         else (case vfs_root ops (vfs_op f) of
           None \<Rightarrow> stop Fault s
         | Some get_root \<Rightarrow> seq (get_root vfsp NULL s) (\<lambda>(r, root) s.
             if r = 0 \<and> root \<noteq> NULL then seq (vnode_ref root s) (\<lambda>_ s. ret root s) else ret NULL s))))"

definition lock_namecache :: "'r vfs_manager_t_scheme \<Rightarrow> (unit, 'r) vfs_result" where
  "lock_namecache s = (case spinlock_acquire (namecache_lock s) s of
     None \<Rightarrow> stop Deadlock (disable_interrupt (s\<lparr>namecache_lock := (namecache_lock s)\<lparr>had_interrupt := have_interrupt s\<rparr>\<rparr>))
   | Some (l, s) \<Rightarrow> ret () (s\<lparr>namecache_lock := l\<rparr>))"

definition unlock_namecache :: "'r vfs_manager_t_scheme \<Rightarrow> (unit, 'r) vfs_result" where
  "unlock_namecache s = (let (l, s) = spinlock_release (namecache_lock s) s in ret () (s\<lparr>namecache_lock := l\<rparr>))"

definition namecache_lookup ::
  "u8 list \<Rightarrow> addr \<Rightarrow> u8 list option \<Rightarrow> bool \<Rightarrow> 'r vfs_manager_t_scheme \<Rightarrow> (int \<times> addr option, 'r) vfs_result" where
  "namecache_lookup stack dvp name out s = (case name of
     None \<Rightarrow> ret (- EINVAL, None) s
   | Some n \<Rightarrow>
       if dvp = NULL \<or> \<not> out then ret (- EINVAL, None) s
       else seq (lock_namecache s) (\<lambda>_ s.
         seq (hashtable_get (namecache_table s) (make_namecache_key stack dvp n) s) (\<lambda>(status, vp) s.
           if status \<noteq> 0 \<or> stored vp = NULL then seq (unlock_namecache s) (\<lambda>_ s. ret (- ENOENT, None) s)
           else seq (vnode_ref (stored vp) s) (\<lambda>_ s. seq (unlock_namecache s) (\<lambda>_ s. ret (0, Some (stored vp)) s)))))"

definition namecache_enter ::
  "'r vfs_manager_t_scheme fs_ops \<Rightarrow> u8 list \<Rightarrow> addr \<Rightarrow> u8 list option \<Rightarrow> addr \<Rightarrow> 'r vfs_manager_t_scheme \<Rightarrow> (int, 'r) vfs_result" where
  "namecache_enter ops stack dvp name vp s = (case name of
     None \<Rightarrow> ret (- EINVAL) s
   | Some n \<Rightarrow>
       if dvp = NULL \<or> vp = NULL then ret (- EINVAL) s
       else seq (vnode_ref vp s) (\<lambda>_ s.
         seq (lock_namecache s) (\<lambda>_ s.
           seq (hashtable_set (namecache_table s) vp (make_namecache_key stack dvp n) s) (\<lambda>(status, t) s.
             seq (unlock_namecache (s\<lparr>namecache_table := t\<rparr>)) (\<lambda>_ s.
               if status \<noteq> 0 then seq (vnode_unref ops vp s) (\<lambda>_ s. ret status s) else ret 0 s)))))"

definition namecache_remove_locked ::
  "'r vfs_manager_t_scheme fs_ops \<Rightarrow> u8 list \<Rightarrow> 'r vfs_manager_t_scheme \<Rightarrow> (unit, 'r) vfs_result" where
  "namecache_remove_locked ops key s =
     seq (hashtable_get (namecache_table s) key s) (\<lambda>(status, vp) s.
       seq (if status = 0 \<and> stored vp \<noteq> NULL then vnode_unref ops (stored vp) s else ret () s) (\<lambda>_ s.
         seq (hashtable_remove (namecache_table s) key s) (\<lambda>(_, t) s. ret () (s\<lparr>namecache_table := t\<rparr>))))"

definition namecache_remove ::
  "'r vfs_manager_t_scheme fs_ops \<Rightarrow> u8 list \<Rightarrow> addr \<Rightarrow> u8 list option \<Rightarrow> 'r vfs_manager_t_scheme \<Rightarrow> (unit, 'r) vfs_result" where
  "namecache_remove ops stack dvp name s = (case name of
     None \<Rightarrow> ret () s
   | Some n \<Rightarrow>
       if dvp = NULL then ret () s
       else seq (lock_namecache s) (\<lambda>_ s.
         seq (namecache_remove_locked ops (make_namecache_key stack dvp n) s) (\<lambda>_ s. unlock_namecache s)))"

text \<open>A chain is searched from its start again after each removal.\<close>

partial_function (option) purge_chain ::
  "'r vfs_manager_t_scheme fs_ops \<Rightarrow> addr \<Rightarrow> u64 \<Rightarrow> addr \<Rightarrow> 'r vfs_manager_t_scheme \<Rightarrow> (unit, 'r) vfs_result" where
  "purge_chain ops vp i entry s =
     (if entry = NULL then ret () s
      else seq (get_he entry s) (\<lambda>e s.
        if he_value e = vp
        then seq (namecache_remove_locked ops (he_bytes e) s) (\<lambda>_ s.
          seq (get_bucket (namecache_table s) i s) (\<lambda>b s. purge_chain ops vp i b s))
        else purge_chain ops vp i (he_next e) s))"

partial_function (option) purge_buckets ::
  "'r vfs_manager_t_scheme fs_ops \<Rightarrow> addr \<Rightarrow> u64 \<Rightarrow> 'r vfs_manager_t_scheme \<Rightarrow> (unit, 'r) vfs_result" where
  "purge_buckets ops vp i s =
     (if i < capacity (namecache_table s)
      then seq (get_bucket (namecache_table s) i s) (\<lambda>b s.
        seq (purge_chain ops vp i b s) (\<lambda>_ s. purge_buckets ops vp (i + 1) s))
      else ret () s)"

text \<open>The source misspells the name of this function where it defines it.\<close>

definition namecache_purge_vnode_locked ::
  "'r vfs_manager_t_scheme fs_ops \<Rightarrow> addr \<Rightarrow> 'r vfs_manager_t_scheme \<Rightarrow> (unit, 'r) vfs_result" where
  "namecache_purge_vnode_locked ops vp s = (if vp = NULL then ret () s else purge_buckets ops vp 0 s)"

definition namecache_purge_vnode :: "'r vfs_manager_t_scheme fs_ops \<Rightarrow> addr \<Rightarrow> 'r vfs_manager_t_scheme \<Rightarrow> (unit, 'r) vfs_result" where
  "namecache_purge_vnode ops vp s =
     (if vp = NULL then ret () s
      else seq (lock_namecache s) (\<lambda>_ s.
        seq (namecache_purge_vnode_locked ops vp s) (\<lambda>_ s. unlock_namecache s)))"

definition namei_init :: "'r vfs_manager_t_scheme \<Rightarrow> (unit, 'r) vfs_result" where
  "namei_init s =
     (let s = s\<lparr>namecache_lock := spinlock_init (namecache_lock s)\<rparr>
      in seq (hashtable_init (namecache_table s) 2048 s) (\<lambda>(_, t) s. ret () (s\<lparr>namecache_table := t\<rparr>)))"

end
