(* ===== verification/Key_Store.thy ===== *)
theory Key_Store
  imports Outcome
begin

text \<open>
  The contract of a key-value store kept in a mutable state: \<open>repr t s m\<close> says that the handle \<open>t\<close> and the state \<open>s\<close>
  represent the finite map \<open>m\<close>; \<open>room\<close> and \<open>returnable\<close> say that the memory allocators can serve an insertion or a
  removal.  The hash table provides it.
\<close>

locale key_store =
  fixes repr :: "'t \<Rightarrow> 's \<Rightarrow> ('k \<Rightarrow> 'v option) \<Rightarrow> bool"
    and room :: "'k \<Rightarrow> 's \<Rightarrow> bool"
    and returnable :: "'t \<Rightarrow> 'k \<Rightarrow> 's \<Rightarrow> bool"
    and put :: "'t \<Rightarrow> 'v \<Rightarrow> 'k \<Rightarrow> 's \<Rightarrow> (int \<times> 't, 's) outcome option"
    and get :: "'t \<Rightarrow> 'k \<Rightarrow> 's \<Rightarrow> (int \<times> 'v option, 's) outcome option"
    and remove :: "'t \<Rightarrow> 'k \<Rightarrow> 's \<Rightarrow> (int \<times> 't, 's) outcome option"
  assumes put_repr: "repr t s m \<Longrightarrow> (m k = None \<Longrightarrow> room k s) \<Longrightarrow> \<exists>t' u. put t v k s = ret (0, t') u \<and> repr t' u (m(k \<mapsto> v))"
    and get_repr: "repr t s m \<Longrightarrow> get t k s = ret (if m k = None then - 1 else 0, m k) s"
    and remove_repr: "repr t s m \<Longrightarrow> (m k \<noteq> None \<Longrightarrow> returnable t k s) \<Longrightarrow>
      \<exists>t' u. remove t k s = ret (if m k = None then - 1 else 0, t') u \<and> repr t' u (m(k := None))"
begin

lemma get_after_put:
  assumes "repr t s m" "m k = None \<Longrightarrow> room k s"
  shows "\<exists>t' u. put t v k s = ret (0, t') u \<and> repr t' u (m(k \<mapsto> v)) \<and> get t' k u = ret (0, Some v) u \<and>
    (\<forall>j. j \<noteq> k \<longrightarrow> get t' j u = ret (if m j = None then - 1 else 0, m j) u)"
  using put_repr [OF assms, of v] get_repr by fastforce

lemma get_after_remove:
  assumes "repr t s m" "m k \<noteq> None \<Longrightarrow> returnable t k s"
  shows "\<exists>t' u. remove t k s = ret (if m k = None then - 1 else 0, t') u \<and> repr t' u (m(k := None)) \<and>
    get t' k u = ret (- 1, None) u \<and> (\<forall>j. j \<noteq> k \<longrightarrow> get t' j u = ret (if m j = None then - 1 else 0, m j) u)"
  using remove_repr [OF assms] get_repr by fastforce

end

end
