(* ===== verification/Hash_Props.thy ===== *)
theory Hash_Props
  imports Hashtable Key_Store Kheap_Zero
begin

text \<open>
  The hash table implements a finite map from the bytes of the keys to values.  A bucket is described by the list of its
  entries, each with address, key and value; the list is doubly linked in the store.
\<close>

section \<open>Chains\<close>

type_synonym hash_item = "addr \<times> u8 list \<times> addr"

abbreviation item_addr :: "hash_item \<Rightarrow> addr" where "item_addr \<equiv> fst"
abbreviation item_key :: "hash_item \<Rightarrow> u8 list" where "item_key x \<equiv> fst (snd x)"
abbreviation item_value :: "hash_item \<Rightarrow> addr" where "item_value x \<equiv> snd (snd x)"

definition entry_is :: "hash_entry_t \<Rightarrow> u8 list \<Rightarrow> addr \<Rightarrow> bool" where
  "entry_is e k v \<longleftrightarrow> he_bytes e = k \<and> he_value e = v \<and> he_hash e = fnv1ahash k \<and> he_key_size e = of_nat (length k)"

text \<open>\<open>seg H pr p xs l n\<close>: from \<open>p\<close> the store \<open>H\<close> links the entries \<open>xs\<close>; the first points back to \<open>pr\<close>, the last, at
  \<open>l\<close>, points on to \<open>n\<close>.\<close>

fun seg :: "(addr \<Rightarrow> hash_entry_t option) \<Rightarrow> addr \<Rightarrow> addr \<Rightarrow> hash_item list \<Rightarrow> addr \<Rightarrow> addr \<Rightarrow> bool" where
  "seg H pr p [] l n \<longleftrightarrow> p = n \<and> l = pr"
| "seg H pr p ((q, k, v) # xs) l n \<longleftrightarrow>
     p = q \<and> q \<noteq> NULL \<and> (\<exists>e. H q = Some e \<and> he_prev e = pr \<and> entry_is e k v \<and> seg H q (he_next e) xs l n)"

lemma seg_append: "seg H pr p (xs @ ys) l n \<longleftrightarrow> (\<exists>m r. seg H pr p xs m r \<and> seg H m r ys l n)"
  by (induction xs arbitrary: pr p) (auto; blast)+

lemma seg_cong: "\<forall>a\<in>item_addr ` set xs. H' a = H a \<Longrightarrow> seg H' pr p xs l n = seg H pr p xs l n"
  by (induction xs arbitrary: pr p) auto

lemma seg_frame [simp]: "q \<notin> item_addr ` set xs \<Longrightarrow> seg (H(q := x)) pr p xs l n = seg H pr p xs l n"
  by (induction xs arbitrary: pr p) auto

lemma seg_stored: "seg H pr p xs l n \<Longrightarrow> a \<in> item_addr ` set xs \<Longrightarrow> H a \<noteq> None \<and> a \<noteq> NULL"
  by (induction xs arbitrary: pr p) (auto; force)+

lemma seg_last: "seg H pr p xs l n \<Longrightarrow> xs \<noteq> [] \<Longrightarrow> l = item_addr (last xs) \<and> l \<in> item_addr ` set xs"
  by (induction xs arbitrary: pr p) (auto split: if_splits; force)+

lemma seg_first: "seg H pr p xs l n \<Longrightarrow> xs \<noteq> [] \<Longrightarrow> p = item_addr (hd xs) \<and> p \<in> item_addr ` set xs"
  by (cases xs) auto

text \<open>Redirecting the first entry's back pointer, the last entry's forward pointer, and storing a value.\<close>

lemma seg_set_prev:
  assumes "seg H pr p xs l n" "xs \<noteq> []" "distinct (map item_addr xs)" "H p = Some e"
  shows "seg (H(p \<mapsto> e\<lparr>he_prev := pr'\<rparr>)) pr' p xs l n"
  using assms by (cases xs) (auto simp: entry_is_def)

lemma seg_set_next:
  assumes "seg H pr p xs l n" "xs \<noteq> []" "distinct (map item_addr xs)" "H l = Some e"
  shows "seg (H(l \<mapsto> e\<lparr>he_next := n'\<rparr>)) pr p xs l n'"
proof -
  obtain ys q k v where xs: "xs = ys @ [(q, k, v)]" using assms(2) by (metis append_butlast_last_id prod_cases3)
  then have "l = q" using seg_last [OF assms(1,2)] by simp
  then show ?thesis using assms xs by (auto simp: seg_append entry_is_def)
qed

lemma seg_set_value:
  assumes "seg H pr p (xs @ (q, k, v) # ys) l n" "distinct (map item_addr (xs @ (q, k, v) # ys))" "H q = Some e"
  shows "seg (H(q \<mapsto> e\<lparr>he_value := w\<rparr>)) pr p (xs @ (q, k, w) # ys) l n"
  using assms by (auto simp: seg_append entry_is_def)

section \<open>Searching\<close>

fun find_addr :: "u8 list \<Rightarrow> hash_item list \<Rightarrow> addr" where
  "find_addr key [] = NULL"
| "find_addr key ((q, k, v) # xs) = (if k = key then q else find_addr key xs)"

lemma search_chain_find:
  "seg (hash_entries s) pr p xs l NULL \<Longrightarrow> search_chain key (fnv1ahash key) p s = ret (find_addr key xs) s"
proof (induction xs arbitrary: pr p)
  case Nil
  then show ?case by (simp add: search_chain.simps)
next
  case (Cons x xs)
  obtain q k v where x: "x = (q, k, v)" by (cases x)
  then obtain e where e: "p = q" "q \<noteq> NULL" "hash_entries s q = Some e" "entry_is e k v" "seg (hash_entries s) q (he_next e) xs l NULL"
    using Cons.prems by auto
  have "entry_matches e key (fnv1ahash key) \<longleftrightarrow> k = key" using e(4) by (auto simp: entry_matches_def entry_is_def)
  then show ?case using e x Cons.IH [OF e(5)] by (simp add: search_chain.simps [of key _ q])
qed

lemma find_addr_NULL: "seg H pr p xs l n \<Longrightarrow> find_addr key xs = NULL \<longleftrightarrow> key \<notin> item_key ` set xs"
  by (induction xs arbitrary: pr p) (auto split: if_splits; force)+

lemma find_addr_split:
  assumes "seg H pr p xs l n" "find_addr key xs \<noteq> NULL"
  obtains ys v zs where "xs = ys @ (find_addr key xs, key, v) # zs" "key \<notin> item_key ` set ys"
  using assms
proof (induction xs arbitrary: pr p thesis)
  case (Cons x xs)
  obtain q k v where x: "x = (q, k, v)" by (cases x)
  show ?case
  proof (cases "k = key")
    case True
    then show ?thesis using Cons.prems(1) [of "[]" v xs] x by simp
  next
    case False
    then obtain r where "seg H q r xs l n" "find_addr key xs \<noteq> NULL" using Cons.prems(2,3) x by auto
    then obtain ys w zs where "xs = ys @ (find_addr key xs, key, w) # zs" "key \<notin> item_key ` set ys" using Cons.IH by blast
    then show ?thesis using Cons.prems(1) [of "x # ys" w zs] x False by simp
  qed
qed simp

section \<open>Tables\<close>

definition bucket_of :: "hashtable_t \<Rightarrow> u8 list \<Rightarrow> nat" where
  "bucket_of t key = unat (fnv1ahash key mod capacity t)"

definition chains_are :: "hashtable_t \<Rightarrow> 'r hash_state_scheme \<Rightarrow> hash_item list list \<Rightarrow> bool" where
  "chains_are t s C \<longleftrightarrow> capacity t \<noteq> 0 \<and> length (buckets t) = unat (capacity t) \<and> length C = length (buckets t) \<and>
     (\<forall>i<length C. \<exists>l. seg (hash_entries s) NULL (buckets t ! i) (C ! i) l NULL) \<and>
     (\<forall>i<length C. distinct (map item_addr (C ! i)) \<and> distinct (map item_key (C ! i))) \<and>
     (\<forall>i<length C. \<forall>j<length C. i \<noteq> j \<longrightarrow> item_addr ` set (C ! i) \<inter> item_addr ` set (C ! j) = {})"

definition items_map :: "hashtable_t \<Rightarrow> hash_item list list \<Rightarrow> u8 list \<Rightarrow> addr option" where
  "items_map t C key = map_of (map snd (C ! bucket_of t key)) key"

definition table_map :: "hashtable_t \<Rightarrow> 'r hash_state_scheme \<Rightarrow> (u8 list \<Rightarrow> addr option) \<Rightarrow> bool" where
  "table_map t s m \<longleftrightarrow> (\<exists>C. chains_are t s C \<and> m = items_map t C)"

lemma bucket_of_less: "chains_are t s C \<Longrightarrow> bucket_of t key < length C"
proof -
  assume "chains_are t s C"
  then have "capacity t \<noteq> 0" "length C = unat (capacity t)" by (auto simp: chains_are_def)
  then show ?thesis by (simp add: bucket_of_def unat_mod unat_gt_0)
qed

lemma chains_are_chain:
  assumes "chains_are t s C"
  obtains l where "seg (hash_entries s) NULL (buckets t ! bucket_of t key) (C ! bucket_of t key) l NULL"
proof -
  have "\<forall>i<length C. \<exists>l. seg (hash_entries s) NULL (buckets t ! i) (C ! i) l NULL" using assms by (simp add: chains_are_def)
  then show ?thesis using that bucket_of_less [OF assms, of key] by blast
qed

lemma get_entry_find:
  assumes "chains_are t s C"
  shows "get_entry t key (fnv1ahash key) s = ret (find_addr key (C ! bucket_of t key)) s"
proof -
  obtain l where l: "seg (hash_entries s) NULL (buckets t ! bucket_of t key) (C ! bucket_of t key) l NULL"
    using assms by (rule chains_are_chain)
  have "unat (fnv1ahash key mod capacity t) < length (buckets t)" "capacity t \<noteq> 0"
    using assms bucket_of_less [OF assms] by (auto simp: chains_are_def bucket_of_def)
  then show ?thesis using search_chain_find [OF l] by (simp add: get_entry_def bucket_of_def)
qed

text \<open>The table after one chain has changed: the others are disjoint from it.\<close>

lemma chains_are_update:
  assumes "chains_are t s C" "i < length C"
    and "seg (hash_entries u) NULL b x l NULL" "distinct (map item_addr x)" "distinct (map item_key x)"
    and "\<forall>a. a \<notin> item_addr ` set (C ! i) \<union> item_addr ` set x \<longrightarrow> hash_entries u a = hash_entries s a"
    and "\<forall>j<length C. j \<noteq> i \<longrightarrow> item_addr ` set x \<inter> item_addr ` set (C ! j) = {}"
    and "buckets t' = (buckets t)[i := b]" "capacity t' = capacity t"
  shows "chains_are t' u (C[i := x])"
proof -
  have "\<exists>l. seg (hash_entries u) NULL (buckets t' ! j) (C[i := x] ! j) l NULL" if j: "j < length C" for j
  proof (cases "j = i")
    case True
    then show ?thesis using assms by (auto simp: chains_are_def)
  next
    case False
    have "item_addr ` set (C ! i) \<inter> item_addr ` set (C ! j) = {}" using assms(1,2) j False by (simp add: chains_are_def)
    then have "\<forall>a\<in>item_addr ` set (C ! j). hash_entries u a = hash_entries s a" using assms(6,7) j False by blast
    then show ?thesis using seg_cong [of "C ! j" "hash_entries u" "hash_entries s"] assms(1,8) j False by (auto simp: chains_are_def)
  qed
  moreover have "item_addr ` set (C[i := x] ! j) \<inter> item_addr ` set (C[i := x] ! k) = {}"
    if "j < length C" "k < length C" "j \<noteq> k" for j k
  proof -
    have D: "item_addr ` set (C ! j) \<inter> item_addr ` set (C ! k) = {}" using assms(1) that by (simp add: chains_are_def)
    have "j \<noteq> i \<Longrightarrow> item_addr ` set x \<inter> item_addr ` set (C ! j) = {}" "k \<noteq> i \<Longrightarrow> item_addr ` set x \<inter> item_addr ` set (C ! k) = {}"
      using assms(7) that by simp_all
    then show ?thesis
      using D that assms(2) by (cases "j = i"; cases "k = i") (simp_all only: nth_list_update_eq nth_list_update_neq Int_commute not_False_eq_True)
  qed
  moreover have "distinct (map item_addr (C[i := x] ! j)) \<and> distinct (map item_key (C[i := x] ! j))" if "j < length C" for j
    using that assms(1,2,4,5) by (cases "j = i") (simp_all add: chains_are_def)
  ultimately show ?thesis using assms(1,8,9) by (simp add: chains_are_def)
qed

lemma items_map_update:
  assumes "i = bucket_of t key" "i < length C" "capacity t' = capacity t"
    and "\<And>k. map_of (map snd x) k = (if k = key then v else map_of (map snd (C ! i)) k)"
  shows "items_map t' (C[i := x]) k = (if k = key then v else items_map t C k)"
  using assms by (auto simp: items_map_def bucket_of_def nth_list_update)

section \<open>Operations\<close>

lemma hashtable_get_lookup:
  assumes "table_map t s m"
  shows "hashtable_get t key s = ret (if m key = None then - 1 else 0, m key) s"
proof -
  obtain C where C: "chains_are t s C" "m = items_map t C" using assms by (auto simp: table_map_def)
  let ?xs = "C ! bucket_of t key"
  obtain l where l: "seg (hash_entries s) NULL (buckets t ! bucket_of t key) ?xs l NULL" using C(1) by (rule chains_are_chain)
  show ?thesis
  proof (cases "find_addr key ?xs = NULL")
    case True
    then have "m key = None" using find_addr_NULL [OF l, of key] C(2) by (auto simp: items_map_def map_of_eq_None_iff image_image)
    then show ?thesis using True get_entry_find [OF C(1), of key] by (simp add: hashtable_get_def)
  next
    case False
    then obtain ys v zs where xs: "?xs = ys @ (find_addr key ?xs, key, v) # zs" "key \<notin> item_key ` set ys"
      using find_addr_split [OF l] by blast
    then have "map_of (map snd ys) key = None" by (auto simp: map_of_eq_None_iff image_image)
    then have m: "m key = Some v" unfolding C(2) items_map_def by (subst xs(1)) (simp add: map_add_def)
    obtain e where "hash_entries s (find_addr key ?xs) = Some e" "he_value e = v"
    proof -
      have "\<exists>m r. seg (hash_entries s) m r ((find_addr key ?xs, key, v) # zs) l NULL"
        using l by (subst (asm) xs(1)) (auto simp: seg_append)
      then show ?thesis using that by (auto simp: entry_is_def)
    qed
    then show ?thesis using m False get_entry_find [OF C(1), of key] by (simp add: hashtable_get_def)
  qed
qed

text \<open>Allocating leaves the entries and the cache pointer alone.\<close>

lemma hash_more: "kheap_state.more u = kheap_state.more s \<Longrightarrow> hash_entries u = hash_entries s \<and> hash_entry_cache u = hash_entry_cache s"
  for s u :: "'r hash_state_scheme"
  by (cases s; cases u) simp

lemma chains_are_entries: "hash_entries u = hash_entries s \<Longrightarrow> chains_are t u C = chains_are t s C"
  by (simp add: chains_are_def)

text \<open>The allocators can serve a new entry for \<open>key\<close>, at an address no entry is stored at.\<close>

definition entry_room :: "u8 list \<Rightarrow> 'r hash_state_scheme \<Rightarrow> bool" where
  "entry_room key s \<longleftrightarrow> (\<exists>p u q w. slab_alloc no_code (hash_entry_cache s) s = Some (p, u) \<and> p \<noteq> NULL \<and> hash_entries s p = None \<and>
     kmalloc (of_nat (length key)) u = Some (q, w) \<and> q \<noteq> NULL)"

lemma insert_entry_map:
  assumes C: "chains_are t s C" "i = bucket_of t key" "key \<notin> item_key ` set (C ! i)" and p: "p \<noteq> NULL" "hash_entries s p = None"
  shows "\<exists>t' u. insert_entry t p q v key (fnv1ahash key) s = ret (0, t') u \<and> chains_are t' u (C[i := (p, key, v) # C ! i]) \<and>
    capacity t' = capacity t"
proof -
  let ?x = "(p, key, v) # C ! i" and ?b = "buckets t ! i"
  have i: "i < length C" "length C = length (buckets t)" using bucket_of_less [OF C(1)] C by (auto simp: chains_are_def)
  obtain l where l: "seg (hash_entries s) NULL ?b (C ! i) l NULL" using chains_are_chain [OF C(1), of key] C(2) by blast
  define e where "e = \<lparr>he_next = ?b, he_prev = NULL, he_hash = fnv1ahash key, he_key_size = of_nat (length key), he_key = q,
    he_bytes = key, he_value = v\<rparr>"
  have fresh: "p \<notin> item_addr ` set (C ! j)" if j: "j < length C" for j
  proof -
    obtain k where "seg (hash_entries s) NULL (buckets t ! j) (C ! j) k NULL" using C(1) j by (auto simp: chains_are_def)
    then show ?thesis using seg_stored p(2) by blast
  qed
  have d: "distinct (map item_addr ?x)" "distinct (map item_key ?x)"
    using fresh [OF i(1)] C i(1) by (auto simp: chains_are_def image_image)
  let ?t = "t\<lparr>buckets := (buckets t)[i := p], entry_count := entry_count t + 1\<rparr>"
  obtain H l' where H: "insert_entry t p q v key (fnv1ahash key) s = ret (0, ?t) (s\<lparr>hash_entries := H\<rparr>)"
      "seg H NULL p ?x l' NULL" "\<And>a. a \<notin> item_addr ` set ?x \<Longrightarrow> H a = hash_entries s a"
  proof (cases "C ! i")
    case Nil
    then have b: "?b = NULL" using l by simp
    show ?thesis
    proof (rule that [of "(hash_entries s)(p \<mapsto> e)"])
      show "insert_entry t p q v key (fnv1ahash key) s = ret (0, ?t) (s\<lparr>hash_entries := (hash_entries s)(p \<mapsto> e)\<rparr>)"
        using b i C(2) by (simp add: insert_entry_def e_def bucket_of_def)
    qed (use Nil b p(1) in \<open>auto simp: e_def entry_is_def\<close>)
  next
    case (Cons y ys)
    then have b: "?b \<noteq> NULL" "?b \<in> item_addr ` set (C ! i)" using l seg_first [OF l] by (cases y; auto)+
    then obtain f where f: "hash_entries s ?b = Some f" "?b \<noteq> p" using seg_stored [OF l] fresh [OF i(1)] by blast
    let ?H = "(hash_entries s)(p \<mapsto> e, ?b \<mapsto> f\<lparr>he_prev := p\<rparr>)"
    have "seg ((hash_entries s)(p \<mapsto> e)) NULL ?b (C ! i) l NULL" using l fresh [OF i(1)] by simp
    then have "seg ?H p ?b (C ! i) l NULL"
      by (rule seg_set_prev) (use Cons d(1) f in simp_all)
    then have "seg ?H NULL p ?x l NULL" using p(1) f(2) by (auto simp: e_def entry_is_def)
    moreover have "insert_entry t p q v key (fnv1ahash key) s = ret (0, ?t) (s\<lparr>hash_entries := ?H\<rparr>)"
      using b f i C(2) by (simp add: insert_entry_def e_def bucket_of_def)
    moreover have "?H a = hash_entries s a" if "a \<notin> item_addr ` set ?x" for a using that b(2) by auto
    ultimately show ?thesis using that by blast
  qed
  have "chains_are ?t (s\<lparr>hash_entries := H\<rparr>) (C[i := ?x])"
  proof (rule chains_are_update [OF C(1) i(1) _ d, where b = p and l = l'])
    show "\<forall>j<length C. j \<noteq> i \<longrightarrow> item_addr ` set ?x \<inter> item_addr ` set (C ! j) = {}"
      using C(1) i(1) fresh by (auto simp: chains_are_def)
  qed (use H in auto)
  then show ?thesis using H(1) by auto
qed

lemma update_entry_map:
  assumes C: "chains_are t s C" "i = bucket_of t key" and xs: "C ! i = ys @ (p, key, v) # zs"
  shows "\<exists>u. put_he p (\<lambda>e. e\<lparr>he_value := w\<rparr>) s = ret () u \<and> chains_are t u (C[i := ys @ (p, key, w) # zs])"
proof -
  have i: "i < length C" using bucket_of_less [OF C(1)] C by simp
  obtain l where l: "seg (hash_entries s) NULL (buckets t ! i) (C ! i) l NULL" using chains_are_chain [OF C(1), of key] C(2) by blast
  then obtain e where e: "hash_entries s p = Some e" using xs by (auto simp: seg_append)
  have d: "distinct (map item_addr (C ! i))" "distinct (map item_key (C ! i))" using C(1) i by (auto simp: chains_are_def)
  let ?u = "s\<lparr>hash_entries := (hash_entries s)(p \<mapsto> e\<lparr>he_value := w\<rparr>)\<rparr>"
  have same: "item_addr ` set (ys @ (p, key, w) # zs) = item_addr ` set (C ! i)" by (simp add: xs)
  have "chains_are t ?u (C[i := ys @ (p, key, w) # zs])"
  proof (rule chains_are_update [OF C(1) i, where b = "buckets t ! i" and l = l])
    show "seg (hash_entries ?u) NULL (buckets t ! i) (ys @ (p, key, w) # zs) l NULL"
      using seg_set_value [of "hash_entries s" NULL "buckets t ! i" ys p key v zs l NULL e w] l xs d(1) e by simp
    show "\<forall>j<length C. j \<noteq> i \<longrightarrow> item_addr ` set (ys @ (p, key, w) # zs) \<inter> item_addr ` set (C ! j) = {}"
      unfolding same using C(1) i by (simp add: chains_are_def)
  qed (use d xs in auto)
  then show ?thesis using e by simp
qed

lemma map_of_items_snoc:
  assumes "key \<notin> item_key ` set ys"
  shows "map_of (map snd (ys @ (p, key, w) # zs)) k = (if k = key then Some w else map_of (map snd (ys @ (p, key, v) # zs)) k)"
  using assms by (induction ys) auto

lemma table_mapI:
  assumes "chains_are t u D" "\<And>k. items_map t D k = (if k = key then x else m k)"
  shows "table_map t u (m(key := x))"
proof -
  have "m(key := x) = items_map t D" using assms(2) by (simp add: fun_eq_iff)
  then show ?thesis using assms(1) by (auto simp: table_map_def)
qed

lemma hashtable_set_map:
  assumes "table_map t s m" "m key = None \<Longrightarrow> entry_room key s"
  shows "\<exists>t' u. hashtable_set t v key s = ret (0, t') u \<and> table_map t' u (m(key \<mapsto> v))"
proof -
  obtain C where C: "chains_are t s C" "m = items_map t C" using assms(1) by (auto simp: table_map_def)
  define i where "i = bucket_of t key"
  have i: "i < length C" using bucket_of_less [OF C(1)] by (simp add: i_def)
  obtain l where l: "seg (hash_entries s) NULL (buckets t ! i) (C ! i) l NULL" using chains_are_chain [OF C(1), of key] i_def by blast
  note get = get_entry_find [OF C(1), of key, folded i_def]
  show ?thesis
  proof (cases "find_addr key (C ! i) = NULL")
    case True
    then have nk: "key \<notin> item_key ` set (C ! i)" using find_addr_NULL [OF l] by simp
    then have "m key = None" using C(2) by (auto simp: items_map_def i_def [symmetric] map_of_eq_None_iff image_image)
    then obtain p u q w where a: "slab_alloc no_code (hash_entry_cache s) s = Some (p, u)" "p \<noteq> NULL" "hash_entries s p = None"
        "kmalloc (of_nat (length key)) u = Some (q, w)" "q \<noteq> NULL" using assms(2) by (auto simp: entry_room_def)
    have h: "hash_entries w = hash_entries s" using hash_more [OF slab_alloc_more [OF a(1)]] hash_more [OF kmalloc_more [OF a(4)]] by simp
    have "chains_are t w C" "hash_entries w p = None" using C(1) a(3) h chains_are_entries [OF h] by simp_all
    then obtain t' x where t: "insert_entry t p q v key (fnv1ahash key) w = ret (0, t') x"
        "chains_are t' x (C[i := (p, key, v) # C ! i])" "capacity t' = capacity t"
      using insert_entry_map [OF _ i_def nk a(2)] by blast
    have "items_map t' (C[i := (p, key, v) # C ! i]) k = (if k = key then Some v else items_map t C k)" for k
      by (rule items_map_update [OF i_def i t(3)]) auto
    then have "table_map t' x (m(key \<mapsto> v))" unfolding C(2) by (rule table_mapI [OF t(2)])
    then show ?thesis using True get a t(1) by (auto simp: hashtable_set_def Let_def)
  next
    case False
    define p where "p = find_addr key (C ! i)"
    obtain ys x zs where xs: "C ! i = ys @ (p, key, x) # zs" "key \<notin> item_key ` set ys"
      using find_addr_split [OF l False] unfolding p_def by blast
    obtain u where u: "put_he p (\<lambda>e. e\<lparr>he_value := v\<rparr>) s = ret () u"
        "chains_are t u (C[i := ys @ (p, key, v) # zs])"
      using update_entry_map [OF C(1) i_def xs(1)] by blast
    have "items_map t (C[i := ys @ (p, key, v) # zs]) k = (if k = key then Some v else items_map t C k)" for k
      by (rule items_map_update [OF i_def i refl]) (unfold xs(1), rule map_of_items_snoc [OF xs(2)])
    then have "table_map t u (m(key \<mapsto> v))" unfolding C(2) by (rule table_mapI [OF u(2)])
    then show ?thesis using False get u(1) p_def by (auto simp: hashtable_set_def Let_def)
  qed
qed

section \<open>Removal\<close>

text \<open>Bridging over an entry: its predecessor, or the bucket, then its successor.\<close>

lemma seg_bridge_left:
  assumes "seg H NULL b ys m p" "distinct (map item_addr ys)"
  shows "\<exists>G c. (if m \<noteq> NULL then \<exists>f. H m = Some f \<and> G = H(m \<mapsto> f\<lparr>he_next := nx\<rparr>) \<and> c = b else G = H \<and> c = nx) \<and>
    seg G NULL c ys m nx \<and> (\<forall>a. a \<notin> item_addr ` set ys \<longrightarrow> G a = H a)"
proof (cases "ys = []")
  case True
  then have "m = NULL" using assms(1) by simp
  then show ?thesis using True by auto
next
  case False
  have m: "m \<in> item_addr ` set ys" using seg_last [OF assms(1) False] by (rule conjunct2)
  then obtain f where f: "H m = Some f" "m \<noteq> NULL" using seg_stored [OF assms(1)] by blast
  then have "seg (H(m \<mapsto> f\<lparr>he_next := nx\<rparr>)) NULL b ys m nx" using assms False by (intro seg_set_next)
  moreover have "\<forall>a. a \<notin> item_addr ` set ys \<longrightarrow> (H(m \<mapsto> f\<lparr>he_next := nx\<rparr>)) a = H a" using m by auto
  ultimately show ?thesis using f by auto
qed

lemma seg_bridge_right:
  assumes "seg H p nx zs l NULL" "distinct (map item_addr zs)"
  shows "\<exists>G l'. (if nx \<noteq> NULL then \<exists>f. H nx = Some f \<and> G = H(nx \<mapsto> f\<lparr>he_prev := m\<rparr>) else G = H) \<and>
    seg G m nx zs l' NULL \<and> (\<forall>a. a \<notin> item_addr ` set zs \<longrightarrow> G a = H a)"
proof (cases "zs = []")
  case True
  then show ?thesis using assms(1) by auto
next
  case False
  have x: "nx \<in> item_addr ` set zs" using seg_first [OF assms(1) False] by (rule conjunct2)
  then obtain f where f: "H nx = Some f" "nx \<noteq> NULL" using seg_stored [OF assms(1)] by blast
  then have "seg (H(nx \<mapsto> f\<lparr>he_prev := m\<rparr>)) m nx zs l NULL" using assms False by (intro seg_set_prev)
  moreover have "\<forall>a. a \<notin> item_addr ` set zs \<longrightarrow> (H(nx \<mapsto> f\<lparr>he_prev := m\<rparr>)) a = H a" using x by auto
  ultimately show ?thesis using f by auto
qed

text \<open>The allocators accept the key and the entry back, whatever the links of the other entries are by then.\<close>

definition entry_returnable :: "hashtable_t \<Rightarrow> u8 list \<Rightarrow> 'r hash_state_scheme \<Rightarrow> bool" where
  "entry_returnable t key s \<longleftrightarrow> (\<forall>p e H. get_entry t key (fnv1ahash key) s = ret p s \<longrightarrow> hash_entries s p = Some e \<longrightarrow>
     (\<exists>u w. kfree (he_key e) (s\<lparr>hash_entries := H\<rparr>) = Some u \<and> slab_free no_code (hash_entry_cache s) p u = Some w))"

lemma entry_returnableD:
  fixes s :: "'r hash_state_scheme"
  assumes "entry_returnable t key s" "get_entry t key (fnv1ahash key) s = ret p s" "hash_entries s p = Some e"
  obtains w where "seq (free_memory (he_key e) (s\<lparr>hash_entries := H\<rparr>)) (\<lambda>_ s. free_entry p s) = ret () w"
    "hash_entries w = H(p := None)"
proof -
  obtain u w where u: "kfree (he_key e) (s\<lparr>hash_entries := H\<rparr>) = Some u" "slab_free no_code (hash_entry_cache s) p u = Some w"
    using assms unfolding entry_returnable_def by blast
  have hu: "hash_entries u = H" "hash_entry_cache u = hash_entry_cache s" using hash_more [OF kfree_more [OF u(1)]] by simp_all
  moreover have "hash_entries w = H" using hash_more [OF slab_free_more [OF u(2)]] hu by simp
  ultimately show ?thesis using that u by (simp add: free_memory_def free_entry_def)
qed

lemma remove_items: "map_of (map snd (ys @ zs)) k = (if k = key then None else map_of (map snd (ys @ (p, key, v) # zs)) k)"
  if "distinct (map item_key (ys @ (p, key, v) # zs))"
  using that by (induction ys) (auto simp: map_of_eq_None_iff image_image)

text \<open>The store \<open>K\<close> and the bucket \<open>c\<close> after an entry \<open>e\<close> of the chain that starts at \<open>b\<close> has been bridged over.\<close>

definition bridged :: "(addr \<Rightarrow> hash_entry_t option) \<Rightarrow> addr \<Rightarrow> hash_entry_t \<Rightarrow> addr \<Rightarrow> (addr \<Rightarrow> hash_entry_t option) \<Rightarrow> bool" where
  "bridged H b e c K \<longleftrightarrow> (\<exists>G.
     (if he_prev e \<noteq> NULL then \<exists>f. H (he_prev e) = Some f \<and> G = H(he_prev e \<mapsto> f\<lparr>he_next := he_next e\<rparr>) \<and> c = b
      else G = H \<and> c = he_next e) \<and>
     (if he_next e \<noteq> NULL then \<exists>f. G (he_next e) = Some f \<and> K = G(he_next e \<mapsto> f\<lparr>he_prev := he_prev e\<rparr>) else K = G))"

lemma seg_bridge:
  assumes "seg H NULL b (ys @ (p, key, v) # zs) l NULL" "distinct (map item_addr (ys @ (p, key, v) # zs))" "H p = Some e"
  shows "\<exists>c K l'. bridged H b e c K \<and> seg (K(p := None)) NULL c (ys @ zs) l' NULL \<and>
    (\<forall>a. a \<notin> item_addr ` set (ys @ zs) \<longrightarrow> K a = H a)"
proof -
  have e: "seg H NULL b ys (he_prev e) p" "seg H p (he_next e) zs l NULL" using assms(1,3) by (auto simp: seg_append)
  have d: "distinct (map item_addr ys)" "distinct (map item_addr zs)" "p \<notin> item_addr ` set (ys @ zs)"
      "item_addr ` set ys \<inter> item_addr ` set zs = {}" using assms(2) by auto
  obtain G c where G: "if he_prev e \<noteq> NULL then \<exists>f. H (he_prev e) = Some f \<and> G = H(he_prev e \<mapsto> f\<lparr>he_next := he_next e\<rparr>) \<and> c = b
         else G = H \<and> c = he_next e"
      "seg G NULL c ys (he_prev e) (he_next e)" "\<forall>a. a \<notin> item_addr ` set ys \<longrightarrow> G a = H a"
    using seg_bridge_left [OF e(1) d(1)] by blast
  have "seg G p (he_next e) zs l NULL" using e(2) seg_cong [of zs G H] G(3) d(4) by blast
  then obtain K l' where K: "if he_next e \<noteq> NULL then \<exists>f. G (he_next e) = Some f \<and> K = G(he_next e \<mapsto> f\<lparr>he_prev := he_prev e\<rparr>) else K = G"
      "seg K (he_prev e) (he_next e) zs l' NULL" "\<forall>a. a \<notin> item_addr ` set zs \<longrightarrow> K a = G a"
    using seg_bridge_right [of G p "he_next e" zs l] d(2) by blast
  have "bridged H b e c K" unfolding bridged_def by (intro exI [where x = G] conjI G(1) K(1))
  moreover have "seg K NULL c ys (he_prev e) (he_next e)" using G(2) seg_cong [of ys K G] K(3) d(4) by blast
  then have "seg (K(p := None)) NULL c ys (he_prev e) (he_next e) \<and> seg (K(p := None)) (he_prev e) (he_next e) zs l' NULL"
    using K(2) d(3) by (simp add: image_Un)
  then have "seg (K(p := None)) NULL c (ys @ zs) l' NULL" unfolding seg_append by blast
  moreover have "\<forall>a. a \<notin> item_addr ` set (ys @ zs) \<longrightarrow> K a = H a" using G(3) K(3) by (simp add: image_Un)
  ultimately show ?thesis by blast
qed

lemma hashtable_remove_found:
  fixes s w :: "'r hash_state_scheme"
  assumes "capacity t \<noteq> 0" "get_entry t key (fnv1ahash key) s = ret p s" "p \<noteq> NULL" "hash_entries s p = Some e"
    "bridged (hash_entries s) (buckets t ! bucket_of t key) e c K"
    "seq (free_memory (he_key e) (s\<lparr>hash_entries := K\<rparr>)) (\<lambda>_ s. free_entry p s) = ret () w"
  shows "hashtable_remove t key s = ret (0, t\<lparr>buckets := (buckets t)[bucket_of t key := c], entry_count := entry_count t - 1\<rparr>) w"
proof -
  have fin: "seq (free_memory (he_key e) (s\<lparr>hash_entries := K\<rparr>)) (\<lambda>_ s. seq (free_entry p s) k) = k () w"
    for k :: "unit \<Rightarrow> 'r hash_state_scheme \<Rightarrow> (int \<times> hashtable_t, 'r) hash_result"
    using assms(6) by (simp add: seq_assoc [symmetric])
  have t: "t\<lparr>buckets := (buckets t)[i := buckets t ! i], entry_count := entry_count t - 1\<rparr> = t\<lparr>entry_count := entry_count t - 1\<rparr>" for i
    by (cases t) simp
  show ?thesis
    using assms(1-5) fin t [of "unat (fnv1ahash key mod capacity t)"]
    by (cases "he_prev e = NULL"; cases "he_next e = NULL")
      (auto simp: hashtable_remove_def Let_def bucket_of_def bridged_def)
qed

lemma hashtable_remove_map:
  assumes "table_map t s m" "m key \<noteq> None \<Longrightarrow> entry_returnable t key s"
  shows "\<exists>t' u. hashtable_remove t key s = ret (if m key = None then - 1 else 0, t') u \<and> table_map t' u (m(key := None))"
proof -
  obtain C where C: "chains_are t s C" "m = items_map t C" using assms(1) by (auto simp: table_map_def)
  define i where "i = bucket_of t key"
  have i: "i < length C" "capacity t \<noteq> 0" using bucket_of_less [OF C(1)] C(1) by (simp_all add: i_def chains_are_def)
  obtain l where l: "seg (hash_entries s) NULL (buckets t ! i) (C ! i) l NULL" using chains_are_chain [OF C(1), of key] i_def by blast
  have d: "distinct (map item_addr (C ! i))" "distinct (map item_key (C ! i))" using C(1) i by (auto simp: chains_are_def)
  define p where "p = find_addr key (C ! i)"
  note get = get_entry_find [OF C(1), of key, folded i_def, folded p_def]
  show ?thesis
  proof (cases "p = NULL")
    case True
    then have "m key = None" using C(2) find_addr_NULL [OF l] p_def
      by (auto simp: items_map_def i_def [symmetric] map_of_eq_None_iff image_image)
    moreover have "m(key := None) = m" using calculation by auto
    ultimately show ?thesis using True get assms(1) i(2) by (auto simp: hashtable_remove_def Let_def)
  next
    case False
    obtain ys v zs where xs: "C ! i = ys @ (p, key, v) # zs" "key \<notin> item_key ` set ys"
      using find_addr_split [OF l] False unfolding p_def by blast
    obtain e where e: "hash_entries s p = Some e" using l unfolding xs(1) by (auto simp: seg_append)
    obtain c K l' where K: "bridged (hash_entries s) (buckets t ! i) e c K" "seg (K(p := None)) NULL c (ys @ zs) l' NULL"
        "\<forall>a. a \<notin> item_addr ` set (ys @ zs) \<longrightarrow> K a = hash_entries s a"
      using seg_bridge [OF l [unfolded xs(1)] d(1) [unfolded xs(1)] e] by blast
    have mk: "m key \<noteq> None" using C(2) xs(1) by (simp add: items_map_def i_def [symmetric] map_of_eq_None_iff)
    obtain w where w: "seq (free_memory (he_key e) (s\<lparr>hash_entries := K\<rparr>)) (\<lambda>_ s. free_entry p s) = ret () w"
        "hash_entries w = K(p := None)" using entry_returnableD [OF assms(2) [OF mk] get e] by blast
    let ?t = "t\<lparr>buckets := (buckets t)[i := c], entry_count := entry_count t - 1\<rparr>"
    have "hashtable_remove t key s = ret (0, ?t) w"
      using hashtable_remove_found [OF i(2) get False e K(1) [unfolded i_def] w(1)] by (simp add: i_def)
    moreover have "chains_are ?t w (C[i := ys @ zs])"
    proof (rule chains_are_update [OF C(1) i(1), where b = c and l = l'])
      have D: "\<forall>j<length C. j \<noteq> i \<longrightarrow> item_addr ` set (C ! i) \<inter> item_addr ` set (C ! j) = {}" using C(1) i(1) by (simp add: chains_are_def)
      have "item_addr ` set (ys @ zs) \<subseteq> item_addr ` set (C ! i)" by (auto simp: xs(1))
      then show "\<forall>j<length C. j \<noteq> i \<longrightarrow> item_addr ` set (ys @ zs) \<inter> item_addr ` set (C ! j) = {}" using D by blast
    qed (use K w(2) d xs(1) in auto)
    moreover have "items_map ?t (C[i := ys @ zs]) k = (if k = key then None else items_map t C k)" for k
    proof (rule items_map_update [OF i_def i(1)])
      show "map_of (map snd (ys @ zs)) k = (if k = key then None else map_of (map snd (C ! i)) k)" for k
        unfolding xs(1) by (rule remove_items) (use d(2) xs(1) in simp)
    qed simp
    ultimately show ?thesis using mk unfolding C(2) by (auto intro: table_mapI)
  qed
qed

interpretation ht: key_store table_map entry_room entry_returnable hashtable_set hashtable_get hashtable_remove
  by unfold_locales (rule hashtable_set_map hashtable_get_lookup hashtable_remove_map; simp)+

end
