(* ===== verification/Hash_Correct.thy ===== *)
theory Hash_Correct
  imports Hash_Props Kheap_Correct
begin

text \<open>
  The hash table together with the allocators below it: a state in which the heap and a cache of entries are in place serves
  insertions and removals.
\<close>

section \<open>An example state\<close>

definition hash_example :: "'a \<Rightarrow> 'a hash_state_scheme" where
  "hash_example x =
     hash_state.extend (kheap_state.extend kheap_example \<lparr>hash_entry_cache = NULL, hash_entries = Map.empty\<rparr>) x"

lemma heap_ok_hash: "heap_ok s bs \<Longrightarrow> heap_ok (s\<lparr>hash_entry_cache := c, hash_entries := H\<rparr>) bs" "heap_ok s bs \<Longrightarrow> heap_ok (s\<lparr>hash_entries := H\<rparr>) bs"
  for s :: "'a hash_state_scheme"
  by (rule heap_ok_view; simp add: vm_view_def)+

text \<open>Three blocks of 112 bytes in use at the front of the heap.\<close>

abbreviation hash_blocks :: "block list" where
  "hash_blocks \<equiv> [(112, False), (112, False), (112, False), (3664, True)]"

lemma kmalloc_112:
  assumes "heap_ok s bs" "first_fit 112 bs = Some (xs, m, ys)"
  shows "\<exists>u. kmalloc 100 s = Some (of_nat (heap_end xs + 24), u) \<and> heap_ok u (xs @ carve 112 m @ ys)"
proof -
  have al: "unat (align16 100) = 112" by (simp add: align16_def)
  show ?thesis by (rule kmalloc_fit [OF assms(1) _ assms(2) [folded al]]) (auto simp: al)
qed

lemma hash_heap:
  obtains s :: "'a hash_state_scheme" where "heap_ok s hash_blocks" "hash_entry_cache s = c" "hash_entries s = H"
proof -
  let ?e = "hash_example undefined :: 'a hash_state_scheme"
  have view: "vm_view ?e = vm_view kheap_example"
    by (simp add: hash_example_def kheap_state.defs hash_state.defs vm_view_def)
  have ok: "vm_ok ?e {}" "4 \<le> card (pmm_avail ?e)"
    using vm_view_cong [OF view] kheap_example_ok by simp_all
  obtain t where t: "heap_ok t [(4072, True)]" and "init_kheap ?e = Some (4072, t)"
    using init_kheap_spec [OF ok] by blast
  obtain u :: "'a hash_state_scheme" where u: "heap_ok u [(112, False), (3936, True)]" using kmalloc_112 [OF t, of "[]" 4072 "[]"] by (auto simp: carve_def)
  obtain v :: "'a hash_state_scheme" where v: "heap_ok v [(112, False), (112, False), (3800, True)]"
    using kmalloc_112 [OF u, of "[(112, False)]" 3936 "[]"] by (auto simp: carve_def)
  obtain w :: "'a hash_state_scheme" where "heap_ok w hash_blocks"
    using kmalloc_112 [OF v, of "[(112, False), (112, False)]" 3800 "[]"] by (auto simp: carve_def)
  then show ?thesis using that [OF heap_ok_hash(1)] by simp
qed

text \<open>A slab that still has two free objects gives away the first of its list.\<close>

lemma slab_alloc_pops:
  fixes s :: "'a kheap_state_scheme"
  assumes vm: "vm_ok s D" and D: "{cache_partial c, c + 56, b + 16, b + 32, x} \<subseteq> D" "c + 56 \<notin> {b + 16, b + 32}"
    and "c \<noteq> NULL" "b \<noteq> NULL" "x \<noteq> NULL"
    and r: "vread (cache_partial c) s = Some b" "vread (b + 32) s = Some x" "vread x s = Some n" "vread (b + 16) s = Some 2" "vread (c + 56) s = Some 0"
  shows "\<exists>t. slab_alloc no_code c s = Some (x, t) \<and> vm_ok t D \<and> t = s\<lparr>pmem := pmem t\<rparr> \<and>
    (\<forall>w\<in>D - {b + 16, b + 32}. vread w t = vread w s)"
proof -
  have b32: "b + 32 \<in> D" and b16: "b + 16 \<in> D" using D by auto
  obtain u where u: "vwrite (b + 32) n s = Some u" "vm_ok u D" "u = s\<lparr>pmem := pmem u\<rparr>"
      "\<And>w. w \<in> D \<Longrightarrow> vread w u = (if w = b + 32 then Some n else vread w s)"
    by (rule vwrite_spec [OF vm b32, of n]) blast
  obtain t where t: "vwrite (b + 16) 1 u = Some t" "vm_ok t D" "t = u\<lparr>pmem := pmem t\<rparr>"
      "\<And>w. w \<in> D \<Longrightarrow> vread w t = (if w = b + 16 then Some 1 else vread w u)"
    by (rule vwrite_spec [OF u(2) b16, of 1]) blast
  have u16: "vread (b + 16) u = Some 2" using u(4) [OF b16] r(4) by simp
  then have "slab_pop_object b s = Some (x, t)"
    using r u(1) t(1) assms(5,6) by (simp add: slab_pop_object_def slab_free_list_def slab_free_count_def read_low_def write_low_def)
  moreover have "slab_free_count b t = Some 1" using t(4) [OF b16] by (simp add: slab_free_count_def read_low_def)
  moreover have "cache_ctor c t = Some 0" using t(4) [of "c + 56"] u(4) [of "c + 56"] D r(5) by (simp add: cache_ctor_def)
  ultimately have "slab_alloc no_code c s = Some (x, t)"
    using assms(4-6) r(1) by (simp add: slab_alloc_def choose_slab_def retire_full_def call_pointer_def)
  moreover have "t = s\<lparr>pmem := pmem t\<rparr>" using t(3) u(3) by (metis vmm_state.update_convs(1) vmm_state.surjective)
  ultimately show ?thesis using t(2,4) u(4) by auto
qed

text \<open>Filling in the words of the first two blocks.\<close>

definition example_word :: "nat \<Rightarrow> bool" where
  "example_word i \<longleftrightarrow> 8 dvd i \<and> (24 \<le> i \<and> i < 136 \<or> 160 \<le> i \<and> i < 272)"

lemma pmem_trans: "u = s\<lparr>pmem := pmem u\<rparr> \<Longrightarrow> t = u\<lparr>pmem := pmem t\<rparr> \<Longrightarrow> t = s\<lparr>pmem := pmem t\<rparr>"
  by (metis vmm_state.update_convs(1) vmm_state.surjective)

lemma pmem_hash:
  fixes s t :: "'a hash_state_scheme"
  assumes "t = s\<lparr>pmem := pmem t\<rparr>"
  shows "hash_entries t = hash_entries s" "hash_entry_cache t = hash_entry_cache s"
  using arg_cong [OF assms, of hash_entries] arg_cong [OF assms, of hash_entry_cache] by simp_all

lemma poke_example:
  fixes s :: "'a hash_state_scheme"
  assumes "heap_ok s hash_blocks" "example_word i"
  shows "\<exists>t. heap_ok t hash_blocks \<and> stores HEAP_BASE (heap_end hash_blocks) s t {HEAP_BASE + i} \<and>
    vread (of_nat (HEAP_BASE + i)) t = Some q"
proof -
  obtain k where k: "i = 8 * k" "3 \<le> k \<and> k < 17 \<or> 20 \<le> k \<and> k < 34" using assms(2) by (auto simp: example_word_def elim: dvdE)
  show ?thesis
  proof (cases "i < 136")
    case True
    then obtain l where l: "i = 24 + l" "8 dvd l" "l + 8 \<le> 112"
      using that [of "8 * (k - 3)"] k by simp
    have "heap_ok s ([] @ (112, False) # [(112, False), (112, False), (3664, True)])" using assms(1) by simp
    from poke_payload [OF this l(2,3), where q = q] obtain t where "heap_ok t hash_blocks"
        "stores HEAP_BASE (heap_end hash_blocks) s t {HEAP_BASE + 24 + l}" "vread (of_nat (HEAP_BASE + 24 + l)) t = Some q" by auto
    then show ?thesis using l(1) by (auto simp: add.assoc)
  next
    case False
    then obtain l where l: "i = 160 + l" "8 dvd l" "l + 8 \<le> 112" using that [of "8 * (k - 20)"] k by auto
    have "heap_ok s ([(112, False)] @ (112, False) # [(112, False), (3664, True)])" using assms(1) by simp
    from poke_payload [OF this l(2,3), where q = q] obtain t where t: "heap_ok t ([(112, False)] @ (112, False) # [(112, False), (3664, True)])"
        "stores HEAP_BASE (heap_end ([(112, False)] @ (112, False) # [(112, False), (3664, True)])) s t {heap_end [(112, False)] + 24 + l}"
        "vread (of_nat (heap_end [(112, False)] + 24 + l)) t = Some q" by blast
    moreover have "heap_end [(112, False)] + 24 + l = HEAP_BASE + i" using l(1) by simp
    ultimately show ?thesis by (metis append.simps)
  qed
qed

lemma poke_examples:
  fixes s :: "'a hash_state_scheme"
  assumes "heap_ok s hash_blocks" "distinct (map fst ws)" "\<forall>w\<in>set ws. example_word (fst w)"
  shows "\<exists>t. heap_ok t hash_blocks \<and> t = s\<lparr>pmem := pmem t\<rparr> \<and>
    (\<forall>w\<in>set ws. vread (of_nat (HEAP_BASE + fst w)) t = Some (snd w))"
  using assms(2,3)
proof (induction ws)
  case Nil
  then show ?case using assms(1) by (intro exI [where x = s]) simp
next
  case (Cons w ws)
  then obtain u where u: "heap_ok u hash_blocks" "u = s\<lparr>pmem := pmem u\<rparr>"
      "\<forall>w\<in>set ws. vread (of_nat (HEAP_BASE + fst w)) u = Some (snd w)" by auto
  have "example_word (fst w)" using Cons.prems by simp
  from poke_example [OF u(1) this] obtain t where t: "heap_ok t hash_blocks"
      "stores HEAP_BASE (heap_end hash_blocks) u t {HEAP_BASE + fst w}" "vread (of_nat (HEAP_BASE + fst w)) t = Some (snd w)" by blast
  have "vread (of_nat (HEAP_BASE + fst x)) t = Some (snd x)" if x: "x \<in> set ws" for x
  proof -
    have "fst x \<noteq> fst w" using imageI [OF x, of fst] Cons.prems(1) by (metis distinct.simps(2) list.map(2) list.set_map)
    moreover have "example_word (fst x)" using x Cons.prems(2) by simp
    ultimately have "vread (of_nat (HEAP_BASE + fst x)) t = vread (of_nat (HEAP_BASE + fst x)) u"
      by (intro storesD(3) [OF t(2)]) (auto simp: example_word_def)
    then show ?thesis using u(3) x by simp
  qed
  moreover have "t = s\<lparr>pmem := pmem t\<rparr>" by (rule pmem_trans [OF u(2) storesD(2) [OF t(2)]])
  ultimately show ?case using t(1,3) by auto
qed

lemma align16_le: "unat sz + 15 < 2 ^ 64 \<Longrightarrow> unat (align16 sz) \<le> unat sz + 15"
proof -
  assume "unat sz + 15 < 2 ^ 64"
  then have "unat (sz + 15) = unat sz + 15" by (simp add: unat_word_ariths)
  moreover have "align16 sz \<le> sz + 15" unfolding align16_def by (rule word_and_le2)
  ultimately show ?thesis by (simp add: word_le_nat_alt)
qed

section \<open>Properties\<close>

text \<open>C9: The hash table is a finite map: storing a value under a key succeeds whenever the key is present or the allocators
  can serve a new entry, the table then represents the updated map, and looking up any key gives what the map says.\<close>

theorem hashtable_set_get:
  assumes "table_map t s m" "m key = None \<longrightarrow> entry_room key s"
  shows "\<exists>t' u. hashtable_set t v key s = ret (0, t') u \<and> table_map t' u (m(key \<mapsto> v)) \<and>
    hashtable_get t' key u = ret (0, Some v) u \<and>
    (\<forall>j. j \<noteq> key \<longrightarrow> hashtable_get t' j u = ret (if m j = None then - 1 else 0, m j) u)"
  by (rule ht.get_after_put) (use assms in auto)

text \<open>An empty table with two buckets, in the example heap.\<close>

definition table_example :: hashtable_t where
  "table_example = \<lparr>entry_count = 0, capacity = 2, entries = 0x5000, buckets = [NULL, NULL]\<rparr>"

lemma table_example_empty: "table_map table_example s Map.empty"
proof -
  have "chains_are table_example s [[], []]" by (auto simp: chains_are_def table_example_def less_Suc_eq)
  moreover have "items_map table_example [[], []] = Map.empty"
  proof
    fix key
    have "bucket_of table_example key < 2" by (simp add: bucket_of_def table_example_def unat_mod)
    then show "items_map table_example [[], []] key = None" by (auto simp: items_map_def less_2_cases_iff)
  qed
  ultimately show ?thesis unfolding table_map_def by metis
qed

text \<open>With a cache in the first block and a slab in the second, there is room for a short key.\<close>

lemma example_room:
  fixes s0 :: "'a hash_state_scheme"
  assumes s0: "heap_ok s0 hash_blocks" "hash_entry_cache s0 = of_nat (HEAP_BASE + 24)" "hash_entries s0 = Map.empty"
    and key: "key \<noteq> []" "length key \<le> 512"
  obtains s where "entry_room key s" "s = s0\<lparr>pmem := pmem s\<rparr>"
proof -
  let ?c = "of_nat (HEAP_BASE + 24) :: u64" and ?b = "of_nat (HEAP_BASE + 160) :: u64" and ?x = "of_nat (HEAP_BASE + 200) :: u64"
  let ?ws = "[(56, ?b), (80, 0), (176, 2), (192, ?x), (200, 0)] :: (nat \<times> u64) list"
  let ?D = "heap_words HEAP_BASE (heap_end hash_blocks)"
  obtain s where s: "heap_ok s hash_blocks" "s = s0\<lparr>pmem := pmem s\<rparr>"
      "\<forall>w\<in>set ?ws. vread (of_nat (HEAP_BASE + fst w)) s = Some (snd w)"
    using poke_examples [OF s0(1), of ?ws] by (auto simp: example_word_def)
  have sh: "hash_entries s = Map.empty" "hash_entry_cache s = ?c" using pmem_hash [OF s(2)] s0 by simp_all
  have vm: "vm_ok s ?D" using s(1) by (simp add: heap_ok_def)
  have D: "of_nat (HEAP_BASE + i) \<in> ?D" if "8 dvd i" "i < 400" for i
    using that by (subst heap_words_mem) (auto simp: HEAP_BASE_def HEAP_START_def)
  have words: "?c + 32 = of_nat (HEAP_BASE + 56)" "?c + 56 = of_nat (HEAP_BASE + 80)" "?b + 16 = of_nat (HEAP_BASE + 176)"
      "?b + 32 = of_nat (HEAP_BASE + 192)" "?c \<noteq> NULL" "?b \<noteq> NULL" "?x \<noteq> NULL" "?c + 56 \<notin> {?b + 16, ?b + 32}"
    by (simp_all add: HEAP_START_def)
  obtain t where t: "slab_alloc no_code ?c s = Some (?x, t)" "vm_ok t ?D" "t = s\<lparr>pmem := pmem t\<rparr>"
      "\<forall>w\<in>?D - {?b + 16, ?b + 32}. vread w t = vread w s"
    using slab_alloc_pops [OF vm, of ?c ?b ?x 0] s(3) D [of 56] D [of 80] D [of 176] D [of 192] D [of 200] words by (auto simp: cache_partial_def HEAP_START_def)
  have "stores HEAP_BASE (heap_end hash_blocks) s t {HEAP_BASE + 136 + 24..<HEAP_BASE + 136 + 24 + 112}"
    unfolding stores_def
  proof (intro conjI allI impI)
    fix y assume y: "HEAP_BASE \<le> y" "y < heap_end hash_blocks" "8 dvd y" "y \<notin> {HEAP_BASE + 136 + 24..<HEAP_BASE + 136 + 24 + 112}"
    have le: "heap_end hash_blocks < 2 ^ 64" using s(1) by (simp add: heap_ok_def)
    have "of_nat y \<in> ?D" using y le by (subst heap_words_mem) auto
    moreover have "of_nat y \<noteq> ?b + 16" "of_nat y \<noteq> ?b + 32" unfolding words
      using u64_of_nat_inj [of y "HEAP_BASE + 176"] u64_of_nat_inj [of y "HEAP_BASE + 192"] y le by auto
    ultimately show "vread (of_nat y) t = vread (of_nat y) s" using t(4) by blast
  qed (use t in auto)
  then have "heap_ok t ([(112, False)] @ (112, False) # [(112, False), (3664, True)])"
    using heap_ok_payload [of s "[(112, False)]" 112 False "[(112, False), (3664, True)]" t 112] s(1) by simp
  then have ok: "heap_ok t hash_blocks" by simp
  let ?n = "of_nat (length key) :: u64"
  have n: "unat ?n = length key" using key(2) by (simp add: unat_of_nat)
  then have nz: "?n \<noteq> 0" using key(1) by (metis length_0_conv unat_0)
  have "unat (align16 ?n) \<le> 527" using align16_le [of ?n] n key(2) by simp
  then have ff: "first_fit (unat (align16 ?n)) hash_blocks = Some ([(112, False), (112, False), (112, False)], 3664, [])" by simp
  obtain u where "kmalloc ?n t = Some (of_nat (heap_end [(112, False), (112, False), (112, False)] + 24), u)"
    by (rule kmalloc_fit [OF ok nz ff]) blast
  moreover have "(of_nat (heap_end [(112, False), (112, False), (112, False)] + 24) :: u64) \<noteq> NULL" by (simp add: HEAP_START_def)
  ultimately have "entry_room key s" using sh t(1) words(7) unfolding entry_room_def by auto
  then show ?thesis using that s(2) by blast
qed

theorem hashtable_set_get_witness:
  "\<exists>(s :: hash_state) t u. hashtable_set table_example 0x1234 [1, 2, 3] s = ret (0, t) u \<and>
     hashtable_get t [1, 2, 3] u = ret (0, Some 0x1234) u \<and> hashtable_get t [4] u = ret (- 1, None) u"
proof -
  obtain s0 :: hash_state where s0: "heap_ok s0 hash_blocks" "hash_entry_cache s0 = of_nat (HEAP_BASE + 24)" "hash_entries s0 = Map.empty"
    by (rule hash_heap)
  obtain s :: hash_state where s: "entry_room [1, 2, 3] s" by (rule example_room [OF s0, of "[1, 2, 3]"]) simp_all
  have "m = Map.empty \<Longrightarrow> m [1, 2, 3] = None \<longrightarrow> entry_room [1, 2, 3] s" for m :: "u8 list \<Rightarrow> addr option" using s by simp
  from hashtable_set_get [OF table_example_empty this [OF refl], of "0x1234"] obtain t u where
      "hashtable_set table_example 0x1234 [1, 2, 3] s = ret (0, t) u" "hashtable_get t [1, 2, 3] u = ret (0, Some 0x1234) u"
      "\<forall>j. j \<noteq> [1, 2, 3] \<longrightarrow> hashtable_get t j u = ret (- 1, None) u" by auto
  moreover from this(3) have "hashtable_get t [4] u = ret (- 1, None) u" by simp
  ultimately show ?thesis by blast
qed

text \<open>C17: Removing a key: it fails exactly when the key is absent; otherwise the entry is unlinked from its chain and given
  back, and the table represents the map without the key; every other key keeps its value.\<close>

theorem hashtable_remove_get:
  assumes "table_map t s m" "m key \<noteq> None \<longrightarrow> entry_returnable t key s"
  shows "\<exists>t' u. hashtable_remove t key s = ret (if m key = None then - 1 else 0, t') u \<and> table_map t' u (m(key := None)) \<and>
    hashtable_get t' key u = ret (- 1, None) u \<and>
    (\<forall>j. j \<noteq> key \<longrightarrow> hashtable_get t' j u = ret (if m j = None then - 1 else 0, m j) u)"
  by (rule ht.get_after_remove) (use assms in auto)

text \<open>A table with one bucket and one entry.\<close>

definition single_entry :: "u8 list \<Rightarrow> addr \<Rightarrow> addr \<Rightarrow> hash_entry_t" where
  "single_entry k v kp = \<lparr>he_next = NULL, he_prev = NULL, he_hash = fnv1ahash k, he_key_size = of_nat (length k), he_key = kp,
     he_bytes = k, he_value = v\<rparr>"

definition single_table :: "addr \<Rightarrow> hashtable_t" where
  "single_table p = \<lparr>entry_count = 1, capacity = 1, entries = 0x5000, buckets = [p]\<rparr>"

lemma single_table_is:
  assumes "hash_entries s = [p \<mapsto> single_entry k v kp]" "p \<noteq> NULL"
  shows "chains_are (single_table p) s [[(p, k, v)]]" "table_map (single_table p) s [k \<mapsto> v]"
proof -
  show tis: "chains_are (single_table p) s [[(p, k, v)]]"
    using assms by (auto simp: chains_are_def single_table_def single_entry_def entry_is_def)
  have "bucket_of (single_table p) key = 0" for key by (simp add: bucket_of_def single_table_def unat_mod)
  then have "items_map (single_table p) [[(p, k, v)]] = [k \<mapsto> v]" by (auto simp: items_map_def fun_eq_iff)
  then show "table_map (single_table p) s [k \<mapsto> v]" using tis unfolding table_map_def by metis
qed

text \<open>One entry in a block of the heap, its key in another.\<close>

abbreviation one_table :: hashtable_t where "one_table \<equiv> single_table (of_nat (HEAP_BASE + 160))"
abbreviation one_entry :: hash_entry_t where "one_entry \<equiv> single_entry [1] 0x77 (of_nat (HEAP_BASE + 296))"

lemma free_twice:
  fixes s :: "'a kheap_state_scheme"
  assumes "heap_ok s hash_blocks" "vread (of_nat (HEAP_BASE + 24)) s = Some 0"
  shows "\<exists>u w. kfree (of_nat (HEAP_BASE + 296)) s = Some u \<and> slab_free no_code (of_nat (HEAP_BASE + 24)) (of_nat (HEAP_BASE + 160)) u = Some w"
proof -
  have ok: "heap_ok s ([(112, False), (112, False)] @ (112, False) # [(3664, True)])" using assms(1) by simp
  have e: "heap_end [(112, False), (112, False)] + 24 = HEAP_BASE + 296" "heap_end [(112, False)] + 24 = HEAP_BASE + 160" by simp_all
  obtain u where u: "kfree (of_nat (HEAP_BASE + 296)) s = Some u" "heap_ok u (coalesce ([(112, False), (112, False)] @ (112, True) # [(3664, True)]))"
      "stores HEAP_BASE (heap_end hash_blocks) s u (header_words HEAP_BASE hash_blocks)"
    using kfree_spec [OF ok, unfolded e] by auto
  have "vread (of_nat (HEAP_BASE + 24)) u = Some 0"
    using storesD(3) [OF u(3), of "HEAP_BASE + 24"] assms(2) by simp
  then have m: "slab_magic (slab_from_object (of_nat (HEAP_BASE + 160))) u = Some 0"
    by (simp add: slab_magic_def slab_from_object_def PAGE_SIZE_SLAB_def PAGE_SIZE_VMM_def read_low_def HEAP_START_def)
  have "heap_ok u ([(112, False)] @ (112, False) # [(3800, True)])" using u(2) by simp
  from kfree_spec [OF this, unfolded e] obtain w where "kfree (of_nat (HEAP_BASE + 160)) u = Some w" by blast
  then have "slab_free no_code (of_nat (HEAP_BASE + 24)) (of_nat (HEAP_BASE + 160)) u = Some w"
    using m by (simp add: slab_free_def SLAB_MAGIC_def Let_def HEAP_START_def)
  then show ?thesis using u(1) by blast
qed

theorem hashtable_remove_get_witness:
  "\<exists>(s :: hash_state) t u. hashtable_remove one_table [1] s = ret (0, t) u \<and> hashtable_get one_table [1] s = ret (0, Some 0x77) s \<and>
     hashtable_get t [1] u = ret (- 1, None) u"
proof -
  let ?c = "of_nat (HEAP_BASE + 24) :: u64" and ?H = "[of_nat (HEAP_BASE + 160) \<mapsto> one_entry]"
  obtain s0 :: hash_state where s0: "heap_ok s0 hash_blocks" "hash_entry_cache s0 = ?c" "hash_entries s0 = ?H" by (rule hash_heap)
  obtain s where v: "heap_ok s hash_blocks" "s = s0\<lparr>pmem := pmem s\<rparr>" "vread (of_nat (HEAP_BASE + 24)) s = Some 0"
    using poke_examples [OF s0(1), of "[(24, 0)]"] by (auto simp: example_word_def)
  then have s: "heap_ok s hash_blocks" "hash_entries s = ?H" "hash_entry_cache s = ?c" "vread (of_nat (HEAP_BASE + 24)) s = Some 0"
    using pmem_hash [OF v(2)] s0(2,3) by simp_all
  have "(of_nat (HEAP_BASE + 160) :: u64) \<noteq> NULL" by (simp add: HEAP_START_def)
  note tis = single_table_is [OF s(2) this]
  have "entry_returnable one_table [1] s"
    unfolding entry_returnable_def
  proof (intro allI impI)
    fix p e H assume p: "get_entry one_table [1] (fnv1ahash [1]) s = ret p s" "hash_entries s p = Some e"
    have "bucket_of one_table [1] = 0" by (simp add: bucket_of_def single_table_def unat_mod)
    then have "p = of_nat (HEAP_BASE + 160)" using p(1) get_entry_find [OF tis(1), of "[1]"] by simp
    then have e: "p = of_nat (HEAP_BASE + 160)" "he_key e = of_nat (HEAP_BASE + 296)" using p(2) s(2) by (auto simp: single_entry_def)
    have "heap_ok (s\<lparr>hash_entries := H\<rparr>) hash_blocks" by (rule heap_ok_hash(2) [OF s(1)])
    moreover have "vm_view (s\<lparr>hash_entries := H\<rparr>) = vm_view s" by (simp add: vm_view_def)
    then have "vread ?c (s\<lparr>hash_entries := H\<rparr>) = Some 0" using vm_view_cong(1) s(4) by metis
    ultimately show "\<exists>u w. kfree (he_key e) (s\<lparr>hash_entries := H\<rparr>) = Some u \<and> slab_free no_code (hash_entry_cache s) p u = Some w"
      unfolding e s(3) by (rule free_twice)
  qed
  then have "\<exists>t u. hashtable_remove one_table [1] s = ret (0, t) u \<and> hashtable_get t [1] u = ret (- 1, None) u"
    using hashtable_remove_get [OF tis(2), of "[1]"] by auto
  moreover have "hashtable_get one_table [1] s = ret (0, Some 0x77) s" using hashtable_get_lookup [OF tis(2), of "[1]"] by simp
  ultimately show ?thesis by blast
qed

end
