(* ===== verification/Vfs_Props.thy ===== *)
theory Vfs_Props
  imports Path Hash_Correct
begin

text \<open>
  Properties of the virtual file system: reference counts, the vnode cache, the mount table and the name cache, over the
  hash table's contract.
\<close>

section \<open>Frame and locks\<close>

lemma hash_state_more: "kheap_state.more u = kheap_state.more s \<Longrightarrow> hash_state.more u = hash_state.more s"
  for s u :: "'r hash_state_scheme"
  by (cases s; cases u) simp

lemma hashtable_set_frame:
  assumes "table_map t s m" "hashtable_set t v key s = ret (r, t') u"
  shows "hash_state.more u = hash_state.more s"
proof -
  obtain C where C: "chains_are t s C" using assms(1) by (auto simp: table_map_def)
  have put: "put_he p f s' = ret () u' \<Longrightarrow> hash_state.more u' = hash_state.more s'" for p f and s' u' :: "'a hash_state_scheme"
    by (auto simp: put_he_def split: option.splits)
  have ins: "insert_entry t p q v key h s' = ret (r, t') u' \<Longrightarrow> hash_state.more u' = hash_state.more s'" for p q h and s' u' :: "'a hash_state_scheme"
    by (auto simp: insert_entry_def Let_def get_bucket_def seq_Done_iff split: if_splits dest!: put)
  have fr: "free_entry p s' = ret () u' \<Longrightarrow> hash_state.more u' = hash_state.more s'" for p and s' u' :: "'a hash_state_scheme"
    by (auto simp: free_entry_def seq_Done_iff call_def bind_eq_Some_conv dest!: slab_free_more hash_state_more)
  show ?thesis
    using assms(2) get_entry_find [OF C, of key]
    by (auto simp: hashtable_set_def Let_def seq_Done_iff call_def bind_eq_Some_conv split: if_splits
        dest!: put ins fr slab_alloc_more [THEN hash_state_more] kmalloc_more [THEN hash_state_more])
qed

lemma table_map_entries: "hash_entries u = hash_entries s \<Longrightarrow> table_map t u m = table_map t s m"
  unfolding table_map_def using chains_are_entries [of u s t] by simp

lemma vfs_fields:
  assumes "hash_state.more u = hash_state.more s"
  shows "mount_table u = mount_table s" "vnode_table u = vnode_table s" "vnode_table_lock u = vnode_table_lock s"
    "mount_table_lock u = mount_table_lock s" "vnodes u = vnodes s" "vfss u = vfss s" "namecache_table u = namecache_table s"
    "namecache_lock u = namecache_lock s" "vnode_cache u = vnode_cache s"
  using assms by (cases s; cases u; simp)+

definition vnode_table_locked :: "'r vfs_manager_t_scheme \<Rightarrow> 'r vfs_manager_t_scheme" where
  "vnode_table_locked s = s\<lparr>interrupt_flag := False, vnode_table_lock := \<lparr>lock_held = True, had_interrupt = interrupt_flag s\<rparr>\<rparr>"

lemma lock_vnode_table [simp]:
  "\<not> lock_held (vnode_table_lock s) \<Longrightarrow> vfs_lock_vnode_table s = ret () (vnode_table_locked s)"
  "vfs_unlock_vnode_table s = ret () (s\<lparr>vnode_table_lock := (vnode_table_lock s)\<lparr>lock_held := False\<rparr>,
     interrupt_flag := (had_interrupt (vnode_table_lock s) \<or> interrupt_flag s)\<rparr>)"
  by (cases "vnode_table_lock s"; cases s; simp add: vfs_lock_vnode_table_def spinlock_defs vnode_table_locked_def)
    (cases "vnode_table_lock s"; cases s; simp add: vfs_unlock_vnode_table_def spinlock_defs)

lemma vnode_table_locked_simps [simp]:
  "vnode_table (vnode_table_locked s) = vnode_table s" "vnodes (vnode_table_locked s) = vnodes s"
  "hash_entries (vnode_table_locked s) = hash_entries s"
  by (simp_all add: vnode_table_locked_def)

section \<open>Reference counts\<close>

lemma u32_succ_gt_1:
  assumes "(c :: u32) \<noteq> 0" "c \<noteq> - 1"
  shows "1 < c + 1"
proof -
  have "unat c \<noteq> 4294967295"
  proof
    assume h: "unat c = 4294967295"
    have "c = of_nat (unat c)" by simp
    then show False using assms(2) unfolding h by simp
  qed
  moreover have "unat c < 4294967296" using unsigned_less [of c] by simp
  moreover have "unat c \<noteq> 0" using assms(1) by (simp add: unat_eq_zero)
  ultimately show ?thesis by (simp add: word_less_nat_alt unat_word_ariths)
qed

text \<open>A manager with one vnode in use and one file system, and file system operations that succeed without effect.\<close>

definition vfs_example :: "hashtable_t \<Rightarrow> vfs_manager_t" where
  "vfs_example t = hash_example (vfs_manager_t.fields t t \<lparr>lock_held = False, had_interrupt = False\<rparr>
     \<lparr>lock_held = False, had_interrupt = False\<rparr> 0x3000 0x3100 t \<lparr>lock_held = False, had_interrupt = False\<rparr>
     [0x9000 \<mapsto> zero_vnode\<lparr>v_count := 1\<rparr>] (\<lambda>_. None))"

lemma vfs_example_simps [simp]:
  "mount_table (vfs_example t) = t" "vnode_table (vfs_example t) = t" "namecache_table (vfs_example t) = t"
  "\<not> lock_held (vnode_table_lock (vfs_example t))" "\<not> lock_held (namecache_lock (vfs_example t))"
  "vnodes (vfs_example t) = [0x9000 \<mapsto> zero_vnode\<lparr>v_count := 1\<rparr>]"
  by (simp_all add: vfs_example_def hash_example_def hash_state.defs kheap_state.defs vfs_manager_t.defs)

text \<open>Taking a reference to a vnode in use and dropping it again changes nothing.\<close>

theorem vnode_ref_unref:
  assumes "vp \<noteq> NULL" "vnodes s vp = Some v" "v_count v \<noteq> 0" "v_count v \<noteq> - 1"
  shows "seq (vnode_ref vp s) (\<lambda>_ s. vnode_unref ops vp s) = ret () s"
proof -
  have "v_count v + 1 > 1 \<and> v_count v + 1 \<noteq> 0" using u32_succ_gt_1 [OF assms(3,4)] by auto
  then show ?thesis
    using assms by (subst vnode_unref.simps) (auto simp: vnode_ref_def fun_upd_idem)
qed

theorem vnode_ref_unref_witness:
  "\<exists>ops :: vfs_manager_t fs_ops. seq (vnode_ref 0x9000 (vfs_example table_example)) (\<lambda>_ s. vnode_unref ops 0x9000 s) =
     ret () (vfs_example table_example)"
  using vnode_ref_unref [of "0x9000" "vfs_example table_example" "zero_vnode\<lparr>v_count := 1\<rparr>"] by simp

section \<open>The vnode cache\<close>

text \<open>The keys of the vnode cache determine the file system and the node.\<close>

lemma word_bytes_inj: "word_bytes v = word_bytes w \<longleftrightarrow> v = w"
proof
  assume eq: "word_bytes v = word_bytes w"
  show "v = w"
  proof (rule bit_word_eqI)
    fix n assume n: "n < LENGTH(64)"
    then have i: "n div 8 < 8" "n mod 8 < 8" by simp_all
    have "word_bytes v ! (n div 8) = word_bytes w ! (n div 8)" using eq by simp
    then have "bit (ucast (drop_bit (8 * (n div 8)) v) :: u8) (n mod 8) = bit (ucast (drop_bit (8 * (n div 8)) w) :: u8) (n mod 8)"
      using i by (simp add: word_bytes_def)
    then show "bit v n = bit w n" using i by (simp add: bit_simps)
  qed
qed simp

lemma length_word_bytes [simp]: "length (word_bytes w) = 8"
  by (simp add: word_bytes_def)

lemma create_vnode_key_inj:
  "create_vnode_key vfsp n = create_vnode_key vfsp' n' \<longleftrightarrow> vfsp = vfsp' \<and> n = n'"
  by (simp add: create_vnode_key_def word_bytes_inj)

text \<open>Caching a vnode that is not cached: afterwards exactly its key leads to it, a second insertion is refused with \<open>EEXIST\<close>, every
  other node is as before, and the lock and the interrupt flag are restored.\<close>

theorem vnode_cache_insert_exists:
  assumes "table_map (vnode_table s) s m" "vfsp \<noteq> NULL" "vp \<noteq> NULL" "m (create_vnode_key vfsp n) = None"
    "\<not> lock_held (vnode_table_lock s)" "entry_room (create_vnode_key vfsp n) (vnode_table_locked s)"
  shows "\<exists>u. vnode_cache_insert vfsp n vp s = ret 0 u \<and>
    table_map (vnode_table u) u (m(create_vnode_key vfsp n \<mapsto> vp)) \<and>
    (\<forall>vp'. vp' \<noteq> NULL \<longrightarrow> (\<exists>w. vnode_cache_insert vfsp n vp' u = ret (- EEXIST) w)) \<and>
    \<not> lock_held (vnode_table_lock u)"
proof -
  let ?k = "create_vnode_key vfsp n" and ?s = "vnode_table_locked s"
  have tm: "table_map (vnode_table ?s) ?s m" using assms(1) table_map_entries [of ?s s] by simp
  obtain t u where u: "hashtable_set (vnode_table s) vp ?k ?s = ret (0, t) u" "table_map t u (m(?k \<mapsto> vp))"
    using hashtable_set_map [OF tm, of ?k vp] assms(6) by auto
  define w where "w = (let v = u\<lparr>vnode_table := t\<rparr> in v\<lparr>vnode_table_lock := (vnode_table_lock v)\<lparr>lock_held := False\<rparr>,
     interrupt_flag := (had_interrupt (vnode_table_lock v) \<or> interrupt_flag v)\<rparr>)"
  have "vnode_cache_insert vfsp n vp s = ret 0 w"
    using assms(2-5) u(1) hashtable_get_lookup [OF tm, of ?k]
    by (simp add: vnode_cache_insert_def vnode_cache_lookup_locked_def vnode_cache_insert_locked_def w_def Let_def)
  moreover have tw: "table_map (vnode_table w) w (m(?k \<mapsto> vp))"
    using u(2) table_map_entries [of w u] by (simp add: w_def Let_def)
  moreover have lw: "\<not> lock_held (vnode_table_lock w)" by (simp add: w_def Let_def)
  moreover have "\<exists>x. vnode_cache_insert vfsp n vp' w = ret (- EEXIST) x" if "vp' \<noteq> NULL" for vp'
  proof -
    have "table_map (vnode_table (vnode_table_locked w)) (vnode_table_locked w) (m(?k \<mapsto> vp))"
      using tw table_map_entries [of "vnode_table_locked w" w] by simp
    from hashtable_get_lookup [OF this, of ?k] show ?thesis
      using assms(2,3) that lw by (simp add: vnode_cache_insert_def vnode_cache_lookup_locked_def stored_def)
  qed
  ultimately show ?thesis by blast
qed

theorem vnode_cache_insert_exists_witness:
  "\<exists>(s :: vfs_manager_t) u w. vnode_cache_insert 0x8000 5 0x9000 s = ret 0 u \<and> vnode_cache_insert 0x8000 5 0x9000 u = ret (- EEXIST) w"
proof -
  let ?k = "create_vnode_key 0x8000 5"
  obtain s0 :: vfs_manager_t where s0: "heap_ok s0 hash_blocks" "hash_entry_cache s0 = of_nat (HEAP_BASE + 24)" "hash_entries s0 = Map.empty"
    by (rule hash_heap)
  define s1 where "s1 = s0\<lparr>vnode_table := table_example, interrupt_flag := False, vnode_table_lock := \<lparr>lock_held = True, had_interrupt = False\<rparr>\<rparr>"
  have "heap_ok s1 hash_blocks" by (rule heap_ok_view [OF s0(1)]) (simp_all add: s1_def vm_view_def)
  then obtain t where t: "entry_room ?k t" "t = s1\<lparr>pmem := pmem t\<rparr>"
    using example_room [of s1 ?k] s0(2,3) by (auto simp: s1_def create_vnode_key_def word_bytes_def)
  define s where "s = t\<lparr>vnode_table_lock := \<lparr>lock_held = False, had_interrupt = False\<rparr>\<rparr>"
  have "vnode_table_locked s = t"
    using arg_cong [OF t(2), of interrupt_flag] arg_cong [OF t(2), of vnode_table_lock]
    by (cases t) (simp add: s_def s1_def vnode_table_locked_def)
  moreover have "table_map (vnode_table s) s Map.empty"
    using arg_cong [OF t(2), of vnode_table] table_example_empty by (simp add: s_def s1_def)
  ultimately have "\<exists>u. vnode_cache_insert 0x8000 5 0x9000 s = ret 0 u \<and>
      (\<forall>vp. vp \<noteq> NULL \<longrightarrow> (\<exists>w. vnode_cache_insert 0x8000 5 vp u = ret (- EEXIST) w))"
    using vnode_cache_insert_exists [of s Map.empty "0x8000" "0x9000" 5] t(1) by (auto simp: s_def)
  then obtain u where u: "vnode_cache_insert 0x8000 5 0x9000 s = ret 0 u"
      "\<forall>vp. vp \<noteq> NULL \<longrightarrow> (\<exists>w. vnode_cache_insert 0x8000 5 vp u = ret (- EEXIST) w)" by blast
  from u(2) have "\<exists>w. vnode_cache_insert 0x8000 5 0x9000 u = ret (- EEXIST) w" by simp
  then show ?thesis using u(1) by blast
qed

text \<open>Getting a cached vnode reports success, takes a reference, and hands out a null pointer: \<open>vnode_cache_lookup\<close> never stores
  what it found.\<close>

theorem vnode_get_cached_null:
  assumes "table_map (vnode_table s) s m" "vfsp \<noteq> NULL" "m (create_vnode_key vfsp n) = Some vp" "vp \<noteq> NULL"
    "vnodes s vp = Some v" "\<not> lock_held (vnode_table_lock s)"
  shows "\<exists>u. vnode_get ops vfsp True n s = ret (0, Some NULL) u \<and>
    vnodes u = (vnodes s)(vp \<mapsto> v\<lparr>v_count := v_count v + 1\<rparr>)"
proof -
  let ?k = "create_vnode_key vfsp n" and ?s = "vnode_table_locked s"
  have "table_map (vnode_table ?s) ?s m" using assms(1) table_map_entries [of ?s s] by simp
  from hashtable_get_lookup [OF this, of ?k] show ?thesis
    using assms(2-6)
    by (simp add: vnode_get_def vnode_cache_lookup_def vnode_cache_lookup_locked_def stored_def vnode_ref_def)
qed

theorem vnode_get_cached_null_witness:
  "\<exists>(s :: vfs_manager_t) ops u. vnode_get ops 0x8000 True 5 s = ret (0, Some NULL) u \<and>
     vnodes u = [0x9000 \<mapsto> zero_vnode\<lparr>v_count := 2\<rparr>]"
proof -
  let ?k = "create_vnode_key 0x8000 5"
  define s where "s = (vfs_example (single_table 0x7000))\<lparr>hash_entries := [0x7000 \<mapsto> single_entry ?k 0x9000 0x7100]\<rparr>"
  have "table_map (vnode_table s) s [?k \<mapsto> 0x9000]"
    using single_table_is(2) [of s "0x7000" ?k "0x9000" "0x7100"] by (simp add: s_def)
  from vnode_get_cached_null [OF this, of "0x8000" 5 "0x9000" "zero_vnode\<lparr>v_count := 1\<rparr>"] show ?thesis
    by (simp add: s_def) blast
qed

section \<open>Mounting\<close>

definition mount_table_locked :: "'r vfs_manager_t_scheme \<Rightarrow> 'r vfs_manager_t_scheme" where
  "mount_table_locked s = s\<lparr>interrupt_flag := False, mount_table_lock := \<lparr>lock_held = True, had_interrupt = interrupt_flag s\<rparr>\<rparr>"

definition mount_table_unlocked :: "'r vfs_manager_t_scheme \<Rightarrow> 'r vfs_manager_t_scheme" where
  "mount_table_unlocked s = s\<lparr>mount_table_lock := (mount_table_lock s)\<lparr>lock_held := False\<rparr>,
     interrupt_flag := (had_interrupt (mount_table_lock s) \<or> interrupt_flag s)\<rparr>"

lemma lock_mount_table [simp]:
  "\<not> lock_held (mount_table_lock s) \<Longrightarrow> vfs_lock_mount_table s = ret () (mount_table_locked s)"
  "vfs_unlock_mount_table s = ret () (mount_table_unlocked s)"
  by (cases "mount_table_lock s"; cases s; simp add: vfs_lock_mount_table_def spinlock_defs mount_table_locked_def)
    (cases "mount_table_lock s"; cases s; simp add: vfs_unlock_mount_table_def spinlock_defs mount_table_unlocked_def)

lemma mount_table_locked_simps [simp]:
  "mount_table (mount_table_locked s) = mount_table s" "hash_entries (mount_table_locked s) = hash_entries s"
  "mount_table (mount_table_unlocked s) = mount_table s" "hash_entries (mount_table_unlocked s) = hash_entries s"
  "\<not> lock_held (mount_table_lock (mount_table_unlocked s))"
  by (simp_all add: mount_table_locked_def mount_table_unlocked_def)

lemma vfs_from_path_lookup:
  assumes "table_map (mount_table s) s m" "\<not> lock_held (mount_table_lock s)"
  shows "\<exists>u. vfs_from_path (Some p) s = ret (stored (m (p @ [0]))) u"
proof -
  let ?s = "mount_table_locked s"
  have "table_map (mount_table ?s) ?s m" using assms(1) table_map_entries [of ?s s] by simp
  from hashtable_get_lookup [OF this, of "p @ [0]"] show ?thesis using assms(2) by (simp add: vfs_from_path_def)
qed

text \<open>The state in which \<open>vfs_mount_fs\<close> calls the mount function of the file system: the fields of the file system are set, and
  the covered vnode, if any, has one more reference.\<close>

definition mount_called :: "addr \<Rightarrow> addr \<Rightarrow> int \<Rightarrow> 'r vfs_manager_t_scheme \<Rightarrow> 'r vfs_manager_t_scheme" where
  "mount_called vfsp covered flags s = s\<lparr>
     vfss := (vfss s)(vfsp := map_option (\<lambda>f. f\<lparr>vfs_vnode_covered := covered, vfs_flag := word_of_int flags, vfs_next := NULL\<rparr>) (vfss s vfsp)),
     vnodes := (if covered = NULL then vnodes s
       else (vnodes s)(covered := map_option (\<lambda>v. v\<lparr>v_count := v_count v + 1\<rparr>) (vnodes s covered)))\<rparr>"

text \<open>C22: once the mount function of a file system has succeeded, and there is room in the mount table, \<open>vfs_mount_fs\<close> enters one
  path: the first 255 bytes of the given one then lead to the file system, and every other path, among them the given
  one if it is longer, leads where it led before.  A covered vnode has got a reference.\<close>

theorem vfs_mount_lookup:
  assumes "vfsp \<noteq> NULL" "vfss s vfsp = Some f" "vfs_op f \<noteq> NULL" "vfs_mount ops (vfs_op f) = Some mount"
    "covered \<noteq> NULL \<longrightarrow> vnodes s covered \<noteq> None"
    and mnt: "mount vfsp covered path flags (mount_called vfsp covered flags s) = ret 0 u"
    and u: "vfss u vfsp = Some g" "table_map (mount_table u) u m" "\<not> lock_held (mount_table_lock u)"
    and room: "entry_room (take 255 path @ [0]) (mount_table_locked (u\<lparr>vfss := (vfss u)(vfsp \<mapsto> g\<lparr>vfs_mount_path := take 255 path\<rparr>)\<rparr>))"
  shows "\<exists>w. vfs_mount_fs ops vfsp covered (Some path) flags s = ret 0 w \<and> table_map (mount_table w) w (m(take 255 path @ [0] \<mapsto> vfsp)) \<and>
    (\<forall>p. \<exists>x. vfs_from_path (Some p) w = ret (if p = take 255 path then vfsp else stored (m (p @ [0]))) x)"
proof -
  let ?k = "take 255 path @ [0]"
  define v where "v = mount_table_locked (u\<lparr>vfss := (vfss u)(vfsp \<mapsto> g\<lparr>vfs_mount_path := take 255 path\<rparr>)\<rparr>)"
  have tv: "table_map (mount_table v) v m" "mount_table v = mount_table u" using u(2) table_map_entries [of v u] by (simp_all add: v_def)
  obtain t x where x: "hashtable_set (mount_table v) vfsp ?k v = ret (0, t) x" "table_map t x (m(?k \<mapsto> vfsp))"
    using hashtable_set_map [OF tv(1), of ?k vfsp] room [folded v_def] by blast
  let ?w = "mount_table_unlocked (x\<lparr>mount_table := t\<rparr>)"
  have call: "seq (if covered \<noteq> NULL then vnode_ref covered s1 else ret () s1) k = k () (mount_called vfsp covered flags s)"
    if "s1 = s\<lparr>vfss := (vfss s)(vfsp \<mapsto> f\<lparr>vfs_vnode_covered := covered, vfs_flag := word_of_int flags, vfs_next := NULL\<rparr>)\<rparr>" for s1 and k :: "_ \<Rightarrow> _ \<Rightarrow> (int, 'a) vfs_result"
    using assms(2,5) that by (auto simp: mount_called_def vnode_ref_def)
  have "vfs_mount_fs ops vfsp covered (Some path) flags s = ret 0 ?w"
    using assms(1-4) mnt u(1,3) x(1) tv(2) by (simp add: vfs_mount_fs_def VFS_MOUNT_PATH_MAX_def v_def call del: if_split)
  moreover have tw: "table_map (mount_table ?w) ?w (m(?k \<mapsto> vfsp))" using x(2) table_map_entries [of ?w x] by simp
  moreover have "\<exists>y. vfs_from_path (Some p) ?w = ret (if p = take 255 path then vfsp else stored (m (p @ [0]))) y" for p
    using vfs_from_path_lookup [OF tw, of p] by (cases "p = take 255 path") (simp_all add: stored_def)
  ultimately show ?thesis by blast
qed

definition ops_example :: "'s fs_ops" where
  "ops_example = \<lparr>vn_inactive = (\<lambda>_. None), vfs_mount = (\<lambda>_. Some (\<lambda>_ _ _ _ s. ret 0 s)), vfs_unmount = (\<lambda>_. None),
     vfs_root = (\<lambda>_. None), vfs_vget = (\<lambda>_. None)\<rparr>"

definition fs_example :: vfs_t where
  "fs_example = \<lparr>vfs_next = NULL, vfs_op = 0x6000, vfs_vnode_covered = NULL, vfs_flag = 0, vfs_bsize = 0, vfs_data = NULL,
     vfs_mount_path = []\<rparr>"

theorem vfs_mount_lookup_witness:
  "\<exists>(s :: vfs_manager_t) w x y. vfs_mount_fs ops_example 0x8000 NULL (Some [47]) 0 s = ret 0 w \<and>
     vfs_from_path (Some [47]) w = ret 0x8000 x \<and> vfs_from_path (Some [47, 47]) w = ret NULL y"
proof -
  let ?g = "fs_example\<lparr>vfs_mount_path := [47]\<rparr>"
  obtain s0 :: vfs_manager_t where s0: "heap_ok s0 hash_blocks" "hash_entry_cache s0 = of_nat (HEAP_BASE + 24)" "hash_entries s0 = Map.empty"
    by (rule hash_heap)
  define s1 where "s1 = s0\<lparr>mount_table := table_example, interrupt_flag := False, vfss := [0x8000 \<mapsto> ?g],
    mount_table_lock := \<lparr>lock_held = True, had_interrupt = False\<rparr>\<rparr>"
  have "heap_ok s1 hash_blocks" by (rule heap_ok_view [OF s0(1)]) (simp_all add: s1_def vm_view_def)
  then obtain t where t: "entry_room [47, 0] t" "t = s1\<lparr>pmem := pmem t\<rparr>"
    using example_room [of s1 "[47, 0]"] s0(2,3) by (auto simp: s1_def)
  note f = arg_cong [OF t(2), of interrupt_flag] arg_cong [OF t(2), of mount_table_lock] arg_cong [OF t(2), of vfss] arg_cong [OF t(2), of mount_table]
  define s where "s = t\<lparr>mount_table_lock := \<lparr>lock_held = False, had_interrupt = False\<rparr>, vfss := [0x8000 \<mapsto> fs_example]\<rparr>"
  have fs: "fs_example\<lparr>vfs_vnode_covered := NULL, vfs_flag := word_of_int 0, vfs_next := NULL\<rparr> = fs_example" by (simp add: fs_example_def)
  have lk: "mount_table_locked (s\<lparr>vfss := (vfss s)(0x8000 \<mapsto> ?g)\<rparr>) = t"
    using f by (cases t) (simp add: s_def s1_def mount_table_locked_def)
  have same: "mount_called 0x8000 NULL 0 s = s" using fs by (simp add: s_def mount_called_def)
  let ?mnt = "\<lambda>_ _ _ _ s. ret 0 s" and ?p = "[47] :: u8 list"
  have "\<exists>w. vfs_mount_fs ops_example 0x8000 NULL (Some ?p) 0 s = ret 0 w \<and>
      table_map (mount_table w) w (Map.empty(take 255 ?p @ [0] \<mapsto> 0x8000)) \<and>
      (\<forall>p. \<exists>x. vfs_from_path (Some p) w = ret (if p = take 255 ?p then 0x8000 else stored (Map.empty (p @ [0]))) x)"
  proof (rule vfs_mount_lookup [where f = fs_example and g = fs_example and u = s and mount = ?mnt])
    show "vfss s 0x8000 = Some fs_example" "vfss s 0x8000 = Some fs_example" by (simp_all add: s_def)
    show "vfs_op fs_example \<noteq> NULL" by (simp add: fs_example_def)
    show "table_map (mount_table s) s Map.empty" using f(4) table_example_empty by (simp add: s_def s1_def)
    show "\<not> lock_held (mount_table_lock s)" by (simp add: s_def)
    show "NULL \<noteq> NULL \<longrightarrow> vnodes s NULL \<noteq> None" by simp
    show "entry_room (take 255 ?p @ [0]) (mount_table_locked (s\<lparr>vfss := (vfss s)(0x8000 \<mapsto> fs_example\<lparr>vfs_mount_path := take 255 ?p\<rparr>)\<rparr>))"
      using t(1) lk by simp
  qed (simp_all only: ops_example_def fs_ops.simps same, simp)
  then obtain w where "vfs_mount_fs ops_example 0x8000 NULL (Some ?p) 0 s = ret 0 w"
      "\<And>p. \<exists>x. vfs_from_path (Some p) w = ret (if p = take 255 ?p then 0x8000 else stored (Map.empty (p @ [0]))) x" by blast
  note w = this(1) this(2) [of "[47]"] this(2) [of "[47, 47]"]
  have "\<exists>y. vfs_from_path (Some [47, 47]) w = ret NULL y" using w(3) by (simp add: stored_def)
  moreover have "\<exists>x. vfs_from_path (Some [47]) w = ret 0x8000 x" using w(2) by simp
  ultimately show ?thesis using w(1) by blast
qed

section \<open>The name cache\<close>

definition namecache_locked :: "'r vfs_manager_t_scheme \<Rightarrow> 'r vfs_manager_t_scheme" where
  "namecache_locked s = s\<lparr>interrupt_flag := False, namecache_lock := \<lparr>lock_held = True, had_interrupt = interrupt_flag s\<rparr>\<rparr>"

lemma lock_namecache [simp]:
  "\<not> lock_held (namecache_lock s) \<Longrightarrow> lock_namecache s = ret () (namecache_locked s)"
  by (cases "namecache_lock s"; cases s; simp add: lock_namecache_def spinlock_defs namecache_locked_def)

lemma namecache_locked_simps [simp]:
  "namecache_table (namecache_locked s) = namecache_table s" "hash_entries (namecache_locked s) = hash_entries s"
  "vnodes (namecache_locked s) = vnodes s"
  by (simp_all add: namecache_locked_def)

text \<open>C39: What lies on the stack behind the name is part of the key: the cached name is found only by a caller whose stack holds the
  same bytes there.\<close>

theorem namecache_depends_on_stack:
  assumes "table_map (namecache_table s) s [make_namecache_key stack dvp name \<mapsto> vp]" "dvp \<noteq> NULL" "vp \<noteq> NULL"
    "vnodes s vp = Some v" "\<not> lock_held (namecache_lock s)" "length name \<le> 255" "length stack = 256" "length stack' = 256"
  shows "\<exists>u. namecache_lookup stack' dvp (Some name) True s =
    (if drop (Suc (length name)) stack' = drop (Suc (length name)) stack then ret (0, Some vp) u else ret (- ENOENT, None) u)"
proof -
  let ?k = "make_namecache_key stack' dvp name" and ?s = "namecache_locked s"
  have "table_map (namecache_table ?s) ?s [make_namecache_key stack dvp name \<mapsto> vp]" using assms(1) table_map_entries [of ?s s] by simp
  note get = hashtable_get_lookup [OF this, of ?k]
  have k: "?k = make_namecache_key stack dvp name \<longleftrightarrow> drop (Suc (length name)) stack' = drop (Suc (length name)) stack"
    using assms(6-8) by (simp add: make_namecache_key_def NAME_MAX_def Let_def)
  show ?thesis
  proof (cases "drop (Suc (length name)) stack' = drop (Suc (length name)) stack")
    case True
    then show ?thesis using get k assms(2-5)
      by (simp add: namecache_lookup_def stored_def vnode_ref_def unlock_namecache_def split: prod.splits)
  next
    case False
    then have "?k \<noteq> make_namecache_key stack dvp name" using k by simp
    then show ?thesis using get assms(2,5) False
      by (simp add: namecache_lookup_def stored_def unlock_namecache_def split: prod.splits)
  qed
qed

theorem namecache_depends_on_stack_witness:
  "\<exists>(s :: vfs_manager_t) u w. namecache_lookup (replicate 256 0) 0x9100 (Some [97]) True s = ret (0, Some 0x9000) u \<and>
     namecache_lookup (replicate 256 1) 0x9100 (Some [97]) True s = ret (- ENOENT, None) w"
proof -
  let ?k = "make_namecache_key (replicate 256 0) 0x9100 [97]"
  define s where "s = (vfs_example (single_table 0x7000))\<lparr>hash_entries := [0x7000 \<mapsto> single_entry ?k 0x9000 0x7100]\<rparr>"
  have m: "table_map (namecache_table s) s [?k \<mapsto> 0x9000]"
    using single_table_is(2) [of s "0x7000" ?k "0x9000" "0x7100"] by (simp add: s_def)
  have "\<exists>u. namecache_lookup st 0x9100 (Some [97]) True s = (if drop (Suc (length [97 :: u8])) st = drop (Suc (length [97 :: u8])) (replicate 256 0)
      then ret (0, Some 0x9000) u else ret (- ENOENT, None) u)" if "length st = 256" for st
    by (rule namecache_depends_on_stack [OF m]) (simp_all add: s_def that)
  from this [of "replicate 256 0"] this [of "replicate 256 1"] show ?thesis by (auto simp: drop_replicate)
qed

end
