(* ===== verification/Vnode_Props.thy ===== *)
theory Vnode_Props
  imports Vfs_Props
begin

text \<open>
  Releasing vnodes.  Dropping the last reference to a vnode runs the file system's hook, frees the private data, drops the
  reference it holds to its parent, and so on up the tree, to the first ancestor that is still in use, and gives the memory of the
  vnodes back.  The vnode cache holds no reference of
  its own, so this may leave it with pointers to vnodes that are gone.
\<close>

section \<open>Chains of vnodes that die together\<close>

text \<open>A vnode whose only reference is about to be dropped.\<close>

definition last_reference :: "vnode_t \<Rightarrow> bool" where
  "last_reference v \<longleftrightarrow> v_count v = 1 \<and> v_flag v AND VFREEING = 0"

text \<open>\<open>dying vn vp cs q\<close>: from \<open>vp\<close> the parents lead along \<open>cs\<close>, each with its last reference, to \<open>q\<close>.\<close>

fun dying :: "(addr \<Rightarrow> vnode_t option) \<Rightarrow> addr \<Rightarrow> addr list \<Rightarrow> addr \<Rightarrow> bool" where
  "dying vn vp [] q \<longleftrightarrow> vp = q"
| "dying vn vp (c # cs) q \<longleftrightarrow> vp = c \<and> c \<noteq> NULL \<and> c \<noteq> q \<and> c \<notin> set cs \<and>
     (\<exists>v. vn c = Some v \<and> last_reference v \<and> dying vn (v_parent v) cs q)"

text \<open>What is left of the vnodes: the dead are gone, and the survivor, if any, has one reference less.\<close>

definition drop_reference :: "addr \<Rightarrow> (addr \<Rightarrow> vnode_t option) \<Rightarrow> addr \<Rightarrow> vnode_t option" where
  "drop_reference q vn = (if q = NULL then vn else vn(q := map_option (\<lambda>v. v\<lparr>v_count := v_count v - 1\<rparr>) (vn q)))"

definition survives :: "(addr \<Rightarrow> vnode_t option) \<Rightarrow> addr \<Rightarrow> bool" where
  "survives vn q \<longleftrightarrow> q = NULL \<or> (\<exists>v. vn q = Some v \<and> 1 < v_count v)"

definition buried :: "addr list \<Rightarrow> addr \<Rightarrow> (addr \<Rightarrow> vnode_t option) \<Rightarrow> addr \<Rightarrow> vnode_t option" where
  "buried cs q vn = drop_reference q (\<lambda>x. if x \<in> set cs then None else vn x)"

lemma buried_Cons:
  assumes "c \<notin> set cs" "c \<noteq> q"
  shows "(buried cs q (vn(c \<mapsto> v)))(c := y, c := None) = buried (c # cs) q vn" "buried cs q (vn(c \<mapsto> v)) c = Some v"
  using assms by (auto simp: buried_def drop_reference_def fun_eq_iff)

lemma dying_cong: "(\<And>c. c \<in> set cs \<Longrightarrow> vn c = vm c) \<Longrightarrow> dying vn vp cs q = dying vm vp cs q"
  by (induction cs arbitrary: vp) auto

text \<open>Only the vnodes change above the heap.\<close>

definition vnodes_become :: "'r vfs_manager_t_scheme \<Rightarrow> (addr \<Rightarrow> vnode_t option) \<Rightarrow> 'r vfs_manager_t_scheme \<Rightarrow> bool" where
  "vnodes_become s vn u \<longleftrightarrow> kheap_state.more u = kheap_state.more (s\<lparr>vnodes := vn\<rparr>)"

lemma vnodes_becomeD:
  assumes "vnodes_become s vn u"
  shows "vnodes u = vn" "vnode_table u = vnode_table s" "vnode_table_lock u = vnode_table_lock s" "hash_entries u = hash_entries s"
    "vnode_cache u = vnode_cache s"
  using assms by (cases s; cases u; simp add: vnodes_become_def)+

lemma vnodes_become_trans:
  assumes "vnodes_become s vn u" "vnodes_become u vm w"
  shows "vnodes_become s vm w"
  using assms by (cases s; cases u; cases w; simp add: vnodes_become_def)

lemma vnodes_become_update: "vnodes_become s vn (u\<lparr>vnodes := vn\<rparr>) \<longleftrightarrow> vnodes_become s (vnodes u) u"
  by (cases s; cases u; simp add: vnodes_become_def)

lemma vnodes_become_refl: "vnodes_become s (vnodes s) s" "vnodes_become s vn (s\<lparr>vnodes := vn\<rparr>)"
  by (cases s; simp add: vnodes_become_def)+

section \<open>What is given back\<close>

text \<open>The steps that give something back: the hook of a vnode's operations, private data, the vnode itself.\<close>

datatype release = Inactive addr addr | Private_data addr | Vnode_object addr

fun release_step :: "'r vfs_manager_t_scheme fs_ops \<Rightarrow> release \<Rightarrow> 'r vfs_manager_t_scheme \<Rightarrow> (unit, 'r) vfs_result" where
  "release_step ops (Inactive oper vp) s = (case vn_inactive ops oper of None \<Rightarrow> ret () s | Some f \<Rightarrow> seq (f vp s) (\<lambda>_ s. ret () s))"
| "release_step ops (Private_data p) s = call (map_option (Pair ()) (kfree p s))"
| "release_step ops (Vnode_object vp) s = call (map_option (Pair ()) (slab_free no_code (vnode_cache s) vp s))"

text \<open>Before the parent, a vnode gives back its private data, after the hook has run; last, it is given back itself.\<close>

definition own_releases :: "'s fs_ops \<Rightarrow> addr \<Rightarrow> vnode_t \<Rightarrow> release list" where
  "own_releases ops vp v =
     (if v_op v = NULL \<or> vn_inactive ops (v_op v) = None then [] else [Inactive (v_op v) vp]) @
     (if v_data v = NULL then [] else [Private_data (v_data v)])"

fun releases :: "'s fs_ops \<Rightarrow> (addr \<Rightarrow> vnode_t option) \<Rightarrow> addr list \<Rightarrow> release list" where
  "releases ops vn [] = []"
| "releases ops vn (c # cs) = (case vn c of None \<Rightarrow> [] | Some v \<Rightarrow> own_releases ops c v) @ releases ops vn cs @ [Vnode_object c]"

text \<open>The steps complete in this order, whatever vnodes contain, and none of them touches the data structures above the heap.\<close>

fun releasable :: "'r vfs_manager_t_scheme fs_ops \<Rightarrow> release list \<Rightarrow> 'r vfs_manager_t_scheme \<Rightarrow> bool" where
  "releasable ops [] s \<longleftrightarrow> True"
| "releasable ops (r # rs) s \<longleftrightarrow>
     (\<forall>vm. \<exists>u. release_step ops r (s\<lparr>vnodes := vm\<rparr>) = ret () u \<and> vnodes_become s vm u \<and> releasable ops rs u)"

text \<open>From one state to another, apart from vnodes, nothing happens but these steps in this order.\<close>

fun performs :: "'r vfs_manager_t_scheme fs_ops \<Rightarrow> release list \<Rightarrow> 'r vfs_manager_t_scheme \<Rightarrow> 'r vfs_manager_t_scheme \<Rightarrow> bool" where
  "performs ops [] s u \<longleftrightarrow> (\<exists>vm. u = s\<lparr>vnodes := vm\<rparr>)"
| "performs ops (r # rs) s u \<longleftrightarrow> (\<exists>vm t. release_step ops r (s\<lparr>vnodes := vm\<rparr>) = ret () t \<and> performs ops rs t u)"

lemma releases_cong: "(\<And>c. c \<in> set cs \<Longrightarrow> vn c = vm c) \<Longrightarrow> releases ops vn cs = releases ops vm cs"
  by (induction cs) auto

lemma vnodes_twice: "s\<lparr>vnodes := v, vnodes := w\<rparr> = s\<lparr>vnodes := w\<rparr>" by simp

lemma vnodes_become_from: "vnodes_become (s\<lparr>vnodes := v\<rparr>) w u = vnodes_become s w u"
  by (simp add: vnodes_become_def)

lemma releasable_vnodes [simp]: "releasable ops rs (s\<lparr>vnodes := vm\<rparr>) = releasable ops rs s"
  by (cases rs) (simp_all add: vnodes_twice vnodes_become_from)

lemma performs_vnodes [simp]:
  "performs ops rs (s\<lparr>vnodes := vm\<rparr>) u = performs ops rs s u" "performs ops rs s (u\<lparr>vnodes := vm\<rparr>) = performs ops rs s u"
proof -
  show "performs ops rs (s\<lparr>vnodes := vm\<rparr>) u = performs ops rs s u" by (cases rs) (simp_all add: vnodes_twice)
  show "performs ops rs s (u\<lparr>vnodes := vm\<rparr>) = performs ops rs s u"
  proof (induction rs arbitrary: s)
    case Nil
    have "u = (u\<lparr>vnodes := vm\<rparr>)\<lparr>vnodes := vnodes u\<rparr>" by simp
    then show ?case by (metis performs.simps(1) vnodes_twice)
  qed simp
qed

lemma performs_refl: "performs ops [] s s"
  unfolding performs.simps by (rule exI [of _ "vnodes s"]) simp

lemma performs_append:
  assumes "performs ops rs s t" "performs ops qs t u"
  shows "performs ops (rs @ qs) s u"
  using assms(1)
proof (induction rs arbitrary: s)
  case Nil
  then obtain vm where "t = s\<lparr>vnodes := vm\<rparr>" by auto
  then show ?case using assms(2) by simp
next
  case (Cons r rs)
  then obtain vm x where "release_step ops r (s\<lparr>vnodes := vm\<rparr>) = ret () x" "performs ops rs x t" by auto
  then show ?case using Cons.IH by auto
qed

lemma releasable_step:
  assumes "releasable ops (r # rs) s"
  obtains u where "release_step ops r s = ret () u" "vnodes_become s (vnodes s) u" "releasable ops rs u" "performs ops [r] s u"
proof -
  have "\<exists>u. release_step ops r (s\<lparr>vnodes := vnodes s\<rparr>) = ret () u \<and> vnodes_become s (vnodes s) u \<and> releasable ops rs u"
    using assms unfolding releasable.simps by blast
  then obtain u where u: "release_step ops r s = ret () u" "vnodes_become s (vnodes s) u" "releasable ops rs u" by auto
  have "performs ops [r] s u" using u(1) performs_refl [of ops u] by (simp only: performs.simps(2)) (rule exI [of _ "vnodes s"], simp)
  then show ?thesis using that u by blast
qed

lemma releasable_append: "releasable ops (ps @ qs) s \<Longrightarrow> releasable ops ps s"
  by (induction ps arbitrary: s) (simp, metis append_Cons releasable.simps(2))

lemma free_vnode_object_done:
  assumes "releasable ops (Vnode_object vp # rs) s"
  obtains u where "free_vnode_object vp s = ret () u" "vnodes_become s ((vnodes s)(vp := None)) u" "releasable ops rs u"
    "performs ops [Vnode_object vp] s u"
proof -
  obtain t where t: "release_step ops (Vnode_object vp) s = ret () t" "vnodes_become s (vnodes s) t" "releasable ops rs t"
      "performs ops [Vnode_object vp] s t"
    by (rule releasable_step [OF assms])
  let ?u = "t\<lparr>vnodes := (vnodes t)(vp := None)\<rparr>"
  have "free_vnode_object vp s = ret () ?u" using t(1) by (auto simp: free_vnode_object_def)
  moreover have "vnodes_become s ((vnodes s)(vp := None)) ?u"
    using t(2) vnodes_becomeD(1) [OF t(2)] vnodes_become_update [of s "(vnodes s)(vp := None)" t] by simp
  ultimately show ?thesis using that [of ?u] t(3,4) by simp
qed

lemma run_inactive_done:
  assumes "vnodes s c = Some w" "releasable ops ((if v_op w = NULL \<or> vn_inactive ops (v_op w) = None then [] else [Inactive (v_op w) c]) @ rs) s"
  obtains u where "run_inactive ops c s = ret () u" "vnodes_become s (vnodes s) u" "releasable ops rs u"
    "performs ops (if v_op w = NULL \<or> vn_inactive ops (v_op w) = None then [] else [Inactive (v_op w) c]) s u"
proof (cases "v_op w = NULL \<or> vn_inactive ops (v_op w) = None")
  case True
  then have "run_inactive ops c s = ret () s" using assms(1) by (auto simp: run_inactive_def)
  moreover have "releasable ops rs s" using assms(2) unfolding if_P [OF True] by simp
  ultimately show ?thesis using that [of s, unfolded if_P [OF True]] performs_refl vnodes_become_refl(1) by blast
next
  case False
  have "releasable ops (Inactive (v_op w) c # rs) s" using assms(2) unfolding if_not_P [OF False] append.simps .
  then obtain u where u: "release_step ops (Inactive (v_op w) c) s = ret () u" "vnodes_become s (vnodes s) u" "releasable ops rs u"
      "performs ops [Inactive (v_op w) c] s u"
    by (rule releasable_step)
  have "run_inactive ops c s = ret () u" using u(1) assms(1) False by (auto simp: run_inactive_def split: option.splits)
  then show ?thesis using that [of u, unfolded if_not_P [OF False]] u(2-4) by blast
qed

lemma free_vnode_data_done:
  assumes "vnodes s c = Some w" "releasable ops ((if v_data w = NULL then [] else [Private_data (v_data w)]) @ rs) s"
  obtains u where "free_vnode_data c s = ret () u" "vnodes_become s ((vnodes s)(c \<mapsto> w\<lparr>v_data := NULL\<rparr>)) u" "releasable ops rs u"
    "performs ops (if v_data w = NULL then [] else [Private_data (v_data w)]) s u"
proof (cases "v_data w = NULL")
  case True
  then have "free_vnode_data c s = ret () s" using assms(1) by (auto simp: free_vnode_data_def)
  moreover have "releasable ops rs s" using assms(2) unfolding if_P [OF True] by simp
  moreover have "(vnodes s)(c \<mapsto> w\<lparr>v_data := NULL\<rparr>) = vnodes s" using True assms(1) by (cases w) auto
  ultimately show ?thesis using that [of s, unfolded if_P [OF True]] performs_refl vnodes_become_refl(1) by metis
next
  case False
  then have "releasable ops (Private_data (v_data w) # rs) s" using assms(2) by simp
  then obtain t where t: "release_step ops (Private_data (v_data w)) s = ret () t" "vnodes_become s (vnodes s) t" "releasable ops rs t"
      "performs ops [Private_data (v_data w)] s t"
    by (rule releasable_step)
  let ?vn = "(vnodes s)(c \<mapsto> w\<lparr>v_data := NULL\<rparr>)"
  have "free_vnode_data c s = ret () (t\<lparr>vnodes := ?vn\<rparr>)"
    using t(1) assms(1) False vnodes_becomeD(1) [OF t(2)] by (auto simp: free_vnode_data_def free_memory_def put_vnode_def)
  moreover have "vnodes_become s ?vn (t\<lparr>vnodes := ?vn\<rparr>)"
    using t(2) vnodes_becomeD(1) [OF t(2)] vnodes_become_update [of s ?vn t] by simp
  moreover have "releasable ops rs (t\<lparr>vnodes := ?vn\<rparr>)" "performs ops [Private_data (v_data w)] s (t\<lparr>vnodes := ?vn\<rparr>)"
    using t(3,4) performs_vnodes(2) releasable_vnodes by blast+
  ultimately show ?thesis using that [of "t\<lparr>vnodes := ?vn\<rparr>", unfolded if_not_P [OF False]] by blast
qed

section \<open>Dropping the last reference\<close>

definition marked :: "vnode_t \<Rightarrow> vnode_t" where
  "marked v = v\<lparr>v_count := 0, v_flag := v_flag v OR VFREEING\<rparr>"

lemma vnode_unref_survivor:
  assumes "vnodes s q = Some v" "1 < v_count v" "q \<noteq> NULL"
  shows "vnode_unref ops q s = ret () (s\<lparr>vnodes := drop_reference q (vnodes s)\<rparr>)"
proof -
  have "v_count v \<noteq> 0" using assms(2) by auto
  then show ?thesis using assms by (subst vnode_unref.simps) (simp add: drop_reference_def)
qed

text \<open>Dropping a reference, as \<open>vnode_free\<close> does it for the parent: nothing happens when there is none.\<close>

definition drop_parent :: "'r vfs_manager_t_scheme fs_ops \<Rightarrow> addr \<Rightarrow> 'r vfs_manager_t_scheme \<Rightarrow> (unit, 'r) vfs_result" where
  "drop_parent ops p s = (if p = NULL then ret () s else vnode_unref ops p s)"

lemma vnode_unref_last:
  assumes "vnodes s vp = Some v" "last_reference v" "vp \<noteq> NULL"
  shows "vnode_unref ops vp s =
    seq (run_inactive ops vp (s\<lparr>vnodes := (vnodes s)(vp \<mapsto> marked v)\<rparr>)) (\<lambda>_ s.
      seq (free_vnode_data vp s) (\<lambda>_ s.
        seq (get_vnode vp s) (\<lambda>v s.
          if v_parent v = NULL then free_vnode_object vp s
          else seq (vnode_unref ops (v_parent v) s) (\<lambda>_ s.
            seq (put_vnode vp (\<lambda>v. v\<lparr>v_parent := NULL\<rparr>) s) (\<lambda>_ s. free_vnode_object vp s)))))"
  using assms
  by (subst vnode_unref.simps) (auto simp: last_reference_def marked_def)

lemma drop_chain:
  assumes "dying (vnodes s) vp cs q" "survives (vnodes s) q" "releasable ops (releases ops (vnodes s) cs @ rs) s"
  shows "\<exists>u. drop_parent ops vp s = ret () u \<and> vnodes_become s (buried cs q (vnodes s)) u \<and> releasable ops rs u \<and>
    performs ops (releases ops (vnodes s) cs) s u"
  using assms
proof (induction cs arbitrary: vp s rs)
  case Nil
  show ?case
  proof (cases "q = NULL")
    case True
    then show ?thesis using Nil performs_refl vnodes_become_refl(1) by (auto simp: drop_parent_def buried_def drop_reference_def)
  next
    case False
    then obtain v where "vnodes s q = Some v" "1 < v_count v" using Nil.prems(2) by (auto simp: survives_def)
    from vnode_unref_survivor [OF this False, of ops] show ?thesis
      using Nil.prems False by (auto simp: drop_parent_def buried_def intro: vnodes_become_refl(2))
  qed
next
  case (Cons c cs)
  then obtain v where v: "vp = c" "c \<noteq> NULL" "c \<noteq> q" "c \<notin> set cs" "vnodes s c = Some v" "last_reference v"
      "dying (vnodes s) (v_parent v) cs q" by auto
  let ?vn = "(vnodes s)(c \<mapsto> marked v)" and ?w = "(marked v)\<lparr>v_data := NULL\<rparr>"
  let ?s = "s\<lparr>vnodes := ?vn\<rparr>" and ?hook = "if v_op v = NULL \<or> vn_inactive ops (v_op v) = None then [] else [Inactive (v_op v) c]"
    and ?data = "if v_data v = NULL then [] else [Private_data (v_data v)]" and ?up = "releases ops (vnodes s) cs"
  have m: "vnodes ?s c = Some (marked v)" "v_op (marked v) = v_op v" "v_data (marked v) = v_data v" "v_parent ?w = v_parent v"
    by (simp_all add: marked_def)
  have "releasable ops (?hook @ ?data @ ?up @ Vnode_object c # rs) ?s"
    using Cons.prems(3) v(5) by (simp add: own_releases_def del: releasable.simps)
  then obtain a where a: "run_inactive ops c ?s = ret () a" "vnodes_become ?s (vnodes ?s) a"
      "releasable ops (?data @ ?up @ Vnode_object c # rs) a" "performs ops ?hook ?s a"
    using run_inactive_done [OF m(1), of ops "?data @ ?up @ Vnode_object c # rs"] unfolding m(2) by metis
  have va: "vnodes a = ?vn" "vnodes a c = Some (marked v)" using vnodes_becomeD(1) [OF a(2)] by simp_all
  obtain b where b: "free_vnode_data c a = ret () b" "vnodes_become a ((vnodes a)(c \<mapsto> ?w)) b"
      "releasable ops (?up @ Vnode_object c # rs) b" "performs ops ?data a b"
    using free_vnode_data_done [OF va(2), of ops "?up @ Vnode_object c # rs"] a(3) unfolding m(3) by metis
  have vb: "vnodes b = (vnodes s)(c \<mapsto> ?w)" using vnodes_becomeD(1) [OF b(2)] va(1) by simp
  have up: "releases ops (vnodes b) cs = ?up" by (rule releases_cong) (use v(4) vb in auto)
  have "dying (vnodes b) (v_parent v) cs q" by (rule dying_cong [THEN iffD1, OF _ v(7)]) (use v(4) vb in auto)
  moreover have "survives (vnodes b) q" using Cons.prems(2) v(3) vb by (simp add: survives_def)
  ultimately obtain u where u: "drop_parent ops (v_parent v) b = ret () u" "vnodes_become b (buried cs q (vnodes b)) u"
      "releasable ops (Vnode_object c # rs) u" "performs ops ?up b u"
    using Cons.IH [of b "v_parent v" "Vnode_object c # rs"] b(3) unfolding up by blast
  have vu: "vnodes u = buried cs q ((vnodes s)(c \<mapsto> ?w))" "vnodes u c = Some ?w"
    using vnodes_becomeD(1) [OF u(2)] vb buried_Cons(2) [OF v(4,3)] by simp_all
  define u' where "u' = (if v_parent v = NULL then u else u\<lparr>vnodes := (vnodes u)(c \<mapsto> ?w\<lparr>v_parent := NULL\<rparr>)\<rparr>)"
  have "releasable ops (Vnode_object c # rs) u'" using u(3) unfolding u'_def
    by (cases "v_parent v = NULL") (simp_all only: releasable_vnodes if_True if_False refl)
  then obtain w where w: "free_vnode_object c u' = ret () w" "vnodes_become u' ((vnodes u')(c := None)) w" "releasable ops rs w"
      "performs ops [Vnode_object c] u' w"
    by (rule free_vnode_object_done)
  have "vnode_unref ops c s = ret () w"
    unfolding vnode_unref_last [OF v(5,6,2)] a(1) b(1) seq_simps
    using u(1) vu(2) vb w(1) m(4) by (auto simp: drop_parent_def u'_def split: if_splits)
  moreover have "(vnodes u')(c := None) = buried (c # cs) q (vnodes s)"
    using buried_Cons(1) [OF v(4,3), of "vnodes s" ?w] vu(1) by (simp add: u'_def)
  then have "vnodes_become s (buried (c # cs) q (vnodes s)) w"
    using a(2) b(2) u(2) w(2) by (cases s; cases a; cases b; cases u; cases w; simp add: vnodes_become_def u'_def split: if_splits)
  moreover have "performs ops (?hook @ ?data @ ?up @ [Vnode_object c]) s w"
  proof -
    have "performs ops ?hook s a" using a(4) by simp
    moreover have "performs ops [Vnode_object c] u w"
      using w(4) unfolding u'_def by (cases "v_parent v = NULL") (simp_all only: performs_vnodes(1) if_True if_False refl)
    ultimately show ?thesis using b(4) u(4) by (intro performs_append)
  qed
  then have "performs ops (releases ops (vnodes s) (c # cs)) s w" using v(5) by (simp add: own_releases_def del: performs.simps)
  ultimately show ?case using w(3) v(1,2) by (auto simp: drop_parent_def simp del: performs.simps)
qed


text \<open>A directory in the heap's second block, in it a file in the third, both with their last reference; the root is in use.  The file
  has private data in the fourth block, and the directory's file system has a hook, which prints a line.\<close>

abbreviation dir_addr :: addr where "dir_addr \<equiv> of_nat (HEAP_BASE + 160)"
abbreviation file_addr :: addr where "file_addr \<equiv> of_nat (HEAP_BASE + 296)"

abbreviation data_addr :: addr where "data_addr \<equiv> of_nat (HEAP_BASE + 432)"

definition dir_vnode :: vnode_t where "dir_vnode = zero_vnode\<lparr>v_count := 1, v_type := VDIR, v_op := 0x6100, v_parent := 0x9000\<rparr>"
definition file_vnode :: vnode_t where
  "file_vnode = zero_vnode\<lparr>v_count := 1, v_type := VREG, v_parent := dir_addr, v_data := data_addr\<rparr>"

definition hook_example :: "'r vfs_manager_t_scheme fs_ops" where
  "hook_example = ops_example\<lparr>vn_inactive := (\<lambda>oper. if oper = 0x6100 then Some (\<lambda>vp s. ret 0 (kprint ''inactive'' s)) else None)\<rparr>"

abbreviation tree_blocks :: "block list" where
  "tree_blocks \<equiv> [(112, False), (112, False), (112, False), (64, False), (3576, True)]"

definition tree_example :: "addr \<Rightarrow> vnode_t option" where
  "tree_example = [0x9000 \<mapsto> zero_vnode\<lparr>v_count := 3, v_type := VDIR\<rparr>, dir_addr \<mapsto> dir_vnode, file_addr \<mapsto> file_vnode]"

lemma free_dir:
  fixes s :: "'a kheap_state_scheme"
  assumes "heap_ok s hash_blocks" "vread (of_nat (HEAP_BASE + 24)) s = Some 0"
  shows "\<exists>u. slab_free no_code (of_nat (HEAP_BASE + 24)) dir_addr s = Some u \<and>
    heap_ok u [(112, False), (112, True), (112, False), (3664, True)] \<and> vread (of_nat (HEAP_BASE + 24)) u = Some 0"
proof -
  have ok: "heap_ok s ([(112, False)] @ (112, False) # [(112, False), (3664, True)])" using assms(1) by simp
  have e: "heap_end [(112, False)] + 24 = HEAP_BASE + 160" by simp
  obtain u where u: "kfree dir_addr s = Some u" "heap_ok u (coalesce ([(112, False)] @ (112, True) # [(112, False), (3664, True)]))"
      "stores HEAP_BASE (heap_end hash_blocks) s u (header_words HEAP_BASE hash_blocks)"
    using kfree_spec [OF ok, unfolded e] by auto
  have "vread (of_nat (HEAP_BASE + 24)) u = Some 0"
    using storesD(3) [OF u(3), of "HEAP_BASE + 24"] assms(2) by simp
  moreover have "slab_magic (slab_from_object dir_addr) s = Some 0"
    using assms(2) by (simp add: slab_magic_def slab_from_object_def PAGE_SIZE_SLAB_def PAGE_SIZE_VMM_def read_low_def HEAP_START_def)
  then have "slab_free no_code (of_nat (HEAP_BASE + 24)) dir_addr s = Some u"
    using u(1) by (simp add: slab_free_def SLAB_MAGIC_def Let_def HEAP_START_def)
  ultimately show ?thesis using u(2) by auto
qed

lemma free_file:
  fixes s :: "'a kheap_state_scheme"
  assumes "heap_ok s [(112, False), (112, True), (112, False), (3664, True)]" "vread (of_nat (HEAP_BASE + 24)) s = Some 0"
  shows "\<exists>u. slab_free no_code (of_nat (HEAP_BASE + 24)) file_addr s = Some u"
proof -
  have ok: "heap_ok s ([(112, False), (112, True)] @ (112, False) # [(3664, True)])" using assms(1) by simp
  have e: "heap_end [(112, False), (112, True)] + 24 = HEAP_BASE + 296" by simp
  obtain u where u: "kfree file_addr s = Some u" using kfree_spec [OF ok, unfolded e] by auto
  have "slab_magic (slab_from_object file_addr) s = Some 0"
    using assms(2) by (simp add: slab_magic_def slab_from_object_def PAGE_SIZE_SLAB_def PAGE_SIZE_VMM_def read_low_def HEAP_START_def)
  then show ?thesis using u by (simp add: slab_free_def SLAB_MAGIC_def Let_def HEAP_START_def)
qed

lemma vnodes_view: "vm_view (s\<lparr>vnodes := vm\<rparr>) = vm_view s" "vread a (s\<lparr>vnodes := vm\<rparr>) = vread a s"
  "heap_ok (s\<lparr>vnodes := vm\<rparr>) bs = heap_ok s bs"
proof -
  show v: "vm_view (s\<lparr>vnodes := vm\<rparr>) = vm_view s" by (simp add: vm_view_def)
  show "vread a (s\<lparr>vnodes := vm\<rparr>) = vread a s" using vm_view_cong(1) [OF v] by simp
  show "heap_ok (s\<lparr>vnodes := vm\<rparr>) bs = heap_ok s bs"
    using heap_ok_view [of s bs "s\<lparr>vnodes := vm\<rparr>"] heap_ok_view [of "s\<lparr>vnodes := vm\<rparr>" bs s] v by auto
qed

lemma free_data:
  fixes s :: "'a kheap_state_scheme"
  assumes "heap_ok s tree_blocks" "vread (of_nat (HEAP_BASE + 24)) s = Some 0"
  shows "\<exists>u. kfree data_addr s = Some u \<and> heap_ok u hash_blocks \<and> vread (of_nat (HEAP_BASE + 24)) u = Some 0"
proof -
  have ok: "heap_ok s ([(112, False), (112, False), (112, False)] @ (64, False) # [(3576, True)])" using assms(1) by simp
  have e: "heap_end [(112, False), (112, False), (112, False)] + 24 = HEAP_BASE + 432" by simp
  obtain u where u: "kfree data_addr s = Some u" "heap_ok u hash_blocks"
      "stores HEAP_BASE (heap_end tree_blocks) s u (header_words HEAP_BASE tree_blocks)"
    using kfree_spec [OF ok, unfolded e] by auto
  have "vread (of_nat (HEAP_BASE + 24)) u = Some 0"
    using storesD(3) [OF u(3), of "HEAP_BASE + 24"] assms(2) by simp
  then show ?thesis using u(1,2) by blast
qed

text \<open>Each step of the example, with what it needs of the heap and what it leaves.\<close>

definition example_heap :: "block list \<Rightarrow> 'r vfs_manager_t_scheme \<Rightarrow> bool" where
  "example_heap bs s \<longleftrightarrow> heap_ok s bs \<and> vread (of_nat (HEAP_BASE + 24)) s = Some 0 \<and> vnode_cache s = of_nat (HEAP_BASE + 24)"

lemma example_heap_vnodes [simp]: "example_heap bs (s\<lparr>vnodes := vm\<rparr>) = example_heap bs s"
  by (simp add: example_heap_def vnodes_view)

lemma releasable_head:
  assumes "example_heap bs s" "\<And>t. example_heap bs t \<Longrightarrow> \<exists>u. release_step ops r t = ret () u \<and>
      kheap_state.more u = kheap_state.more t \<and> releasable ops rs u"
  shows "releasable ops (r # rs) s"
  unfolding releasable.simps
proof
  fix vm
  have "example_heap bs (s\<lparr>vnodes := vm\<rparr>)" using assms(1) by simp
  from assms(2) [OF this] show "\<exists>u. release_step ops r (s\<lparr>vnodes := vm\<rparr>) = ret () u \<and> vnodes_become s vm u \<and> releasable ops rs u"
    unfolding vnodes_become_def by blast
qed

lemma example_more: "kheap_state.more u = kheap_state.more s \<Longrightarrow> vnode_cache u = vnode_cache s"
  for s u :: "'r vfs_manager_t_scheme"
  by (rule vfs_fields(9) [OF hash_state_more])

lemma release_objects:
  fixes s :: "'r vfs_manager_t_scheme"
  assumes "example_heap hash_blocks s"
  shows "releasable ops [Vnode_object dir_addr, Vnode_object file_addr] s"
proof (rule releasable_head [OF assms])
  fix t :: "'r vfs_manager_t_scheme" assume t: "example_heap hash_blocks t"
  obtain u where u: "slab_free no_code (of_nat (HEAP_BASE + 24)) dir_addr t = Some u"
      "heap_ok u [(112, False), (112, True), (112, False), (3664, True)]" "vread (of_nat (HEAP_BASE + 24)) u = Some 0"
    using free_dir [of t] t unfolding example_heap_def by blast
  have more: "kheap_state.more u = kheap_state.more t" by (rule slab_free_more [OF u(1)])
  have "example_heap [(112, False), (112, True), (112, False), (3664, True)] u"
    using u(2,3) example_more [OF more] t by (simp add: example_heap_def)
  then have "releasable ops [Vnode_object file_addr] u"
  proof (rule releasable_head)
    fix v :: "'r vfs_manager_t_scheme" assume v: "example_heap [(112, False), (112, True), (112, False), (3664, True)] v"
    then obtain w where w: "slab_free no_code (of_nat (HEAP_BASE + 24)) file_addr v = Some w"
      using free_file [of v] unfolding example_heap_def by blast
    then show "\<exists>u. release_step ops (Vnode_object file_addr) v = ret () u \<and> kheap_state.more u = kheap_state.more v \<and> releasable ops [] u"
      using v slab_free_more [OF w] by (simp add: example_heap_def)
  qed
  then show "\<exists>u. release_step ops (Vnode_object dir_addr) t = ret () u \<and> kheap_state.more u = kheap_state.more t \<and>
      releasable ops [Vnode_object file_addr] u"
    using t u(1) more by (simp add: example_heap_def del: releasable.simps)
qed

lemma tree_releasable:
  fixes s :: "'r vfs_manager_t_scheme"
  assumes "example_heap tree_blocks s"
  shows "releasable hook_example [Private_data data_addr, Inactive 0x6100 dir_addr, Vnode_object dir_addr, Vnode_object file_addr] s"
proof (rule releasable_head [OF assms])
  fix t :: "'r vfs_manager_t_scheme" assume t: "example_heap tree_blocks t"
  obtain u where u: "kfree data_addr t = Some u" "heap_ok u hash_blocks" "vread (of_nat (HEAP_BASE + 24)) u = Some 0"
    using free_data [of t] t unfolding example_heap_def by blast
  have more: "kheap_state.more u = kheap_state.more t" by (rule kfree_more [OF u(1)])
  have "example_heap hash_blocks u" using u(2,3) example_more [OF more] t by (simp add: example_heap_def)
  then have "releasable hook_example [Inactive 0x6100 dir_addr, Vnode_object dir_addr, Vnode_object file_addr] u"
  proof (rule releasable_head)
    fix v :: "'r vfs_manager_t_scheme" assume v: "example_heap hash_blocks v"
    let ?v = "kprint ''inactive'' v"
    have view: "vm_view ?v = vm_view v" by simp
    have same: "free_list ?v = free_list v" "vnode_cache ?v = vnode_cache v" "kheap_state.more ?v = kheap_state.more v"
      by (simp_all add: console_defs)
    have "heap_ok ?v hash_blocks" using v heap_ok_view [OF _ view same(1)] by (simp add: example_heap_def)
    then have "example_heap hash_blocks ?v" using v vm_view_cong(1) [OF view] same(2) by (simp add: example_heap_def)
    from release_objects [OF this] show "\<exists>u. release_step hook_example (Inactive 0x6100 dir_addr) v = ret () u \<and>
        kheap_state.more u = kheap_state.more v \<and> releasable hook_example [Vnode_object dir_addr, Vnode_object file_addr] u"
      using same(3) by (simp add: hook_example_def del: releasable.simps)
  qed
  then show "\<exists>u. release_step hook_example (Private_data data_addr) t = ret () u \<and> kheap_state.more u = kheap_state.more t \<and>
      releasable hook_example [Inactive 0x6100 dir_addr, Vnode_object dir_addr, Vnode_object file_addr] u"
    using u(1) more by (simp del: releasable.simps)
qed

lemma tree_state:
  obtains s :: vfs_manager_t where "example_heap hash_blocks s" "vnodes s = vn" "vnode_table s = t" "hash_entries s = H"
    "\<not> lock_held (vnode_table_lock s)"
proof -
  obtain s0 :: vfs_manager_t where s0: "heap_ok s0 hash_blocks" "hash_entries s0 = H" by (rule hash_heap)
  obtain s1 where s1: "heap_ok s1 hash_blocks" "s1 = s0\<lparr>pmem := pmem s1\<rparr>" "vread (of_nat (HEAP_BASE + 24)) s1 = Some 0"
    using poke_examples [OF s0(1), of "[(24, 0)]"] by (auto simp: example_word_def)
  define s where "s = s1\<lparr>vnodes := vn, vnode_table := t, vnode_cache := of_nat (HEAP_BASE + 24),
    vnode_table_lock := \<lparr>lock_held = False, had_interrupt = False\<rparr>\<rparr>"
  have v: "vm_view s = vm_view s1" by (simp add: s_def vm_view_def)
  have "heap_ok s hash_blocks" by (rule heap_ok_view [OF s1(1) v]) (simp add: s_def)
  then have "example_heap hash_blocks s" using s1(3) vm_view_cong(1) [OF v] by (simp add: example_heap_def s_def)
  moreover have "hash_entries s = H" using pmem_hash [OF s1(2)] s0(2) by (simp add: s_def)
  ultimately show ?thesis using that by (simp add: s_def)
qed

text \<open>The private data is allocated last.\<close>

lemma tree_state_data:
  obtains s :: vfs_manager_t where "example_heap tree_blocks s" "vnodes s = vn"
proof -
  obtain s :: vfs_manager_t where s: "example_heap hash_blocks s" "vnodes s = vn" by (rule tree_state)
  have ok: "heap_ok s hash_blocks" "vread (of_nat (HEAP_BASE + 24)) s = Some 0" using s(1) by (simp_all add: example_heap_def)
  have ff: "first_fit (unat (align16 64)) hash_blocks = Some ([(112, False), (112, False), (112, False)], 3664, [])"
    by (simp add: align16_def)
  obtain t where t: "kmalloc 64 s = Some (of_nat (heap_end [(112, False), (112, False), (112, False)] + 24), t)"
      "heap_ok t ([(112, False), (112, False), (112, False)] @ carve (unat (align16 64)) 3664 @ [])" "keeps hash_blocks s t"
    by (rule kmalloc_keeps [OF ok(1) _ ff]) simp_all
  have more: "kheap_state.more t = kheap_state.more s" by (rule kmalloc_more [OF t(1)])
  have "heap_ok t tree_blocks" using t(2) by (simp add: carve_def align16_def)
  moreover have "vread (of_nat (HEAP_BASE + 24)) t = Some 0"
    using t(3)[unfolded keeps_def, rule_format, of "HEAP_BASE + 24"] ok(2) by simp
  ultimately have "example_heap tree_blocks t" using s(1) example_more [OF more] by (simp add: example_heap_def)
  moreover have "vnodes t = vn" using vfs_fields(5) [OF hash_state_more [OF more]] s(2) by simp
  ultimately show ?thesis using that by blast
qed


text \<open>C35: the vnode cache holds no reference.  When the last user of a cached vnode without a parent puts it, and the hook and the
  deallocations complete, the vnode is released but stays in the cache, and whoever gets it next uses freed memory.\<close>

theorem vnode_put_dangles:
  assumes "table_map (vnode_table s) s m" "m (create_vnode_key vfsp n) = Some vp" "vfsp \<noteq> NULL" "vp \<noteq> NULL"
    "vnodes s vp = Some v" "last_reference v" "v_parent v = NULL" "releasable ops (own_releases ops vp v @ [Vnode_object vp]) s"
    "\<not> lock_held (vnode_table_lock s)"
  shows "\<exists>u. vnode_put ops vp s = ret () u \<and> vnodes u vp = None \<and> table_map (vnode_table u) u m \<and>
    (\<exists>w. vnode_get ops vfsp True n u = stop Fault w)"
proof -
  have "dying (vnodes s) vp [vp] NULL" using assms(4-7) by simp
  then obtain u where u: "drop_parent ops vp s = ret () u" "vnodes_become s (buried [vp] NULL (vnodes s)) u"
    using drop_chain [of s vp "[vp]" NULL ops "[]"] assms(5,8) by (auto simp: survives_def simp del: releasable.simps performs.simps)
  note f = vnodes_becomeD [OF u(2)]
  have t: "table_map (vnode_table u) u m" using assms(1) table_map_entries [OF f(4)] f(2) by simp
  have gone: "vnodes u vp = None" using f(1) by (simp add: buried_def drop_reference_def)
  let ?u = "vnode_table_locked u"
  have "table_map (vnode_table ?u) ?u m" using t table_map_entries [of ?u u] by simp
  note get = hashtable_get_lookup [OF this, of "create_vnode_key vfsp n"]
  have "\<exists>w. vnode_get ops vfsp True n u = stop Fault w"
    using get assms(2-4,9) f(3) gone
    by (simp add: vnode_get_def vnode_cache_lookup_def vnode_cache_lookup_locked_def stored_def vnode_ref_def put_vnode_def)
  then show ?thesis using u(1) t gone assms(4) by (auto simp: vnode_put_def drop_parent_def)
qed

theorem vnode_put_dangles_witness:
  "\<exists>(s :: vfs_manager_t) u w. vnodes s = [dir_addr \<mapsto> zero_vnode\<lparr>v_count := 1\<rparr>] \<and> vnode_put ops_example dir_addr s = ret () u \<and>
     vnode_get ops_example 0x8000 True 5 u = stop Fault w"
proof -
  let ?k = "create_vnode_key 0x8000 5" and ?v = "zero_vnode\<lparr>v_count := 1\<rparr>"
  obtain s :: vfs_manager_t where s: "example_heap hash_blocks s" "vnodes s = [dir_addr \<mapsto> ?v]" "vnode_table s = single_table 0x7000"
      "hash_entries s = [0x7000 \<mapsto> single_entry ?k dir_addr 0x7100]" "\<not> lock_held (vnode_table_lock s)"
    by (rule tree_state)
  have "table_map (vnode_table s) s [?k \<mapsto> dir_addr]" using single_table_is(2) [OF s(4)] s(3) by simp
  moreover have "releasable ops_example [Vnode_object dir_addr] s"
    using releasable_append [of ops_example "[Vnode_object dir_addr]" "[Vnode_object file_addr]", unfolded append.simps, OF release_objects [OF s(1)]] .
  moreover have "own_releases ops_example dir_addr ?v @ [Vnode_object dir_addr] = [Vnode_object dir_addr]"
    by (simp add: own_releases_def zero_vnode_def)
  moreover have "dir_addr \<noteq> NULL" by (simp add: HEAP_START_def)
  moreover have "last_reference ?v" "v_parent ?v = NULL" by (simp_all add: last_reference_def zero_vnode_def)
  moreover have "NULL \<noteq> (0x8000 :: addr)" "vnodes s dir_addr = Some ?v" using s(2) by simp_all
  ultimately obtain u w where "vnode_put ops_example dir_addr s = ret () u" "vnode_get ops_example 0x8000 True 5 u = stop Fault w"
    using vnode_put_dangles [of s "[?k \<mapsto> dir_addr]" "0x8000" 5 dir_addr ?v ops_example] s(5) by (metis fun_upd_same)
  with s(2) show ?thesis by blast
qed

end
