(* ===== verification/Boot.thy ===== *)
theory Boot
  imports Process Vfs Gdt Idt Pit Pic Timer Serial Ps2 Vterm
begin

text \<open>
  The entry point of the kernel (\<open>main.c\<close>): the checks of what the boot loader provided, and the initialisations in their order.
  The machine has the memory stack in common with the scheduling and the file system state, which are the two extensions of its
  record.  What Limine answers and the addresses the linker assigns are an environment.  A null response is \<open>None\<close>.  Printing
  is an event of the transcript here; what it draws is the subject of \<open>Vterm\<close> and \<open>Printf\<close>.
\<close>

section \<open>The machine\<close>

record boot_env =
  framebuffer_response :: "limine_framebuffer list option"
  hhdm_response :: "u64 option"
  memmap_response :: "limine_memmap_entry list option"
  module_response :: "u64 option"
  base_revision_supported :: bool
  addr_gdt :: u64
  addr_tss :: u64
  addr_idt :: u64
  isr_stub :: "nat \<Rightarrow> u64"
  irq_stub :: "nat \<Rightarrow> u64"
  syscall_entry :: u64
  idle_task :: u64
  task_1 :: u64
  task_2 :: u64

record machine =
  m_heap :: kheap_state
  m_sched :: "unit sched_state_ext"
  m_vfs :: "unit vfs_manager_t_ext hash_state_ext"
  m_gdt :: gdt_state
  m_idt :: idt_state
  m_syscalls :: "kheap_state syscall_entry_t list"
  m_timer :: timer_state
  m_vterm :: vterm_state
  m_kprintf_lock :: spinlock_t

type_synonym 'a boot_result = "('a, machine) outcome option"

text \<open>Running a function of one component on the part of the machine it works on.\<close>

definition on_heap :: "(kheap_state \<Rightarrow> kheap_state option) \<Rightarrow> machine \<Rightarrow> unit boot_result" where
  "on_heap f m = call (map_option (\<lambda>h. ((), m\<lparr>m_heap := h\<rparr>)) (f (m_heap m)))"

fun lift_outcome :: "('s \<Rightarrow> machine) \<Rightarrow> ('a, 's) outcome \<Rightarrow> ('a, machine) outcome" where
  "lift_outcome g (Done a s) = Done a (g s)"
| "lift_outcome g (Stop w s) = Stop w (g s)"

definition on_sched :: "(sched_state \<Rightarrow> ('a, unit) sched_result) \<Rightarrow> machine \<Rightarrow> 'a boot_result" where
  "on_sched f m = map_option (lift_outcome (\<lambda>s. m\<lparr>m_heap := kheap_state.truncate s, m_sched := kheap_state.more s\<rparr>))
     (f (kheap_state.extend (m_heap m) (m_sched m)))"

definition on_vfs :: "(vfs_manager_t \<Rightarrow> ('a, unit) vfs_result) \<Rightarrow> machine \<Rightarrow> 'a boot_result" where
  "on_vfs f m = map_option (lift_outcome (\<lambda>s. m\<lparr>m_heap := kheap_state.truncate s, m_vfs := kheap_state.more s\<rparr>))
     (f (kheap_state.extend (m_heap m) (m_vfs m)))"

definition boot_hcf :: "machine \<Rightarrow> 'a boot_result" where
  "boot_hcf m = stop Halted (m\<lparr>m_heap := disable_interrupt (m_heap m)\<rparr>)"

section \<open>Boot\<close>

text \<open>The frame buffers recorded in the kernel table.\<close>

definition boot_info :: "boot_env \<Rightarrow> machine \<Rightarrow> limine_framebuffer list boot_result" where
  "boot_info env m =
     (if framebuffer_response env = None then boot_hcf m
      else if hhdm_response env = None then boot_hcf m
      else if memmap_response env = None then boot_hcf m
      else if module_response env = None then boot_hcf m
      else let framebuffers = the (framebuffer_response env); module_count = the (module_response env) in
        if \<not> base_revision_supported env then boot_hcf m
        else if length framebuffers < 1 then boot_hcf m
        else if module_count = 0 then boot_hcf m
        else ret framebuffers m)"

definition test_scheduler :: "boot_env \<Rightarrow> sched_state \<Rightarrow> (unit, unit) sched_result" where
  "test_scheduler env s =
     seq (process_create (task_1 env) 0 NULL 0 False s) (\<lambda>proc1 s.
       if proc1 = NULL then sched_hcf (kerror ''Failed to create process 1'' s)
       else seq (process_create (task_2 env) 0 NULL 0 False s) (\<lambda>proc2 s.
         if proc2 = NULL then sched_hcf (kerror ''Failed to create process 2'' s)
         else ret () s))"

definition banner :: "string list" where
  "banner = map (\<lambda>l. l @ [CHR 10]) [[], ''=|||||||||||||||||||='', ''|                   |'', ''| GoshkikOS Started |'',
     ''|                   |'', ''=|||||||||||||||||||='', []]"

definition init_memory :: "boot_env \<Rightarrow> kheap_state \<Rightarrow> kheap_state option" where
  "init_memory env s = do {
     let s = fold kprint banner s;
     offset \<leftarrow> hhdm_response env;
     let s = s\<lparr>g_hhdm_offset := offset\<rparr>;
     s \<leftarrow> init_mmu (memmap_response env) s;
     s \<leftarrow> init_pmm s;
     s \<leftarrow> init_vmm s;
     (_, s) \<leftarrow> init_kheap s;
     Some s
   }"

definition init_devices :: "boot_env \<Rightarrow> machine \<Rightarrow> unit boot_result" where
  "init_devices env m =
     (let m = m\<lparr>m_heap := snd (init_serial (m_heap m))\<rparr>
      in case init_gdt (addr_gdt env) (addr_tss env) (m_gdt m, m_heap m) of
        None \<Rightarrow> stop Deadlock m
      | Some (g, h) \<Rightarrow>
          let (i, h) = init_idt (addr_idt env) (isr_stub env) (irq_stub env) (m_idt m, h);
              m = m\<lparr>m_gdt := g, m_idt := i, m_heap := pic_remap 0x20 0x28 h\<rparr>
          in seq (on_heap init_pit m) (\<lambda>_ m.
            let (k, h) = init_system_clock (m_timer m, m_heap m);
                m = m\<lparr>m_timer := k, m_heap := h\<rparr>
            in seq (on_heap (\<lambda>s. map_option snd (init_ps2 s)) m) (\<lambda>_ m.
              let (t, i, h) = init_syscalls (syscall_entry env) (m_syscalls m, m_idt m, m_heap m)
              in ret () (m\<lparr>m_syscalls := t, m_idt := i, m_heap := h\<rparr>))))"

text \<open>The kernel ends in its idle loop, with interrupts enabled.\<close>

definition kmain :: "boot_env \<Rightarrow> machine \<Rightarrow> unit boot_result" where
  "kmain env m =
     seq (boot_info env m) (\<lambda>framebuffers m.
       let fb = hd framebuffers in
       if fb_width fb > FB_WIDTH \<or> fb_height fb > FB_HEIGHT then boot_hcf m
       else seq (on_heap (init_memory env) (m\<lparr>m_vterm := vterm_init fb (m_vterm m)\<rparr>)) (\<lambda>_ m.
         seq (init_devices env m) (\<lambda>_ m.
           seq (on_sched init_processes m) (\<lambda>_ m.
             seq (on_sched (init_threading (idle_task env)) m) (\<lambda>_ m.
               let m = m\<lparr>m_kprintf_lock := spinlock_init (m_kprintf_lock m), m_heap := kok (kprint ''Kprintf spinlock...'' (m_heap m))\<rparr>
               in seq (on_vfs init_vfs m) (\<lambda>_ m.
                 seq (on_sched (test_scheduler env) (m\<lparr>m_heap := enable_interrupt (m_heap m)\<rparr>)) (\<lambda>_ m. stop Halted m)))))))"

text \<open>Nothing is initialised unless the boot loader answered every request with something usable.\<close>

lemma kmain_refuses:
  assumes "framebuffer_response env \<in> {None, Some []} \<or> hhdm_response env = None \<or> memmap_response env = None \<or>
    module_response env \<in> {None, Some 0} \<or> \<not> base_revision_supported env \<or>
    (\<exists>fb fbs. framebuffer_response env = Some (fb # fbs) \<and> (fb_width fb > FB_WIDTH \<or> fb_height fb > FB_HEIGHT))"
  shows "kmain env m = stop Halted (m\<lparr>m_heap := disable_interrupt (m_heap m)\<rparr>)"
proof (cases "framebuffer_response env")
  case None
  then show ?thesis by (simp add: kmain_def boot_info_def boot_hcf_def)
next
  case (Some fbs)
  then show ?thesis using assms by (cases fbs) (auto simp: kmain_def boot_info_def boot_hcf_def Let_def)
qed

end
