(* ===== verification/Vmm_Run.thy ===== *)
theory Vmm_Run
  imports Vmem
begin

text \<open>
  Sequences of page-table operations.  A run of \<open>vmm_map\<close> and \<open>vmm_unmap\<close> calls refines the same
  run of updates and deletions on a map from pages to frames, keeps the tables well formed, and
  completes when three physical pages are free for every level-1 table that is still missing:
  adjacent pages share their tables, so mapping a range is much cheaper than three pages per page.
\<close>

section \<open>Runs\<close>

datatype vmm_op = Map_page u64 u64 u64 | Unmap_page u64

fun vmm_step :: "vmm_op \<Rightarrow> 'a vmm_state_scheme \<Rightarrow> 'a vmm_state_scheme option" where
  "vmm_step (Map_page v p flags) s = vmm_map v p flags s"
| "vmm_step (Unmap_page v) s = vmm_unmap v s"

fun vmm_run :: "vmm_op list \<Rightarrow> 'a vmm_state_scheme \<Rightarrow> 'a vmm_state_scheme option" where
  "vmm_run [] s = Some s"
| "vmm_run (x # xs) s = Option.bind (vmm_step x s) (vmm_run xs)"

text \<open>The same operations on a map from addresses to frames.\<close>

fun map_op :: "vmm_op \<Rightarrow> (u64 \<Rightarrow> u64 option) \<Rightarrow> u64 \<Rightarrow> u64 option" where
  "map_op (Map_page v p flags) m w = (if same_page w v then Some (p AND PAGE_MASK) else m w)"
| "map_op (Unmap_page v) m w = (if same_page w v then None else m w)"

fun op_ok :: "vmm_op \<Rightarrow> bool" where
  "op_ok (Map_page v p flags) \<longleftrightarrow> flags AND PAGE_MASK = 0"
| "op_ok (Unmap_page v) \<longleftrightarrow> True"

text \<open>The part of an address that selects its level-1 table, and the tables a run still needs.\<close>

definition leaf_prefix :: "u64 \<Rightarrow> u64" where
  "leaf_prefix v = take_bit 27 (drop_bit 21 v)"

fun op_prefix :: "vmm_op \<Rightarrow> u64 set" where
  "op_prefix (Map_page v p flags) = {leaf_prefix v}"
| "op_prefix (Unmap_page v) = {}"

definition missing_tables :: "vmm_op list \<Rightarrow> 'a vmm_state_scheme \<Rightarrow> u64 set" where
  "missing_tables xs s = (\<Union>x\<in>set xs. op_prefix x) - {leaf_prefix v | v. leaf_table s v \<noteq> None}"

lemma vmm_run_append: "vmm_run (xs @ ys) s = Option.bind (vmm_run xs s) (vmm_run ys)"
  by (induction xs arbitrary: s) (auto split: Option.bind_splits)

section \<open>Level-1 tables\<close>

lemma leaf_prefix_index:
  assumes "leaf_prefix v = leaf_prefix w" "l \<in> {2, 3, 4}"
  shows "level_index l v = level_index l w"
proof -
  have "bit v (3 + 9 * l + n) = bit w (3 + 9 * l + n)" if "n < 9" for n
  proof -
    have "bit (leaf_prefix v) (9 * (l - 2) + n) = bit (leaf_prefix w) (9 * (l - 2) + n)" using assms(1) by simp
    moreover have "9 * (l - 2) + n < 27" "21 + (9 * (l - 2) + n) = 3 + 9 * l + n" using assms(2) that by auto
    ultimately show ?thesis by (simp only: leaf_prefix_def bit_take_bit_iff bit_drop_bit_eq o_def) simp
  qed
  then show ?thesis unfolding u64_eq_iff level_index_bit by blast
qed

lemma leaf_table_prefix: "leaf_prefix v = leaf_prefix w \<Longrightarrow> leaf_table s v = leaf_table s w"
  by (simp add: leaf_table_def leaf_prefix_index [of v w])

lemma finite_missing [simp]: "finite (missing_tables xs s)"
proof -
  have "finite (op_prefix x)" for x by (cases x) auto
  then show ?thesis by (simp add: missing_tables_def)
qed

text \<open>Where the level-1 table exists, \<open>vmm_map\<close> allocates nothing.\<close>

lemma walk_present:
  assumes "leaf_table s v = Some f1"
  shows "walk v create s = Some (entry_addr s f1 (level_index 1 v), s)"
proof -
  obtain f3 f2 where n: "next_table s (current_pml4 s) (level_index 4 v) = Some f3"
      "next_table s f3 (level_index 3 v) = Some f2" "next_table s f2 (level_index 2 v) = Some f1"
    using assms by (auto simp: leaf_table_def bind_eq_Some_conv)
  have wl: "walk_level (entry_addr s f i) create s = Some (True, s)" if "next_table s f i = Some g" for f i g
    using that by (auto simp: walk_level_def next_table_def Let_def split: if_splits)
  show ?thesis
    by (simp add: walk_unfold wl [OF n(1)] wl [OF n(2)] wl [OF n(3)] next_table_mask [OF n(1)]
        next_table_mask [OF n(2)] next_table_mask [OF n(3)])
qed

lemma vmm_map_present:
  assumes "leaf_table s v \<noteq> None"
  shows "\<exists>t. vmm_map v p flags s = Some t \<and> pmm_avail t = pmm_avail s"
  using assms walk_present [of s v] by (auto simp: vmm_map_def)

lemma grows_leaf:
  assumes "grows s lv t lv'" "levels_ok s lv" "leaf_table s w = Some f1"
  shows "leaf_table t w = Some f1"
proof -
  obtain f3 f2 where n: "next_table s (current_pml4 s) (level_index 4 w) = Some f3"
      "next_table s f3 (level_index 3 w) = Some f2" "next_table s f2 (level_index 2 w) = Some f1"
    using assms(3) by (auto simp: leaf_table_def bind_eq_Some_conv)
  have l4: "lv (current_pml4 s) = Some 4" by (rule levels_okD(1) [OF assms(2)])
  have l3: "lv f3 = Some 3" using levels_okD(3) [OF assms(2) l4 _ _ n(1)] by simp
  have l2: "lv f2 = Some 2" using levels_okD(3) [OF assms(2) l3 _ _ n(2)] by simp
  have "current_pml4 t = current_pml4 s" using assms(1) by (simp add: grows_def)
  then show ?thesis
    using grows_next [OF assms(1) l4 _ n(1)] grows_next [OF assms(1) l3 _ n(2)] grows_next [OF assms(1) l2 _ n(3)]
    by (simp add: leaf_table_def)
qed

lemma leaf_table_invlpg [simp]: "leaf_table (invlpg v s) w = leaf_table s w"
  by (simp add: leaf_table_def)

lemma vmm_map_leaf:
  assumes "vmm_wf s" "flags AND PAGE_MASK = 0" "vmm_map v p flags s = Some t"
  shows "leaf_table t v \<noteq> None" "leaf_table s w \<noteq> None \<Longrightarrow> leaf_table t w \<noteq> None"
proof -
  obtain lv where wf: "pmm_wf s" "levels_ok s lv" using assms(1) by (auto simp: vmm_wf_def)
  obtain pte u where w: "walk v True s = Some (pte, u)"
      and t: "t = invlpg v (u\<lparr>pmem := (pmem u)(pte := (p AND PAGE_MASK) OR flags OR VMM_PRESENT)\<rparr>)"
    using assms(3) by (auto simp: vmm_map_def bind_eq_Some_conv)
  obtain lv' f1 where g: "grows s lv u lv'" "leaf_table u v = Some f1" "lv' f1 = Some 1"
      and pte: "pte = entry_addr u f1 (level_index 1 v)"
    by (rule walk_create [OF wf w])
  have ok: "levels_ok u lv'" using g(1) by (simp add: grows_def)
  have same: "leaf_table t x = leaf_table u x" for x
    using pte_write(3) [OF ok g(3) _ refl, of "level_index 1 v" _ x] by (simp add: t pte)
  show "leaf_table t v \<noteq> None" using g(2) same by simp
  show "leaf_table t w \<noteq> None" if "leaf_table s w \<noteq> None"
    using that grows_leaf [OF g(1) wf(2)] same by auto
qed

lemma vmm_unmap_leaf:
  assumes "vmm_wf s" "vmm_unmap v s = Some t"
  shows "leaf_table t w = leaf_table s w"
proof -
  obtain lv where wf: "pmm_wf s" "hhdm_ok s" "levels_ok s lv" using assms(1) by (auto simp: vmm_wf_def)
  show ?thesis
  proof (cases "leaf_table s v")
    case None
    then show ?thesis using assms(2) walk_nocreate [OF wf(1,3), of v] by (simp add: vmm_unmap_def)
  next
    case (Some f1)
    have "leaf_table (s\<lparr>pmem := (pmem s)(entry_addr s f1 (level_index 1 v) := 0)\<rparr>) w = leaf_table s w"
      by (rule pte_write(3) [OF wf(3) leaf_table_level [OF wf(3) Some] _ refl]) simp
    then show ?thesis
      using assms(2) walk_nocreate [OF wf(1,3), of v] Some by (auto simp: vmm_unmap_def split: if_splits)
  qed
qed

section \<open>Every run refines its run on maps\<close>

text \<open>What one operation does to the tables that are missing.\<close>

lemma missing_step:
  assumes "\<And>w. leaf_table s w \<noteq> None \<Longrightarrow> leaf_table t w \<noteq> None"
    "\<And>p. p \<in> op_prefix x \<Longrightarrow> \<exists>v. p = leaf_prefix v \<and> leaf_table t v \<noteq> None"
  shows "missing_tables xs t \<subseteq> missing_tables (x # xs) s - op_prefix x"
  using assms by (fastforce simp: missing_tables_def)

lemma vmm_step_spec:
  assumes "vmm_wf s" "op_ok x" "n + 3 * card (missing_tables (x # xs) s) \<le> card (pmm_avail s)"
  obtains t where "vmm_step x s = Some t" "vmm_wf t" "vmm_lookup t = map_op x (vmm_lookup s)"
    "pmm_avail t \<subseteq> pmm_avail s" "n + 3 * card (missing_tables xs t) \<le> card (pmm_avail t)"
proof (cases x)
  case (Map_page v p flags)
  have wf: "pmm_wf s" and fl: "flags AND PAGE_MASK = 0" using assms(1,2) Map_page by (auto simp: vmm_wf_def)
  define m where "m = card (missing_tables (x # xs) s - {leaf_prefix v})"
  have m_le: "m \<le> card (missing_tables (x # xs) s)" by (simp add: m_def card_Diff1_le)
  obtain t where t: "vmm_map v p flags s = Some t" "n + 3 * m \<le> card (pmm_avail t)"
  proof (cases "leaf_table s v")
    case None
    have "leaf_prefix v \<in> missing_tables (x # xs) s"
      using None by (auto simp: missing_tables_def Map_page dest: leaf_table_prefix [where s = s])
    then have "Suc m = card (missing_tables (x # xs) s)"
      unfolding m_def by (rule card_Suc_Diff1 [OF finite_missing])
    then have "(n + 3 * m) + 3 \<le> card (pmm_avail s)" using assms(3) by simp
    from vmm_map_total [OF wf this] that show ?thesis by metis
  next
    case (Some f)
    then show ?thesis using vmm_map_present [of s v p flags] that m_le assms(3) by fastforce
  qed
  note spec = vmm_map_spec [OF assms(1) fl t(1)]
  have "missing_tables xs t \<subseteq> missing_tables (x # xs) s - op_prefix x"
    by (rule missing_step) (use vmm_map_leaf [OF assms(1) fl t(1)] Map_page in auto)
  then have "card (missing_tables xs t) \<le> m"
    unfolding m_def by (intro card_mono) (simp_all add: Map_page)
  then show ?thesis using that [of t] t spec by (auto simp: Map_page fun_eq_iff)
next
  case (Unmap_page v)
  obtain t where t: "vmm_unmap v s = Some t" "vmm_wf t" "pmm_avail t = pmm_avail s"
      "\<And>w. vmm_lookup t w = (if same_page w v then None else vmm_lookup s w)"
    using vmm_unmap_spec [OF assms(1)] by metis
  have "missing_tables xs t \<subseteq> missing_tables (x # xs) s - op_prefix x"
    by (rule missing_step) (use vmm_unmap_leaf [OF assms(1) t(1)] Unmap_page in auto)
  then have "card (missing_tables xs t) \<le> card (missing_tables (x # xs) s)"
    by (intro card_mono) (auto simp: Unmap_page)
  then show ?thesis using that [of t] t assms(3) by (auto simp: Unmap_page fun_eq_iff)
qed

lemma vmm_run_spec:
  assumes "vmm_wf s" "list_all op_ok xs" "n + 3 * card (missing_tables xs s) \<le> card (pmm_avail s)"
  obtains t where "vmm_run xs s = Some t" "vmm_wf t" "vmm_lookup t = fold map_op xs (vmm_lookup s)"
    "pmm_avail t \<subseteq> pmm_avail s" "n \<le> card (pmm_avail t)"
proof -
  have "\<exists>t. vmm_run xs s = Some t \<and> vmm_wf t \<and> vmm_lookup t = fold map_op xs (vmm_lookup s) \<and>
      pmm_avail t \<subseteq> pmm_avail s \<and> n \<le> card (pmm_avail t)"
    using assms
  proof (induction xs arbitrary: s)
    case (Cons x xs)
    have x: "op_ok x" "list_all op_ok xs" using Cons.prems(2) by simp_all
    obtain t where t: "vmm_step x s = Some t" "vmm_wf t" "vmm_lookup t = map_op x (vmm_lookup s)"
        "pmm_avail t \<subseteq> pmm_avail s" "n + 3 * card (missing_tables xs t) \<le> card (pmm_avail t)"
      by (rule vmm_step_spec [OF Cons.prems(1) x(1) Cons.prems(3)])
    from Cons.IH [OF t(2) x(2) t(5)] show ?case using t by auto
  qed simp
  then show ?thesis using that by blast
qed

section \<open>Properties\<close>

text \<open>C2: any sequence of \<open>vmm_map\<close> and \<open>vmm_unmap\<close> calls completes when three pages are free for
  each level-1 table that is missing, keeps the page tables well formed, and acts on the map they
  implement like the same sequence of updates and deletions.\<close>

theorem vmm_run_refines:
  assumes "vmm_wf s" "list_all op_ok xs" "3 * card (missing_tables xs s) \<le> card (pmm_avail s)"
  shows "\<exists>t. vmm_run xs s = Some t \<and> vmm_wf t \<and> vmm_lookup t = fold map_op xs (vmm_lookup s) \<and>
    pmm_avail t \<subseteq> pmm_avail s"
  using vmm_run_spec [of s xs 0] assms by fastforce

theorem vmm_run_refines_witness:
  "\<exists>t. vmm_run [Map_page 0x400000 0x200000 VMM_WRITE, Map_page 0x401000 0x203000 VMM_WRITE, Unmap_page 0x400000]
      vmm_example = Some t \<and> vmm_wf t \<and> vmm_lookup t 0x400123 = None \<and> vmm_lookup t 0x401FF8 = Some 0x203000"
proof -
  let ?xs = "[Map_page 0x400000 0x200000 VMM_WRITE, Map_page 0x401000 0x203000 VMM_WRITE, Unmap_page 0x400000]"
  have "missing_tables ?xs vmm_example \<subseteq> {2}"
    by (auto simp: missing_tables_def leaf_prefix_def)
  then have "card (missing_tables ?xs vmm_example) \<le> 1" by (rule card_mono [rotated, THEN order_trans]) simp_all
  then have "3 * card (missing_tables ?xs vmm_example) \<le> card (pmm_avail vmm_example)"
    using vmm_example_card by linarith
  from vmm_run_refines [OF vmm_example_wf _ this] obtain t where
    t: "vmm_run ?xs vmm_example = Some t" "vmm_wf t" "vmm_lookup t = fold map_op ?xs (vmm_lookup vmm_example)"
    by auto
  have "vmm_lookup t 0x400123 = None" "vmm_lookup t 0x401FF8 = Some 0x203000"
    by (simp_all add: t(3) same_page_def PAGE_MASK_def)
  then show ?thesis using t by blast
qed

end
