(* ===== verification/Vmm_Init.thy ===== *)
theory Vmm_Init
  imports Vmm_Run
begin

text \<open>
  The loops of \<open>init_vmm\<close> over the memory map and the bitmap are one run of mappings: the map this
  run builds, the fields it leaves alone, and the number of tables it needs.
\<close>

section \<open>The loops as runs\<close>

definition range_ops :: "u64 \<Rightarrow> u64 \<Rightarrow> nat \<Rightarrow> vmm_op list" where
  "range_ops v p n = map (\<lambda>k. Map_page (v + of_nat k * PAGE_SIZE_VMM) (p + of_nat k * PAGE_SIZE_VMM) VMM_WRITE) [0..<n]"

definition pages_of :: "limine_memmap_entry \<Rightarrow> nat" where
  "pages_of e = (unat (me_length e) + 4095) div 4096"

definition entry_ops :: "limine_memmap_entry \<Rightarrow> vmm_op list" where
  "entry_ops e = (if usable e then range_ops (me_base e) (me_base e) (pages_of e) else [])"

lemma range_ops_Suc:
  "range_ops v p (Suc n) = Map_page v p VMM_WRITE # range_ops (v + PAGE_SIZE_VMM) (p + PAGE_SIZE_VMM) n"
proof -
  have "[0..<Suc n] = 0 # map Suc [0..<n]" by (simp add: upt_conv_Cons map_Suc_upt del: upt_Suc)
  then show ?thesis by (simp add: range_ops_def algebra_simps del: upt_Suc)
qed

lemma range_ops_0 [simp]: "range_ops v p 0 = []"
  by (simp add: range_ops_def)

lemma range_ops_ok [simp]: "list_all op_ok (range_ops v p n)"
  by (simp add: range_ops_def list_all_iff)

lemma map_usable_run:
  assumes "unat a + 4096 * n < 2 ^ 64" "unat stop \<le> unat a + 4096 * n" "unat a + 4096 * n < unat stop + 4096"
    "a \<le> stop"
  shows "map_usable a stop s = vmm_run (range_ops a a n) s"
  using assms
proof (induction n arbitrary: a s)
  case 0
  then have "\<not> a < stop" by (simp add: word_less_nat_alt)
  then show ?case by (simp add: map_usable.simps)
next
  case (Suc n)
  have lt: "a < stop" using Suc.prems(3) by (simp add: word_less_nat_alt)
  have u: "unat (a + PAGE_SIZE_VMM) = unat a + 4096"
    using Suc.prems(1) by (subst unat_plus_no_overflow) (auto simp: PAGE_SIZE_VMM_def)
  show ?case
  proof (cases n)
    case 0
    have "\<not> a + PAGE_SIZE_VMM < stop" using Suc.prems(2) u 0 by (simp add: word_less_nat_alt)
    then have "map_usable (a + PAGE_SIZE_VMM) stop t = Some t" for t :: "'a vmm_state_scheme"
      by (simp add: map_usable.simps)
    then show ?thesis using lt by (auto simp: map_usable.simps [of a] range_ops_Suc 0 split: Option.bind_splits)
  next
    case (Suc m)
    have "a + PAGE_SIZE_VMM \<le> stop"
      using Suc.prems(3) u Suc by (simp add: word_le_nat_alt)
    then have "map_usable (a + PAGE_SIZE_VMM) stop t =
        vmm_run (range_ops (a + PAGE_SIZE_VMM) (a + PAGE_SIZE_VMM) n) t" for t :: "'a vmm_state_scheme"
      using Suc.IH [of "a + PAGE_SIZE_VMM" t] Suc.prems u by simp
    then show ?thesis using lt by (auto simp: map_usable.simps [of a] range_ops_Suc split: Option.bind_splits)
  qed
qed

lemma map_memmap_run:
  assumes "\<And>e. e \<in> set es \<Longrightarrow> usable e \<Longrightarrow> region_ok e"
  shows "map_memmap es s = vmm_run (concat (map entry_ops es)) s"
  using assms
proof (induction es arbitrary: s)
  case (Cons e es)
  have IH: "map_memmap es t = vmm_run (concat (map entry_ops es)) t" for t :: "'a vmm_state_scheme"
    using Cons by simp
  show ?case
  proof (cases "usable e")
    case True
    then have r: "unat (me_base e) + unat (me_length e) \<le> 2 ^ 47"
      using Cons.prems [of e] by (simp add: region_ok_def)
    then have u: "unat (me_base e + me_length e) = unat (me_base e) + unat (me_length e)"
      by (subst unat_plus_no_overflow) auto
    have "4096 * pages_of e < unat (me_length e) + 4096" "unat (me_length e) \<le> 4096 * pages_of e"
      by (simp_all add: pages_of_def)
    then have "map_usable (me_base e) (me_base e + me_length e) s = vmm_run (range_ops (me_base e) (me_base e) (pages_of e)) s"
      using r u by (intro map_usable_run) (auto simp: word_le_nat_alt)
    moreover have "entry_ops e = range_ops (me_base e) (me_base e) (pages_of e)"
      "me_type e = LIMINE_MEMMAP_USABLE" using True by (simp_all add: entry_ops_def usable_def)
    ultimately show ?thesis using IH by (auto simp: vmm_run_append split: Option.bind_splits)
  next
    case False
    then have "entry_ops e = []" "me_type e \<noteq> LIMINE_MEMMAP_USABLE"
      by (simp_all add: entry_ops_def usable_def)
    then show ?thesis using IH by simp
  qed
qed simp

section \<open>The fields the loops do not change\<close>

definition boot_fields where
  "boot_fields s = (g_hhdm_offset s, g_memmap s, pmm_bitmap_addr s, pmm_bitmap_size s, managed_base s,
     total_pages s, current_pml4 s, vmm_state.more s)"

lemma alloc_table_fields:
  assumes "alloc_table s = Some (f, t)"
  shows "boot_fields t = boot_fields s"
proof -
  obtain u where u: "pmm_alloc_page s = (f, u)" "t = zero_page (physical_to_virtual f u) u"
    using assms by (auto simp: alloc_table_def Let_def split: prod.splits if_splits)
  then have "u = snd (pmm_alloc_page s)" by simp
  then show ?thesis
    using pmm_alloc_more [OF u(1)] by (simp add: u(2) boot_fields_def zero_page_def)
qed

lemma walk_level_fields: "walk_level e create s = Some (ok, t) \<Longrightarrow> boot_fields t = boot_fields s"
  by (auto simp: walk_level_def bind_eq_Some_conv boot_fields_def dest: alloc_table_fields split: if_splits)

lemma vmm_map_fields:
  assumes "vmm_map v p flags s = Some t"
  shows "boot_fields t = boot_fields s"
proof -
  obtain pte u where w: "walk v True s = Some (pte, u)"
      and t: "t = invlpg v (u\<lparr>pmem := (pmem u)(pte := (p AND PAGE_MASK) OR flags OR VMM_PRESENT)\<rparr>)"
    using assms by (auto simp: vmm_map_def bind_eq_Some_conv)
  have "boot_fields u = boot_fields s"
    using w by (auto simp: walk_unfold bind_eq_Some_conv Let_def split: if_splits dest!: walk_level_fields)
  then show ?thesis by (simp add: t invlpg_def boot_fields_def)
qed

lemma range_fields: "vmm_run (range_ops v p n) s = Some t \<Longrightarrow> boot_fields t = boot_fields s"
proof (induction n arbitrary: v p s)
  case (Suc n)
  then show ?case by (auto simp: range_ops_Suc bind_eq_Some_conv dest!: vmm_map_fields)
qed simp

lemma memmap_fields: "vmm_run (concat (map entry_ops es)) s = Some t \<Longrightarrow> boot_fields t = boot_fields s"
proof (induction es arbitrary: s)
  case (Cons e es)
  then show ?case
    by (auto simp: vmm_run_append bind_eq_Some_conv entry_ops_def dest!: range_fields split: if_splits)
qed simp

lemma map_bitmap_run:
  "map_bitmap (map (\<lambda>k. k * 4096) [j..<j + n]) b s =
   vmm_run (range_ops (b + g_hhdm_offset s + of_nat j * PAGE_SIZE_VMM) (b + of_nat j * PAGE_SIZE_VMM) n) s"
proof (induction n arbitrary: j s)
  case (Suc n)
  have up: "[j..<j + Suc n] = j # [Suc j..<Suc (j + n)]" by (simp add: upt_conv_Cons)
  have IH: "map_bitmap (map (\<lambda>k. k * 4096) [Suc j..<Suc (j + n)]) b t =
      vmm_run (range_ops (b + g_hhdm_offset s + of_nat j * PAGE_SIZE_VMM + PAGE_SIZE_VMM)
        (b + of_nat j * PAGE_SIZE_VMM + PAGE_SIZE_VMM) n) t"
    if "vmm_map v p VMM_WRITE s = Some t" for t v p
  proof -
    have "g_hhdm_offset t = g_hhdm_offset s" using vmm_map_fields [OF that] by (simp add: boot_fields_def)
    then show ?thesis using Suc.IH [of "Suc j" t] by (simp add: algebra_simps)
  qed
  have of: "(of_nat (j * 4096) :: u64) = of_nat j * PAGE_SIZE_VMM" by (simp add: PAGE_SIZE_VMM_def)
  show ?case unfolding up range_ops_Suc
    by (auto simp del: upt_Suc of_nat_mult simp: of IH split: Option.bind_splits)
qed simp

section \<open>The map the runs build\<close>

definition in_range :: "u64 \<Rightarrow> nat \<Rightarrow> u64 \<Rightarrow> bool" where
  "in_range v n w \<longleftrightarrow> (\<exists>k<n. same_page w (v + of_nat k * PAGE_SIZE_VMM))"

text \<open>The page of an address in the low half of the address space, as a frame.\<close>

definition low_frame :: "u64 \<Rightarrow> u64" where
  "low_frame w = take_bit 48 w AND PAGE_MASK"

lemma same_page_frame:
  assumes "same_page w a" "unat a < 2 ^ 48"
  shows "a AND PAGE_MASK = low_frame w"
proof (rule u64_eqI)
  fix n :: nat
  have "take_bit 48 a = a" using assms(2)
    by (simp add: word_unat_eq_iff unsigned_take_bit_eq take_bit_nat_eq_self_iff)
  then have hi: "bit a n \<Longrightarrow> n < 48" by (metis bit_take_bit_iff)
  have mid: "bit a n = bit w n" if "12 \<le> n" "n < 48"
  proof -
    have "bit (take_bit 36 (drop_bit 12 a)) (n - 12) = bit (take_bit 36 (drop_bit 12 w)) (n - 12)"
      using assms(1) by (simp add: same_page_def)
    moreover have "n - 12 < 36" using that by linarith
    ultimately show ?thesis using that by (simp add: bit_take_bit_iff bit_drop_bit_eq)
  qed
  show "bit (a AND PAGE_MASK) n = bit (low_frame w) n"
    using hi mid by (auto simp: low_frame_def bit_and_iff bit_take_bit_iff PAGE_MASK_bit)
qed

lemma page_number:
  assumes "r < (0x1000 :: u64)"
  shows "take_bit 36 (drop_bit 12 (push_bit 12 q + r)) = take_bit 36 (q :: u64)"
proof -
  have tr: "take_bit 12 r = r" using assms by (simp add: take_bit_eq_mask_iff less_mask_eq mask_eq_exp_minus_1
        word_unat_eq_iff unsigned_take_bit_eq take_bit_nat_eq_self_iff word_less_nat_alt)
  then have r: "bit r n \<Longrightarrow> n < 12" for n by (metis bit_take_bit_iff)
  have eq: "push_bit 12 q + r = push_bit 12 q OR r"
    by (rule disjunctive_add) (use r in \<open>force simp: bit_push_bit_iff\<close>)
  have "bit (take_bit 36 (drop_bit 12 (push_bit 12 q OR r))) n = bit (take_bit 36 q) n" for n
  proof (cases "n < 36")
    case True
    then have "\<not> bit r (12 + n)" using r [of "12 + n"] by auto
    then show ?thesis using True by (simp add: bit_take_bit_iff bit_drop_bit_eq bit_or_iff bit_push_bit_iff)
  qed (simp only: bit_take_bit_iff, simp)
  then show ?thesis unfolding eq u64_eq_iff by blast
qed

lemma take_bit_diff_iff:
  assumes "take_bit 36 w = take_bit 36 (x + g :: u64)"
  shows "take_bit 36 (w - g) = take_bit 36 x"
proof -
  have iff: "take_bit 36 a = take_bit 36 b \<longleftrightarrow> uint a mod 2 ^ 36 = uint b mod 2 ^ 36" for a b :: u64
    by (simp add: word_uint_eq_iff take_bit_eq_mod uint_mod)
  have mm: "y mod 18446744073709551616 mod 68719476736 = y mod (68719476736 :: int)" for y
    by (rule mod_mod_cancel) simp
  have "(uint w - uint (x + g)) mod 2 ^ 36 = 0" using assms by (simp add: iff mod_eq_dvd_iff)
  moreover have "uint (x + g) mod 2 ^ 36 = (uint x + uint g) mod 2 ^ 36"
    by (simp add: uint_word_ariths mm)
  ultimately have "(uint w - (uint x + uint g)) mod 2 ^ 36 = 0"
    by (metis mod_diff_right_eq)
  then have "(uint w - uint g) mod 2 ^ 36 = uint x mod 2 ^ 36"
    by (simp add: mod_eq_dvd_iff mod_eq_0_iff_dvd algebra_simps)
  then show ?thesis by (simp add: iff uint_word_ariths mm)
qed

lemma same_page_diff:
  assumes "unat h mod 4096 = 0" "same_page w (h + x)"
  shows "same_page (w - h) x"
proof -
  have low: "take_bit 12 y < (0x1000 :: u64)" for y :: u64
    by (simp add: word_less_nat_alt take_bit_eq_mod unat_mod)
  have split: "y = push_bit 12 (drop_bit 12 y) + take_bit 12 y" for y :: u64
    by (metis bits_ident)
  have "take_bit 12 h = 0" using assms(1)
    by (simp add: unat_eq_zero [symmetric] take_bit_eq_mod unat_mod)
  then have h: "h = push_bit 12 (drop_bit 12 h)" using split [of h] by simp
  define g where "g = drop_bit 12 h"
  have add: "h + x = push_bit 12 (drop_bit 12 x + g) + take_bit 12 x"
    using split [of x] h by (simp add: g_def push_bit_add)
  have sub: "w - h = push_bit 12 (drop_bit 12 w - g) + take_bit 12 w"
    using split [of w] h by (simp add: g_def push_bit_eq_mult algebra_simps)
  have "take_bit 36 (drop_bit 12 w) = take_bit 36 (drop_bit 12 x + g)"
    using assms(2) unfolding same_page_def add page_number [OF low] .
  then show ?thesis
    unfolding same_page_def sub page_number [OF low] by (rule take_bit_diff_iff)
qed

lemma fold_range:
  assumes "\<And>k. k < n \<Longrightarrow> same_page w (v + of_nat k * PAGE_SIZE_VMM) \<Longrightarrow>
    (p + of_nat k * PAGE_SIZE_VMM) AND PAGE_MASK = c"
  shows "fold map_op (range_ops v p n) m w = (if in_range v n w then Some c else m w)"
  using assms
proof (induction n)
  case (Suc n)
  have "range_ops v p (Suc n) =
      range_ops v p n @ [Map_page (v + of_nat n * PAGE_SIZE_VMM) (p + of_nat n * PAGE_SIZE_VMM) VMM_WRITE]"
    by (simp add: range_ops_def)
  moreover have "fold map_op (range_ops v p n) m w = (if in_range v n w then Some c else m w)"
    using Suc by simp
  moreover have "in_range v (Suc n) w \<longleftrightarrow> in_range v n w \<or> same_page w (v + of_nat n * PAGE_SIZE_VMM)"
    by (auto simp: in_range_def less_Suc_eq)
  ultimately show ?case using Suc.prems [of n] by auto
qed (simp add: in_range_def)

lemma unat_page_offset:
  assumes "unat b + 4096 * n \<le> 2 ^ 64" "k < n"
  shows "unat (b + of_nat k * PAGE_SIZE_VMM) = unat b + 4096 * k"
proof -
  have "4096 * k < 2 ^ 64" using assms by linarith
  then have "unat (of_nat k * PAGE_SIZE_VMM) = 4096 * k"
    by (simp add: PAGE_SIZE_VMM_def unat_word_ariths unat_of_nat mult.commute)
  then show ?thesis using assms by (subst unat_plus_no_overflow) auto
qed

lemma region_pages:
  assumes "region_ok e"
  shows "unat (me_base e) + 4096 * pages_of e \<le> 2 ^ 47"
proof -
  define b where "b = unat (me_base e) div 4096"
  have b: "unat (me_base e) = 4096 * b"
    using assms mult_div_mod_eq [of 4096 "unat (me_base e)"] by (simp add: region_ok_def PAGE_SIZE_def b_def)
  have "unat (me_base e) + unat (me_length e) \<le> 2 ^ 47" using assms by (simp add: region_ok_def)
  then have "b + pages_of e \<le> 2 ^ 35" unfolding b pages_of_def by simp
  then show ?thesis using b by simp
qed

lemma fold_entry:
  assumes "usable e \<Longrightarrow> region_ok e"
  shows "fold map_op (entry_ops e) m w =
    (if usable e \<and> in_range (me_base e) (pages_of e) w then Some (low_frame w) else m w)"
proof (cases "usable e")
  case True
  note r = region_pages [OF assms [OF True]]
  have "fold map_op (range_ops (me_base e) (me_base e) (pages_of e)) m w =
      (if in_range (me_base e) (pages_of e) w then Some (low_frame w) else m w)"
    by (rule fold_range) (use r unat_page_offset [of "me_base e" "pages_of e"] in \<open>simp add: same_page_frame\<close>)
  then show ?thesis using True by (simp add: entry_ops_def)
qed (simp add: entry_ops_def)

definition usable_page :: "limine_memmap_entry list \<Rightarrow> u64 \<Rightarrow> bool" where
  "usable_page es w \<longleftrightarrow> (\<exists>e\<in>set es. usable e \<and> in_range (me_base e) (pages_of e) w)"

lemma fold_memmap:
  assumes "\<And>e. e \<in> set es \<Longrightarrow> usable e \<Longrightarrow> region_ok e"
  shows "fold map_op (concat (map entry_ops es)) m w = (if usable_page es w then Some (low_frame w) else m w)"
  using assms
proof (induction es arbitrary: m)
  case (Cons e es)
  then show ?case using fold_entry [of e m w] by (auto simp: usable_page_def)
qed (simp add: usable_page_def)

lemma fold_bitmap:
  assumes "unat h mod 4096 = 0" "unat b + 4096 * n \<le> 2 ^ 47"
  shows "fold map_op (range_ops (h + b) b n) m w = (if in_range (h + b) n w then Some (low_frame (w - h)) else m w)"
proof (rule fold_range)
  fix k assume k: "k < n" "same_page w (h + b + of_nat k * PAGE_SIZE_VMM)"
  have "same_page (w - h) (b + of_nat k * PAGE_SIZE_VMM)"
    by (rule same_page_diff [OF assms(1)]) (use k(2) in \<open>simp add: add.assoc\<close>)
  then show "(b + of_nat k * PAGE_SIZE_VMM) AND PAGE_MASK = low_frame (w - h)"
    using unat_page_offset [of b n k] assms(2) k(1) by (intro same_page_frame) auto
qed

section \<open>How many tables are needed\<close>

definition prefixes :: "vmm_op list \<Rightarrow> u64 set" where
  "prefixes xs = (\<Union>x\<in>set xs. op_prefix x)"

text \<open>One level-1 table covers 512 pages; a range may begin and end inside one.\<close>

definition range_tables :: "nat \<Rightarrow> nat" where
  "range_tables n = n div 512 + 2"

definition memmap_tables :: "limine_memmap_entry list \<Rightarrow> nat" where
  "memmap_tables es = (\<Sum>e\<leftarrow>filter usable es. range_tables (pages_of e))"

lemma finite_prefixes [simp]: "finite (prefixes xs)"
proof -
  have "finite (op_prefix x)" for x by (cases x) auto
  then show ?thesis by (simp add: prefixes_def)
qed

lemma prefixes_append [simp]: "prefixes (xs @ ys) = prefixes xs \<union> prefixes ys"
  by (simp add: prefixes_def)

lemma card_missing: "card (missing_tables xs s) \<le> card (prefixes xs)"
  by (rule card_mono) (auto simp: missing_tables_def prefixes_def)

lemma card_range_prefixes:
  assumes "unat v + 4096 * n \<le> 2 ^ 64"
  shows "card (prefixes (range_ops v p n)) \<le> range_tables n"
proof -
  let ?f = "\<lambda>k. take_bit 27 (of_nat k :: u64)" and ?a = "unat v div 2 ^ 21"
  have "prefixes (range_ops v p n) \<subseteq> ?f ` {?a..?a + n div 512 + 1}"
  proof
    fix x assume "x \<in> prefixes (range_ops v p n)"
    then obtain k where k: "k < n" "x = leaf_prefix (v + of_nat k * PAGE_SIZE_VMM)"
      by (auto simp: prefixes_def range_ops_def)
    let ?w = "v + of_nat k * PAGE_SIZE_VMM"
    have u: "unat ?w = unat v + 4096 * k" using unat_page_offset [OF assms k(1)] .
    have d: "drop_bit 21 ?w = of_nat (unat ?w div 2 ^ 21)"
      using le_less_trans [OF div_le_dividend [of _ "2 ^ 21"] unsigned_less [of ?w]]
      by (simp add: drop_bit_eq_div word_unat_eq_iff unat_div unat_of_nat)
    have "unat ?w div 2 ^ 21 \<in> {?a..?a + n div 512 + 1}"
      unfolding u atLeastAtMost_iff using k(1) by (intro conjI) (simp_all add: div_le_mono)
    then have "?f (unat ?w div 2 ^ 21) \<in> ?f ` {?a..?a + n div 512 + 1}" by (rule imageI)
    then show "x \<in> ?f ` {?a..?a + n div 512 + 1}" unfolding k(2) leaf_prefix_def d .
  qed
  then have "card (prefixes (range_ops v p n)) \<le> card (?f ` {?a..?a + n div 512 + 1})"
    by (rule card_mono [rotated]) simp
  also have "\<dots> \<le> card {?a..?a + n div 512 + 1}" by (rule card_image_le) simp
  also have "\<dots> = range_tables n" by (simp add: range_tables_def)
  finally show ?thesis .
qed

lemma card_memmap_prefixes:
  assumes "\<And>e. e \<in> set es \<Longrightarrow> usable e \<Longrightarrow> region_ok e"
  shows "card (prefixes (concat (map entry_ops es))) \<le> memmap_tables es"
  using assms
proof (induction es)
  case (Cons e es)
  have IH: "card (prefixes (concat (map entry_ops es))) \<le> memmap_tables es" using Cons by simp
  show ?case
  proof (cases "usable e")
    case True
    have "unat (me_base e) + 4096 * pages_of e \<le> 2 ^ 64"
      using region_pages [of e] Cons.prems [of e] True by simp
    note r = card_range_prefixes [OF this, of "me_base e"]
    have "card (prefixes (concat (map entry_ops (e # es)))) \<le>
        card (prefixes (entry_ops e)) + card (prefixes (concat (map entry_ops es)))"
      by (simp add: card_Un_le)
    moreover have "entry_ops e = range_ops (me_base e) (me_base e) (pages_of e)"
      "memmap_tables (e # es) = range_tables (pages_of e) + memmap_tables es"
      using True by (simp_all add: entry_ops_def memmap_tables_def)
    ultimately show ?thesis using r IH by simp
  next
    case False
    then have "entry_ops e = []" "memmap_tables (e # es) = memmap_tables es"
      by (simp_all add: entry_ops_def memmap_tables_def)
    then show ?thesis using IH by simp
  qed
qed (simp add: memmap_tables_def prefixes_def)

end
