(* ===== verification/Loader_Tables.thy ===== *)
theory Loader_Tables
  imports Vmm_Tables
begin

text \<open>
  An example of the page tables a boot loader may hand over: 4 KiB pages only, one chain of tables for the first page of managed
  memory in the direct map and one for a page of the kernel image.
\<close>

definition loader_entries :: "(u64 \<times> u64 \<times> u64) list" where
  "loader_entries = [(0x200000, 256, 0x201003), (0x201000, 0, 0x202003), (0x202000, 0, 0x203003), (0x203000, 256, 0x100003),
     (0x200000, 511, 0x204003), (0x204000, 510, 0x205003), (0x205000, 0, 0x206003), (0x206000, 0, 0x300003)]"

text \<open>The memory that holds these entries, each given by its table, its index and its content, behind the direct map.\<close>

definition loader_pmem :: "u64 \<Rightarrow> u64 \<Rightarrow> u64" where
  "loader_pmem h a = (case find (\<lambda>(f, i, x). h + f + 8 * i = a) loader_entries of None \<Rightarrow> 0 | Some (f, i, x) \<Rightarrow> x)"

definition loader_levels :: "u64 \<Rightarrow> nat option" where
  "loader_levels = [0x200000 \<mapsto> 4, 0x201000 \<mapsto> 3, 0x202000 \<mapsto> 2, 0x203000 \<mapsto> 1, 0x204000 \<mapsto> 3, 0x205000 \<mapsto> 2, 0x206000 \<mapsto> 1]"

lemma loader_entry:
  assumes "pmem s = loader_pmem (g_hhdm_offset s)" "is_frame f" "i < 512"
  shows "pmem s (entry_addr s f i) = (case find (\<lambda>(g, j, x). g = f \<and> j = i) loader_entries of None \<Rightarrow> 0 | Some (g, j, x) \<Rightarrow> x)"
proof -
  have "\<forall>(g, j, x)\<in>set loader_entries. is_frame g \<and> j < 512" by (simp add: loader_entries_def is_frame_def PAGE_MASK_def)
  then have "find (\<lambda>(g, j, x). g_hhdm_offset s + g + 8 * j = entry_addr s f i) loader_entries =
      find (\<lambda>(g, j, x). g = f \<and> j = i) loader_entries"
    using entry_addr_inj [OF _ assms(2) _ assms(3), of _ _ s] by (intro find_cong refl) (auto simp: entry_addr_def)
  then show ?thesis by (simp add: assms(1) loader_pmem_def)
qed

lemma loader_next:
  assumes "pmem s = loader_pmem (g_hhdm_offset s)" "is_frame f" "i < 512"
  shows "next_table s f i = Some g \<longleftrightarrow> (f, i, g) \<in> set (map (\<lambda>(f, i, x). (f, i, x AND PAGE_MASK)) loader_entries)"
  unfolding next_table_def Let_def loader_entry [OF assms]
  by (auto simp: loader_entries_def VMM_PRESENT_def PAGE_MASK_def split: if_splits)

lemma loader_levels_ok:
  assumes "pmem s = loader_pmem (g_hhdm_offset s)" "current_pml4 s = 0x200000" "\<And>f. f \<in> dom loader_levels \<Longrightarrow> f \<notin> pmm_avail s"
  shows "levels_ok s loader_levels"
proof -
  have fr: "1 \<le> l \<and> is_frame f \<and> unat f < 2 ^ 47 \<and> f \<notin> pmm_avail s" if "loader_levels f = Some l" for f l
    using that assms(3) [of f] by (auto simp: loader_levels_def is_frame_def PAGE_MASK_def split: if_splits)
  have edge: "(f, i, g) \<in> {(0x200000, 256, 0x201000), (0x201000, 0, 0x202000), (0x202000, 0, 0x203000),
      (0x200000, 511, 0x204000), (0x204000, 510, 0x205000), (0x205000, 0, 0x206000)}"
    if A: "loader_levels f = Some l" "1 < l" "i < 512" "next_table s f i = Some g" for f l i g
  proof -
    have "(f, i, g) \<in> set (map (\<lambda>(f, i, x). (f, i, x AND PAGE_MASK)) loader_entries)"
      using loader_next [OF assms(1) _ A(3), of f g] fr [OF A(1)] A(4) by blast
    moreover have "f \<noteq> 0x203000" "f \<noteq> 0x206000" using A(1,2) by (auto simp: loader_levels_def)
    ultimately show ?thesis by (auto simp: loader_entries_def PAGE_MASK_def)
  qed
  show ?thesis
    unfolding levels_ok_def
  proof (intro conjI allI impI)
    show "loader_levels (current_pml4 s) = Some 4" by (simp add: assms(2) loader_levels_def)
  next
    fix f l i g assume A: "loader_levels f = Some l" "1 < l" "i < 512" "next_table s f i = Some g"
    show "loader_levels g = Some (l - 1)" using edge [OF A] A(1) by (auto simp: loader_levels_def)
  next
    fix f l i f' l' i' g
    assume A: "loader_levels f = Some l" "1 < l" "i < 512" "next_table s f i = Some g"
      "loader_levels f' = Some l'" "1 < l'" "i' < 512" "next_table s f' i' = Some g"
    show "f = f'" "i = i'" using edge [OF A(1-4)] edge [OF A(5-8)] by auto
  qed (use fr in blast)+
qed

lemma lookup_path:
  assumes "next_table s (current_pml4 s) (level_index 4 v) = Some a" "next_table s a (level_index 3 v) = Some b"
    "next_table s b (level_index 2 v) = Some c" "next_table s c (level_index 1 v) = Some d"
  shows "vmm_lookup s v = Some d"
  using assms by (simp add: vmm_lookup_def numeral_eq_Suc)

lemma loader_lookup:
  assumes "pmem s = loader_pmem (g_hhdm_offset s)" "current_pml4 s = 0x200000"
  shows "vmm_lookup s 0xFFFF800000100000 = Some 0x100000" "vmm_lookup s 0xFFFFFFFF80000000 = Some 0x300000"
proof -
  have next_is: "next_table s f i = Some g"
    if "(f, i, g) \<in> set (map (\<lambda>(f, i, x). (f, i, x AND PAGE_MASK)) loader_entries)" "is_frame f" "i < 512" for f i g
    using that loader_next [OF assms(1)] by blast
  note facts = assms(2) level_index_def loader_entries_def is_frame_def PAGE_MASK_def
  show "vmm_lookup s 0xFFFF800000100000 = Some 0x100000"
    by (rule lookup_path [of s _ "0x201000" "0x202000" "0x203000"]; rule next_is; simp add: facts)
  show "vmm_lookup s 0xFFFFFFFF80000000 = Some 0x300000"
    by (rule lookup_path [of s _ "0x204000" "0x205000" "0x206000"]; rule next_is; simp add: facts)
qed

end
