(* ===== verification/Vmm_Boot.thy ===== *)
theory Vmm_Boot
  imports Vmm_Init Loader_Tables
begin

text \<open>
  What \<open>init_vmm\<close> builds: tables that map every usable page to itself and the pages of the bitmap into
  the direct map, and that keep the upper half the boot loader set up; and what becomes of a mapping
  when that upper half contains large pages.
\<close>

section \<open>The new root table\<close>

text \<open>Turning the copy of the upper half into the current root keeps the tables well formed: the old
  root and the new one share the tables below, but only one of them is a root.\<close>

lemma new_root:
  fixes s :: "'a vmm_state_scheme"
  assumes "vmm_wf s" "alloc_table s = Some (new, u)"
    and t: "t = (copy_upper_half (g_hhdm_offset s + new) (g_hhdm_offset s + current_pml4 s) u)\<lparr>current_pml4 := new\<rparr>"
  shows "vmm_wf t" "vmm_lookup t w = (if 256 \<le> PML4_INDEX w then vmm_lookup s w else None)"
    "pmm_avail t = pmm_avail s - {new}" "is_frame new"
proof -
  obtain lv where wf: "pmm_wf s" "hhdm_ok s" "levels_ok s lv" using assms(1) by (auto simp: vmm_wf_def)
  note spec = alloc_table_spec [OF wf(1) assms(2)]
  let ?r = "current_pml4 s"
  have root: "lv ?r = Some 4" by (rule levels_okD(1) [OF wf(3)])
  have fresh: "lv new = None" using levels_okD(2) [OF wf(3), of new] spec(1) by (cases "lv new") auto
  have fr: "is_frame ?r" "new \<noteq> ?r" using levels_okD(2) [OF wf(3) root] fresh root by auto
  define c where "c = copy_upper_half (g_hhdm_offset u + new) (g_hhdm_offset u + ?r) u"
  have tc: "t = c\<lparr>current_pml4 := new\<rparr>" using spec(7) by (simp add: t c_def)
  note cp = copy_upper_half_entries [where s = u, OF spec(2) fr, folded c_def]
  have nt: "next_table t = next_table c" by (intro ext) (simp add: tc next_table_def entry_addr_def)
  have av: "pmm_avail t = pmm_avail s - {new}"
    using spec(4) by (simp add: tc c_def copy_upper_half_def pmm_avail_def page_addr_def)
  have hh: "entry_addr u = entry_addr s" by (intro ext) (simp add: entry_addr_def spec)
  have us: "next_table u h j = next_table s h j" if "is_frame h" "h \<noteq> new" "j < 512" for h j
    using entry_outside_page [OF that(1) spec(2) that(2,3), of s] by (simp add: next_table_target hh spec(6))
  have zero: "next_table u new j = None" if "j < 512" for j
    using entry_inside_page [OF that, of s new] by (simp add: next_table_target hh spec(6) entry_target_def)
  have old: "next_table t h j = next_table s h j" if "lv h = Some k" "j < 512" for h k j
  proof -
    have "is_frame h" "h \<noteq> new" using levels_okD(2) [OF wf(3) that(1)] fresh that(1) by auto
    then show ?thesis using cp(1) [of h j] us [of h j] that(2) by (simp add: nt)
  qed
  have top: "next_table t new i = (if 256 \<le> i then next_table s ?r i else None)" if "i < 512" for i
    using cp(2) [OF that] us [OF fr(1) fr(2) [symmetric] that] zero [OF that] by (simp add: nt)
  have top_old: "lv g = Some 3" if "i < 512" "next_table t new i = Some g" for i g
    using top [OF that(1)] that(2) levels_okD(3) [OF wf(3) root _ that(1), of g] by (auto split: if_splits)
  define lv' where "lv' h = (if h = new then Some 4 else if lv h \<in> {Some 1, Some 2, Some 3} then lv h else None)" for h
  have lv': "lv' h = Some k \<longleftrightarrow> h = new \<and> k = 4 \<or> lv h = Some k \<and> k \<in> {1, 2, 3}" for h k
    using fresh by (auto simp: lv'_def split: if_splits)
  have down: "lv g = Some (k - 1) \<and> k - 1 \<in> {1, 2, 3}"
    if A: "lv' h = Some k" "1 < k" "j < 512" "next_table t h j = Some g" for h k j g
  proof -
    consider "h = new" "k = 4" | "lv h = Some k" "k \<in> {1, 2, 3}" using A(1) [unfolded lv'] by auto
    then show ?thesis
    proof cases
      case 1
      then show ?thesis using top_old [OF A(3)] A(4) by simp
    next
      case 2
      then show ?thesis using old [OF 2(1) A(3)] A(2,4) levels_okD(3) [OF wf(3) 2(1) A(2,3)] by auto
    qed
  qed
  text \<open>An entry of the new tables is the entry of an old table: at the new root, that of the old root.\<close>
  define orig where "orig h = (if h = new then ?r else h)" for h
  have origin: "lv (orig h) = Some k \<and> next_table s (orig h) j = Some g"
    if "lv' h = Some k" "j < 512" "next_table t h j = Some g" for h k j g
  proof (cases "h = new")
    case True
    then have "k = 4" using that(1) [unfolded lv'] fresh by auto
    moreover have "next_table s ?r j = Some g" using top [OF that(2)] that(3) True by (simp split: if_splits)
    ultimately show ?thesis using root True by (simp add: orig_def)
  next
    case False
    then have "lv h = Some k" using that(1) [unfolded lv'] by blast
    then show ?thesis using old [OF _ that(2)] that(3) False by (simp add: orig_def)
  qed
  have "levels_ok t lv'"
    unfolding levels_ok_def
  proof (intro conjI allI impI)
    show "lv' (current_pml4 t) = Some 4" by (simp add: tc lv'_def)
  next
    fix h k assume h: "lv' h = Some k"
    have "1 \<le> k \<and> is_frame h \<and> unat h < 2 ^ 47 \<and> h \<notin> pmm_avail t"
    proof (cases "h = new")
      case True
      then show ?thesis using h spec(2,3) by (simp add: lv'_def av)
    next
      case False
      then have "lv h = Some k" using h unfolding lv' by blast
      then show ?thesis using levels_okD(2) [OF wf(3), of h k] by (simp add: av)
    qed
    then show "1 \<le> k" "is_frame h" "unat h < 2 ^ 47" "h \<notin> pmm_avail t" by simp_all
  next
    fix h k j g assume "lv' h = Some k" "1 < k" "j < 512" "next_table t h j = Some g"
    from down [OF this] show "lv' g = Some (k - 1)" using lv' [of g "k - 1"] by blast
  next
    fix h k j h' k' j' g
    assume A: "lv' h = Some k" "1 < k" "j < 512" "next_table t h j = Some g"
      "lv' h' = Some k'" "1 < k'" "j' < 512" "next_table t h' j' = Some g"
    note p = origin [OF A(1,3,4)] origin [OF A(5,7,8)]
    have eq: "orig h = orig h' \<and> j = j'"
      by (rule levels_okD(4) [OF wf(3) conjunct1 [OF p(1)] A(2,3) conjunct2 [OF p(1)]
          conjunct1 [OF p(2)] A(6,7) conjunct2 [OF p(2)]])
    have "k = k'" using eq p by simp
    then have "h = new \<longleftrightarrow> h' = new" using A(1,5) [unfolded lv'] fresh by auto
    then show "h = h'" "j = j'" using eq by (auto simp: orig_def)
  qed
  then show "vmm_wf t"
    using spec(5,7) wf(2) by (auto simp: vmm_wf_def tc c_def copy_upper_half_def pmm_wf_def hhdm_ok_def)
  show "pmm_avail t = pmm_avail s - {new}" by (fact av)
  show "is_frame new" by (fact spec(2))
  have below: "table_lookup t 3 g w = table_lookup s 3 g w" if "lv g = Some 3" for g
    by (rule table_lookup_cong [OF wf(3) that]) (use old in blast)
  have cur: "current_pml4 t = new" by (simp add: tc)
  have "table_lookup s 3 g w = table_lookup t 3 g w" if "next_table t new (level_index 4 w) = Some g" for g
    using below top_old [OF _ that] by simp
  then show "vmm_lookup t w = (if 256 \<le> PML4_INDEX w then vmm_lookup s w else None)"
    using top [of "level_index 4 w"]
    by (auto simp: vmm_lookup_def level_index_simps cur numeral_eq_Suc split: option.splits)
qed

section \<open>Initialisation\<close>

text \<open>The page tables of the boot loader are those the processor uses when \<open>init_vmm\<close> starts.\<close>

definition boot_view :: "'a vmm_state_scheme \<Rightarrow> 'a vmm_state_scheme" where
  "boot_view s = s\<lparr>current_pml4 := cr3 s AND PAGE_MASK\<rparr>"

definition boot_ok :: "limine_memmap_entry list \<Rightarrow> 'a vmm_state_scheme \<Rightarrow> bool" where
  "boot_ok es s \<longleftrightarrow> g_memmap s = Some es \<and> (\<forall>e\<in>set es. usable e \<longrightarrow> region_ok e) \<and>
     pmm_bitmap_addr s = g_hhdm_offset s + managed_base s \<and> pmm_bitmap_size s = (total_pages s + 7) div 8 \<and>
     unat (g_hhdm_offset s) mod 4096 = 0 \<and> vmm_wf (boot_view s)"

definition bitmap_pages :: "'a pmm_state_scheme \<Rightarrow> nat" where
  "bitmap_pages s = (pmm_bitmap_size s + 4095) div 4096"

text \<open>The map \<open>init_vmm\<close> promises: the bitmap in the direct map, the usable memory at its own
  addresses, the upper half of the boot loader.\<close>

definition boot_map ::
  "limine_memmap_entry list \<Rightarrow> 'a pmm_state_scheme \<Rightarrow> (u64 \<Rightarrow> u64 option) \<Rightarrow> u64 \<Rightarrow> u64 option" where
  "boot_map es s old w =
     (if in_range (pmm_bitmap_addr s) (bitmap_pages s) w then Some (low_frame (w - g_hhdm_offset s))
      else if usable_page es w then Some (low_frame w)
      else if 256 \<le> PML4_INDEX w then old w else None)"

definition boot_tables_needed :: "limine_memmap_entry list \<Rightarrow> 'a pmm_state_scheme \<Rightarrow> nat" where
  "boot_tables_needed es s = 1 + 3 * (memmap_tables es + range_tables (bitmap_pages s))"

lemma alloc_table_root:
  "alloc_table (s\<lparr>current_pml4 := r\<rparr>) = map_option (\<lambda>(f, t). (f, t\<lparr>current_pml4 := r\<rparr>)) (alloc_table s)"
proof -
  have "pmm_alloc_page (s\<lparr>current_pml4 := r\<rparr>) = (let (f, t) = pmm_alloc_page s in (f, t\<lparr>current_pml4 := r\<rparr>))"
    by (cases s) (simp add: pmm_alloc_page_def split: option.splits)
  moreover have "zero_page p (u\<lparr>current_pml4 := r\<rparr>) = (zero_page p u)\<lparr>current_pml4 := r\<rparr>" for p and u :: "'a vmm_state_scheme"
    by (cases u) (simp add: zero_page_def cong: if_cong)
  ultimately show ?thesis
    by (cases "pmm_alloc_page s") (simp add: alloc_table_def physical_to_virtual_def Let_def)
qed

lemma vmm_wf_cong:
  assumes "pmem t = pmem s" "current_pml4 t = current_pml4 s" "g_hhdm_offset t = g_hhdm_offset s"
    "pmm_bitmap t = pmm_bitmap s" "managed_base t = managed_base s" "total_pages t = total_pages s"
  shows "vmm_wf t = vmm_wf s" "vmm_lookup t w = vmm_lookup s w" "pmm_avail t = pmm_avail s"
proof -
  have nt: "next_table t f i = next_table s f i" for f i by (simp add: next_table_def entry_addr_def assms)
  have "table_lookup t k f w = table_lookup s k f w" for k f
    by (induction k arbitrary: f) (auto simp: nt split: option.splits)
  then show "vmm_lookup t w = vmm_lookup s w" by (simp add: vmm_lookup_def assms)
  show av: "pmm_avail t = pmm_avail s" by (simp add: pmm_avail_def page_addr_def assms)
  have "levels_ok t lv = levels_ok s lv" for lv by (simp add: levels_ok_def nt assms av)
  then show "vmm_wf t = vmm_wf s" by (simp add: vmm_wf_def pmm_wf_def hhdm_ok_def assms)
qed

lemma bitmap_pages_le:
  "pmm_bitmap_size s = (total_pages s + 7) div 8 \<Longrightarrow> bitmap_pages s \<le> total_pages s"
  by (cases "total_pages s = 0") (auto simp: bitmap_pages_def)

lemma bitmap_step:
  assumes "pmm_bitmap_addr s = g_hhdm_offset s + b" "g_hhdm_offset s + b \<noteq> 0"
  shows "(if pmm_bitmap_addr s \<noteq> NULL \<and> pmm_bitmap_size s \<noteq> 0
      then map_bitmap (map (\<lambda>k. k * 4096) [0..<(pmm_bitmap_size s + 4095) div 4096])
             (virtual_to_physical (pmm_bitmap_addr s) s) s
      else Some s) = vmm_run (range_ops (g_hhdm_offset s + b) b (bitmap_pages s)) s"
proof (cases "pmm_bitmap_size s = 0")
  case False
  have "virtual_to_physical (pmm_bitmap_addr s) s = b" by (simp add: virtual_to_physical_def assms(1))
  moreover have "map_bitmap (map (\<lambda>k. k * 4096) [0..<bitmap_pages s]) b s =
      vmm_run (range_ops (g_hhdm_offset s + b) b (bitmap_pages s)) s"
    using map_bitmap_run [of 0 "bitmap_pages s" b s] by (simp add: add.commute [of b])
  ultimately show ?thesis using assms False by (simp add: bitmap_pages_def)
qed (simp add: bitmap_pages_def)

text \<open>The root table at the start of the loops.\<close>

lemma boot_root:
  assumes "boot_ok es s" "pmm_avail s \<noteq> {}"
  obtains new u t where "alloc_table (kprint m s) = Some (new, u)"
    "t = copy_upper_half (physical_to_virtual new u) (physical_to_virtual (cr3 s AND PAGE_MASK) s) (u\<lparr>current_pml4 := new\<rparr>)"
    "vmm_wf t" "\<And>w. vmm_lookup t w = (if 256 \<le> PML4_INDEX w then vmm_lookup (boot_view s) w else None)"
    "pmm_avail t = pmm_avail s - {new}" "new \<in> pmm_avail s" "is_frame new"
    "boot_fields t = boot_fields (s\<lparr>current_pml4 := new\<rparr>)"
proof -
  define sb where "sb = (kprint m s)\<lparr>current_pml4 := cr3 s AND PAGE_MASK\<rparr>"
  have cong: "vmm_wf sb = vmm_wf (boot_view s)" "vmm_lookup sb w = vmm_lookup (boot_view s) w"
    "pmm_avail sb = pmm_avail s" for w
    by (rule vmm_wf_cong(1) vmm_wf_cong(2); simp add: sb_def boot_view_def console_defs)+
       (simp add: sb_def console_defs pmm_avail_def page_addr_def)
  have wf: "vmm_wf sb" using assms(1) cong(1) by (simp add: boot_ok_def)
  then have pwf: "pmm_wf sb" by (simp add: vmm_wf_def)
  obtain new v where v: "alloc_table sb = Some (new, v)"
    using alloc_table_total [OF pwf] assms(2) cong(3) by metis
  then obtain u where u: "alloc_table (kprint m s) = Some (new, u)" "v = u\<lparr>current_pml4 := cr3 s AND PAGE_MASK\<rparr>"
    unfolding sb_def alloc_table_root by auto
  have bu: "boot_fields u = boot_fields s"
    using alloc_table_fields [OF u(1)] by (simp add: boot_fields_def console_defs)
  then have hh: "g_hhdm_offset u = g_hhdm_offset s" by (simp add: boot_fields_def)
  define t where "t = copy_upper_half (physical_to_virtual new u) (physical_to_virtual (cr3 s AND PAGE_MASK) s)
      (u\<lparr>current_pml4 := new\<rparr>)"
  have t: "t = (copy_upper_half (g_hhdm_offset sb + new) (g_hhdm_offset sb + current_pml4 sb) v)\<lparr>current_pml4 := new\<rparr>"
    by (simp add: t_def copy_upper_half_def physical_to_virtual_def u(2) sb_def hh console_defs)
  note root = new_root [OF wf v t]
  have "new \<in> pmm_avail s" using alloc_table_spec(1) [OF pwf v] cong(3) by simp
  moreover have "boot_fields t = boot_fields (s\<lparr>current_pml4 := new\<rparr>)"
    using bu by (simp add: t_def copy_upper_half_def boot_fields_def)
  ultimately show ?thesis
    using that [OF u(1) t_def] root cong by simp
qed

lemma init_vmm_spec:
  assumes "boot_ok es s" "n + boot_tables_needed es s \<le> card (pmm_avail s)"
  obtains t where "init_vmm s = Some t" "vm_ok t {}" "n \<le> card (pmm_avail t)" "pmm_avail t \<subseteq> pmm_avail s"
    "vmm_lookup t = boot_map es s (vmm_lookup (boot_view s))" "vmm_state.more t = vmm_state.more s"
proof -
  let ?h = "g_hhdm_offset s" and ?b = "managed_base s" and ?n = "bitmap_pages s"
  have ok: "g_memmap s = Some es" "\<And>e. e \<in> set es \<Longrightarrow> usable e \<Longrightarrow> region_ok e"
      "pmm_bitmap_addr s = ?h + ?b" "pmm_bitmap_size s = (total_pages s + 7) div 8"
      "unat ?h mod 4096 = 0" "pmm_wf s" "hhdm_ok s"
    using assms(1) by (auto simp: boot_ok_def vmm_wf_def boot_view_def pmm_wf_def hhdm_ok_def)
  have range: "unat ?b + 4096 * ?n \<le> 2 ^ 47"
    using ok(6) bitmap_pages_le [OF ok(4)] by (simp add: pmm_wf_def PAGE_SIZE_def)
  have ne: "pmm_avail s \<noteq> {}" using assms(2) by (auto simp: boot_tables_needed_def)
  then have "0 < total_pages s" by (auto simp: pmm_avail_def)
  then have "unat ?b < 2 ^ 47" using ok(6) by (simp add: pmm_wf_def PAGE_SIZE_def)
  then have hb: "unat (?h + ?b) = unat ?h + unat ?b"
    using ok(7) by (subst unat_plus_no_overflow) (auto simp: hhdm_ok_def)
  then have nz: "?h + ?b \<noteq> 0" using ok(6) by (auto simp: pmm_wf_def unat_eq_zero [symmetric])
  obtain new u t0 where t0: "alloc_table (kprint ''VMM...'' s) = Some (new, u)"
      "t0 = copy_upper_half (physical_to_virtual new u) (physical_to_virtual (cr3 s AND PAGE_MASK) s) (u\<lparr>current_pml4 := new\<rparr>)"
      "vmm_wf t0" "\<And>w. vmm_lookup t0 w = (if 256 \<le> PML4_INDEX w then vmm_lookup (boot_view s) w else None)"
      "pmm_avail t0 = pmm_avail s - {new}" "new \<in> pmm_avail s" "is_frame new"
      "boot_fields t0 = boot_fields (s\<lparr>current_pml4 := new\<rparr>)"
    using boot_root [OF assms(1) ne] by metis
  define ms where "ms = concat (map entry_ops es)"
  define bs where "bs = range_ops (?h + ?b) ?b ?n"
  have "unat (?h + ?b) + 4096 * ?n \<le> 2 ^ 64" using ok(7) range hb by (simp add: hhdm_ok_def)
  then have "card (prefixes bs) \<le> range_tables ?n" unfolding bs_def by (rule card_range_prefixes)
  moreover have "card (prefixes ms) \<le> memmap_tables es" unfolding ms_def by (rule card_memmap_prefixes [OF ok(2)])
  moreover have "card (prefixes (ms @ bs)) \<le> card (prefixes ms) + card (prefixes bs)" by (simp add: card_Un_le)
  moreover have "card (pmm_avail t0) = card (pmm_avail s) - 1"
    using t0(5,6) by (simp add: pmm.finite_avail)
  ultimately have "n + 3 * card (missing_tables (ms @ bs) t0) \<le> card (pmm_avail t0)"
    using assms(2) card_missing [of "ms @ bs" t0] by (simp add: boot_tables_needed_def)
  moreover have "list_all op_ok (ms @ bs)"
    by (auto simp: ms_def bs_def entry_ops_def list_all_iff range_ops_def)
  ultimately obtain t2 where t2: "vmm_run (ms @ bs) t0 = Some t2" "vmm_wf t2"
      "vmm_lookup t2 = fold map_op (ms @ bs) (vmm_lookup t0)" "pmm_avail t2 \<subseteq> pmm_avail t0" "n \<le> card (pmm_avail t2)"
    using vmm_run_spec [OF t0(3)] by metis
  then obtain t1 where t1: "vmm_run ms t0 = Some t1" "vmm_run bs t1 = Some t2"
    by (auto simp: vmm_run_append bind_eq_Some_conv)
  have f1: "boot_fields t1 = boot_fields (s\<lparr>current_pml4 := new\<rparr>)"
    using memmap_fields [OF t1(1) [unfolded ms_def]] t0(8) by simp
  have f2: "boot_fields t2 = boot_fields (s\<lparr>current_pml4 := new\<rparr>)"
    using range_fields [OF t1(2) [unfolded bs_def]] f1 by simp
  define t where "t = kok (vmm_load_cr3 (current_pml4 t2) t2)"
  have m0: "map_memmap es t0 = Some t1" using map_memmap_run [of es t0, OF ok(2)] t1(1) by (simp add: ms_def)
  have g1: "g_hhdm_offset t1 = ?h" "pmm_bitmap_addr t1 = ?h + ?b" "bitmap_pages t1 = ?n"
    using f1 ok(3) by (simp_all add: boot_fields_def bitmap_pages_def)
  note bitmap = bitmap_step [of t1 ?b, unfolded g1, OF refl nz, folded bs_def, unfolded t1(2)]
  have g0: "g_memmap t0 = Some es" using t0(8) ok(1) by (simp add: boot_fields_def)
  let ?s0 = "kprint ''VMM...'' s"
  have c0: "copy_upper_half (physical_to_virtual new (u\<lparr>current_pml4 := new\<rparr>))
      (physical_to_virtual (cr3 ?s0 AND PAGE_MASK) ?s0) (u\<lparr>current_pml4 := new\<rparr>) = t0"
    by (simp add: t0(2) physical_to_virtual_def console_defs)
  have "init_vmm s = Some t"
    unfolding init_vmm_def Let_def t0(1) Option.bind.bind_lunit prod.case c0 g0 m0 bitmap g1(2) t_def ..
  have cur: "current_pml4 t2 = new" "vmm_state.more t2 = vmm_state.more s" using f2 by (simp_all add: boot_fields_def)
  have masked: "new AND PAGE_MASK = new" using t0(7) by (simp add: is_frame_def)
  have cong: "vmm_wf t = vmm_wf t2" "vmm_lookup t w = vmm_lookup t2 w" "pmm_avail t = pmm_avail t2" for w
    by (rule vmm_wf_cong; simp add: t_def vmm_load_cr3_def console_defs cur masked)+
  have "vm_ok t {}"
    using cong(1) t2(2) by (auto simp: vm_ok_def vmm_wf_def backed_def) (simp add: t_def vmm_load_cr3_def console_defs)
  moreover have "vmm_lookup t = boot_map es s (vmm_lookup (boot_view s))"
  proof
    fix w
    have "vmm_lookup t w = fold map_op bs (fold map_op ms (vmm_lookup t0)) w" using cong(2) t2(3) by simp
    also have "\<dots> = (if in_range (?h + ?b) ?n w then Some (low_frame (w - ?h)) else fold map_op ms (vmm_lookup t0) w)"
      unfolding bs_def by (rule fold_bitmap [OF ok(5) range])
    also have "fold map_op ms (vmm_lookup t0) w = (if usable_page es w then Some (low_frame w) else vmm_lookup t0 w)"
      unfolding ms_def by (rule fold_memmap [OF ok(2)])
    finally show "vmm_lookup t w = boot_map es s (vmm_lookup (boot_view s)) w"
      using t0(4) by (simp add: boot_map_def ok(3))
  qed
  ultimately show ?thesis
    using that [of t] \<open>init_vmm s = Some t\<close> cong(3) t2(4,5) t0(5) cur(2)
    by (auto simp: t_def vmm_load_cr3_def console_defs)
qed

section \<open>Properties\<close>

text \<open>C3: when the boot loader's tables are well formed and enough pages are free, \<open>init_vmm\<close> completes
  and the processor then uses tables that map every usable page to itself, the bitmap into the direct
  map, and everything else as the boot loader did in the upper half and not at all in the lower.\<close>

theorem init_vmm_maps:
  assumes "boot_ok es s" "boot_tables_needed es s \<le> card (pmm_avail s)"
  shows "\<exists>t. init_vmm s = Some t \<and> vm_ok t {} \<and> vmm_lookup t = boot_map es s (vmm_lookup (boot_view s)) \<and>
    pmm_avail t \<subseteq> pmm_avail s"
  using init_vmm_spec [of es s 0] assms by fastforce

definition boot_memmap :: "limine_memmap_entry list" where
  "boot_memmap = [\<lparr>me_base = 0x100000, me_length = 0x10000, me_type = 0\<rparr>, \<lparr>me_base = 0x200000, me_length = 0x8000, me_type = 5\<rparr>]"

definition boot_example :: vmm_state where
  "boot_example = vmm_example\<lparr>pmem := loader_pmem 0xFFFF800000000000, cr3 := 0x200000, current_pml4 := 0, pmm_bitmap := [0x01, 0x00],
     g_memmap := Some boot_memmap\<rparr>"

lemma boot_example_ok:
  "boot_ok boot_memmap boot_example"
  "card (pmm_avail boot_example) = 15"
proof -
  have pwf: "pmm_wf boot_example" by (simp add: pmm_wf_def boot_example_def vmm_example_def PAGE_SIZE_def)
  let ?I = "{i. i < total_pages boot_example \<and> \<not> BIT_TEST (pmm_bitmap boot_example) i}"
  have "?I = set (filter (\<lambda>i. \<not> BIT_TEST (pmm_bitmap boot_example) i) [0..<16])"
    by (auto simp: boot_example_def vmm_example_def)
  also have "\<dots> = set [1..<16]"
    by (simp add: boot_example_def vmm_example_def upt_rec BIT_TEST_def del: set_upt)
  finally have I: "?I = {1..<16}" by simp
  have "inj_on (page_addr boot_example) ?I"
    using page_addr_inj [OF pwf] by (intro inj_onI) blast
  then show "card (pmm_avail boot_example) = 15"
    unfolding pmm_avail_def by (subst card_image) (simp_all add: I)
  have "f \<notin> pmm_avail boot_example" if "f \<in> dom loader_levels" for f
  proof
    assume "f \<in> pmm_avail boot_example"
    then obtain i where "i < 16" "f = page_addr boot_example i"
      by (auto simp: pmm_avail_def) (simp add: boot_example_def vmm_example_def)
    then have "unat f < 0x200000"
      using unat_page_addr [OF pwf, of i] by (simp add: boot_example_def vmm_example_def PAGE_SIZE_def)
    then show False using that by (auto simp: loader_levels_def split: if_splits)
  qed
  then have "levels_ok (boot_view boot_example) loader_levels"
    by (intro loader_levels_ok)
       (simp_all add: boot_view_def boot_example_def vmm_example_def PAGE_MASK_def pmm_avail_def page_addr_def)
  then have "vmm_wf (boot_view boot_example)"
    using pwf by (auto simp: vmm_wf_def hhdm_ok_def pmm_wf_def boot_view_def) (simp_all add: boot_example_def vmm_example_def)
  then show "boot_ok boot_memmap boot_example"
    by (simp add: boot_ok_def boot_memmap_def usable_def LIMINE_MEMMAP_USABLE_def region_ok_def PAGE_SIZE_def)
       (simp add: boot_example_def boot_memmap_def vmm_example_def)
qed

theorem init_vmm_maps_witness:
  "\<exists>t. init_vmm boot_example = Some t \<and> vmm_lookup t 0x104ABC = Some 0x104000 \<and>
     vmm_lookup t 0xFFFF800000100010 = Some 0x100000 \<and> vmm_lookup t 0xFFFFFFFF80000000 = Some 0x300000 \<and> vmm_lookup t 0x200000 = None"
proof -
  let ?es = boot_memmap
  have n: "bitmap_pages boot_example = 1" by (simp add: bitmap_pages_def boot_example_def vmm_example_def)
  have "boot_tables_needed ?es boot_example \<le> card (pmm_avail boot_example)"
    unfolding boot_example_ok(2)
    by (simp add: boot_tables_needed_def n memmap_tables_def range_tables_def pages_of_def usable_def LIMINE_MEMMAP_USABLE_def boot_memmap_def)
  from init_vmm_maps [OF boot_example_ok(1) this] obtain t where
    t: "init_vmm boot_example = Some t" "vmm_lookup t = boot_map ?es boot_example (vmm_lookup (boot_view boot_example))"
    by blast
  have b: "in_range (pmm_bitmap_addr boot_example) 1 w \<longleftrightarrow> same_page w 0xFFFF800000100000" for w
    by (simp add: in_range_def boot_example_def vmm_example_def)
  have u: "usable_page ?es w \<longleftrightarrow> (\<exists>k<16. same_page w (0x100000 + of_nat k * PAGE_SIZE_VMM))" for w
    by (simp add: usable_page_def in_range_def usable_def LIMINE_MEMMAP_USABLE_def pages_of_def boot_memmap_def)
  have u1: "usable_page ?es 0x104ABC"
    unfolding u by (rule exI [of _ 4]) (simp add: same_page_def PAGE_SIZE_VMM_def)
  have above: "\<not> usable_page ?es w" if w: "0x200000 \<le> low_frame w" for w
  proof
    assume "usable_page ?es w"
    then obtain k where k: "k < 16" "same_page w (0x100000 + of_nat k * PAGE_SIZE_VMM)" unfolding u by blast
    have "unat (0x100000 + of_nat k * PAGE_SIZE_VMM) < 2 ^ 48" using unat_page_offset [of "0x100000" 16 k] k(1) by simp
    from same_page_frame [OF k(2) this] have "(0x100000 + of_nat k * PAGE_SIZE_VMM) AND PAGE_MASK = low_frame w" by simp
    then have "low_frame w \<le> 0x100000 + of_nat k * PAGE_SIZE_VMM" by (metis word_and_le2 and.commute)
    then show False using w unat_page_offset [of "0x100000" 16 k] k(1) by (simp add: word_le_nat_alt)
  qed
  have u2: "\<not> usable_page ?es 0x200000" "\<not> usable_page ?es 0xFFFFFFFF80000000"
    by (rule above; simp add: low_frame_def PAGE_MASK_def)+
  have old: "vmm_lookup (boot_view boot_example) 0xFFFFFFFF80000000 = Some 0x300000"
    by (rule loader_lookup(2)) (simp_all add: boot_view_def boot_example_def vmm_example_def PAGE_MASK_def)
  have h: "g_hhdm_offset boot_example = 0xFFFF800000000000" by (simp add: boot_example_def vmm_example_def)
  have "vmm_lookup t 0x104ABC = Some 0x104000" "vmm_lookup t 0xFFFF800000100010 = Some 0x100000"
    "vmm_lookup t 0xFFFFFFFF80000000 = Some 0x300000" "vmm_lookup t 0x200000 = None"
    by (simp_all add: t(2) boot_map_def n b [unfolded One_nat_def] u1 u2 old h same_page_def low_frame_def
        PAGE_MASK_def PML4_INDEX_def)
  then show ?thesis using t(1) by blast
qed

section \<open>Large pages\<close>

text \<open>What the processor does with an address whose page-directory entry may be a 2 MiB page.\<close>

definition hw_translate :: "'a vmm_state_scheme \<Rightarrow> u64 \<Rightarrow> u64 option" where
  "hw_translate s v =
     Option.bind (next_table s (current_pml4 s) (PML4_INDEX v)) (\<lambda>f3.
     Option.bind (next_table s f3 (PDPT_INDEX v)) (\<lambda>f2.
       let e = pmem s (entry_addr s f2 (PD_INDEX v)) in
       if e AND VMM_PRESENT = 0 then None
       else if e AND VMM_HUGE \<noteq> 0 then Some ((e AND PAGE_MASK) + take_bit 21 v)
       else map_option (\<lambda>f. f OR (v AND (PAGE_SIZE_VMM - 1))) (next_table s (e AND PAGE_MASK) (PT_INDEX v))))"

text \<open>C36: \<open>walk\<close> never looks at \<open>VMM_HUGE\<close>.  Mapping an address that lies in a large page changes
  nothing about its translation; the entry is stored into the memory of the large page itself, at the
  offset the page number selects.\<close>

theorem vmm_map_large_page:
  assumes "next_table s (current_pml4 s) (PML4_INDEX v) = Some f3" "next_table s f3 (PDPT_INDEX v) = Some f2"
    "pmem s (entry_addr s f2 (PD_INDEX v)) = large OR VMM_HUGE OR VMM_PRESENT" "is_frame large"
    "large \<notin> {current_pml4 s, f3, f2}" "is_frame (current_pml4 s)"
  shows "\<exists>t. vmm_map v p flags s = Some t \<and>
    pmem t = (pmem s)(physical_to_virtual (large + 8 * PT_INDEX v) s := (p AND PAGE_MASK) OR flags OR VMM_PRESENT) \<and>
    hw_translate t v = Some (large + take_bit 21 v) \<and> hw_translate s v = Some (large + take_bit 21 v)"
proof -
  let ?pde = "entry_addr s f2 (PD_INDEX v)" and ?r = "current_pml4 s"
  have huge: "VMM_HUGE AND PAGE_MASK = 0" by (simp add: VMM_HUGE_def PAGE_MASK_def)
  note bits = frame_entry_bits [OF assms(4) huge, folded assms(3)]
  have "(large OR VMM_HUGE OR VMM_PRESENT) AND VMM_HUGE \<noteq> 0"
  proof -
    have "bit ((large OR VMM_HUGE OR VMM_PRESENT) AND VMM_HUGE) 7"
      by (simp add: bit_and_iff bit_or_iff VMM_HUGE_def bit_push_bit_iff)
    then show ?thesis by (metis bit_0_eq bot_apply bot_bool_def)
  qed
  then have hbit: "pmem s ?pde AND VMM_HUGE \<noteq> 0" using assms(3) by simp
  have n2: "next_table s f2 (PD_INDEX v) = Some large" using bits by (simp add: next_table_def)
  have leaf: "leaf_table s v = Some large"
    using assms(1,2) n2 by (simp add: leaf_table_def level_index_simps)
  define a where "a = entry_addr s large (PT_INDEX v)"
  define t where "t = invlpg v (s\<lparr>pmem := (pmem s)(a := (p AND PAGE_MASK) OR flags OR VMM_PRESENT)\<rparr>)"
  have map: "vmm_map v p flags s = Some t"
    using walk_present [OF leaf, of True] by (simp add: vmm_map_def t_def a_def level_index_simps)
  have frames: "is_frame f3" "is_frame f2"
    using assms(1,2) by (auto simp: next_table_def Let_def split: if_splits)
  have other: "entry_addr s f i \<noteq> a" if "is_frame f" "f \<noteq> large" "i < 512" for f i
    using entry_addr_inj [OF that(1) assms(4) that(3), of "PT_INDEX v" s] that(2) by (simp add: a_def level_index_simps)
  have nt: "next_table t f i = next_table s f i" if "is_frame f" "f \<noteq> large" "i < 512" for f i
    using other [OF that] by (simp add: next_table_target t_def)
  have e: "pmem t ?pde = pmem s ?pde" "entry_addr t f2 (PD_INDEX v) = ?pde" "current_pml4 t = ?r"
    using other [OF frames(2), of "PD_INDEX v"] assms(5) by (simp_all add: t_def level_index_simps) (auto simp: invlpg_def)
  have "hw_translate s v = Some (large + take_bit 21 v)"
    using assms(1,2) bits hbit by (simp add: hw_translate_def Let_def)
  moreover have "next_table t ?r (PML4_INDEX v) = Some f3" "next_table t f3 (PDPT_INDEX v) = Some f2"
    using assms(1,2,5,6) frames nt [of ?r "PML4_INDEX v"] nt [of f3 "PDPT_INDEX v"] by (auto simp: level_index_simps)
  then have "hw_translate t v = Some (large + take_bit 21 v)"
    using bits hbit e by (simp add: hw_translate_def Let_def)
  moreover have "a = physical_to_virtual (large + 8 * PT_INDEX v) s"
    by (simp add: a_def entry_addr_def physical_to_virtual_def add.assoc)
  ultimately show ?thesis using map by (auto simp: t_def invlpg_def)
qed

text \<open>The direct map of a boot loader that uses a 2 MiB page for the memory of the bitmap.\<close>

definition large_example :: vmm_state where
  "large_example = vmm_example\<lparr>pmem := (\<lambda>_. 0)
     (0xFFFF800000101800 := 0x300003, 0xFFFF800000300000 := 0x301003, 0xFFFF800000301000 := 0x400081)\<rparr>"

theorem vmm_map_large_page_witness:
  "\<exists>t. vmm_map 0xFFFF800000105000 0x105000 VMM_WRITE large_example = Some t \<and>
     pmem t 0xFFFF800000400828 = 0x105003 \<and> hw_translate t 0xFFFF800000105000 = Some 0x505000"
proof -
  have w: "next_table large_example (current_pml4 large_example) (PML4_INDEX 0xFFFF800000105000) = Some 0x300000"
    "next_table large_example 0x300000 (PDPT_INDEX 0xFFFF800000105000) = Some 0x301000"
    "pmem large_example (entry_addr large_example 0x301000 (PD_INDEX 0xFFFF800000105000)) = 0x400000 OR VMM_HUGE OR VMM_PRESENT"
    by (simp_all add: next_table_def entry_addr_def large_example_def vmm_example_def PML4_INDEX_def PDPT_INDEX_def
        PD_INDEX_def VMM_PRESENT_def VMM_HUGE_def PAGE_MASK_def)
  have f: "is_frame 0x400000" "0x400000 \<notin> {current_pml4 large_example, 0x300000, 0x301000}"
    "is_frame (current_pml4 large_example)"
    by (simp_all add: is_frame_def PAGE_MASK_def large_example_def vmm_example_def)
  from vmm_map_large_page [OF w f, of "0x105000" VMM_WRITE] obtain t where
    t: "vmm_map 0xFFFF800000105000 0x105000 VMM_WRITE large_example = Some t"
      "pmem t = (pmem large_example)(physical_to_virtual (0x400000 + 8 * PT_INDEX 0xFFFF800000105000) large_example :=
         (0x105000 AND PAGE_MASK) OR VMM_WRITE OR VMM_PRESENT)"
      "hw_translate t 0xFFFF800000105000 = Some (0x400000 + take_bit 21 0xFFFF800000105000)" by blast
  have "physical_to_virtual (0x400000 + 8 * PT_INDEX 0xFFFF800000105000) large_example = 0xFFFF800000400828"
    by (simp add: physical_to_virtual_def PT_INDEX_def large_example_def vmm_example_def)
  then have "pmem t 0xFFFF800000400828 = 0x105003"
    by (simp add: t(2) PAGE_MASK_def VMM_WRITE_def VMM_PRESENT_def)
  moreover have "hw_translate t 0xFFFF800000105000 = Some 0x505000" using t(3) by simp
  ultimately show ?thesis using t(1) by blast
qed

end
