(* ===== verification/Boot_Correct.thy ===== *)
theory Boot_Correct
  imports Boot Vmm_Boot Heap_Remap
begin

text \<open>
  The memory half of the boot sequence, composed: on a machine whose boot loader used 4 KiB pages and did not share page tables,
  \<open>init_mmu\<close>, \<open>init_pmm\<close>, \<open>init_vmm\<close> and \<open>init_kheap\<close> establish the invariant every lemma on the kernel heap
  starts from; and the heap they set up lies in the direct map of the physical memory.
\<close>

section \<open>What the kernel needs of the boot loader\<close>

text \<open>The tables the processor uses at boot, seen before any page is managed.  \<open>loader_ok\<close> is a condition on the machine, not a promise of
  the boot protocol: the usable regions are page-aligned and lie below \<open>2 ^ 47\<close>, the direct map leaves room for them, and
  the tables are a tree of 4 KiB mappings outside the usable memory.  The protocol leaves the boot loader free to use large pages, and
  then the kernel's walk, which does not look for them, corrupts memory (\<open>Vmm_Boot\<close>).\<close>

definition loader_view :: "u64 \<Rightarrow> 'a vmm_state_scheme \<Rightarrow> 'a vmm_state_scheme" where
  "loader_view h s = s\<lparr>g_hhdm_offset := h, total_pages := 0, current_pml4 := cr3 s AND PAGE_MASK\<rparr>"

definition loader_ok :: "limine_memmap_entry list \<Rightarrow> u64 \<Rightarrow> 'a vmm_state_scheme \<Rightarrow> bool" where
  "loader_ok es h s \<longleftrightarrow> (\<forall>e\<in>set es. usable e \<longrightarrow> region_ok e) \<and>
     h \<noteq> 0 \<and> unat h mod 4096 = 0 \<and> unat h + 2 ^ 47 \<le> 2 ^ 64 \<and>
     (\<exists>lv. levels_ok (loader_view h s) lv \<and> (\<forall>f\<in>dom lv. \<not> usable_page es f))"

text \<open>The pages the boot sequence takes of the region it manages: the bitmap, the tables of
  \<open>init_vmm\<close>, and the first page of the heap with its tables.\<close>

definition region_bitmap_pages :: "limine_memmap_entry \<Rightarrow> nat" where
  "region_bitmap_pages e = ((unat (me_length e) div PAGE_SIZE + 7) div 8 + 4095) div 4096"

definition boot_pages_needed :: "limine_memmap_entry list \<Rightarrow> limine_memmap_entry \<Rightarrow> nat" where
  "boot_pages_needed es e = region_bitmap_pages e +
     (1 + 3 * (memmap_tables es + range_tables (region_bitmap_pages e))) + 4"

section \<open>The physical pages\<close>

lemma init_pmm_frame:
  assumes "init_pmm s = Some t"
  shows "g_hhdm_offset t = g_hhdm_offset s" "g_memmap t = g_memmap s" "pmm_state.more t = pmm_state.more s"
  using assms by (auto simp: init_pmm_def Let_def console_defs split: option.splits)

lemma init_pmm_boot:
  fixes s :: "'a vmm_state_scheme"
  assumes "g_memmap s = Some es" "find_biggest None es = Some e" "loader_ok es (g_hhdm_offset s) s"
  obtains t where "init_pmm s = Some t" "boot_ok es t" "bitmap_pages t = region_bitmap_pages e"
    "card (pmm_avail t) = unat (me_length e) div PAGE_SIZE - region_bitmap_pages e"
proof -
  let ?n = "unat (me_length e) div PAGE_SIZE" and ?h = "g_hhdm_offset s"
  have e: "e \<in> set es" "usable e" using find_biggest_Some [OF assms(2)] nth_mem by blast+
  have ok: "\<forall>e\<in>set es. usable e \<longrightarrow> region_ok e" "?h \<noteq> 0" "unat ?h mod 4096 = 0" "unat ?h + 2 ^ 47 \<le> 2 ^ 64"
    using assms(3) by (simp_all add: loader_ok_def)
  obtain lv where lv: "levels_ok (loader_view ?h s) lv" "\<forall>f\<in>dom lv. \<not> usable_page es f"
    using assms(3) by (auto simp: loader_ok_def)
  have r: "region_ok e" using ok(1) e by blast
  obtain t where t: "init_pmm s = Some t" "pmm_wf t" "managed_base t = me_base e" "total_pages t = ?n"
      "pmm_bitmap_size t = (?n + 7) div 8" "pmm_bitmap_addr t = ?h + me_base e"
      "\<forall>i < ?n. BIT_TEST (pmm_bitmap t) i \<longleftrightarrow> i < ((?n + 7) div 8 + PAGE_SIZE - 1) div PAGE_SIZE"
    using init_pmm_state [OF assms(1,2) r] by blast
  have bp: "((?n + 7) div 8 + PAGE_SIZE - 1) div PAGE_SIZE = region_bitmap_pages e" "bitmap_pages t = region_bitmap_pages e"
    using t(5) by (simp_all add: region_bitmap_pages_def bitmap_pages_def PAGE_SIZE_def)
  note frame = init_pmm_frame [OF t(1)]
  have same: "pmem t = pmem s" "cr3 t = cr3 s" "current_pml4 t = current_pml4 s"
    using frame(3) by (cases s; cases t; simp)+
  have avail: "pmm_avail t = page_addr t ` {region_bitmap_pages e..<?n}"
  proof -
    have "{i. i < total_pages t \<and> \<not> BIT_TEST (pmm_bitmap t) i} = {region_bitmap_pages e..<?n}"
      using t(4) t(7) [unfolded bp(1)] by auto
    then show ?thesis by (simp add: pmm_avail_def)
  qed
  have "inj_on (page_addr t) {region_bitmap_pages e..<?n}"
    using page_addr_inj [OF t(2)] t(4) by (intro inj_onI) auto
  then have card: "card (pmm_avail t) = ?n - region_bitmap_pages e" by (simp add: avail card_image)
  have usable: "usable_page es f" if "f \<in> pmm_avail t" for f
  proof -
    obtain i where i: "i < ?n" "f = page_addr t i" using \<open>f \<in> pmm_avail t\<close> avail by auto
    have "f = me_base e + of_nat i * PAGE_SIZE_VMM"
      using i(2) t(3) by (simp add: page_addr_def PAGE_SIZE_def PAGE_SIZE_VMM_def)
    moreover have "?n \<le> pages_of e" by (simp add: pages_of_def PAGE_SIZE_def div_le_mono)
    then have "i < pages_of e" using i(1) by simp
    ultimately show ?thesis using e by (auto simp: usable_page_def in_range_def same_page_def)
  qed
  have nt: "next_table (boot_view t) f i = next_table (loader_view ?h s) f i" for f i
    by (simp add: next_table_def entry_addr_def boot_view_def loader_view_def same frame)
  have av: "pmm_avail (boot_view t) = pmm_avail t" by (simp add: boot_view_def pmm_avail_def page_addr_def)
  have cur: "current_pml4 (boot_view t) = current_pml4 (loader_view ?h s)"
    by (simp add: boot_view_def loader_view_def same)
  have "f \<notin> pmm_avail t" if "lv f = Some l" for f l using lv(2) usable that by blast
  then have "levels_ok (boot_view t) lv"
    using lv(1) unfolding levels_ok_def nt av cur by (elim conjE, intro conjI) (assumption | blast)+
  moreover have "pmm_wf (boot_view t)" "hhdm_ok (boot_view t)"
    using t(2) ok(2,4) frame(1) by (simp_all add: boot_view_def pmm_wf_def hhdm_ok_def)
  ultimately have "vmm_wf (boot_view t)" by (auto simp: vmm_wf_def)
  then have "boot_ok es t"
    using frame assms(1) ok t(3-6) by (simp add: boot_ok_def)
  then show ?thesis using that t(1) bp(2) card by blast
qed

section \<open>The whole sequence\<close>

lemma fold_kprint: "fold kprint ms s = s\<lparr>kout := kout s @ map Print ms\<rparr>"
  by (induction ms arbitrary: s) (simp_all add: console_defs)

lemma levels_ok_cong:
  assumes "pmem t = pmem s" "g_hhdm_offset t = g_hhdm_offset s" "current_pml4 t = current_pml4 s"
    "total_pages t = 0" "total_pages s = 0"
  shows "levels_ok t lv = levels_ok s lv"
proof -
  have "next_table t f i = next_table s f i" for f i by (simp add: next_table_def entry_addr_def assms)
  moreover have "pmm_avail t = {}" "pmm_avail s = {}" by (simp_all add: pmm_avail_def assms)
  ultimately show ?thesis by (simp add: levels_ok_def assms(3))
qed

lemma init_memory_spec:
  assumes "hhdm_response env = Some h" "memmap_response env = Some es" "find_biggest None es = Some e"
    "loader_ok es h s" "boot_pages_needed es e \<le> unat (me_length e) div PAGE_SIZE"
  obtains t where "init_memory env s = Some t" "heap_ok t [(4072, True)]" "heap_current t = HEAP_START"
proof -
  define s1 where "s1 = kok ((kprint ''MMU...'' ((fold kprint banner s)\<lparr>g_hhdm_offset := h\<rparr>))\<lparr>g_memmap := Some es\<rparr>)"
  have s1: "init_mmu (Some es) ((fold kprint banner s)\<lparr>g_hhdm_offset := h\<rparr>) = Some s1"
    by (simp add: init_mmu_def Let_def s1_def console_defs)
  have f: "g_hhdm_offset s1 = h" "g_memmap s1 = Some es" "pmem s1 = pmem s" "cr3 s1 = cr3 s"
    by (simp_all add: s1_def console_defs fold_kprint)
  have "levels_ok (loader_view h s1) lv = levels_ok (loader_view h s) lv" for lv
    by (rule levels_ok_cong) (simp_all add: loader_view_def f)
  then have "loader_ok es (g_hhdm_offset s1) s1" using assms(4) f by (simp add: loader_ok_def)
  then obtain s2 where s2: "init_pmm s1 = Some s2" "boot_ok es s2" "bitmap_pages s2 = region_bitmap_pages e"
      "card (pmm_avail s2) = unat (me_length e) div PAGE_SIZE - region_bitmap_pages e"
    using init_pmm_boot [OF f(2) assms(3)] by metis
  have "4 + boot_tables_needed es s2 \<le> card (pmm_avail s2)"
    using assms(5) s2(3,4) by (simp add: boot_pages_needed_def boot_tables_needed_def)
  then obtain s3 where s3: "init_vmm s2 = Some s3" "vm_ok s3 {}" "4 \<le> card (pmm_avail s3)"
    using init_vmm_spec [OF s2(2)] by metis
  obtain t where "init_kheap s3 = Some (4072, t)" "heap_ok t [(4072, True)]" "heap_current t = HEAP_START"
    using init_kheap_spec [OF s3(2,3)] by metis
  then show ?thesis
    using that [of t] assms(1,2) s1 s2(1) s3(1) by (simp add: init_memory_def Let_def)
qed

section \<open>The heap and the direct map\<close>

text \<open>The header of the first block is written through the new mapping and changes no table.\<close>

lemma init_kheap_lookup:
  assumes "vm_ok s {}" "4 \<le> card (pmm_avail s)" "init_kheap s = Some (4072, t)"
  obtains f where "f \<in> pmm_avail s" "\<And>g. g \<in> pmm_avail s \<Longrightarrow> f \<le> g" "g_hhdm_offset t = g_hhdm_offset s"
    "\<And>w. vmm_lookup t w = (if same_page w HEAP_START then Some f else vmm_lookup s w)"
proof -
  define s0 where "s0 = s\<lparr>heap_current := HEAP_START\<rparr>"
  have v0: "vm_view s0 = vm_view s" by (simp add: s0_def)
  have ok0: "vm_ok s0 {}" "pmm_avail s0 = pmm_avail s" using vm_view_cong [OF v0] assms(1) by simp_all
  have wf0: "pmm_wf s0" using ok0(1) by (simp add: vm_ok_def)
  obtain p s1 where p: "pmm_alloc_page s0 = (p, s1)" by (cases "pmm_alloc_page s0")
  have ne: "pmm_avail s0 \<noteq> {}" using assms(2) ok0(2) by auto
  note al = pmm_alloc_some [OF wf0 ne p]
  define s1' where "s1' = kprint ''Kheap...'' s1"
  have p': "pmm_alloc_page (kprint ''Kheap...'' s0) = (p, s1')" by (simp add: pmm_alloc_kprint p s1'_def)
  have hc: "heap_current s1' = HEAP_START"
    using vmm_more_kheap(2) [OF pmm_alloc_more(5) [OF p]] by (simp add: s0_def s1'_def console_defs)
  obtain s2 v1 v2 v3 where m: "vmm_map HEAP_START p (VMM_PRESENT OR VMM_WRITE) s1' = Some s2"
      and w: "set_block_size (heap_current s2) (PAGE_SIZE_VMM - sizeof_block_header) (s2\<lparr>free_list := heap_current s2\<rparr>) = Some v1"
        "set_block_free (free_list v1) 1 v1 = Some v2" "set_block_next (free_list v2) NULL v2 = Some v3" "t = kok v3"
    using assms(3) al(2) hc by (auto simp: init_kheap_def Let_def s0_def [symmetric] p s1'_def [symmetric] bind_eq_Some_conv)
  have okp: "vm_ok (kprint ''Kheap...'' s0) {}" using vm_view_cong(2) [of "kprint ''Kheap...'' s0" s0] ok0(1) by simp
  note mp = vm_ok_map_page [OF okp p' al(2) map_flags m]
  note pv = pmm_alloc_vmm [OF okp p']
  have h2: "heap_current s2 = HEAP_START"
    using vmm_more_kheap(2) [OF mp(3)] by (simp add: s0_def console_defs)
  define s3 where "s3 = s2\<lparr>free_list := HEAP_START\<rparr>"
  let ?D = "page_qwords HEAP_START"
  have D: "HEAP_START \<in> ?D" "HEAP_START + 8 \<in> ?D" "HEAP_START + 16 \<in> ?D"
    by (simp_all add: page_qwords_def aligned8_def canonical_def KERNEL_HALF_def HEAP_START_def same_page_def)
  have ok3: "vm_ok s3 ?D" using mp(1) vm_view_cong(2) [of s3 s2] by (simp add: s3_def)
  have w1: "vwrite HEAP_START (PAGE_SIZE_VMM - sizeof_block_header) s3 = Some v1"
    using w(1) by (simp add: set_block_size_def h2 s3_def)
  have fl: "free_list v1 = HEAP_START" "free_list v2 = HEAP_START"
    using set_block_kheap(1) [OF w(1)] set_block_kheap(2) [OF w(2)] by (simp_all add: h2)
  obtain x where w2: "vwrite (HEAP_START + 8) x v1 = Some v2"
    using w(2) by (auto simp: set_block_free_def fl bind_eq_Some_conv)
  have w3: "vwrite (HEAP_START + 16) NULL v2 = Some v3" using w(3) by (simp add: set_block_next_def fl)
  note l1 = vwrite_lookup [OF ok3 D(1) w1]
  note l2 = vwrite_lookup [OF l1(1) D(2) w2]
  note l3 = vwrite_lookup [OF l2(1) D(3) w3]
  have "is_frame p" using pmm_frames [OF wf0] pmm_avail_managed al(1) by blast
  then have pf: "p AND PAGE_MASK = p" by (simp add: is_frame_def)
  have lk: "vmm_lookup u w = vmm_lookup v w" if "vm_view u = vm_view v" for u v :: "'a kheap_state_scheme" and w
    by (rule vmm_wf_cong(2)) (use that in \<open>simp_all add: vm_view_def\<close>)
  have s3w: "vmm_lookup s3 w = vmm_lookup s2 w" for w by (rule lk) (simp add: s3_def)
  have tw: "vmm_lookup t w = vmm_lookup v3 w" for w by (rule lk) (simp add: w(4))
  have s0w: "vmm_lookup (kprint ''Kheap...'' s0) w = vmm_lookup s w" for w by (rule lk) (simp add: v0)
  have hh: "g_hhdm_offset s2 = g_hhdm_offset s"
    using vmm_map_spec(4) [OF pv(1) map_flags m] pmm_alloc_more(3) [OF p'] by (simp add: s0_def console_defs)
  show ?thesis
  proof (rule that [of p])
    show "p \<in> pmm_avail s" using al(1) ok0(2) by simp
    show "p \<le> g" if "g \<in> pmm_avail s" for g using al(4) that ok0(2) by simp
    show "g_hhdm_offset t = g_hhdm_offset s"
      using l1(3) l2(3) l3(3) hh by (simp add: w(4) s3_def console_defs)
    show "vmm_lookup t w = (if same_page w HEAP_START then Some p else vmm_lookup s w)" for w
      using vmm_map_spec(2) [OF pv(1) map_flags m, of w] l1(2) l2(2) l3(2) pv(2) by (simp add: s3w tw s0w pf)
  qed
qed

section \<open>Properties\<close>


definition loader_memmap :: "limine_memmap_entry list" where
  "loader_memmap = [\<lparr>me_base = 0x100000, me_length = 0x20000, me_type = 0\<rparr>, \<lparr>me_base = 0x200000, me_length = 0x8000, me_type = 5\<rparr>]"

definition boot_example_env :: boot_env where
  "boot_example_env = \<lparr>framebuffer_response = None, hhdm_response = Some 0xFFFF800000000000,
     memmap_response = Some loader_memmap, module_response = None, base_revision_supported = True,
     addr_gdt = 0, addr_tss = 0, addr_idt = 0, isr_stub = (\<lambda>_. 0), irq_stub = (\<lambda>_. 0),
     syscall_entry = 0, idle_task = 0, task_1 = 0, task_2 = 0\<rparr>"

definition boot_example_state :: kheap_state where
  "boot_example_state = kheap_example\<lparr>pmem := loader_pmem 0xFFFF800000000000, cr3 := 0x200000\<rparr>"


text \<open>C37: the heap lies in the direct map.  With the direct map at its usual place, \<open>HEAP_START\<close> is the
  direct-map address of the physical page \<open>0x10000000\<close>; after \<open>init_kheap\<close> that address leads to the
  lowest page that was free, whatever it led to before.\<close>

theorem init_kheap_shadows_direct_map:
  assumes "vm_ok s {}" "4 \<le> card (pmm_avail s)" "g_hhdm_offset s = 0xFFFF800000000000"
  shows "\<exists>t f. init_kheap s = Some (4072, t) \<and> f \<in> pmm_avail s \<and> (\<forall>g\<in>pmm_avail s. f \<le> g) \<and>
    vmm_lookup t (physical_to_virtual 0x10000000 t) = Some f"
proof -
  obtain t where t: "init_kheap s = Some (4072, t)" using init_kheap_spec [OF assms(1,2)] by blast
  obtain f where f: "f \<in> pmm_avail s" "\<And>g. g \<in> pmm_avail s \<Longrightarrow> f \<le> g" "g_hhdm_offset t = g_hhdm_offset s"
      "\<And>w. vmm_lookup t w = (if same_page w HEAP_START then Some f else vmm_lookup s w)"
    by (rule init_kheap_lookup [OF assms(1,2) t]) metis
  have "physical_to_virtual 0x10000000 t = HEAP_START" by (simp add: physical_to_virtual_def f(3) assms(3) HEAP_START_def)
  then show ?thesis using t f(1,2) f(4) [of HEAP_START] by (auto simp: same_page_def)
qed

theorem init_kheap_shadows_direct_map_witness:
  "\<exists>t f. init_kheap kheap_example = Some (4072, t) \<and> f \<noteq> 0x10000000 \<and>
     vmm_lookup t (physical_to_virtual 0x10000000 t) = Some f"
proof -
  have "g_hhdm_offset kheap_example = 0xFFFF800000000000"
    by (simp add: kheap_example_def vmm_state.defs kheap_state.defs vmm_example_def)
  then obtain t f where t: "init_kheap kheap_example = Some (4072, t)" "f \<in> pmm_avail kheap_example"
      "vmm_lookup t (physical_to_virtual 0x10000000 t) = Some f"
    using init_kheap_shadows_direct_map [of kheap_example] kheap_example_ok by auto
  have pa: "pmm_avail kheap_example = pmm_avail vmm_example" using vm_view_cong(3) [OF kheap_example_view] .
  have "unat f < 2 ^ 28"
    using t(2) unat_page_addr [OF vmm_example_pages(1)] unfolding pa
    by (auto simp: pmm_avail_def vmm_example_def PAGE_SIZE_def)
  then have "f \<noteq> 0x10000000" by auto
  then show ?thesis using t by blast
qed

end
