(* ===== verification/Spec2Isabelle.thy ===== *)
theory Spec2Isabelle
  imports Kheap_Clients Klibc_Correct Pic Pit Timer Serial Ps2 Gdt Idt Vterm Errno Printf_Total Isr Process_Props Sched_Fair Slab_Cache
    Thread_Create Vnode_Props Boot_Correct
begin

text \<open>
  A verification library for GoshkikOS, a small kernel for one x86-64 processor, booted by Limine.

  \<^bold>\<open>The program.\<close>  The kernel consists of a memory stack (frame allocator, page tables, heap, slab allocator, hash table), a
  scheduling stack (spinlocks, ready queue, scheduler, mutexes, threads, processes), a virtual file system (vnodes, mounts, name
  cache), drivers (interrupt controller, interval timer, serial port, PS/2), the descriptor tables with the exception and interrupt handlers, and
  output (frame buffer console, formatted output).  Each layer calls only the ones below it, so the state of the model is a
  chain of record extensions, in which the C globals of a module are the fields its record adds:

  \<^item> \<open>cpu_state\<close> (\<open>Ports\<close>): the interrupt flag and the port accesses, with the values the devices return as input streams;
  \<^item> \<open>console\<close> (\<open>Console\<close>): the messages printed, as events;
  \<^item> \<open>mmu_state\<close>, \<open>pmm_state\<close>, \<open>vmm_state\<close>, \<open>kheap_state\<close>: the memory map, the frame bitmap, physical memory with the page tables in it,
    the heap's two pointers;
  \<^item> \<open>sched_state\<close> (threads, processes, kernel table, locks) and \<open>hash_state\<close>, extended by \<open>vfs_manager_t\<close>: two branches above the heap.

  The descriptor tables, the clock, the frame buffer and the character output have records of their own.

  \<^bold>\<open>How code is modelled.\<close>  Machine integers are words and wrap around.  The heap, its block headers, the slabs and the string
  routines work on words and bytes of physical memory that are reached through the page tables, so a store through a mapping can change
  a page table.  Threads, processes, hash entries, vnodes and mounted file systems are typed objects in stores keyed by the
  address the allocator returned; using an address with no object is a \<open>Fault\<close>.  In the lower layers \<open>None\<close> stands for a halt, an access to
  an unmapped address, or a loop that never ends.  In the upper layers (\<open>Outcome\<close>) a call either returns (\<open>Done\<close>) or control leaves it
  for good (\<open>Stop\<close>, with the reason and the state), and \<open>None\<close> is a computation that never ends.  Loops whose end depends on data in
  memory are \<open>partial_function (option)\<close>; there is no fuel, and a theorem that such a loop returns says so with \<open>Some\<close> or \<open>ret\<close>.
  The processor runs one thread of control and the code modelled here runs with interrupts disabled inside critical sections, so
  acquiring a spinlock that is held is a deadlock.

  \<^bold>\<open>Theories, from the bottom up.\<close>

  \<^item> \<open>Kernel_Prelude\<close>, \<open>Interfaces\<close>, \<open>Outcome\<close>, \<open>Fifo\<close>, \<open>Key_Store\<close>: types, word and list lemmas, the control flow of calls, and the contracts
    between components as locales: \<open>frame_allocator\<close> (interpreted by the frame allocator), \<open>fifo_queue\<close> (by the ready queue and by the
    mutexes' wait queues), \<open>key_store\<close> (by the hash table).
  \<^item> \<open>Mmu\<close>, \<open>Pmm\<close> (\<open>mem/mmu/mmu.c\<close>, \<open>mem/pmm/pmm.c\<close>): the biggest usable region carries a bitmap; allocation takes the lowest free page, never
    gives one out twice, and freeing restores it.
  \<^item> \<open>Vmm\<close>, \<open>Vmm_Tables\<close>, \<open>Vmem\<close>, \<open>Vmm_Run\<close>, \<open>Vmm_Init\<close>, \<open>Vmm_Boot\<close> (\<open>mem/vmm/vmm.c\<close>): page tables as words of memory refine a map from
    pages to frames; \<open>vmm_map\<close> and \<open>vmm_unmap\<close> update exactly one page, any sequence of them completes when three pages are free for
    each table that is missing; \<open>init_vmm\<close> builds the kernel's address space from the boot loader's; reading and writing through the tables.
    \<open>Vmm_Boot\<close> also shows what \<open>vmm_map\<close> does to an address inside a large page of the boot loader.
  \<^item> \<open>Kheap\<close>, \<open>Kheap_Blocks\<close>, \<open>Kheap_Correct\<close>, \<open>Kheap_Zero\<close>, \<open>Heap_Frame\<close> (\<open>klibc/kmem/kheap.c\<close>): the header chain refines a list of blocks; first
    fit, splitting, merging, growth, zeroing; what goes wrong at the first growth.
  \<^item> \<open>Kheap_Clients\<close>: the heap as its clients see it, a step relation of allocations, releases and stores; in every reachable state what
    is held is disjoint and keeps what was stored in it.
  \<^item> \<open>Bytes\<close>, \<open>Klibc_Mem\<close>, \<open>Klibc_String\<close>, \<open>Klibc_Correct\<close> (\<open>mem.c\<close>, \<open>string.c\<close>): byte loops over the same memory.
  \<^item> \<open>Slab\<close>, \<open>Slab_Props\<close>, \<open>Slab_Correct\<close>, \<open>Slab_Memory\<close>, \<open>Slab_Fresh\<close>, \<open>Slab_Cache\<close> (\<open>slab.c\<close>): layout of slabs, taking and returning an
    object; memory as a function from words to values, over which a slab refines a stack of free objects; a cache from its creation on the
    heap to the last object of its first page.
  \<^item> \<open>Hashtable\<close>, \<open>Hash_Props\<close>, \<open>Hash_Correct\<close> (\<open>hashtable.c\<close>): the doubly linked chains refine a finite map.
  \<^item> \<open>Vnode\<close>, \<open>Vfs\<close>, \<open>Path\<close>, \<open>Vfs_Props\<close>, \<open>Vnode_Props\<close> (\<open>fs/vfs\<close>): reference counts, vnode cache, mounts, name cache, over the hash table's contract;
    the release of a vnode with the ancestors only it holds, and the pointers this leaves in the cache.  The functions
    of a file system are a parameter, since the repository contains none.
  \<^item> \<open>Spinlock\<close>, \<open>Sched_State\<close>, \<open>Context\<close>, \<open>Ready_Queue\<close>, \<open>Mutex\<close>, \<open>Thread\<close>, \<open>Process\<close>, \<open>Scheduler\<close> with \<open>Sched_Correct\<close>, \<open>Sched_Props\<close>, \<open>Thread_Props\<close>,
    \<open>Process_Props\<close> (\<open>scheduling\<close>): the ready queue is first-in first-out, a tick resumes a thread with the least cooldown and keeps the
    scheduler's invariant; waking up, and where blocking, terminating and registering go wrong.
  \<^item> \<open>Sched_Fair\<close>: runs of the scheduler; a tick refines stride scheduling, and every thread in the queue is resumed within a bound.
  \<^item> \<open>Thread_Create\<close>: a creation from its two allocations to the ready queue, and the first stack when it brings the heap's first growth.
  \<^item> \<open>Ports\<close>, \<open>Pic\<close>, \<open>Pit\<close>, \<open>Timer\<close>, \<open>Serial\<close>, \<open>Ps2\<close>, \<open>Gdt\<close>, \<open>Idt\<close>, \<open>Isr\<close> (\<open>arch/x86_64\<close>): what the devices are programmed to do, the clock, descriptors, exception reports.
  \<^item> \<open>Console\<close>, \<open>Font\<close>, \<open>Vterm\<close>, \<open>Printf\<close>, \<open>Printf_Correct\<close>, \<open>Printf_Total\<close>, \<open>Errno\<close> (\<open>vterm\<close>, \<open>klibc/printf.c\<close>, \<open>klibc/assert.c\<close>): pixels, conversions, messages.
  \<^item> \<open>Boot\<close> (\<open>main.c\<close>): the checks of the boot loader's answers and the initialisations in their order, on a machine that joins the states.
  \<^item> \<open>Boot_Correct\<close>: the memory initialisations composed; from what the boot loader guarantees they complete with the heap ready.  It
    also shows that the heap's address range lies in the direct map.

  \<^bold>\<open>Hypotheses.\<close>  Invariants of a component (\<open>pmm_wf\<close>, \<open>vm_ok\<close>, \<open>heap_ok\<close>, \<open>tick_ok\<close>, \<open>table_map\<close>) are established by its initialisation or by
  an example state, and kept by its operations.  The hash table's theorems assume of the allocators below that the call
  returns a non-null address at which no entry is stored (\<open>entry_room\<close>), and that freeing returns (\<open>entry_returnable\<close>); both are shown to hold
  for a heap with a cache in it.
  Of the boot loader the boot theorems assume the memory map and the page tables its protocol promises (\<open>loader_ok\<close>, \<open>boot_ok\<close>), in
  particular a direct map that covers the physical memory the kernel uses: page tables are words of physical memory that the code
  reaches through that map, and the model reads them at their physical address.

  \<^bold>\<open>Not modelled.\<close>  The endless test tasks of \<open>main.c\<close>; the instructions of the entry stubs, whose effect is part of their
  callers; preemption inside code that runs with interrupts enabled; the translation cache beyond the list of invalidated
  pages; large pages other than
  those of the boot loader, since the code never creates them; the second font \<open>fontosaurus_fnt\<close>, which nothing uses; the file systems and devices, whose source files are empty;
  the headers of the system root, which declare the interface of user programs and which no kernel code includes; the requests of
  the vendored \<open>limine.h\<close> beyond the structures the kernel reads.  Some states are
  more abstract than memory: the objects listed above have no byte layout, so overlapping objects and reads of freed memory
  are faults.
\<close>

end
